(* ===== verification/Go_Prelude.thy ===== *)
theory Go_Prelude
  imports Main "HOL-Library.Word" "HOL-Library.Sublist" "HOL-Library.Multiset"
begin

text \<open>
  Shared vocabulary of the development: the Go types the program uses, the parts of Go's
  \<open>strings\<close>, \<open>sort\<close> and \<open>time\<close> packages that the modelled code calls, left folds that stop at the
  first error, and the lemmas about them that the component theories share.

  \<^item> \<open>u64\<close> is Go's \<open>uint64\<close>: arithmetic wraps, comparison is unsigned.
  \<^item> \<open>gotime\<close> is an instant of \<open>time.Time\<close>, counted in nanoseconds from the zero value of that type
    (January 1 of year 1), so that \<open>IsZero\<close> is equality with 0 and the order is \<open>Before\<close>/\<open>After\<close>.
  \<^item> a Go \<open>string\<close> is the HOL list of its bytes; case folding and white space are those of ASCII.
  \<^item> a function that returns a value and an \<open>error\<close> returns a sum: \<open>Inl\<close> the error, \<open>Inr\<close> the value.
\<close>

named_theorems go_simps \<open>evaluation of the string and list helpers\<close>
named_theorems run_laws \<open>laws of folds that stop at the first error\<close>

type_synonym u64 = "64 word"
type_synonym gotime = int

section \<open>Instants and durations\<close>

definition IsZero :: "gotime \<Rightarrow> bool" where
  "IsZero t \<longleftrightarrow> t = 0"

text \<open>\<open>Time.Sub\<close> saturates at the range of \<open>Duration\<close>, an \<open>int64\<close> of nanoseconds.\<close>

definition sat64 :: "int \<Rightarrow> int" where
  "sat64 d = max (- (2 ^ 63)) (min (2 ^ 63 - 1) d)"

definition time_Sub :: "gotime \<Rightarrow> gotime \<Rightarrow> int" where
  "time_Sub t u = sat64 (t - u)"

text \<open>\<open>Duration.Milliseconds\<close> is Go's integer division, which truncates towards zero.\<close>

definition Milliseconds :: "int \<Rightarrow> int" where
  "Milliseconds d = (if d < 0 then - ((- d) div 1000000) else d div 1000000)"

text \<open>Nanoseconds from the zero instant to the Unix epoch.\<close>

definition unix_epoch :: gotime where
  "unix_epoch = 62135596800 * 1000000000"

definition UnixMilli :: "gotime \<Rightarrow> int" where
  "UnixMilli t = (t - unix_epoch) div 1000000"

lemma sat64_mono: "a \<le> b \<Longrightarrow> sat64 a \<le> sat64 b"
  by (auto simp: sat64_def)

lemma Milliseconds_nonneg: "0 \<le> d \<Longrightarrow> 0 \<le> Milliseconds d"
  by (simp add: Milliseconds_def)

section \<open>Strings\<close>

definition is_space :: "char \<Rightarrow> bool" where
  "is_space c \<longleftrightarrow> c \<in> {CHR 0x09, CHR 0x0A, CHR 0x0B, CHR 0x0C, CHR 0x0D, CHR '' ''}"

definition lower_char :: "char \<Rightarrow> char" where
  "lower_char c = (let n = of_char c :: nat in
     if 65 \<le> n \<and> n \<le> 90 then char_of (n + 32) else c)"

text \<open>The same on the bits of a character, which evaluates without arithmetic.\<close>

lemma lower_char_bits [code]:
  "lower_char (Char b0 b1 b2 b3 b4 b5 b6 b7) =
     Char b0 b1 b2 b3 b4 (b5 \<or> (b6 \<and> \<not> b7 \<and> (b0 \<or> b1 \<or> b2 \<or> b3 \<or> b4) \<and>
       \<not> (b4 \<and> b3 \<and> (b2 \<or> (b1 \<and> b0))))) b6 b7"
  by (cases b0; cases b1; cases b2; cases b3; cases b4; cases b5; cases b6; cases b7)
     (simp_all add: lower_char_def char_of_def bit_0)

definition ToLower :: "string \<Rightarrow> string" where
  "ToLower s = map lower_char s"

definition TrimSpace :: "string \<Rightarrow> string" where
  "TrimSpace s = rev (dropWhile is_space (rev (dropWhile is_space s)))"

definition HasPrefix :: "string \<Rightarrow> string \<Rightarrow> bool" where
  "HasPrefix s p \<longleftrightarrow> take (length p) s = p"

definition HasSuffix :: "string \<Rightarrow> string \<Rightarrow> bool" where
  "HasSuffix s p \<longleftrightarrow> length p \<le> length s \<and> drop (length s - length p) s = p"

definition TrimPrefix :: "string \<Rightarrow> string \<Rightarrow> string" where
  "TrimPrefix s p = (if HasPrefix s p then drop (length p) s else s)"

definition TrimSuffix :: "string \<Rightarrow> string \<Rightarrow> string" where
  "TrimSuffix s p = (if HasSuffix s p then take (length s - length p) s else s)"

text \<open>\<open>strings.IndexByte\<close>: the position of the first occurrence of a byte, \<open>None\<close> for Go's -1.\<close>

fun IndexByte :: "string \<Rightarrow> char \<Rightarrow> nat option" where
  "IndexByte [] c = None"
| "IndexByte (x # xs) c = (if x = c then Some 0 else map_option Suc (IndexByte xs c))"

text \<open>\<open>strings.ReplaceAll\<close> of a one-byte pattern by a string.\<close>

fun ReplaceByte :: "string \<Rightarrow> char \<Rightarrow> string \<Rightarrow> string" where
  "ReplaceByte [] c r = []"
| "ReplaceByte (x # xs) c r = (if x = c then r @ ReplaceByte xs c r else x # ReplaceByte xs c r)"

text \<open>\<open>strings.Fields\<close>: the maximal runs of non-space bytes.\<close>

fun fields_aux :: "string \<Rightarrow> string \<Rightarrow> string list" where
  "fields_aux acc [] = (if acc = [] then [] else [rev acc])"
| "fields_aux acc (x # xs) =
     (if is_space x then (if acc = [] then fields_aux [] xs else rev acc # fields_aux [] xs)
      else fields_aux (x # acc) xs)"

definition Fields :: "string \<Rightarrow> string list" where
  "Fields s = fields_aux [] s"

definition digit_char :: "nat \<Rightarrow> char" where
  "digit_char d = ''0123456789'' ! d"

text \<open>\<open>%d\<close> of a non-negative number, \<open>strconv.FormatUint\<close>\<close>

fun show_nat :: "nat \<Rightarrow> string" where
  "show_nat n = (if n < 10 then [digit_char n] else show_nat (n div 10) @ [digit_char (n mod 10)])"

declare show_nat.simps [simp del]

lemma HasPrefix_iff: "HasPrefix s p \<longleftrightarrow> prefix p s"
  unfolding HasPrefix_def by (metis append_eq_conv_conj append_take_drop_id prefixE prefixI)

lemma HasSuffix_iff: "HasSuffix s p \<longleftrightarrow> suffix p s"
proof
  assume "HasSuffix s p"
  then have "s = take (length s - length p) s @ p"
    unfolding HasSuffix_def by (metis append_take_drop_id)
  then show "suffix p s" by (rule suffixI)
next
  assume "suffix p s"
  then obtain zs where "s = zs @ p" by (rule suffixE)
  then show "HasSuffix s p" by (simp add: HasSuffix_def)
qed

lemma HasPrefix_append [simp]: "HasPrefix (p @ s) p"
  by (simp add: HasPrefix_def)

lemma HasPrefix_Nil [simp]: "HasPrefix s []"
  by (simp add: HasPrefix_def)

lemma HasSuffix_append [simp]: "HasSuffix (s @ p) p"
  by (simp add: HasSuffix_def)

lemma TrimPrefix_append [simp]: "TrimPrefix (p @ s) p = s"
  by (simp add: TrimPrefix_def)

lemma TrimSuffix_append [simp]: "TrimSuffix (s @ p) p = s"
  by (simp add: TrimSuffix_def)

text \<open>\<open>TrimSpace\<close> is trimming on the left and on the right, in either order.\<close>

definition trimRight :: "string \<Rightarrow> string" where
  "trimRight s = rev (dropWhile is_space (rev s))"

lemma trimRight_simps [simp]:
  "trimRight [] = []"
  "trimRight (x # xs) = (if trimRight xs = [] \<and> is_space x then [] else x # trimRight xs)"
  by (auto simp: trimRight_def dropWhile_append dropWhile_eq_Nil_conv)

lemma trimRight_idem [simp]: "trimRight (trimRight s) = trimRight s"
  by (induction s) auto

lemma trim_commute: "dropWhile is_space (trimRight s) = trimRight (dropWhile is_space s)"
  by (induction s) auto

lemma TrimSpace_alt: "TrimSpace s = trimRight (dropWhile is_space s)"
  by (simp add: TrimSpace_def trimRight_def)

lemma TrimSpace_trimRight [simp]: "TrimSpace (trimRight s) = TrimSpace s"
  by (simp add: TrimSpace_alt trim_commute)

lemma trimRight_append: "\<not> is_space c \<Longrightarrow> trimRight (t @ c # p) = t @ c # trimRight p"
  by (induction t) auto

lemma set_trimRight: "set (trimRight s) \<subseteq> set s"
  by (induction s) auto

lemma TrimSpace_no_lead: "TrimSpace s \<noteq> [] \<Longrightarrow> \<not> is_space (hd (TrimSpace s))"
proof -
  assume "TrimSpace s \<noteq> []"
  moreover from this have "hd (TrimSpace s) = hd (dropWhile is_space s)"
    by (cases "dropWhile is_space s") (auto simp: TrimSpace_alt split: if_splits)
  ultimately show ?thesis by (metis TrimSpace_alt hd_dropWhile trimRight_simps(1))
qed

lemma TrimSpace_no_trail: "TrimSpace s \<noteq> [] \<Longrightarrow> \<not> is_space (last (TrimSpace s))"
  unfolding TrimSpace_def by (metis hd_dropWhile last_rev rev.simps(1))

lemma TrimSpace_fixed:
  assumes "p \<noteq> []" and "q \<noteq> []" and "TrimSpace p = p" and "TrimSpace q = q"
  shows "TrimSpace (p @ m @ q) = p @ m @ q"
proof -
  have "\<not> is_space (hd p)" "\<not> is_space (last q)"
    using assms TrimSpace_no_lead [of p] TrimSpace_no_trail [of q] by auto
  with assms(1,2) show ?thesis by (cases p; cases q rule: rev_cases) (auto simp: TrimSpace_def)
qed

lemma IndexByte_None: "IndexByte s c = None \<longleftrightarrow> c \<notin> set s"
  by (induction s) auto

lemma IndexByte_Some:
  "IndexByte s c = Some i \<longleftrightarrow> i < length s \<and> s ! i = c \<and> c \<notin> set (take i s)"
proof (induction s arbitrary: i)
  case Nil
  then show ?case by simp
next
  case (Cons x xs)
  then show ?case by (cases i) auto
qed

lemma IndexByte_append [go_simps]: "c \<notin> set s \<Longrightarrow> IndexByte (s @ c # t) c = Some (length s)"
  by (induction s) auto

text \<open>\<open>strings.Contains\<close>\<close>

fun Contains :: "string \<Rightarrow> string \<Rightarrow> bool" where
  "Contains [] sub = (sub = [])"
| "Contains (c # cs) sub = (HasPrefix (c # cs) sub \<or> Contains cs sub)"

lemma Contains_iff: "Contains s sub \<longleftrightarrow> (\<exists>a b. s = a @ sub @ b)"
proof (induction s)
  case (Cons c s)
  have "(\<exists>a b. c # s = a @ sub @ b) \<longleftrightarrow> prefix sub (c # s) \<or> (\<exists>a b. s = a @ sub @ b)"
    unfolding prefix_def by (metis append_Cons append_Nil append_eq_Cons_conv)
  with Cons show ?case by (simp add: HasPrefix_iff)
qed auto

section \<open>Lists\<close>

text \<open>\<open>sort.SliceStable\<close> and \<open>sort.Slice\<close> with a strict order given by keys: insertion by key, equal
  keys in their order of appearance.\<close>

fun insert_by :: "('a \<Rightarrow> 'a \<Rightarrow> bool) \<Rightarrow> 'a \<Rightarrow> 'a list \<Rightarrow> 'a list" where
  "insert_by lt x [] = [x]"
| "insert_by lt x (y # ys) = (if lt y x then y # insert_by lt x ys else x # y # ys)"

fun SliceStable :: "('a \<Rightarrow> 'a \<Rightarrow> bool) \<Rightarrow> 'a list \<Rightarrow> 'a list" where
  "SliceStable lt [] = []"
| "SliceStable lt (x # xs) = insert_by lt x (SliceStable lt xs)"

lemma set_insert_by [simp]: "set (insert_by lt x xs) = insert x (set xs)"
  by (induction xs) auto

lemma set_SliceStable [simp]: "set (SliceStable lt xs) = set xs"
  by (induction xs) auto

lemma length_insert_by [simp]: "length (insert_by lt x xs) = Suc (length xs)"
  by (induction xs) auto

lemma length_SliceStable [simp]: "length (SliceStable lt xs) = length xs"
  by (induction xs) auto

lemma mset_insert_by [simp]: "mset (insert_by lt x xs) = add_mset x (mset xs)"
  by (induction xs) auto

lemma mset_SliceStable [simp]: "mset (SliceStable lt xs) = mset xs"
  by (induction xs) auto

text \<open>A list that is already in order is left alone.\<close>

lemma SliceStable_id:
  assumes "sorted_wrt (\<lambda>x y. \<not> lt y x) xs"
  shows "SliceStable lt xs = xs"
  using assms
proof (induction xs)
  case Nil
  then show ?case by simp
next
  case (Cons x xs)
  then show ?case by (cases xs) auto
qed

text \<open>
  For a strict weak order the result is sorted: no later element is below an earlier one.
\<close>

lemma sorted_insert_by:
  assumes irr: "\<And>a b. lt a b \<Longrightarrow> \<not> lt b a"
    and tr: "\<And>a b c. \<not> lt b a \<Longrightarrow> \<not> lt c b \<Longrightarrow> \<not> lt c a"
    and s: "sorted_wrt (\<lambda>x y. \<not> lt y x) xs"
  shows "sorted_wrt (\<lambda>x y. \<not> lt y x) (insert_by lt x xs)"
  using s
proof (induction xs)
  case Nil
  then show ?case by simp
next
  case (Cons y ys)
  show ?case
  proof (cases "lt y x")
    case True
    then have "\<not> lt x y" by (rule irr)
    with True Cons show ?thesis by simp
  next
    case False
    have "\<not> lt z x" if "z \<in> set ys" for z
      using tr [OF False, of z] Cons.prems that by simp
    with False Cons.prems show ?thesis by simp
  qed
qed

lemma sorted_SliceStable:
  assumes "\<And>a b. lt a b \<Longrightarrow> \<not> lt b a"
    and "\<And>a b c. \<not> lt b a \<Longrightarrow> \<not> lt c b \<Longrightarrow> \<not> lt c a"
  shows "sorted_wrt (\<lambda>x y. \<not> lt y x) (SliceStable lt xs)"
proof (induction xs)
  case Nil
  then show ?case by simp
next
  case (Cons x xs)
  then show ?case by (simp add: sorted_insert_by [OF assms])
qed

text \<open>Position of the first element equal to a value; Go's search loops return it or -1.\<close>

fun find_index :: "'a list \<Rightarrow> 'a \<Rightarrow> nat option" where
  "find_index [] v = None"
| "find_index (x # xs) v = (if x = v then Some 0 else map_option Suc (find_index xs v))"

lemma find_index_None [simp]: "find_index xs v = None \<longleftrightarrow> v \<notin> set xs"
  by (induction xs) auto

lemma find_index_SomeD: "find_index xs v = Some i \<Longrightarrow> i < length xs \<and> xs ! i = v"
  by (induction xs arbitrary: i) (auto split: if_splits)

lemma find_index_Some_nth: "distinct xs \<Longrightarrow> i < length xs \<Longrightarrow> find_index xs (xs ! i) = Some i"
  by (induction xs arbitrary: i) (auto simp: nth_Cons split: nat.splits)

lemma find_index_Some_iff:
  "distinct xs \<Longrightarrow> find_index xs v = Some i \<longleftrightarrow> i < length xs \<and> xs ! i = v"
  using find_index_SomeD find_index_Some_nth by metis

text \<open>Looking a value up in the converse of a table without repeated values.\<close>

lemma map_of_converse:
  assumes "distinct (map snd xs)"
  shows "map_of (map (\<lambda>(a, b). (b, a)) xs) v = Some k \<longleftrightarrow> (k, v) \<in> set xs"
proof -
  have "map fst (map (\<lambda>(a, b). (b, a)) xs) = map snd xs" by (simp add: comp_def case_prod_beta)
  with assms have "distinct (map fst (map (\<lambda>(a, b). (b, a)) xs))" by metis
  then show ?thesis by (subst map_of_eq_Some_iff) force+
qed

section \<open>Folds that stop at the first error\<close>

text \<open>
  Go's \<open>for _, x := range xs { if err := step(x); err != nil { return err } }\<close> over a state.
\<close>

fun run :: "('s \<Rightarrow> 'x \<Rightarrow> 'e + 's) \<Rightarrow> 's \<Rightarrow> 'x list \<Rightarrow> 'e + 's" where
  "run step s [] = Inr s"
| "run step s (x # xs) = (case step s x of Inl e \<Rightarrow> Inl e | Inr s' \<Rightarrow> run step s' xs)"

definition bindE :: "'e + 'a \<Rightarrow> ('a \<Rightarrow> 'e + 'b) \<Rightarrow> 'e + 'b" where
  "bindE m f = (case m of Inl e \<Rightarrow> Inl e | Inr x \<Rightarrow> f x)"

lemma bindE_simps [simp]: "bindE (Inl e) f = Inl e" "bindE (Inr x) f = f x"
  by (simp_all add: bindE_def)

lemma bindE_Inr: "bindE m f = Inr y \<longleftrightarrow> (\<exists>x. m = Inr x \<and> f x = Inr y)"
  by (cases m) auto

lemma bindE_Inl: "bindE m f = Inl e \<longleftrightarrow> m = Inl e \<or> (\<exists>x. m = Inr x \<and> f x = Inl e)"
  by (cases m) auto

text \<open>A loop that fills a slice and stops at the first error.\<close>

fun mapE :: "('a \<Rightarrow> 'e + 'b) \<Rightarrow> 'a list \<Rightarrow> 'e + 'b list" where
  "mapE f [] = Inr []"
| "mapE f (x # xs) = bindE (f x) (\<lambda>y. bindE (mapE f xs) (\<lambda>ys. Inr (y # ys)))"

lemma run_append [run_laws]: "run step s (xs @ ys) = bindE (run step s xs) (\<lambda>s'. run step s' ys)"
  by (induction xs arbitrary: s) (auto split: sum.splits)

lemma run_snoc [run_laws]: "run step s (xs @ [x]) = bindE (run step s xs) (\<lambda>s'. step s' x)"
  by (simp add: run_append bindE_def split: sum.splits)

lemma run_append_Inr:
  "run step s (xs @ ys) = Inr t \<longleftrightarrow> (\<exists>s'. run step s xs = Inr s' \<and> run step s' ys = Inr t)"
  by (simp add: run_append bindE_Inr)

lemma run_Cons_Inr: "run step s (x # xs) = Inr t \<longleftrightarrow> (\<exists>v. step s x = Inr v \<and> run step v xs = Inr t)"
  by (cases "step s x") auto

lemma run_split_Inr:
  "run step s (xs @ x # ys) = Inr t \<longleftrightarrow>
     (\<exists>u v. run step s xs = Inr u \<and> step u x = Inr v \<and> run step v ys = Inr t)"
  by (auto simp: run_append_Inr run_Cons_Inr simp del: run.simps)

text \<open>
  The contract of a stateful scan: an invariant, relative to the prefix already consumed, that every
  successful step keeps. The client's lemma is that it holds after every successful run.
\<close>

locale scan =
  fixes step :: "'s \<Rightarrow> 'x \<Rightarrow> 'e + 's"
    and inv :: "'x list \<Rightarrow> 's \<Rightarrow> bool"
  assumes step_inv: "inv pre s \<Longrightarrow> step s x = Inr t \<Longrightarrow> inv (pre @ [x]) t"
begin

lemma run_inv: "inv pre s \<Longrightarrow> run step s xs = Inr t \<Longrightarrow> inv (pre @ xs) t"
proof (induction xs arbitrary: pre s)
  case Nil
  then show ?case by simp
next
  case (Cons x xs)
  from Cons.prems obtain s' where s': "step s x = Inr s'" and r: "run step s' xs = Inr t"
    by (auto split: sum.splits)
  from Cons.IH [OF step_inv [OF Cons.prems(1) s'] r] show ?case by simp
qed

text \<open>Every prefix of an accepted input is accepted, in a state that satisfies the invariant.\<close>

lemma run_prefix:
  assumes "inv [] s" and "run step s (xs @ ys) = Inr t"
  obtains u where "run step s xs = Inr u" and "inv xs u"
  using assms run_inv [of "[]"] by (fastforce simp: run_append_Inr)

end

section \<open>Words\<close>

lemma of_nat_u64_inj:
  assumes "i < 2 ^ 64" and "j < 2 ^ 64"
  shows "(of_nat i :: u64) = of_nat j \<longleftrightarrow> i = j"
proof
  assume "(of_nat i :: u64) = of_nat j"
  then have "unat (of_nat i :: u64) = unat (of_nat j :: u64)" by simp
  with assms show "i = j" by (simp add: unat_of_nat take_bit_nat_eq_self)
qed simp

lemma unat_less_2p64: "unat (x :: u64) < 2 ^ 64"
  using unsigned_less [of x] by simp

lemma unat_max_u64: "unat (-1 :: u64) = 2 ^ 64 - 1"
proof -
  have "(-1 :: u64) = 18446744073709551615" by simp
  then show ?thesis by (simp only: unat_numeral) (simp add: take_bit_eq_mod)
qed

lemma unat_succ_u64:
  assumes "(x :: u64) \<noteq> -1"
  shows "unat (x + 1) = unat x + 1"
proof -
  have "unat x \<noteq> unat (-1 :: u64)" using assms by (metis word_eq_iff_unsigned)
  then have "unat x + 1 < 2 ^ 64" using unat_less_2p64 [of x] unfolding unat_max_u64 by linarith
  then show ?thesis by (simp add: unat_word_ariths)
qed

lemma u64_less_succ: "(x :: u64) \<noteq> -1 \<Longrightarrow> x < x + 1"
  by (simp add: word_less_nat_alt unat_succ_u64)

lemma u64_add_of_nat_inj:
  assumes "i < 2 ^ 64" and "j < 2 ^ 64"
  shows "(b :: u64) + of_nat i = b + of_nat j \<longleftrightarrow> i = j"
  using of_nat_u64_inj [OF assms] by simp

end
