(* ===== verification/Go_Json.thy ===== *)
theory Go_Json
  imports Go_Prelude
begin

text \<open>
  The part of Go's \<open>encoding/json\<close> that the event log relies on, over JSON trees rather than text.
  A \<open>json.RawMessage\<close> taken out of a parsed document is always well-formed JSON, so the tree is all a
  decoder can observe of it. \<open>JTime t\<close> is the JSON string that holds the RFC 3339 form of the
  instant \<open>t\<close>; no modelled code looks at the characters of a timestamp, so it is a leaf of its own.
  \<open>JDec\<close> is a number literal that is not an integer.

  Marshalling a struct is the concatenation of its fields' members, each dropped when its
  \<open>omitempty\<close> option applies. Unmarshalling assigns, for every member of the object in order, the
  field whose name equals the key up to case; a \<open>null\<close> leaves a scalar as it is and clears a
  pointer, slice or map; a value of the wrong kind is an error.
\<close>

datatype json =
    JNull
  | JBool bool
  | JNum int
  | JDec string
  | JStr string
  | JTime gotime
  | JArr "json list"
  | JObj "(string \<times> json) list"

datatype jsonError = UnmarshalTypeError | MarshalerError

type_synonym members = "(string \<times> json) list"

named_theorems json_rt \<open>a marshalled field is read back, and other fields do not see it\<close>
named_theorems json_enc \<open>unfolding of struct encoders and decoders\<close>

section \<open>Members of a struct\<close>

definition m_str :: "string \<Rightarrow> string \<Rightarrow> members" where
  "m_str k v = (if v = [] then [] else [(k, JStr v)])"

definition m_str1 :: "string \<Rightarrow> string \<Rightarrow> members" where
  "m_str1 k v = [(k, JStr v)]"

definition m_int :: "string \<Rightarrow> int \<Rightarrow> members" where
  "m_int k v = (if v = 0 then [] else [(k, JNum v)])"

definition m_int1 :: "string \<Rightarrow> int \<Rightarrow> members" where
  "m_int1 k v = [(k, JNum v)]"

definition m_u64 :: "string \<Rightarrow> u64 \<Rightarrow> members" where
  "m_u64 k v = (if v = 0 then [] else [(k, JNum (uint v))])"

definition m_u64_1 :: "string \<Rightarrow> u64 \<Rightarrow> members" where
  "m_u64_1 k v = [(k, JNum (uint v))]"

definition m_bool :: "string \<Rightarrow> bool \<Rightarrow> members" where
  "m_bool k v = (if v then [(k, JBool True)] else [])"

definition m_bool1 :: "string \<Rightarrow> bool \<Rightarrow> members" where
  "m_bool1 k v = [(k, JBool v)]"

definition m_time1 :: "string \<Rightarrow> gotime \<Rightarrow> members" where
  "m_time1 k v = [(k, JTime v)]"

text \<open>A pointer with \<open>omitempty\<close>: absent when nil.\<close>

definition m_opt :: "('a \<Rightarrow> json) \<Rightarrow> string \<Rightarrow> 'a option \<Rightarrow> members" where
  "m_opt enc k v = (case v of None \<Rightarrow> [] | Some x \<Rightarrow> [(k, enc x)])"

text \<open>A slice with \<open>omitempty\<close>: absent when empty.\<close>

definition m_arr :: "('a \<Rightarrow> json) \<Rightarrow> string \<Rightarrow> 'a list \<Rightarrow> members" where
  "m_arr enc k vs = (if vs = [] then [] else [(k, JArr (map enc vs))])"

text \<open>A slice without \<open>omitempty\<close>; the model identifies nil and the empty slice.\<close>

definition m_arr1 :: "('a \<Rightarrow> json) \<Rightarrow> string \<Rightarrow> 'a list \<Rightarrow> members" where
  "m_arr1 enc k vs = [(k, JArr (map enc vs))]"

text \<open>A \<open>map[string]any\<close> without \<open>omitempty\<close> (nil is \<open>null\<close>), and one with it.\<close>

definition m_map1 :: "string \<Rightarrow> members option \<Rightarrow> members" where
  "m_map1 k v = [(k, case v of None \<Rightarrow> JNull | Some ms \<Rightarrow> JObj ms)]"

definition m_map :: "string \<Rightarrow> members option \<Rightarrow> members" where
  "m_map k v = (case v of None \<Rightarrow> [] | Some ms \<Rightarrow> if ms = [] then [] else [(k, JObj ms)])"

lemmas m_defs = m_str_def m_str1_def m_int_def m_int1_def m_u64_def m_u64_1_def m_bool_def m_bool1_def
  m_time1_def m_opt_def m_arr_def m_arr1_def m_map1_def m_map_def

section \<open>Reading one field\<close>

text \<open>
  \<open>conv v = Inr None\<close> leaves the field as it is. Keys are compared up to case, as
  \<open>encoding/json\<close> does when no key matches exactly; the field names of the modelled structs differ
  even up to case.
\<close>

fun u_field :: "(json \<Rightarrow> jsonError + 'a option) \<Rightarrow> string \<Rightarrow> 'a \<Rightarrow> members \<Rightarrow> jsonError + 'a" where
  "u_field conv name acc [] = Inr acc"
| "u_field conv name acc ((k, v) # ms) =
     (if ToLower k = ToLower name then
        (case conv v of
           Inl e \<Rightarrow> Inl e
         | Inr None \<Rightarrow> u_field conv name acc ms
         | Inr (Some x) \<Rightarrow> u_field conv name x ms)
      else u_field conv name acc ms)"

fun c_str :: "json \<Rightarrow> jsonError + string option" where
  "c_str JNull = Inr None"
| "c_str (JStr s) = Inr (Some s)"
| "c_str _ = Inl UnmarshalTypeError"

fun c_bool :: "json \<Rightarrow> jsonError + bool option" where
  "c_bool JNull = Inr None"
| "c_bool (JBool b) = Inr (Some b)"
| "c_bool _ = Inl UnmarshalTypeError"

text \<open>Go's \<open>int\<close> and \<open>int64\<close> accept an integer literal in range, \<open>uint64\<close> one in its own range.\<close>

definition in_i64 :: "int \<Rightarrow> bool" where
  "in_i64 i \<longleftrightarrow> - (2 ^ 63) \<le> i \<and> i < 2 ^ 63"

fun c_int :: "json \<Rightarrow> jsonError + int option" where
  "c_int JNull = Inr None"
| "c_int (JNum i) = (if in_i64 i then Inr (Some i) else Inl UnmarshalTypeError)"
| "c_int _ = Inl UnmarshalTypeError"

fun c_u64 :: "json \<Rightarrow> jsonError + u64 option" where
  "c_u64 JNull = Inr None"
| "c_u64 (JNum i) =
     (if 0 \<le> i \<and> i < 2 ^ 64 then Inr (Some (word_of_int i)) else Inl UnmarshalTypeError)"
| "c_u64 _ = Inl UnmarshalTypeError"

fun c_time :: "json \<Rightarrow> jsonError + gotime option" where
  "c_time JNull = Inr None"
| "c_time (JTime t) = Inr (Some t)"
| "c_time _ = Inl UnmarshalTypeError"

text \<open>A pointer: \<open>null\<close> clears it, any other value is decoded into a fresh target.\<close>

definition c_opt :: "(json \<Rightarrow> jsonError + 'a) \<Rightarrow> json \<Rightarrow> jsonError + 'a option option" where
  "c_opt dec v = (if v = JNull then Inr (Some None)
     else case dec v of Inl e \<Rightarrow> Inl e | Inr x \<Rightarrow> Inr (Some (Some x)))"

text \<open>Elements of a slice, decoded one after the other.\<close>

fun dec_list :: "(json \<Rightarrow> jsonError + 'a) \<Rightarrow> json list \<Rightarrow> jsonError + 'a list" where
  "dec_list dec [] = Inr []"
| "dec_list dec (v # vs) =
     bindE (dec v) (\<lambda>x. bindE (dec_list dec vs) (\<lambda>xs. Inr (x # xs)))"

fun c_arr :: "(json \<Rightarrow> jsonError + 'a) \<Rightarrow> json \<Rightarrow> jsonError + 'a list option" where
  "c_arr dec JNull = Inr (Some [])"
| "c_arr dec (JArr vs) = bindE (dec_list dec vs) (\<lambda>xs. Inr (Some xs))"
| "c_arr dec _ = Inl UnmarshalTypeError"

fun c_map :: "json \<Rightarrow> jsonError + members option option" where
  "c_map JNull = Inr (Some None)"
| "c_map (JObj ms) = Inr (Some (Some ms))"
| "c_map _ = Inl UnmarshalTypeError"

text \<open>A scalar decoded on its own starts from the zero value.\<close>

definition d_scalar :: "(json \<Rightarrow> jsonError + 'a option) \<Rightarrow> 'a \<Rightarrow> json \<Rightarrow> jsonError + 'a" where
  "d_scalar conv zero v = bindE (conv v) (\<lambda>r. Inr (case r of None \<Rightarrow> zero | Some x \<Rightarrow> x))"

abbreviation "u_str \<equiv> u_field c_str"
abbreviation "u_int \<equiv> u_field c_int"
abbreviation "u_u64 \<equiv> u_field c_u64"
abbreviation "u_bool \<equiv> u_field c_bool"
abbreviation "u_time \<equiv> u_field c_time"

text \<open>A struct value: an object is read field by field, \<open>null\<close> leaves the zero struct.\<close>

fun d_struct :: "(members \<Rightarrow> jsonError + 'a) \<Rightarrow> json \<Rightarrow> jsonError + 'a" where
  "d_struct rd (JObj ms) = rd ms"
| "d_struct rd JNull = rd []"
| "d_struct rd _ = Inl UnmarshalTypeError"

section \<open>Marshalled fields are read back\<close>

lemma u_field_append [json_rt]:
  "u_field conv name acc (xs @ ys) = bindE (u_field conv name acc xs) (\<lambda>a. u_field conv name a ys)"
  by (induction conv name acc xs rule: u_field.induct) (auto split: sum.splits option.splits)

text \<open>A marshalled member whose key is another field's is not looked at.\<close>

lemma u_field_skip [json_rt]:
  assumes "ToLower k \<noteq> ToLower name"
  shows "u_field conv name acc (m_str k s) = Inr acc"
    and "u_field conv name acc (m_str1 k s) = Inr acc"
    and "u_field conv name acc (m_int k i) = Inr acc"
    and "u_field conv name acc (m_int1 k i) = Inr acc"
    and "u_field conv name acc (m_u64 k w) = Inr acc"
    and "u_field conv name acc (m_u64_1 k w) = Inr acc"
    and "u_field conv name acc (m_bool k b) = Inr acc"
    and "u_field conv name acc (m_bool1 k b) = Inr acc"
    and "u_field conv name acc (m_time1 k t) = Inr acc"
    and "u_field conv name acc (m_opt enc k p) = Inr acc"
    and "u_field conv name acc (m_arr enc k xs) = Inr acc"
    and "u_field conv name acc (m_arr1 enc k xs) = Inr acc"
    and "u_field conv name acc (m_map1 k m) = Inr acc"
    and "u_field conv name acc (m_map k m) = Inr acc"
  using assms by (auto simp: m_defs split: option.splits)

lemma u_str_same [json_rt]: "u_str k [] (m_str k s) = Inr s" "u_str k a (m_str1 k s) = Inr s"
  by (auto simp: m_defs)

lemma u_int_same [json_rt]:
  "in_i64 i \<Longrightarrow> u_int k 0 (m_int k i) = Inr i" "in_i64 i \<Longrightarrow> u_int k a (m_int1 k i) = Inr i"
  by (auto simp: m_defs)

lemma uint_range: "0 \<le> uint (w :: u64)" "uint (w :: u64) < 2 ^ 64"
  using uint_lt2p [of w] by simp_all

lemma u_u64_same [json_rt]:
  "u_u64 k 0 (m_u64 k w) = Inr w" "u_u64 k a (m_u64_1 k w) = Inr w"
  using uint_range [of w] by (auto simp: m_defs)

lemma u_bool_same [json_rt]:
  "u_bool k False (m_bool k b) = Inr b" "u_bool k a (m_bool1 k b) = Inr b"
  by (auto simp: m_defs)

lemma u_time_same [json_rt]: "u_time k a (m_time1 k t) = Inr t"
  by (auto simp: m_defs)

lemma u_opt_same [json_rt]:
  assumes "\<And>x. v = Some x \<Longrightarrow> dec (enc x) = Inr x" and "\<And>x. enc x \<noteq> JNull"
  shows "u_field (c_opt dec) k None (m_opt enc k v) = Inr v"
  using assms by (cases v) (auto simp: m_defs c_opt_def)

lemma dec_list_map:
  assumes "\<And>x. x \<in> set xs \<Longrightarrow> dec (enc x) = Inr x"
  shows "dec_list dec (map enc xs) = Inr xs"
  using assms by (induction xs) auto

lemma u_arr_same [json_rt]:
  assumes "\<And>x. x \<in> set xs \<Longrightarrow> dec (enc x) = Inr x"
  shows "u_field (c_arr dec) k [] (m_arr enc k xs) = Inr xs"
    and "u_field (c_arr dec) k a (m_arr1 enc k xs) = Inr xs"
  using dec_list_map [OF assms] by (auto simp: m_defs)

lemma u_map_same [json_rt]: "u_field c_map k a (m_map1 k m) = Inr m"
  by (cases m) (auto simp: m_defs)

text \<open>With \<open>omitempty\<close> an empty non-nil map comes back nil.\<close>

lemma u_map_omit_same [json_rt]: "m \<noteq> Some [] \<Longrightarrow> u_field c_map k None (m_map k m) = Inr m"
  by (cases m) (auto simp: m_defs)

lemma d_scalar_same [json_rt]:
  "d_scalar c_str [] (JStr s) = Inr s"
  "d_scalar c_u64 0 (JNum (uint w)) = Inr w"
  "in_i64 i \<Longrightarrow> d_scalar c_int 0 (JNum i) = Inr i"
  using uint_range [of w] by (auto simp: d_scalar_def)

text \<open>
  The contract of a struct codec: what \<open>json.Marshal\<close> writes for a value \<open>json.Unmarshal\<close> reads
  back, for the values the type's encoding can represent. Slices and pointers of such structs
  inherit it.
\<close>

locale json_codec =
  fixes enc :: "'a \<Rightarrow> json"
    and dec :: "json \<Rightarrow> jsonError + 'a"
    and ok :: "'a \<Rightarrow> bool"
  assumes dec_enc: "ok x \<Longrightarrow> dec (enc x) = Inr x"
    and enc_not_null: "enc x \<noteq> JNull"
begin

lemma list_rt: "list_all ok xs \<Longrightarrow> u_field (c_arr dec) k [] (m_arr enc k xs) = Inr xs"
  by (rule u_arr_same) (auto simp: list_all_iff dec_enc)

lemma opt_rt: "pred_option ok v \<Longrightarrow> u_field (c_opt dec) k None (m_opt enc k v) = Inr v"
  by (rule u_opt_same) (auto simp: dec_enc enc_not_null)

lemma inj_on_ok: "ok x \<Longrightarrow> ok y \<Longrightarrow> enc x = enc y \<Longrightarrow> x = y"
  using dec_enc by (metis sum.inject(2))

end

section \<open>Wrap-around\<close>

text \<open>The value of \<open>int64\<close> arithmetic: the low 64 bits read as a signed number.\<close>

definition wrap64 :: "int \<Rightarrow> int" where
  "wrap64 i = sint (word_of_int i :: 64 word)"

lemma wrap64_id: "in_i64 i \<Longrightarrow> wrap64 i = i"
  by (simp add: wrap64_def in_i64_def sint_sbintrunc' signed_take_bit_int_eq_self)

end
