(* ===== verification/Event_Types.thy ===== *)
theory Event_Types
  imports Go_Json
begin

text \<open>
  The vocabulary of the session event log, \<open>internal/eventlog\<close>: the event kinds and the structs of
  \<open>event.go\<close>, \<open>boundary.go\<close>, \<open>lifecycle.go\<close> and the surface marker of \<open>wire.go\<close>.

  \<open>Type\<close> is a Go string; the model's \<open>etype\<close> has one constructor per declared constant and \<open>OtherType\<close> for
  every other string, with \<open>type_string\<close> and \<open>type_of_string\<close> giving the strings. \<open>Event.Data\<close> has
  Go type \<open>any\<close>; \<open>payload\<close> has one constructor per struct the package stores there, so that a type
  assertion \<open>ev.Data.(T)\<close> is a match on the constructor, and \<open>DNil\<close> for a nil interface. Go's \<open>int\<close> fields are \<open>int\<close>,
  \<open>uint64\<close> fields are \<open>u64\<close>, pointers are options, and a \<open>map[string]any\<close> is the JSON object it is
  written as.
\<close>

section \<open>Event kinds\<close>

datatype (plugins only: code size) etype =
    SessionMeta | UserMessage | AssistantMsg | AssistantChunk | ToolCall | ToolResult
  | ContextInjected | SessionCompacted | SpecState
  | TurnStart | TurnEnd | StepStart | StepEnd | PermissionChange
  | ApprovalAsked | ApprovalDecided | ApprovalPolicy
  | ToolWorkflowStart | ToolWorkflowEnd | LLMRetry | LLMRetryStarted | RequestContext
  | CompactionStart | CompactionPrune | CompactionEnd | CompactionSummary
  | SessionEndSeed | TodoWrite | RequestHeader | HookInvoked | HookResult
  | FeedbackRecord | GoalChange | PermissionPreset | SandboxMode | ScheduleChange
  | ScheduleCreate | ScheduleUpdate | ScheduleDelete | ScheduleDue
  | SessionTitle | SessionTitleLLMRequest | SubagentDescriptor | AgentPresetSelected
  | AgentInboxSpliced | CommandRun | CommandDone
  | ToolWorkflowAgentStart | ToolWorkflowAgentEnd
  | ToolCodeDispatch | ToolCodeDispatchStart
  | WebDeepSeekSearch | PlanMode
  | OtherType string

text \<open>The constants' values, in declaration order.\<close>

definition type_table :: "(etype \<times> string) list" where
  "type_table =
    [(SessionMeta, ''session.meta''), (UserMessage, ''message.user''),
     (AssistantMsg, ''message.assistant''), (AssistantChunk, ''assistant.chunk''),
     (ToolCall, ''tool.call''), (ToolResult, ''tool.result''),
     (ContextInjected, ''context.injected''), (SessionCompacted, ''session.compacted''),
     (SpecState, ''spec.state''), (TurnStart, ''turn.start''), (TurnEnd, ''turn.end''),
     (StepStart, ''step.start''), (StepEnd, ''step.end''),
     (PermissionChange, ''permission.change''), (ApprovalAsked, ''approval.asked''),
     (ApprovalDecided, ''approval.decided''), (ApprovalPolicy, ''approval.policy''),
     (ToolWorkflowStart, ''tool-workflow.run-start''), (ToolWorkflowEnd, ''tool-workflow.run-end''),
     (LLMRetry, ''llm.retry''), (LLMRetryStarted, ''llm.retry-started''),
     (RequestContext, ''request.context''), (CompactionStart, ''compaction.start''),
     (CompactionPrune, ''compaction.prune''), (CompactionEnd, ''compaction.end''),
     (CompactionSummary, ''compaction.summary''), (SessionEndSeed, ''session.end-seed''),
     (TodoWrite, ''todo.write''), (RequestHeader, ''request.header''),
     (HookInvoked, ''hook.invoked''), (HookResult, ''hook.result''),
     (FeedbackRecord, ''feedback.record''), (GoalChange, ''goal.change''),
     (PermissionPreset, ''permission.preset''), (SandboxMode, ''sandbox.mode''),
     (ScheduleChange, ''schedule.change''), (ScheduleCreate, ''schedule.create''),
     (ScheduleUpdate, ''schedule.update''), (ScheduleDelete, ''schedule.delete''),
     (ScheduleDue, ''schedule.due''), (SessionTitle, ''session.title''),
     (SessionTitleLLMRequest, ''session.title-llm-request''),
     (SubagentDescriptor, ''subagent.descriptor''),
     (AgentPresetSelected, ''agent-preset.selected''),
     (AgentInboxSpliced, ''agent.inbox.spliced''), (CommandRun, ''command.run''),
     (CommandDone, ''command.done''), (ToolWorkflowAgentStart, ''tool-workflow.agent-start''),
     (ToolWorkflowAgentEnd, ''tool-workflow.agent-end''),
     (ToolCodeDispatch, ''tool.code-dispatch''),
     (ToolCodeDispatchStart, ''tool.code-dispatch-start''),
     (WebDeepSeekSearch, ''web.deepseek-search-llm-request''), (PlanMode, ''plan.mode'')]"

definition type_string :: "etype \<Rightarrow> string" where
  "type_string t = (case t of OtherType s \<Rightarrow> s
     | _ \<Rightarrow> (case map_of type_table t of Some s \<Rightarrow> s | None \<Rightarrow> []))"

definition type_of_string :: "string \<Rightarrow> etype" where
  "type_of_string s =
     (case map_of (map (\<lambda>(t, n). (n, t)) type_table) s of Some t \<Rightarrow> t | None \<Rightarrow> OtherType s)"

text \<open>\<open>Type.Known\<close>: the switch lists the vocabulary.\<close>

definition Known :: "etype \<Rightarrow> bool" where
  "Known t \<longleftrightarrow> t \<in> set
    [SessionMeta, UserMessage, AssistantMsg, AssistantChunk, ToolCall, ToolResult,
     ContextInjected, SessionCompacted, SpecState,
     TurnStart, TurnEnd, StepStart, StepEnd, PermissionChange,
     ApprovalAsked, ApprovalDecided, ApprovalPolicy,
     ToolWorkflowStart, ToolWorkflowEnd, LLMRetry, LLMRetryStarted, RequestContext,
     CompactionStart, CompactionPrune, CompactionEnd, CompactionSummary,
     SessionEndSeed, TodoWrite, RequestHeader, HookInvoked, HookResult,
     FeedbackRecord, GoalChange, PermissionPreset, SandboxMode, ScheduleChange,
     ScheduleCreate, ScheduleUpdate, ScheduleDelete, ScheduleDue,
     SessionTitle, SessionTitleLLMRequest, SubagentDescriptor, AgentPresetSelected,
     AgentInboxSpliced, CommandRun, CommandDone,
     ToolWorkflowAgentStart, ToolWorkflowAgentEnd,
     ToolCodeDispatch, ToolCodeDispatchStart,
     WebDeepSeekSearch, PlanMode]"

text \<open>\<open>Type.IsSurfaceEligible\<close>: the three message-producing kinds.\<close>

definition IsSurfaceEligible :: "etype \<Rightarrow> bool" where
  "IsSurfaceEligible t \<longleftrightarrow> (case t of UserMessage \<Rightarrow> True | AssistantMsg \<Rightarrow> True | ToolResult \<Rightarrow> True
     | _ \<Rightarrow> False)"

section \<open>Core payloads (event.go)\<close>

record LlmFailure =
  lf_Message :: string
  lf_Code :: string

record TurnEndFact =
  te_Turn :: int
  te_Reason :: string
  te_Error :: "LlmFailure option"

definition SessionFormatVersion :: int where
  "SessionFormatVersion = 1"

record Meta =
  mt_ID :: string
  mt_Model :: string
  mt_Provider :: string
  mt_CWD :: string
  mt_Agent :: string
  mt_FormatVersion :: int
  mt_ParentSession :: string
  mt_SeedLength :: u64
  mt_Origin :: string
  mt_DelegationDepth :: int
  mt_AgentPreset :: string

record ContentPartPayload =
  cp_Type :: string
  cp_Text :: string
  cp_ImageURL :: string
  cp_ImageDetail :: string
  cp_AudioData :: string
  cp_AudioFormat :: string

record ToolCallPayload =
  tc_Turn :: int
  tc_Step :: int
  tc_ID :: string
  tc_Name :: string
  tc_Arguments :: "members option"

record ToolResultPayload =
  tr_Turn :: int
  tr_Step :: int
  tr_ToolUseID :: string
  tr_Content :: string
  tr_IsError :: bool

record Message =
  msg_Role :: string
  msg_Content :: string
  msg_Thinking :: string
  msg_Images :: "string list"
  msg_ContentParts :: "ContentPartPayload list"
  msg_ToolUse :: "ToolCallPayload list"
  msg_ToolResults :: "ToolResultPayload list"
  msg_Turn :: int
  msg_Step :: int

record SpecFact =
  sf_Stage :: string
  sf_Slug :: string

section \<open>Boundary payloads (boundary.go)\<close>

record BoundaryFact =
  bf_Turn :: int
  bf_Step :: int

record ChunkFact =
  ck_Turn :: int
  ck_Step :: int
  ck_Chunk :: string
  ck_Kind :: string

text \<open>The struct embeds \<open>ChunkFact\<close>.\<close>

record ToolCallDeltaFact =
  td_ChunkFact :: ChunkFact
  td_Name :: string
  td_Arguments :: string

record CompactionFact =
  cf_Strategy :: string
  cf_TokensBefore :: int
  cf_TokensAfter :: int
  cf_Manual :: bool

record ToolWorkflowBounds =
  tw_Tool :: string

record LLMRetryFact =
  lr_Attempt :: int
  lr_Reason :: string

record RequestContextFact =
  rc_Provider :: string
  rc_Model :: string
  rc_ContextWindow :: int

record PermissionFact =
  pf_Tool :: string
  pf_Category :: string
  pf_Allowed :: bool
  pf_Message :: string

record ApprovalAskedFact =
  aa_Turn :: int
  aa_Step :: int
  aa_Tool :: string
  aa_Category :: string
  aa_Question :: string
  aa_ID :: string
  aa_CallID :: string

record ApprovalDecidedFact =
  ad_Turn :: int
  ad_Step :: int
  ad_Tool :: string
  ad_Category :: string
  ad_Allowed :: bool
  ad_Message :: string
  ad_ID :: string
  ad_Outcome :: string

record ApprovalPolicyFact =
  ap_Category :: string
  ap_Covered :: bool
  ap_PresetName :: string
  ap_Policy :: string
  ap_Source :: string

section \<open>Lifecycle payloads (lifecycle.go)\<close>

record CompactionStartFact =
  cs_Strategy :: string
  cs_CompactionID :: string
  cs_SourceCommandID :: string
  cs_Turn :: "int option"

record CompactionPruneFact =
  cpr_Strategy :: string
  cpr_Messages :: int
  cpr_ShadowedRangeStart :: u64
  cpr_ShadowedRangeEnd :: u64
  cpr_ShadowedSeqs :: "u64 list"
  cpr_ShadowedTokenCount :: int

record CompactionEndFact =
  ce_Strategy :: string
  ce_TokensBefore :: int
  ce_TokensAfter :: int
  ce_CompactionID :: string
  ce_SourceCommandID :: string
  ce_Turn :: "int option"
  ce_Error :: string

record CompactionSummaryFact =
  csm_Summary :: string
  csm_CompactionID :: string
  csm_SourceCommandID :: string
  csm_ShadowedRangeStart :: u64
  csm_ShadowedRangeEnd :: u64
  csm_ShadowedSeqs :: "u64 list"
  csm_ShadowedTokenCount :: int
  csm_Provider :: string
  csm_Model :: string
  csm_MaxTokens :: "int option"
  csm_UsagePromptTokens :: int
  csm_UsageCompletionTokens :: int

record TodoItem =
  ti_Content :: string
  ti_Status :: string

record TodoWriteFact =
  tdw_Todos :: "TodoItem list"

record ContextInjectedFact =
  ci_Content :: string

record RequestHeaderFact =
  rh_System :: string
  rh_Tools :: "string list"
  rh_Reason :: string

record HookInvokedFact =
  hi_Name :: string

record HookResultFact =
  hr_Name :: string
  hr_Error :: string
  hr_Success :: bool

record FeedbackFact =
  fb_Category :: string
  fb_Detail :: string
  fb_Thumb :: string

record GoalChangeFact =
  gc_Goal :: string
  gc_Added :: bool
  gc_Removed :: bool

record PermissionPresetFact =
  pp_Category :: string
  pp_Covered :: bool
  pp_PresetName :: string

record SandboxModeFact =
  sm_Mode :: string
  sm_Source :: string

record ScheduleChangeFact =
  sch_Cron :: string

record SessionTitleFact =
  st_Title :: string

record SessionTitleLLMRequestFact =
  stl_Model :: string

record SubagentDescriptorFact =
  sd_Name :: string
  sd_Agent :: string
  sd_Depth :: int
  sd_Version :: int
  sd_Mode :: string
  sd_Provider :: string
  sd_Label :: string
  sd_AgentProvider :: string
  sd_AgentModel :: string
  sd_Persona :: string
  sd_ToolFilterAllow :: "string list"
  sd_ToolFilterDeny :: "string list"

record AgentPresetFact =
  apf_Preset :: string

record AgentInboxSpliceFact =
  ais_Count :: int
  ais_Position :: int

record CommandRunFact =
  cr_Command :: string
  cr_CommandID :: string
  cr_Name :: string
  cr_Args :: string
  cr_Source :: "members option"

record CommandDoneFact =
  cd_Command :: string
  cd_ExitCode :: int
  cd_Error :: string
  cd_CommandID :: string
  cd_Kind :: string
  cd_Text :: string
  cd_SourceEventSeq :: u64

record ToolWorkflowAgentFact =
  twa_Agent :: string

record CodeDispatchFact =
  cdf_Language :: string

record WebSearchFact =
  ws_Query :: string

record PlanModeFact =
  pm_Active :: bool

record ScheduleCreateFact =
  scr_ID :: string
  scr_Prompt :: string
  scr_DueAt :: gotime
  scr_Interval :: string
  scr_Recurring :: bool

record ScheduleUpdateFact =
  su_ID :: string
  su_Prompt :: "string option"
  su_DueAt :: "gotime option"

record ScheduleDeleteFact =
  sdl_ID :: string
  sdl_Reason :: string

record ScheduleDueFact =
  sdu_ID :: string
  sdu_DeliveredAt :: gotime
  sdu_NextDueAt :: "gotime option"

text \<open>\<open>SandboxModeFact.Valid\<close>: the closed vocabulary of modes and sources.\<close>

definition SandboxModeSourceUser :: string where
  "SandboxModeSourceUser = ''user''"

definition SandboxModeSourceDelegation :: string where
  "SandboxModeSourceDelegation = ''delegation''"

definition SandboxModeFact_Valid :: "SandboxModeFact \<Rightarrow> bool" where
  "SandboxModeFact_Valid f \<longleftrightarrow>
     sm_Mode f \<in> {''strict'', ''workspace'', ''off''}
     \<and> sm_Source f \<in> {'''', SandboxModeSourceUser, SandboxModeSourceDelegation}"

definition SubagentDescriptorVersion :: int where
  "SubagentDescriptorVersion = 2"

section \<open>Payloads\<close>

datatype (plugins only: code size) payload =
    DNil
  | DMeta Meta
  | DMessage Message
  | DChunk ChunkFact
  | DToolCallDelta ToolCallDeltaFact
  | DToolCall ToolCallPayload
  | DToolResult ToolResultPayload
  | DContextInjected ContextInjectedFact
  | DCompaction CompactionFact
  | DSpec SpecFact
  | DBoundary BoundaryFact
  | DTurnEnd TurnEndFact
  | DPermission PermissionFact
  | DApprovalAsked ApprovalAskedFact
  | DApprovalDecided ApprovalDecidedFact
  | DApprovalPolicy ApprovalPolicyFact
  | DToolWorkflow ToolWorkflowBounds
  | DLLMRetry LLMRetryFact
  | DRequestContext RequestContextFact
  | DCompactionStart CompactionStartFact
  | DCompactionPrune CompactionPruneFact
  | DCompactionEnd CompactionEndFact
  | DCompactionSummary CompactionSummaryFact
  | DTodoWrite TodoWriteFact
  | DRequestHeader RequestHeaderFact
  | DHookInvoked HookInvokedFact
  | DHookResult HookResultFact
  | DFeedback FeedbackFact
  | DGoalChange GoalChangeFact
  | DPermissionPreset PermissionPresetFact
  | DSandboxMode SandboxModeFact
  | DScheduleChange ScheduleChangeFact
  | DScheduleCreate ScheduleCreateFact
  | DScheduleUpdate ScheduleUpdateFact
  | DScheduleDelete ScheduleDeleteFact
  | DScheduleDue ScheduleDueFact
  | DSessionTitle SessionTitleFact
  | DSessionTitleLLMRequest SessionTitleLLMRequestFact
  | DSubagentDescriptor SubagentDescriptorFact
  | DAgentPreset AgentPresetFact
  | DAgentInboxSplice AgentInboxSpliceFact
  | DCommandRun CommandRunFact
  | DCommandDone CommandDoneFact
  | DToolWorkflowAgent ToolWorkflowAgentFact
  | DCodeDispatch CodeDispatchFact
  | DWebSearch WebSearchFact
  | DPlanMode PlanModeFact

section \<open>Type assertions\<close>

text \<open>\<open>f, ok := ev.Data.(T)\<close>, with \<open>None\<close> for a failed assertion.\<close>

definition as_Meta :: "payload \<Rightarrow> Meta option" where
  "as_Meta d = (case d of DMeta f \<Rightarrow> Some f | _ \<Rightarrow> None)"

definition as_Message :: "payload \<Rightarrow> Message option" where
  "as_Message d = (case d of DMessage f \<Rightarrow> Some f | _ \<Rightarrow> None)"

definition as_Chunk :: "payload \<Rightarrow> ChunkFact option" where
  "as_Chunk d = (case d of DChunk f \<Rightarrow> Some f | _ \<Rightarrow> None)"

definition as_ToolCallDelta :: "payload \<Rightarrow> ToolCallDeltaFact option" where
  "as_ToolCallDelta d = (case d of DToolCallDelta f \<Rightarrow> Some f | _ \<Rightarrow> None)"

definition as_ToolCall :: "payload \<Rightarrow> ToolCallPayload option" where
  "as_ToolCall d = (case d of DToolCall f \<Rightarrow> Some f | _ \<Rightarrow> None)"

definition as_ToolResult :: "payload \<Rightarrow> ToolResultPayload option" where
  "as_ToolResult d = (case d of DToolResult f \<Rightarrow> Some f | _ \<Rightarrow> None)"

definition as_Boundary :: "payload \<Rightarrow> BoundaryFact option" where
  "as_Boundary d = (case d of DBoundary f \<Rightarrow> Some f | _ \<Rightarrow> None)"

definition as_TurnEnd :: "payload \<Rightarrow> TurnEndFact option" where
  "as_TurnEnd d = (case d of DTurnEnd f \<Rightarrow> Some f | _ \<Rightarrow> None)"

definition as_SandboxMode :: "payload \<Rightarrow> SandboxModeFact option" where
  "as_SandboxMode d = (case d of DSandboxMode f \<Rightarrow> Some f | _ \<Rightarrow> None)"

definition as_RequestHeader :: "payload \<Rightarrow> RequestHeaderFact option" where
  "as_RequestHeader d = (case d of DRequestHeader f \<Rightarrow> Some f | _ \<Rightarrow> None)"

definition as_ContextInjected :: "payload \<Rightarrow> ContextInjectedFact option" where
  "as_ContextInjected d = (case d of DContextInjected f \<Rightarrow> Some f | _ \<Rightarrow> None)"

definition as_CompactionStart :: "payload \<Rightarrow> CompactionStartFact option" where
  "as_CompactionStart d = (case d of DCompactionStart f \<Rightarrow> Some f | _ \<Rightarrow> None)"

definition as_CompactionPrune :: "payload \<Rightarrow> CompactionPruneFact option" where
  "as_CompactionPrune d = (case d of DCompactionPrune f \<Rightarrow> Some f | _ \<Rightarrow> None)"

definition as_CompactionEnd :: "payload \<Rightarrow> CompactionEndFact option" where
  "as_CompactionEnd d = (case d of DCompactionEnd f \<Rightarrow> Some f | _ \<Rightarrow> None)"

definition as_CompactionSummary :: "payload \<Rightarrow> CompactionSummaryFact option" where
  "as_CompactionSummary d = (case d of DCompactionSummary f \<Rightarrow> Some f | _ \<Rightarrow> None)"

definition as_PermissionPreset :: "payload \<Rightarrow> PermissionPresetFact option" where
  "as_PermissionPreset d = (case d of DPermissionPreset f \<Rightarrow> Some f | _ \<Rightarrow> None)"

definition as_ApprovalPolicy :: "payload \<Rightarrow> ApprovalPolicyFact option" where
  "as_ApprovalPolicy d = (case d of DApprovalPolicy f \<Rightarrow> Some f | _ \<Rightarrow> None)"

definition as_ScheduleCreate :: "payload \<Rightarrow> ScheduleCreateFact option" where
  "as_ScheduleCreate d = (case d of DScheduleCreate f \<Rightarrow> Some f | _ \<Rightarrow> None)"

definition as_ScheduleUpdate :: "payload \<Rightarrow> ScheduleUpdateFact option" where
  "as_ScheduleUpdate d = (case d of DScheduleUpdate f \<Rightarrow> Some f | _ \<Rightarrow> None)"

definition as_ScheduleDelete :: "payload \<Rightarrow> ScheduleDeleteFact option" where
  "as_ScheduleDelete d = (case d of DScheduleDelete f \<Rightarrow> Some f | _ \<Rightarrow> None)"

definition as_ScheduleDue :: "payload \<Rightarrow> ScheduleDueFact option" where
  "as_ScheduleDue d = (case d of DScheduleDue f \<Rightarrow> Some f | _ \<Rightarrow> None)"

lemma as_Some_iff [simp]:
  "as_Meta d = Some x_Meta \<longleftrightarrow> d = DMeta x_Meta"
  "as_Message d = Some x_Message \<longleftrightarrow> d = DMessage x_Message"
  "as_Chunk d = Some x_Chunk \<longleftrightarrow> d = DChunk x_Chunk"
  "as_ToolCallDelta d = Some x_ToolCallDelta \<longleftrightarrow> d = DToolCallDelta x_ToolCallDelta"
  "as_ToolCall d = Some x_ToolCall \<longleftrightarrow> d = DToolCall x_ToolCall"
  "as_ToolResult d = Some x_ToolResult \<longleftrightarrow> d = DToolResult x_ToolResult"
  "as_Boundary d = Some x_Boundary \<longleftrightarrow> d = DBoundary x_Boundary"
  "as_TurnEnd d = Some x_TurnEnd \<longleftrightarrow> d = DTurnEnd x_TurnEnd"
  "as_SandboxMode d = Some x_SandboxMode \<longleftrightarrow> d = DSandboxMode x_SandboxMode"
  "as_RequestHeader d = Some x_RequestHeader \<longleftrightarrow> d = DRequestHeader x_RequestHeader"
  "as_ContextInjected d = Some x_ContextInjected \<longleftrightarrow> d = DContextInjected x_ContextInjected"
  "as_CompactionStart d = Some x_CompactionStart \<longleftrightarrow> d = DCompactionStart x_CompactionStart"
  "as_CompactionPrune d = Some x_CompactionPrune \<longleftrightarrow> d = DCompactionPrune x_CompactionPrune"
  "as_CompactionEnd d = Some x_CompactionEnd \<longleftrightarrow> d = DCompactionEnd x_CompactionEnd"
  "as_CompactionSummary d = Some x_CompactionSummary \<longleftrightarrow> d = DCompactionSummary x_CompactionSummary"
  "as_PermissionPreset d = Some x_PermissionPreset \<longleftrightarrow> d = DPermissionPreset x_PermissionPreset"
  "as_ApprovalPolicy d = Some x_ApprovalPolicy \<longleftrightarrow> d = DApprovalPolicy x_ApprovalPolicy"
  "as_ScheduleCreate d = Some x_ScheduleCreate \<longleftrightarrow> d = DScheduleCreate x_ScheduleCreate"
  "as_ScheduleUpdate d = Some x_ScheduleUpdate \<longleftrightarrow> d = DScheduleUpdate x_ScheduleUpdate"
  "as_ScheduleDelete d = Some x_ScheduleDelete \<longleftrightarrow> d = DScheduleDelete x_ScheduleDelete"
  "as_ScheduleDue d = Some x_ScheduleDue \<longleftrightarrow> d = DScheduleDue x_ScheduleDue"
  by (cases d; simp add: as_Meta_def as_Message_def as_Chunk_def as_ToolCallDelta_def as_ToolCall_def as_ToolResult_def as_Boundary_def as_TurnEnd_def as_SandboxMode_def as_RequestHeader_def as_ContextInjected_def as_CompactionStart_def as_CompactionPrune_def as_CompactionEnd_def as_CompactionSummary_def as_PermissionPreset_def as_ApprovalPolicy_def as_ScheduleCreate_def as_ScheduleUpdate_def as_ScheduleDelete_def as_ScheduleDue_def; fail)+

lemma as_same [simp]:
  "as_Meta (DMeta x_Meta) = Some x_Meta"
  "as_Message (DMessage x_Message) = Some x_Message"
  "as_Chunk (DChunk x_Chunk) = Some x_Chunk"
  "as_ToolCallDelta (DToolCallDelta x_ToolCallDelta) = Some x_ToolCallDelta"
  "as_ToolCall (DToolCall x_ToolCall) = Some x_ToolCall"
  "as_ToolResult (DToolResult x_ToolResult) = Some x_ToolResult"
  "as_Boundary (DBoundary x_Boundary) = Some x_Boundary"
  "as_TurnEnd (DTurnEnd x_TurnEnd) = Some x_TurnEnd"
  "as_SandboxMode (DSandboxMode x_SandboxMode) = Some x_SandboxMode"
  "as_RequestHeader (DRequestHeader x_RequestHeader) = Some x_RequestHeader"
  "as_ContextInjected (DContextInjected x_ContextInjected) = Some x_ContextInjected"
  "as_CompactionStart (DCompactionStart x_CompactionStart) = Some x_CompactionStart"
  "as_CompactionPrune (DCompactionPrune x_CompactionPrune) = Some x_CompactionPrune"
  "as_CompactionEnd (DCompactionEnd x_CompactionEnd) = Some x_CompactionEnd"
  "as_CompactionSummary (DCompactionSummary x_CompactionSummary) = Some x_CompactionSummary"
  "as_PermissionPreset (DPermissionPreset x_PermissionPreset) = Some x_PermissionPreset"
  "as_ApprovalPolicy (DApprovalPolicy x_ApprovalPolicy) = Some x_ApprovalPolicy"
  "as_ScheduleCreate (DScheduleCreate x_ScheduleCreate) = Some x_ScheduleCreate"
  "as_ScheduleUpdate (DScheduleUpdate x_ScheduleUpdate) = Some x_ScheduleUpdate"
  "as_ScheduleDelete (DScheduleDelete x_ScheduleDelete) = Some x_ScheduleDelete"
  "as_ScheduleDue (DScheduleDue x_ScheduleDue) = Some x_ScheduleDue"
  by simp_all

section \<open>Events\<close>

text \<open>The surface marker of \<open>wire.go\<close>, and the event. A nil source list is \<open>None\<close>: the fold
  distinguishes it from an empty one.\<close>

record SurfaceOp =
  so_Op :: string
  so_Start :: u64
  so_End :: u64

record Event =
  ev_Type :: etype
  ev_Seq :: u64
  ev_At :: gotime
  ev_Data :: payload
  ev_Ignorable :: bool
  ev_SurfaceOp :: "SurfaceOp option"
  ev_SourceEventSeqs :: "u64 list option"

definition SurfaceOpAppend :: string where
  "SurfaceOpAppend = ''append''"

definition SurfaceOpReplace :: string where
  "SurfaceOpReplace = ''replace''"

definition sources :: "Event \<Rightarrow> u64 list" where
  "sources ev = (case ev_SourceEventSeqs ev of None \<Rightarrow> [] | Some xs \<Rightarrow> xs)"

definition is_replace :: "Event \<Rightarrow> bool" where
  "is_replace ev \<longleftrightarrow> (case ev_SurfaceOp ev of None \<Rightarrow> False | Some op \<Rightarrow> so_Op op = SurfaceOpReplace)"

section \<open>Facts about the vocabulary\<close>

lemma IsSurfaceEligible_iff:
  "IsSurfaceEligible t \<longleftrightarrow> t = UserMessage \<or> t = AssistantMsg \<or> t = ToolResult"
  by (cases t) (simp_all add: IsSurfaceEligible_def)

lemma Known_iff: "Known t \<longleftrightarrow> (\<forall>s. t \<noteq> OtherType s)"
  by (cases t) (simp_all add: Known_def)

lemma surface_eligible_known: "IsSurfaceEligible t \<Longrightarrow> Known t"
  by (auto simp: IsSurfaceEligible_iff Known_iff)

lemma Surface_ops_distinct [simp]:
  "SurfaceOpAppend \<noteq> SurfaceOpReplace" "SurfaceOpReplace \<noteq> SurfaceOpAppend"
  by (simp_all add: SurfaceOpAppend_def SurfaceOpReplace_def)

lemma is_replace_simps [simp]:
  "ev_SurfaceOp ev = None \<Longrightarrow> \<not> is_replace ev"
  "ev_SurfaceOp ev = Some op \<Longrightarrow> is_replace ev \<longleftrightarrow> so_Op op = SurfaceOpReplace"
  by (simp_all add: is_replace_def)

lemma type_table_distinct: "distinct (map snd type_table)"
  by (simp add: type_table_def)

lemma type_table_complete: "Known t \<Longrightarrow> \<exists>s. map_of type_table t = Some s"
  by (cases t) (simp_all add: type_table_def Known_iff)

lemma type_table_known: "(t, s) \<in> set type_table \<Longrightarrow> Known t"
  by (auto simp: type_table_def Known_iff)

lemma type_of_string_eq: "(t, s) \<in> set type_table \<Longrightarrow> type_of_string s = t"
  by (simp add: type_of_string_def map_of_converse [OF type_table_distinct, THEN iffD2])

lemma type_of_string_other:
  assumes "s \<notin> snd ` set type_table"
  shows "type_of_string s = OtherType s"
proof -
  have "map_of (map (\<lambda>(t, n). (n, t)) type_table) s = None"
    using assms by (auto simp: map_of_eq_None_iff image_iff)
  then show ?thesis by (simp add: type_of_string_def)
qed

lemma type_string_table: "Known t \<Longrightarrow> (t, type_string t) \<in> set type_table"
  using type_table_complete [of t]
  by (auto simp: type_string_def Known_iff split: etype.splits dest: map_of_SomeD)

text \<open>
  The vocabulary is closed: the string of every kind in the vocabulary reads back as that kind,
  \<open>Type.Known\<close> accepts a string exactly when it is the value of a declared constant, and the empty
  string is not a kind.
\<close>

theorem known_vocabulary:
  "(Known t \<longrightarrow> type_of_string (type_string t) = t)
   \<and> (Known (type_of_string s) \<longleftrightarrow> s \<in> snd ` set type_table)
   \<and> \<not> Known (type_of_string [])"
proof (intro conjI impI)
  show "type_of_string (type_string t) = t" if "Known t"
    using type_of_string_eq [OF type_string_table [OF that]] .
  have iff: "Known (type_of_string s) \<longleftrightarrow> s \<in> snd ` set type_table" for s
    using type_of_string_eq type_table_known type_of_string_other [of s]
    by (cases "s \<in> snd ` set type_table") (force simp: Known_iff)+
  show "Known (type_of_string s) \<longleftrightarrow> s \<in> snd ` set type_table" by (rule iff)
  show "\<not> Known (type_of_string [])" by (simp add: iff type_table_def)
qed

text \<open>The string of a kind in the vocabulary determines the kind.\<close>

theorem known_vocabulary_witness:
  "Known PlanMode \<and> type_of_string (type_string PlanMode) = PlanMode"
  using known_vocabulary [of PlanMode "[]"] by (simp add: Known_iff)

end
