(* ===== verification/Event_Log.thy ===== *)
theory Event_Log
  imports Event_Types
begin

text \<open>
  The append-only log of \<open>log.go\<close> and the append methods of \<open>boundary.go\<close>, \<open>lifecycle.go\<close>,
  \<open>spec_fact.go\<close> and \<open>wire.go\<close>.

  \<open>Log\<close> keeps the events, the index by kind, the sequence counter and the observer. The observer is
  modelled by what it has been called with: \<open>None\<close> for a nil listener, \<open>Some es\<close> for one that has been
  handed \<open>es\<close> in this order. Each operation takes the instant \<open>time.Now()\<close> returns. A panic is the
  left summand. The methods that check for a nil receiver take an optional log.
\<close>

section \<open>The log\<close>

datatype panic = PanicUnknownType etype | PanicNotSurfaceEligible etype

record Log =
  lg_events :: "Event list"
  lg_byType :: "etype \<Rightarrow> Event list"
  lg_seq :: u64
  lg_listener :: "Event list option"

definition New :: "bool \<Rightarrow> Log" where
  "New observed = \<lparr>lg_events = [], lg_byType = (\<lambda>_. []), lg_seq = 0,
     lg_listener = (if observed then Some [] else None)\<rparr>"

text \<open>The critical section shared by the append operations: store, index, notify.\<close>

definition push :: "Event \<Rightarrow> Log \<Rightarrow> Log" where
  "push ev l = l\<lparr>lg_events := lg_events l @ [ev],
     lg_byType := (lg_byType l)(ev_Type ev := lg_byType l (ev_Type ev) @ [ev]),
     lg_seq := ev_Seq ev,
     lg_listener := map_option (\<lambda>es. es @ [ev]) (lg_listener l)\<rparr>"

definition appendWithFlags :: "etype \<Rightarrow> payload \<Rightarrow> bool \<Rightarrow> gotime \<Rightarrow> Log \<Rightarrow> panic + Log" where
  "appendWithFlags typ data ignorable now l =
     (if \<not> Known typ then Inl (PanicUnknownType typ)
      else Inr (push \<lparr>ev_Type = typ, ev_Seq = lg_seq l + 1, ev_At = now, ev_Data = data,
                      ev_Ignorable = ignorable, ev_SurfaceOp = None, ev_SourceEventSeqs = None\<rparr> l))"

definition Append :: "etype \<Rightarrow> payload \<Rightarrow> gotime \<Rightarrow> Log \<Rightarrow> panic + Log" where
  "Append typ data now l = appendWithFlags typ data False now l"

definition AppendIgnorable :: "etype \<Rightarrow> payload \<Rightarrow> gotime \<Rightarrow> Log \<Rightarrow> panic + Log" where
  "AppendIgnorable typ data now l = appendWithFlags typ data True now l"

definition Snapshot :: "Log \<Rightarrow> Event list" where
  "Snapshot l = lg_events l"

definition OfType :: "Log \<Rightarrow> etype \<Rightarrow> Event list" where
  "OfType l typ = lg_byType l typ"

definition Len :: "Log \<Rightarrow> nat" where
  "Len l = length (lg_events l)"

text \<open>A method that returns at once on a nil receiver.\<close>

definition with_log :: "Log option \<Rightarrow> (Log \<Rightarrow> panic + Log) \<Rightarrow> panic + Log option" where
  "with_log l f = (case l of None \<Rightarrow> Inr None | Some l \<Rightarrow> map_sum id Some (f l))"

text \<open>\<open>AppendSurface\<close>: a surface-eligible event with its marker and cited sources.\<close>

definition AppendSurface :: "etype \<Rightarrow> payload \<Rightarrow> string \<Rightarrow> u64 \<Rightarrow> u64 \<Rightarrow> u64 list option \<Rightarrow>
    gotime \<Rightarrow> Log option \<Rightarrow> panic + Log option" where
  "AppendSurface typ data op start fin sourceSeqs now l =
     with_log l (\<lambda>l.
       if \<not> IsSurfaceEligible typ then Inl (PanicNotSurfaceEligible typ)
       else Inr (push \<lparr>ev_Type = typ, ev_Seq = lg_seq l + 1, ev_At = now, ev_Data = data,
                       ev_Ignorable = False,
                       ev_SurfaceOp = Some \<lparr>so_Op = op, so_Start = start, so_End = fin\<rparr>,
                       ev_SourceEventSeqs = sourceSeqs\<rparr> l))"

section \<open>Append methods\<close>

definition AppendTurnStart :: "int \<Rightarrow> gotime \<Rightarrow> Log option \<Rightarrow> panic + Log option" where
  "AppendTurnStart turn now l =
     with_log l (\<lambda>l. Append TurnStart
      (DBoundary \<lparr>bf_Turn = turn, bf_Step = 0\<rparr>) now l)"

definition AppendTurnEnd :: "int \<Rightarrow> string \<Rightarrow> gotime \<Rightarrow> Log option \<Rightarrow> panic + Log option" where
  "AppendTurnEnd turn reason now l =
     with_log l (\<lambda>l. Append TurnEnd
      (DTurnEnd \<lparr>te_Turn = turn, te_Reason = (if reason = [] then ''completed'' else reason), te_Error = None\<rparr>) now l)"

definition AppendTurnEndWithError :: "int \<Rightarrow> string \<Rightarrow> string \<Rightarrow> gotime \<Rightarrow> Log option \<Rightarrow> panic + Log option" where
  "AppendTurnEndWithError turn message code now l =
     with_log l (\<lambda>l. Append TurnEnd
      (DTurnEnd \<lparr>te_Turn = turn, te_Reason = ''error'', te_Error = Some \<lparr>lf_Message = message, lf_Code = code\<rparr>\<rparr>) now l)"

definition AppendTurnEndAborted :: "int \<Rightarrow> string \<Rightarrow> gotime \<Rightarrow> Log option \<Rightarrow> panic + Log option" where
  "AppendTurnEndAborted turn cause now l =
     with_log l (\<lambda>l. Append TurnEnd
      (DTurnEnd \<lparr>te_Turn = turn, te_Reason = ''aborted'', te_Error = Some \<lparr>lf_Message = cause, lf_Code = ''aborted''\<rparr>\<rparr>) now l)"

definition AppendStepStart :: "int \<Rightarrow> int \<Rightarrow> gotime \<Rightarrow> Log option \<Rightarrow> panic + Log option" where
  "AppendStepStart turn step now l =
     with_log l (\<lambda>l. Append StepStart
      (DBoundary \<lparr>bf_Turn = turn, bf_Step = step\<rparr>) now l)"

definition AppendStepEnd :: "int \<Rightarrow> int \<Rightarrow> gotime \<Rightarrow> Log option \<Rightarrow> panic + Log option" where
  "AppendStepEnd turn step now l =
     with_log l (\<lambda>l. Append StepEnd
      (DBoundary \<lparr>bf_Turn = turn, bf_Step = step\<rparr>) now l)"

definition AppendAssistantChunk :: "int \<Rightarrow> int \<Rightarrow> string \<Rightarrow> gotime \<Rightarrow> Log option \<Rightarrow> panic + Log option" where
  "AppendAssistantChunk turn step chunk now l =
     (if chunk = [] then Inr l
     else with_log l (\<lambda>l. Append AssistantChunk
      (DChunk \<lparr>ck_Turn = turn, ck_Step = step, ck_Chunk = chunk, ck_Kind = []\<rparr>) now l))"

definition AppendAssistantThinkingChunk :: "int \<Rightarrow> int \<Rightarrow> string \<Rightarrow> gotime \<Rightarrow> Log option \<Rightarrow> panic + Log option" where
  "AppendAssistantThinkingChunk turn step chunk now l =
     (if chunk = [] then Inr l
     else with_log l (\<lambda>l. Append AssistantChunk
      (DChunk \<lparr>ck_Turn = turn, ck_Step = step, ck_Chunk = chunk, ck_Kind = ''thinking''\<rparr>) now l))"

definition AppendStreamBlockStart :: "int \<Rightarrow> int \<Rightarrow> gotime \<Rightarrow> Log option \<Rightarrow> panic + Log option" where
  "AppendStreamBlockStart turn step now l =
     with_log l (\<lambda>l. Append AssistantChunk
      (DChunk \<lparr>ck_Turn = turn, ck_Step = step, ck_Chunk = [], ck_Kind = ''block-start''\<rparr>) now l)"

definition AppendStreamBlockEnd :: "int \<Rightarrow> int \<Rightarrow> gotime \<Rightarrow> Log option \<Rightarrow> panic + Log option" where
  "AppendStreamBlockEnd turn step now l =
     with_log l (\<lambda>l. Append AssistantChunk
      (DChunk \<lparr>ck_Turn = turn, ck_Step = step, ck_Chunk = [], ck_Kind = ''block-end''\<rparr>) now l)"

definition AppendStreamFinish :: "int \<Rightarrow> int \<Rightarrow> string \<Rightarrow> gotime \<Rightarrow> Log option \<Rightarrow> panic + Log option" where
  "AppendStreamFinish turn step reason now l =
     with_log l (\<lambda>l. Append AssistantChunk
      (DChunk \<lparr>ck_Turn = turn, ck_Step = step, ck_Chunk = reason, ck_Kind = ''finish''\<rparr>) now l)"

definition AppendToolCallDelta :: "int \<Rightarrow> int \<Rightarrow> string \<Rightarrow> string \<Rightarrow> gotime \<Rightarrow> Log option \<Rightarrow> panic + Log option" where
  "AppendToolCallDelta turn step name arguments now l =
     (if name = [] \<and> arguments = [] then Inr l
     else with_log l (\<lambda>l. Append AssistantChunk
      (DToolCallDelta
        \<lparr>td_ChunkFact = \<lparr>ck_Turn = turn, ck_Step = step, ck_Chunk = [], ck_Kind = ''tool-call''\<rparr>,
         td_Name = name, td_Arguments = arguments\<rparr>) now l))"

definition AppendCompaction :: "CompactionFact \<Rightarrow> gotime \<Rightarrow> Log option \<Rightarrow> panic + Log option" where
  "AppendCompaction f now l =
     with_log l (\<lambda>l. Append SessionCompacted (DCompaction f) now l)"

definition AppendToolWorkflowStart :: "string \<Rightarrow> gotime \<Rightarrow> Log option \<Rightarrow> panic + Log option" where
  "AppendToolWorkflowStart tool now l =
     with_log l (\<lambda>l. Append ToolWorkflowStart
      (DToolWorkflow \<lparr>tw_Tool = tool\<rparr>) now l)"

definition AppendToolWorkflowEnd :: "string \<Rightarrow> gotime \<Rightarrow> Log option \<Rightarrow> panic + Log option" where
  "AppendToolWorkflowEnd tool now l =
     with_log l (\<lambda>l. Append ToolWorkflowEnd
      (DToolWorkflow \<lparr>tw_Tool = tool\<rparr>) now l)"

definition AppendLLMRetry :: "int \<Rightarrow> string \<Rightarrow> gotime \<Rightarrow> Log option \<Rightarrow> panic + Log option" where
  "AppendLLMRetry attempt reason now l =
     with_log l (\<lambda>l. AppendIgnorable LLMRetry
      (DLLMRetry \<lparr>lr_Attempt = attempt, lr_Reason = reason\<rparr>) now l)"

definition AppendLLMRetryStarted :: "int \<Rightarrow> string \<Rightarrow> gotime \<Rightarrow> Log option \<Rightarrow> panic + Log option" where
  "AppendLLMRetryStarted attempt reason now l =
     with_log l (\<lambda>l. AppendIgnorable LLMRetryStarted
      (DLLMRetry \<lparr>lr_Attempt = attempt, lr_Reason = reason\<rparr>) now l)"

definition AppendRequestContext :: "string \<Rightarrow> string \<Rightarrow> int \<Rightarrow> gotime \<Rightarrow> Log option \<Rightarrow> panic + Log option" where
  "AppendRequestContext provider model contextWindow now l =
     with_log l (\<lambda>l. Append RequestContext
      (DRequestContext \<lparr>rc_Provider = provider, rc_Model = model, rc_ContextWindow = contextWindow\<rparr>) now l)"

definition AppendApprovalAsked :: "ApprovalAskedFact \<Rightarrow> gotime \<Rightarrow> Log option \<Rightarrow> panic + Log option" where
  "AppendApprovalAsked f now l =
     with_log l (\<lambda>l. Append ApprovalAsked (DApprovalAsked f) now l)"

definition AppendApprovalDecided :: "ApprovalDecidedFact \<Rightarrow> gotime \<Rightarrow> Log option \<Rightarrow> panic + Log option" where
  "AppendApprovalDecided f now l =
     with_log l (\<lambda>l. Append ApprovalDecided (DApprovalDecided f) now l)"

definition AppendApprovalPolicy :: "ApprovalPolicyFact \<Rightarrow> gotime \<Rightarrow> Log option \<Rightarrow> panic + Log option" where
  "AppendApprovalPolicy f now l =
     with_log l (\<lambda>l. Append ApprovalPolicy (DApprovalPolicy f) now l)"

definition AppendPermission :: "PermissionFact \<Rightarrow> gotime \<Rightarrow> Log option \<Rightarrow> panic + Log option" where
  "AppendPermission f now l =
     with_log l (\<lambda>l. Append PermissionChange (DPermission f) now l)"

definition AppendCompactionStart :: "string \<Rightarrow> gotime \<Rightarrow> Log option \<Rightarrow> panic + Log option" where
  "AppendCompactionStart strategy now l =
     with_log l (\<lambda>l. Append CompactionStart
      (DCompactionStart
        \<lparr>cs_Strategy = strategy, cs_CompactionID = [], cs_SourceCommandID = [], cs_Turn = None\<rparr>) now l)"

definition AppendCompactionStartFull :: "CompactionStartFact \<Rightarrow> gotime \<Rightarrow> Log option \<Rightarrow> panic + Log option" where
  "AppendCompactionStartFull f now l =
     with_log l (\<lambda>l. Append CompactionStart (DCompactionStart f) now l)"

definition AppendCompactionPrune :: "string \<Rightarrow> int \<Rightarrow> gotime \<Rightarrow> Log option \<Rightarrow> panic + Log option" where
  "AppendCompactionPrune strategy messages now l =
     with_log l (\<lambda>l. Append CompactionPrune
      (DCompactionPrune
        \<lparr>cpr_Strategy = strategy, cpr_Messages = messages, cpr_ShadowedRangeStart = 0,
         cpr_ShadowedRangeEnd = 0, cpr_ShadowedSeqs = [], cpr_ShadowedTokenCount = 0\<rparr>) now l)"

definition AppendCompactionPruneFull :: "CompactionPruneFact \<Rightarrow> gotime \<Rightarrow> Log option \<Rightarrow> panic + Log option" where
  "AppendCompactionPruneFull f now l =
     with_log l (\<lambda>l. Append CompactionPrune (DCompactionPrune f) now l)"

definition AppendCompactionEnd :: "CompactionEndFact \<Rightarrow> gotime \<Rightarrow> Log option \<Rightarrow> panic + Log option" where
  "AppendCompactionEnd f now l =
     with_log l (\<lambda>l. Append CompactionEnd (DCompactionEnd f) now l)"

definition AppendCompactionSummary :: "string \<Rightarrow> gotime \<Rightarrow> Log option \<Rightarrow> panic + Log option" where
  "AppendCompactionSummary summary now l =
     with_log l (\<lambda>l. Append CompactionSummary
      (DCompactionSummary
        \<lparr>csm_Summary = summary, csm_CompactionID = [], csm_SourceCommandID = [],
         csm_ShadowedRangeStart = 0, csm_ShadowedRangeEnd = 0, csm_ShadowedSeqs = [],
         csm_ShadowedTokenCount = 0, csm_Provider = [], csm_Model = [], csm_MaxTokens = None,
         csm_UsagePromptTokens = 0, csm_UsageCompletionTokens = 0\<rparr>) now l)"

definition AppendCompactionSummaryFull :: "CompactionSummaryFact \<Rightarrow> gotime \<Rightarrow> Log option \<Rightarrow> panic + Log option" where
  "AppendCompactionSummaryFull f now l =
     with_log l (\<lambda>l. Append CompactionSummary (DCompactionSummary f) now l)"

definition AppendSessionEndSeed :: "gotime \<Rightarrow> Log option \<Rightarrow> panic + Log option" where
  "AppendSessionEndSeed now l =
     with_log l (\<lambda>l. Append SessionEndSeed (DNil) now l)"

definition AppendTodoWrite :: "(TodoItem list) \<Rightarrow> gotime \<Rightarrow> Log option \<Rightarrow> panic + Log option" where
  "AppendTodoWrite todos now l =
     with_log l (\<lambda>l. Append TodoWrite
      (DTodoWrite \<lparr>tdw_Todos = todos\<rparr>) now l)"

definition AppendContextInjected :: "string \<Rightarrow> gotime \<Rightarrow> Log option \<Rightarrow> panic + Log option" where
  "AppendContextInjected content now l =
     with_log l (\<lambda>l. Append ContextInjected
      (DContextInjected \<lparr>ci_Content = content\<rparr>) now l)"

definition AppendRequestHeader :: "RequestHeaderFact \<Rightarrow> gotime \<Rightarrow> Log option \<Rightarrow> panic + Log option" where
  "AppendRequestHeader f now l =
     with_log l (\<lambda>l. Append RequestHeader (DRequestHeader f) now l)"

definition AppendHookInvoked :: "string \<Rightarrow> gotime \<Rightarrow> Log option \<Rightarrow> panic + Log option" where
  "AppendHookInvoked name now l =
     with_log l (\<lambda>l. Append HookInvoked
      (DHookInvoked \<lparr>hi_Name = name\<rparr>) now l)"

definition AppendHookResult :: "string \<Rightarrow> string \<Rightarrow> gotime \<Rightarrow> Log option \<Rightarrow> panic + Log option" where
  "AppendHookResult name err now l =
     with_log l (\<lambda>l. Append HookResult
      (DHookResult \<lparr>hr_Name = name, hr_Error = err, hr_Success = (err = [])\<rparr>) now l)"

definition AppendFeedbackRecord :: "FeedbackFact \<Rightarrow> gotime \<Rightarrow> Log option \<Rightarrow> panic + Log option" where
  "AppendFeedbackRecord f now l =
     with_log l (\<lambda>l. Append FeedbackRecord (DFeedback f) now l)"

definition AppendGoalChange :: "string \<Rightarrow> bool \<Rightarrow> gotime \<Rightarrow> Log option \<Rightarrow> panic + Log option" where
  "AppendGoalChange goal added now l =
     with_log l (\<lambda>l. Append GoalChange
      (DGoalChange \<lparr>gc_Goal = goal, gc_Added = added, gc_Removed = (\<not> added)\<rparr>) now l)"

definition AppendPermissionPreset :: "string \<Rightarrow> bool \<Rightarrow> gotime \<Rightarrow> Log option \<Rightarrow> panic + Log option" where
  "AppendPermissionPreset category covered now l =
     with_log l (\<lambda>l. Append PermissionPreset
      (DPermissionPreset \<lparr>pp_Category = category, pp_Covered = covered, pp_PresetName = []\<rparr>) now l)"

definition AppendSandboxModeWithSource :: "string \<Rightarrow> string \<Rightarrow> gotime \<Rightarrow> Log option \<Rightarrow> panic + Log option" where
  "AppendSandboxModeWithSource mode source now l =
     with_log l (\<lambda>l. Append SandboxMode
      (DSandboxMode \<lparr>sm_Mode = mode,
        sm_Source = (if source = [] then SandboxModeSourceUser else source)\<rparr>) now l)"

definition AppendScheduleChange :: "string \<Rightarrow> gotime \<Rightarrow> Log option \<Rightarrow> panic + Log option" where
  "AppendScheduleChange cron now l =
     with_log l (\<lambda>l. AppendIgnorable ScheduleChange
      (DScheduleChange \<lparr>sch_Cron = cron\<rparr>) now l)"

definition AppendSessionTitle :: "string \<Rightarrow> gotime \<Rightarrow> Log option \<Rightarrow> panic + Log option" where
  "AppendSessionTitle title now l =
     with_log l (\<lambda>l. Append SessionTitle
      (DSessionTitle \<lparr>st_Title = title\<rparr>) now l)"

definition AppendSessionTitleLLMRequest :: "string \<Rightarrow> gotime \<Rightarrow> Log option \<Rightarrow> panic + Log option" where
  "AppendSessionTitleLLMRequest model now l =
     with_log l (\<lambda>l. AppendIgnorable SessionTitleLLMRequest
      (DSessionTitleLLMRequest \<lparr>stl_Model = model\<rparr>) now l)"

definition AppendSubagentDescriptor :: "SubagentDescriptorFact \<Rightarrow> gotime \<Rightarrow> Log option \<Rightarrow> panic + Log option" where
  "AppendSubagentDescriptor f now l =
     with_log l (\<lambda>l. Append SubagentDescriptor (DSubagentDescriptor f) now l)"

definition AppendSubagentDescriptorFull :: "SubagentDescriptorFact \<Rightarrow> gotime \<Rightarrow> Log option \<Rightarrow> panic + Log option" where
  "AppendSubagentDescriptorFull f now l =
     with_log l (\<lambda>l. Append SubagentDescriptor
      (DSubagentDescriptor
        (if sd_Version f = 0 then f\<lparr>sd_Version := SubagentDescriptorVersion\<rparr> else f)) now l)"

definition AppendAgentPresetSelected :: "string \<Rightarrow> gotime \<Rightarrow> Log option \<Rightarrow> panic + Log option" where
  "AppendAgentPresetSelected preset now l =
     with_log l (\<lambda>l. Append AgentPresetSelected
      (DAgentPreset \<lparr>apf_Preset = preset\<rparr>) now l)"

definition AppendAgentInboxSpliced :: "int \<Rightarrow> int \<Rightarrow> gotime \<Rightarrow> Log option \<Rightarrow> panic + Log option" where
  "AppendAgentInboxSpliced cnt position now l =
     with_log l (\<lambda>l. Append AgentInboxSpliced
      (DAgentInboxSplice \<lparr>ais_Count = cnt, ais_Position = position\<rparr>) now l)"

definition AppendCommandRun :: "string \<Rightarrow> gotime \<Rightarrow> Log option \<Rightarrow> panic + Log option" where
  "AppendCommandRun command now l =
     with_log l (\<lambda>l. Append CommandRun
      (DCommandRun
        \<lparr>cr_Command = command, cr_CommandID = [], cr_Name = [], cr_Args = [], cr_Source = None\<rparr>) now l)"

definition AppendCommandDone :: "string \<Rightarrow> int \<Rightarrow> string \<Rightarrow> gotime \<Rightarrow> Log option \<Rightarrow> panic + Log option" where
  "AppendCommandDone command exitCode err now l =
     with_log l (\<lambda>l. Append CommandDone
      (DCommandDone
        \<lparr>cd_Command = command, cd_ExitCode = exitCode, cd_Error = err, cd_CommandID = [],
         cd_Kind = [], cd_Text = [], cd_SourceEventSeq = 0\<rparr>) now l)"

definition AppendToolWorkflowAgentStart :: "string \<Rightarrow> gotime \<Rightarrow> Log option \<Rightarrow> panic + Log option" where
  "AppendToolWorkflowAgentStart agent now l =
     with_log l (\<lambda>l. Append ToolWorkflowAgentStart
      (DToolWorkflowAgent \<lparr>twa_Agent = agent\<rparr>) now l)"

definition AppendToolWorkflowAgentEnd :: "string \<Rightarrow> gotime \<Rightarrow> Log option \<Rightarrow> panic + Log option" where
  "AppendToolWorkflowAgentEnd agent now l =
     with_log l (\<lambda>l. Append ToolWorkflowAgentEnd
      (DToolWorkflowAgent \<lparr>twa_Agent = agent\<rparr>) now l)"

definition AppendToolCodeDispatch :: "string \<Rightarrow> gotime \<Rightarrow> Log option \<Rightarrow> panic + Log option" where
  "AppendToolCodeDispatch language now l =
     with_log l (\<lambda>l. Append ToolCodeDispatch
      (DCodeDispatch \<lparr>cdf_Language = language\<rparr>) now l)"

definition AppendToolCodeDispatchStart :: "string \<Rightarrow> gotime \<Rightarrow> Log option \<Rightarrow> panic + Log option" where
  "AppendToolCodeDispatchStart language now l =
     with_log l (\<lambda>l. Append ToolCodeDispatchStart
      (DCodeDispatch \<lparr>cdf_Language = language\<rparr>) now l)"

definition AppendWebDeepSeekSearch :: "string \<Rightarrow> gotime \<Rightarrow> Log option \<Rightarrow> panic + Log option" where
  "AppendWebDeepSeekSearch query now l =
     with_log l (\<lambda>l. Append WebDeepSeekSearch
      (DWebSearch \<lparr>ws_Query = query\<rparr>) now l)"

definition AppendPlanMode :: "bool \<Rightarrow> gotime \<Rightarrow> Log option \<Rightarrow> panic + Log option" where
  "AppendPlanMode active now l =
     with_log l (\<lambda>l. Append PlanMode
      (DPlanMode \<lparr>pm_Active = active\<rparr>) now l)"

definition AppendScheduleCreate :: "ScheduleCreateFact \<Rightarrow> gotime \<Rightarrow> Log option \<Rightarrow> panic + Log option" where
  "AppendScheduleCreate f now l =
     with_log l (\<lambda>l. Append ScheduleCreate (DScheduleCreate f) now l)"

definition AppendScheduleUpdate :: "ScheduleUpdateFact \<Rightarrow> gotime \<Rightarrow> Log option \<Rightarrow> panic + Log option" where
  "AppendScheduleUpdate f now l =
     with_log l (\<lambda>l. Append ScheduleUpdate (DScheduleUpdate f) now l)"

definition AppendScheduleDelete :: "string \<Rightarrow> string \<Rightarrow> gotime \<Rightarrow> Log option \<Rightarrow> panic + Log option" where
  "AppendScheduleDelete ident reason now l =
     with_log l (\<lambda>l. Append ScheduleDelete
      (DScheduleDelete \<lparr>sdl_ID = ident, sdl_Reason = reason\<rparr>) now l)"

definition AppendScheduleDue :: "ScheduleDueFact \<Rightarrow> gotime \<Rightarrow> Log option \<Rightarrow> panic + Log option" where
  "AppendScheduleDue f now l =
     with_log l (\<lambda>l. Append ScheduleDue (DScheduleDue f) now l)"

definition AppendSpec :: "string \<Rightarrow> string \<Rightarrow> gotime \<Rightarrow> Log option \<Rightarrow> panic + Log option" where
  "AppendSpec stage slug now l =
     with_log l (\<lambda>l. Append SpecState
      (DSpec \<lparr>sf_Stage = stage, sf_Slug = slug\<rparr>) now l)"

definition AppendSandboxMode :: "string \<Rightarrow> gotime \<Rightarrow> Log option \<Rightarrow> panic + Log option" where
  "AppendSandboxMode mode now l = AppendSandboxModeWithSource mode SandboxModeSourceUser now l"

section \<open>Invariants\<close>

text \<open>The index agrees with the events, and only kinds of the vocabulary are stored.\<close>

definition log_indexed :: "Log \<Rightarrow> bool" where
  "log_indexed l \<longleftrightarrow>
     (\<forall>t. lg_byType l t = filter (\<lambda>e. ev_Type e = t) (lg_events l))
     \<and> (\<forall>e \<in> set (lg_events l). Known (ev_Type e))"

text \<open>Sequence numbers increase, and the counter bounds them.\<close>

definition log_ordered :: "Log \<Rightarrow> bool" where
  "log_ordered l \<longleftrightarrow>
     sorted_wrt (\<lambda>a b. ev_Seq a < ev_Seq b) (lg_events l)
     \<and> (\<forall>e \<in> set (lg_events l). ev_Seq e \<le> lg_seq l)"

text \<open>A log written from \<open>New\<close>: event number \<open>i\<close> carries sequence number \<open>i + 1\<close>.\<close>

definition log_contiguous :: "Log \<Rightarrow> bool" where
  "log_contiguous l \<longleftrightarrow>
     lg_seq l = of_nat (length (lg_events l))
     \<and> (\<forall>i < length (lg_events l). ev_Seq (lg_events l ! i) = of_nat (Suc i))"

lemma push_simps [simp]:
  "lg_events (push ev l) = lg_events l @ [ev]"
  "lg_seq (push ev l) = ev_Seq ev"
  "lg_byType (push ev l) t = lg_byType l t @ (if ev_Type ev = t then [ev] else [])"
  "lg_listener (push ev l) = map_option (\<lambda>es. es @ [ev]) (lg_listener l)"
  by (auto simp: push_def)

lemma push_indexed: "log_indexed l \<Longrightarrow> Known (ev_Type ev) \<Longrightarrow> log_indexed (push ev l)"
  by (auto simp: log_indexed_def)

lemma push_ordered:
  assumes "log_ordered l" and "lg_seq l \<noteq> -1" and "ev_Seq ev = lg_seq l + 1"
  shows "log_ordered (push ev l)"
proof -
  have "lg_seq l < lg_seq l + 1" using assms(2) by (rule u64_less_succ)
  then have "e \<le> lg_seq l \<Longrightarrow> e < lg_seq l + 1" for e by simp
  then show ?thesis using assms(1,3) by (auto simp: log_ordered_def sorted_wrt_append less_imp_le)
qed

lemma push_contiguous:
  assumes "log_contiguous l" and "ev_Seq ev = lg_seq l + 1"
  shows "log_contiguous (push ev l)"
  using assms by (auto simp: log_contiguous_def nth_append less_Suc_eq)

lemma New_invariants: "log_indexed (New b)" "log_ordered (New b)" "log_contiguous (New b)"
  by (simp_all add: New_def log_indexed_def log_ordered_def log_contiguous_def)

section \<open>Requests\<close>

text \<open>The two primitive ways to add an event, as a sequence of requests.\<close>

datatype request =
    ReqAppend etype payload bool gotime
  | ReqSurface etype payload string u64 u64 "u64 list option" gotime

fun apply_request :: "Log \<Rightarrow> request \<Rightarrow> panic + Log" where
  "apply_request l (ReqAppend typ data ign now) = appendWithFlags typ data ign now l"
| "apply_request l (ReqSurface typ data op start fin srcs now) =
     (case AppendSurface typ data op start fin srcs now (Some l) of
        Inl p \<Rightarrow> Inl p | Inr r \<Rightarrow> Inr (case r of None \<Rightarrow> l | Some l' \<Rightarrow> l'))"

lemma apply_request_push:
  assumes "apply_request l r = Inr l'"
  obtains ev where "l' = push ev l" and "ev_Seq ev = lg_seq l + 1" and "Known (ev_Type ev)"
proof (cases r)
  case (ReqAppend t d ig n)
  with assms show ?thesis by (auto simp: appendWithFlags_def intro!: that split: if_splits)
next
  case (ReqSurface t d op a b srcs n)
  with assms have "IsSurfaceEligible t"
    by (auto simp: AppendSurface_def with_log_def split: if_splits)
  with ReqSurface assms show ?thesis
    by (intro that) (auto simp: AppendSurface_def with_log_def surface_eligible_known)
qed

text \<open>
  The contract of an append-only store: adding an element extends the view at the end, and the
  index of a kind is the part of the view of that kind. A client sees a view that only grows.
\<close>

locale append_store =
  fixes add :: "'l \<Rightarrow> 'r \<Rightarrow> 'p + 'l"
    and view :: "'l \<Rightarrow> 'e list"
    and index :: "'l \<Rightarrow> 'k \<Rightarrow> 'e list"
    and kind :: "'e \<Rightarrow> 'k"
    and inv :: "'l \<Rightarrow> bool"
  assumes add_view: "add l r = Inr l' \<Longrightarrow> \<exists>e. view l' = view l @ [e]"
    and add_inv: "inv l \<Longrightarrow> add l r = Inr l' \<Longrightarrow> inv l'"
    and index_view: "inv l \<Longrightarrow> index l k = filter (\<lambda>e. kind e = k) (view l)"
begin

lemma run_view: "run add l rs = Inr l' \<Longrightarrow> prefix (view l) (view l')"
proof (induction rs arbitrary: l)
  case Nil
  then show ?case by simp
next
  case (Cons r rs)
  from Cons.prems obtain m where m: "add l r = Inr m" and "run add m rs = Inr l'"
    by (auto split: sum.splits)
  then have "prefix (view m) (view l')" by (intro Cons.IH)
  moreover from add_view [OF m] have "prefix (view l) (view m)" by auto
  ultimately show ?case by (rule prefix_order.trans [rotated])
qed

lemma run_length: "run add l rs = Inr l' \<Longrightarrow> length (view l') = length (view l) + length rs"
proof (induction rs arbitrary: l)
  case Nil
  then show ?case by simp
next
  case (Cons r rs)
  from Cons.prems obtain m where m: "add l r = Inr m" and "run add m rs = Inr l'"
    by (auto split: sum.splits)
  with Cons.IH [of m] add_view [OF m] show ?case by auto
qed

lemma run_store_inv: "inv l \<Longrightarrow> run add l rs = Inr l' \<Longrightarrow> inv l'"
  by (induction rs arbitrary: l) (auto split: sum.splits dest: add_inv)

lemma run_index: "inv l \<Longrightarrow> run add l rs = Inr l' \<Longrightarrow> index l' k = filter (\<lambda>e. kind e = k) (view l')"
  using run_store_inv index_view by blast

end

interpretation log_store: append_store apply_request Snapshot OfType ev_Type log_indexed
proof
  show "\<exists>e. Snapshot l' = Snapshot l @ [e]" if "apply_request l r = Inr l'" for l r l'
    by (rule apply_request_push [OF that]) (simp add: Snapshot_def)
  show "log_indexed l'" if "log_indexed l" and "apply_request l r = Inr l'" for l r l'
    using apply_request_push [OF that(2)] push_indexed [OF that(1)] by metis
  show "OfType l k = filter (\<lambda>e. ev_Type e = k) (Snapshot l)" if "log_indexed l" for l k
    using that by (simp add: log_indexed_def OfType_def Snapshot_def)
qed

interpretation log_scan: scan apply_request "\<lambda>rs l. log_contiguous l"
  by unfold_locales (metis apply_request_push push_contiguous)

lemma Append_eq:
  "Known t \<Longrightarrow> Append t d now l = Inr (push \<lparr>ev_Type = t, ev_Seq = lg_seq l + 1, ev_At = now,
     ev_Data = d, ev_Ignorable = False, ev_SurfaceOp = None, ev_SourceEventSeqs = None\<rparr> l)"
  by (simp add: Append_def appendWithFlags_def)

lemma AppendIgnorable_eq:
  "Known t \<Longrightarrow> AppendIgnorable t d now l = Inr (push \<lparr>ev_Type = t, ev_Seq = lg_seq l + 1, ev_At = now,
     ev_Data = d, ev_Ignorable = True, ev_SurfaceOp = None, ev_SourceEventSeqs = None\<rparr> l)"
  by (simp add: AppendIgnorable_def appendWithFlags_def)

lemma listener_run:
  "run apply_request l rs = Inr l' \<Longrightarrow> lg_listener l' =
     map_option (\<lambda>es. es @ drop (length (lg_events l)) (lg_events l')) (lg_listener l)"
proof (induction rs arbitrary: l)
  case Nil
  then show ?case by (simp add: option.map_ident)
next
  case (Cons r rs)
  then obtain m where m: "apply_request l r = Inr m" and r: "run apply_request m rs = Inr l'"
    by (auto split: sum.splits)
  from apply_request_push [OF m] obtain ev where ev: "m = push ev l" by metis
  from log_store.run_view [OF r] ev obtain zs where "lg_events l' = lg_events l @ ev # zs"
    by (auto simp: Snapshot_def prefix_def)
  with Cons.IH [OF r] ev show ?case by (simp add: option.map_comp comp_def)
qed

lemma run_ordered:
  "run apply_request l rs = Inr l' \<Longrightarrow> log_ordered l \<and> unat (lg_seq l) + length rs < 2 ^ 64
     \<longrightarrow> log_ordered l'"
proof (induction rs arbitrary: l)
  case Nil
  then show ?case by simp
next
  case (Cons r rs)
  then obtain m where m: "apply_request l r = Inr m" and r: "run apply_request m rs = Inr l'"
    by (auto split: sum.splits)
  from apply_request_push [OF m] obtain ev where ev: "m = push ev l" "ev_Seq ev = lg_seq l + 1"
    by metis
  show ?case
  proof (intro impI, elim conjE)
    assume o: "log_ordered l" and b: "unat (lg_seq l) + length (r # rs) < 2 ^ 64"
    then have "lg_seq l \<noteq> -1" by (auto simp: unat_max_u64)
    with o ev have "log_ordered m" by (simp add: push_ordered)
    moreover have "unat (lg_seq m) = unat (lg_seq l) + 1"
      using ev \<open>lg_seq l \<noteq> -1\<close> by (simp add: unat_succ_u64)
    ultimately show "log_ordered l'" using Cons.IH [OF r] b by simp
  qed
qed

section \<open>Properties\<close>



text \<open>
  The log is append-only for every caller: whatever requests are served after a point, what was
  stored up to that point is a prefix of the log, and as long as the 64-bit counter has not run out
  sequence numbers stay strictly increasing.
\<close>

theorem log_append_only:
  assumes "run apply_request l rs = Inr l'"
  shows "prefix (Snapshot l) (Snapshot l')
    \<and> (log_ordered l \<and> unat (lg_seq l) + length rs < 2 ^ 64 \<longrightarrow> log_ordered l')"
  using log_store.run_view [OF assms] run_ordered [OF assms] by blast

theorem log_append_only_witness:
  "\<exists>l. run apply_request (New False) [ReqAppend SessionEndSeed DNil False 8] = Inr l
     \<and> prefix (Snapshot (New False)) (Snapshot l) \<and> log_ordered l"
proof -
  obtain l where l: "run apply_request (New False) [ReqAppend SessionEndSeed DNil False 8] = Inr l"
    by (simp add: appendWithFlags_def Known_iff)
  have "unat (lg_seq (New False)) + length [ReqAppend SessionEndSeed DNil False 8] < 2 ^ 64"
    by (simp add: New_def)
  with log_append_only [OF l] New_invariants(2) l show ?thesis by blast
qed

text \<open>
  The behaviour every append method shares: nothing happens on a nil log, and on a log it never panics and
  either leaves the log alone or stores one event with the next sequence number.
\<close>

definition log_method :: "(gotime \<Rightarrow> Log option \<Rightarrow> panic + Log option) \<Rightarrow> bool" where
  "log_method m \<longleftrightarrow> (\<forall>now. m now None = Inr None) \<and>
     (\<forall>now l. m now (Some l) = Inr (Some l) \<or>
        (\<exists>ev. m now (Some l) = Inr (Some (push ev l)) \<and> ev_Seq ev = lg_seq l + 1
           \<and> ev_At ev = now \<and> Known (ev_Type ev) \<and> ev_SurfaceOp ev = None))"

lemma log_method_Append: "Known t \<Longrightarrow> log_method (\<lambda>now l. with_log l (\<lambda>l. Append t d now l))"
  by (auto simp: log_method_def with_log_def Append_eq)

lemma log_method_AppendIgnorable:
  "Known t \<Longrightarrow> log_method (\<lambda>now l. with_log l (\<lambda>l. AppendIgnorable t d now l))"
  by (auto simp: log_method_def with_log_def AppendIgnorable_eq)

lemma log_method_skip: "log_method (\<lambda>now l. Inr l)"
  by (auto simp: log_method_def)

lemma log_method_if: "log_method f \<Longrightarrow> log_method g \<Longrightarrow> log_method (\<lambda>now l. if b then f now l else g now l)"
  by (cases b) simp_all

lemma log_methodI: "(\<And>now l. f now l = g now l) \<Longrightarrow> log_method g \<Longrightarrow> log_method f"
  by (simp add: log_method_def)

lemmas log_method_intros = log_method_Append log_method_AppendIgnorable log_method_skip log_method_if

lemmas append_method_defs =
  AppendTurnStart_def AppendTurnEnd_def AppendTurnEndWithError_def AppendTurnEndAborted_def
  AppendStepStart_def AppendStepEnd_def AppendAssistantChunk_def
  AppendAssistantThinkingChunk_def AppendStreamBlockStart_def AppendStreamBlockEnd_def
  AppendStreamFinish_def AppendToolCallDelta_def AppendCompaction_def
  AppendToolWorkflowStart_def AppendToolWorkflowEnd_def AppendLLMRetry_def
  AppendLLMRetryStarted_def AppendRequestContext_def AppendApprovalAsked_def
  AppendApprovalDecided_def AppendApprovalPolicy_def AppendPermission_def
  AppendCompactionStart_def AppendCompactionStartFull_def AppendCompactionPrune_def
  AppendCompactionPruneFull_def AppendCompactionEnd_def AppendCompactionSummary_def
  AppendCompactionSummaryFull_def AppendSessionEndSeed_def AppendTodoWrite_def
  AppendContextInjected_def AppendRequestHeader_def AppendHookInvoked_def AppendHookResult_def
  AppendFeedbackRecord_def AppendGoalChange_def AppendPermissionPreset_def
  AppendSandboxModeWithSource_def AppendScheduleChange_def AppendSessionTitle_def
  AppendSessionTitleLLMRequest_def AppendSubagentDescriptor_def
  AppendSubagentDescriptorFull_def AppendAgentPresetSelected_def AppendAgentInboxSpliced_def
  AppendCommandRun_def AppendCommandDone_def AppendToolWorkflowAgentStart_def
  AppendToolWorkflowAgentEnd_def AppendToolCodeDispatch_def AppendToolCodeDispatchStart_def
  AppendWebDeepSeekSearch_def AppendPlanMode_def AppendScheduleCreate_def
  AppendScheduleUpdate_def AppendScheduleDelete_def AppendScheduleDue_def AppendSpec_def
  AppendSandboxMode_def

text \<open>
  No append method of the package can panic or store anything but one well-numbered event of the
  vocabulary: each of them satisfies the shared contract, for every argument.
\<close>

theorem append_methods_safe:
  "log_method (AppendTurnStart a1a) \<and> log_method (AppendTurnEnd a2a a2b) \<and> log_method (AppendTurnEndWithError a3a a3b a3c) \<and> log_method (AppendTurnEndAborted a4a a4b) \<and>
     log_method (AppendStepStart a5a a5b) \<and> log_method (AppendStepEnd a6a a6b) \<and> log_method (AppendAssistantChunk a7a a7b a7c) \<and> log_method (AppendAssistantThinkingChunk a8a a8b a8c)
     \<and> log_method (AppendStreamBlockStart a9a a9b) \<and> log_method (AppendStreamBlockEnd a10a a10b) \<and> log_method (AppendStreamFinish a11a a11b a11c) \<and> log_method (AppendToolCallDelta a12a a12b a12c a12d) \<and> log_method (AppendCompaction a13a) \<and> log_method (AppendToolWorkflowStart a14a) \<and> log_method (AppendToolWorkflowEnd a15a) \<and> log_method (AppendLLMRetry a16a a16b) \<and> log_method (AppendLLMRetryStarted a17a a17b) \<and> log_method (AppendRequestContext a18a a18b a18c) \<and> log_method (AppendApprovalAsked a19a) \<and> log_method (AppendApprovalDecided a20a) \<and> log_method (AppendApprovalPolicy a21a) \<and> log_method (AppendPermission a22a) \<and> log_method (AppendCompactionStart a23a) \<and> log_method (AppendCompactionStartFull a24a) \<and> log_method (AppendCompactionPrune a25a a25b) \<and>
     log_method (AppendCompactionPruneFull a26a) \<and> log_method (AppendCompactionEnd a27a) \<and>
     log_method (AppendCompactionSummary a28a) \<and> log_method (AppendCompactionSummaryFull a29a)
     \<and> log_method (AppendSessionEndSeed) \<and> log_method (AppendTodoWrite a31a) \<and>
     log_method (AppendContextInjected a32a) \<and> log_method (AppendRequestHeader a33a) \<and>
     log_method (AppendHookInvoked a34a) \<and> log_method (AppendHookResult a35a a35b) \<and>
     log_method (AppendFeedbackRecord a36a) \<and> log_method (AppendGoalChange a37a a37b) \<and>
     log_method (AppendPermissionPreset a38a a38b) \<and> log_method (AppendSandboxModeWithSource a39a a39b) \<and> log_method (AppendScheduleChange a40a) \<and> log_method (AppendSessionTitle a41a)
     \<and> log_method (AppendSessionTitleLLMRequest a42a) \<and> log_method (AppendSubagentDescriptor a43a) \<and> log_method (AppendSubagentDescriptorFull a44a) \<and>
     log_method (AppendAgentPresetSelected a45a) \<and> log_method (AppendAgentInboxSpliced a46a a46b)
     \<and> log_method (AppendCommandRun a47a) \<and> log_method (AppendCommandDone a48a a48b a48c)
     \<and> log_method (AppendToolWorkflowAgentStart a49a) \<and> log_method (AppendToolWorkflowAgentEnd a50a) \<and> log_method (AppendToolCodeDispatch a51a) \<and>
     log_method (AppendToolCodeDispatchStart a52a) \<and> log_method (AppendWebDeepSeekSearch a53a)
     \<and> log_method (AppendPlanMode a54a) \<and> log_method (AppendScheduleCreate a55a) \<and>
     log_method (AppendScheduleUpdate a56a) \<and> log_method (AppendScheduleDelete a57a a57b) \<and>
     log_method (AppendScheduleDue a58a) \<and> log_method (AppendSpec a59a a59b)
     \<and> log_method (AppendSandboxMode a60a)"
  by (intro conjI; rule log_methodI, (simp only: append_method_defs; fail),
      intro log_method_intros; simp add: Known_iff)

end
