(* ===== verification/Event_Surface.thy ===== *)
theory Event_Surface
  imports Event_Log
begin

text \<open>
  The surface fold of \<open>surface.go\<close>: which events the model sees, in which order, after the
  replacements the log records. \<open>FoldSurface\<close> replays a whole log; \<open>SurfaceManager\<close> folds only what was
  appended since its last use. Both plan a transition first and commit it afterwards.
\<close>

section \<open>Data\<close>

record SurfaceFoldReplacement =
  sfr_Seq :: u64
  sfr_Start :: u64
  sfr_End :: u64
  sfr_ShadowedSeqs :: "u64 list"

record SurfaceFoldResult =
  res_Nodes :: "u64 list"
  res_Replacements :: "SurfaceFoldReplacement list"

record surfaceFoldState =
  fs_nodes :: "u64 list"
  fs_replaceGen :: u64

record surfaceReplacePlan =
  rp_start :: u64
  rp_end :: u64
  rp_startIdx :: nat
  rp_endIdx :: nat
  rp_shadowedSeqs :: "u64 list"

datatype surfacePlan = PlanAppend u64 | PlanReplace u64 surfaceReplacePlan

datatype surfaceError =
    ErrMarkerOnIneligible etype
  | ErrSourcesOnIneligible etype
  | ErrInvalidOp etype string
  | ErrEmptySources etype
  | ErrDuplicateSource etype u64
  | ErrLateSource etype u64 u64
  | ErrMissingSource u64
  | ErrStartNotFound u64
  | ErrEndNotFound u64
  | ErrInvertedRange u64 u64
  | ErrRewriteCount
  | ErrRewriteOutside u64
  | ErrRewriteTarget
  | ErrRewritePayload
  | ErrRewriteContent
  | ErrNotContiguous u64 u64

section \<open>Planning and applying one event\<close>

text \<open>The position of a sequence number, \<open>None\<close> for Go's -1.\<close>

definition indexOfSeq :: "u64 list \<Rightarrow> u64 \<Rightarrow> nat option" where
  "indexOfSeq nodes seq = find_index nodes seq"

definition surfaceOpOf :: "Event \<Rightarrow> surfaceError + SurfaceOp option" where
  "surfaceOpOf ev =
     (if \<not> IsSurfaceEligible (ev_Type ev) then
        (if ev_SurfaceOp ev \<noteq> None then Inl (ErrMarkerOnIneligible (ev_Type ev))
         else if length (sources ev) > 0 then Inl (ErrSourcesOnIneligible (ev_Type ev))
         else Inr None)
      else case ev_SurfaceOp ev of
        None \<Rightarrow> Inr (Some \<lparr>so_Op = SurfaceOpAppend, so_Start = 0, so_End = 0\<rparr>)
      | Some op \<Rightarrow>
          if so_Op op \<noteq> SurfaceOpAppend \<and> so_Op op \<noteq> SurfaceOpReplace
          then Inl (ErrInvalidOp (ev_Type ev) (so_Op op))
          else Inr (Some op))"

fun checkSources :: "Event \<Rightarrow> u64 set \<Rightarrow> u64 list \<Rightarrow> surfaceError + u64 set" where
  "checkSources ev seen [] = Inr seen"
| "checkSources ev seen (source # rest) =
     (if source \<in> seen then Inl (ErrDuplicateSource (ev_Type ev) source)
      else if source \<ge> ev_Seq ev then Inl (ErrLateSource (ev_Type ev) source (ev_Seq ev))
      else checkSources ev (insert source seen) rest)"

fun checkShadowed :: "u64 set \<Rightarrow> u64 list \<Rightarrow> surfaceError + unit" where
  "checkShadowed srcs [] = Inr ()"
| "checkShadowed srcs (seq # rest) =
     (if seq \<notin> srcs then Inl (ErrMissingSource seq) else checkShadowed srcs rest)"

definition assertProvenance :: "Event \<Rightarrow> u64 list \<Rightarrow> surfaceError + unit" where
  "assertProvenance ev shadowedSeqs =
     (if ev_SourceEventSeqs ev = Some [] \<and> ev_Type ev \<noteq> AssistantMsg
      then Inl (ErrEmptySources (ev_Type ev))
      else bindE (checkSources ev {} (sources ev)) (\<lambda>srcs. checkShadowed srcs shadowedSeqs))"

definition replacementRange :: "surfaceFoldState \<Rightarrow> SurfaceOp \<Rightarrow> surfaceError + surfaceReplacePlan" where
  "replacementRange state op =
     (case indexOfSeq (fs_nodes state) (so_Start op) of
        None \<Rightarrow> Inl (ErrStartNotFound (so_Start op))
      | Some startIdx \<Rightarrow>
         (case indexOfSeq (fs_nodes state) (so_End op) of
            None \<Rightarrow> Inl (ErrEndNotFound (so_End op))
          | Some endIdx \<Rightarrow>
              if startIdx > endIdx then Inl (ErrInvertedRange (so_Start op) (so_End op))
              else Inr \<lparr>rp_start = so_Start op, rp_end = so_End op,
                        rp_startIdx = startIdx, rp_endIdx = endIdx,
                        rp_shadowedSeqs =
                          take (endIdx + 1 - startIdx) (drop startIdx (fs_nodes state))\<rparr>))"

definition toolResultDataEqualRest :: "ToolResultPayload \<Rightarrow> ToolResultPayload \<Rightarrow> bool" where
  "toolResultDataEqualRest a b \<longleftrightarrow>
     tr_Turn a = tr_Turn b \<and> tr_Step a = tr_Step b \<and> tr_ToolUseID a = tr_ToolUseID b
     \<and> tr_IsError a = tr_IsError b"

text \<open>The subtraction \<open>originalSeq - baseSeq\<close> is guarded against wrap-around by the comparison before it.\<close>

definition assertToolResultRewrite :: "Event \<Rightarrow> u64 list \<Rightarrow> Event list \<Rightarrow> u64 \<Rightarrow> surfaceError + unit" where
  "assertToolResultRewrite ev shadowedSeqs events baseSeq =
     (if ev_Type ev \<noteq> ToolResult then Inr ()
      else case shadowedSeqs of
        [originalSeq] \<Rightarrow>
          if originalSeq < baseSeq \<or> unat (originalSeq - baseSeq) \<ge> length events
          then Inl (ErrRewriteOutside originalSeq)
          else let original = events ! unat (originalSeq - baseSeq) in
            if ev_Type original \<noteq> ToolResult then Inl ErrRewriteTarget
            else (case (ev_Data original, ev_Data ev) of
                    (DToolResult orig, DToolResult repl) \<Rightarrow>
                      if \<not> toolResultDataEqualRest orig repl then Inl ErrRewriteContent else Inr ()
                  | _ \<Rightarrow> Inl ErrRewritePayload)
      | _ \<Rightarrow> Inl ErrRewriteCount)"

definition planSurfaceEvent ::
    "surfaceFoldState \<Rightarrow> Event \<Rightarrow> u64 \<Rightarrow> Event list \<Rightarrow> u64 \<Rightarrow> surfaceError + surfacePlan option" where
  "planSurfaceEvent state ev expectedSeq events baseSeq =
     (if ev_Seq ev \<noteq> expectedSeq then Inl (ErrNotContiguous (ev_Seq ev) expectedSeq)
      else bindE (surfaceOpOf ev) (\<lambda>op.
        case op of
          None \<Rightarrow> Inr None
        | Some op \<Rightarrow>
            if so_Op op = SurfaceOpAppend
            then bindE (assertProvenance ev []) (\<lambda>_. Inr (Some (PlanAppend (ev_Seq ev))))
            else bindE (replacementRange state op) (\<lambda>repl.
                 bindE (assertProvenance ev (rp_shadowedSeqs repl)) (\<lambda>_.
                 bindE (assertToolResultRewrite ev (rp_shadowedSeqs repl) events baseSeq) (\<lambda>_.
                 Inr (Some (PlanReplace (ev_Seq ev) repl)))))))"

definition applySurfacePlan ::
    "surfaceFoldState \<Rightarrow> surfacePlan option \<Rightarrow> surfaceFoldState \<times> SurfaceFoldReplacement option" where
  "applySurfacePlan state plan =
     (case plan of
        None \<Rightarrow> (state, None)
      | Some (PlanAppend seq) \<Rightarrow> (state\<lparr>fs_nodes := fs_nodes state @ [seq]\<rparr>, None)
      | Some (PlanReplace seq repl) \<Rightarrow>
          (\<lparr>fs_nodes = take (rp_startIdx repl) (fs_nodes state) @ [seq]
                       @ drop (rp_endIdx repl + 1) (fs_nodes state),
            fs_replaceGen = fs_replaceGen state + 1\<rparr>,
           Some \<lparr>sfr_Seq = seq, sfr_Start = rp_start repl, sfr_End = rp_end repl,
                 sfr_ShadowedSeqs = rp_shadowedSeqs repl\<rparr>))"

definition applySurfaceEvent ::
    "surfaceFoldState \<Rightarrow> Event \<Rightarrow> u64 \<Rightarrow> Event list \<Rightarrow> u64
      \<Rightarrow> surfaceError + surfaceFoldState \<times> SurfaceFoldReplacement option" where
  "applySurfaceEvent state ev expectedSeq events baseSeq =
     bindE (planSurfaceEvent state ev expectedSeq events baseSeq)
       (\<lambda>plan. Inr (applySurfacePlan state plan))"

section \<open>The complete fold\<close>

text \<open>One iteration of the loop in \<open>FoldSurface\<close>: the index, the state and the replacements so far.\<close>

type_synonym fold_acc = "nat \<times> surfaceFoldState \<times> SurfaceFoldReplacement list"

definition fold_step :: "Event list \<Rightarrow> u64 \<Rightarrow> fold_acc \<Rightarrow> Event \<Rightarrow> surfaceError + fold_acc" where
  "fold_step events baseSeq acc ev =
     (case acc of (i, state, repls) \<Rightarrow>
        bindE (applySurfaceEvent state ev (baseSeq + of_nat i) events baseSeq)
          (\<lambda>(state', repl). Inr (Suc i, state', repls @ (case repl of None \<Rightarrow> [] | Some r \<Rightarrow> [r]))))"

lemma fold_step_apply:
  "fold_step events baseSeq (i, state, repls) ev =
     bindE (applySurfaceEvent state ev (baseSeq + of_nat i) events baseSeq)
       (\<lambda>(state', repl). Inr (Suc i, state', repls @ (case repl of None \<Rightarrow> [] | Some r \<Rightarrow> [r])))"
  by (simp add: fold_step_def)

definition initFold :: surfaceFoldState where
  "initFold = \<lparr>fs_nodes = [], fs_replaceGen = 0\<rparr>"

definition baseSeqOf :: "Event list \<Rightarrow> u64" where
  "baseSeqOf events = (case events of [] \<Rightarrow> 0 | ev # _ \<Rightarrow> ev_Seq ev)"

definition FoldSurface :: "Event list \<Rightarrow> surfaceError + SurfaceFoldResult" where
  "FoldSurface events =
     bindE (run (fold_step events (baseSeqOf events)) (0, initFold, []) events)
       (\<lambda>(_, state, repls). Inr \<lparr>res_Nodes = fs_nodes state, res_Replacements = repls\<rparr>)"

section \<open>The incremental manager\<close>

record SurfaceManager =
  mg_state :: surfaceFoldState
  mg_baseSeq :: u64
  mg_started :: bool
  mg_processed :: nat

definition NewSurfaceManager :: SurfaceManager where
  "NewSurfaceManager = \<lparr>mg_state = initFold, mg_baseSeq = 0, mg_started = False, mg_processed = 0\<rparr>"

text \<open>The loop of \<open>catchUp\<close>; what was folded before an error stays folded.\<close>

function catchUp_loop :: "Event list \<Rightarrow> SurfaceManager \<Rightarrow> SurfaceManager \<times> surfaceError option" where
  "catchUp_loop events m =
     (if mg_processed m < length events then
        (case applySurfaceEvent (mg_state m) (events ! mg_processed m)
                (mg_baseSeq m + of_nat (mg_processed m)) events (mg_baseSeq m) of
           Inl err \<Rightarrow> (m, Some err)
         | Inr (state, _) \<Rightarrow>
             catchUp_loop events (m\<lparr>mg_state := state, mg_processed := mg_processed m + 1\<rparr>))
      else (m, None))"
  by pat_completeness auto
termination
  by (relation "measure (\<lambda>(events, m). length events - mg_processed m)") auto

declare catchUp_loop.simps [simp del]

definition catchUp :: "Log \<Rightarrow> SurfaceManager \<Rightarrow> SurfaceManager \<times> surfaceError option" where
  "catchUp log m =
     (let events = Snapshot log in
      if events = [] then (m, None)
      else catchUp_loop events
             (if \<not> mg_started m then m\<lparr>mg_baseSeq := ev_Seq (hd events), mg_started := True\<rparr> else m))"

definition Nodes :: "Log \<Rightarrow> SurfaceManager \<Rightarrow> SurfaceManager \<times> (surfaceError + u64 list)" where
  "Nodes log m = (case catchUp log m of
     (m', Some err) \<Rightarrow> (m', Inl err) | (m', None) \<Rightarrow> (m', Inr (fs_nodes (mg_state m'))))"

definition ReplaceGeneration :: "Log \<Rightarrow> SurfaceManager \<Rightarrow> SurfaceManager \<times> (surfaceError + u64)" where
  "ReplaceGeneration log m = (case catchUp log m of
     (m', Some err) \<Rightarrow> (m', Inl err) | (m', None) \<Rightarrow> (m', Inr (fs_replaceGen (mg_state m'))))"

definition ValidateNext :: "Log \<Rightarrow> Event \<Rightarrow> SurfaceManager \<Rightarrow> SurfaceManager \<times> surfaceError option" where
  "ValidateNext log ev m = (case catchUp log m of
     (m', Some err) \<Rightarrow> (m', Some err)
   | (m', None) \<Rightarrow>
       (m', case planSurfaceEvent (mg_state m') ev (mg_baseSeq m' + of_nat (mg_processed m'))
                   (Snapshot log) (mg_baseSeq m') of
              Inl err \<Rightarrow> Some err | Inr _ \<Rightarrow> None))"

section \<open>Lemmas on one transition\<close>

named_theorems surface_laws \<open>inversion of planning and applying\<close>

lemma checkSources_Inr:
  "checkSources ev seen xs = Inr srcs \<longleftrightarrow>
     srcs = seen \<union> set xs \<and> distinct xs \<and> set xs \<inter> seen = {} \<and> (\<forall>s \<in> set xs. s < ev_Seq ev)"
  by (induction ev seen xs rule: checkSources.induct) (auto simp: not_le)

lemma checkShadowed_Inr [simp]: "checkShadowed srcs xs = Inr u \<longleftrightarrow> set xs \<subseteq> srcs"
  by (induction srcs xs rule: checkShadowed.induct) auto

lemma assertProvenance_Inr:
  assumes "assertProvenance ev sh = Inr u"
  shows "set sh \<subseteq> set (sources ev)" and "\<forall>s \<in> set (sources ev). s < ev_Seq ev"
    and "distinct (sources ev)"
  using assms
  by (auto simp: assertProvenance_def bindE_Inr checkSources_Inr split: if_splits)

lemma replacementRange_Inr:
  assumes "replacementRange st op = Inr rp"
  shows "rp_startIdx rp \<le> rp_endIdx rp" and "rp_endIdx rp < length (fs_nodes st)"
    and "fs_nodes st ! rp_startIdx rp = so_Start op" and "fs_nodes st ! rp_endIdx rp = so_End op"
    and "rp_shadowedSeqs rp =
      take (rp_endIdx rp + 1 - rp_startIdx rp) (drop (rp_startIdx rp) (fs_nodes st))"
  using assms
  by (auto simp: replacementRange_def indexOfSeq_def split: option.splits if_splits
      dest: find_index_SomeD)

lemma nodes_split:
  assumes "replacementRange st op = Inr rp"
  shows "fs_nodes st = take (rp_startIdx rp) (fs_nodes st) @ rp_shadowedSeqs rp
           @ drop (rp_endIdx rp + 1) (fs_nodes st)"
proof -
  let ?s = "rp_startIdx rp" and ?e = "rp_endIdx rp" and ?n = "fs_nodes st"
  have "drop ?s ?n = take (?e + 1 - ?s) (drop ?s ?n) @ drop (?e + 1 - ?s) (drop ?s ?n)"
    by (simp only: append_take_drop_id)
  also have "drop (?e + 1 - ?s) (drop ?s ?n) = drop (?e + 1) ?n"
    using replacementRange_Inr(1) [OF assms] by simp
  finally show ?thesis
    using replacementRange_Inr(5) [OF assms] append_take_drop_id [of ?s ?n] by simp
qed

lemma shadowed_nonempty: "replacementRange st op = Inr rp \<Longrightarrow> rp_shadowedSeqs rp \<noteq> []"
  using replacementRange_Inr [of st op rp] by (auto simp: Suc_le_eq)

text \<open>
  What a successful transition does: nothing for an event outside the surface, an append, or the
  replacement of a non-empty run of nodes by the event.
\<close>

lemma applySurfaceEvent_cases [consumes 1, case_names ineligible append replace]:
  assumes ap: "applySurfaceEvent st ev ex events base = Inr (st', r)"
  obtains
    "\<not> IsSurfaceEligible (ev_Type ev)" "st' = st" "r = None" "ev_Seq ev = ex"
  | "IsSurfaceEligible (ev_Type ev)" "\<not> is_replace ev" "r = None" "ev_Seq ev = ex"
    "st' = st\<lparr>fs_nodes := fs_nodes st @ [ev_Seq ev]\<rparr>"
  | pre sh post where
    "IsSurfaceEligible (ev_Type ev)" "is_replace ev" "ev_Seq ev = ex" "sh \<noteq> []"
    "fs_nodes st = pre @ sh @ post" "fs_nodes st' = pre @ [ev_Seq ev] @ post"
    "fs_replaceGen st' = fs_replaceGen st + 1" "\<forall>q \<in> set sh. q < ev_Seq ev"
    "set sh \<subseteq> set (sources ev)"
    "\<exists>a b. r = Some \<lparr>sfr_Seq = ev_Seq ev, sfr_Start = a, sfr_End = b, sfr_ShadowedSeqs = sh\<rparr>"
proof -
  from ap obtain plan where plan: "planSurfaceEvent st ev ex events base = Inr plan"
    and app: "applySurfacePlan st plan = (st', r)"
    by (auto simp: applySurfaceEvent_def bindE_Inr)
  from plan have seq: "ev_Seq ev = ex" by (auto simp: planSurfaceEvent_def split: if_splits)
  from plan obtain op where op: "surfaceOpOf ev = Inr op"
    by (auto simp: planSurfaceEvent_def bindE_Inr split: if_splits)
  show thesis
  proof (cases op)
    case None
    with op have "\<not> IsSurfaceEligible (ev_Type ev)"
      by (auto simp: surfaceOpOf_def split: if_splits option.splits)
    moreover from None op plan have "plan = None" by (simp add: planSurfaceEvent_def split: if_splits)
    ultimately show thesis using app seq that(1) by (simp add: applySurfacePlan_def)
  next
    case (Some sop)
    with op have el: "IsSurfaceEligible (ev_Type ev)"
      by (auto simp: surfaceOpOf_def split: if_splits)
    show thesis
    proof (cases "so_Op sop = SurfaceOpAppend")
      case True
      with Some op plan have "plan = Some (PlanAppend (ev_Seq ev))"
        by (auto simp: planSurfaceEvent_def bindE_Inr split: if_splits)
      moreover from True Some op el have "\<not> is_replace ev"
        by (auto simp: surfaceOpOf_def split: option.splits if_splits)
      ultimately show thesis using app seq el that(2) by (simp add: applySurfacePlan_def)
    next
      case False
      with Some op el have rep: "is_replace ev"
        by (auto simp: surfaceOpOf_def split: option.splits if_splits)
      from False Some op plan obtain rp where rp: "replacementRange st sop = Inr rp"
        and prov: "assertProvenance ev (rp_shadowedSeqs rp) = Inr ()"
        and p: "plan = Some (PlanReplace (ev_Seq ev) rp)"
        by (auto simp: planSurfaceEvent_def bindE_Inr split: if_splits)
      show thesis
        using app p seq el rep by (intro that(3) [OF _ _ _ shadowed_nonempty [OF rp] nodes_split [OF rp]])
          (use assertProvenance_Inr [OF prov] in \<open>auto simp: applySurfacePlan_def\<close>)
    qed
  qed
qed

section \<open>The fold invariant\<close>

definition eligible_seqs :: "Event list \<Rightarrow> u64 list" where
  "eligible_seqs events = map ev_Seq (filter (\<lambda>e. IsSurfaceEligible (ev_Type e)) events)"

definition replace_seqs :: "Event list \<Rightarrow> u64 list" where
  "replace_seqs events =
     map ev_Seq (filter (\<lambda>e. IsSurfaceEligible (ev_Type e) \<and> is_replace e) events)"

text \<open>
  After the events \<open>pre\<close>: they are numbered without gaps from the base, the surface nodes and what the
  replacements shadowed are together the eligible events, each once, and the replacements are the
  replacing events in their order, each shadowing earlier nodes only.
\<close>

definition fold_inv :: "u64 \<Rightarrow> Event list \<Rightarrow> fold_acc \<Rightarrow> bool" where
  "fold_inv base pre acc = (case acc of (i, st, repls) \<Rightarrow>
     i = length pre
     \<and> (\<forall>j < length pre. ev_Seq (pre ! j) = base + of_nat j)
     \<and> mset (fs_nodes st) + mset (concat (map sfr_ShadowedSeqs repls)) = mset (eligible_seqs pre)
     \<and> map sfr_Seq repls = replace_seqs pre
     \<and> (repls = [] \<longrightarrow> fs_nodes st = eligible_seqs pre)
     \<and> fs_replaceGen st = of_nat (length repls)
     \<and> (\<forall>r \<in> set repls. sfr_ShadowedSeqs r \<noteq> [] \<and> (\<forall>q \<in> set (sfr_ShadowedSeqs r). q < sfr_Seq r)
          \<and> (\<exists>e \<in> set pre. is_replace e \<and> set (sfr_ShadowedSeqs r) \<subseteq> set (sources e))))"

lemma fold_step_inv:
  assumes inv: "fold_inv base pre s" and st: "fold_step events base s ev = Inr t"
  shows "fold_inv base (pre @ [ev]) t"
proof -
  obtain i state repls where s: "s = (i, state, repls)" by (cases s)
  from st s obtain state' r where ap:
      "applySurfaceEvent state ev (base + of_nat i) events base = Inr (state', r)"
    and t: "t = (Suc i, state', repls @ (case r of None \<Rightarrow> [] | Some x \<Rightarrow> [x]))"
    by (auto simp: fold_step_def bindE_Inr)
  from ap show ?thesis
  proof (cases rule: applySurfaceEvent_cases)
    case ineligible
    with inv s t show ?thesis
      by (auto simp: fold_inv_def eligible_seqs_def replace_seqs_def nth_append less_Suc_eq)
  next
    case append
    with inv s t show ?thesis
      by (auto simp: fold_inv_def eligible_seqs_def replace_seqs_def nth_append less_Suc_eq)
  next
    case (replace a sh b)
    then obtain x y where r: "r = Some \<lparr>sfr_Seq = ev_Seq ev, sfr_Start = x, sfr_End = y,
      sfr_ShadowedSeqs = sh\<rparr>" by blast
    with replace inv s t show ?thesis
      by (auto simp: fold_inv_def eligible_seqs_def replace_seqs_def nth_append less_Suc_eq ac_simps)
  qed
qed

interpretation surface_scan: scan "fold_step events base" "fold_inv base"
  for events :: "Event list" and base :: u64
  by unfold_locales (rule fold_step_inv)

lemma fold_inv_init: "fold_inv base [] (0, initFold, [])"
  by (simp add: fold_inv_def initFold_def eligible_seqs_def replace_seqs_def)

lemma fold_inv_shadowed:
  assumes "fold_inv base pre (i, st, repls)" and "q \<in> set (concat (map sfr_ShadowedSeqs repls))"
  obtains e where "e \<in> set pre" and "is_replace e" and "q \<in> set (sources e)"
  using assms by (fastforce simp: fold_inv_def)

lemma FoldSurface_Inr:
  "FoldSurface events = Inr r \<longleftrightarrow>
     (\<exists>i st. run (fold_step events (baseSeqOf events)) (0, initFold, []) events
        = Inr (i, st, res_Replacements r) \<and> res_Nodes r = fs_nodes st)"
  by (cases r) (auto simp: FoldSurface_def bindE_Inr)

text \<open>
  C2. The surface accounts for the whole log: when \<open>FoldSurface\<close> accepts a log, its nodes together with
  the sequence numbers its replacements shadowed are exactly the surface-eligible events, each
  occurring once; the replacements are the replacing events in log order, and each shadows at least
  one node, all of them earlier than itself. No message is lost or shown twice.
\<close>

theorem surface_partition:
  assumes "FoldSurface events = Inr r"
  shows "mset (res_Nodes r) + mset (concat (map sfr_ShadowedSeqs (res_Replacements r)))
           = mset (eligible_seqs events)
    \<and> map sfr_Seq (res_Replacements r) = replace_seqs events
    \<and> (\<forall>x \<in> set (res_Replacements r). sfr_ShadowedSeqs x \<noteq> []
          \<and> (\<forall>q \<in> set (sfr_ShadowedSeqs x). q < sfr_Seq x))"
  using assms surface_scan.run_inv [OF fold_inv_init]
  by (fastforce simp: FoldSurface_Inr fold_inv_def)


theorem surface_partition_witness:
  "\<exists>r. FoldSurface
      [\<lparr>ev_Type = UserMessage, ev_Seq = 1, ev_At = 5, ev_Data = DNil, ev_Ignorable = False,
        ev_SurfaceOp = None, ev_SourceEventSeqs = None\<rparr>,
       \<lparr>ev_Type = AssistantMsg, ev_Seq = 2, ev_At = 6, ev_Data = DNil, ev_Ignorable = False,
        ev_SurfaceOp = Some \<lparr>so_Op = ''replace'', so_Start = 1, so_End = 1\<rparr>,
        ev_SourceEventSeqs = Some [1]\<rparr>] = Inr r
    \<and> mset (res_Nodes r) + mset (concat (map sfr_ShadowedSeqs (res_Replacements r))) = {#1, 2#}"
proof -
  let ?es = "[\<lparr>ev_Type = UserMessage, ev_Seq = 1, ev_At = 5, ev_Data = DNil, ev_Ignorable = False,
        ev_SurfaceOp = None, ev_SourceEventSeqs = None\<rparr>,
       \<lparr>ev_Type = AssistantMsg, ev_Seq = 2, ev_At = 6, ev_Data = DNil, ev_Ignorable = False,
        ev_SurfaceOp = Some \<lparr>so_Op = ''replace'', so_Start = 1, so_End = 1\<rparr>,
        ev_SourceEventSeqs = Some [1]\<rparr>]"
  have "FoldSurface ?es = Inr \<lparr>res_Nodes = [2], res_Replacements =
      [\<lparr>sfr_Seq = 2, sfr_Start = 1, sfr_End = 1, sfr_ShadowedSeqs = [1]\<rparr>]\<rparr>"
    by code_simp
  from surface_partition [OF this] this show ?thesis
    by (auto simp: eligible_seqs_def IsSurfaceEligible_def add_mset_commute)
qed

section \<open>The incremental manager agrees with the complete fold\<close>

text \<open>
  A step reads the log only at positions already folded, so that what a log has beyond them does not
  matter.
\<close>

lemma nodes_in_prefix:
  assumes "fold_inv base pre (i, st, rs)" and "q \<in> set (fs_nodes st)"
  obtains j where "j < length pre" and "q = base + of_nat j"
proof -
  from assms(1) have eq: "mset (fs_nodes st) + mset (concat (map sfr_ShadowedSeqs rs))
      = mset (eligible_seqs pre)" and sq: "\<forall>j < length pre. ev_Seq (pre ! j) = base + of_nat j"
    by (simp_all add: fold_inv_def)
  from eq have "mset (fs_nodes st) \<subseteq># mset (eligible_seqs pre)"
    by (metis mset_subset_eq_add_left)
  from set_mset_mono [OF this] assms(2) have "q \<in> set (eligible_seqs pre)" by auto
  then obtain e where "e \<in> set pre" "q = ev_Seq e" by (auto simp: eligible_seqs_def)
  then obtain j where "j < length pre" "q = ev_Seq (pre ! j)" by (metis in_set_conv_nth)
  with sq that show thesis by simp
qed

lemma unat_of_nat_le: "unat (of_nat j :: u64) \<le> j"
  by (simp add: unat_of_nat take_bit_nat_eq_self_iff take_bit_eq_mod)

lemma assertToolResultRewrite_prefix:
  assumes "fold_inv base pre (i, st, rs)" and "set sh \<subseteq> set (fs_nodes st)"
    and "prefix pre events" and "prefix events events'"
  shows "assertToolResultRewrite ev sh events' base = assertToolResultRewrite ev sh events base"
proof (cases sh)
  case (Cons q qs)
  with assms(2) have "q \<in> set (fs_nodes st)" by simp
  from nodes_in_prefix [OF assms(1) this] obtain j where j: "j < length pre" "q = base + of_nat j" .
  with assms(3) have "unat (q - base) < length events"
    using unat_of_nat_le [of j] prefix_length_le [OF assms(3)] by simp
  moreover from this assms(4) have "events' ! unat (q - base) = events ! unat (q - base)"
    and "unat (q - base) < length events'"
    by (auto simp: prefix_def nth_append)
  ultimately show ?thesis using Cons
    by (auto simp: assertToolResultRewrite_def Let_def split: list.split)
qed (simp add: assertToolResultRewrite_def)

lemma fold_step_prefix:
  assumes inv: "fold_inv base pre s" and "prefix pre events" and "prefix events events'"
  shows "fold_step events' base s ev = fold_step events base s ev"
proof -
  obtain i st rs where s: "s = (i, st, rs)" by (cases s)
  have "assertToolResultRewrite ev (rp_shadowedSeqs rp) events' base
      = assertToolResultRewrite ev (rp_shadowedSeqs rp) events base"
    if "replacementRange st op = Inr rp" for op rp
    using replacementRange_Inr(5) [OF that] inv assms(2,3) s
    by (intro assertToolResultRewrite_prefix) (auto dest: in_set_takeD in_set_dropD)
  then have "planSurfaceEvent st ev ex events' base = planSurfaceEvent st ev ex events base" for ex
    by (auto simp: planSurfaceEvent_def bindE_def split: sum.split option.split)
  with s show ?thesis by (simp add: fold_step_def applySurfaceEvent_def)
qed

lemma run_fold_prefix:
  assumes "prefix pre events" and "prefix events events'"
  shows "run (fold_step events' base) (0, initFold, []) pre
       = run (fold_step events base) (0, initFold, []) pre"
  using assms(1)
proof (induction pre rule: rev_induct)
  case (snoc x xs)
  then have xs: "prefix xs events" by (metis append_prefixD)
  have "fold_step events' base t x = fold_step events base t x"
    if "run (fold_step events base) (0, initFold, []) xs = Inr t" for t
    using surface_scan.run_inv [OF fold_inv_init that] xs assms(2) by (auto intro: fold_step_prefix)
  with snoc.IH [OF xs] show ?case by (auto simp: run_snoc bindE_def split: sum.split)
qed simp

text \<open>
  A manager that is in step with a log: untouched, or having folded some prefix of the log.
\<close>

definition synced :: "Event list \<Rightarrow> SurfaceManager \<Rightarrow> bool" where
  "synced events m \<longleftrightarrow>
     (if mg_started m then events \<noteq> [] \<and> mg_baseSeq m = baseSeqOf events
        \<and> mg_processed m \<le> length events
        \<and> (\<exists>rs. run (fold_step events (mg_baseSeq m)) (0, initFold, []) (take (mg_processed m) events)
              = Inr (mg_processed m, mg_state m, rs))
      else m = NewSurfaceManager)"

lemma synced_grow:
  assumes "synced events m"
  shows "synced (events @ rest) m"
proof (cases "mg_started m")
  case True
  with assms have p: "mg_processed m \<le> length events" by (simp add: synced_def)
  have "run (fold_step (events @ rest) b) (0, initFold, []) (take (mg_processed m) events)
      = run (fold_step events b) (0, initFold, []) (take (mg_processed m) events)" for b
    by (rule run_fold_prefix) (auto simp: take_is_prefix)
  with True assms p show ?thesis
    by (auto simp: synced_def baseSeqOf_def split: list.splits)
qed (use assms in \<open>simp add: synced_def\<close>)


lemma take_Suc_nth: "k < length xs \<Longrightarrow> take (Suc k) xs = take k xs @ [xs ! k]"
  by (rule take_Suc_conv_app_nth)

text \<open>
  What \<open>catchUp\<close> does to a manager in step with the log: it ends in step with it, reports the error of the
  complete fold, and without an error has folded everything.
\<close>

lemma catchUp_loop_run:
  assumes "synced events m" and "mg_started m" and "catchUp_loop events m = (m', e)"
  shows "synced events m' \<and> mg_started m' \<and>
    (case run (fold_step events (baseSeqOf events)) (0, initFold, []) events of
       Inl err \<Rightarrow> e = Some err
     | Inr (i, st, rs) \<Rightarrow> e = None \<and> mg_state m' = st \<and> mg_processed m' = length events)"
  using assms
proof (induction events m rule: catchUp_loop.induct)
  case (1 events m)
  let ?b = "baseSeqOf events" and ?k = "mg_processed m"
  from "1.prems"(1,2) obtain rs where b: "mg_baseSeq m = ?b" and k: "?k \<le> length events"
    and r: "run (fold_step events ?b) (0, initFold, []) (take ?k events) = Inr (?k, mg_state m, rs)"
    by (auto simp: synced_def)
  show ?case
  proof (cases "?k < length events")
    case False
    with k have "?k = length events" by simp
    with False 1 r show ?thesis by (subst (asm) catchUp_loop.simps) auto
  next
    case True
    have all: "run (fold_step events ?b) (0, initFold, []) events
        = run (fold_step events ?b) (?k, mg_state m, rs) (drop ?k events)"
      using r append_take_drop_id [of ?k events] run_append
      by (metis bindE_simps(2))
    have dr: "drop ?k events = events ! ?k # drop (Suc ?k) events"
      using True by (simp add: Cons_nth_drop_Suc)
    show ?thesis
    proof (cases "applySurfaceEvent (mg_state m) (events ! ?k) (?b + of_nat ?k) events ?b")
      case (Inl err)
      with True "1.prems" b all dr show ?thesis
        by (subst (asm) catchUp_loop.simps) (auto simp: fold_step_apply)
    next
      case (Inr p)
      then obtain st o' where p:
        "applySurfaceEvent (mg_state m) (events ! ?k) (?b + of_nat ?k) events ?b = Inr (st, o')"
        by (cases p) auto
      let ?m = "m\<lparr>mg_state := st, mg_processed := ?k + 1\<rparr>"
      have "run (fold_step events ?b) (0, initFold, []) (take (Suc ?k) events)
          = fold_step events ?b (?k, mg_state m, rs) (events ! ?k)"
        using True r by (simp add: take_Suc_nth run_snoc)
      then have "synced events ?m"
        using True "1.prems"(1,2) b p by (auto simp: synced_def fold_step_apply)
      moreover have "catchUp_loop events ?m = (m', e)"
        using "1.prems"(3) True p b by (subst (asm) catchUp_loop.simps) simp
      ultimately show ?thesis using "1.IH" [OF True, of "(st, o')"] "1.prems"(2) b p by simp
    qed
  qed
qed

lemma catchUp_run:
  assumes "synced (Snapshot log) m" and "catchUp log m = (m', e)"
  shows "synced (Snapshot log) m' \<and>
    (case run (fold_step (Snapshot log) (baseSeqOf (Snapshot log))) (0, initFold, []) (Snapshot log) of
       Inl err \<Rightarrow> e = Some err
     | Inr (i, st, rs) \<Rightarrow> e = None \<and> mg_state m' = st \<and> mg_processed m' = length (Snapshot log)
         \<and> (Snapshot log \<noteq> [] \<longrightarrow> mg_baseSeq m' = baseSeqOf (Snapshot log)))"
proof (cases "Snapshot log")
  case Nil
  with assms show ?thesis
    by (auto simp: catchUp_def synced_def NewSurfaceManager_def split: if_splits)
next
  case (Cons ev evs)
  let ?m = "if \<not> mg_started m then m\<lparr>mg_baseSeq := ev_Seq (hd (Snapshot log)), mg_started := True\<rparr> else m"
  have "synced (Snapshot log) ?m"
    using assms(1) Cons by (auto simp: synced_def NewSurfaceManager_def baseSeqOf_def)
  moreover have "catchUp_loop (Snapshot log) ?m = (m', e)"
    using assms(2) Cons by (auto simp: catchUp_def)
  ultimately have "synced (Snapshot log) m' \<and> mg_started m' \<and>
    (case run (fold_step (Snapshot log) (baseSeqOf (Snapshot log))) (0, initFold, []) (Snapshot log) of
       Inl err \<Rightarrow> e = Some err
     | Inr (i, st, rs) \<Rightarrow> e = None \<and> mg_state m' = st \<and> mg_processed m' = length (Snapshot log))"
    by (intro catchUp_loop_run) auto
  then show ?thesis by (auto simp: synced_def split: sum.splits)
qed

text \<open>
  Every use of a manager: the log grows by any request, and any of the three methods is called at
  any time between.
\<close>

inductive surface_use :: "Log \<times> SurfaceManager \<Rightarrow> bool" where
  start: "surface_use (New observed, NewSurfaceManager)"
| grow: "surface_use (l, m) \<Longrightarrow> apply_request l r = Inr l' \<Longrightarrow> surface_use (l', m)"
| nodes: "surface_use (l, m) \<Longrightarrow> surface_use (l, fst (Nodes l m))"
| gen: "surface_use (l, m) \<Longrightarrow> surface_use (l, fst (ReplaceGeneration l m))"
| validate: "surface_use (l, m) \<Longrightarrow> surface_use (l, fst (ValidateNext l ev m))"

lemma manager_fst:
  "fst (Nodes l m) = fst (catchUp l m)" "fst (ReplaceGeneration l m) = fst (catchUp l m)"
  "fst (ValidateNext l ev m) = fst (catchUp l m)"
  by (auto simp: Nodes_def ReplaceGeneration_def ValidateNext_def split: prod.split option.split)

lemma surface_use_synced:
  assumes "surface_use lm"
  shows "case lm of (l, m) \<Rightarrow> synced (Snapshot l) m"
  using assms
proof (induction rule: surface_use.induct)
  case (start observed)
  then show ?case by (simp add: synced_def NewSurfaceManager_def)
next
  case (grow l m r l')
  from log_store.add_view [OF grow.hyps(2)] obtain e where "Snapshot l' = Snapshot l @ [e]" ..
  with grow.IH show ?case by (simp add: synced_grow)
next
  case (nodes l m)
  then show ?case using catchUp_run [of l m] by (cases "catchUp l m") (simp add: manager_fst)
next
  case (gen l m)
  then show ?case using catchUp_run [of l m] by (cases "catchUp l m") (simp add: manager_fst)
next
  case (validate l m ev)
  then show ?case using catchUp_run [of l m] by (cases "catchUp l m") (simp add: manager_fst)
qed

lemma synced_answers:
  assumes sy: "synced (Snapshot l) m"
  shows "snd (Nodes l m) = map_sum id res_Nodes (FoldSurface (Snapshot l))
    \<and> snd (ReplaceGeneration l m)
        = map_sum id (\<lambda>r. of_nat (length (res_Replacements r))) (FoldSurface (Snapshot l))"
proof -
  obtain m' e where c: "catchUp l m = (m', e)" by (cases "catchUp l m")
  let ?r = "run (fold_step (Snapshot l) (baseSeqOf (Snapshot l))) (0, initFold, []) (Snapshot l)"
  show ?thesis
  proof (cases ?r)
    case (Inl err)
    with catchUp_run [OF sy c] c show ?thesis
      by (simp add: Nodes_def ReplaceGeneration_def FoldSurface_def)
  next
    case (Inr t)
    obtain i st rs where t: "t = (i, st, rs)" by (cases t)
    with surface_scan.run_inv [OF fold_inv_init Inr] have "fs_replaceGen st = of_nat (length rs)"
      by (simp add: fold_inv_def)
    with Inr t catchUp_run [OF sy c] c show ?thesis
      by (simp add: Nodes_def ReplaceGeneration_def FoldSurface_def)
  qed
qed

text \<open>
  C4. The incremental surface refines the complete fold: however appends to the log and calls of the
  manager interleave, \<open>Nodes\<close> answers what \<open>FoldSurface\<close> computes from the whole log, with the same error
  when the log is malformed, and \<open>ReplaceGeneration\<close> is the number of replacements committed.
\<close>

theorem manager_refines_fold:
  assumes "surface_use (l, m)"
  shows "snd (Nodes l m) = map_sum id res_Nodes (FoldSurface (Snapshot l))
    \<and> snd (ReplaceGeneration l m)
        = map_sum id (\<lambda>r. of_nat (length (res_Replacements r))) (FoldSurface (Snapshot l))"
  using surface_use_synced [OF assms] by (simp add: synced_answers)

theorem manager_refines_fold_witness:
  "\<exists>l. apply_request (New False) (ReqAppend UserMessage DNil False 3) = Inr l
     \<and> surface_use (l, fst (Nodes (New False) NewSurfaceManager))
     \<and> snd (Nodes l (fst (Nodes (New False) NewSurfaceManager)))
         = map_sum id res_Nodes (FoldSurface (Snapshot l))"
proof -
  obtain l where l: "apply_request (New False) (ReqAppend UserMessage DNil False 3) = Inr l"
    by (simp add: appendWithFlags_def Known_iff)
  have u: "surface_use (l, fst (Nodes (New False) NewSurfaceManager))"
    by (rule surface_use.grow [OF surface_use.nodes [OF surface_use.start] l])
  from manager_refines_fold [OF u] l u show ?thesis by blast
qed

lemma fold_snoc:
  "run (fold_step (events @ [ev]) b) (0, initFold, []) (events @ [ev])
     = bindE (run (fold_step events b) (0, initFold, []) events) (\<lambda>t. fold_step events b t ev)"
proof -
  have "fold_step (events @ [ev]) b t ev = fold_step events b t ev"
    if "run (fold_step events b) (0, initFold, []) events = Inr t" for t
    using surface_scan.run_inv [OF fold_inv_init that] by (auto intro: fold_step_prefix)
  then show ?thesis
    by (auto simp: run_snoc run_fold_prefix [of events events "events @ [ev]"] bindE_def
        split: sum.split)
qed

lemma ValidateNext_fold:
  assumes sy: "synced (Snapshot l) m" and ne: "Snapshot l \<noteq> []"
  shows "snd (ValidateNext l ev m)
    = (case FoldSurface (Snapshot l @ [ev]) of Inl e \<Rightarrow> Some e | Inr _ \<Rightarrow> None)"
proof -
  obtain m' e where c: "catchUp l m = (m', e)" by (cases "catchUp l m")
  let ?b = "baseSeqOf (Snapshot l)"
  let ?r = "run (fold_step (Snapshot l) ?b) (0, initFold, []) (Snapshot l)"
  have b: "baseSeqOf (Snapshot l @ [ev]) = ?b" using ne by (simp add: baseSeqOf_def split: list.split)
  show ?thesis
  proof (cases ?r)
    case (Inl err)
    with catchUp_run [OF sy c] c b show ?thesis
      by (simp add: ValidateNext_def FoldSurface_def fold_snoc)
  next
    case (Inr t)
    obtain i st rs where t: "t = (i, st, rs)" by (cases t)
    with surface_scan.run_inv [OF fold_inv_init Inr] have "i = length (Snapshot l)"
      by (simp add: fold_inv_def)
    with Inr t catchUp_run [OF sy c] c b ne show ?thesis
      by (auto simp: ValidateNext_def FoldSurface_def fold_snoc fold_step_apply applySurfaceEvent_def
          bindE_def split: sum.split prod.splits)
  qed
qed

text \<open>
  C35. Atomic admission: on a log that has events, \<open>ValidateNext\<close> accepts a candidate exactly when the
  complete fold accepts the log with the candidate added, and rejects it with the fold's own error;
  either way the surface that \<open>Nodes\<close> reports is what it was.
\<close>

theorem validate_next_exact:
  assumes "surface_use (l, m)" and "Snapshot l \<noteq> []"
  shows "snd (ValidateNext l ev m)
      = (case FoldSurface (Snapshot l @ [ev]) of Inl e \<Rightarrow> Some e | Inr _ \<Rightarrow> None)
    \<and> snd (Nodes l (fst (ValidateNext l ev m))) = snd (Nodes l m)"
  using surface_use_synced [OF assms(1)] assms(2)
    surface_use_synced [OF surface_use.validate [OF assms(1)], of ev]
  by (simp add: ValidateNext_fold synced_answers)

theorem validate_next_exact_witness:
  "\<exists>l. apply_request (New False) (ReqAppend UserMessage DNil False 3) = Inr l
     \<and> surface_use (l, NewSurfaceManager) \<and> Snapshot l \<noteq> []
     \<and> snd (ValidateNext l (hd (Snapshot l)) NewSurfaceManager)
         = (case FoldSurface (Snapshot l @ [hd (Snapshot l)]) of Inl e \<Rightarrow> Some e | Inr _ \<Rightarrow> None)"
proof -
  obtain l where l: "apply_request (New False) (ReqAppend UserMessage DNil False 3) = Inr l"
    by (simp add: appendWithFlags_def Known_iff)
  then have ne: "Snapshot l \<noteq> []" by (auto simp: appendWithFlags_def Known_iff Snapshot_def)
  have u: "surface_use (l, NewSurfaceManager)" by (rule surface_use.grow [OF surface_use.start l])
  from validate_next_exact [OF u ne] l u ne show ?thesis by blast
qed

text \<open>
  On an empty log the pre-flight check and the log disagree: the first event the log itself
  would write is numbered 1, the complete fold accepts it, and \<open>ValidateNext\<close> rejects every candidate
  numbered 1 because it expects 0.
\<close>

theorem validate_next_empty_log:
  "snd (ValidateNext (New observed) ev NewSurfaceManager)
     = (if ev_Seq ev \<noteq> 0 then Some (ErrNotContiguous (ev_Seq ev) 0)
        else case FoldSurface [ev] of Inl e \<Rightarrow> Some e | Inr _ \<Rightarrow> None)
   \<and> (\<forall>d now. \<exists>l. Append UserMessage d now (New observed) = Inr l
        \<and> FoldSurface (Snapshot l) = Inr \<lparr>res_Nodes = [1], res_Replacements = []\<rparr>
        \<and> snd (ValidateNext (New observed) (last (Snapshot l)) NewSurfaceManager)
            = Some (ErrNotContiguous 1 0))"
proof -
  have v: "snd (ValidateNext (New observed) ev NewSurfaceManager)
     = (if ev_Seq ev \<noteq> 0 then Some (ErrNotContiguous (ev_Seq ev) 0)
        else case FoldSurface [ev] of Inl e \<Rightarrow> Some e | Inr _ \<Rightarrow> None)" for ev
    by (auto simp: ValidateNext_def catchUp_def Snapshot_def New_def NewSurfaceManager_def
        planSurfaceEvent_def FoldSurface_def baseSeqOf_def fold_step_apply applySurfaceEvent_def
        initFold_def replacementRange_def indexOfSeq_def bindE_def split: sum.splits option.splits)
  have "\<exists>l. Append UserMessage d now (New observed) = Inr l
        \<and> FoldSurface (Snapshot l) = Inr \<lparr>res_Nodes = [1], res_Replacements = []\<rparr>
        \<and> snd (ValidateNext (New observed) (last (Snapshot l)) NewSurfaceManager)
            = Some (ErrNotContiguous 1 0)" for d now
    unfolding v
    by (simp add: Append_eq Known_iff Snapshot_def New_def FoldSurface_def baseSeqOf_def
        fold_step_apply applySurfaceEvent_def planSurfaceEvent_def surfaceOpOf_def
        IsSurfaceEligible_iff assertProvenance_def sources_def applySurfacePlan_def initFold_def)
  with v show ?thesis by blast
qed

end
