(* ===== verification/Event_Pairing.thy ===== *)
theory Event_Pairing
  imports Event_Surface
begin

text \<open>
  The compaction boundary contract of \<open>pairing.go\<close>: where a range of the history may be replaced by a
  summary without separating a tool call from its result, and whether a compaction was interrupted.

  The range loop of \<open>computePairing\<close> counts a \<open>uint64\<close> up to an inclusive bound and does not return when
  the bound is the largest value, so that \<open>computePairing\<close> and its callers return an option: \<open>None\<close> for not
  returning.
\<close>

section \<open>Definitions\<close>

definition surfaceDelta :: "Event \<Rightarrow> int" where
  "surfaceDelta ev =
     (if ev_Type ev = AssistantMsg then
        (case as_Message (ev_Data ev) of Some m \<Rightarrow> int (length (msg_ToolUse m)) | None \<Rightarrow> 0)
      else if ev_Type ev = ToolResult then
        (if is_replace ev then 0
         else case as_ToolResult (ev_Data ev) of
           Some f \<Rightarrow> if tr_IsError f \<and> tr_ToolUseID f = [] then 0 else -1
         | None \<Rightarrow> -1)
      else 0)"

record pairing =
  pr_surfaceSeqs :: "u64 list"
  pr_cutBalanced :: "bool list"

text \<open>The loop \<open>for s := Start; s <= End; s++ { shadowed[s] = true }\<close>.\<close>

partial_function (option) markRange :: "u64 \<Rightarrow> u64 \<Rightarrow> u64 set \<Rightarrow> u64 set option" where
  "markRange s fin shadowed =
     (if s \<le> fin then markRange (s + 1) fin (insert s shadowed) else Some shadowed)"

declare markRange.simps [code]

definition markEvent :: "Event \<Rightarrow> u64 set \<Rightarrow> u64 set option" where
  "markEvent ev shadowed =
     (case ev_SurfaceOp ev of
        None \<Rightarrow> Some shadowed
      | Some op \<Rightarrow>
          if so_Op op = SurfaceOpReplace then
            map_option (\<lambda>sh. sh \<union> set (sources ev))
              (if so_Start op > 0 \<and> so_End op \<ge> so_Start op
               then markRange (so_Start op) (so_End op) shadowed else Some shadowed)
          else Some shadowed)"

fun shadowedSeqs :: "Event list \<Rightarrow> u64 set \<Rightarrow> u64 set option" where
  "shadowedSeqs [] shadowed = Some shadowed"
| "shadowedSeqs (ev # evs) shadowed =
     (case markEvent ev shadowed of None \<Rightarrow> None | Some sh \<Rightarrow> shadowedSeqs evs sh)"

text \<open>The second loop: the pairing so far, the open calls and the corruption flag.\<close>

definition pairStep :: "u64 set \<Rightarrow> pairing \<times> int \<times> bool \<Rightarrow> Event \<Rightarrow> pairing \<times> int \<times> bool" where
  "pairStep shadowed acc ev = (case acc of (p, inProgress, corrupt) \<Rightarrow>
     if \<not> IsSurfaceEligible (ev_Type ev) \<or> ev_Seq ev \<in> shadowed then acc
     else let n = (if corrupt then inProgress else inProgress + surfaceDelta ev);
              c = (corrupt \<or> n < 0) in
       (\<lparr>pr_surfaceSeqs = pr_surfaceSeqs p @ [ev_Seq ev],
         pr_cutBalanced = pr_cutBalanced p @ [\<not> c \<and> n = 0]\<rparr>, n, c))"

definition computePairing :: "Event list \<Rightarrow> pairing option" where
  "computePairing events =
     (case shadowedSeqs events {} of
        None \<Rightarrow> None
      | Some shadowed \<Rightarrow>
          Some (fst (foldl (pairStep shadowed)
            (\<lparr>pr_surfaceSeqs = [], pr_cutBalanced = [True]\<rparr>, 0, False) events)))"

definition pairing_indexOf :: "pairing \<Rightarrow> u64 \<Rightarrow> nat option" where
  "pairing_indexOf p seq = find_index (pr_surfaceSeqs p) seq"

definition ToolPairingBalancedAt :: "Log option \<Rightarrow> u64 \<Rightarrow> bool option" where
  "ToolPairingBalancedAt log seq = (case log of None \<Rightarrow> Some False | Some l \<Rightarrow>
     map_option (\<lambda>p. case pairing_indexOf p seq of None \<Rightarrow> False | Some i \<Rightarrow> pr_cutBalanced p ! i)
       (computePairing (Snapshot l)))"

definition ToolPairingBalancedAfter :: "Log option \<Rightarrow> u64 \<Rightarrow> bool option" where
  "ToolPairingBalancedAfter log seq = (case log of None \<Rightarrow> Some False | Some l \<Rightarrow>
     map_option (\<lambda>p. case pairing_indexOf p seq of None \<Rightarrow> False | Some i \<Rightarrow> pr_cutBalanced p ! (i + 1))
       (computePairing (Snapshot l)))"

text \<open>\<open>(seq, true)\<close> is \<open>Some seq\<close>, \<open>(0, false)\<close> is \<open>None\<close>.\<close>

definition SurfaceSeqAt :: "Log option \<Rightarrow> int \<Rightarrow> u64 option option" where
  "SurfaceSeqAt log index = (case log of None \<Rightarrow> Some None | Some l \<Rightarrow>
     if index < 0 then Some None
     else map_option (\<lambda>p. if index < int (length (pr_surfaceSeqs p))
                          then Some (pr_surfaceSeqs p ! nat index) else None)
            (computePairing (Snapshot l)))"

definition SurfaceCount :: "Log option \<Rightarrow> nat" where
  "SurfaceCount log = (case log of None \<Rightarrow> 0 | Some l \<Rightarrow>
     length (filter (\<lambda>ev. IsSurfaceEligible (ev_Type ev)) (Snapshot l)))"

text \<open>The turn bracket open at the end of the log, as its start's sequence number.\<close>

definition liveTurnStep :: "u64 option \<Rightarrow> Event \<Rightarrow> u64 option" where
  "liveTurnStep op ev =
     (if ev_Type ev = TurnStart then Some (ev_Seq ev) else if ev_Type ev = TurnEnd then None else op)"

definition splitsLiveTurn :: "Event list \<Rightarrow> u64 \<Rightarrow> u64 \<Rightarrow> bool" where
  "splitsLiveTurn events start fin =
     (case foldl liveTurnStep None events of
        None \<Rightarrow> False | Some openStart \<Rightarrow> openStart \<ge> start \<and> openStart \<le> fin)"

datatype rangeReason =
    RangeOk | JournalUnavailable | StartAfterEnd | NotSurfaceNode u64
  | UnbalancedBefore | UnbalancedAfter | ShadowsLiveTurn

text \<open>The checks after the pairing is computed.\<close>

definition rangeVerdict :: "pairing \<Rightarrow> Log \<Rightarrow> u64 \<Rightarrow> u64 \<Rightarrow> rangeReason" where
  "rangeVerdict p l start fin =
     (case pairing_indexOf p start of None \<Rightarrow> NotSurfaceNode start
      | Some startIdx \<Rightarrow> (case pairing_indexOf p fin of None \<Rightarrow> NotSurfaceNode fin
      | Some endIdx \<Rightarrow>
           if \<not> pr_cutBalanced p ! startIdx then UnbalancedBefore
           else if \<not> pr_cutBalanced p ! (endIdx + 1) then UnbalancedAfter
           else if splitsLiveTurn (Snapshot l) start fin then ShadowsLiveTurn
           else RangeOk))"

definition SafeCompactionRange :: "Log option \<Rightarrow> u64 \<Rightarrow> u64 \<Rightarrow> rangeReason option" where
  "SafeCompactionRange log start fin = (case log of None \<Rightarrow> Some JournalUnavailable | Some l \<Rightarrow>
     if start > fin then Some StartAfterEnd
     else map_option (\<lambda>p. rangeVerdict p l start fin) (computePairing (Snapshot l)))"

text \<open>The list of open compaction brackets, most recent last; the inner loop searches from the end.\<close>

fun removeLast :: "string \<Rightarrow> string list \<Rightarrow> string list" where
  "removeLast i [] = []"
| "removeLast i (x # xs) =
     (if i \<in> set xs then x # removeLast i xs else if x = i then xs else x # xs)"

definition orphanStep :: "string list \<Rightarrow> Event \<Rightarrow> string list" where
  "orphanStep openIDs ev =
     (if ev_Type ev = CompactionStart then
        openIDs @ [case as_CompactionStart (ev_Data ev) of Some f \<Rightarrow> cs_CompactionID f | None \<Rightarrow> []]
      else if ev_Type ev = CompactionEnd then
        (if openIDs = [] then openIDs
         else let i = (case as_CompactionEnd (ev_Data ev) of Some f \<Rightarrow> ce_CompactionID f | None \<Rightarrow> []) in
           if i = [] then butlast openIDs else removeLast i openIDs)
      else openIDs)"

definition HasOrphanedCompaction :: "Log option \<Rightarrow> bool" where
  "HasOrphanedCompaction log = (case log of None \<Rightarrow> False | Some l \<Rightarrow>
     foldl orphanStep [] (Snapshot l) \<noteq> [])"

section \<open>The range loop\<close>

lemma markRange_Some:
  assumes "s \<le> fin + 1" and "fin \<noteq> -1"
  shows "markRange s fin sh = Some (sh \<union> {s..fin})"
  using assms
proof (induction "unat (fin + 1 - s)" arbitrary: s sh)
  case 0
  then have "s = fin + 1" by (simp add: unat_eq_0)
  moreover have "fin < fin + 1" by (rule u64_less_succ [OF 0(3)])
  ultimately show ?case by (subst markRange.simps) auto
next
  case (Suc n)
  have lt: "fin < fin + 1" by (rule u64_less_succ [OF Suc.prems(2)])
  have "s \<noteq> fin + 1" using Suc.hyps(2) by auto
  then have le: "s \<le> fin" using Suc.prems(1) Suc.prems(2) by (simp add: word_le_nat_alt unat_succ_u64 word_unat_eq_iff)
  have "unat fin \<noteq> 2 ^ 64 - 1"
    using Suc.prems(2) unat_max_u64 by (metis word_unat_eq_iff)
  with le have "s \<noteq> -1"
    using unat_less_2p64 [of fin] by (auto simp: word_le_nat_alt unat_max_u64)
  then have s1: "s < s + 1" by (rule u64_less_succ)
  have "s + 1 \<le> fin + 1" using le Suc.prems(2) \<open>s \<noteq> -1\<close> by (simp add: word_le_nat_alt unat_succ_u64)
  moreover have "n = unat (fin + 1 - (s + 1))"
  proof -
    have "fin + 1 - s \<noteq> 0" using Suc.hyps(2) by auto
    then have "unat (fin + 1 - s - 1) = unat (fin + 1 - s) - 1" by (rule unat_minus_one)
    moreover have "fin + 1 - (s + 1) = fin + 1 - s - 1" by simp
    ultimately show ?thesis using Suc.hyps(2) by presburger
  qed
  ultimately have "markRange (s + 1) fin (insert s sh) = Some (insert s sh \<union> {s + 1..fin})"
    using Suc.prems(2) by (intro Suc.hyps(1)) simp_all
  moreover have "{s..fin} = insert s {s + 1..fin}"
    using le s1 \<open>s \<noteq> -1\<close> by (auto simp: word_le_nat_alt word_less_nat_alt unat_succ_u64 word_unat_eq_iff)
  ultimately show ?case using le by (subst markRange.simps) simp
qed

lemma markRange_diverges: "markRange s fin sh = Some r \<Longrightarrow> fin \<noteq> -1"
  by (rule markRange.raw_induct [where P = "\<lambda>s fin sh r. fin \<noteq> -1"]) (auto split: if_splits)

section \<open>What the shadow set holds\<close>

definition range_ok :: "Event \<Rightarrow> bool" where
  "range_ok ev \<longleftrightarrow> (\<forall>op. ev_SurfaceOp ev = Some op \<longrightarrow> so_Op op = SurfaceOpReplace
      \<longrightarrow> 0 < so_Start op \<longrightarrow> so_End op \<noteq> -1)"

definition event_shadow :: "Event \<Rightarrow> u64 set" where
  "event_shadow ev = (case ev_SurfaceOp ev of None \<Rightarrow> {} | Some op \<Rightarrow>
     if so_Op op = SurfaceOpReplace
     then set (sources ev) \<union> (if 0 < so_Start op then {so_Start op..so_End op} else {}) else {})"

lemma markEvent_Some:
  assumes "range_ok ev"
  shows "markEvent ev sh = Some (sh \<union> event_shadow ev)"
proof (cases "ev_SurfaceOp ev")
  case (Some op)
  have "markRange (so_Start op) (so_End op) sh = Some (sh \<union> {so_Start op..so_End op})"
    if "so_Op op = SurfaceOpReplace" "0 < so_Start op" "so_Start op \<le> so_End op"
  proof (rule markRange_Some)
    show "so_End op \<noteq> -1" using assms Some that by (simp add: range_ok_def)
    then show "so_Start op \<le> so_End op + 1"
      using that(3) by (simp add: word_le_nat_alt unat_succ_u64)
  qed
  with Some show ?thesis by (auto simp: markEvent_def event_shadow_def)
qed (simp add: markEvent_def event_shadow_def)

lemma shadowedSeqs_Some:
  "\<forall>ev \<in> set events. range_ok ev \<Longrightarrow> shadowedSeqs events sh = Some (sh \<union> (\<Union>ev \<in> set events. event_shadow ev))"
  by (induction events arbitrary: sh) (auto simp: markEvent_Some)

lemma markEvent_range_ok: "markEvent ev sh = Some r \<Longrightarrow> range_ok ev"
  by (auto simp: markEvent_def range_ok_def split: option.splits if_splits
      dest: markRange_diverges word_gt_0 [THEN iffD1])

lemma shadowedSeqs_range_ok: "shadowedSeqs events sh = Some r \<Longrightarrow> \<forall>ev \<in> set events. range_ok ev"
  by (induction events arbitrary: sh) (auto split: option.splits dest: markEvent_range_ok)

section \<open>What the balance flags mean\<close>

text \<open>The nodes the pairing keeps and the number of calls left open after a list of nodes.\<close>

definition live_nodes :: "Event list \<Rightarrow> Event list" where
  "live_nodes events = filter (\<lambda>ev. IsSurfaceEligible (ev_Type ev)
     \<and> ev_Seq ev \<notin> (\<Union>e \<in> set events. event_shadow e)) events"

definition balance :: "Event list \<Rightarrow> int" where
  "balance ns = sum_list (map surfaceDelta ns)"

definition cut_ok :: "Event list \<Rightarrow> nat \<Rightarrow> bool" where
  "cut_ok ns i \<longleftrightarrow> (\<forall>j \<le> i. 0 \<le> balance (take j ns)) \<and> balance (take i ns) = 0"

lemma balance_snoc [simp]: "balance (ns @ [ev]) = balance ns + surfaceDelta ev"
  by (simp add: balance_def)

lemma pairStep_apply:
  "pairStep shadowed (p, inProgress, corrupt) ev =
     (if \<not> IsSurfaceEligible (ev_Type ev) \<or> ev_Seq ev \<in> shadowed then (p, inProgress, corrupt)
     else let n = (if corrupt then inProgress else inProgress + surfaceDelta ev);
              c = (corrupt \<or> n < 0) in
       (\<lparr>pr_surfaceSeqs = pr_surfaceSeqs p @ [ev_Seq ev],
         pr_cutBalanced = pr_cutBalanced p @ [\<not> c \<and> n = 0]\<rparr>, n, c))"
  by (simp add: pairStep_def)

lemma foldl_pairStep:
  "foldl (pairStep sh) (\<lparr>pr_surfaceSeqs = [], pr_cutBalanced = [True]\<rparr>, 0, False) events = (p, n, c) \<Longrightarrow>
   ns = filter (\<lambda>ev. IsSurfaceEligible (ev_Type ev) \<and> ev_Seq ev \<notin> sh) events \<Longrightarrow>
     pr_surfaceSeqs p = map ev_Seq ns \<and> length (pr_cutBalanced p) = Suc (length ns)
     \<and> (\<forall>i \<le> length ns. pr_cutBalanced p ! i = cut_ok ns i)
     \<and> c = (\<exists>j \<le> length ns. balance (take j ns) < 0) \<and> (\<not> c \<longrightarrow> n = balance ns)"
proof (induction events arbitrary: p n c ns rule: rev_induct)
  case Nil
  then show ?case by (auto simp: cut_ok_def balance_def)
next
  case (snoc ev evs)
  obtain p0 n0 c0 where f: "foldl (pairStep sh) (\<lparr>pr_surfaceSeqs = [], pr_cutBalanced = [True]\<rparr>, 0, False) evs
      = (p0, n0, c0)" by (metis prod_cases3)
  define ms where "ms = filter (\<lambda>ev. IsSurfaceEligible (ev_Type ev) \<and> ev_Seq ev \<notin> sh) evs"
  note ih = snoc.IH [OF f ms_def]
  show ?case
  proof (cases "IsSurfaceEligible (ev_Type ev) \<and> ev_Seq ev \<notin> sh")
    case False
    with snoc.prems f ms_def have "ns = ms" "p = p0" "n = n0" "c = c0" by (auto simp: pairStep_apply)
    with ih show ?thesis by simp
  next
    case True
    with snoc.prems f ms_def have ns: "ns = ms @ [ev]"
      and n: "n = (if c0 then n0 else n0 + surfaceDelta ev)" and c: "c = (c0 \<or> n < 0)"
      and p: "p = \<lparr>pr_surfaceSeqs = pr_surfaceSeqs p0 @ [ev_Seq ev],
         pr_cutBalanced = pr_cutBalanced p0 @ [\<not> c \<and> n = 0]\<rparr>"
      by (auto simp: pairStep_apply Let_def)
    from ih have n0: "\<not> c0 \<longrightarrow> n0 = balance ms" by blast
    with n ns have bal: "\<not> c0 \<Longrightarrow> n = balance ns" by simp
    have cc: "c = (\<exists>j \<le> length ns. balance (take j ns) < 0)"
      using ih c bal ns by (auto simp: le_Suc_eq)
    have "pr_cutBalanced p ! i = cut_ok ns i" if "i \<le> length ns" for i
    proof (cases "i = length ns")
      case True
      then have "pr_cutBalanced p ! i = (\<not> c \<and> n = 0)" using p ih ns by (simp add: nth_append)
      moreover have "\<not> c \<Longrightarrow> n = balance ns" using c bal by simp
      ultimately show ?thesis using True cc by (auto simp: cut_ok_def not_less)
    next
      case False
      then have i: "i \<le> length ms" using that ns by simp
      then have "pr_cutBalanced p ! i = cut_ok ms i" using p ih by (simp add: nth_append)
      also have "cut_ok ms i = cut_ok ns i" using i ns by (auto simp: cut_ok_def)
      finally show ?thesis .
    qed
    moreover have "\<not> c \<longrightarrow> n = balance ns" using c bal by blast
    moreover have "pr_surfaceSeqs p = map ev_Seq ns" "length (pr_cutBalanced p) = Suc (length ns)"
      using p ih ns by simp_all
    ultimately show ?thesis using cc by blast
  qed
qed

lemma computePairing_Some:
  assumes "computePairing events = Some p"
  shows "pr_surfaceSeqs p = map ev_Seq (live_nodes events)"
    and "length (pr_cutBalanced p) = Suc (length (live_nodes events))"
    and "i \<le> length (live_nodes events) \<Longrightarrow> pr_cutBalanced p ! i = cut_ok (live_nodes events) i"
proof -
  from assms obtain sh where sh: "shadowedSeqs events {} = Some sh"
    and p: "p = fst (foldl (pairStep sh) (\<lparr>pr_surfaceSeqs = [], pr_cutBalanced = [True]\<rparr>, 0, False) events)"
    by (auto simp: computePairing_def split: option.splits)
  from shadowedSeqs_range_ok [OF sh] shadowedSeqs_Some [of events "{}"] sh
  have "sh = (\<Union>ev \<in> set events. event_shadow ev)" by simp
  then have ln: "live_nodes events = filter (\<lambda>ev. IsSurfaceEligible (ev_Type ev) \<and> ev_Seq ev \<notin> sh) events"
    by (simp add: live_nodes_def)
  obtain q n c where q: "foldl (pairStep sh) (\<lparr>pr_surfaceSeqs = [], pr_cutBalanced = [True]\<rparr>, 0, False) events
      = (q, n, c)" by (metis prod_cases3)
  then have "p = q" using p by simp
  with foldl_pairStep [OF q ln]
  show "pr_surfaceSeqs p = map ev_Seq (live_nodes events)"
    and "length (pr_cutBalanced p) = Suc (length (live_nodes events))"
    and "i \<le> length (live_nodes events) \<Longrightarrow> pr_cutBalanced p ! i = cut_ok (live_nodes events) i"
    by blast+
qed

section \<open>Properties\<close>

text \<open>
  The fold of \<open>computePairing\<close> computes what its comment says: it returns exactly when no replacement
  range ends at the largest sequence number, there is one flag per cut (so the index after a node is
  always in range), and the flag of a cut is set exactly when no result before it lacks a call and
  no call before it lacks a result.
\<close>

theorem pairing_cuts_exact:
  "((\<exists>p. computePairing events = Some p) \<longleftrightarrow> (\<forall>ev \<in> set events. range_ok ev))
   \<and> (\<forall>p. computePairing events = Some p \<longrightarrow>
        pr_surfaceSeqs p = map ev_Seq (live_nodes events)
        \<and> length (pr_cutBalanced p) = Suc (length (live_nodes events))
        \<and> (\<forall>i \<le> length (live_nodes events). pr_cutBalanced p ! i = cut_ok (live_nodes events) i))"
proof (intro conjI allI impI)
  show "(\<exists>p. computePairing events = Some p) \<longleftrightarrow> (\<forall>ev \<in> set events. range_ok ev)"
    using shadowedSeqs_range_ok shadowedSeqs_Some [of events "{}"]
    by (fastforce simp: computePairing_def split: option.splits)
qed (use computePairing_Some in blast)+

theorem pairing_cuts_exact_witness:
  "\<exists>p. computePairing [\<lparr>ev_Type = UserMessage, ev_Seq = 1, ev_At = 0, ev_Data = DNil, ev_Ignorable = False,
        ev_SurfaceOp = None, ev_SourceEventSeqs = None\<rparr>] = Some p \<and> length (pr_cutBalanced p) = 2"
proof -
  let ?ev = "\<lparr>ev_Type = UserMessage, ev_Seq = 1, ev_At = 0, ev_Data = DNil, ev_Ignorable = False,
        ev_SurfaceOp = None, ev_SourceEventSeqs = None\<rparr>"
  have "live_nodes [?ev] = [?ev]" by (simp add: live_nodes_def IsSurfaceEligible_iff event_shadow_def)
  moreover have "range_ok ?ev" by (simp add: range_ok_def)
  ultimately show ?thesis using pairing_cuts_exact [of "[?ev]"] by fastforce
qed

lemma indexOf_Some:
  assumes "computePairing events = Some p" and "pairing_indexOf p seq = Some i"
  shows "i < length (live_nodes events)" and "ev_Seq (live_nodes events ! i) = seq"
  using find_index_SomeD [of "pr_surfaceSeqs p" seq i] assms computePairing_Some(1) [OF assms(1)]
  by (auto simp: pairing_indexOf_def)

lemma live_nodes_sorted:
  assumes "sorted_wrt (\<lambda>a b. ev_Seq a < ev_Seq b) events"
  shows "sorted_wrt (\<lambda>a b. ev_Seq a < ev_Seq b) (live_nodes events)"
  using assms by (simp add: live_nodes_def sorted_wrt_filter)

lemma balance_append: "balance (xs @ ys) = balance xs + balance ys"
  by (simp add: balance_def)

lemma balance_segment:
  assumes "i \<le> j" and "balance (take i ns) = 0"
  shows "balance (take (j - i) (drop i ns)) = balance (take j ns)"
proof -
  have "take j ns = take i ns @ take (j - i) (drop i ns)"
    using assms(1) by (metis le_add_diff_inverse take_add)
  then show ?thesis using assms(2) by (simp add: balance_append)
qed

text \<open>
  A range \<open>SafeCompactionRange\<close> approves can be cut out of the history without separating a call from its
  result: its end points are live nodes in order, inside it calls and results balance, no prefix of
  it has more results than calls, and the marker that opened the turn still running is outside it.
\<close>

theorem safe_range_sound:
  assumes "SafeCompactionRange (Some l) start fin = Some RangeOk"
    and "sorted_wrt (\<lambda>a b. ev_Seq a < ev_Seq b) (Snapshot l)"
  shows "\<exists>i j. i \<le> j \<and> j < length (live_nodes (Snapshot l))
    \<and> ev_Seq (live_nodes (Snapshot l) ! i) = start \<and> ev_Seq (live_nodes (Snapshot l) ! j) = fin
    \<and> balance (take (Suc j - i) (drop i (live_nodes (Snapshot l)))) = 0
    \<and> (\<forall>k \<le> Suc j - i. 0 \<le> balance (take k (drop i (live_nodes (Snapshot l)))))
    \<and> \<not> splitsLiveTurn (Snapshot l) start fin"
proof -
  let ?ns = "live_nodes (Snapshot l)"
  from assms(1) obtain p where le: "\<not> fin < start" and p: "computePairing (Snapshot l) = Some p"
    and v: "rangeVerdict p l start fin = RangeOk"
    by (auto simp: SafeCompactionRange_def split: if_splits)
  from v obtain i j where i: "pairing_indexOf p start = Some i" and j: "pairing_indexOf p fin = Some j"
    and bi: "pr_cutBalanced p ! i" and bj: "pr_cutBalanced p ! (j + 1)"
    and live: "\<not> splitsLiveTurn (Snapshot l) start fin"
    by (auto simp: rangeVerdict_def split: option.splits if_splits)
  note ii = indexOf_Some [OF p i] and jj = indexOf_Some [OF p j]
  have ij: "i \<le> j"
  proof (rule ccontr)
    assume "\<not> i \<le> j"
    then have "ev_Seq (?ns ! j) < ev_Seq (?ns ! i)"
      using sorted_wrt_nth_less [OF live_nodes_sorted [OF assms(2)], of j i] ii by simp
    then show False using le ii jj by simp
  qed
  have ci: "cut_ok ?ns i" and cj: "cut_ok ?ns (Suc j)"
    using computePairing_Some(3) [OF p, of i] computePairing_Some(3) [OF p, of "Suc j"] bi bj ii jj
    by simp_all
  have seg: "balance (take k (drop i ?ns)) = balance (take (i + k) ?ns)" for k
    using balance_segment [of i "i + k" ?ns] ci by (simp add: cut_ok_def)
  have "balance (take (Suc j - i) (drop i ?ns)) = 0"
    using cj ij seg [of "Suc j - i"] by (simp add: cut_ok_def)
  moreover have "\<forall>k \<le> Suc j - i. 0 \<le> balance (take k (drop i ?ns))"
    using cj ij by (auto simp: seg cut_ok_def)
  ultimately show ?thesis using ij ii jj live by blast
qed

theorem safe_range_sound_witness:
  "\<exists>l. Append UserMessage DNil 1 (New False) = Inr l \<and> SafeCompactionRange (Some l) 1 1 = Some RangeOk
     \<and> ev_Seq (live_nodes (Snapshot l) ! 0) = 1"
proof -
  let ?ev = "\<lparr>ev_Type = UserMessage, ev_Seq = 1, ev_At = 1, ev_Data = DNil, ev_Ignorable = False,
        ev_SurfaceOp = None, ev_SourceEventSeqs = None\<rparr>"
  let ?l = "push ?ev (New False)"
  have s: "Snapshot ?l = [?ev]" by (simp add: Snapshot_def New_def)
  have a: "Append UserMessage DNil 1 (New False) = Inr ?l"
    by (simp add: Append_eq Known_iff) (simp add: New_def)
  have "computePairing [?ev] = Some \<lparr>pr_surfaceSeqs = [1], pr_cutBalanced = [True, True]\<rparr>"
    by (simp add: computePairing_def markEvent_def pairStep_apply IsSurfaceEligible_iff surfaceDelta_def)
  then have ok: "SafeCompactionRange (Some ?l) 1 1 = Some RangeOk"
    by (simp add: SafeCompactionRange_def rangeVerdict_def s pairing_indexOf_def splitsLiveTurn_def liveTurnStep_def)
  have "sorted_wrt (\<lambda>a b. ev_Seq a < ev_Seq b) (Snapshot ?l)" by (simp add: s)
  from safe_range_sound [OF ok this] have "length (live_nodes (Snapshot ?l)) > 0" by auto
  moreover have "length (live_nodes (Snapshot ?l)) \<le> 1" by (simp add: s live_nodes_def)
  ultimately have "live_nodes (Snapshot ?l) = [?ev]" by (auto simp: s live_nodes_def split: if_splits)
  with a ok show ?thesis by auto
qed

text \<open>
  The pairing never counts a node that the surface fold has replaced: every node it reports is in
  the current surface. The converse fails, because the pairing reads a replacement range as an
  interval of numbers and the fold as an interval of positions.
\<close>

theorem pairing_nodes_live:
  assumes "FoldSurface events = Inr r" and "computePairing events = Some p"
  shows "set (pr_surfaceSeqs p) \<subseteq> set (res_Nodes r)"
proof
  fix q
  assume "q \<in> set (pr_surfaceSeqs p)"
  then obtain ev where ev: "ev \<in> set events" "IsSurfaceEligible (ev_Type ev)" "q = ev_Seq ev"
    and nsh: "\<forall>e \<in> set events. q \<notin> event_shadow e"
    using computePairing_Some(1) [OF assms(2)] by (auto simp: live_nodes_def)
  from assms(1) obtain i st where run: "run (fold_step events (baseSeqOf events)) (0, initFold, []) events
      = Inr (i, st, res_Replacements r)" and n: "res_Nodes r = fs_nodes st"
    by (auto simp: FoldSurface_Inr)
  have inv: "fold_inv (baseSeqOf events) events (i, st, res_Replacements r)"
    using surface_scan.run_inv [OF fold_inv_init run] by simp
  have "q \<notin> set (concat (map sfr_ShadowedSeqs (res_Replacements r)))"
  proof
    assume "q \<in> set (concat (map sfr_ShadowedSeqs (res_Replacements r)))"
    then obtain e where "e \<in> set events" "is_replace e" "q \<in> set (sources e)"
      by (rule fold_inv_shadowed [OF inv])
    then have "q \<in> event_shadow e" by (auto simp: event_shadow_def is_replace_def split: option.splits)
    with nsh \<open>e \<in> set events\<close> show False by blast
  qed
  moreover have "q \<in> set_mset (mset (eligible_seqs events))"
    using ev by (auto simp: eligible_seqs_def)
  then have "q \<in> set_mset (mset (fs_nodes st) + mset (concat (map sfr_ShadowedSeqs (res_Replacements r))))"
    using inv by (simp add: fold_inv_def)
  ultimately show "q \<in> set (res_Nodes r)" using n by auto
qed

theorem pairing_nodes_live_witness:
  "set (pr_surfaceSeqs \<lparr>pr_surfaceSeqs = [1], pr_cutBalanced = [True, True]\<rparr>)
     \<subseteq> set (res_Nodes \<lparr>res_Nodes = [1], res_Replacements = []\<rparr>)"
proof (rule pairing_nodes_live)
  let ?ev = "\<lparr>ev_Type = UserMessage, ev_Seq = 1, ev_At = 0, ev_Data = DNil, ev_Ignorable = False,
        ev_SurfaceOp = None, ev_SourceEventSeqs = None\<rparr>"
  show "FoldSurface [?ev] = Inr \<lparr>res_Nodes = [1], res_Replacements = []\<rparr>"
    by code_simp
  show "computePairing [?ev] = Some \<lparr>pr_surfaceSeqs = [1], pr_cutBalanced = [True, True]\<rparr>"
    by (simp add: computePairing_def markEvent_def pairStep_apply IsSurfaceEligible_iff surfaceDelta_def)
qed

text \<open>
  The disagreement is real: in a log of four user messages where message 4 replaces message 2 and a
  fifth event replaces positions from node 1 to node 4, the fold keeps node 3 visible while the
  pairing, reading the range as the numbers 1 to 4, no longer sees it, and \<open>SurfaceCount\<close> still counts
  every message ever appended.
\<close>

theorem pairing_misreads_positions:
  fixes msg :: "u64 \<Rightarrow> Event" and rep :: "u64 \<Rightarrow> u64 \<Rightarrow> u64 \<Rightarrow> u64 list \<Rightarrow> Event"
  defines "msg \<equiv> \<lambda>q. \<lparr>ev_Type = UserMessage, ev_Seq = q, ev_At = 0, ev_Data = DNil,
      ev_Ignorable = False, ev_SurfaceOp = None, ev_SourceEventSeqs = None\<rparr>"
    and "rep \<equiv> \<lambda>q a b srcs. \<lparr>ev_Type = UserMessage, ev_Seq = q, ev_At = 0, ev_Data = DNil,
      ev_Ignorable = False, ev_SurfaceOp = Some \<lparr>so_Op = ''replace'', so_Start = a, so_End = b\<rparr>,
      ev_SourceEventSeqs = Some srcs\<rparr>"
  shows "map_sum id res_Nodes (FoldSurface [msg 1, msg 2, msg 3, rep 4 2 2 [2], rep 5 1 4 [1, 4]])
      = Inr [5, 3]
    \<and> map_option pr_surfaceSeqs (computePairing [msg 1, msg 2, msg 3, rep 4 2 2 [2], rep 5 1 4 [1, 4]])
      = Some [5]
    \<and> SurfaceCount (Some (push (rep 5 1 4 [1, 4]) (push (rep 4 2 2 [2])
        (push (msg 3) (push (msg 2) (push (msg 1) (New False))))))) = 5"
  unfolding msg_def rep_def by (intro conjI; code_simp)

section \<open>Interrupted compactions\<close>

definition start_id :: "Event \<Rightarrow> string option" where
  "start_id ev = (if ev_Type ev = CompactionStart then
     Some (case as_CompactionStart (ev_Data ev) of Some f \<Rightarrow> cs_CompactionID f | None \<Rightarrow> []) else None)"

definition end_id :: "Event \<Rightarrow> string option" where
  "end_id ev = (if ev_Type ev = CompactionEnd then
     Some (case as_CompactionEnd (ev_Data ev) of Some f \<Rightarrow> ce_CompactionID f | None \<Rightarrow> []) else None)"

lemma removeLast_distinct: "distinct xs \<Longrightarrow> removeLast i xs = filter ((\<noteq>) i) xs"
  by (induction xs) (auto intro: filter_True [symmetric])

lemma orphanStep_ids:
  assumes "end_id ev \<noteq> Some []" and "distinct xs"
  shows "orphanStep xs ev = filter (\<lambda>x. end_id ev \<noteq> Some x) xs @ (case start_id ev of None \<Rightarrow> [] | Some i \<Rightarrow> [i])"
  using assms
  by (auto simp: orphanStep_def start_id_def end_id_def removeLast_distinct Let_def
      intro!: filter_True [symmetric])

lemma orphan_snoc:
  "(\<exists>a c b. es @ [ev] = a @ c # b \<and> start_id c = Some i \<and> (\<forall>e \<in> set b. end_id e \<noteq> Some i)) \<longleftrightarrow>
     start_id ev = Some i \<or> (end_id ev \<noteq> Some i
       \<and> (\<exists>a c b. es = a @ c # b \<and> start_id c = Some i \<and> (\<forall>e \<in> set b. end_id e \<noteq> Some i)))"
  (is "?L \<longleftrightarrow> ?R")
proof
  assume ?L
  then obtain a c b where e: "es @ [ev] = a @ c # b" and c: "start_id c = Some i"
    and b: "\<forall>e \<in> set b. end_id e \<noteq> Some i" by blast
  show ?R
  proof (cases b rule: rev_cases)
    case Nil
    with e c show ?thesis by simp
  next
    case (snoc b' x)
    with e have "es = a @ c # b'" "x = ev" by simp_all
    with c b snoc show ?thesis by auto
  qed
next
  assume ?R
  then show ?L
  proof
    assume "start_id ev = Some i"
    then have "es @ [ev] = es @ ev # [] \<and> start_id ev = Some i \<and> (\<forall>e \<in> set []. end_id e \<noteq> Some i)" by simp
    then show ?L by blast
  next
    assume "end_id ev \<noteq> Some i
       \<and> (\<exists>a c b. es = a @ c # b \<and> start_id c = Some i \<and> (\<forall>e \<in> set b. end_id e \<noteq> Some i))"
    then obtain a c b where "es @ [ev] = a @ c # (b @ [ev])" "start_id c = Some i"
      "\<forall>e \<in> set (b @ [ev]). end_id e \<noteq> Some i" by auto
    then show ?L by blast
  qed
qed

lemma foldl_orphan:
  assumes "\<forall>ev \<in> set events. end_id ev \<noteq> Some []" and "distinct (List.map_filter start_id events)"
  shows "distinct (foldl orphanStep [] events) \<and>
    (\<forall>i. i \<in> set (foldl orphanStep [] events) \<longleftrightarrow>
      (\<exists>a c b. events = a @ c # b \<and> start_id c = Some i \<and> (\<forall>e \<in> set b. end_id e \<noteq> Some i)))"
  using assms
proof (induction events rule: rev_induct)
  case Nil
  then show ?case by simp
next
  case (snoc ev evs)
  let ?P = "\<lambda>es i. \<exists>a c b. es = a @ c # b \<and> start_id c = Some i \<and> (\<forall>e \<in> set b. end_id e \<noteq> Some i)"
  from snoc.prems have d: "distinct (List.map_filter start_id evs)"
    by (simp add: map_filter_def)
  from snoc.IH [OF _ d] snoc.prems(1)
  have ih: "distinct (foldl orphanStep [] evs)" "\<And>i. i \<in> set (foldl orphanStep [] evs) \<longleftrightarrow> ?P evs i"
    by auto
  have step: "foldl orphanStep [] (evs @ [ev]) = filter (\<lambda>x. end_id ev \<noteq> Some x) (foldl orphanStep [] evs)
      @ (case start_id ev of None \<Rightarrow> [] | Some i \<Rightarrow> [i])"
    using snoc.prems(1) ih(1) by (simp add: orphanStep_ids)
  have P: "?P (evs @ [ev]) i \<longleftrightarrow> start_id ev = Some i \<or> (end_id ev \<noteq> Some i \<and> ?P evs i)" for i
    by (rule orphan_snoc)
  have fresh: "i \<notin> set (foldl orphanStep [] evs)" if "start_id ev = Some i" for i
  proof
    assume "i \<in> set (foldl orphanStep [] evs)"
    then obtain c where "c \<in> set evs" "start_id c = Some i" unfolding ih(2)
      by (metis in_set_conv_decomp)
    then have "i \<in> set (List.map_filter start_id evs)"
      by (force simp: map_filter_def image_iff)
    with snoc.prems(2) that show False by (simp add: map_filter_def)
  qed
  show ?case
    using ih(1) fresh unfolding step P ih(2) [symmetric] by (auto split: option.splits)
qed

text \<open>
  When compactions carry correlation identifiers and no identifier is started twice,
  \<open>HasOrphanedCompaction\<close> reports true exactly when some compaction was started and no end with its
  identifier follows: a crash between start and end is always detected and a finished one never is.
\<close>

theorem orphan_exact:
  assumes "\<forall>ev \<in> set (Snapshot l). end_id ev \<noteq> Some []"
    and "distinct (List.map_filter start_id (Snapshot l))"
  shows "HasOrphanedCompaction (Some l) \<longleftrightarrow>
    (\<exists>i a c b. Snapshot l = a @ c # b \<and> start_id c = Some i \<and> (\<forall>e \<in> set b. end_id e \<noteq> Some i))"
proof -
  have "HasOrphanedCompaction (Some l) \<longleftrightarrow> (\<exists>i. i \<in> set (foldl orphanStep [] (Snapshot l)))"
    by (simp add: HasOrphanedCompaction_def ex_in_conv)
  then show ?thesis using foldl_orphan [OF assms] by simp
qed

theorem orphan_exact_witness:
  "\<exists>l. AppendCompactionStartFull
        \<lparr>cs_Strategy = ''auto'', cs_CompactionID = ''c1'', cs_SourceCommandID = [], cs_Turn = None\<rparr> 5
        (Some (New False)) = Inr (Some l)
     \<and> HasOrphanedCompaction (Some l)"
proof -
  let ?f = "\<lparr>cs_Strategy = ''auto'', cs_CompactionID = ''c1'', cs_SourceCommandID = [], cs_Turn = None\<rparr>"
  let ?ev = "\<lparr>ev_Type = CompactionStart, ev_Seq = 1, ev_At = 5, ev_Data = DCompactionStart ?f,
     ev_Ignorable = False, ev_SurfaceOp = None, ev_SourceEventSeqs = None\<rparr>"
  let ?l = "push ?ev (New False)"
  have s: "Snapshot ?l = [] @ ?ev # []" by (simp add: Snapshot_def New_def)
  have a: "AppendCompactionStartFull ?f 5 (Some (New False)) = Inr (Some ?l)"
    by (simp add: AppendCompactionStartFull_def with_log_def Append_eq Known_iff) (simp add: New_def)
  have "\<forall>ev \<in> set (Snapshot ?l). end_id ev \<noteq> Some []"
    and "distinct (List.map_filter start_id (Snapshot ?l))" and "start_id ?ev = Some ''c1''"
    by (simp_all add: s end_id_def start_id_def map_filter_def)
  with orphan_exact [of ?l] s have "HasOrphanedCompaction (Some ?l)" by fastforce
  with a show ?thesis by blast
qed

end
