(* ===== verification/Event_Projection.thy ===== *)
theory Event_Projection
  imports Event_Surface
begin

text \<open>
  The projections of \<open>projection.go\<close>: the message history the model is given, the session figures and
  the permission view, and the stop reason of \<open>acp_codec.go\<close>.

  A sort position is a \<open>float64\<close> that is an index or half-way between two indices; the model keeps twice
  its value, an integer. An item holds the event it projects, or none for the zero \<open>Event\<close>.
\<close>

section \<open>Messages\<close>

definition systemMessage :: "string \<Rightarrow> Message" where
  "systemMessage content = \<lparr>msg_Role = ''system'', msg_Content = content, msg_Thinking = [],
     msg_Images = [], msg_ContentParts = [], msg_ToolUse = [], msg_ToolResults = [],
     msg_Turn = 0, msg_Step = 0\<rparr>"

definition contentless :: "Message \<Rightarrow> bool" where
  "contentless m \<longleftrightarrow> msg_Content m = [] \<and> msg_Thinking m = [] \<and> msg_ToolUse m = []
     \<and> msg_Images m = [] \<and> msg_ContentParts m = []"

definition projectEligible :: "Event \<Rightarrow> Message option" where
  "projectEligible ev =
     (if ev_Type ev = UserMessage \<or> ev_Type ev = ToolResult then as_Message (ev_Data ev)
      else if ev_Type ev = AssistantMsg then
        (case as_Message (ev_Data ev) of
           Some m \<Rightarrow> if contentless m then None else Some m
         | None \<Rightarrow> None)
      else None)"

text \<open>\<open>out[:len(out)-drop]\<close> with the drop capped at the length.\<close>

definition dropMessages :: "int \<Rightarrow> Message list \<Rightarrow> Message list" where
  "dropMessages n out = take (length out - nat (min n (int (length out)))) out"

definition rawStep :: "Message list \<Rightarrow> Event \<Rightarrow> Message list" where
  "rawStep out ev = (case ev_Type ev of
     UserMessage \<Rightarrow> (case as_Message (ev_Data ev) of Some m \<Rightarrow> out @ [m] | None \<Rightarrow> out)
   | AssistantMsg \<Rightarrow> (case as_Message (ev_Data ev) of
       Some m \<Rightarrow> if contentless m then out else out @ [m] | None \<Rightarrow> out)
   | ToolResult \<Rightarrow> (case as_Message (ev_Data ev) of Some m \<Rightarrow> out @ [m] | None \<Rightarrow> out)
   | RequestHeader \<Rightarrow> (case as_RequestHeader (ev_Data ev) of
       Some f \<Rightarrow> if rh_System f \<noteq> [] then out @ [systemMessage (rh_System f)] else out | None \<Rightarrow> out)
   | ContextInjected \<Rightarrow> (case as_ContextInjected (ev_Data ev) of
       Some f \<Rightarrow> if ci_Content f \<noteq> [] then out @ [systemMessage (ci_Content f)] else out | None \<Rightarrow> out)
   | CompactionPrune \<Rightarrow> (case as_CompactionPrune (ev_Data ev) of
       Some f \<Rightarrow> if cpr_Messages f > 0 then dropMessages (cpr_Messages f) out else out | None \<Rightarrow> out)
   | CompactionSummary \<Rightarrow> (case as_CompactionSummary (ev_Data ev) of
       Some f \<Rightarrow> if csm_Summary f \<noteq> [] then out @ [systemMessage (csm_Summary f)] else out | None \<Rightarrow> out)
   | _ \<Rightarrow> out)"

definition projectMessagesRaw :: "Event list \<Rightarrow> Message list" where
  "projectMessagesRaw events = foldl rawStep [] events"

record item =
  it_p :: int
  it_seq :: u64
  it_order :: nat
  it_sys :: string
  it_drop :: int
  it_ev :: "Event option"

text \<open>The map from live sequence numbers to positions; a missing key reads as zero.\<close>

definition posOf :: "u64 list \<Rightarrow> u64 \<Rightarrow> int" where
  "posOf nodes seq = (case map_of (rev (zip nodes [0..<length nodes])) seq of
     Some i \<Rightarrow> 2 * int i | None \<Rightarrow> 0)"

definition sysPos :: "u64 list \<Rightarrow> u64 \<Rightarrow> int" where
  "sysPos nodes seq = 2 * int (length (filter (\<lambda>node. node < seq) nodes)) - 1"

definition sysItem :: "u64 list \<Rightarrow> nat \<Rightarrow> Event \<Rightarrow> string \<Rightarrow> item option" where
  "sysItem nodes i ev content =
     (if content \<noteq> [] then Some \<lparr>it_p = sysPos nodes (ev_Seq ev), it_seq = ev_Seq ev, it_order = i,
        it_sys = content, it_drop = 0, it_ev = None\<rparr> else None)"

definition itemOf :: "u64 list \<Rightarrow> nat \<times> Event \<Rightarrow> item option" where
  "itemOf nodes ie = (case ie of (i, ev) \<Rightarrow>
     if IsSurfaceEligible (ev_Type ev) then
       (if ev_Seq ev \<in> set nodes
        then Some \<lparr>it_p = posOf nodes (ev_Seq ev), it_seq = ev_Seq ev, it_order = i, it_sys = [],
                   it_drop = 0, it_ev = Some ev\<rparr>
        else None)
     else (case ev_Type ev of
       RequestHeader \<Rightarrow> (case as_RequestHeader (ev_Data ev) of
         Some f \<Rightarrow> sysItem nodes i ev (rh_System f) | None \<Rightarrow> None)
     | ContextInjected \<Rightarrow> (case as_ContextInjected (ev_Data ev) of
         Some f \<Rightarrow> sysItem nodes i ev (ci_Content f) | None \<Rightarrow> None)
     | CompactionPrune \<Rightarrow> (case as_CompactionPrune (ev_Data ev) of
         Some f \<Rightarrow> if cpr_Messages f > 0
           then Some \<lparr>it_p = sysPos nodes (ev_Seq ev), it_seq = ev_Seq ev, it_order = i, it_sys = [],
                      it_drop = cpr_Messages f, it_ev = None\<rparr> else None
       | None \<Rightarrow> None)
     | CompactionSummary \<Rightarrow> (case as_CompactionSummary (ev_Data ev) of
         Some f \<Rightarrow> sysItem nodes i ev (csm_Summary f) | None \<Rightarrow> None)
     | _ \<Rightarrow> None))"

definition item_less :: "item \<Rightarrow> item \<Rightarrow> bool" where
  "item_less a b = (if it_p a \<noteq> it_p b then it_p a < it_p b else it_order a < it_order b)"

definition emitStep :: "Message list \<Rightarrow> item \<Rightarrow> Message list" where
  "emitStep out it =
     (case it_ev it of
        Some ev \<Rightarrow> (case projectEligible ev of Some m \<Rightarrow> out @ [m] | None \<Rightarrow> out)
      | None \<Rightarrow>
          if it_sys it \<noteq> [] then out @ [systemMessage (it_sys it)]
          else if it_drop it > 0 then dropMessages (it_drop it) out
          else out)"

definition itemsOf :: "u64 list \<Rightarrow> Event list \<Rightarrow> item list" where
  "itemsOf nodes events = List.map_filter (itemOf nodes) (enumerate 0 events)"

definition ProjectMessages :: "Event list \<Rightarrow> Message list" where
  "ProjectMessages events = (case FoldSurface events of
     Inl _ \<Rightarrow> projectMessagesRaw events
   | Inr folded \<Rightarrow>
       foldl emitStep [] (SliceStable item_less (itemsOf (res_Nodes folded) events)))"

section \<open>Session figures\<close>

record SessionStatsProjection =
  ss_Turns :: int
  ss_Steps :: int
  ss_LLMMs :: int
  ss_ToolMs :: int
  ss_TTFPMs :: int
  ss_TTFPSteps :: int
  ss_DecodeMs :: int
  ss_DecodeTokens :: int

record statsState =
  sx_stats :: SessionStatsProjection
  sx_stepStart :: gotime
  sx_turnActive :: bool
  sx_pendingStepStart :: bool

definition initStats :: statsState where
  "initStats = \<lparr>sx_stats = \<lparr>ss_Turns = 0, ss_Steps = 0, ss_LLMMs = 0, ss_ToolMs = 0, ss_TTFPMs = 0,
     ss_TTFPSteps = 0, ss_DecodeMs = 0, ss_DecodeTokens = 0\<rparr>,
     sx_stepStart = 0, sx_turnActive = False, sx_pendingStepStart = False\<rparr>"

text \<open>\<open>d := at.Sub(stepStart); if d > 0 { total += d.Milliseconds() }\<close>.\<close>

definition addSpan :: "gotime \<Rightarrow> gotime \<Rightarrow> int \<Rightarrow> int" where
  "addSpan at start acc =
     (let d = time_Sub at start in if d > 0 then acc + Milliseconds d else acc)"

definition statsStepEnd :: "statsState \<Rightarrow> statsState" where
  "statsStepEnd x =
     (let y = (if \<not> IsZero (sx_stepStart x) then
          let st = (sx_stats x)\<lparr>ss_Steps := ss_Steps (sx_stats x) + 1\<rparr>;
              x' = (if sx_turnActive x
                    then x\<lparr>sx_stats := st\<lparr>ss_Turns := ss_Turns st + 1\<rparr>, sx_turnActive := False\<rparr>
                    else x\<lparr>sx_stats := st\<rparr>) in
          x'\<lparr>sx_stepStart := 0\<rparr>
        else x) in
      y\<lparr>sx_pendingStepStart := False\<rparr>)"

definition statsAssistantMsg :: "Event \<Rightarrow> statsState \<Rightarrow> statsState" where
  "statsAssistantMsg ev x =
     (let s = sx_stepStart x;
          st1 = (if sx_pendingStepStart x \<and> \<not> IsZero s
                 then (sx_stats x)\<lparr>ss_DecodeMs := addSpan (ev_At ev) s (ss_DecodeMs (sx_stats x))\<rparr>
                 else sx_stats x);
          st2 = (if \<not> IsZero s then st1\<lparr>ss_LLMMs := addSpan (ev_At ev) s (ss_LLMMs st1)\<rparr> else st1) in
      x\<lparr>sx_stats := st2, sx_pendingStepStart := False\<rparr>)"

definition statsToolResult :: "Event \<Rightarrow> statsState \<Rightarrow> statsState" where
  "statsToolResult ev x =
     (if \<not> IsZero (sx_stepStart x) \<and> ev_At ev > sx_stepStart x
      then x\<lparr>sx_stats := (sx_stats x)\<lparr>ss_ToolMs :=
             addSpan (ev_At ev) (sx_stepStart x) (ss_ToolMs (sx_stats x))\<rparr>\<rparr>
      else x)"

definition statsChunk :: "Event \<Rightarrow> statsState \<Rightarrow> statsState" where
  "statsChunk ev x =
     (if sx_pendingStepStart x then
        (case as_Chunk (ev_Data ev) of
           Some c \<Rightarrow>
             if ck_Chunk c \<noteq> [] then
               (let y = (if \<not> IsZero (sx_stepStart x)
                         then x\<lparr>sx_stats := (sx_stats x)\<lparr>ss_TTFPMs :=
                                  addSpan (ev_At ev) (sx_stepStart x) (ss_TTFPMs (sx_stats x)),
                                ss_TTFPSteps := ss_TTFPSteps (sx_stats x) + 1\<rparr>\<rparr>
                         else x) in
                y\<lparr>sx_pendingStepStart := False\<rparr>)
             else x
         | None \<Rightarrow> x)
      else x)"

definition statsStep :: "statsState \<Rightarrow> Event \<Rightarrow> statsState" where
  "statsStep x ev = (case ev_Type ev of
     TurnStart \<Rightarrow> x\<lparr>sx_turnActive := True\<rparr>
   | TurnEnd \<Rightarrow> x\<lparr>sx_turnActive := False\<rparr>
   | StepStart \<Rightarrow> x\<lparr>sx_stepStart := ev_At ev, sx_pendingStepStart := True\<rparr>
   | StepEnd \<Rightarrow> statsStepEnd x
   | AssistantMsg \<Rightarrow> statsAssistantMsg ev x
   | ToolResult \<Rightarrow> statsToolResult ev x
   | AssistantChunk \<Rightarrow> statsChunk ev x
   | _ \<Rightarrow> x)"

definition ProjectSessionStats :: "Event list \<Rightarrow> SessionStatsProjection" where
  "ProjectSessionStats events = sx_stats (foldl statsStep initStats events)"

section \<open>Permission view\<close>

record PresetOption =
  po_Value :: string
  po_Name :: string
  po_Description :: string

record PermissionSelect =
  ps_Options :: "PresetOption list"
  ps_CurrentValue :: string

definition permStep :: "string \<times> string \<Rightarrow> Event \<Rightarrow> string \<times> string" where
  "permStep acc ev = (case acc of (cur, policy) \<Rightarrow>
     if ev_Type ev = PermissionPreset then
       (case as_PermissionPreset (ev_Data ev) of
          Some f \<Rightarrow> if pp_PresetName f \<noteq> [] then (pp_PresetName f, policy) else acc | None \<Rightarrow> acc)
     else if ev_Type ev = SandboxMode then
       (case as_SandboxMode (ev_Data ev) of
          Some f \<Rightarrow> if sm_Mode f \<noteq> [] then (sm_Mode f, policy) else acc | None \<Rightarrow> acc)
     else if ev_Type ev = ApprovalPolicy then
       (case as_ApprovalPolicy (ev_Data ev) of
          Some f \<Rightarrow> if ap_Policy f \<noteq> [] then (cur, ap_Policy f) else acc | None \<Rightarrow> acc)
     else acc)"

definition ProjectPermissions :: "Event list \<Rightarrow> PermissionSelect" where
  "ProjectPermissions events =
     (let (cur, policy) = foldl permStep ([], ''ask'') events in
      \<lparr>ps_Options = [], ps_CurrentValue = (if cur = [] then policy else cur)\<rparr>)"

definition TurnEndToStopReason :: "string \<Rightarrow> string" where
  "TurnEndToStopReason reason =
     (if reason = ''completed'' then ''end_turn''
      else if reason = ''max-tokens'' then ''max_tokens''
      else if reason = ''interrupted'' then ''cancelled''
      else if reason = ''aborted'' then ''end_turn''
      else if reason = ''blocked'' then ''end_turn''
      else if reason = ''error'' then ''end_turn''
      else ''end_turn'')"

section \<open>Positions\<close>

lemma sorted_wrt_map_filter:
  assumes "sorted_wrt R xs"
    and "\<And>x y a b. x \<in> set xs \<Longrightarrow> y \<in> set xs \<Longrightarrow> R x y \<Longrightarrow> f x = Some a \<Longrightarrow> f y = Some b \<Longrightarrow> S a b"
  shows "sorted_wrt S (List.map_filter f xs)"
  using assms
proof (induction xs)
  case (Cons x xs)
  have "sorted_wrt S (List.map_filter f xs)"
    by (rule Cons.IH) (use Cons.prems in \<open>auto intro: Cons.prems(2)\<close>)
  moreover have "\<forall>b \<in> set (List.map_filter f xs). S a b" if "f x = Some a" for a
    using Cons.prems that by (force simp: map_filter_def)
  ultimately show ?case by (auto simp: List.map_filter_simps split: option.split)
qed (simp add: List.map_filter_simps)

lemma posOf_nth:
  assumes "distinct nodes" and "i < length nodes"
  shows "posOf nodes (nodes ! i) = 2 * int i"
proof -
  have "distinct (map fst (rev (zip nodes [0..<length nodes])))"
    using assms(1) by (simp add: rev_map [symmetric])
  moreover have "(nodes ! i, i) \<in> set (rev (zip nodes [0..<length nodes]))"
    using assms(2) by (auto simp: set_zip)
  ultimately have "map_of (rev (zip nodes [0..<length nodes])) (nodes ! i) = Some i"
    by (rule map_of_is_SomeI)
  then show ?thesis by (simp add: posOf_def)
qed

definition below :: "u64 list \<Rightarrow> u64 \<Rightarrow> nat" where
  "below nodes q = length (filter (\<lambda>n. n < q) nodes)"

lemma below_card: "distinct nodes \<Longrightarrow> below nodes q = card {n \<in> set nodes. n < q}"
  by (metis below_def distinct_card distinct_filter set_filter)

lemma below_mono: "distinct nodes \<Longrightarrow> q \<le> q' \<Longrightarrow> below nodes q \<le> below nodes q'"
  by (auto simp: below_card intro!: card_mono)

lemma below_strict: "distinct nodes \<Longrightarrow> q \<in> set nodes \<Longrightarrow> q < q' \<Longrightarrow> below nodes q < below nodes q'"
  by (auto simp: below_card intro!: psubset_card_mono)

lemma below_nth:
  assumes "sorted_wrt (<) nodes" and "i < length nodes"
  shows "below nodes (nodes ! i) = i"
proof -
  have "filter (\<lambda>n. n < nodes ! i) nodes = take i nodes"
  proof -
    have "filter (\<lambda>n. n < nodes ! i) (take i nodes) = take i nodes"
      using assms sorted_wrt_nth_less [OF assms(1), of _ i] by (auto simp: filter_id_conv in_set_conv_nth)
    moreover have "filter (\<lambda>n. n < nodes ! i) (drop i nodes) = []"
      using assms(2) sorted_nth_mono [OF strict_sorted_imp_sorted [OF assms(1)], of i]
      by (auto simp: filter_empty_conv in_set_conv_nth not_less)
    ultimately show ?thesis by (metis append_Nil2 append_take_drop_id filter_append)
  qed
  then show ?thesis using assms(2) by (simp add: below_def)
qed

lemma posOf_sorted: "sorted_wrt (<) nodes \<Longrightarrow> q \<in> set nodes \<Longrightarrow> posOf nodes q = 2 * int (below nodes q)"
  using posOf_nth [of nodes] below_nth [of nodes] strict_sorted_iff [of nodes] by (auto simp: in_set_conv_nth)

lemma item_less_order:
  "item_less a b \<Longrightarrow> \<not> item_less b a"
  "\<not> item_less b a \<Longrightarrow> \<not> item_less c b \<Longrightarrow> \<not> item_less c a"
  by (auto simp: item_less_def split: if_splits)

text \<open>Where an item is put, by whether it is a surface node.\<close>

lemma itemOf_fields:
  assumes "itemOf nodes (i, ev) = Some it"
  shows "it_order it = i" and "it_seq it = ev_Seq ev"
    and "IsSurfaceEligible (ev_Type ev) \<Longrightarrow> it_ev it = Some ev \<and> ev_Seq ev \<in> set nodes
           \<and> it_p it = posOf nodes (ev_Seq ev)"
    and "\<not> IsSurfaceEligible (ev_Type ev) \<Longrightarrow> it_ev it = None \<and> it_p it = 2 * int (below nodes (ev_Seq ev)) - 1"
  using assms
  by (cases "ev_Type ev";
      auto simp: itemOf_def sysItem_def sysPos_def below_def IsSurfaceEligible_iff
        split: option.splits if_splits)+

abbreviation seq_sorted :: "Event list \<Rightarrow> bool" where
  "seq_sorted events \<equiv> sorted_wrt (\<lambda>a b. ev_Seq a < ev_Seq b) events"

lemma sorted_enumerate:
  "seq_sorted events \<Longrightarrow>
     sorted_wrt (\<lambda>x y. fst x < fst y \<and> ev_Seq (snd x) < ev_Seq (snd y)) (enumerate n events)"
  by (auto simp: sorted_wrt_iff_nth_less nth_enumerate_eq)

lemma items_sorted:
  assumes nd: "sorted_wrt (<) nodes" and ev: "seq_sorted events"
  shows "sorted_wrt (\<lambda>a b. \<not> item_less b a) (itemsOf nodes events)"
  unfolding itemsOf_def
proof (rule sorted_wrt_map_filter [OF sorted_enumerate [OF ev]])
  fix x y a b
  assume xy: "fst x < fst y \<and> ev_Seq (snd x) < ev_Seq (snd y)"
    and ia: "itemOf nodes x = Some a" and ib: "itemOf nodes y = Some b"
  have d: "distinct nodes" using nd by (simp add: strict_sorted_iff)
  from xy have m: "below nodes (ev_Seq (snd x)) \<le> below nodes (ev_Seq (snd y))"
    by (intro below_mono [OF d]) (simp add: less_imp_le)
  have s: "below nodes (ev_Seq (snd x)) < below nodes (ev_Seq (snd y))" if "ev_Seq (snd x) \<in> set nodes"
    using xy that by (intro below_strict [OF d]) simp_all
  note fa = itemOf_fields [of nodes "fst x" "snd x" a, unfolded prod.collapse, OF ia]
    and fb = itemOf_fields [of nodes "fst y" "snd y" b, unfolded prod.collapse, OF ib]
  have "it_p a \<le> it_p b"
    using fa(3,4) fb(3,4) m s posOf_sorted [OF nd]
    by (cases "IsSurfaceEligible (ev_Type (snd x))"; cases "IsSurfaceEligible (ev_Type (snd y))") auto
  then show "\<not> item_less b a" using fa(1) fb(1) xy by (auto simp: item_less_def)
qed

lemma emit_raw:
  assumes "IsSurfaceEligible (ev_Type ev) \<Longrightarrow> ev_Seq ev \<in> set nodes"
  shows "(case itemOf nodes (i, ev) of None \<Rightarrow> out | Some it \<Rightarrow> emitStep out it) = rawStep out ev"
  using assms
  by (cases "ev_Type ev")
    (auto simp: itemOf_def rawStep_def emitStep_def sysItem_def projectEligible_def
      IsSurfaceEligible_iff split: option.splits)

lemma foldl_emit_raw:
  assumes "\<And>ev. ev \<in> set events \<Longrightarrow> IsSurfaceEligible (ev_Type ev) \<Longrightarrow> ev_Seq ev \<in> set nodes"
  shows "foldl emitStep out (List.map_filter (itemOf nodes) (enumerate n events)) = foldl rawStep out events"
  using assms
proof (induction events arbitrary: n out)
  case (Cons ev events)
  have "foldl emitStep out (List.map_filter (itemOf nodes) (enumerate n (ev # events)))
      = foldl emitStep (case itemOf nodes (n, ev) of None \<Rightarrow> out | Some it \<Rightarrow> emitStep out it)
          (List.map_filter (itemOf nodes) (enumerate (Suc n) events))"
    by (simp add: List.map_filter_simps split: option.split)
  with Cons show ?case by (simp add: emit_raw)
qed (simp add: List.map_filter_simps)

section \<open>Properties of the message projection\<close>

lemma FoldSurface_append_only:
  assumes "FoldSurface events = Inr r" and "\<forall>ev \<in> set events. \<not> is_replace ev"
  shows "res_Nodes r = eligible_seqs events"
proof -
  from assms(1) obtain i st where run: "run (fold_step events (baseSeqOf events)) (0, initFold, []) events
      = Inr (i, st, res_Replacements r)" and n: "res_Nodes r = fs_nodes st"
    by (auto simp: FoldSurface_Inr)
  have inv: "fold_inv (baseSeqOf events) events (i, st, res_Replacements r)"
    using surface_scan.run_inv [OF fold_inv_init run] by simp
  have "replace_seqs events = []" using assms(2) by (simp add: replace_seqs_def filter_empty_conv)
  with inv have "res_Replacements r = []" by (simp add: fold_inv_def)
  with inv n show ?thesis by (simp add: fold_inv_def)
qed

lemma eligible_seqs_sorted: "seq_sorted events \<Longrightarrow> sorted_wrt (<) (eligible_seqs events)"
  by (simp add: eligible_seqs_def sorted_wrt_map sorted_wrt_filter)

text \<open>
  On a log without surface rewrites the surface-driven projection, with its fold, its fractional
  positions and its sort, gives exactly the history that one pass in log order gives.
\<close>

theorem projection_append_only:
  assumes "\<forall>ev \<in> set events. \<not> is_replace ev"
    and "sorted_wrt (\<lambda>a b. ev_Seq a < ev_Seq b) events"
  shows "ProjectMessages events = projectMessagesRaw events"
proof (cases "FoldSurface events")
  case (Inl e)
  then show ?thesis by (simp add: ProjectMessages_def)
next
  case (Inr r)
  have n: "res_Nodes r = eligible_seqs events" by (rule FoldSurface_append_only [OF Inr assms(1)])
  have "SliceStable item_less (itemsOf (res_Nodes r) events) = itemsOf (res_Nodes r) events"
    unfolding n by (intro SliceStable_id items_sorted eligible_seqs_sorted assms(2))
  moreover have "foldl emitStep [] (itemsOf (res_Nodes r) events) = projectMessagesRaw events"
    unfolding itemsOf_def projectMessagesRaw_def n
    by (rule foldl_emit_raw) (auto simp: eligible_seqs_def)
  ultimately show ?thesis using Inr by (simp add: ProjectMessages_def)
qed

theorem projection_append_only_witness:
  "ProjectMessages [\<lparr>ev_Type = ContextInjected, ev_Seq = 1, ev_At = 0,
      ev_Data = DContextInjected \<lparr>ci_Content = ''hi''\<rparr>, ev_Ignorable = False, ev_SurfaceOp = None,
      ev_SourceEventSeqs = None\<rparr>] = [systemMessage ''hi'']"
proof -
  let ?es = "[\<lparr>ev_Type = ContextInjected, ev_Seq = 1, ev_At = 0,
      ev_Data = DContextInjected \<lparr>ci_Content = ''hi''\<rparr>, ev_Ignorable = False, ev_SurfaceOp = None,
      ev_SourceEventSeqs = None\<rparr>]"
  have "ProjectMessages ?es = projectMessagesRaw ?es" by (rule projection_append_only) simp_all
  then show ?thesis by (simp add: projectMessagesRaw_def rawStep_def)
qed

text \<open>The surface items, in sorted order, are the fold's nodes.\<close>

lemma fold_nodes_facts:
  assumes "FoldSurface events = Inr r" and "seq_sorted events"
  shows "distinct (res_Nodes r)" and "set (res_Nodes r) \<subseteq> set (eligible_seqs events)"
proof -
  from assms(1) obtain i st where run: "run (fold_step events (baseSeqOf events)) (0, initFold, []) events
      = Inr (i, st, res_Replacements r)" and n: "res_Nodes r = fs_nodes st"
    by (auto simp: FoldSurface_Inr)
  have "fold_inv (baseSeqOf events) events (i, st, res_Replacements r)"
    using surface_scan.run_inv [OF fold_inv_init run] by simp
  then have eq: "mset (res_Nodes r) + mset (concat (map sfr_ShadowedSeqs (res_Replacements r)))
      = mset (eligible_seqs events)" by (simp add: fold_inv_def n)
  have sub: "mset (res_Nodes r) \<subseteq># mset (eligible_seqs events)" unfolding eq [symmetric] by simp
  have "distinct (eligible_seqs events)"
    using eligible_seqs_sorted [OF assms(2)] by (simp add: strict_sorted_iff)
  moreover have "mset (eligible_seqs events)
      = mset (res_Nodes r @ concat (map sfr_ShadowedSeqs (res_Replacements r)))" using eq by simp
  ultimately show "distinct (res_Nodes r)" using mset_eq_imp_distinct_iff distinct_append by blast
  from set_mset_mono [OF sub] show "set (res_Nodes r) \<subseteq> set (eligible_seqs events)" by simp
qed

definition node_item :: "u64 list \<Rightarrow> nat \<times> Event \<Rightarrow> bool" where
  "node_item nodes x \<longleftrightarrow> IsSurfaceEligible (ev_Type (snd x)) \<and> ev_Seq (snd x) \<in> set nodes"

lemma node_items:
  "filter (\<lambda>it. it_ev it \<noteq> None) (itemsOf nodes events)
     = map (\<lambda>(i, ev). \<lparr>it_p = posOf nodes (ev_Seq ev), it_seq = ev_Seq ev, it_order = i, it_sys = [],
         it_drop = 0, it_ev = Some ev\<rparr>) (filter (node_item nodes) (enumerate 0 events))"
proof -
  have "filter (\<lambda>it. it_ev it \<noteq> None) (List.map_filter (itemOf nodes) xs)
     = map (\<lambda>(i, ev). \<lparr>it_p = posOf nodes (ev_Seq ev), it_seq = ev_Seq ev, it_order = i, it_sys = [],
         it_drop = 0, it_ev = Some ev\<rparr>) (filter (node_item nodes) xs)" for xs
  proof (induction xs)
    case (Cons x xs)
    obtain i ev where x: "x = (i, ev)" by (cases x)
    have "itemOf nodes (i, ev) = Some \<lparr>it_p = posOf nodes (ev_Seq ev), it_seq = ev_Seq ev, it_order = i,
        it_sys = [], it_drop = 0, it_ev = Some ev\<rparr>" if "node_item nodes (i, ev)"
      using that by (simp add: itemOf_def node_item_def)
    moreover have "it_ev it = None" if "\<not> node_item nodes (i, ev)" "itemOf nodes (i, ev) = Some it" for it
      using that itemOf_fields(3,4) [OF that(2)] by (auto simp: node_item_def)
    ultimately show ?case using Cons x by (auto simp: List.map_filter_simps split: option.split)
  qed (simp add: List.map_filter_simps)
  then show ?thesis by (simp add: itemsOf_def)
qed

lemma sorted_map_unique:
  fixes f :: "'a \<Rightarrow> int"
  assumes "sorted (map f xs)" "sorted (map f ys)" "distinct xs" "distinct ys" "set xs = set ys" "inj_on f (set ys)"
  shows "xs = ys"
proof -
  have "distinct (map f xs)" "distinct (map f ys)" using assms by (simp_all add: distinct_map)
  then have "map f xs = map f ys" using assms by (intro sorted_distinct_set_unique) auto
  with assms show ?thesis by (metis map_inj_on inj_on_Un sup.idem)
qed

lemma sorted_node_seqs:
  assumes "FoldSurface events = Inr r" and "seq_sorted events"
  shows "map it_seq (filter (\<lambda>it. it_ev it \<noteq> None)
           (SliceStable item_less (itemsOf (res_Nodes r) events))) = res_Nodes r"
    (is "map it_seq ?L = ?ns")
proof -
  let ?I = "filter (\<lambda>it. it_ev it \<noteq> None) (itemsOf ?ns events)"
  have ms: "mset ?L = mset ?I" by simp
  have seqI: "map it_seq ?I = map ev_Seq (filter (\<lambda>ev. IsSurfaceEligible (ev_Type ev) \<and> ev_Seq ev \<in> set ?ns) events)"
  proof -
    have "map (ev_Seq \<circ> snd) (filter (node_item ?ns) (enumerate n events))
         = map ev_Seq (filter (\<lambda>ev. IsSurfaceEligible (ev_Type ev) \<and> ev_Seq ev \<in> set ?ns) events)" for n
      by (induction events arbitrary: n) (auto simp: node_item_def)
    then show ?thesis unfolding node_items by (simp add: comp_def case_prod_beta)
  qed
  have "mset (map it_seq ?L) = mset (map it_seq ?I)" using ms by (metis mset_map)
  then have eq: "set (map it_seq ?L) = set (map it_seq ?I)" "distinct (map it_seq ?L) = distinct (map it_seq ?I)"
    by (metis set_mset_mset, metis mset_eq_imp_distinct_iff)
  have "distinct (map ev_Seq events)"
    using assms(2) strict_sorted_iff [of "map ev_Seq events"] by (simp add: sorted_wrt_map)
  then have "distinct (map it_seq ?I)" unfolding seqI by (rule distinct_map_filter)
  with eq have dL: "distinct (map it_seq ?L)" by blast
  have sL: "set (map it_seq ?L) = set ?ns"
    unfolding eq seqI using fold_nodes_facts(2) [OF assms] by (auto simp: eligible_seqs_def)
  have p: "it_p it = posOf ?ns (it_seq it)" if "it \<in> set ?L" for it
  proof -
    from that have "it \<in> set ?I" by simp
    then show ?thesis unfolding node_items by auto
  qed
  have "sorted_wrt (\<lambda>a b. \<not> item_less b a) ?L"
    by (intro sorted_wrt_filter sorted_SliceStable) (rule item_less_order, assumption+)+
  then have "sorted (map it_p ?L)"
    by (auto simp: sorted_wrt_map item_less_def elim!: sorted_wrt_mono_rel [rotated] split: if_splits)
  moreover have "map it_p ?L = map (posOf ?ns) (map it_seq ?L)" using p by simp
  ultimately have "sorted (map (posOf ?ns) (map it_seq ?L))" by metis
  moreover have pn: "map (posOf ?ns) ?ns = map (\<lambda>i. 2 * int i) [0..<length ?ns]"
    by (rule nth_equalityI) (simp_all add: posOf_nth fold_nodes_facts(1) [OF assms])
  moreover have "sorted (map (\<lambda>i. 2 * int i) [0..<length ?ns])" by (auto simp: sorted_iff_nth_mono)
  moreover have "inj_on (posOf ?ns) (set ?ns)"
    using posOf_nth [OF fold_nodes_facts(1) [OF assms]] by (auto simp: inj_on_def in_set_conv_nth)
  ultimately show ?thesis
    using dL sL fold_nodes_facts(1) [OF assms] by (intro sorted_map_unique [of "posOf ?ns"]) auto
qed

text \<open>The event with a given sequence number.\<close>

definition event_at :: "Event list \<Rightarrow> u64 \<Rightarrow> Event option" where
  "event_at events q = find (\<lambda>e. ev_Seq e = q) events"

lemma event_at_eq:
  "seq_sorted events \<Longrightarrow> ev \<in> set events \<Longrightarrow> event_at events (ev_Seq ev) = Some ev"
  by (induction events) (auto simp: event_at_def)

definition injects :: "Event \<Rightarrow> bool" where
  "injects ev \<longleftrightarrow> ev_Type ev \<in> {RequestHeader, ContextInjected, CompactionPrune, CompactionSummary}"

lemma itemOf_no_inject: "\<not> injects ev \<Longrightarrow> itemOf nodes (i, ev) = Some it \<Longrightarrow> it_ev it = Some ev \<and> it_seq it = ev_Seq ev"
  by (cases "ev_Type ev") (auto simp: itemOf_def injects_def IsSurfaceEligible_iff split: if_splits)

lemma foldl_emit_nodes:
  assumes "\<forall>it \<in> set its. \<exists>ev. it_ev it = Some ev \<and> event_at events (it_seq it) = Some ev"
  shows "foldl emitStep out its
    = out @ List.map_filter (\<lambda>q. Option.bind (event_at events q) projectEligible) (map it_seq its)"
  using assms
  by (induction its arbitrary: out) (auto simp: emitStep_def List.map_filter_simps split: option.split)

text \<open>
  Surface rewrites are honoured: where no system text is injected, the projected history is the
  projection of the surface fold's nodes, in the fold's order. A replaced message never reaches the
  model, and its replacement stands at the replaced position.
\<close>

theorem projection_follows_surface:
  assumes "FoldSurface events = Inr r" and "sorted_wrt (\<lambda>a b. ev_Seq a < ev_Seq b) events"
    and "\<forall>ev \<in> set events. \<not> injects ev"
  shows "ProjectMessages events
    = List.map_filter (\<lambda>q. Option.bind (event_at events q) projectEligible) (res_Nodes r)"
proof -
  let ?L = "SliceStable item_less (itemsOf (res_Nodes r) events)"
  have it: "\<exists>ev. it_ev x = Some ev \<and> event_at events (it_seq x) = Some ev" if "x \<in> set ?L" for x
  proof -
    from that obtain i ev where "(i, ev) \<in> set (enumerate 0 events)" "itemOf (res_Nodes r) (i, ev) = Some x"
      by (auto simp: itemsOf_def map_filter_def)
    moreover from this have "ev \<in> set events" by (auto simp: in_set_enumerate_eq)
    ultimately show ?thesis using assms(3) itemOf_no_inject [of ev] event_at_eq [OF assms(2)] by metis
  qed
  then have "filter (\<lambda>it. it_ev it \<noteq> None) ?L = ?L" by (intro filter_True) blast
  with sorted_node_seqs [OF assms(1,2)] have "map it_seq ?L = res_Nodes r" by simp
  with foldl_emit_nodes [of ?L events "[]"] it assms(1) show ?thesis by (simp add: ProjectMessages_def)
qed

theorem projection_follows_surface_witness:
  "ProjectMessages
     [\<lparr>ev_Type = UserMessage, ev_Seq = 1, ev_At = 0, ev_Data = DMessage (systemMessage ''old''),
       ev_Ignorable = False, ev_SurfaceOp = None, ev_SourceEventSeqs = None\<rparr>,
      \<lparr>ev_Type = UserMessage, ev_Seq = 2, ev_At = 0, ev_Data = DMessage (systemMessage ''new''),
       ev_Ignorable = False, ev_SurfaceOp = Some \<lparr>so_Op = ''replace'', so_Start = 1, so_End = 1\<rparr>,
       ev_SourceEventSeqs = Some [1]\<rparr>] = [systemMessage ''new'']"
proof -
  let ?es = "[\<lparr>ev_Type = UserMessage, ev_Seq = 1, ev_At = 0, ev_Data = DMessage (systemMessage ''old''),
       ev_Ignorable = False, ev_SurfaceOp = None, ev_SourceEventSeqs = None\<rparr>,
      \<lparr>ev_Type = UserMessage, ev_Seq = 2, ev_At = 0, ev_Data = DMessage (systemMessage ''new''),
       ev_Ignorable = False, ev_SurfaceOp = Some \<lparr>so_Op = ''replace'', so_Start = 1, so_End = 1\<rparr>,
       ev_SourceEventSeqs = Some [1]\<rparr>]"
  have f: "FoldSurface ?es = Inr \<lparr>res_Nodes = [2], res_Replacements =
      [\<lparr>sfr_Seq = 2, sfr_Start = 1, sfr_End = 1, sfr_ShadowedSeqs = [1]\<rparr>]\<rparr>"
    by code_simp
  have "sorted_wrt (\<lambda>a b. ev_Seq a < ev_Seq b) ?es" by (simp add: word_less_def)
  from projection_follows_surface [OF f this] show ?thesis
    by (simp add: injects_def event_at_def List.map_filter_simps projectEligible_def)
qed

section \<open>Properties of the figures and the permission view\<close>

text \<open>The figures never go down, and a turn is counted only with a step.\<close>

definition stats_ok :: "statsState \<Rightarrow> bool" where
  "stats_ok x \<longleftrightarrow> (let s = sx_stats x in
     0 \<le> ss_Turns s \<and> ss_Turns s \<le> ss_Steps s \<and> 0 \<le> ss_LLMMs s \<and> 0 \<le> ss_ToolMs s
     \<and> 0 \<le> ss_TTFPMs s \<and> 0 \<le> ss_TTFPSteps s \<and> 0 \<le> ss_DecodeMs s \<and> ss_DecodeTokens s = 0)"

lemma addSpan_ge: "acc \<le> addSpan at start acc"
  using Milliseconds_nonneg [of "time_Sub at start"] by (auto simp: addSpan_def Let_def)

lemma addSpan_nonneg: "0 \<le> acc \<Longrightarrow> 0 \<le> addSpan at start acc"
  using addSpan_ge [of acc at start] by simp

lemmas stats_defs = statsStep_def statsStepEnd_def statsAssistantMsg_def statsToolResult_def statsChunk_def

lemma statsStep_ok: "stats_ok x \<Longrightarrow> stats_ok (statsStep x ev)"
  by (cases "ev_Type ev") (auto simp: stats_defs stats_ok_def Let_def addSpan_nonneg split: option.split)

lemma stats_steps:
  "ss_Steps (sx_stats (foldl statsStep x events))
     \<le> ss_Steps (sx_stats x) + int (length (filter (\<lambda>e. ev_Type e = StepEnd) events))"
proof (induction events arbitrary: x)
  case (Cons ev events)
  have "ss_Steps (sx_stats (statsStep x ev)) \<le> ss_Steps (sx_stats x) + (if ev_Type ev = StepEnd then 1 else 0)"
    by (cases "ev_Type ev") (auto simp: stats_defs Let_def split: option.split)
  with Cons.IH [of "statsStep x ev"] show ?case by (auto split: if_splits)
qed simp

text \<open>
  Whatever the log and its timestamps, the session figures are non-negative, there are no more
  turns than closed steps and no more closed steps than step ends; the decode token count, which
  the struct announces, stays zero.
\<close>

theorem session_stats_bounds:
  "(let s = ProjectSessionStats events in
      0 \<le> ss_Turns s \<and> ss_Turns s \<le> ss_Steps s
      \<and> ss_Steps s \<le> int (length (filter (\<lambda>e. ev_Type e = StepEnd) events))
      \<and> 0 \<le> ss_LLMMs s \<and> 0 \<le> ss_ToolMs s \<and> 0 \<le> ss_TTFPMs s \<and> 0 \<le> ss_TTFPSteps s \<and> 0 \<le> ss_DecodeMs s
      \<and> ss_DecodeTokens s = 0)"
proof -
  have "stats_ok (foldl statsStep x events)" if "stats_ok x" for x
    using that by (induction events arbitrary: x) (simp_all add: statsStep_ok)
  then have "stats_ok (foldl statsStep initStats events)" by (simp add: stats_ok_def initStats_def)
  moreover have "ss_Steps (sx_stats initStats) = 0" by (simp add: initStats_def)
  ultimately show ?thesis using stats_steps [of initStats events]
    by (simp add: ProjectSessionStats_def stats_ok_def Let_def)
qed

definition perm_value :: "Event \<Rightarrow> string option" where
  "perm_value ev =
     (if ev_Type ev = PermissionPreset then
        Option.bind (as_PermissionPreset (ev_Data ev)) (\<lambda>f. if pp_PresetName f = [] then None else Some (pp_PresetName f))
      else if ev_Type ev = SandboxMode then
        Option.bind (as_SandboxMode (ev_Data ev)) (\<lambda>f. if sm_Mode f = [] then None else Some (sm_Mode f))
      else None)"

definition policy_value :: "Event \<Rightarrow> string option" where
  "policy_value ev =
     (if ev_Type ev = ApprovalPolicy then
        Option.bind (as_ApprovalPolicy (ev_Data ev)) (\<lambda>f. if ap_Policy f = [] then None else Some (ap_Policy f))
      else None)"

lemma permStep_values:
  "permStep (cur, policy) ev
     = (case perm_value ev of None \<Rightarrow> cur | Some v \<Rightarrow> v, case policy_value ev of None \<Rightarrow> policy | Some v \<Rightarrow> v)"
  by (auto simp: permStep_def perm_value_def policy_value_def split: option.split)

lemma foldl_permStep:
  "foldl permStep (cur, policy) events
     = (last (cur # List.map_filter perm_value events), last (policy # List.map_filter policy_value events))"
  by (induction events arbitrary: cur policy)
    (auto simp: permStep_values List.map_filter_simps split: option.split)

lemma perm_value_nonempty: "perm_value ev = Some v \<Longrightarrow> v \<noteq> []"
  by (auto simp: perm_value_def split: if_splits bind_splits)

text \<open>
  The permission view reports the last preset or sandbox mode that was recorded; only when there is
  none does it report the last approval policy, and \<open>ask\<close> when there is none either.
\<close>

theorem permission_view_last_wins:
  "ps_CurrentValue (ProjectPermissions events) =
     (let vs = List.map_filter perm_value events; ps = List.map_filter policy_value events in
      if vs \<noteq> [] then last vs else if ps \<noteq> [] then last ps else ''ask'')"
proof -
  have "last vs \<noteq> []" if "vs = List.map_filter perm_value events" "vs \<noteq> []" for vs
  proof -
    from that have "last vs \<in> set (List.map_filter perm_value events)" by simp
    then show ?thesis by (auto simp: map_filter_def dest: perm_value_nonempty)
  qed
  then show ?thesis by (simp add: ProjectPermissions_def foldl_permStep Let_def)
qed

text \<open>
  The decode and tool windows are not the announced ones: for a step that streamed a first chunk the
  decode time is zero, for a step that did not it is the whole model time, and the tool time of a
  call runs from the start of the step, whenever the call was made.
\<close>

theorem session_stats_windows:
  fixes ev :: "etype \<Rightarrow> gotime \<Rightarrow> payload \<Rightarrow> Event" and chunk :: payload
  defines "ev \<equiv> \<lambda>t at d. \<lparr>ev_Type = t, ev_Seq = 1, ev_At = at, ev_Data = d, ev_Ignorable = False,
      ev_SurfaceOp = None, ev_SourceEventSeqs = None\<rparr>"
    and "chunk \<equiv> DChunk \<lparr>ck_Turn = 1, ck_Step = 1, ck_Chunk = ''x'', ck_Kind = []\<rparr>"
  shows "ss_DecodeMs (ProjectSessionStats [ev StepStart t0 DNil, ev AssistantChunk t1 chunk, ev AssistantMsg t2 DNil]) = 0
    \<and> ss_DecodeMs (ProjectSessionStats [ev StepStart t0 DNil, ev AssistantMsg t2 DNil])
        = ss_LLMMs (ProjectSessionStats [ev StepStart t0 DNil, ev AssistantMsg t2 DNil])
    \<and> ss_ToolMs (ProjectSessionStats [ev StepStart t0 DNil, ev ToolCall t1 DNil, ev ToolResult t2 DNil])
        = ss_ToolMs (ProjectSessionStats [ev StepStart t0 DNil, ev ToolResult t2 DNil])"
  by (simp add: ev_def chunk_def ProjectSessionStats_def stats_defs initStats_def Let_def)

end
