(* ===== verification/Event_Codec.thy ===== *)
theory Event_Codec
  imports Event_Types
begin

text \<open>
  The JSON shape of every payload struct: for a struct \<open>T\<close> of \<open>event.go\<close>, \<open>boundary.go\<close> or
  \<open>lifecycle.go\<close>, \<open>members_T\<close> and \<open>enc_T\<close> are what \<open>json.Marshal\<close> writes from the field tags, \<open>dec_T\<close> is
  \<open>json.Unmarshal\<close> into a zero \<open>T\<close>, and \<open>ok_T\<close> says that the numbers of a value fit Go's \<open>int\<close> (and that an
  optional map is not empty but present, which \<open>omitempty\<close> cannot tell from an absent one). The
  \<open>T_dec_enc\<close> lemmas are the round trips.
\<close>

section \<open>Encoders and decoders\<close>

definition members_LlmFailure :: "LlmFailure \<Rightarrow> members" where
  "members_LlmFailure x =
     m_str ''message'' (lf_Message x) @
     m_str ''code'' (lf_Code x)"

definition enc_LlmFailure :: "LlmFailure \<Rightarrow> json" where
  "enc_LlmFailure x = JObj (members_LlmFailure x)"

definition dec_LlmFailure :: "json \<Rightarrow> jsonError + LlmFailure" where
  "dec_LlmFailure = d_struct (\<lambda>ms.
     bindE (u_str ''message'' [] ms) (\<lambda>v0.
     bindE (u_str ''code'' [] ms) (\<lambda>v1.
     Inr \<lparr>lf_Message = v0, lf_Code = v1\<rparr>)))"

definition ok_LlmFailure :: "LlmFailure \<Rightarrow> bool" where
  "ok_LlmFailure x \<longleftrightarrow> True"

definition members_TurnEndFact :: "TurnEndFact \<Rightarrow> members" where
  "members_TurnEndFact x =
     m_int ''turn'' (te_Turn x) @
     m_str ''reason'' (te_Reason x) @
     m_opt enc_LlmFailure ''error'' (te_Error x)"

definition enc_TurnEndFact :: "TurnEndFact \<Rightarrow> json" where
  "enc_TurnEndFact x = JObj (members_TurnEndFact x)"

definition dec_TurnEndFact :: "json \<Rightarrow> jsonError + TurnEndFact" where
  "dec_TurnEndFact = d_struct (\<lambda>ms.
     bindE (u_int ''turn'' 0 ms) (\<lambda>v0.
     bindE (u_str ''reason'' [] ms) (\<lambda>v1.
     bindE (u_field (c_opt dec_LlmFailure) ''error'' None ms) (\<lambda>v2.
     Inr \<lparr>te_Turn = v0, te_Reason = v1, te_Error = v2\<rparr>))))"

definition ok_TurnEndFact :: "TurnEndFact \<Rightarrow> bool" where
  "ok_TurnEndFact x \<longleftrightarrow> in_i64 (te_Turn x) \<and> pred_option ok_LlmFailure (te_Error x)"

definition members_Meta :: "Meta \<Rightarrow> members" where
  "members_Meta x =
     m_str ''id'' (mt_ID x) @
     m_str ''model'' (mt_Model x) @
     m_str ''provider'' (mt_Provider x) @
     m_str ''cwd'' (mt_CWD x) @
     m_str ''agent'' (mt_Agent x) @
     m_int1 ''format_version'' (mt_FormatVersion x) @
     m_str ''parent_session'' (mt_ParentSession x) @
     m_u64 ''seed_length'' (mt_SeedLength x) @
     m_str ''origin'' (mt_Origin x) @
     m_int ''delegation_depth'' (mt_DelegationDepth x) @
     m_str ''agent_preset'' (mt_AgentPreset x)"

definition enc_Meta :: "Meta \<Rightarrow> json" where
  "enc_Meta x = JObj (members_Meta x)"

definition dec_Meta :: "json \<Rightarrow> jsonError + Meta" where
  "dec_Meta = d_struct (\<lambda>ms.
     bindE (u_str ''id'' [] ms) (\<lambda>v0.
     bindE (u_str ''model'' [] ms) (\<lambda>v1.
     bindE (u_str ''provider'' [] ms) (\<lambda>v2.
     bindE (u_str ''cwd'' [] ms) (\<lambda>v3.
     bindE (u_str ''agent'' [] ms) (\<lambda>v4.
     bindE (u_int ''format_version'' 0 ms) (\<lambda>v5.
     bindE (u_str ''parent_session'' [] ms) (\<lambda>v6.
     bindE (u_u64 ''seed_length'' 0 ms) (\<lambda>v7.
     bindE (u_str ''origin'' [] ms) (\<lambda>v8.
     bindE (u_int ''delegation_depth'' 0 ms) (\<lambda>v9.
     bindE (u_str ''agent_preset'' [] ms) (\<lambda>v10.
     Inr \<lparr>mt_ID = v0, mt_Model = v1, mt_Provider = v2, mt_CWD = v3, mt_Agent = v4,
       mt_FormatVersion = v5, mt_ParentSession = v6, mt_SeedLength = v7, mt_Origin = v8,
       mt_DelegationDepth = v9, mt_AgentPreset = v10\<rparr>))))))))))))"

definition ok_Meta :: "Meta \<Rightarrow> bool" where
  "ok_Meta x \<longleftrightarrow> in_i64 (mt_FormatVersion x) \<and> in_i64 (mt_DelegationDepth x)"

definition members_ContentPartPayload :: "ContentPartPayload \<Rightarrow> members" where
  "members_ContentPartPayload x =
     m_str1 ''type'' (cp_Type x) @
     m_str ''text'' (cp_Text x) @
     m_str ''image_url'' (cp_ImageURL x) @
     m_str ''image_detail'' (cp_ImageDetail x) @
     m_str ''audio_data'' (cp_AudioData x) @
     m_str ''audio_format'' (cp_AudioFormat x)"

definition enc_ContentPartPayload :: "ContentPartPayload \<Rightarrow> json" where
  "enc_ContentPartPayload x = JObj (members_ContentPartPayload x)"

definition dec_ContentPartPayload :: "json \<Rightarrow> jsonError + ContentPartPayload" where
  "dec_ContentPartPayload = d_struct (\<lambda>ms.
     bindE (u_str ''type'' [] ms) (\<lambda>v0.
     bindE (u_str ''text'' [] ms) (\<lambda>v1.
     bindE (u_str ''image_url'' [] ms) (\<lambda>v2.
     bindE (u_str ''image_detail'' [] ms) (\<lambda>v3.
     bindE (u_str ''audio_data'' [] ms) (\<lambda>v4.
     bindE (u_str ''audio_format'' [] ms) (\<lambda>v5.
     Inr \<lparr>cp_Type = v0, cp_Text = v1, cp_ImageURL = v2, cp_ImageDetail = v3,
       cp_AudioData = v4, cp_AudioFormat = v5\<rparr>)))))))"

definition ok_ContentPartPayload :: "ContentPartPayload \<Rightarrow> bool" where
  "ok_ContentPartPayload x \<longleftrightarrow> True"

definition members_ToolCallPayload :: "ToolCallPayload \<Rightarrow> members" where
  "members_ToolCallPayload x =
     m_int ''turn'' (tc_Turn x) @
     m_int ''step'' (tc_Step x) @
     m_str ''id'' (tc_ID x) @
     m_str1 ''name'' (tc_Name x) @
     m_map1 ''arguments'' (tc_Arguments x)"

definition enc_ToolCallPayload :: "ToolCallPayload \<Rightarrow> json" where
  "enc_ToolCallPayload x = JObj (members_ToolCallPayload x)"

definition dec_ToolCallPayload :: "json \<Rightarrow> jsonError + ToolCallPayload" where
  "dec_ToolCallPayload = d_struct (\<lambda>ms.
     bindE (u_int ''turn'' 0 ms) (\<lambda>v0.
     bindE (u_int ''step'' 0 ms) (\<lambda>v1.
     bindE (u_str ''id'' [] ms) (\<lambda>v2.
     bindE (u_str ''name'' [] ms) (\<lambda>v3.
     bindE (u_field c_map ''arguments'' None ms) (\<lambda>v4.
     Inr \<lparr>tc_Turn = v0, tc_Step = v1, tc_ID = v2, tc_Name = v3, tc_Arguments = v4\<rparr>))))))"

definition ok_ToolCallPayload :: "ToolCallPayload \<Rightarrow> bool" where
  "ok_ToolCallPayload x \<longleftrightarrow> in_i64 (tc_Turn x) \<and> in_i64 (tc_Step x)"

definition members_ToolResultPayload :: "ToolResultPayload \<Rightarrow> members" where
  "members_ToolResultPayload x =
     m_int ''turn'' (tr_Turn x) @
     m_int ''step'' (tr_Step x) @
     m_str1 ''tool_use_id'' (tr_ToolUseID x) @
     m_str1 ''content'' (tr_Content x) @
     m_bool ''is_error'' (tr_IsError x)"

definition enc_ToolResultPayload :: "ToolResultPayload \<Rightarrow> json" where
  "enc_ToolResultPayload x = JObj (members_ToolResultPayload x)"

definition dec_ToolResultPayload :: "json \<Rightarrow> jsonError + ToolResultPayload" where
  "dec_ToolResultPayload = d_struct (\<lambda>ms.
     bindE (u_int ''turn'' 0 ms) (\<lambda>v0.
     bindE (u_int ''step'' 0 ms) (\<lambda>v1.
     bindE (u_str ''tool_use_id'' [] ms) (\<lambda>v2.
     bindE (u_str ''content'' [] ms) (\<lambda>v3.
     bindE (u_bool ''is_error'' False ms) (\<lambda>v4.
     Inr \<lparr>tr_Turn = v0, tr_Step = v1, tr_ToolUseID = v2, tr_Content = v3, tr_IsError = v4\<rparr>))))))"

definition ok_ToolResultPayload :: "ToolResultPayload \<Rightarrow> bool" where
  "ok_ToolResultPayload x \<longleftrightarrow> in_i64 (tr_Turn x) \<and> in_i64 (tr_Step x)"

definition members_Message :: "Message \<Rightarrow> members" where
  "members_Message x =
     m_str ''role'' (msg_Role x) @
     m_str ''content'' (msg_Content x) @
     m_str ''thinking'' (msg_Thinking x) @
     m_arr JStr ''images'' (msg_Images x) @
     m_arr enc_ContentPartPayload ''content_parts'' (msg_ContentParts x) @
     m_arr enc_ToolCallPayload ''tool_use'' (msg_ToolUse x) @
     m_arr enc_ToolResultPayload ''tool_results'' (msg_ToolResults x) @
     m_int ''turn'' (msg_Turn x) @
     m_int ''step'' (msg_Step x)"

definition enc_Message :: "Message \<Rightarrow> json" where
  "enc_Message x = JObj (members_Message x)"

definition dec_Message :: "json \<Rightarrow> jsonError + Message" where
  "dec_Message = d_struct (\<lambda>ms.
     bindE (u_str ''role'' [] ms) (\<lambda>v0.
     bindE (u_str ''content'' [] ms) (\<lambda>v1.
     bindE (u_str ''thinking'' [] ms) (\<lambda>v2.
     bindE (u_field (c_arr (d_scalar c_str [])) ''images'' [] ms) (\<lambda>v3.
     bindE (u_field (c_arr dec_ContentPartPayload) ''content_parts'' [] ms) (\<lambda>v4.
     bindE (u_field (c_arr dec_ToolCallPayload) ''tool_use'' [] ms) (\<lambda>v5.
     bindE (u_field (c_arr dec_ToolResultPayload) ''tool_results'' [] ms) (\<lambda>v6.
     bindE (u_int ''turn'' 0 ms) (\<lambda>v7.
     bindE (u_int ''step'' 0 ms) (\<lambda>v8.
     Inr \<lparr>msg_Role = v0, msg_Content = v1, msg_Thinking = v2, msg_Images = v3,
       msg_ContentParts = v4, msg_ToolUse = v5, msg_ToolResults = v6, msg_Turn = v7,
       msg_Step = v8\<rparr>))))))))))"

definition ok_Message :: "Message \<Rightarrow> bool" where
  "ok_Message x \<longleftrightarrow> list_all ok_ContentPartPayload (msg_ContentParts x) \<and> list_all ok_ToolCallPayload (msg_ToolUse x) \<and> list_all ok_ToolResultPayload (msg_ToolResults x) \<and> in_i64 (msg_Turn x) \<and> in_i64 (msg_Step x)"

definition members_SpecFact :: "SpecFact \<Rightarrow> members" where
  "members_SpecFact x =
     m_str1 ''stage'' (sf_Stage x) @
     m_str ''slug'' (sf_Slug x)"

definition enc_SpecFact :: "SpecFact \<Rightarrow> json" where
  "enc_SpecFact x = JObj (members_SpecFact x)"

definition dec_SpecFact :: "json \<Rightarrow> jsonError + SpecFact" where
  "dec_SpecFact = d_struct (\<lambda>ms.
     bindE (u_str ''stage'' [] ms) (\<lambda>v0.
     bindE (u_str ''slug'' [] ms) (\<lambda>v1.
     Inr \<lparr>sf_Stage = v0, sf_Slug = v1\<rparr>)))"

definition ok_SpecFact :: "SpecFact \<Rightarrow> bool" where
  "ok_SpecFact x \<longleftrightarrow> True"

definition members_BoundaryFact :: "BoundaryFact \<Rightarrow> members" where
  "members_BoundaryFact x =
     m_int ''turn'' (bf_Turn x) @
     m_int ''step'' (bf_Step x)"

definition enc_BoundaryFact :: "BoundaryFact \<Rightarrow> json" where
  "enc_BoundaryFact x = JObj (members_BoundaryFact x)"

definition dec_BoundaryFact :: "json \<Rightarrow> jsonError + BoundaryFact" where
  "dec_BoundaryFact = d_struct (\<lambda>ms.
     bindE (u_int ''turn'' 0 ms) (\<lambda>v0.
     bindE (u_int ''step'' 0 ms) (\<lambda>v1.
     Inr \<lparr>bf_Turn = v0, bf_Step = v1\<rparr>)))"

definition ok_BoundaryFact :: "BoundaryFact \<Rightarrow> bool" where
  "ok_BoundaryFact x \<longleftrightarrow> in_i64 (bf_Turn x) \<and> in_i64 (bf_Step x)"

definition members_ChunkFact :: "ChunkFact \<Rightarrow> members" where
  "members_ChunkFact x =
     m_int ''turn'' (ck_Turn x) @
     m_int ''step'' (ck_Step x) @
     m_str ''chunk'' (ck_Chunk x) @
     m_str ''kind'' (ck_Kind x)"

definition enc_ChunkFact :: "ChunkFact \<Rightarrow> json" where
  "enc_ChunkFact x = JObj (members_ChunkFact x)"

definition dec_ChunkFact :: "json \<Rightarrow> jsonError + ChunkFact" where
  "dec_ChunkFact = d_struct (\<lambda>ms.
     bindE (u_int ''turn'' 0 ms) (\<lambda>v0.
     bindE (u_int ''step'' 0 ms) (\<lambda>v1.
     bindE (u_str ''chunk'' [] ms) (\<lambda>v2.
     bindE (u_str ''kind'' [] ms) (\<lambda>v3.
     Inr \<lparr>ck_Turn = v0, ck_Step = v1, ck_Chunk = v2, ck_Kind = v3\<rparr>)))))"

definition ok_ChunkFact :: "ChunkFact \<Rightarrow> bool" where
  "ok_ChunkFact x \<longleftrightarrow> in_i64 (ck_Turn x) \<and> in_i64 (ck_Step x)"

definition enc_ToolCallDeltaFact :: "ToolCallDeltaFact \<Rightarrow> json" where
  "enc_ToolCallDeltaFact x = JObj (members_ChunkFact (td_ChunkFact x)
     @ m_str ''name'' (td_Name x) @ m_str ''arguments'' (td_Arguments x))"

definition members_CompactionFact :: "CompactionFact \<Rightarrow> members" where
  "members_CompactionFact x =
     m_str ''strategy'' (cf_Strategy x) @
     m_int ''tokens_before'' (cf_TokensBefore x) @
     m_int ''tokens_after'' (cf_TokensAfter x) @
     m_bool ''manual'' (cf_Manual x)"

definition enc_CompactionFact :: "CompactionFact \<Rightarrow> json" where
  "enc_CompactionFact x = JObj (members_CompactionFact x)"

definition dec_CompactionFact :: "json \<Rightarrow> jsonError + CompactionFact" where
  "dec_CompactionFact = d_struct (\<lambda>ms.
     bindE (u_str ''strategy'' [] ms) (\<lambda>v0.
     bindE (u_int ''tokens_before'' 0 ms) (\<lambda>v1.
     bindE (u_int ''tokens_after'' 0 ms) (\<lambda>v2.
     bindE (u_bool ''manual'' False ms) (\<lambda>v3.
     Inr \<lparr>cf_Strategy = v0, cf_TokensBefore = v1, cf_TokensAfter = v2, cf_Manual = v3\<rparr>)))))"

definition ok_CompactionFact :: "CompactionFact \<Rightarrow> bool" where
  "ok_CompactionFact x \<longleftrightarrow> in_i64 (cf_TokensBefore x) \<and> in_i64 (cf_TokensAfter x)"

definition members_ToolWorkflowBounds :: "ToolWorkflowBounds \<Rightarrow> members" where
  "members_ToolWorkflowBounds x =
     m_str ''tool'' (tw_Tool x)"

definition enc_ToolWorkflowBounds :: "ToolWorkflowBounds \<Rightarrow> json" where
  "enc_ToolWorkflowBounds x = JObj (members_ToolWorkflowBounds x)"

definition dec_ToolWorkflowBounds :: "json \<Rightarrow> jsonError + ToolWorkflowBounds" where
  "dec_ToolWorkflowBounds = d_struct (\<lambda>ms.
     bindE (u_str ''tool'' [] ms) (\<lambda>v0.
     Inr \<lparr>tw_Tool = v0\<rparr>))"

definition ok_ToolWorkflowBounds :: "ToolWorkflowBounds \<Rightarrow> bool" where
  "ok_ToolWorkflowBounds x \<longleftrightarrow> True"

definition members_LLMRetryFact :: "LLMRetryFact \<Rightarrow> members" where
  "members_LLMRetryFact x =
     m_int ''attempt'' (lr_Attempt x) @
     m_str ''reason'' (lr_Reason x)"

definition enc_LLMRetryFact :: "LLMRetryFact \<Rightarrow> json" where
  "enc_LLMRetryFact x = JObj (members_LLMRetryFact x)"

definition dec_LLMRetryFact :: "json \<Rightarrow> jsonError + LLMRetryFact" where
  "dec_LLMRetryFact = d_struct (\<lambda>ms.
     bindE (u_int ''attempt'' 0 ms) (\<lambda>v0.
     bindE (u_str ''reason'' [] ms) (\<lambda>v1.
     Inr \<lparr>lr_Attempt = v0, lr_Reason = v1\<rparr>)))"

definition ok_LLMRetryFact :: "LLMRetryFact \<Rightarrow> bool" where
  "ok_LLMRetryFact x \<longleftrightarrow> in_i64 (lr_Attempt x)"

definition members_RequestContextFact :: "RequestContextFact \<Rightarrow> members" where
  "members_RequestContextFact x =
     m_str ''provider'' (rc_Provider x) @
     m_str ''model'' (rc_Model x) @
     m_int ''context_window'' (rc_ContextWindow x)"

definition enc_RequestContextFact :: "RequestContextFact \<Rightarrow> json" where
  "enc_RequestContextFact x = JObj (members_RequestContextFact x)"

definition dec_RequestContextFact :: "json \<Rightarrow> jsonError + RequestContextFact" where
  "dec_RequestContextFact = d_struct (\<lambda>ms.
     bindE (u_str ''provider'' [] ms) (\<lambda>v0.
     bindE (u_str ''model'' [] ms) (\<lambda>v1.
     bindE (u_int ''context_window'' 0 ms) (\<lambda>v2.
     Inr \<lparr>rc_Provider = v0, rc_Model = v1, rc_ContextWindow = v2\<rparr>))))"

definition ok_RequestContextFact :: "RequestContextFact \<Rightarrow> bool" where
  "ok_RequestContextFact x \<longleftrightarrow> in_i64 (rc_ContextWindow x)"

definition members_PermissionFact :: "PermissionFact \<Rightarrow> members" where
  "members_PermissionFact x =
     m_str ''tool'' (pf_Tool x) @
     m_str ''category'' (pf_Category x) @
     m_bool1 ''allowed'' (pf_Allowed x) @
     m_str ''message'' (pf_Message x)"

definition enc_PermissionFact :: "PermissionFact \<Rightarrow> json" where
  "enc_PermissionFact x = JObj (members_PermissionFact x)"

definition dec_PermissionFact :: "json \<Rightarrow> jsonError + PermissionFact" where
  "dec_PermissionFact = d_struct (\<lambda>ms.
     bindE (u_str ''tool'' [] ms) (\<lambda>v0.
     bindE (u_str ''category'' [] ms) (\<lambda>v1.
     bindE (u_bool ''allowed'' False ms) (\<lambda>v2.
     bindE (u_str ''message'' [] ms) (\<lambda>v3.
     Inr \<lparr>pf_Tool = v0, pf_Category = v1, pf_Allowed = v2, pf_Message = v3\<rparr>)))))"

definition ok_PermissionFact :: "PermissionFact \<Rightarrow> bool" where
  "ok_PermissionFact x \<longleftrightarrow> True"

definition members_ApprovalAskedFact :: "ApprovalAskedFact \<Rightarrow> members" where
  "members_ApprovalAskedFact x =
     m_int ''turn'' (aa_Turn x) @
     m_int ''step'' (aa_Step x) @
     m_str ''tool'' (aa_Tool x) @
     m_str ''category'' (aa_Category x) @
     m_str ''question'' (aa_Question x) @
     m_str ''id'' (aa_ID x) @
     m_str ''call_id'' (aa_CallID x)"

definition enc_ApprovalAskedFact :: "ApprovalAskedFact \<Rightarrow> json" where
  "enc_ApprovalAskedFact x = JObj (members_ApprovalAskedFact x)"

definition dec_ApprovalAskedFact :: "json \<Rightarrow> jsonError + ApprovalAskedFact" where
  "dec_ApprovalAskedFact = d_struct (\<lambda>ms.
     bindE (u_int ''turn'' 0 ms) (\<lambda>v0.
     bindE (u_int ''step'' 0 ms) (\<lambda>v1.
     bindE (u_str ''tool'' [] ms) (\<lambda>v2.
     bindE (u_str ''category'' [] ms) (\<lambda>v3.
     bindE (u_str ''question'' [] ms) (\<lambda>v4.
     bindE (u_str ''id'' [] ms) (\<lambda>v5.
     bindE (u_str ''call_id'' [] ms) (\<lambda>v6.
     Inr \<lparr>aa_Turn = v0, aa_Step = v1, aa_Tool = v2, aa_Category = v3, aa_Question = v4,
       aa_ID = v5, aa_CallID = v6\<rparr>))))))))"

definition ok_ApprovalAskedFact :: "ApprovalAskedFact \<Rightarrow> bool" where
  "ok_ApprovalAskedFact x \<longleftrightarrow> in_i64 (aa_Turn x) \<and> in_i64 (aa_Step x)"

definition members_ApprovalDecidedFact :: "ApprovalDecidedFact \<Rightarrow> members" where
  "members_ApprovalDecidedFact x =
     m_int ''turn'' (ad_Turn x) @
     m_int ''step'' (ad_Step x) @
     m_str ''tool'' (ad_Tool x) @
     m_str ''category'' (ad_Category x) @
     m_bool1 ''allowed'' (ad_Allowed x) @
     m_str ''message'' (ad_Message x) @
     m_str ''id'' (ad_ID x) @
     m_str ''outcome'' (ad_Outcome x)"

definition enc_ApprovalDecidedFact :: "ApprovalDecidedFact \<Rightarrow> json" where
  "enc_ApprovalDecidedFact x = JObj (members_ApprovalDecidedFact x)"

definition dec_ApprovalDecidedFact :: "json \<Rightarrow> jsonError + ApprovalDecidedFact" where
  "dec_ApprovalDecidedFact = d_struct (\<lambda>ms.
     bindE (u_int ''turn'' 0 ms) (\<lambda>v0.
     bindE (u_int ''step'' 0 ms) (\<lambda>v1.
     bindE (u_str ''tool'' [] ms) (\<lambda>v2.
     bindE (u_str ''category'' [] ms) (\<lambda>v3.
     bindE (u_bool ''allowed'' False ms) (\<lambda>v4.
     bindE (u_str ''message'' [] ms) (\<lambda>v5.
     bindE (u_str ''id'' [] ms) (\<lambda>v6.
     bindE (u_str ''outcome'' [] ms) (\<lambda>v7.
     Inr \<lparr>ad_Turn = v0, ad_Step = v1, ad_Tool = v2, ad_Category = v3, ad_Allowed = v4,
       ad_Message = v5, ad_ID = v6, ad_Outcome = v7\<rparr>)))))))))"

definition ok_ApprovalDecidedFact :: "ApprovalDecidedFact \<Rightarrow> bool" where
  "ok_ApprovalDecidedFact x \<longleftrightarrow> in_i64 (ad_Turn x) \<and> in_i64 (ad_Step x)"

definition members_ApprovalPolicyFact :: "ApprovalPolicyFact \<Rightarrow> members" where
  "members_ApprovalPolicyFact x =
     m_str ''category'' (ap_Category x) @
     m_bool1 ''covered'' (ap_Covered x) @
     m_str ''preset'' (ap_PresetName x) @
     m_str ''policy'' (ap_Policy x) @
     m_str ''source'' (ap_Source x)"

definition enc_ApprovalPolicyFact :: "ApprovalPolicyFact \<Rightarrow> json" where
  "enc_ApprovalPolicyFact x = JObj (members_ApprovalPolicyFact x)"

definition dec_ApprovalPolicyFact :: "json \<Rightarrow> jsonError + ApprovalPolicyFact" where
  "dec_ApprovalPolicyFact = d_struct (\<lambda>ms.
     bindE (u_str ''category'' [] ms) (\<lambda>v0.
     bindE (u_bool ''covered'' False ms) (\<lambda>v1.
     bindE (u_str ''preset'' [] ms) (\<lambda>v2.
     bindE (u_str ''policy'' [] ms) (\<lambda>v3.
     bindE (u_str ''source'' [] ms) (\<lambda>v4.
     Inr \<lparr>ap_Category = v0, ap_Covered = v1, ap_PresetName = v2, ap_Policy = v3,
       ap_Source = v4\<rparr>))))))"

definition ok_ApprovalPolicyFact :: "ApprovalPolicyFact \<Rightarrow> bool" where
  "ok_ApprovalPolicyFact x \<longleftrightarrow> True"

definition members_CompactionStartFact :: "CompactionStartFact \<Rightarrow> members" where
  "members_CompactionStartFact x =
     m_str ''strategy'' (cs_Strategy x) @
     m_str ''compaction_id'' (cs_CompactionID x) @
     m_str ''source_command_id'' (cs_SourceCommandID x) @
     m_opt JNum ''turn'' (cs_Turn x)"

definition enc_CompactionStartFact :: "CompactionStartFact \<Rightarrow> json" where
  "enc_CompactionStartFact x = JObj (members_CompactionStartFact x)"

definition dec_CompactionStartFact :: "json \<Rightarrow> jsonError + CompactionStartFact" where
  "dec_CompactionStartFact = d_struct (\<lambda>ms.
     bindE (u_str ''strategy'' [] ms) (\<lambda>v0.
     bindE (u_str ''compaction_id'' [] ms) (\<lambda>v1.
     bindE (u_str ''source_command_id'' [] ms) (\<lambda>v2.
     bindE (u_field (c_opt (d_scalar c_int 0)) ''turn'' None ms) (\<lambda>v3.
     Inr \<lparr>cs_Strategy = v0, cs_CompactionID = v1, cs_SourceCommandID = v2, cs_Turn = v3\<rparr>)))))"

definition ok_CompactionStartFact :: "CompactionStartFact \<Rightarrow> bool" where
  "ok_CompactionStartFact x \<longleftrightarrow> pred_option in_i64 (cs_Turn x)"

definition members_CompactionPruneFact :: "CompactionPruneFact \<Rightarrow> members" where
  "members_CompactionPruneFact x =
     m_str ''strategy'' (cpr_Strategy x) @
     m_int ''messages'' (cpr_Messages x) @
     m_u64 ''shadowed_range_start'' (cpr_ShadowedRangeStart x) @
     m_u64 ''shadowed_range_end'' (cpr_ShadowedRangeEnd x) @
     m_arr (\<lambda>w. JNum (uint w)) ''shadowed_seqs'' (cpr_ShadowedSeqs x) @
     m_int ''shadowed_token_count'' (cpr_ShadowedTokenCount x)"

definition enc_CompactionPruneFact :: "CompactionPruneFact \<Rightarrow> json" where
  "enc_CompactionPruneFact x = JObj (members_CompactionPruneFact x)"

definition dec_CompactionPruneFact :: "json \<Rightarrow> jsonError + CompactionPruneFact" where
  "dec_CompactionPruneFact = d_struct (\<lambda>ms.
     bindE (u_str ''strategy'' [] ms) (\<lambda>v0.
     bindE (u_int ''messages'' 0 ms) (\<lambda>v1.
     bindE (u_u64 ''shadowed_range_start'' 0 ms) (\<lambda>v2.
     bindE (u_u64 ''shadowed_range_end'' 0 ms) (\<lambda>v3.
     bindE (u_field (c_arr (d_scalar c_u64 0)) ''shadowed_seqs'' [] ms) (\<lambda>v4.
     bindE (u_int ''shadowed_token_count'' 0 ms) (\<lambda>v5.
     Inr \<lparr>cpr_Strategy = v0, cpr_Messages = v1, cpr_ShadowedRangeStart = v2,
       cpr_ShadowedRangeEnd = v3, cpr_ShadowedSeqs = v4, cpr_ShadowedTokenCount = v5\<rparr>)))))))"

definition ok_CompactionPruneFact :: "CompactionPruneFact \<Rightarrow> bool" where
  "ok_CompactionPruneFact x \<longleftrightarrow> in_i64 (cpr_Messages x) \<and> in_i64 (cpr_ShadowedTokenCount x)"

definition members_CompactionEndFact :: "CompactionEndFact \<Rightarrow> members" where
  "members_CompactionEndFact x =
     m_str ''strategy'' (ce_Strategy x) @
     m_int ''tokens_before'' (ce_TokensBefore x) @
     m_int ''tokens_after'' (ce_TokensAfter x) @
     m_str ''compaction_id'' (ce_CompactionID x) @
     m_str ''source_command_id'' (ce_SourceCommandID x) @
     m_opt JNum ''turn'' (ce_Turn x) @
     m_str ''error'' (ce_Error x)"

definition enc_CompactionEndFact :: "CompactionEndFact \<Rightarrow> json" where
  "enc_CompactionEndFact x = JObj (members_CompactionEndFact x)"

definition dec_CompactionEndFact :: "json \<Rightarrow> jsonError + CompactionEndFact" where
  "dec_CompactionEndFact = d_struct (\<lambda>ms.
     bindE (u_str ''strategy'' [] ms) (\<lambda>v0.
     bindE (u_int ''tokens_before'' 0 ms) (\<lambda>v1.
     bindE (u_int ''tokens_after'' 0 ms) (\<lambda>v2.
     bindE (u_str ''compaction_id'' [] ms) (\<lambda>v3.
     bindE (u_str ''source_command_id'' [] ms) (\<lambda>v4.
     bindE (u_field (c_opt (d_scalar c_int 0)) ''turn'' None ms) (\<lambda>v5.
     bindE (u_str ''error'' [] ms) (\<lambda>v6.
     Inr \<lparr>ce_Strategy = v0, ce_TokensBefore = v1, ce_TokensAfter = v2, ce_CompactionID = v3,
       ce_SourceCommandID = v4, ce_Turn = v5, ce_Error = v6\<rparr>))))))))"

definition ok_CompactionEndFact :: "CompactionEndFact \<Rightarrow> bool" where
  "ok_CompactionEndFact x \<longleftrightarrow> in_i64 (ce_TokensBefore x) \<and> in_i64 (ce_TokensAfter x) \<and> pred_option in_i64 (ce_Turn x)"

definition members_CompactionSummaryFact :: "CompactionSummaryFact \<Rightarrow> members" where
  "members_CompactionSummaryFact x =
     m_str ''summary'' (csm_Summary x) @
     m_str ''compaction_id'' (csm_CompactionID x) @
     m_str ''source_command_id'' (csm_SourceCommandID x) @
     m_u64 ''shadowed_range_start'' (csm_ShadowedRangeStart x) @
     m_u64 ''shadowed_range_end'' (csm_ShadowedRangeEnd x) @
     m_arr (\<lambda>w. JNum (uint w)) ''shadowed_seqs'' (csm_ShadowedSeqs x) @
     m_int ''shadowed_token_count'' (csm_ShadowedTokenCount x) @
     m_str ''provider'' (csm_Provider x) @
     m_str ''model'' (csm_Model x) @
     m_opt JNum ''max_tokens'' (csm_MaxTokens x) @
     m_int ''usage_prompt_tokens'' (csm_UsagePromptTokens x) @
     m_int ''usage_completion_tokens'' (csm_UsageCompletionTokens x)"

definition enc_CompactionSummaryFact :: "CompactionSummaryFact \<Rightarrow> json" where
  "enc_CompactionSummaryFact x = JObj (members_CompactionSummaryFact x)"

definition dec_CompactionSummaryFact :: "json \<Rightarrow> jsonError + CompactionSummaryFact" where
  "dec_CompactionSummaryFact = d_struct (\<lambda>ms.
     bindE (u_str ''summary'' [] ms) (\<lambda>v0.
     bindE (u_str ''compaction_id'' [] ms) (\<lambda>v1.
     bindE (u_str ''source_command_id'' [] ms) (\<lambda>v2.
     bindE (u_u64 ''shadowed_range_start'' 0 ms) (\<lambda>v3.
     bindE (u_u64 ''shadowed_range_end'' 0 ms) (\<lambda>v4.
     bindE (u_field (c_arr (d_scalar c_u64 0)) ''shadowed_seqs'' [] ms) (\<lambda>v5.
     bindE (u_int ''shadowed_token_count'' 0 ms) (\<lambda>v6.
     bindE (u_str ''provider'' [] ms) (\<lambda>v7.
     bindE (u_str ''model'' [] ms) (\<lambda>v8.
     bindE (u_field (c_opt (d_scalar c_int 0)) ''max_tokens'' None ms) (\<lambda>v9.
     bindE (u_int ''usage_prompt_tokens'' 0 ms) (\<lambda>v10.
     bindE (u_int ''usage_completion_tokens'' 0 ms) (\<lambda>v11.
     Inr \<lparr>csm_Summary = v0, csm_CompactionID = v1, csm_SourceCommandID = v2,
       csm_ShadowedRangeStart = v3, csm_ShadowedRangeEnd = v4, csm_ShadowedSeqs = v5,
       csm_ShadowedTokenCount = v6, csm_Provider = v7, csm_Model = v8, csm_MaxTokens = v9,
       csm_UsagePromptTokens = v10, csm_UsageCompletionTokens = v11\<rparr>)))))))))))))"

definition ok_CompactionSummaryFact :: "CompactionSummaryFact \<Rightarrow> bool" where
  "ok_CompactionSummaryFact x \<longleftrightarrow> in_i64 (csm_ShadowedTokenCount x) \<and> pred_option in_i64 (csm_MaxTokens x) \<and> in_i64 (csm_UsagePromptTokens x) \<and> in_i64 (csm_UsageCompletionTokens x)"

definition members_TodoItem :: "TodoItem \<Rightarrow> members" where
  "members_TodoItem x =
     m_str1 ''content'' (ti_Content x) @
     m_str1 ''status'' (ti_Status x)"

definition enc_TodoItem :: "TodoItem \<Rightarrow> json" where
  "enc_TodoItem x = JObj (members_TodoItem x)"

definition dec_TodoItem :: "json \<Rightarrow> jsonError + TodoItem" where
  "dec_TodoItem = d_struct (\<lambda>ms.
     bindE (u_str ''content'' [] ms) (\<lambda>v0.
     bindE (u_str ''status'' [] ms) (\<lambda>v1.
     Inr \<lparr>ti_Content = v0, ti_Status = v1\<rparr>)))"

definition ok_TodoItem :: "TodoItem \<Rightarrow> bool" where
  "ok_TodoItem x \<longleftrightarrow> True"

definition members_TodoWriteFact :: "TodoWriteFact \<Rightarrow> members" where
  "members_TodoWriteFact x =
     m_arr enc_TodoItem ''todos'' (tdw_Todos x)"

definition enc_TodoWriteFact :: "TodoWriteFact \<Rightarrow> json" where
  "enc_TodoWriteFact x = JObj (members_TodoWriteFact x)"

definition dec_TodoWriteFact :: "json \<Rightarrow> jsonError + TodoWriteFact" where
  "dec_TodoWriteFact = d_struct (\<lambda>ms.
     bindE (u_field (c_arr dec_TodoItem) ''todos'' [] ms) (\<lambda>v0.
     Inr \<lparr>tdw_Todos = v0\<rparr>))"

definition ok_TodoWriteFact :: "TodoWriteFact \<Rightarrow> bool" where
  "ok_TodoWriteFact x \<longleftrightarrow> list_all ok_TodoItem (tdw_Todos x)"

definition members_ContextInjectedFact :: "ContextInjectedFact \<Rightarrow> members" where
  "members_ContextInjectedFact x =
     m_str ''content'' (ci_Content x)"

definition enc_ContextInjectedFact :: "ContextInjectedFact \<Rightarrow> json" where
  "enc_ContextInjectedFact x = JObj (members_ContextInjectedFact x)"

definition dec_ContextInjectedFact :: "json \<Rightarrow> jsonError + ContextInjectedFact" where
  "dec_ContextInjectedFact = d_struct (\<lambda>ms.
     bindE (u_str ''content'' [] ms) (\<lambda>v0.
     Inr \<lparr>ci_Content = v0\<rparr>))"

definition ok_ContextInjectedFact :: "ContextInjectedFact \<Rightarrow> bool" where
  "ok_ContextInjectedFact x \<longleftrightarrow> True"

definition members_RequestHeaderFact :: "RequestHeaderFact \<Rightarrow> members" where
  "members_RequestHeaderFact x =
     m_str ''system'' (rh_System x) @
     m_arr JStr ''tools'' (rh_Tools x) @
     m_str ''reason'' (rh_Reason x)"

definition enc_RequestHeaderFact :: "RequestHeaderFact \<Rightarrow> json" where
  "enc_RequestHeaderFact x = JObj (members_RequestHeaderFact x)"

definition dec_RequestHeaderFact :: "json \<Rightarrow> jsonError + RequestHeaderFact" where
  "dec_RequestHeaderFact = d_struct (\<lambda>ms.
     bindE (u_str ''system'' [] ms) (\<lambda>v0.
     bindE (u_field (c_arr (d_scalar c_str [])) ''tools'' [] ms) (\<lambda>v1.
     bindE (u_str ''reason'' [] ms) (\<lambda>v2.
     Inr \<lparr>rh_System = v0, rh_Tools = v1, rh_Reason = v2\<rparr>))))"

definition ok_RequestHeaderFact :: "RequestHeaderFact \<Rightarrow> bool" where
  "ok_RequestHeaderFact x \<longleftrightarrow> True"

definition members_HookInvokedFact :: "HookInvokedFact \<Rightarrow> members" where
  "members_HookInvokedFact x =
     m_str ''name'' (hi_Name x)"

definition enc_HookInvokedFact :: "HookInvokedFact \<Rightarrow> json" where
  "enc_HookInvokedFact x = JObj (members_HookInvokedFact x)"

definition dec_HookInvokedFact :: "json \<Rightarrow> jsonError + HookInvokedFact" where
  "dec_HookInvokedFact = d_struct (\<lambda>ms.
     bindE (u_str ''name'' [] ms) (\<lambda>v0.
     Inr \<lparr>hi_Name = v0\<rparr>))"

definition ok_HookInvokedFact :: "HookInvokedFact \<Rightarrow> bool" where
  "ok_HookInvokedFact x \<longleftrightarrow> True"

definition members_HookResultFact :: "HookResultFact \<Rightarrow> members" where
  "members_HookResultFact x =
     m_str ''name'' (hr_Name x) @
     m_str ''error'' (hr_Error x) @
     m_bool1 ''success'' (hr_Success x)"

definition enc_HookResultFact :: "HookResultFact \<Rightarrow> json" where
  "enc_HookResultFact x = JObj (members_HookResultFact x)"

definition dec_HookResultFact :: "json \<Rightarrow> jsonError + HookResultFact" where
  "dec_HookResultFact = d_struct (\<lambda>ms.
     bindE (u_str ''name'' [] ms) (\<lambda>v0.
     bindE (u_str ''error'' [] ms) (\<lambda>v1.
     bindE (u_bool ''success'' False ms) (\<lambda>v2.
     Inr \<lparr>hr_Name = v0, hr_Error = v1, hr_Success = v2\<rparr>))))"

definition ok_HookResultFact :: "HookResultFact \<Rightarrow> bool" where
  "ok_HookResultFact x \<longleftrightarrow> True"

definition members_FeedbackFact :: "FeedbackFact \<Rightarrow> members" where
  "members_FeedbackFact x =
     m_str ''category'' (fb_Category x) @
     m_str ''detail'' (fb_Detail x) @
     m_str ''thumb'' (fb_Thumb x)"

definition enc_FeedbackFact :: "FeedbackFact \<Rightarrow> json" where
  "enc_FeedbackFact x = JObj (members_FeedbackFact x)"

definition dec_FeedbackFact :: "json \<Rightarrow> jsonError + FeedbackFact" where
  "dec_FeedbackFact = d_struct (\<lambda>ms.
     bindE (u_str ''category'' [] ms) (\<lambda>v0.
     bindE (u_str ''detail'' [] ms) (\<lambda>v1.
     bindE (u_str ''thumb'' [] ms) (\<lambda>v2.
     Inr \<lparr>fb_Category = v0, fb_Detail = v1, fb_Thumb = v2\<rparr>))))"

definition ok_FeedbackFact :: "FeedbackFact \<Rightarrow> bool" where
  "ok_FeedbackFact x \<longleftrightarrow> True"

definition members_GoalChangeFact :: "GoalChangeFact \<Rightarrow> members" where
  "members_GoalChangeFact x =
     m_str ''goal'' (gc_Goal x) @
     m_bool1 ''added'' (gc_Added x) @
     m_bool1 ''removed'' (gc_Removed x)"

definition enc_GoalChangeFact :: "GoalChangeFact \<Rightarrow> json" where
  "enc_GoalChangeFact x = JObj (members_GoalChangeFact x)"

definition dec_GoalChangeFact :: "json \<Rightarrow> jsonError + GoalChangeFact" where
  "dec_GoalChangeFact = d_struct (\<lambda>ms.
     bindE (u_str ''goal'' [] ms) (\<lambda>v0.
     bindE (u_bool ''added'' False ms) (\<lambda>v1.
     bindE (u_bool ''removed'' False ms) (\<lambda>v2.
     Inr \<lparr>gc_Goal = v0, gc_Added = v1, gc_Removed = v2\<rparr>))))"

definition ok_GoalChangeFact :: "GoalChangeFact \<Rightarrow> bool" where
  "ok_GoalChangeFact x \<longleftrightarrow> True"

definition members_PermissionPresetFact :: "PermissionPresetFact \<Rightarrow> members" where
  "members_PermissionPresetFact x =
     m_str ''category'' (pp_Category x) @
     m_bool1 ''covered'' (pp_Covered x) @
     m_str ''preset'' (pp_PresetName x)"

definition enc_PermissionPresetFact :: "PermissionPresetFact \<Rightarrow> json" where
  "enc_PermissionPresetFact x = JObj (members_PermissionPresetFact x)"

definition dec_PermissionPresetFact :: "json \<Rightarrow> jsonError + PermissionPresetFact" where
  "dec_PermissionPresetFact = d_struct (\<lambda>ms.
     bindE (u_str ''category'' [] ms) (\<lambda>v0.
     bindE (u_bool ''covered'' False ms) (\<lambda>v1.
     bindE (u_str ''preset'' [] ms) (\<lambda>v2.
     Inr \<lparr>pp_Category = v0, pp_Covered = v1, pp_PresetName = v2\<rparr>))))"

definition ok_PermissionPresetFact :: "PermissionPresetFact \<Rightarrow> bool" where
  "ok_PermissionPresetFact x \<longleftrightarrow> True"

definition members_SandboxModeFact :: "SandboxModeFact \<Rightarrow> members" where
  "members_SandboxModeFact x =
     m_str ''mode'' (sm_Mode x) @
     m_str ''source'' (sm_Source x)"

definition enc_SandboxModeFact :: "SandboxModeFact \<Rightarrow> json" where
  "enc_SandboxModeFact x = JObj (members_SandboxModeFact x)"

definition dec_SandboxModeFact :: "json \<Rightarrow> jsonError + SandboxModeFact" where
  "dec_SandboxModeFact = d_struct (\<lambda>ms.
     bindE (u_str ''mode'' [] ms) (\<lambda>v0.
     bindE (u_str ''source'' [] ms) (\<lambda>v1.
     Inr \<lparr>sm_Mode = v0, sm_Source = v1\<rparr>)))"

definition ok_SandboxModeFact :: "SandboxModeFact \<Rightarrow> bool" where
  "ok_SandboxModeFact x \<longleftrightarrow> True"

definition members_ScheduleChangeFact :: "ScheduleChangeFact \<Rightarrow> members" where
  "members_ScheduleChangeFact x =
     m_str ''cron'' (sch_Cron x)"

definition enc_ScheduleChangeFact :: "ScheduleChangeFact \<Rightarrow> json" where
  "enc_ScheduleChangeFact x = JObj (members_ScheduleChangeFact x)"

definition dec_ScheduleChangeFact :: "json \<Rightarrow> jsonError + ScheduleChangeFact" where
  "dec_ScheduleChangeFact = d_struct (\<lambda>ms.
     bindE (u_str ''cron'' [] ms) (\<lambda>v0.
     Inr \<lparr>sch_Cron = v0\<rparr>))"

definition ok_ScheduleChangeFact :: "ScheduleChangeFact \<Rightarrow> bool" where
  "ok_ScheduleChangeFact x \<longleftrightarrow> True"

definition members_SessionTitleFact :: "SessionTitleFact \<Rightarrow> members" where
  "members_SessionTitleFact x =
     m_str ''title'' (st_Title x)"

definition enc_SessionTitleFact :: "SessionTitleFact \<Rightarrow> json" where
  "enc_SessionTitleFact x = JObj (members_SessionTitleFact x)"

definition dec_SessionTitleFact :: "json \<Rightarrow> jsonError + SessionTitleFact" where
  "dec_SessionTitleFact = d_struct (\<lambda>ms.
     bindE (u_str ''title'' [] ms) (\<lambda>v0.
     Inr \<lparr>st_Title = v0\<rparr>))"

definition ok_SessionTitleFact :: "SessionTitleFact \<Rightarrow> bool" where
  "ok_SessionTitleFact x \<longleftrightarrow> True"

definition members_SessionTitleLLMRequestFact :: "SessionTitleLLMRequestFact \<Rightarrow> members" where
  "members_SessionTitleLLMRequestFact x =
     m_str ''model'' (stl_Model x)"

definition enc_SessionTitleLLMRequestFact :: "SessionTitleLLMRequestFact \<Rightarrow> json" where
  "enc_SessionTitleLLMRequestFact x = JObj (members_SessionTitleLLMRequestFact x)"

definition dec_SessionTitleLLMRequestFact :: "json \<Rightarrow> jsonError + SessionTitleLLMRequestFact" where
  "dec_SessionTitleLLMRequestFact = d_struct (\<lambda>ms.
     bindE (u_str ''model'' [] ms) (\<lambda>v0.
     Inr \<lparr>stl_Model = v0\<rparr>))"

definition ok_SessionTitleLLMRequestFact :: "SessionTitleLLMRequestFact \<Rightarrow> bool" where
  "ok_SessionTitleLLMRequestFact x \<longleftrightarrow> True"

definition members_SubagentDescriptorFact :: "SubagentDescriptorFact \<Rightarrow> members" where
  "members_SubagentDescriptorFact x =
     m_str ''name'' (sd_Name x) @
     m_str ''agent'' (sd_Agent x) @
     m_int ''depth'' (sd_Depth x) @
     m_int ''version'' (sd_Version x) @
     m_str ''mode'' (sd_Mode x) @
     m_str ''provider'' (sd_Provider x) @
     m_str ''label'' (sd_Label x) @
     m_str ''agent_provider'' (sd_AgentProvider x) @
     m_str ''agent_model'' (sd_AgentModel x) @
     m_str ''persona'' (sd_Persona x) @
     m_arr JStr ''tool_filter_allow'' (sd_ToolFilterAllow x) @
     m_arr JStr ''tool_filter_deny'' (sd_ToolFilterDeny x)"

definition enc_SubagentDescriptorFact :: "SubagentDescriptorFact \<Rightarrow> json" where
  "enc_SubagentDescriptorFact x = JObj (members_SubagentDescriptorFact x)"

definition dec_SubagentDescriptorFact :: "json \<Rightarrow> jsonError + SubagentDescriptorFact" where
  "dec_SubagentDescriptorFact = d_struct (\<lambda>ms.
     bindE (u_str ''name'' [] ms) (\<lambda>v0.
     bindE (u_str ''agent'' [] ms) (\<lambda>v1.
     bindE (u_int ''depth'' 0 ms) (\<lambda>v2.
     bindE (u_int ''version'' 0 ms) (\<lambda>v3.
     bindE (u_str ''mode'' [] ms) (\<lambda>v4.
     bindE (u_str ''provider'' [] ms) (\<lambda>v5.
     bindE (u_str ''label'' [] ms) (\<lambda>v6.
     bindE (u_str ''agent_provider'' [] ms) (\<lambda>v7.
     bindE (u_str ''agent_model'' [] ms) (\<lambda>v8.
     bindE (u_str ''persona'' [] ms) (\<lambda>v9.
     bindE (u_field (c_arr (d_scalar c_str [])) ''tool_filter_allow'' [] ms) (\<lambda>v10.
     bindE (u_field (c_arr (d_scalar c_str [])) ''tool_filter_deny'' [] ms) (\<lambda>v11.
     Inr \<lparr>sd_Name = v0, sd_Agent = v1, sd_Depth = v2, sd_Version = v3, sd_Mode = v4,
       sd_Provider = v5, sd_Label = v6, sd_AgentProvider = v7, sd_AgentModel = v8,
       sd_Persona = v9, sd_ToolFilterAllow = v10, sd_ToolFilterDeny = v11\<rparr>)))))))))))))"

definition ok_SubagentDescriptorFact :: "SubagentDescriptorFact \<Rightarrow> bool" where
  "ok_SubagentDescriptorFact x \<longleftrightarrow> in_i64 (sd_Depth x) \<and> in_i64 (sd_Version x)"

definition members_AgentPresetFact :: "AgentPresetFact \<Rightarrow> members" where
  "members_AgentPresetFact x =
     m_str ''preset'' (apf_Preset x)"

definition enc_AgentPresetFact :: "AgentPresetFact \<Rightarrow> json" where
  "enc_AgentPresetFact x = JObj (members_AgentPresetFact x)"

definition dec_AgentPresetFact :: "json \<Rightarrow> jsonError + AgentPresetFact" where
  "dec_AgentPresetFact = d_struct (\<lambda>ms.
     bindE (u_str ''preset'' [] ms) (\<lambda>v0.
     Inr \<lparr>apf_Preset = v0\<rparr>))"

definition ok_AgentPresetFact :: "AgentPresetFact \<Rightarrow> bool" where
  "ok_AgentPresetFact x \<longleftrightarrow> True"

definition members_AgentInboxSpliceFact :: "AgentInboxSpliceFact \<Rightarrow> members" where
  "members_AgentInboxSpliceFact x =
     m_int ''count'' (ais_Count x) @
     m_int ''position'' (ais_Position x)"

definition enc_AgentInboxSpliceFact :: "AgentInboxSpliceFact \<Rightarrow> json" where
  "enc_AgentInboxSpliceFact x = JObj (members_AgentInboxSpliceFact x)"

definition dec_AgentInboxSpliceFact :: "json \<Rightarrow> jsonError + AgentInboxSpliceFact" where
  "dec_AgentInboxSpliceFact = d_struct (\<lambda>ms.
     bindE (u_int ''count'' 0 ms) (\<lambda>v0.
     bindE (u_int ''position'' 0 ms) (\<lambda>v1.
     Inr \<lparr>ais_Count = v0, ais_Position = v1\<rparr>)))"

definition ok_AgentInboxSpliceFact :: "AgentInboxSpliceFact \<Rightarrow> bool" where
  "ok_AgentInboxSpliceFact x \<longleftrightarrow> in_i64 (ais_Count x) \<and> in_i64 (ais_Position x)"

definition members_CommandRunFact :: "CommandRunFact \<Rightarrow> members" where
  "members_CommandRunFact x =
     m_str ''command'' (cr_Command x) @
     m_str ''command_id'' (cr_CommandID x) @
     m_str ''name'' (cr_Name x) @
     m_str ''args'' (cr_Args x) @
     m_map ''source'' (cr_Source x)"

definition enc_CommandRunFact :: "CommandRunFact \<Rightarrow> json" where
  "enc_CommandRunFact x = JObj (members_CommandRunFact x)"

definition dec_CommandRunFact :: "json \<Rightarrow> jsonError + CommandRunFact" where
  "dec_CommandRunFact = d_struct (\<lambda>ms.
     bindE (u_str ''command'' [] ms) (\<lambda>v0.
     bindE (u_str ''command_id'' [] ms) (\<lambda>v1.
     bindE (u_str ''name'' [] ms) (\<lambda>v2.
     bindE (u_str ''args'' [] ms) (\<lambda>v3.
     bindE (u_field c_map ''source'' None ms) (\<lambda>v4.
     Inr \<lparr>cr_Command = v0, cr_CommandID = v1, cr_Name = v2, cr_Args = v3, cr_Source = v4\<rparr>))))))"

definition ok_CommandRunFact :: "CommandRunFact \<Rightarrow> bool" where
  "ok_CommandRunFact x \<longleftrightarrow> (cr_Source x) \<noteq> Some []"

definition members_CommandDoneFact :: "CommandDoneFact \<Rightarrow> members" where
  "members_CommandDoneFact x =
     m_str ''command'' (cd_Command x) @
     m_int ''exit_code'' (cd_ExitCode x) @
     m_str ''error'' (cd_Error x) @
     m_str ''command_id'' (cd_CommandID x) @
     m_str ''kind'' (cd_Kind x) @
     m_str ''text'' (cd_Text x) @
     m_u64 ''source_event_seq'' (cd_SourceEventSeq x)"

definition enc_CommandDoneFact :: "CommandDoneFact \<Rightarrow> json" where
  "enc_CommandDoneFact x = JObj (members_CommandDoneFact x)"

definition dec_CommandDoneFact :: "json \<Rightarrow> jsonError + CommandDoneFact" where
  "dec_CommandDoneFact = d_struct (\<lambda>ms.
     bindE (u_str ''command'' [] ms) (\<lambda>v0.
     bindE (u_int ''exit_code'' 0 ms) (\<lambda>v1.
     bindE (u_str ''error'' [] ms) (\<lambda>v2.
     bindE (u_str ''command_id'' [] ms) (\<lambda>v3.
     bindE (u_str ''kind'' [] ms) (\<lambda>v4.
     bindE (u_str ''text'' [] ms) (\<lambda>v5.
     bindE (u_u64 ''source_event_seq'' 0 ms) (\<lambda>v6.
     Inr \<lparr>cd_Command = v0, cd_ExitCode = v1, cd_Error = v2, cd_CommandID = v3, cd_Kind = v4,
       cd_Text = v5, cd_SourceEventSeq = v6\<rparr>))))))))"

definition ok_CommandDoneFact :: "CommandDoneFact \<Rightarrow> bool" where
  "ok_CommandDoneFact x \<longleftrightarrow> in_i64 (cd_ExitCode x)"

definition members_ToolWorkflowAgentFact :: "ToolWorkflowAgentFact \<Rightarrow> members" where
  "members_ToolWorkflowAgentFact x =
     m_str ''agent'' (twa_Agent x)"

definition enc_ToolWorkflowAgentFact :: "ToolWorkflowAgentFact \<Rightarrow> json" where
  "enc_ToolWorkflowAgentFact x = JObj (members_ToolWorkflowAgentFact x)"

definition dec_ToolWorkflowAgentFact :: "json \<Rightarrow> jsonError + ToolWorkflowAgentFact" where
  "dec_ToolWorkflowAgentFact = d_struct (\<lambda>ms.
     bindE (u_str ''agent'' [] ms) (\<lambda>v0.
     Inr \<lparr>twa_Agent = v0\<rparr>))"

definition ok_ToolWorkflowAgentFact :: "ToolWorkflowAgentFact \<Rightarrow> bool" where
  "ok_ToolWorkflowAgentFact x \<longleftrightarrow> True"

definition members_CodeDispatchFact :: "CodeDispatchFact \<Rightarrow> members" where
  "members_CodeDispatchFact x =
     m_str ''language'' (cdf_Language x)"

definition enc_CodeDispatchFact :: "CodeDispatchFact \<Rightarrow> json" where
  "enc_CodeDispatchFact x = JObj (members_CodeDispatchFact x)"

definition dec_CodeDispatchFact :: "json \<Rightarrow> jsonError + CodeDispatchFact" where
  "dec_CodeDispatchFact = d_struct (\<lambda>ms.
     bindE (u_str ''language'' [] ms) (\<lambda>v0.
     Inr \<lparr>cdf_Language = v0\<rparr>))"

definition ok_CodeDispatchFact :: "CodeDispatchFact \<Rightarrow> bool" where
  "ok_CodeDispatchFact x \<longleftrightarrow> True"

definition members_WebSearchFact :: "WebSearchFact \<Rightarrow> members" where
  "members_WebSearchFact x =
     m_str ''query'' (ws_Query x)"

definition enc_WebSearchFact :: "WebSearchFact \<Rightarrow> json" where
  "enc_WebSearchFact x = JObj (members_WebSearchFact x)"

definition dec_WebSearchFact :: "json \<Rightarrow> jsonError + WebSearchFact" where
  "dec_WebSearchFact = d_struct (\<lambda>ms.
     bindE (u_str ''query'' [] ms) (\<lambda>v0.
     Inr \<lparr>ws_Query = v0\<rparr>))"

definition ok_WebSearchFact :: "WebSearchFact \<Rightarrow> bool" where
  "ok_WebSearchFact x \<longleftrightarrow> True"

definition members_PlanModeFact :: "PlanModeFact \<Rightarrow> members" where
  "members_PlanModeFact x =
     m_bool1 ''active'' (pm_Active x)"

definition enc_PlanModeFact :: "PlanModeFact \<Rightarrow> json" where
  "enc_PlanModeFact x = JObj (members_PlanModeFact x)"

definition dec_PlanModeFact :: "json \<Rightarrow> jsonError + PlanModeFact" where
  "dec_PlanModeFact = d_struct (\<lambda>ms.
     bindE (u_bool ''active'' False ms) (\<lambda>v0.
     Inr \<lparr>pm_Active = v0\<rparr>))"

definition ok_PlanModeFact :: "PlanModeFact \<Rightarrow> bool" where
  "ok_PlanModeFact x \<longleftrightarrow> True"

definition members_ScheduleCreateFact :: "ScheduleCreateFact \<Rightarrow> members" where
  "members_ScheduleCreateFact x =
     m_str1 ''id'' (scr_ID x) @
     m_str1 ''prompt'' (scr_Prompt x) @
     m_time1 ''due_at'' (scr_DueAt x) @
     m_str ''interval'' (scr_Interval x) @
     m_bool ''recurring'' (scr_Recurring x)"

definition enc_ScheduleCreateFact :: "ScheduleCreateFact \<Rightarrow> json" where
  "enc_ScheduleCreateFact x = JObj (members_ScheduleCreateFact x)"

definition dec_ScheduleCreateFact :: "json \<Rightarrow> jsonError + ScheduleCreateFact" where
  "dec_ScheduleCreateFact = d_struct (\<lambda>ms.
     bindE (u_str ''id'' [] ms) (\<lambda>v0.
     bindE (u_str ''prompt'' [] ms) (\<lambda>v1.
     bindE (u_time ''due_at'' 0 ms) (\<lambda>v2.
     bindE (u_str ''interval'' [] ms) (\<lambda>v3.
     bindE (u_bool ''recurring'' False ms) (\<lambda>v4.
     Inr \<lparr>scr_ID = v0, scr_Prompt = v1, scr_DueAt = v2, scr_Interval = v3,
       scr_Recurring = v4\<rparr>))))))"

definition ok_ScheduleCreateFact :: "ScheduleCreateFact \<Rightarrow> bool" where
  "ok_ScheduleCreateFact x \<longleftrightarrow> True"

definition members_ScheduleUpdateFact :: "ScheduleUpdateFact \<Rightarrow> members" where
  "members_ScheduleUpdateFact x =
     m_str1 ''id'' (su_ID x) @
     m_opt JStr ''prompt'' (su_Prompt x) @
     m_opt JTime ''due_at'' (su_DueAt x)"

definition enc_ScheduleUpdateFact :: "ScheduleUpdateFact \<Rightarrow> json" where
  "enc_ScheduleUpdateFact x = JObj (members_ScheduleUpdateFact x)"

definition dec_ScheduleUpdateFact :: "json \<Rightarrow> jsonError + ScheduleUpdateFact" where
  "dec_ScheduleUpdateFact = d_struct (\<lambda>ms.
     bindE (u_str ''id'' [] ms) (\<lambda>v0.
     bindE (u_field (c_opt (d_scalar c_str [])) ''prompt'' None ms) (\<lambda>v1.
     bindE (u_field (c_opt (d_scalar c_time 0)) ''due_at'' None ms) (\<lambda>v2.
     Inr \<lparr>su_ID = v0, su_Prompt = v1, su_DueAt = v2\<rparr>))))"

definition ok_ScheduleUpdateFact :: "ScheduleUpdateFact \<Rightarrow> bool" where
  "ok_ScheduleUpdateFact x \<longleftrightarrow> True"

definition members_ScheduleDeleteFact :: "ScheduleDeleteFact \<Rightarrow> members" where
  "members_ScheduleDeleteFact x =
     m_str1 ''id'' (sdl_ID x) @
     m_str ''reason'' (sdl_Reason x)"

definition enc_ScheduleDeleteFact :: "ScheduleDeleteFact \<Rightarrow> json" where
  "enc_ScheduleDeleteFact x = JObj (members_ScheduleDeleteFact x)"

definition dec_ScheduleDeleteFact :: "json \<Rightarrow> jsonError + ScheduleDeleteFact" where
  "dec_ScheduleDeleteFact = d_struct (\<lambda>ms.
     bindE (u_str ''id'' [] ms) (\<lambda>v0.
     bindE (u_str ''reason'' [] ms) (\<lambda>v1.
     Inr \<lparr>sdl_ID = v0, sdl_Reason = v1\<rparr>)))"

definition ok_ScheduleDeleteFact :: "ScheduleDeleteFact \<Rightarrow> bool" where
  "ok_ScheduleDeleteFact x \<longleftrightarrow> True"

definition members_ScheduleDueFact :: "ScheduleDueFact \<Rightarrow> members" where
  "members_ScheduleDueFact x =
     m_str1 ''id'' (sdu_ID x) @
     m_time1 ''delivered_at'' (sdu_DeliveredAt x) @
     m_opt JTime ''next_due_at'' (sdu_NextDueAt x)"

definition enc_ScheduleDueFact :: "ScheduleDueFact \<Rightarrow> json" where
  "enc_ScheduleDueFact x = JObj (members_ScheduleDueFact x)"

definition dec_ScheduleDueFact :: "json \<Rightarrow> jsonError + ScheduleDueFact" where
  "dec_ScheduleDueFact = d_struct (\<lambda>ms.
     bindE (u_str ''id'' [] ms) (\<lambda>v0.
     bindE (u_time ''delivered_at'' 0 ms) (\<lambda>v1.
     bindE (u_field (c_opt (d_scalar c_time 0)) ''next_due_at'' None ms) (\<lambda>v2.
     Inr \<lparr>sdu_ID = v0, sdu_DeliveredAt = v1, sdu_NextDueAt = v2\<rparr>))))"

definition ok_ScheduleDueFact :: "ScheduleDueFact \<Rightarrow> bool" where
  "ok_ScheduleDueFact x \<longleftrightarrow> True"

section \<open>Round trips\<close>

lemma scalar_rt:
  "u_field (c_opt (d_scalar c_str [])) k None (m_opt JStr k p) = Inr p"
  "u_field (c_opt (d_scalar c_time 0)) k None (m_opt JTime k t) = Inr t"
  "pred_option in_i64 n \<Longrightarrow> u_field (c_opt (d_scalar c_int 0)) k None (m_opt JNum k n) = Inr n"
  "u_field (c_arr (d_scalar c_str [])) k [] (m_arr JStr k xs) = Inr xs"
  "u_field (c_arr (d_scalar c_u64 0)) k [] (m_arr (\<lambda>w. JNum (uint w)) k ws) = Inr ws"
  by (rule u_opt_same; simp add: json_rt; fail | rule u_arr_same; simp add: json_rt; fail
      | cases t; simp add: m_opt_def c_opt_def d_scalar_def; fail)+

lemma key_lower [json_rt]:
  "ToLower ''active'' = ''active''"
  "ToLower ''added'' = ''added''"
  "ToLower ''agent'' = ''agent''"
  "ToLower ''agent_model'' = ''agent_model''"
  "ToLower ''agent_preset'' = ''agent_preset''"
  "ToLower ''agent_provider'' = ''agent_provider''"
  "ToLower ''allowed'' = ''allowed''"
  "ToLower ''args'' = ''args''"
  "ToLower ''arguments'' = ''arguments''"
  "ToLower ''attempt'' = ''attempt''"
  "ToLower ''audio_data'' = ''audio_data''"
  "ToLower ''audio_format'' = ''audio_format''"
  "ToLower ''call_id'' = ''call_id''"
  "ToLower ''category'' = ''category''"
  "ToLower ''chunk'' = ''chunk''"
  "ToLower ''code'' = ''code''"
  "ToLower ''command'' = ''command''"
  "ToLower ''command_id'' = ''command_id''"
  "ToLower ''compaction_id'' = ''compaction_id''"
  "ToLower ''content'' = ''content''"
  "ToLower ''content_parts'' = ''content_parts''"
  "ToLower ''context_window'' = ''context_window''"
  "ToLower ''count'' = ''count''"
  "ToLower ''covered'' = ''covered''"
  "ToLower ''cron'' = ''cron''"
  "ToLower ''cwd'' = ''cwd''"
  "ToLower ''delegation_depth'' = ''delegation_depth''"
  "ToLower ''delivered_at'' = ''delivered_at''"
  "ToLower ''depth'' = ''depth''"
  "ToLower ''detail'' = ''detail''"
  "ToLower ''due_at'' = ''due_at''"
  "ToLower ''error'' = ''error''"
  "ToLower ''exit_code'' = ''exit_code''"
  "ToLower ''format_version'' = ''format_version''"
  "ToLower ''goal'' = ''goal''"
  "ToLower ''id'' = ''id''"
  "ToLower ''image_detail'' = ''image_detail''"
  "ToLower ''image_url'' = ''image_url''"
  "ToLower ''images'' = ''images''"
  "ToLower ''interval'' = ''interval''"
  "ToLower ''is_error'' = ''is_error''"
  "ToLower ''kind'' = ''kind''"
  "ToLower ''label'' = ''label''"
  "ToLower ''language'' = ''language''"
  "ToLower ''manual'' = ''manual''"
  "ToLower ''max_tokens'' = ''max_tokens''"
  "ToLower ''message'' = ''message''"
  "ToLower ''messages'' = ''messages''"
  "ToLower ''mode'' = ''mode''"
  "ToLower ''model'' = ''model''"
  "ToLower ''name'' = ''name''"
  "ToLower ''next_due_at'' = ''next_due_at''"
  "ToLower ''origin'' = ''origin''"
  "ToLower ''outcome'' = ''outcome''"
  "ToLower ''parent_session'' = ''parent_session''"
  "ToLower ''persona'' = ''persona''"
  "ToLower ''policy'' = ''policy''"
  "ToLower ''position'' = ''position''"
  "ToLower ''preset'' = ''preset''"
  "ToLower ''prompt'' = ''prompt''"
  "ToLower ''provider'' = ''provider''"
  "ToLower ''query'' = ''query''"
  "ToLower ''question'' = ''question''"
  "ToLower ''reason'' = ''reason''"
  "ToLower ''recurring'' = ''recurring''"
  "ToLower ''removed'' = ''removed''"
  "ToLower ''role'' = ''role''"
  "ToLower ''seed_length'' = ''seed_length''"
  "ToLower ''shadowed_range_end'' = ''shadowed_range_end''"
  "ToLower ''shadowed_range_start'' = ''shadowed_range_start''"
  "ToLower ''shadowed_seqs'' = ''shadowed_seqs''"
  "ToLower ''shadowed_token_count'' = ''shadowed_token_count''"
  "ToLower ''slug'' = ''slug''"
  "ToLower ''source'' = ''source''"
  "ToLower ''source_command_id'' = ''source_command_id''"
  "ToLower ''source_event_seq'' = ''source_event_seq''"
  "ToLower ''stage'' = ''stage''"
  "ToLower ''status'' = ''status''"
  "ToLower ''step'' = ''step''"
  "ToLower ''strategy'' = ''strategy''"
  "ToLower ''success'' = ''success''"
  "ToLower ''summary'' = ''summary''"
  "ToLower ''system'' = ''system''"
  "ToLower ''text'' = ''text''"
  "ToLower ''thinking'' = ''thinking''"
  "ToLower ''thumb'' = ''thumb''"
  "ToLower ''title'' = ''title''"
  "ToLower ''todos'' = ''todos''"
  "ToLower ''tokens_after'' = ''tokens_after''"
  "ToLower ''tokens_before'' = ''tokens_before''"
  "ToLower ''tool'' = ''tool''"
  "ToLower ''tool_filter_allow'' = ''tool_filter_allow''"
  "ToLower ''tool_filter_deny'' = ''tool_filter_deny''"
  "ToLower ''tool_results'' = ''tool_results''"
  "ToLower ''tool_use'' = ''tool_use''"
  "ToLower ''tool_use_id'' = ''tool_use_id''"
  "ToLower ''tools'' = ''tools''"
  "ToLower ''turn'' = ''turn''"
  "ToLower ''type'' = ''type''"
  "ToLower ''usage_completion_tokens'' = ''usage_completion_tokens''"
  "ToLower ''usage_prompt_tokens'' = ''usage_prompt_tokens''"
  "ToLower ''version'' = ''version''"
  by (simp_all add: ToLower_def lower_char_def)

lemma LlmFailure_dec_enc: "ok_LlmFailure x \<Longrightarrow> dec_LlmFailure (enc_LlmFailure x) = Inr x"
  by (simp add: enc_LlmFailure_def dec_LlmFailure_def ok_LlmFailure_def members_LlmFailure_def json_rt scalar_rt)

interpretation LlmFailure_rt: json_codec enc_LlmFailure dec_LlmFailure ok_LlmFailure
  by (unfold_locales, rule LlmFailure_dec_enc, assumption, simp add: enc_LlmFailure_def)

lemma TurnEndFact_dec_enc: "ok_TurnEndFact x \<Longrightarrow> dec_TurnEndFact (enc_TurnEndFact x) = Inr x"
  by (simp add: enc_TurnEndFact_def dec_TurnEndFact_def ok_TurnEndFact_def members_TurnEndFact_def json_rt scalar_rt LlmFailure_rt.list_rt LlmFailure_rt.opt_rt)

lemma Meta_dec_enc: "ok_Meta x \<Longrightarrow> dec_Meta (enc_Meta x) = Inr x"
  by (simp add: enc_Meta_def dec_Meta_def ok_Meta_def members_Meta_def json_rt scalar_rt)

lemma ContentPartPayload_dec_enc: "ok_ContentPartPayload x \<Longrightarrow> dec_ContentPartPayload (enc_ContentPartPayload x) = Inr x"
  by (simp add: enc_ContentPartPayload_def dec_ContentPartPayload_def ok_ContentPartPayload_def members_ContentPartPayload_def json_rt scalar_rt)

interpretation ContentPartPayload_rt: json_codec enc_ContentPartPayload dec_ContentPartPayload ok_ContentPartPayload
  by (unfold_locales, rule ContentPartPayload_dec_enc, assumption, simp add: enc_ContentPartPayload_def)

lemma ToolCallPayload_dec_enc: "ok_ToolCallPayload x \<Longrightarrow> dec_ToolCallPayload (enc_ToolCallPayload x) = Inr x"
  by (simp add: enc_ToolCallPayload_def dec_ToolCallPayload_def ok_ToolCallPayload_def members_ToolCallPayload_def json_rt scalar_rt)

interpretation ToolCallPayload_rt: json_codec enc_ToolCallPayload dec_ToolCallPayload ok_ToolCallPayload
  by (unfold_locales, rule ToolCallPayload_dec_enc, assumption, simp add: enc_ToolCallPayload_def)

lemma ToolResultPayload_dec_enc: "ok_ToolResultPayload x \<Longrightarrow> dec_ToolResultPayload (enc_ToolResultPayload x) = Inr x"
  by (simp add: enc_ToolResultPayload_def dec_ToolResultPayload_def ok_ToolResultPayload_def members_ToolResultPayload_def json_rt scalar_rt)

interpretation ToolResultPayload_rt: json_codec enc_ToolResultPayload dec_ToolResultPayload ok_ToolResultPayload
  by (unfold_locales, rule ToolResultPayload_dec_enc, assumption, simp add: enc_ToolResultPayload_def)

lemma Message_dec_enc: "ok_Message x \<Longrightarrow> dec_Message (enc_Message x) = Inr x"
  by (simp add: enc_Message_def dec_Message_def ok_Message_def members_Message_def json_rt scalar_rt ContentPartPayload_rt.list_rt ContentPartPayload_rt.opt_rt ToolCallPayload_rt.list_rt ToolCallPayload_rt.opt_rt ToolResultPayload_rt.list_rt ToolResultPayload_rt.opt_rt)

lemma SpecFact_dec_enc: "ok_SpecFact x \<Longrightarrow> dec_SpecFact (enc_SpecFact x) = Inr x"
  by (simp add: enc_SpecFact_def dec_SpecFact_def ok_SpecFact_def members_SpecFact_def json_rt scalar_rt)

lemma BoundaryFact_dec_enc: "ok_BoundaryFact x \<Longrightarrow> dec_BoundaryFact (enc_BoundaryFact x) = Inr x"
  by (simp add: enc_BoundaryFact_def dec_BoundaryFact_def ok_BoundaryFact_def members_BoundaryFact_def json_rt scalar_rt)

lemma ChunkFact_dec_enc: "ok_ChunkFact x \<Longrightarrow> dec_ChunkFact (enc_ChunkFact x) = Inr x"
  by (simp add: enc_ChunkFact_def dec_ChunkFact_def ok_ChunkFact_def members_ChunkFact_def json_rt scalar_rt)

lemma CompactionFact_dec_enc: "ok_CompactionFact x \<Longrightarrow> dec_CompactionFact (enc_CompactionFact x) = Inr x"
  by (simp add: enc_CompactionFact_def dec_CompactionFact_def ok_CompactionFact_def members_CompactionFact_def json_rt scalar_rt)

lemma ToolWorkflowBounds_dec_enc: "ok_ToolWorkflowBounds x \<Longrightarrow> dec_ToolWorkflowBounds (enc_ToolWorkflowBounds x) = Inr x"
  by (simp add: enc_ToolWorkflowBounds_def dec_ToolWorkflowBounds_def ok_ToolWorkflowBounds_def members_ToolWorkflowBounds_def json_rt scalar_rt)

lemma LLMRetryFact_dec_enc: "ok_LLMRetryFact x \<Longrightarrow> dec_LLMRetryFact (enc_LLMRetryFact x) = Inr x"
  by (simp add: enc_LLMRetryFact_def dec_LLMRetryFact_def ok_LLMRetryFact_def members_LLMRetryFact_def json_rt scalar_rt)

lemma RequestContextFact_dec_enc: "ok_RequestContextFact x \<Longrightarrow> dec_RequestContextFact (enc_RequestContextFact x) = Inr x"
  by (simp add: enc_RequestContextFact_def dec_RequestContextFact_def ok_RequestContextFact_def members_RequestContextFact_def json_rt scalar_rt)

lemma PermissionFact_dec_enc: "ok_PermissionFact x \<Longrightarrow> dec_PermissionFact (enc_PermissionFact x) = Inr x"
  by (simp add: enc_PermissionFact_def dec_PermissionFact_def ok_PermissionFact_def members_PermissionFact_def json_rt scalar_rt)

lemma ApprovalAskedFact_dec_enc: "ok_ApprovalAskedFact x \<Longrightarrow> dec_ApprovalAskedFact (enc_ApprovalAskedFact x) = Inr x"
  by (simp add: enc_ApprovalAskedFact_def dec_ApprovalAskedFact_def ok_ApprovalAskedFact_def members_ApprovalAskedFact_def json_rt scalar_rt)

lemma ApprovalDecidedFact_dec_enc: "ok_ApprovalDecidedFact x \<Longrightarrow> dec_ApprovalDecidedFact (enc_ApprovalDecidedFact x) = Inr x"
  by (simp add: enc_ApprovalDecidedFact_def dec_ApprovalDecidedFact_def ok_ApprovalDecidedFact_def members_ApprovalDecidedFact_def json_rt scalar_rt)

lemma ApprovalPolicyFact_dec_enc: "ok_ApprovalPolicyFact x \<Longrightarrow> dec_ApprovalPolicyFact (enc_ApprovalPolicyFact x) = Inr x"
  by (simp add: enc_ApprovalPolicyFact_def dec_ApprovalPolicyFact_def ok_ApprovalPolicyFact_def members_ApprovalPolicyFact_def json_rt scalar_rt)

lemma CompactionStartFact_dec_enc: "ok_CompactionStartFact x \<Longrightarrow> dec_CompactionStartFact (enc_CompactionStartFact x) = Inr x"
  by (simp add: enc_CompactionStartFact_def dec_CompactionStartFact_def ok_CompactionStartFact_def members_CompactionStartFact_def json_rt scalar_rt)

lemma CompactionPruneFact_dec_enc: "ok_CompactionPruneFact x \<Longrightarrow> dec_CompactionPruneFact (enc_CompactionPruneFact x) = Inr x"
  by (simp add: enc_CompactionPruneFact_def dec_CompactionPruneFact_def ok_CompactionPruneFact_def members_CompactionPruneFact_def json_rt scalar_rt)

lemma CompactionEndFact_dec_enc: "ok_CompactionEndFact x \<Longrightarrow> dec_CompactionEndFact (enc_CompactionEndFact x) = Inr x"
  by (simp add: enc_CompactionEndFact_def dec_CompactionEndFact_def ok_CompactionEndFact_def members_CompactionEndFact_def json_rt scalar_rt)

lemma CompactionSummaryFact_dec_enc: "ok_CompactionSummaryFact x \<Longrightarrow> dec_CompactionSummaryFact (enc_CompactionSummaryFact x) = Inr x"
  by (simp add: enc_CompactionSummaryFact_def dec_CompactionSummaryFact_def ok_CompactionSummaryFact_def members_CompactionSummaryFact_def json_rt scalar_rt)

lemma TodoItem_dec_enc: "ok_TodoItem x \<Longrightarrow> dec_TodoItem (enc_TodoItem x) = Inr x"
  by (simp add: enc_TodoItem_def dec_TodoItem_def ok_TodoItem_def members_TodoItem_def json_rt scalar_rt)

interpretation TodoItem_rt: json_codec enc_TodoItem dec_TodoItem ok_TodoItem
  by (unfold_locales, rule TodoItem_dec_enc, assumption, simp add: enc_TodoItem_def)

lemma TodoWriteFact_dec_enc: "ok_TodoWriteFact x \<Longrightarrow> dec_TodoWriteFact (enc_TodoWriteFact x) = Inr x"
  by (simp add: enc_TodoWriteFact_def dec_TodoWriteFact_def ok_TodoWriteFact_def members_TodoWriteFact_def json_rt scalar_rt TodoItem_rt.list_rt TodoItem_rt.opt_rt)

lemma ContextInjectedFact_dec_enc: "ok_ContextInjectedFact x \<Longrightarrow> dec_ContextInjectedFact (enc_ContextInjectedFact x) = Inr x"
  by (simp add: enc_ContextInjectedFact_def dec_ContextInjectedFact_def ok_ContextInjectedFact_def members_ContextInjectedFact_def json_rt scalar_rt)

lemma RequestHeaderFact_dec_enc: "ok_RequestHeaderFact x \<Longrightarrow> dec_RequestHeaderFact (enc_RequestHeaderFact x) = Inr x"
  by (simp add: enc_RequestHeaderFact_def dec_RequestHeaderFact_def ok_RequestHeaderFact_def members_RequestHeaderFact_def json_rt scalar_rt)

lemma HookInvokedFact_dec_enc: "ok_HookInvokedFact x \<Longrightarrow> dec_HookInvokedFact (enc_HookInvokedFact x) = Inr x"
  by (simp add: enc_HookInvokedFact_def dec_HookInvokedFact_def ok_HookInvokedFact_def members_HookInvokedFact_def json_rt scalar_rt)

lemma HookResultFact_dec_enc: "ok_HookResultFact x \<Longrightarrow> dec_HookResultFact (enc_HookResultFact x) = Inr x"
  by (simp add: enc_HookResultFact_def dec_HookResultFact_def ok_HookResultFact_def members_HookResultFact_def json_rt scalar_rt)

lemma FeedbackFact_dec_enc: "ok_FeedbackFact x \<Longrightarrow> dec_FeedbackFact (enc_FeedbackFact x) = Inr x"
  by (simp add: enc_FeedbackFact_def dec_FeedbackFact_def ok_FeedbackFact_def members_FeedbackFact_def json_rt scalar_rt)

lemma GoalChangeFact_dec_enc: "ok_GoalChangeFact x \<Longrightarrow> dec_GoalChangeFact (enc_GoalChangeFact x) = Inr x"
  by (simp add: enc_GoalChangeFact_def dec_GoalChangeFact_def ok_GoalChangeFact_def members_GoalChangeFact_def json_rt scalar_rt)

lemma PermissionPresetFact_dec_enc: "ok_PermissionPresetFact x \<Longrightarrow> dec_PermissionPresetFact (enc_PermissionPresetFact x) = Inr x"
  by (simp add: enc_PermissionPresetFact_def dec_PermissionPresetFact_def ok_PermissionPresetFact_def members_PermissionPresetFact_def json_rt scalar_rt)

lemma SandboxModeFact_dec_enc: "ok_SandboxModeFact x \<Longrightarrow> dec_SandboxModeFact (enc_SandboxModeFact x) = Inr x"
  by (simp add: enc_SandboxModeFact_def dec_SandboxModeFact_def ok_SandboxModeFact_def members_SandboxModeFact_def json_rt scalar_rt)

lemma ScheduleChangeFact_dec_enc: "ok_ScheduleChangeFact x \<Longrightarrow> dec_ScheduleChangeFact (enc_ScheduleChangeFact x) = Inr x"
  by (simp add: enc_ScheduleChangeFact_def dec_ScheduleChangeFact_def ok_ScheduleChangeFact_def members_ScheduleChangeFact_def json_rt scalar_rt)

lemma SessionTitleFact_dec_enc: "ok_SessionTitleFact x \<Longrightarrow> dec_SessionTitleFact (enc_SessionTitleFact x) = Inr x"
  by (simp add: enc_SessionTitleFact_def dec_SessionTitleFact_def ok_SessionTitleFact_def members_SessionTitleFact_def json_rt scalar_rt)

lemma SessionTitleLLMRequestFact_dec_enc: "ok_SessionTitleLLMRequestFact x \<Longrightarrow> dec_SessionTitleLLMRequestFact (enc_SessionTitleLLMRequestFact x) = Inr x"
  by (simp add: enc_SessionTitleLLMRequestFact_def dec_SessionTitleLLMRequestFact_def ok_SessionTitleLLMRequestFact_def members_SessionTitleLLMRequestFact_def json_rt scalar_rt)

lemma SubagentDescriptorFact_dec_enc: "ok_SubagentDescriptorFact x \<Longrightarrow> dec_SubagentDescriptorFact (enc_SubagentDescriptorFact x) = Inr x"
  by (simp add: enc_SubagentDescriptorFact_def dec_SubagentDescriptorFact_def ok_SubagentDescriptorFact_def members_SubagentDescriptorFact_def json_rt scalar_rt)

lemma AgentPresetFact_dec_enc: "ok_AgentPresetFact x \<Longrightarrow> dec_AgentPresetFact (enc_AgentPresetFact x) = Inr x"
  by (simp add: enc_AgentPresetFact_def dec_AgentPresetFact_def ok_AgentPresetFact_def members_AgentPresetFact_def json_rt scalar_rt)

lemma AgentInboxSpliceFact_dec_enc: "ok_AgentInboxSpliceFact x \<Longrightarrow> dec_AgentInboxSpliceFact (enc_AgentInboxSpliceFact x) = Inr x"
  by (simp add: enc_AgentInboxSpliceFact_def dec_AgentInboxSpliceFact_def ok_AgentInboxSpliceFact_def members_AgentInboxSpliceFact_def json_rt scalar_rt)

lemma CommandRunFact_dec_enc: "ok_CommandRunFact x \<Longrightarrow> dec_CommandRunFact (enc_CommandRunFact x) = Inr x"
  by (simp add: enc_CommandRunFact_def dec_CommandRunFact_def ok_CommandRunFact_def members_CommandRunFact_def json_rt scalar_rt)

lemma CommandDoneFact_dec_enc: "ok_CommandDoneFact x \<Longrightarrow> dec_CommandDoneFact (enc_CommandDoneFact x) = Inr x"
  by (simp add: enc_CommandDoneFact_def dec_CommandDoneFact_def ok_CommandDoneFact_def members_CommandDoneFact_def json_rt scalar_rt)

lemma ToolWorkflowAgentFact_dec_enc: "ok_ToolWorkflowAgentFact x \<Longrightarrow> dec_ToolWorkflowAgentFact (enc_ToolWorkflowAgentFact x) = Inr x"
  by (simp add: enc_ToolWorkflowAgentFact_def dec_ToolWorkflowAgentFact_def ok_ToolWorkflowAgentFact_def members_ToolWorkflowAgentFact_def json_rt scalar_rt)

lemma CodeDispatchFact_dec_enc: "ok_CodeDispatchFact x \<Longrightarrow> dec_CodeDispatchFact (enc_CodeDispatchFact x) = Inr x"
  by (simp add: enc_CodeDispatchFact_def dec_CodeDispatchFact_def ok_CodeDispatchFact_def members_CodeDispatchFact_def json_rt scalar_rt)

lemma WebSearchFact_dec_enc: "ok_WebSearchFact x \<Longrightarrow> dec_WebSearchFact (enc_WebSearchFact x) = Inr x"
  by (simp add: enc_WebSearchFact_def dec_WebSearchFact_def ok_WebSearchFact_def members_WebSearchFact_def json_rt scalar_rt)

lemma PlanModeFact_dec_enc: "ok_PlanModeFact x \<Longrightarrow> dec_PlanModeFact (enc_PlanModeFact x) = Inr x"
  by (simp add: enc_PlanModeFact_def dec_PlanModeFact_def ok_PlanModeFact_def members_PlanModeFact_def json_rt scalar_rt)

lemma ScheduleCreateFact_dec_enc: "ok_ScheduleCreateFact x \<Longrightarrow> dec_ScheduleCreateFact (enc_ScheduleCreateFact x) = Inr x"
  by (simp add: enc_ScheduleCreateFact_def dec_ScheduleCreateFact_def ok_ScheduleCreateFact_def members_ScheduleCreateFact_def json_rt scalar_rt)

lemma ScheduleUpdateFact_dec_enc: "ok_ScheduleUpdateFact x \<Longrightarrow> dec_ScheduleUpdateFact (enc_ScheduleUpdateFact x) = Inr x"
  by (simp add: enc_ScheduleUpdateFact_def dec_ScheduleUpdateFact_def ok_ScheduleUpdateFact_def members_ScheduleUpdateFact_def json_rt scalar_rt)

lemma ScheduleDeleteFact_dec_enc: "ok_ScheduleDeleteFact x \<Longrightarrow> dec_ScheduleDeleteFact (enc_ScheduleDeleteFact x) = Inr x"
  by (simp add: enc_ScheduleDeleteFact_def dec_ScheduleDeleteFact_def ok_ScheduleDeleteFact_def members_ScheduleDeleteFact_def json_rt scalar_rt)

lemma ScheduleDueFact_dec_enc: "ok_ScheduleDueFact x \<Longrightarrow> dec_ScheduleDueFact (enc_ScheduleDueFact x) = Inr x"
  by (simp add: enc_ScheduleDueFact_def dec_ScheduleDueFact_def ok_ScheduleDueFact_def members_ScheduleDueFact_def json_rt scalar_rt)

end
