(* ===== verification/Event_Invariants.thy ===== *)
theory Event_Invariants
  imports Event_Log
begin

text \<open>
  The validators of \<open>invariants.go\<close>: \<open>Validate\<close>, the structural check of a log that was read back, and
  \<open>ValidateRelations\<close>, the check of turn and step nesting and of tool call and result pairing.
  An error carries the index of the offending event, as the messages do.
\<close>

section \<open>Validate\<close>

datatype validateError =
    ErrUnknownType etype
  | ErrForeignFormatVersion int
  | ErrInvalidSandboxMode string string
  | ErrInvalidSurfaceOp string
  | ErrNonSurfaceMarker etype
  | ErrNotMonotonic u64 u64

definition checkMeta :: "Event \<Rightarrow> validateError option" where
  "checkMeta ev =
     (if ev_Type ev = SessionMeta then
        (case as_Meta (ev_Data ev) of
           Some meta \<Rightarrow>
             if mt_FormatVersion meta \<noteq> 0 \<and> mt_FormatVersion meta \<noteq> SessionFormatVersion
             then Some (ErrForeignFormatVersion (mt_FormatVersion meta)) else None
         | None \<Rightarrow> None)
      else None)"

definition checkSandboxMode :: "Event \<Rightarrow> validateError option" where
  "checkSandboxMode ev =
     (if ev_Type ev = SandboxMode then
        (case as_SandboxMode (ev_Data ev) of
           Some f \<Rightarrow>
             if \<not> SandboxModeFact_Valid f then Some (ErrInvalidSandboxMode (sm_Mode f) (sm_Source f))
             else None
         | None \<Rightarrow> None)
      else None)"

definition checkMarker :: "Event \<Rightarrow> validateError option" where
  "checkMarker ev =
     (if IsSurfaceEligible (ev_Type ev) then
        (case ev_SurfaceOp ev of
           Some op \<Rightarrow> if so_Op op \<noteq> ''append'' \<and> so_Op op \<noteq> ''replace''
                      then Some (ErrInvalidSurfaceOp (so_Op op)) else None
         | None \<Rightarrow> None)
      else if ev_SurfaceOp ev \<noteq> None then Some (ErrNonSurfaceMarker (ev_Type ev)) else None)"

text \<open>The body of the loop: the first check that fails.\<close>

definition validateEvent :: "nat \<Rightarrow> u64 \<Rightarrow> Event \<Rightarrow> validateError option" where
  "validateEvent i prev ev =
     (if \<not> Known (ev_Type ev) then Some (ErrUnknownType (ev_Type ev))
      else case checkMeta ev of Some e \<Rightarrow> Some e
      | None \<Rightarrow> (case checkSandboxMode ev of Some e \<Rightarrow> Some e
      | None \<Rightarrow> (case checkMarker ev of Some e \<Rightarrow> Some e
      | None \<Rightarrow>
          if i > 0 \<and> ev_Seq ev \<le> prev then Some (ErrNotMonotonic (ev_Seq ev) prev) else None)))"

fun validate_from :: "nat \<Rightarrow> u64 \<Rightarrow> Event list \<Rightarrow> (nat \<times> validateError) option" where
  "validate_from i prev [] = None"
| "validate_from i prev (ev # evs) =
     (case validateEvent i prev ev of
        Some e \<Rightarrow> Some (i, e)
      | None \<Rightarrow> validate_from (Suc i) (ev_Seq ev) evs)"

definition Validate :: "Event list \<Rightarrow> (nat \<times> validateError) option" where
  "Validate events = validate_from 0 0 events"

section \<open>ValidateRelations\<close>

record relationalTrace =
  rt_lastSeq :: u64
  rt_openTurn :: int
  rt_openStep :: int
  rt_nextTurn :: u64
  rt_nextStep :: u64
  rt_pendingCalls :: "string set"

datatype relationError =
    ErrSeqOrder u64 u64
  | ErrWrongPayload etype
  | ErrTurnStillOpen int int
  | ErrTurnNumber u64 int
  | ErrTurnMismatch etype int int
  | ErrStepStillOpen etype int int
  | ErrStepNumber u64 int
  | ErrStepMismatch etype int int
  | ErrUnpairedResult string
  | ErrOutsideTurn etype

definition initTrace :: relationalTrace where
  "initTrace = \<lparr>rt_lastSeq = 0, rt_openTurn = 0, rt_openStep = 0, rt_nextTurn = 1, rt_nextStep = 1,
     rt_pendingCalls = {}\<rparr>"

text \<open>The coordinate check that the four kinds of model output share.\<close>

definition checkCoords :: "relationalTrace \<Rightarrow> etype \<Rightarrow> int \<Rightarrow> int \<Rightarrow> relationError + unit" where
  "checkCoords tr t turn step =
     (if rt_openTurn tr \<noteq> turn then Inl (ErrTurnMismatch t turn (rt_openTurn tr))
      else if rt_openStep tr \<noteq> step then Inl (ErrStepMismatch t step (rt_openStep tr))
      else Inr ())"

definition onTurnStart :: "relationalTrace \<Rightarrow> Event \<Rightarrow> relationError + relationalTrace" where
  "onTurnStart tr ev = (case as_Boundary (ev_Data ev) of
     Some f \<Rightarrow>
       if rt_openTurn tr \<noteq> 0 then Inl (ErrTurnStillOpen (bf_Turn f) (rt_openTurn tr))
       else if word_of_int (bf_Turn f) \<noteq> rt_nextTurn tr then Inl (ErrTurnNumber (rt_nextTurn tr) (bf_Turn f))
       else Inr (tr\<lparr>rt_openTurn := bf_Turn f, rt_nextStep := 1\<rparr>)
   | None \<Rightarrow> Inl (ErrWrongPayload TurnStart))"

definition onTurnEnd :: "relationalTrace \<Rightarrow> Event \<Rightarrow> relationError + relationalTrace" where
  "onTurnEnd tr ev = (case as_TurnEnd (ev_Data ev) of
     Some f \<Rightarrow>
       if rt_openTurn tr \<noteq> te_Turn f then Inl (ErrTurnMismatch TurnEnd (te_Turn f) (rt_openTurn tr))
       else if rt_openStep tr \<noteq> 0 then Inl (ErrStepStillOpen TurnEnd (te_Turn f) (rt_openStep tr))
       else Inr (tr\<lparr>rt_openTurn := 0, rt_nextTurn := rt_nextTurn tr + 1\<rparr>)
   | None \<Rightarrow> Inl (ErrWrongPayload TurnEnd))"

definition onStepStart :: "relationalTrace \<Rightarrow> Event \<Rightarrow> relationError + relationalTrace" where
  "onStepStart tr ev = (case as_Boundary (ev_Data ev) of
     Some f \<Rightarrow>
       if rt_openTurn tr \<noteq> bf_Turn f then Inl (ErrTurnMismatch StepStart (bf_Turn f) (rt_openTurn tr))
       else if rt_openStep tr \<noteq> 0 then Inl (ErrStepStillOpen StepStart (bf_Step f) (rt_openStep tr))
       else if word_of_int (bf_Step f) \<noteq> rt_nextStep tr then Inl (ErrStepNumber (rt_nextStep tr) (bf_Step f))
       else Inr (tr\<lparr>rt_openStep := bf_Step f, rt_pendingCalls := {}\<rparr>)
   | None \<Rightarrow> Inl (ErrWrongPayload StepStart))"

definition onStepEnd :: "relationalTrace \<Rightarrow> Event \<Rightarrow> relationError + relationalTrace" where
  "onStepEnd tr ev = (case as_Boundary (ev_Data ev) of
     Some f \<Rightarrow>
       bindE (checkCoords tr StepEnd (bf_Turn f) (bf_Step f)) (\<lambda>_.
       Inr (tr\<lparr>rt_pendingCalls := {}, rt_openStep := 0, rt_nextStep := rt_nextStep tr + 1\<rparr>))
   | None \<Rightarrow> Inl (ErrWrongPayload StepEnd))"

definition onAssistantChunk :: "relationalTrace \<Rightarrow> Event \<Rightarrow> relationError + relationalTrace" where
  "onAssistantChunk tr ev = (case as_Chunk (ev_Data ev) of
     Some f \<Rightarrow> bindE (checkCoords tr AssistantChunk (ck_Turn f) (ck_Step f)) (\<lambda>_. Inr tr)
   | None \<Rightarrow> Inl (ErrWrongPayload AssistantChunk))"

definition onAssistantMsg :: "relationalTrace \<Rightarrow> Event \<Rightarrow> relationError + relationalTrace" where
  "onAssistantMsg tr ev = (case as_Message (ev_Data ev) of
     Some f \<Rightarrow> bindE (checkCoords tr AssistantMsg (msg_Turn f) (msg_Step f)) (\<lambda>_. Inr tr)
   | None \<Rightarrow> Inl (ErrWrongPayload AssistantMsg))"

definition onToolCall :: "relationalTrace \<Rightarrow> Event \<Rightarrow> relationError + relationalTrace" where
  "onToolCall tr ev = (case as_ToolCall (ev_Data ev) of
     Some f \<Rightarrow> bindE (checkCoords tr ToolCall (tc_Turn f) (tc_Step f)) (\<lambda>_.
       Inr (if tc_ID f \<noteq> [] then tr\<lparr>rt_pendingCalls := insert (tc_ID f) (rt_pendingCalls tr)\<rparr> else tr))
   | None \<Rightarrow> Inl (ErrWrongPayload ToolCall))"

definition onToolResult :: "relationalTrace \<Rightarrow> Event \<Rightarrow> relationError + relationalTrace" where
  "onToolResult tr ev =
     (if is_replace ev then Inr tr
      else case as_ToolResult (ev_Data ev) of
     Some f \<Rightarrow> bindE (checkCoords tr ToolResult (tr_Turn f) (tr_Step f)) (\<lambda>_.
          let callID = tr_ToolUseID f in
          if callID \<noteq> [] \<and> callID \<notin> rt_pendingCalls tr
          then (if tr_IsError f \<and> tr_ToolUseID f = [] then Inr tr else Inl (ErrUnpairedResult callID))
          else Inr (if callID \<noteq> [] then tr\<lparr>rt_pendingCalls := rt_pendingCalls tr - {callID}\<rparr> else tr))
      | None \<Rightarrow> Inl (ErrWrongPayload ToolResult))"

definition onEnclosed :: "relationalTrace \<Rightarrow> Event \<Rightarrow> relationError + relationalTrace" where
  "onEnclosed tr ev = (if rt_openTurn tr = 0 then Inl (ErrOutsideTurn (ev_Type ev)) else Inr tr)"

definition relateEvent :: "relationalTrace \<Rightarrow> Event \<Rightarrow> relationError + relationalTrace" where
  "relateEvent tr ev =
     (if ev_Seq ev \<le> rt_lastSeq tr then Inl (ErrSeqOrder (ev_Seq ev) (rt_lastSeq tr))
      else let tr = tr\<lparr>rt_lastSeq := ev_Seq ev\<rparr> in
        (case ev_Type ev of
           TurnStart \<Rightarrow> onTurnStart tr ev
         | TurnEnd \<Rightarrow> onTurnEnd tr ev
         | StepStart \<Rightarrow> onStepStart tr ev
         | StepEnd \<Rightarrow> onStepEnd tr ev
         | AssistantChunk \<Rightarrow> onAssistantChunk tr ev
         | AssistantMsg \<Rightarrow> onAssistantMsg tr ev
         | ToolCall \<Rightarrow> onToolCall tr ev
         | ToolResult \<Rightarrow> onToolResult tr ev
         | TodoWrite \<Rightarrow> onEnclosed tr ev
         | RequestHeader \<Rightarrow> onEnclosed tr ev
         | RequestContext \<Rightarrow> onEnclosed tr ev
         | _ \<Rightarrow> Inr tr))"

definition relate_step ::
    "nat \<times> relationalTrace \<Rightarrow> Event \<Rightarrow> (nat \<times> relationError) + (nat \<times> relationalTrace)" where
  "relate_step s ev = map_sum (Pair (fst s)) (Pair (Suc (fst s))) (relateEvent (snd s) ev)"

definition ValidateRelations :: "Event list \<Rightarrow> (nat \<times> relationError) option" where
  "ValidateRelations events = (case run relate_step (0, initTrace) events of
     Inl e \<Rightarrow> Some e | Inr _ \<Rightarrow> None)"

section \<open>What Validate accepts\<close>

text \<open>The conditions on a single event, in declarative form.\<close>

definition event_ok :: "Event \<Rightarrow> bool" where
  "event_ok ev \<longleftrightarrow>
     Known (ev_Type ev)
     \<and> (\<forall>m. ev_Type ev = SessionMeta \<and> ev_Data ev = DMeta m \<longrightarrow> mt_FormatVersion m \<in> {0, SessionFormatVersion})
     \<and> (\<forall>f. ev_Type ev = SandboxMode \<and> ev_Data ev = DSandboxMode f \<longrightarrow> SandboxModeFact_Valid f)
     \<and> (\<forall>op. ev_SurfaceOp ev = Some op \<longrightarrow>
          IsSurfaceEligible (ev_Type ev) \<and> so_Op op \<in> {SurfaceOpAppend, SurfaceOpReplace})"

lemma check_None:
  "checkMeta ev = None \<longleftrightarrow>
     (\<forall>m. ev_Type ev = SessionMeta \<and> ev_Data ev = DMeta m \<longrightarrow> mt_FormatVersion m \<in> {0, SessionFormatVersion})"
  "checkSandboxMode ev = None \<longleftrightarrow>
     (\<forall>f. ev_Type ev = SandboxMode \<and> ev_Data ev = DSandboxMode f \<longrightarrow> SandboxModeFact_Valid f)"
  "checkMarker ev = None \<longleftrightarrow> (\<forall>op. ev_SurfaceOp ev = Some op \<longrightarrow>
     IsSurfaceEligible (ev_Type ev) \<and> so_Op op \<in> {SurfaceOpAppend, SurfaceOpReplace})"
    apply (force simp: checkMeta_def split: option.splits)
   apply (force simp: checkSandboxMode_def split: option.splits)
  apply (auto simp: checkMarker_def SurfaceOpAppend_def SurfaceOpReplace_def split: option.splits)
  done

lemma validateEvent_None:
  "validateEvent i prev ev = None \<longleftrightarrow> event_ok ev \<and> (i = 0 \<or> prev < ev_Seq ev)"
  unfolding event_ok_def check_None [symmetric]
  by (auto simp: validateEvent_def not_le split: option.splits)

lemma validate_from_None:
  "validate_from i prev evs = None \<longleftrightarrow>
     (\<forall>e \<in> set evs. event_ok e) \<and> sorted_wrt (\<lambda>a b. ev_Seq a < ev_Seq b) evs
     \<and> (i = 0 \<or> (\<forall>e \<in> set evs. prev < ev_Seq e))"
proof (induction i prev evs rule: validate_from.induct)
  case (2 i prev ev evs)
  show ?case
  proof (cases "validateEvent i prev ev")
    case None
    then have "event_ok ev" "i = 0 \<or> prev < ev_Seq ev" by (simp_all add: validateEvent_None)
    with 2 None show ?thesis by (auto intro: less_trans)
  next
    case (Some e)
    then have "\<not> (event_ok ev \<and> (i = 0 \<or> prev < ev_Seq ev))"
      by (metis option.distinct(1) validateEvent_None)
    with Some show ?thesis by auto
  qed
qed simp

text \<open>
  \<open>Validate\<close> accepts exactly the logs whose kinds are all in the vocabulary, whose format version is
  this build's (or unset), whose sandbox modes are valid, whose surface markers are append or
  replace on eligible events only, and whose sequence numbers strictly increase.
\<close>

theorem validate_exact:
  "Validate events = None \<longleftrightarrow>
     (\<forall>ev \<in> set events. event_ok ev) \<and> sorted_wrt (\<lambda>a b. ev_Seq a < ev_Seq b) events"
  by (simp add: Validate_def validate_from_None)

theorem validate_exact_witness:
  "Validate [\<lparr>ev_Type = PlanMode, ev_Seq = 4, ev_At = 0, ev_Data = DNil, ev_Ignorable = False,
      ev_SurfaceOp = None, ev_SourceEventSeqs = None\<rparr>] = None"
  unfolding validate_exact by (simp add: event_ok_def Known_iff)

section \<open>Nesting of turns and steps\<close>

datatype mark = MTurnStart int | MTurnEnd int | MStepStart int int | MStepEnd int int

definition mark_of :: "Event \<Rightarrow> mark option" where
  "mark_of ev = (case ev_Type ev of
     TurnStart \<Rightarrow> map_option (\<lambda>f. MTurnStart (bf_Turn f)) (as_Boundary (ev_Data ev))
   | TurnEnd \<Rightarrow> map_option (\<lambda>f. MTurnEnd (te_Turn f)) (as_TurnEnd (ev_Data ev))
   | StepStart \<Rightarrow> map_option (\<lambda>f. MStepStart (bf_Turn f) (bf_Step f)) (as_Boundary (ev_Data ev))
   | StepEnd \<Rightarrow> map_option (\<lambda>f. MStepEnd (bf_Turn f) (bf_Step f)) (as_Boundary (ev_Data ev))
   | _ \<Rightarrow> None)"

definition marks :: "Event list \<Rightarrow> mark list" where
  "marks events = List.map_filter mark_of events"

text \<open>Go's \<open>int\<close> is 64 bits wide; turn and step numbers the program writes start at 1.\<close>

definition go_count :: "int \<Rightarrow> bool" where
  "go_count n \<longleftrightarrow> 0 < n \<and> n < 2 ^ 63"

fun mark_ok :: "mark \<Rightarrow> bool" where
  "mark_ok (MTurnStart t) = go_count t"
| "mark_ok (MTurnEnd t) = go_count t"
| "mark_ok (MStepStart t n) = (go_count t \<and> go_count n)"
| "mark_ok (MStepEnd t n) = (go_count t \<and> go_count n)"

text \<open>
  The well-nested shape: turn number \<open>t\<close> with \<open>n\<close> steps numbered from 1, and complete turns in sequence.
\<close>

fun turn_body :: "int \<Rightarrow> nat \<Rightarrow> mark list" where
  "turn_body t 0 = []"
| "turn_body t (Suc n) = turn_body t n @ [MStepStart t (int (Suc n)), MStepEnd t (int (Suc n))]"

definition turn_marks :: "int \<Rightarrow> nat \<Rightarrow> mark list" where
  "turn_marks t n = MTurnStart t # turn_body t n @ [MTurnEnd t]"

fun closed_turns :: "int \<Rightarrow> nat list \<Rightarrow> mark list" where
  "closed_turns t [] = []"
| "closed_turns t (n # ns) = turn_marks t n @ closed_turns (t + 1) ns"

lemma closed_turns_snoc: "closed_turns t (ns @ [n]) = closed_turns t ns @ turn_marks (t + int (length ns)) n"
  by (induction ns arbitrary: t) (auto simp: ac_simps)

lemma length_turn_body: "length (turn_body t n) = 2 * n"
  by (induction n) auto

lemma length_closed_turns: "length ns \<le> length (closed_turns t ns)"
proof (induction ns arbitrary: t)
  case (Cons n ns)
  from Cons.IH [of "t + 1"] show ?case by (simp add: turn_marks_def)
qed simp

lemma marks_snoc: "marks (pre @ [ev]) = marks pre @ (case mark_of ev of None \<Rightarrow> [] | Some m \<Rightarrow> [m])"
  by (simp add: marks_def map_filter_def split: option.split)

lemma length_marks: "length (marks pre) \<le> length pre"
  by (simp add: marks_def map_filter_def)

text \<open>The effect of an accepted event on the open brackets.\<close>

definition coords :: "relationalTrace \<Rightarrow> int \<times> int \<times> u64 \<times> u64" where
  "coords tr = (rt_openTurn tr, rt_openStep tr, rt_nextTurn tr, rt_nextStep tr)"

lemmas relate_defs = relateEvent_def Let_def onTurnStart_def onTurnEnd_def onStepStart_def
  onStepEnd_def onAssistantChunk_def onAssistantMsg_def onToolCall_def onToolResult_def onEnclosed_def
  checkCoords_def

lemma relate_mark:
  assumes "relateEvent tr ev = Inr tr'" and "coords tr = (ot, os, nt, ns)"
  shows "case mark_of ev of
      None \<Rightarrow> coords tr' = coords tr
    | Some (MTurnStart t) \<Rightarrow> ot = 0 \<and> word_of_int t = nt \<and> coords tr' = (t, os, nt, 1)
    | Some (MTurnEnd t) \<Rightarrow> ot = t \<and> os = 0 \<and> coords tr' = (0, 0, nt + 1, ns)
    | Some (MStepStart t s) \<Rightarrow> ot = t \<and> os = 0 \<and> word_of_int s = ns \<and> coords tr' = (ot, s, nt, ns)
    | Some (MStepEnd t s) \<Rightarrow> ot = t \<and> os = s \<and> coords tr' = (ot, 0, nt, ns + 1)"
  using assms
  by (cases "ev_Type ev")
    (auto simp: relate_defs bindE_Inr coords_def mark_of_def split: if_splits option.splits)

lemma word_count:
  assumes "go_count t" and "word_of_int t = (of_nat (Suc k) :: u64)" and "Suc k < 2 ^ 63"
  shows "t = int (Suc k)"
proof -
  have "uint (word_of_int t :: u64) = t"
    using assms(1) by (simp add: go_count_def uint_word_of_int)
  moreover have "uint (of_nat (Suc k) :: u64) = int (Suc k)"
    using assms(3) by (simp add: uint_nat unat_of_nat take_bit_nat_eq_self del: of_nat_Suc)
  ultimately show ?thesis using assms(2) by metis
qed

text \<open>
  The shapes a trace can have: between turns after \<open>length ns\<close> complete ones, in a turn after \<open>n\<close> complete
  steps, or inside its next step.
\<close>

inductive nested :: "mark list \<Rightarrow> int \<times> int \<times> u64 \<times> u64 \<Rightarrow> bool" where
  between: "ms = closed_turns 1 ns \<Longrightarrow> nt = of_nat (Suc (length ns)) \<Longrightarrow> nested ms (0, 0, nt, x)"
| turn: "t = int (Suc (length ns)) \<Longrightarrow> ms = closed_turns 1 ns @ MTurnStart t # turn_body t n
    \<Longrightarrow> nt = of_nat (Suc (length ns)) \<Longrightarrow> x = of_nat (Suc n) \<Longrightarrow> nested ms (t, 0, nt, x)"
| step: "t = int (Suc (length ns)) \<Longrightarrow> u = int (Suc n)
    \<Longrightarrow> ms = closed_turns 1 ns @ MTurnStart t # turn_body t n @ [MStepStart t u]
    \<Longrightarrow> nt = of_nat (Suc (length ns)) \<Longrightarrow> x = of_nat (Suc n) \<Longrightarrow> nested ms (t, u, nt, x)"

lemma nested_step:
  assumes inv: "nested ms (coords tr)" and rel: "relateEvent tr ev = Inr tr'"
    and ok: "\<And>m. mark_of ev = Some m \<Longrightarrow> mark_ok m" and len: "length ms < 2 ^ 62"
  shows "nested (ms @ (case mark_of ev of None \<Rightarrow> [] | Some m \<Rightarrow> [m])) (coords tr')"
proof (cases "mark_of ev")
  case None
  with inv relate_mark [OF rel] show ?thesis by (cases "coords tr") simp
next
  case (Some m)
  note mok = ok [OF Some]
  from inv have "nested (ms @ [m]) (coords tr')"
  proof (cases rule: nested.cases)
    case (between ns nt x)
    note mk = relate_mark [OF rel between(1), unfolded Some option.case]
    have "Suc (length ns) < 2 ^ 63" using between(2) len length_closed_turns [of ns 1] by simp
    then have "t = int (Suc (length ns))" if "m = MTurnStart t" for t
      using mk mok between that by (intro word_count) auto
    with mk mok between show ?thesis
      by (cases m) (auto simp: go_count_def intro!: nested.turn [of _ ns _ 0])
  next
    case (turn t ns n nt x)
    note mk = relate_mark [OF rel turn(1), unfolded Some option.case]
    have "Suc n < 2 ^ 63" using turn(3) len by (simp add: length_turn_body)
    then have su: "u = int (Suc n)" if "m = MStepStart t u" for u
      using mk mok turn that by (intro word_count) auto
    show ?thesis
    proof (cases m)
      case (MTurnEnd t')
      with mk turn show ?thesis
        by (auto simp: closed_turns_snoc turn_marks_def intro!: nested.between [of _ "ns @ [n]"])
    next
      case (MStepStart t' u)
      with mk turn su [of u] show ?thesis by (auto intro!: nested.step [of _ ns _ n])
    qed (use mk mok turn in \<open>auto simp: go_count_def\<close>)
  next
    case (step t ns u n nt x)
    note mk = relate_mark [OF rel step(1), unfolded Some option.case]
    from mk mok step show ?thesis
      by (cases m) (auto simp: go_count_def intro!: nested.turn [of _ ns _ "Suc n"])
  qed
  with Some show ?thesis by simp
qed

interpretation relate_scan: scan relate_step
  "\<lambda>pre s. list_all mark_ok (marks pre) \<and> length pre < 2 ^ 62 \<longrightarrow> nested (marks pre) (coords (snd s))"
proof (unfold_locales, intro impI)
  fix pre s ev t
  assume st: "relate_step s ev = Inr t" and ih: "list_all mark_ok (marks pre) \<and> length pre < 2 ^ 62
      \<longrightarrow> nested (marks pre) (coords (snd s))"
    and a: "list_all mark_ok (marks (pre @ [ev])) \<and> length (pre @ [ev]) < 2 ^ 62"
  from st have rel: "relateEvent (snd s) ev = Inr (snd t)"
    by (cases "relateEvent (snd s) ev"; auto simp: relate_step_def)
  from a ih have n: "nested (marks pre) (coords (snd s))" by (simp add: marks_snoc)
  have "mark_ok m" if "mark_of ev = Some m" for m using a that by (simp add: marks_snoc)
  moreover have "length (marks pre) < 2 ^ 62" using a length_marks [of pre] by simp
  ultimately show "nested (marks (pre @ [ev])) (coords (snd t))"
    unfolding marks_snoc by (rule nested_step [OF n rel])
qed

lemma ValidateRelations_None:
  "ValidateRelations events = None \<longleftrightarrow> (\<exists>s. run relate_step (0, initTrace) events = Inr s)"
  by (simp add: ValidateRelations_def split: sum.split)

lemma nested_init: "nested [] (coords initTrace)"
  by (auto simp: coords_def initTrace_def intro: nested.between [of _ "[]"])

text \<open>
  A log that \<open>ValidateRelations\<close> accepts, whose turn and step numbers are positive, is properly
  bracketed: its turn and step markers are complete turns numbered 1, 2, 3, ... each holding complete
  steps numbered 1, 2, 3, ..., followed by nothing, by an open turn with complete steps, or by an
  open turn whose last step is open.
\<close>

theorem relations_nesting:
  assumes "ValidateRelations events = None" and "list_all mark_ok (marks events)"
    and "length events < 2 ^ 62"
  shows "\<exists>ns n. let t = int (Suc (length ns)) in
     marks events \<in> {closed_turns 1 ns, closed_turns 1 ns @ MTurnStart t # turn_body t n,
       closed_turns 1 ns @ MTurnStart t # turn_body t n @ [MStepStart t (int (Suc n))]}"
proof -
  from assms(1) obtain s where r: "run relate_step (0, initTrace) events = Inr s"
    by (auto simp: ValidateRelations_None)
  have "nested (marks events) (coords (snd s))"
    using relate_scan.run_inv [where pre = "[]", OF _ r] assms(2,3) nested_init
    by (simp add: marks_def map_filter_def)
  then show ?thesis by (cases rule: nested.cases) (auto simp: Let_def)
qed

theorem relations_nesting_witness:
  "\<exists>ns n. let t = int (Suc (length ns)) in
     marks [\<lparr>ev_Type = TurnStart, ev_Seq = 1, ev_At = 0, ev_Data = DBoundary \<lparr>bf_Turn = 1, bf_Step = 0\<rparr>,
              ev_Ignorable = False, ev_SurfaceOp = None, ev_SourceEventSeqs = None\<rparr>]
       \<in> {closed_turns 1 ns, closed_turns 1 ns @ MTurnStart t # turn_body t n,
          closed_turns 1 ns @ MTurnStart t # turn_body t n @ [MStepStart t (int (Suc n))]}"
  by (rule relations_nesting; simp add: ValidateRelations_def relate_step_def relate_defs initTrace_def
      marks_def map_filter_def mark_of_def go_count_def)

text \<open>
  The nesting check has a hole at number zero: a turn end that names turn 0 is accepted when no turn is
  open, and moves the expected turn number on, so that the first real turn is then rejected.
\<close>

theorem relations_stray_turn_end:
  fixes start stray :: "int \<Rightarrow> Event"
  defines "stray \<equiv> \<lambda>t. \<lparr>ev_Type = TurnEnd, ev_Seq = 1, ev_At = 0,
      ev_Data = DTurnEnd \<lparr>te_Turn = t, te_Reason = ''completed'', te_Error = None\<rparr>,
      ev_Ignorable = False, ev_SurfaceOp = None, ev_SourceEventSeqs = None\<rparr>"
    and "start \<equiv> \<lambda>t. \<lparr>ev_Type = TurnStart, ev_Seq = 2, ev_At = 0,
      ev_Data = DBoundary \<lparr>bf_Turn = t, bf_Step = 0\<rparr>,
      ev_Ignorable = False, ev_SurfaceOp = None, ev_SourceEventSeqs = None\<rparr>"
  shows "ValidateRelations [stray 0, start 2] = None
    \<and> ValidateRelations [stray 0, start 1] = Some (1, ErrTurnNumber 2 1)
    \<and> ValidateRelations [stray 1] = Some (0, ErrTurnMismatch TurnEnd 1 0)"
  by (simp add: stray_def start_def ValidateRelations_def relate_step_def relate_defs initTrace_def
      word_le_def)

section \<open>Pairing of calls and results\<close>

definition calls :: "string \<Rightarrow> Event \<Rightarrow> bool" where
  "calls cid ev \<longleftrightarrow> ev_Type ev = ToolCall \<and> (\<exists>f. ev_Data ev = DToolCall f \<and> tc_ID f = cid)"

definition answers :: "string \<Rightarrow> Event \<Rightarrow> bool" where
  "answers cid ev \<longleftrightarrow> ev_Type ev = ToolResult \<and> \<not> is_replace ev
     \<and> (\<exists>f. ev_Data ev = DToolResult f \<and> tr_ToolUseID f = cid)"

definition step_boundary :: "Event \<Rightarrow> bool" where
  "step_boundary ev \<longleftrightarrow> ev_Type ev = StepStart \<or> ev_Type ev = StepEnd"

text \<open>A call in the current step that has not been answered.\<close>

definition open_call :: "string \<Rightarrow> Event list \<Rightarrow> bool" where
  "open_call cid pre \<longleftrightarrow> (\<exists>a c b. pre = a @ c # b \<and> calls cid c
     \<and> (\<forall>e \<in> set b. \<not> step_boundary e \<and> \<not> answers cid e))"

lemma relate_pending:
  assumes "relateEvent tr ev = Inr tr'" and "cid \<in> rt_pendingCalls tr'" and "cid \<noteq> []"
  shows "calls cid ev \<or> (cid \<in> rt_pendingCalls tr \<and> \<not> step_boundary ev \<and> \<not> answers cid ev)"
  using assms
  by (cases "ev_Type ev")
    (auto simp: relate_defs bindE_Inr calls_def answers_def step_boundary_def
      split: if_splits option.splits)

lemma relate_answer:
  assumes "relateEvent tr ev = Inr tr'" and "answers cid ev" and "cid \<noteq> []"
  shows "cid \<in> rt_pendingCalls tr"
  using assms by (auto simp: answers_def relate_defs bindE_Inr split: if_splits)

lemma open_call_snoc:
  assumes "calls cid ev \<or> open_call cid pre \<and> \<not> step_boundary ev \<and> \<not> answers cid ev"
  shows "open_call cid (pre @ [ev])"
  using assms
proof
  assume "calls cid ev"
  then have "pre @ [ev] = pre @ ev # [] \<and> calls cid ev
      \<and> (\<forall>e \<in> set []. \<not> step_boundary e \<and> \<not> answers cid e)" by simp
  then show ?thesis unfolding open_call_def by blast
next
  assume *: "open_call cid pre \<and> \<not> step_boundary ev \<and> \<not> answers cid ev"
  then obtain a c b where "pre @ [ev] = a @ c # (b @ [ev])" "calls cid c"
    "\<forall>e \<in> set (b @ [ev]). \<not> step_boundary e \<and> \<not> answers cid e"
    by (auto simp: open_call_def)
  then show ?thesis unfolding open_call_def by blast
qed

lemma relate_step_Inr: "relate_step s ev = Inr t \<Longrightarrow> relateEvent (snd s) ev = Inr (snd t)"
  by (cases "relateEvent (snd s) ev") (auto simp: relate_step_def)

interpretation pairing_scan: scan relate_step
  "\<lambda>pre s. \<forall>cid \<in> rt_pendingCalls (snd s). cid \<noteq> [] \<longrightarrow> open_call cid pre"
  by unfold_locales (blast dest: relate_step_Inr relate_pending intro: open_call_snoc)



section \<open>Logs this build writes\<close>

text \<open>Requests whose facts carry this build's format version and valid sandbox modes and markers.\<close>

fun request_ok :: "request \<Rightarrow> bool" where
  "request_ok (ReqAppend t d ign now) \<longleftrightarrow>
     (\<forall>m. t = SessionMeta \<and> d = DMeta m \<longrightarrow> mt_FormatVersion m \<in> {0, SessionFormatVersion})
     \<and> (\<forall>f. t = SandboxMode \<and> d = DSandboxMode f \<longrightarrow> SandboxModeFact_Valid f)"
| "request_ok (ReqSurface t d op a b srcs now) \<longleftrightarrow> op \<in> {SurfaceOpAppend, SurfaceOpReplace}"

lemma request_event_ok:
  assumes "apply_request l r = Inr l'" and "request_ok r"
  shows "\<exists>ev. Snapshot l' = Snapshot l @ [ev] \<and> event_ok ev"
proof (cases r)
  case (ReqAppend t d ign now)
  with assms show ?thesis
    by (auto simp: appendWithFlags_def event_ok_def Snapshot_def split: if_splits)
next
  case (ReqSurface t d op a b srcs now)
  with assms show ?thesis
    by (auto simp: AppendSurface_def with_log_def event_ok_def Snapshot_def
        IsSurfaceEligible_iff Known_iff split: if_splits)
qed

lemma run_event_ok:
  "run apply_request l rs = Inr l' \<Longrightarrow> \<forall>r \<in> set rs. request_ok r
     \<Longrightarrow> \<forall>e \<in> set (Snapshot l). event_ok e \<Longrightarrow> \<forall>e \<in> set (Snapshot l'). event_ok e"
proof (induction rs arbitrary: l)
  case (Cons r rs)
  from Cons.prems(1) obtain m where m: "apply_request l r = Inr m" and r: "run apply_request m rs = Inr l'"
    by (auto simp: run_Cons_Inr simp del: run.simps)
  from Cons.prems(2) request_event_ok [OF m] obtain ev
    where "Snapshot m = Snapshot l @ [ev]" and "event_ok ev" by auto
  with Cons.prems(3) have "\<forall>e \<in> set (Snapshot m). event_ok e" by simp
  with Cons.prems(2) show ?case by (intro Cons.IH [OF r]) simp_all
qed simp

lemma written_logs_ok:
  assumes "run apply_request (New observed) rs = Inr l" and "\<forall>r \<in> set rs. request_ok r"
    and "length rs < 2 ^ 64"
  shows "Validate (Snapshot l) = None"
proof -
  have "log_ordered l" using run_ordered [OF assms(1)] New_invariants(2) assms(3) by (simp add: New_def)
  moreover have "\<forall>e \<in> set (Snapshot l). event_ok e"
    using run_event_ok [OF assms(1,2)] by (simp add: New_def Snapshot_def)
  ultimately show ?thesis
    by (simp add: Validate_def validate_from_None log_ordered_def Snapshot_def)
qed

text \<open>
  What the log writes, the validator accepts: a fresh log filled with fewer than $2^{64}$ requests
  whose versions, sandbox modes and markers are well formed passes \<open>Validate\<close>.
\<close>

theorem written_logs_validate:
  assumes "run apply_request (New observed) rs = Inr l" and "\<forall>r \<in> set rs. request_ok r"
    and "length rs < 2 ^ 64"
  shows "Validate (Snapshot l) = None"
  using assms by (rule written_logs_ok)

theorem written_logs_validate_witness:
  "\<exists>l. run apply_request (New True) [ReqSurface UserMessage DNil SurfaceOpAppend 0 0 None 4] = Inr l
     \<and> Validate (Snapshot l) = None"
proof -
  obtain l where "run apply_request (New True)
      [ReqSurface UserMessage DNil SurfaceOpAppend 0 0 None 4] = Inr l"
    by (simp add: AppendSurface_def with_log_def IsSurfaceEligible_iff)
  with written_logs_validate [OF this] show ?thesis by simp
qed

end
