(* ===== verification/Event_Wire.thy ===== *)
theory Event_Wire
  imports Event_Codec Event_Invariants
begin

text \<open>
  Persistence: \<open>wire.go\<close> (the stored form of an event, \<open>MarshalWire\<close>, \<open>DecodeWire\<close>) and \<open>Rehydrate\<close> of
  \<open>log.go\<close>, which rebuilds a log from stored events. \<open>json.Marshal\<close> of a payload fails only for an instant
  outside the years 0 to 9999.
\<close>

section \<open>The stored form\<close>

record WireEvent =
  we_Type :: etype
  we_Seq :: u64
  we_At :: gotime
  we_Data :: "json option"
  we_Ignorable :: bool
  we_SurfaceOp :: "SurfaceOp option"
  we_SourceEventSeqs :: "u64 list option"

definition timeOk :: "gotime \<Rightarrow> bool" where
  "timeOk t \<longleftrightarrow> - 31622400000000000 \<le> t \<and> t < 315537897600000000000"

definition marshalData :: "payload \<Rightarrow> jsonError + json" where
  "marshalData d = (case d of
     DNil \<Rightarrow> Inr JNull
   | DMeta x \<Rightarrow> Inr (enc_Meta x)
   | DMessage x \<Rightarrow> Inr (enc_Message x)
   | DChunk x \<Rightarrow> Inr (enc_ChunkFact x)
   | DToolCallDelta x \<Rightarrow> Inr (enc_ToolCallDeltaFact x)
   | DToolCall x \<Rightarrow> Inr (enc_ToolCallPayload x)
   | DToolResult x \<Rightarrow> Inr (enc_ToolResultPayload x)
   | DContextInjected x \<Rightarrow> Inr (enc_ContextInjectedFact x)
   | DCompaction x \<Rightarrow> Inr (enc_CompactionFact x)
   | DSpec x \<Rightarrow> Inr (enc_SpecFact x)
   | DBoundary x \<Rightarrow> Inr (enc_BoundaryFact x)
   | DTurnEnd x \<Rightarrow> Inr (enc_TurnEndFact x)
   | DPermission x \<Rightarrow> Inr (enc_PermissionFact x)
   | DApprovalAsked x \<Rightarrow> Inr (enc_ApprovalAskedFact x)
   | DApprovalDecided x \<Rightarrow> Inr (enc_ApprovalDecidedFact x)
   | DApprovalPolicy x \<Rightarrow> Inr (enc_ApprovalPolicyFact x)
   | DToolWorkflow x \<Rightarrow> Inr (enc_ToolWorkflowBounds x)
   | DLLMRetry x \<Rightarrow> Inr (enc_LLMRetryFact x)
   | DRequestContext x \<Rightarrow> Inr (enc_RequestContextFact x)
   | DCompactionStart x \<Rightarrow> Inr (enc_CompactionStartFact x)
   | DCompactionPrune x \<Rightarrow> Inr (enc_CompactionPruneFact x)
   | DCompactionEnd x \<Rightarrow> Inr (enc_CompactionEndFact x)
   | DCompactionSummary x \<Rightarrow> Inr (enc_CompactionSummaryFact x)
   | DTodoWrite x \<Rightarrow> Inr (enc_TodoWriteFact x)
   | DRequestHeader x \<Rightarrow> Inr (enc_RequestHeaderFact x)
   | DHookInvoked x \<Rightarrow> Inr (enc_HookInvokedFact x)
   | DHookResult x \<Rightarrow> Inr (enc_HookResultFact x)
   | DFeedback x \<Rightarrow> Inr (enc_FeedbackFact x)
   | DGoalChange x \<Rightarrow> Inr (enc_GoalChangeFact x)
   | DPermissionPreset x \<Rightarrow> Inr (enc_PermissionPresetFact x)
   | DSandboxMode x \<Rightarrow> Inr (enc_SandboxModeFact x)
   | DScheduleChange x \<Rightarrow> Inr (enc_ScheduleChangeFact x)
   | DScheduleCreate x \<Rightarrow> if timeOk (scr_DueAt x) then Inr (enc_ScheduleCreateFact x) else Inl MarshalerError
   | DScheduleUpdate x \<Rightarrow> if pred_option timeOk (su_DueAt x) then Inr (enc_ScheduleUpdateFact x) else Inl MarshalerError
   | DScheduleDelete x \<Rightarrow> Inr (enc_ScheduleDeleteFact x)
   | DScheduleDue x \<Rightarrow> if timeOk (sdu_DeliveredAt x) \<and> pred_option timeOk (sdu_NextDueAt x) then Inr (enc_ScheduleDueFact x) else Inl MarshalerError
   | DSessionTitle x \<Rightarrow> Inr (enc_SessionTitleFact x)
   | DSessionTitleLLMRequest x \<Rightarrow> Inr (enc_SessionTitleLLMRequestFact x)
   | DSubagentDescriptor x \<Rightarrow> Inr (enc_SubagentDescriptorFact x)
   | DAgentPreset x \<Rightarrow> Inr (enc_AgentPresetFact x)
   | DAgentInboxSplice x \<Rightarrow> Inr (enc_AgentInboxSpliceFact x)
   | DCommandRun x \<Rightarrow> Inr (enc_CommandRunFact x)
   | DCommandDone x \<Rightarrow> Inr (enc_CommandDoneFact x)
   | DToolWorkflowAgent x \<Rightarrow> Inr (enc_ToolWorkflowAgentFact x)
   | DCodeDispatch x \<Rightarrow> Inr (enc_CodeDispatchFact x)
   | DWebSearch x \<Rightarrow> Inr (enc_WebSearchFact x)
   | DPlanMode x \<Rightarrow> Inr (enc_PlanModeFact x))"

definition marshalEvent :: "Event \<Rightarrow> jsonError + WireEvent" where
  "marshalEvent ev =
     bindE (if ev_Data ev = DNil then Inr None else bindE (marshalData (ev_Data ev)) (\<lambda>b. Inr (Some b)))
       (\<lambda>raw. Inr \<lparr>we_Type = ev_Type ev, we_Seq = ev_Seq ev, we_At = ev_At ev, we_Data = raw,
          we_Ignorable = ev_Ignorable ev, we_SurfaceOp = ev_SurfaceOp ev,
          we_SourceEventSeqs = ev_SourceEventSeqs ev\<rparr>)"

definition MarshalWire :: "Event list \<Rightarrow> jsonError + WireEvent list" where
  "MarshalWire events = mapE marshalEvent events"

text \<open>The switch of \<open>decodePayload\<close>, in three parts; a kind without a case decodes to nil.\<close>

datatype wireError =
    WireJson jsonError
  | WireSandbox string string
  | WireInvalid nat validateError

definition decodeInto :: "(json \<Rightarrow> jsonError + 'a) \<Rightarrow> ('a \<Rightarrow> payload) \<Rightarrow> json \<Rightarrow> wireError + payload" where
  "decodeInto dec con data = (case dec data of Inl e \<Rightarrow> Inl (WireJson e) | Inr p \<Rightarrow> Inr (con p))"

definition decodeSandbox :: "json \<Rightarrow> wireError + payload" where
  "decodeSandbox data = (case dec_SandboxModeFact data of
     Inl e \<Rightarrow> Inl (WireJson e)
   | Inr p \<Rightarrow> if \<not> SandboxModeFact_Valid p then Inl (WireSandbox (sm_Mode p) (sm_Source p))
             else Inr (DSandboxMode p))"

definition decodeSessionPayload :: "etype \<Rightarrow> json \<Rightarrow> wireError + payload" where
  "decodeSessionPayload t data = (case t of
     ScheduleChange \<Rightarrow> decodeInto dec_ScheduleChangeFact DScheduleChange data
   | ScheduleCreate \<Rightarrow> decodeInto dec_ScheduleCreateFact DScheduleCreate data
   | ScheduleUpdate \<Rightarrow> decodeInto dec_ScheduleUpdateFact DScheduleUpdate data
   | ScheduleDelete \<Rightarrow> decodeInto dec_ScheduleDeleteFact DScheduleDelete data
   | ScheduleDue \<Rightarrow> decodeInto dec_ScheduleDueFact DScheduleDue data
   | SessionTitle \<Rightarrow> decodeInto dec_SessionTitleFact DSessionTitle data
   | SessionTitleLLMRequest \<Rightarrow> decodeInto dec_SessionTitleLLMRequestFact DSessionTitleLLMRequest data
   | SubagentDescriptor \<Rightarrow> decodeInto dec_SubagentDescriptorFact DSubagentDescriptor data
   | AgentPresetSelected \<Rightarrow> decodeInto dec_AgentPresetFact DAgentPreset data
   | AgentInboxSpliced \<Rightarrow> decodeInto dec_AgentInboxSpliceFact DAgentInboxSplice data
   | CommandRun \<Rightarrow> decodeInto dec_CommandRunFact DCommandRun data
   | CommandDone \<Rightarrow> decodeInto dec_CommandDoneFact DCommandDone data
   | ToolWorkflowAgentStart \<Rightarrow> decodeInto dec_ToolWorkflowAgentFact DToolWorkflowAgent data
   | ToolWorkflowAgentEnd \<Rightarrow> decodeInto dec_ToolWorkflowAgentFact DToolWorkflowAgent data
   | ToolCodeDispatch \<Rightarrow> decodeInto dec_CodeDispatchFact DCodeDispatch data
   | ToolCodeDispatchStart \<Rightarrow> decodeInto dec_CodeDispatchFact DCodeDispatch data
   | WebDeepSeekSearch \<Rightarrow> decodeInto dec_WebSearchFact DWebSearch data
   | PlanMode \<Rightarrow> decodeInto dec_PlanModeFact DPlanMode data
   | _ \<Rightarrow> Inr DNil)"

definition decodeLifecyclePayload :: "etype \<Rightarrow> json \<Rightarrow> wireError + payload" where
  "decodeLifecyclePayload t data = (case t of
     CompactionStart \<Rightarrow> decodeInto dec_CompactionStartFact DCompactionStart data
   | CompactionPrune \<Rightarrow> decodeInto dec_CompactionPruneFact DCompactionPrune data
   | CompactionEnd \<Rightarrow> decodeInto dec_CompactionEndFact DCompactionEnd data
   | CompactionSummary \<Rightarrow> decodeInto dec_CompactionSummaryFact DCompactionSummary data
   | SessionEndSeed \<Rightarrow> Inr DNil
   | TodoWrite \<Rightarrow> decodeInto dec_TodoWriteFact DTodoWrite data
   | RequestHeader \<Rightarrow> decodeInto dec_RequestHeaderFact DRequestHeader data
   | HookInvoked \<Rightarrow> decodeInto dec_HookInvokedFact DHookInvoked data
   | HookResult \<Rightarrow> decodeInto dec_HookResultFact DHookResult data
   | FeedbackRecord \<Rightarrow> decodeInto dec_FeedbackFact DFeedback data
   | GoalChange \<Rightarrow> decodeInto dec_GoalChangeFact DGoalChange data
   | PermissionPreset \<Rightarrow> decodeInto dec_PermissionPresetFact DPermissionPreset data
   | SandboxMode \<Rightarrow> decodeSandbox data
   | _ \<Rightarrow> decodeSessionPayload t data)"

definition decodeTurnPayload :: "etype \<Rightarrow> json \<Rightarrow> wireError + payload" where
  "decodeTurnPayload t data = (case t of
     SessionMeta \<Rightarrow> decodeInto dec_Meta DMeta data
   | UserMessage \<Rightarrow> decodeInto dec_Message DMessage data
   | AssistantMsg \<Rightarrow> decodeInto dec_Message DMessage data
   | AssistantChunk \<Rightarrow> decodeInto dec_ChunkFact DChunk data
   | ContextInjected \<Rightarrow> decodeInto dec_ContextInjectedFact DContextInjected data
   | SessionCompacted \<Rightarrow> decodeInto dec_CompactionFact DCompaction data
   | ToolCall \<Rightarrow> decodeInto dec_ToolCallPayload DToolCall data
   | ToolResult \<Rightarrow> decodeInto dec_ToolResultPayload DToolResult data
   | SpecState \<Rightarrow> decodeInto dec_SpecFact DSpec data
   | TurnStart \<Rightarrow> decodeInto dec_BoundaryFact DBoundary data
   | StepStart \<Rightarrow> decodeInto dec_BoundaryFact DBoundary data
   | StepEnd \<Rightarrow> decodeInto dec_BoundaryFact DBoundary data
   | TurnEnd \<Rightarrow> decodeInto dec_TurnEndFact DTurnEnd data
   | PermissionChange \<Rightarrow> decodeInto dec_PermissionFact DPermission data
   | ApprovalAsked \<Rightarrow> decodeInto dec_ApprovalAskedFact DApprovalAsked data
   | ApprovalDecided \<Rightarrow> decodeInto dec_ApprovalDecidedFact DApprovalDecided data
   | ApprovalPolicy \<Rightarrow> decodeInto dec_ApprovalPolicyFact DApprovalPolicy data
   | _ \<Rightarrow> decodeLifecyclePayload t data)"

definition decodePayload :: "WireEvent \<Rightarrow> wireError + payload" where
  "decodePayload w = (case we_Data w of
     None \<Rightarrow> Inr DNil | Some data \<Rightarrow> decodeTurnPayload (we_Type w) data)"

definition decodeEvent :: "WireEvent \<Rightarrow> wireError + Event" where
  "decodeEvent w = bindE (decodePayload w) (\<lambda>data.
     Inr \<lparr>ev_Type = we_Type w, ev_Seq = we_Seq w, ev_At = we_At w, ev_Data = data,
          ev_Ignorable = we_Ignorable w, ev_SurfaceOp = we_SurfaceOp w,
          ev_SourceEventSeqs = we_SourceEventSeqs w\<rparr>)"

text \<open>Every caller discards the events when the error is set.\<close>

definition DecodeWire :: "WireEvent list \<Rightarrow> wireError + Event list" where
  "DecodeWire wire = (case mapE decodeEvent wire of
     Inl e \<Rightarrow> Inl e
   | Inr events \<Rightarrow> (case Validate events of
       Some (i, e) \<Rightarrow> Inl (WireInvalid i e) | None \<Rightarrow> Inr events))"

section \<open>Rebuilding a log\<close>

definition restore :: "gotime \<Rightarrow> Log \<Rightarrow> Event \<Rightarrow> Log" where
  "restore now l ev =
     (let ev = (if IsZero (ev_At ev) then ev\<lparr>ev_At := now\<rparr> else ev) in
      l\<lparr>lg_seq := (if ev_Seq ev > lg_seq l then ev_Seq ev else lg_seq l),
        lg_events := lg_events l @ [ev],
        lg_byType := (lg_byType l)(ev_Type ev := lg_byType l (ev_Type ev) @ [ev])\<rparr>)"

definition Rehydrate :: "WireEvent list \<Rightarrow> bool \<Rightarrow> gotime \<Rightarrow> wireError + Log" where
  "Rehydrate wire observed now =
     bindE (DecodeWire wire) (\<lambda>events. Inr (foldl (restore now) (New observed) events))"

section \<open>Round trip of one event\<close>

text \<open>Payloads that the switch can read back: the struct belongs to the kind and its numbers fit.\<close>

definition payload_ok :: "etype \<Rightarrow> payload \<Rightarrow> bool" where
  "payload_ok t d \<longleftrightarrow> (case d of
     DNil \<Rightarrow> True
   | DMeta x \<Rightarrow> t = SessionMeta \<and> ok_Meta x
   | DMessage x \<Rightarrow> (t = UserMessage \<or> t = AssistantMsg) \<and> ok_Message x
   | DChunk x \<Rightarrow> t = AssistantChunk \<and> ok_ChunkFact x
   | DToolCallDelta x \<Rightarrow> False
   | DToolCall x \<Rightarrow> t = ToolCall \<and> ok_ToolCallPayload x
   | DToolResult x \<Rightarrow> t = ToolResult \<and> ok_ToolResultPayload x
   | DContextInjected x \<Rightarrow> t = ContextInjected \<and> ok_ContextInjectedFact x
   | DCompaction x \<Rightarrow> t = SessionCompacted \<and> ok_CompactionFact x
   | DSpec x \<Rightarrow> t = SpecState \<and> ok_SpecFact x
   | DBoundary x \<Rightarrow> (t = TurnStart \<or> t = StepStart \<or> t = StepEnd) \<and> ok_BoundaryFact x
   | DTurnEnd x \<Rightarrow> t = TurnEnd \<and> ok_TurnEndFact x
   | DPermission x \<Rightarrow> t = PermissionChange \<and> ok_PermissionFact x
   | DApprovalAsked x \<Rightarrow> t = ApprovalAsked \<and> ok_ApprovalAskedFact x
   | DApprovalDecided x \<Rightarrow> t = ApprovalDecided \<and> ok_ApprovalDecidedFact x
   | DApprovalPolicy x \<Rightarrow> t = ApprovalPolicy \<and> ok_ApprovalPolicyFact x
   | DToolWorkflow x \<Rightarrow> False
   | DLLMRetry x \<Rightarrow> False
   | DRequestContext x \<Rightarrow> False
   | DCompactionStart x \<Rightarrow> t = CompactionStart \<and> ok_CompactionStartFact x
   | DCompactionPrune x \<Rightarrow> t = CompactionPrune \<and> ok_CompactionPruneFact x
   | DCompactionEnd x \<Rightarrow> t = CompactionEnd \<and> ok_CompactionEndFact x
   | DCompactionSummary x \<Rightarrow> t = CompactionSummary \<and> ok_CompactionSummaryFact x
   | DTodoWrite x \<Rightarrow> t = TodoWrite \<and> ok_TodoWriteFact x
   | DRequestHeader x \<Rightarrow> t = RequestHeader \<and> ok_RequestHeaderFact x
   | DHookInvoked x \<Rightarrow> t = HookInvoked \<and> ok_HookInvokedFact x
   | DHookResult x \<Rightarrow> t = HookResult \<and> ok_HookResultFact x
   | DFeedback x \<Rightarrow> t = FeedbackRecord \<and> ok_FeedbackFact x
   | DGoalChange x \<Rightarrow> t = GoalChange \<and> ok_GoalChangeFact x
   | DPermissionPreset x \<Rightarrow> t = PermissionPreset \<and> ok_PermissionPresetFact x
   | DSandboxMode x \<Rightarrow> t = SandboxMode \<and> ok_SandboxModeFact x \<and> SandboxModeFact_Valid x
   | DScheduleChange x \<Rightarrow> t = ScheduleChange \<and> ok_ScheduleChangeFact x
   | DScheduleCreate x \<Rightarrow> t = ScheduleCreate \<and> ok_ScheduleCreateFact x \<and> timeOk (scr_DueAt x)
   | DScheduleUpdate x \<Rightarrow> t = ScheduleUpdate \<and> ok_ScheduleUpdateFact x \<and> pred_option timeOk (su_DueAt x)
   | DScheduleDelete x \<Rightarrow> t = ScheduleDelete \<and> ok_ScheduleDeleteFact x
   | DScheduleDue x \<Rightarrow> t = ScheduleDue \<and> ok_ScheduleDueFact x \<and> timeOk (sdu_DeliveredAt x) \<and> pred_option timeOk (sdu_NextDueAt x)
   | DSessionTitle x \<Rightarrow> t = SessionTitle \<and> ok_SessionTitleFact x
   | DSessionTitleLLMRequest x \<Rightarrow> t = SessionTitleLLMRequest \<and> ok_SessionTitleLLMRequestFact x
   | DSubagentDescriptor x \<Rightarrow> t = SubagentDescriptor \<and> ok_SubagentDescriptorFact x
   | DAgentPreset x \<Rightarrow> t = AgentPresetSelected \<and> ok_AgentPresetFact x
   | DAgentInboxSplice x \<Rightarrow> t = AgentInboxSpliced \<and> ok_AgentInboxSpliceFact x
   | DCommandRun x \<Rightarrow> t = CommandRun \<and> ok_CommandRunFact x
   | DCommandDone x \<Rightarrow> t = CommandDone \<and> ok_CommandDoneFact x
   | DToolWorkflowAgent x \<Rightarrow> (t = ToolWorkflowAgentStart \<or> t = ToolWorkflowAgentEnd) \<and> ok_ToolWorkflowAgentFact x
   | DCodeDispatch x \<Rightarrow> (t = ToolCodeDispatch \<or> t = ToolCodeDispatchStart) \<and> ok_CodeDispatchFact x
   | DWebSearch x \<Rightarrow> t = WebDeepSeekSearch \<and> ok_WebSearchFact x
   | DPlanMode x \<Rightarrow> t = PlanMode \<and> ok_PlanModeFact x)"

definition wire_ok :: "Event \<Rightarrow> bool" where
  "wire_ok ev \<longleftrightarrow> payload_ok (ev_Type ev) (ev_Data ev)"

lemma payload_rt:
  assumes "payload_ok t d" and "d \<noteq> DNil"
  shows "\<exists>j. marshalData d = Inr j \<and> decodeTurnPayload t j = Inr d"
  using assms
  by (cases d)
    (auto simp: payload_ok_def marshalData_def decodeTurnPayload_def decodeLifecyclePayload_def
      decodeSessionPayload_def decodeInto_def decodeSandbox_def
      Meta_dec_enc Message_dec_enc ChunkFact_dec_enc ContextInjectedFact_dec_enc CompactionFact_dec_enc ToolCallPayload_dec_enc ToolResultPayload_dec_enc SpecFact_dec_enc BoundaryFact_dec_enc TurnEndFact_dec_enc PermissionFact_dec_enc ApprovalAskedFact_dec_enc ApprovalDecidedFact_dec_enc ApprovalPolicyFact_dec_enc CompactionStartFact_dec_enc CompactionPruneFact_dec_enc CompactionEndFact_dec_enc CompactionSummaryFact_dec_enc TodoWriteFact_dec_enc RequestHeaderFact_dec_enc HookInvokedFact_dec_enc HookResultFact_dec_enc FeedbackFact_dec_enc GoalChangeFact_dec_enc PermissionPresetFact_dec_enc SandboxModeFact_dec_enc ScheduleChangeFact_dec_enc ScheduleCreateFact_dec_enc ScheduleUpdateFact_dec_enc ScheduleDeleteFact_dec_enc ScheduleDueFact_dec_enc SessionTitleFact_dec_enc SessionTitleLLMRequestFact_dec_enc SubagentDescriptorFact_dec_enc AgentPresetFact_dec_enc AgentInboxSpliceFact_dec_enc CommandRunFact_dec_enc CommandDoneFact_dec_enc ToolWorkflowAgentFact_dec_enc CodeDispatchFact_dec_enc WebSearchFact_dec_enc PlanModeFact_dec_enc)

lemma event_rt:
  assumes "wire_ok ev"
  shows "\<exists>w. marshalEvent ev = Inr w \<and> decodeEvent w = Inr ev"
proof (cases "ev_Data ev = DNil")
  case True
  then show ?thesis by (simp add: marshalEvent_def decodeEvent_def decodePayload_def)
next
  case False
  with payload_rt [of "ev_Type ev" "ev_Data ev"] assms show ?thesis
    by (auto simp: marshalEvent_def decodeEvent_def decodePayload_def wire_ok_def)
qed

lemma events_rt:
  "\<forall>ev \<in> set events. wire_ok ev \<Longrightarrow> \<exists>ws. mapE marshalEvent events = Inr ws \<and> mapE decodeEvent ws = Inr events"
proof (induction events)
  case (Cons ev events)
  from Cons.prems event_rt [of ev] obtain w where "marshalEvent ev = Inr w" "decodeEvent w = Inr ev" by auto
  with Cons show ?case by auto
qed simp

section \<open>Properties\<close>



text \<open>
  Five kinds and one payload are lost on the way: a tool workflow, retry or request context fact is
  read back without its payload, and a streamed tool call delta as a plain chunk without the tool's
  name and arguments.
\<close>

theorem wire_lossy:
  "(t \<in> {ToolWorkflowStart, ToolWorkflowEnd, LLMRetry, LLMRetryStarted, RequestContext} \<longrightarrow>
      decodePayload \<lparr>we_Type = t, we_Seq = q, we_At = at, we_Data = Some data, we_Ignorable = ig,
        we_SurfaceOp = sop, we_SourceEventSeqs = srcs\<rparr> = Inr DNil)
   \<and> (ok_ChunkFact (td_ChunkFact x) \<longrightarrow>
      (\<exists>w. marshalEvent \<lparr>ev_Type = AssistantChunk, ev_Seq = q, ev_At = at, ev_Data = DToolCallDelta x,
           ev_Ignorable = ig, ev_SurfaceOp = sop, ev_SourceEventSeqs = srcs\<rparr> = Inr w
         \<and> decodePayload w = Inr (DChunk (td_ChunkFact x))))"
proof (intro conjI impI)
  show "decodePayload \<lparr>we_Type = t, we_Seq = q, we_At = at, we_Data = Some data, we_Ignorable = ig,
        we_SurfaceOp = sop, we_SourceEventSeqs = srcs\<rparr> = Inr DNil"
    if "t \<in> {ToolWorkflowStart, ToolWorkflowEnd, LLMRetry, LLMRetryStarted, RequestContext}"
    using that by (auto simp: decodePayload_def decodeTurnPayload_def decodeLifecyclePayload_def
        decodeSessionPayload_def)
  assume ok: "ok_ChunkFact (td_ChunkFact x)"
  have "dec_ChunkFact (enc_ToolCallDeltaFact x) = Inr (td_ChunkFact x)"
    using ok by (simp add: enc_ToolCallDeltaFact_def dec_ChunkFact_def members_ChunkFact_def ok_ChunkFact_def
        json_rt)
  then show "\<exists>w. marshalEvent \<lparr>ev_Type = AssistantChunk, ev_Seq = q, ev_At = at, ev_Data = DToolCallDelta x,
           ev_Ignorable = ig, ev_SurfaceOp = sop, ev_SourceEventSeqs = srcs\<rparr> = Inr w
         \<and> decodePayload w = Inr (DChunk (td_ChunkFact x))"
    by (simp add: marshalEvent_def marshalData_def decodePayload_def decodeTurnPayload_def decodeInto_def)
qed

theorem wire_lossy_witness:
  "decodePayload \<lparr>we_Type = LLMRetry, we_Seq = 1, we_At = 0,
     we_Data = Some (enc_LLMRetryFact \<lparr>lr_Attempt = 2, lr_Reason = ''timeout''\<rparr>),
     we_Ignorable = True, we_SurfaceOp = None, we_SourceEventSeqs = None\<rparr> = Inr DNil"
  using wire_lossy by simp

section \<open>A log survives persistence\<close>

lemma restore_events:
  assumes "\<forall>ev \<in> set events. \<not> IsZero (ev_At ev)"
  shows "lg_events (foldl (restore now) l events) = lg_events l @ events"
    and "lg_byType (foldl (restore now) l events) t = lg_byType l t @ filter (\<lambda>e. ev_Type e = t) events"
  using assms
proof (induction events arbitrary: l)
  case (Cons ev events)
  { case 1 with Cons(1) [of "restore now l ev"] show ?case by (simp add: restore_def) }
  { case 2 with Cons(2) [of "restore now l ev"] show ?case by (simp add: restore_def) }
qed simp_all

lemma restore_seq:
  assumes "sorted_wrt (\<lambda>a b. ev_Seq a < ev_Seq b) events" and "events \<noteq> []"
    and "\<forall>e \<in> set events. lg_seq l < ev_Seq e"
  shows "lg_seq (foldl (restore now) l events) = ev_Seq (last events)"
  using assms
proof (induction events arbitrary: l)
  case (Cons ev events)
  have s: "lg_seq (restore now l ev) = ev_Seq ev" using Cons.prems(3) by (simp add: restore_def Let_def)
  show ?case
  proof (cases "events = []")
    case False
    with Cons.IH [of "restore now l ev"] Cons.prems s show ?thesis by simp
  qed (use s in simp)
qed simp

lemma contiguous_seq:
  assumes "log_contiguous l" and "Snapshot l \<noteq> []"
  shows "ev_Seq (last (Snapshot l)) = lg_seq l"
  using assms by (cases "lg_events l" rule: rev_cases) (auto simp: log_contiguous_def Snapshot_def)

lemma contiguous_positive:
  assumes "run apply_request (New observed) rs = Inr l" and "length rs < 2 ^ 64" and "x \<in> set (Snapshot l)"
  shows "0 < ev_Seq x"
proof -
  have len: "length (Snapshot l) = length rs"
    using log_store.run_length [OF assms(1)] by (simp add: New_def Snapshot_def)
  have ct: "log_contiguous l" by (rule log_scan.run_inv [OF New_invariants(3) assms(1)])
  from assms(3) obtain i where i: "i < length (Snapshot l)" "x = Snapshot l ! i" by (metis in_set_conv_nth)
  with ct have "ev_Seq x = of_nat (Suc i)" by (simp add: log_contiguous_def Snapshot_def)
  moreover have "unat (of_nat (Suc i) :: u64) = Suc i"
    using i len assms(2) by (simp add: unat_of_nat take_bit_nat_eq_self del: of_nat_Suc)
  ultimately show ?thesis by (metis unat_gt_0 word_neq_0_conv Zero_not_Suc unsigned_0)
qed

text \<open>
  Saving and loading a session restores it: if a log is built by fewer than $2^{64}$ well-formed
  requests whose payloads the wire can carry, marshalling it and rehydrating the result gives a log
  with the same events, the same index by kind and the same counter, so that numbering continues
  where it stopped.
\<close>

theorem persist_restore:
  assumes "run apply_request (New observed) rs = Inr l" and "\<forall>r \<in> set rs. request_ok r"
    and "length rs < 2 ^ 64" and "\<forall>ev \<in> set (Snapshot l). wire_ok ev \<and> \<not> IsZero (ev_At ev)"
  shows "\<exists>ws l'. MarshalWire (Snapshot l) = Inr ws \<and> Rehydrate ws listening now = Inr l'
    \<and> Snapshot l' = Snapshot l \<and> (\<forall>t. OfType l' t = OfType l t) \<and> lg_seq l' = lg_seq l"
proof -
  have v: "Validate (Snapshot l) = None" by (rule written_logs_ok [OF assms(1-3)])
  obtain ws where m: "mapE marshalEvent (Snapshot l) = Inr ws" and d: "mapE decodeEvent ws = Inr (Snapshot l)"
    using events_rt [of "Snapshot l"] assms(4) by blast
  let ?l = "foldl (restore now) (New listening) (Snapshot l)"
  have r: "Rehydrate ws listening now = Inr ?l" using d v by (simp add: Rehydrate_def DecodeWire_def)
  have e: "lg_events ?l = Snapshot l" and b: "lg_byType ?l t = filter (\<lambda>e. ev_Type e = t) (Snapshot l)" for t
    using restore_events [of "Snapshot l" now "New listening"] assms(4) by (simp_all add: New_def)
  have ix: "OfType l t = filter (\<lambda>e. ev_Type e = t) (Snapshot l)" for t
    by (rule log_store.run_index [OF New_invariants(1) assms(1)])
  have ct: "log_contiguous l" by (rule log_scan.run_inv [OF New_invariants(3) assms(1)])
  have "lg_seq ?l = lg_seq l"
  proof (cases "Snapshot l = []")
    case True
    with ct show ?thesis by (simp add: log_contiguous_def Snapshot_def New_def)
  next
    case False
    have o: "sorted_wrt (\<lambda>a b. ev_Seq a < ev_Seq b) (Snapshot l)"
      using v by (simp add: Validate_def validate_from_None)
    have "0 < ev_Seq x" if "x \<in> set (Snapshot l)" for x
      using contiguous_positive [OF assms(1,3) that] .
    with restore_seq [OF o False, of "New listening" now] contiguous_seq [OF ct False] show ?thesis
      by (simp add: New_def)
  qed
  with m r e b ix show ?thesis by (auto simp: MarshalWire_def Snapshot_def OfType_def)
qed

theorem persist_restore_witness:
  "\<exists>l. run apply_request (New True) [ReqAppend PlanMode (DPlanMode \<lparr>pm_Active = True\<rparr>) False 9] = Inr l
     \<and> (\<exists>ws l'. MarshalWire (Snapshot l) = Inr ws \<and> Rehydrate ws False 5 = Inr l' \<and> lg_seq l' = lg_seq l)"
proof -
  obtain l where l: "run apply_request (New True)
      [ReqAppend PlanMode (DPlanMode \<lparr>pm_Active = True\<rparr>) False 9] = Inr l"
    by (simp add: appendWithFlags_def Known_iff)
  then have "\<forall>ev \<in> set (Snapshot l). wire_ok ev \<and> \<not> IsZero (ev_At ev)"
    by (auto simp: appendWithFlags_def Known_iff New_def Snapshot_def wire_ok_def payload_ok_def
        ok_PlanModeFact_def IsZero_def)
  from persist_restore [OF l _ _ this] l show ?thesis by fastforce
qed

end
