(* ===== verification/Event_Chunks.thy ===== *)
theory Event_Chunks
  imports Event_Wire
begin

text \<open>
  The storage encoding of \<open>chunk_rows.go\<close>: runs of streamed chunks are packed into one row when a log is
  saved and expanded when it is loaded. A \<open>map[string]json.RawMessage\<close> is the member list it was parsed
  from, the last member of a key counting. \<open>time.Duration(gap) * time.Millisecond\<close> is a product of 64-bit
  integers and wraps.
\<close>

section \<open>Rows and records\<close>

definition ChunkRowTag :: string where
  "ChunkRowTag = ''text-chunks''"

record TextChunkRow =
  row_Type :: string
  row_Seq0 :: u64
  row_Time0 :: gotime
  row_Turn :: int
  row_Step :: int
  row_Kind :: string
  row_Dt :: "int list"
  row_Texts :: "string list"

datatype StorageRecord = SREvent WireEvent | SRRow TextChunkRow

definition minPackRun :: nat where
  "minPackRun = 3"

definition chunkFactKeys :: "string list" where
  "chunkFactKeys = [''turn'', ''step'', ''chunk'']"

definition raw_keys :: "members \<Rightarrow> string list" where
  "raw_keys ms = remdups (map fst ms)"

definition raw_get :: "members \<Rightarrow> string \<Rightarrow> json option" where
  "raw_get ms k = map_of (rev ms) k"

section \<open>Packing\<close>

definition exactChunkKeys :: "members \<Rightarrow> ChunkFact \<Rightarrow> bool" where
  "exactChunkKeys ms p \<longleftrightarrow>
     (let n = length (raw_keys ms) in
      (n = length chunkFactKeys \<or> n = length chunkFactKeys + 1)
      \<and> (\<forall>k \<in> set chunkFactKeys. k \<in> set (raw_keys ms))
      \<and> (n = length chunkFactKeys + 1 \<longrightarrow>
          ''kind'' \<in> set (raw_keys ms) \<and> (ck_Kind p = [] \<or> ck_Kind p = ''thinking'')))"

definition classifyChunk :: "WireEvent \<Rightarrow> ChunkFact option" where
  "classifyChunk w =
     (if we_Type w \<noteq> AssistantChunk then None
      else case we_Data w of
        None \<Rightarrow> None
      | Some data \<Rightarrow>
         (case dec_ChunkFact data of
            Inl _ \<Rightarrow> None
          | Inr p \<Rightarrow>
              if ck_Chunk p = [] then None
              else (case data of
                JObj ms \<Rightarrow> if exactChunkKeys ms p then Some p else None
              | _ \<Rightarrow> None)))"

definition continuesTextRun :: "WireEvent \<Rightarrow> WireEvent \<Rightarrow> ChunkFact \<Rightarrow> ChunkFact \<Rightarrow> bool" where
  "continuesTextRun prev next prevFact nextFact \<longleftrightarrow>
     we_Seq next = we_Seq prev + 1
     \<and> ck_Turn nextFact = ck_Turn prevFact \<and> ck_Step nextFact = ck_Step prevFact
     \<and> (let gap = UnixMilli (we_At next) - UnixMilli (we_At prev) in - (2 ^ 62) \<le> gap \<and> gap \<le> 2 ^ 62)"

fun gaps :: "WireEvent list \<Rightarrow> int list" where
  "gaps (a # b # ws) = (UnixMilli (we_At b) - UnixMilli (we_At a)) # gaps (b # ws)"
| "gaps _ = []"

definition buildTextRow :: "WireEvent list \<Rightarrow> ChunkFact list \<Rightarrow> TextChunkRow" where
  "buildTextRow ws facts = \<lparr>row_Type = ChunkRowTag, row_Seq0 = we_Seq (hd ws), row_Time0 = we_At (hd ws),
     row_Turn = ck_Turn (hd facts), row_Step = ck_Step (hd facts), row_Kind = ck_Kind (hd facts),
     row_Dt = gaps ws, row_Texts = map ck_Chunk facts\<rparr>"

record packState =
  pk_out :: "StorageRecord list"
  pk_kindFact :: "ChunkFact option"
  pk_run :: "WireEvent list"
  pk_runFacts :: "ChunkFact list"

definition flushPack :: "packState \<Rightarrow> packState" where
  "flushPack st = \<lparr>pk_out = pk_out st @
       (if length (pk_run st) \<ge> minPackRun then [SRRow (buildTextRow (pk_run st) (pk_runFacts st))]
        else map SREvent (pk_run st)),
     pk_kindFact = None, pk_run = [], pk_runFacts = []\<rparr>"

definition packStep :: "packState \<Rightarrow> WireEvent \<Rightarrow> packState" where
  "packStep st ev = (case classifyChunk ev of
     None \<Rightarrow> (let st = flushPack st in st\<lparr>pk_out := pk_out st @ [SREvent ev]\<rparr>)
   | Some f \<Rightarrow>
       if (case pk_kindFact st of None \<Rightarrow> False
           | Some kf \<Rightarrow> continuesTextRun (last (pk_run st)) ev kf f
               \<and> ck_Turn f = ck_Turn (hd (pk_runFacts st)) \<and> ck_Step f = ck_Step (hd (pk_runFacts st))
               \<and> ck_Kind f = ck_Kind (hd (pk_runFacts st)))
       then st\<lparr>pk_run := pk_run st @ [ev], pk_runFacts := pk_runFacts st @ [f]\<rparr>
       else (let st = flushPack st in
         st\<lparr>pk_kindFact := Some f, pk_run := pk_run st @ [ev], pk_runFacts := pk_runFacts st @ [f]\<rparr>))"

definition PackChunkRuns :: "WireEvent list \<Rightarrow> StorageRecord list" where
  "PackChunkRuns events = pk_out (flushPack (foldl packStep
     \<lparr>pk_out = [], pk_kindFact = None, pk_run = [], pk_runFacts = []\<rparr> events))"

section \<open>Expanding\<close>

fun expand_from :: "TextChunkRow \<Rightarrow> u64 \<Rightarrow> gotime \<Rightarrow> int list \<Rightarrow> string list \<Rightarrow> WireEvent list" where
  "expand_from row seq t dts [] = []"
| "expand_from row seq t dts (text # texts) =
     \<lparr>we_Type = AssistantChunk, we_Seq = seq, we_At = t,
      we_Data = Some (enc_ChunkFact \<lparr>ck_Turn = row_Turn row, ck_Step = row_Step row, ck_Chunk = text,
        ck_Kind = row_Kind row\<rparr>),
      we_Ignorable = False, we_SurfaceOp = None, we_SourceEventSeqs = None\<rparr>
     # (case dts of
          [] \<Rightarrow> expand_from row (seq + 1) t [] texts
        | d # ds \<Rightarrow> expand_from row (seq + 1) (t + wrap64 (d * 1000000)) ds texts)"

definition expandRow :: "TextChunkRow \<Rightarrow> WireEvent list" where
  "expandRow row = expand_from row (row_Seq0 row) (row_Time0 row) (row_Dt row) (row_Texts row)"

datatype storageError = MalformedRow string | ParseType jsonError | ParseEvent jsonError

definition rowField :: "members \<Rightarrow> string \<Rightarrow> (json \<Rightarrow> jsonError + 'a) \<Rightarrow> string \<Rightarrow> storageError + 'a" where
  "rowField value k dec why = (case raw_get value k of
     None \<Rightarrow> Inl (MalformedRow why)
   | Some v \<Rightarrow> (case dec v of Inl _ \<Rightarrow> Inl (MalformedRow why) | Inr x \<Rightarrow> Inr x))"

definition d_arr :: "(json \<Rightarrow> jsonError + 'a) \<Rightarrow> json \<Rightarrow> jsonError + 'a list" where
  "d_arr dec v = bindE (c_arr dec v) (\<lambda>r. Inr (case r of None \<Rightarrow> [] | Some xs \<Rightarrow> xs))"

definition rowKind :: "members \<Rightarrow> storageError + string" where
  "rowKind value = (case raw_get value ''kind'' of
     None \<Rightarrow> Inr []
   | Some v \<Rightarrow> (case d_scalar c_str [] v of
       Inl _ \<Rightarrow> Inl (MalformedRow ''kind must be a string'')
     | Inr k \<Rightarrow> if k \<noteq> [] \<and> k \<noteq> ''thinking'' then Inl (MalformedRow ''kind must be empty or thinking'')
               else Inr k))"

definition rowChecks :: "TextChunkRow \<Rightarrow> storageError + TextChunkRow" where
  "rowChecks row =
     (if row_Texts row = [] then Inl (MalformedRow ''texts must be non-empty'')
      else if [] \<in> set (row_Texts row) then Inl (MalformedRow ''texts must not contain empty strings'')
      else if \<exists>gap \<in> set (row_Dt row). gap < - (2 ^ 62) \<or> gap > 2 ^ 62
        then Inl (MalformedRow ''dt gaps must be safe integer milliseconds'')
      else if length (row_Dt row) \<noteq> length (row_Texts row) - 1
        then Inl (MalformedRow ''dt length does not match'')
      else if row_Seq0 row > -1 - of_nat (length (row_Texts row) - 1)
        then Inl (MalformedRow ''member seqs must stay within safe range'')
      else Inr row)"

definition expectedKeys :: "string list" where
  "expectedKeys = [''type'', ''seq0'', ''time0'', ''turn'', ''step'', ''dt'', ''texts'']"

definition validateRow :: "members \<Rightarrow> storageError + TextChunkRow" where
  "validateRow value =
     (if length (raw_keys value) < length expectedKeys \<or> length (raw_keys value) > length expectedKeys + 1
      then Inl (MalformedRow ''envelope'')
      else if \<exists>k \<in> set expectedKeys. k \<notin> set (raw_keys value) then Inl (MalformedRow ''missing key'')
      else
        bindE (rowField value ''type'' (d_scalar c_str []) ''type'') (\<lambda>ty.
        if ty \<noteq> ChunkRowTag then Inl (MalformedRow ''type'') else
        bindE (rowField value ''seq0'' (d_scalar c_u64 0) ''seq0 must be a non-negative integer'') (\<lambda>seq0.
        bindE (rowField value ''time0'' (d_scalar c_time 0) ''time0 must be a valid timestamp'') (\<lambda>time0.
        bindE (rowField value ''turn'' (d_scalar c_int 0) ''turn must be a number'') (\<lambda>turn.
        bindE (rowField value ''step'' (d_scalar c_int 0) ''step must be a number'') (\<lambda>step.
        bindE (rowKind value) (\<lambda>kind.
        bindE (rowField value ''dt'' (d_arr (d_scalar c_int 0)) ''dt must be an array of integers'') (\<lambda>dt.
        bindE (rowField value ''texts'' (d_arr (d_scalar c_str [])) ''texts must be a non-empty string array'') (\<lambda>texts.
        rowChecks \<lparr>row_Type = ty, row_Seq0 = seq0, row_Time0 = time0, row_Turn = turn, row_Step = step,
          row_Kind = kind, row_Dt = dt, row_Texts = texts\<rparr>)))))))))"

text \<open>The JSON shapes of an event line and of a row.\<close>

definition enc_SurfaceOp :: "SurfaceOp \<Rightarrow> json" where
  "enc_SurfaceOp x = JObj (m_str1 ''op'' (so_Op x) @ m_u64 ''start'' (so_Start x) @ m_u64 ''end'' (so_End x))"

definition dec_SurfaceOp :: "json \<Rightarrow> jsonError + SurfaceOp" where
  "dec_SurfaceOp = d_struct (\<lambda>ms.
     bindE (u_str ''op'' [] ms) (\<lambda>a. bindE (u_u64 ''start'' 0 ms) (\<lambda>b. bindE (u_u64 ''end'' 0 ms) (\<lambda>c.
     Inr \<lparr>so_Op = a, so_Start = b, so_End = c\<rparr>))))"

definition c_raw :: "json \<Rightarrow> jsonError + json option option" where
  "c_raw v = Inr (Some (Some v))"

definition c_seqs :: "json \<Rightarrow> jsonError + u64 list option option" where
  "c_seqs v = (if v = JNull then Inr (Some None)
     else bindE (c_arr (d_scalar c_u64 0) v) (\<lambda>r. Inr (Some r)))"

definition members_WireEvent :: "WireEvent \<Rightarrow> members" where
  "members_WireEvent w =
     m_str1 ''type'' (type_string (we_Type w)) @ m_u64_1 ''seq'' (we_Seq w) @ m_time1 ''at'' (we_At w)
     @ m_opt id ''data'' (we_Data w) @ m_bool ''ignorable'' (we_Ignorable w)
     @ m_opt enc_SurfaceOp ''surface_op'' (we_SurfaceOp w)
     @ m_arr (\<lambda>q. JNum (uint q)) ''source_event_seqs''
         (case we_SourceEventSeqs w of None \<Rightarrow> [] | Some qs \<Rightarrow> qs)"

definition dec_WireEvent :: "json \<Rightarrow> jsonError + WireEvent" where
  "dec_WireEvent = d_struct (\<lambda>ms.
     bindE (u_str ''type'' [] ms) (\<lambda>ty. bindE (u_u64 ''seq'' 0 ms) (\<lambda>seq. bindE (u_time ''at'' 0 ms) (\<lambda>at.
     bindE (u_field c_raw ''data'' None ms) (\<lambda>data. bindE (u_bool ''ignorable'' False ms) (\<lambda>ig.
     bindE (u_field (c_opt dec_SurfaceOp) ''surface_op'' None ms) (\<lambda>sop.
     bindE (u_field c_seqs ''source_event_seqs'' None ms) (\<lambda>srcs.
     Inr \<lparr>we_Type = type_of_string ty, we_Seq = seq, we_At = at, we_Data = data, we_Ignorable = ig,
       we_SurfaceOp = sop, we_SourceEventSeqs = srcs\<rparr>))))))))"

definition members_TextChunkRow :: "TextChunkRow \<Rightarrow> members" where
  "members_TextChunkRow r =
     m_str1 ''type'' (row_Type r) @ m_u64_1 ''seq0'' (row_Seq0 r) @ m_time1 ''time0'' (row_Time0 r)
     @ m_int1 ''turn'' (row_Turn r) @ m_int1 ''step'' (row_Step r) @ m_str ''kind'' (row_Kind r)
     @ m_arr JNum ''dt'' (row_Dt r) @ m_arr1 JStr ''texts'' (row_Texts r)"

fun enc_StorageRecord :: "StorageRecord \<Rightarrow> json" where
  "enc_StorageRecord (SREvent w) = JObj (members_WireEvent w)"
| "enc_StorageRecord (SRRow r) = JObj (members_TextChunkRow r)"

definition IsStorageRecord :: "string \<Rightarrow> bool" where
  "IsStorageRecord tag \<longleftrightarrow> tag = ChunkRowTag"

definition DecodeStorageRecord :: "json \<Rightarrow> storageError + WireEvent list" where
  "DecodeStorageRecord value =
     (case d_struct (u_str ''type'' []) value of
        Inl e \<Rightarrow> Inl (ParseType e)
      | Inr ty \<Rightarrow>
          if ty = ChunkRowTag then
            (case value of
               JObj raw \<Rightarrow> bindE (validateRow raw) (\<lambda>row. Inr (expandRow row))
             | _ \<Rightarrow> Inl (MalformedRow ''not a JSON object''))
          else (case dec_WireEvent value of Inl e \<Rightarrow> Inl (ParseEvent e) | Inr ev \<Rightarrow> Inr [ev]))"

section \<open>What can be packed\<close>

lemma u_field_pred:
  assumes "u_field conv k a ms = Inr v" and "P a" and "\<And>j x. conv j = Inr (Some x) \<Longrightarrow> P x"
  shows "P v"
  using assms
  by (induction conv k a ms rule: u_field.induct) (auto split: if_splits sum.splits option.splits)

lemma in_i64_0 [simp]: "in_i64 0"
  by (simp add: in_i64_def)

lemma u_int_range: "u_int k 0 ms = Inr v \<Longrightarrow> in_i64 v"
  by (rule u_field_pred [where P = in_i64]) (auto simp: in_i64_def elim!: c_int.elims split: if_splits)

lemma dec_ChunkFact_ok: "dec_ChunkFact j = Inr f \<Longrightarrow> ok_ChunkFact f"
  by (cases j) (auto simp: dec_ChunkFact_def ok_ChunkFact_def bindE_Inr dest: u_int_range)

lemma u_str_absent: "\<forall>k' \<in> fst ` set ms. ToLower k' \<noteq> ToLower k \<Longrightarrow> u_str k a ms = Inr a"
  by (induction ms arbitrary: a) auto

lemma exact_three:
  assumes "exactChunkKeys ms p" and "length (raw_keys ms) = 3"
  shows "fst ` set ms = {''turn'', ''step'', ''chunk''}"
proof -
  have "card (fst ` set ms) = 3"
    using assms(2) by (simp add: raw_keys_def length_remdups_card_conv)
  moreover have "{''turn'', ''step'', ''chunk''} \<subseteq> fst ` set ms"
    using assms(1) by (auto simp: exactChunkKeys_def chunkFactKeys_def raw_keys_def Let_def)
  moreover have "card {''turn'', ''step'', ''chunk''} = 3" by simp
  ultimately show ?thesis by (metis card_subset_eq finite_imageI finite_set)
qed

lemma classify_Some:
  assumes "classifyChunk w = Some f"
  shows "we_Type w = AssistantChunk" and "ck_Chunk f \<noteq> []" and "ok_ChunkFact f"
    and "ck_Kind f \<in> {[], ''thinking''}" and "decodePayload w = Inr (DChunk f)"
proof -
  from assms obtain data ms where t: "we_Type w = AssistantChunk" and data: "we_Data w = Some data"
    and dec: "dec_ChunkFact data = Inr f" and ne: "ck_Chunk f \<noteq> []" and ms: "data = JObj ms"
    and ex: "exactChunkKeys ms f"
    by (auto simp: classifyChunk_def split: if_splits option.splits sum.splits json.splits)
  show "we_Type w = AssistantChunk" "ck_Chunk f \<noteq> []" by fact+
  show "ok_ChunkFact f" using dec by (rule dec_ChunkFact_ok)
  show "decodePayload w = Inr (DChunk f)"
    using t data dec by (simp add: decodePayload_def decodeTurnPayload_def decodeInto_def)
  show "ck_Kind f \<in> {[], ''thinking''}"
  proof (cases "length (raw_keys ms) = 3")
    case True
    from exact_three [OF ex True] have "u_str ''kind'' [] ms = Inr []"
      by (intro u_str_absent) (auto simp: json_rt)
    with dec ms show ?thesis by (auto simp: dec_ChunkFact_def bindE_Inr)
  next
    case False
    with ex show ?thesis by (auto simp: exactChunkKeys_def chunkFactKeys_def Let_def)
  qed
qed

text \<open>A run as the packer collects it.\<close>

definition next_chunk :: "WireEvent \<Rightarrow> WireEvent \<Rightarrow> bool" where
  "next_chunk a b \<longleftrightarrow> we_Seq b = we_Seq a + 1
     \<and> - (2 ^ 62) \<le> UnixMilli (we_At b) - UnixMilli (we_At a) \<and> UnixMilli (we_At b) - UnixMilli (we_At a) \<le> 2 ^ 62"

definition run_ok :: "WireEvent list \<Rightarrow> ChunkFact list \<Rightarrow> bool" where
  "run_ok ws facts \<longleftrightarrow>
     list_all2 (\<lambda>w f. classifyChunk w = Some f) ws facts \<and> successively next_chunk ws
     \<and> (\<forall>f \<in> set facts. ck_Turn f = ck_Turn (hd facts) \<and> ck_Step f = ck_Step (hd facts)
          \<and> ck_Kind f = ck_Kind (hd facts))"

text \<open>The instants of a list of events are close enough for a \<open>Duration\<close>, in milliseconds, to hold their gaps.\<close>

definition gaps_fit :: "WireEvent set \<Rightarrow> bool" where
  "gaps_fit W \<longleftrightarrow> (\<forall>a \<in> W. \<forall>b \<in> W. in_i64 ((UnixMilli (we_At b) - UnixMilli (we_At a)) * 1000000))"

text \<open>How an event comes back from a row that starts at the instant \<open>t0\<close>.\<close>

definition rowed :: "gotime \<Rightarrow> WireEvent \<Rightarrow> WireEvent \<Rightarrow> bool" where
  "rowed t0 w w' \<longleftrightarrow> (\<exists>f. classifyChunk w = Some f
     \<and> w' = \<lparr>we_Type = AssistantChunk, we_Seq = we_Seq w,
          we_At = t0 + (UnixMilli (we_At w) - UnixMilli t0) * 1000000,
          we_Data = Some (enc_ChunkFact f), we_Ignorable = False, we_SurfaceOp = None,
          we_SourceEventSeqs = None\<rparr>)"

lemma rowedI:
  "classifyChunk w = Some f \<Longrightarrow> rowed t0 w \<lparr>we_Type = AssistantChunk, we_Seq = we_Seq w,
     we_At = t0 + (UnixMilli (we_At w) - UnixMilli t0) * 1000000, we_Data = Some (enc_ChunkFact f),
     we_Ignorable = False, we_SurfaceOp = None, we_SourceEventSeqs = None\<rparr>"
  by (simp add: rowed_def)

lemma expand_run:
  assumes "list_all2 (\<lambda>w f. classifyChunk w = Some f) ws facts" and "successively next_chunk ws"
    and "\<forall>f \<in> set facts. ck_Turn f = row_Turn row \<and> ck_Step f = row_Step row \<and> ck_Kind f = row_Kind row"
    and "gaps_fit (set ws)" and "ws \<noteq> []"
    and "seq = we_Seq (hd ws)" and "t = t0 + (UnixMilli (we_At (hd ws)) - UnixMilli t0) * 1000000"
  shows "list_all2 (rowed t0) ws (expand_from row seq t (gaps ws) (map ck_Chunk facts))"
  using assms
proof (induction ws arbitrary: facts seq t)
  case (Cons w ws)
  then obtain f fs where fs: "facts = f # fs" "classifyChunk w = Some f"
    "list_all2 (\<lambda>w f. classifyChunk w = Some f) ws fs" by (auto simp: list_all2_Cons1)
  have "\<lparr>ck_Turn = row_Turn row, ck_Step = row_Step row, ck_Chunk = ck_Chunk f, ck_Kind = row_Kind row\<rparr> = f"
    using Cons.prems(3) fs by (intro ChunkFact.equality) simp_all
  then have f: "enc_ChunkFact \<lparr>ck_Turn = row_Turn row, ck_Step = row_Step row, ck_Chunk = ck_Chunk f,
      ck_Kind = row_Kind row\<rparr> = enc_ChunkFact f" by (simp only:)
  show ?case
  proof (cases ws)
    case Nil
    with Cons.prems(6,7) fs f rowedI [OF fs(2), of t0] show ?thesis by simp
  next
    case (Cons b bs)
    have fit: "in_i64 ((UnixMilli (we_At b) - UnixMilli (we_At w)) * 1000000)" "gaps_fit (set ws)"
      using Cons.prems(4) Cons by (auto simp: gaps_fit_def)
    have "list_all2 (rowed t0) ws (expand_from row (seq + 1)
        (t + (UnixMilli (we_At b) - UnixMilli (we_At w)) * 1000000) (gaps ws) (map ck_Chunk fs))"
      using Cons.prems Cons fs fit by (intro Cons.IH) (auto simp: algebra_simps next_chunk_def)
    with Cons.prems(6,7) Cons fs f fit rowedI [OF fs(2), of t0] show ?thesis by (simp add: wrap64_id)
  qed
qed simp

lemma expand_build:
  assumes "run_ok ws facts" and "gaps_fit (set ws)" and "ws \<noteq> []"
  shows "list_all2 (rowed (we_At (hd ws))) ws (expandRow (buildTextRow ws facts))"
proof -
  have "expandRow (buildTextRow ws facts) = expand_from (buildTextRow ws facts) (we_Seq (hd ws)) (we_At (hd ws))
      (gaps ws) (map ck_Chunk facts)" by (simp add: expandRow_def buildTextRow_def)
  moreover have "list_all2 (rowed (we_At (hd ws))) ws (expand_from (buildTextRow ws facts) (we_Seq (hd ws))
      (we_At (hd ws)) (gaps ws) (map ck_Chunk facts))"
    by (rule expand_run) (use assms in \<open>auto simp: run_ok_def buildTextRow_def\<close>)
  ultimately show ?thesis by simp
qed

section \<open>The packing loop\<close>

fun unpack :: "StorageRecord \<Rightarrow> WireEvent list" where
  "unpack (SREvent w) = [w]"
| "unpack (SRRow r) = expandRow r"

text \<open>An event is stored as it is or in a row.\<close>

definition stored :: "WireEvent set \<Rightarrow> WireEvent \<Rightarrow> WireEvent \<Rightarrow> bool" where
  "stored W w w' \<longleftrightarrow> w' = w \<or> (\<exists>a \<in> W. rowed (we_At a) w w')"

text \<open>What a record may hold: an event of the log, or a row built from a run of it.\<close>

definition record_ok :: "WireEvent set \<Rightarrow> StorageRecord \<Rightarrow> bool" where
  "record_ok W r \<longleftrightarrow> (\<exists>w \<in> W. r = SREvent w)
     \<or> (\<exists>ws facts. r = SRRow (buildTextRow ws facts) \<and> run_ok ws facts \<and> minPackRun \<le> length ws
          \<and> set ws \<subseteq> W \<and> sorted_wrt (\<lambda>a b. we_Seq a < we_Seq b) ws)"

definition pack_inv :: "WireEvent set \<Rightarrow> WireEvent list \<Rightarrow> packState \<Rightarrow> bool" where
  "pack_inv W pre st \<longleftrightarrow> (\<exists>xs. pre = xs @ pk_run st
     \<and> list_all2 (stored W) xs (concat (map unpack (pk_out st))))
     \<and> run_ok (pk_run st) (pk_runFacts st)
     \<and> pk_kindFact st = (if pk_run st = [] then None else Some (hd (pk_runFacts st)))
     \<and> (\<forall>r \<in> set (pk_out st). record_ok W r)"

lemma pack_inv_flush:
  assumes inv: "pack_inv W pre st" and W: "set pre \<subseteq> W" "gaps_fit W"
    and so: "sorted_wrt (\<lambda>a b. we_Seq a < we_Seq b) pre"
  shows "pack_inv W pre (flushPack st)" and "pk_run (flushPack st) = []"
proof -
  from inv obtain xs where xs: "pre = xs @ pk_run st" "list_all2 (stored W) xs (concat (map unpack (pk_out st)))"
    and ro: "run_ok (pk_run st) (pk_runFacts st)" and ok: "\<forall>r \<in> set (pk_out st). record_ok W r"
    by (auto simp: pack_inv_def)
  have sub: "set (pk_run st) \<subseteq> W" using xs(1) W(1) by auto
  let ?new = "if length (pk_run st) \<ge> minPackRun then [SRRow (buildTextRow (pk_run st) (pk_runFacts st))]
        else map SREvent (pk_run st)"
  have new: "list_all2 (stored W) (pk_run st) (concat (map unpack ?new)) \<and> (\<forall>r \<in> set ?new. record_ok W r)"
  proof (cases "length (pk_run st) \<ge> minPackRun")
    case True
    then have ne: "pk_run st \<noteq> []" by (auto simp: minPackRun_def)
    have "gaps_fit (set (pk_run st))" using W(2) sub by (auto simp: gaps_fit_def)
    from expand_build [OF ro this ne]
    have "list_all2 (stored W) (pk_run st) (expandRow (buildTextRow (pk_run st) (pk_runFacts st)))"
      by (rule list_all2_mono) (use hd_in_set [OF ne] sub in \<open>auto simp: stored_def\<close>)
    moreover have "sorted_wrt (\<lambda>a b. we_Seq a < we_Seq b) (pk_run st)"
      using so xs(1) by (simp add: sorted_wrt_append)
    ultimately show ?thesis using True ro sub by (auto simp: record_ok_def)
  next
    case False
    have "concat (map unpack (map SREvent ws)) = ws" for ws by (induction ws) auto
    then have "list_all2 (stored W) ws (concat (map unpack (map SREvent ws)))" for ws
      by (simp add: list_all2_same stored_def)
    with False sub show ?thesis by (auto simp: record_ok_def simp del: map_map)
  qed
  show "pk_run (flushPack st) = []" by (simp add: flushPack_def)
  have "list_all2 (stored W) pre (concat (map unpack (pk_out st @ ?new)))"
    unfolding xs(1) map_append concat_append using xs(2) new by (intro list_all2_appendI) auto
  then show "pack_inv W pre (flushPack st)"
    using new ok by (auto simp: pack_inv_def flushPack_def run_ok_def)
qed

lemma run_ok_single: "classifyChunk w = Some f \<Longrightarrow> run_ok [w] [f]"
  by (simp add: run_ok_def)

lemma run_ok_snoc:
  assumes "run_ok ws facts" and "ws \<noteq> []" and "classifyChunk w = Some f" and "next_chunk (last ws) w"
    and "ck_Turn f = ck_Turn (hd facts)" "ck_Step f = ck_Step (hd facts)" "ck_Kind f = ck_Kind (hd facts)"
  shows "run_ok (ws @ [w]) (facts @ [f])"
proof -
  have "facts \<noteq> []" using assms(1,2) by (auto simp: run_ok_def)
  then have "hd (facts @ [f]) = hd facts" by simp
  moreover have "list_all2 (\<lambda>w f. classifyChunk w = Some f) (ws @ [w]) (facts @ [f])"
    using assms(1,3) by (intro list_all2_appendI) (simp_all add: run_ok_def)
  moreover have "successively next_chunk (ws @ [w])"
    using assms(1,4) by (simp add: run_ok_def successively_append_iff)
  ultimately show ?thesis using assms(1,5-7) by (simp add: run_ok_def)
qed

lemma pack_inv_step:
  assumes inv: "pack_inv W pre st" and W: "set (pre @ [ev]) \<subseteq> W" "gaps_fit W"
    and so: "sorted_wrt (\<lambda>a b. we_Seq a < we_Seq b) (pre @ [ev])"
  shows "pack_inv W (pre @ [ev]) (packStep st ev)"
proof -
  have so': "sorted_wrt (\<lambda>a b. we_Seq a < we_Seq b) pre" using so by (simp add: sorted_wrt_append)
  have fl: "pack_inv W pre (flushPack st)" "pk_run (flushPack st) = []"
    using pack_inv_flush [OF inv _ W(2) so'] W(1) by auto
  show ?thesis
  proof (cases "classifyChunk ev")
    case None
    have "list_all2 (stored W) (pre @ [ev]) (concat (map unpack (pk_out (flushPack st))) @ [ev])"
      using fl by (intro list_all2_appendI) (auto simp: pack_inv_def stored_def)
    with fl None W(1) show ?thesis
      by (auto simp: packStep_def pack_inv_def Let_def record_ok_def)
  next
    case (Some f)
    show ?thesis
    proof (cases "case pk_kindFact st of None \<Rightarrow> False
           | Some kf \<Rightarrow> continuesTextRun (last (pk_run st)) ev kf f
               \<and> ck_Turn f = ck_Turn (hd (pk_runFacts st)) \<and> ck_Step f = ck_Step (hd (pk_runFacts st))
               \<and> ck_Kind f = ck_Kind (hd (pk_runFacts st))")
      case True
      then obtain kf where kf: "pk_kindFact st = Some kf" and c: "continuesTextRun (last (pk_run st)) ev kf f"
        and h: "ck_Turn f = ck_Turn (hd (pk_runFacts st))" "ck_Step f = ck_Step (hd (pk_runFacts st))"
          "ck_Kind f = ck_Kind (hd (pk_runFacts st))" by (auto split: option.splits)
      from kf inv have ne: "pk_run st \<noteq> []" and ro: "run_ok (pk_run st) (pk_runFacts st)"
        by (auto simp: pack_inv_def split: if_splits)
      have "next_chunk (last (pk_run st)) ev" using c by (simp add: continuesTextRun_def next_chunk_def Let_def)
      then have r: "run_ok (pk_run st @ [ev]) (pk_runFacts st @ [f])" by (intro run_ok_snoc ro ne Some h)
      have "pk_runFacts st \<noteq> []" using ro ne by (auto simp: run_ok_def)
      then have "hd (pk_runFacts st @ [f]) = hd (pk_runFacts st)" by simp
      moreover have "packStep st ev = st\<lparr>pk_run := pk_run st @ [ev], pk_runFacts := pk_runFacts st @ [f]\<rparr>"
        using True Some by (simp add: packStep_def)
      ultimately show ?thesis using inv r ne by (simp add: pack_inv_def)
    next
      case False
      then have "packStep st ev = (flushPack st)\<lparr>pk_kindFact := Some f, pk_run := [ev], pk_runFacts := [f]\<rparr>"
        using Some by (simp add: packStep_def flushPack_def Let_def)
      with fl run_ok_single [OF Some] show ?thesis by (simp add: pack_inv_def)
    qed
  qed
qed

lemma pack_all:
  assumes "gaps_fit (set ws)" and "sorted_wrt (\<lambda>a b. we_Seq a < we_Seq b) ws"
  shows "list_all2 (stored (set ws)) ws (concat (map unpack (PackChunkRuns ws)))"
    and "\<forall>r \<in> set (PackChunkRuns ws). record_ok (set ws) r"
proof -
  let ?i = "\<lparr>pk_out = [], pk_kindFact = None, pk_run = [], pk_runFacts = []\<rparr>"
  have "pack_inv (set ws) pre (foldl packStep ?i pre)" if "prefix pre ws" for pre
    using that
  proof (induction pre rule: rev_induct)
    case Nil
    then show ?case by (simp add: pack_inv_def run_ok_def)
  next
    case (snoc x xs)
    then have p: "prefix xs ws" by (metis append_prefixD)
    have "sorted_wrt (\<lambda>a b. we_Seq a < we_Seq b) (xs @ [x])"
      using snoc.prems assms(2) by (auto simp: prefix_def sorted_wrt_append)
    with pack_inv_step [OF snoc.IH [OF p]] set_mono_prefix [OF snoc.prems] assms(1)
    show ?case by simp
  qed
  from this [of ws] have "pack_inv (set ws) ws (foldl packStep ?i ws)" by simp
  from pack_inv_flush [OF this _ assms] have "pack_inv (set ws) ws (flushPack (foldl packStep ?i ws))"
    "pk_run (flushPack (foldl packStep ?i ws)) = []" by simp_all
  then show "list_all2 (stored (set ws)) ws (concat (map unpack (PackChunkRuns ws)))"
    and "\<forall>r \<in> set (PackChunkRuns ws). record_ok (set ws) r"
    by (auto simp: pack_inv_def PackChunkRuns_def)
qed

section \<open>Stored lines are read back\<close>

lemma line_key_lower [json_rt]:
  "ToLower ''type'' = ''type''" "ToLower ''seq'' = ''seq''" "ToLower ''at'' = ''at''"
  "ToLower ''data'' = ''data''" "ToLower ''ignorable'' = ''ignorable''"
  "ToLower ''surface_op'' = ''surface_op''" "ToLower ''source_event_seqs'' = ''source_event_seqs''"
  "ToLower ''op'' = ''op''" "ToLower ''start'' = ''start''" "ToLower ''end'' = ''end''"
  "ToLower ''seq0'' = ''seq0''" "ToLower ''time0'' = ''time0''" "ToLower ''dt'' = ''dt''"
  "ToLower ''texts'' = ''texts''"
  by (simp_all add: ToLower_def lower_char_def)

interpretation SurfaceOp_rt: json_codec enc_SurfaceOp dec_SurfaceOp "\<lambda>_. True"
  by unfold_locales (simp_all add: enc_SurfaceOp_def dec_SurfaceOp_def json_rt)

lemma raw_same [json_rt]: "u_field c_raw k None (m_opt id k v) = Inr v"
  by (cases v) (simp_all add: m_opt_def c_raw_def)

lemma seqs_same [json_rt]:
  assumes "v \<noteq> Some []"
  shows "u_field c_seqs k None (m_arr (\<lambda>q. JNum (uint q)) k (case v of None \<Rightarrow> [] | Some qs \<Rightarrow> qs)) = Inr v"
proof (cases v)
  case (Some qs)
  have "dec_list (d_scalar c_u64 0) (map (\<lambda>q. JNum (uint q)) qs) = Inr qs"
    by (rule dec_list_map) (simp add: json_rt)
  with Some assms show ?thesis by (simp add: m_arr_def c_seqs_def)
qed (simp add: m_arr_def)

lemma type_string_not_row: "Known t \<Longrightarrow> type_string t \<noteq> ChunkRowTag"
  using type_string_table [of t] by (auto simp: type_table_def ChunkRowTag_def)

text \<open>An event line that JSON can carry: a kind of the vocabulary, and no empty list of sources.\<close>

definition line_ok :: "WireEvent \<Rightarrow> bool" where
  "line_ok w \<longleftrightarrow> Known (we_Type w) \<and> we_SourceEventSeqs w \<noteq> Some []"

lemma decode_event_line:
  assumes "line_ok w"
  shows "DecodeStorageRecord (enc_StorageRecord (SREvent w)) = Inr [w]"
proof -
  have "type_of_string (type_string (we_Type w)) = we_Type w"
    using assms by (intro type_of_string_eq type_string_table) (simp add: line_ok_def)
  then have "dec_WireEvent (JObj (members_WireEvent w)) = Inr w"
    using assms by (simp add: dec_WireEvent_def members_WireEvent_def json_rt SurfaceOp_rt.opt_rt
        option.pred_True line_ok_def)
  moreover have "u_str ''type'' [] (members_WireEvent w) = Inr (type_string (we_Type w))"
    by (simp add: members_WireEvent_def json_rt)
  ultimately show ?thesis
    using assms by (simp add: DecodeStorageRecord_def line_ok_def type_string_not_row)
qed

definition row_ok :: "TextChunkRow \<Rightarrow> bool" where
  "row_ok r \<longleftrightarrow> row_Type r = ChunkRowTag \<and> row_Dt r \<noteq> [] \<and> [] \<notin> set (row_Texts r)
     \<and> (\<forall>g \<in> set (row_Dt r). - (2 ^ 62) \<le> g \<and> g \<le> 2 ^ 62) \<and> length (row_Texts r) = Suc (length (row_Dt r))
     \<and> row_Seq0 r \<le> -1 - of_nat (length (row_Dt r)) \<and> in_i64 (row_Turn r) \<and> in_i64 (row_Step r)
     \<and> row_Kind r \<in> {[], ''thinking''}"

lemma decode_gaps: "\<forall>g \<in> set gs. - (2 ^ 62) \<le> g \<and> g \<le> 2 ^ 62 \<Longrightarrow> dec_list (d_scalar c_int 0) (map JNum gs) = Inr gs"
  by (rule dec_list_map) (auto simp: json_rt in_i64_def)

lemma decode_texts: "dec_list (d_scalar c_str []) (map JStr ts) = Inr ts"
  by (rule dec_list_map) (simp add: json_rt)

lemma rowChecks_ok: "row_ok r \<Longrightarrow> rowChecks r = Inr r"
  by (auto simp: rowChecks_def row_ok_def not_less)

lemma validate_row_line:
  assumes "row_ok r"
  shows "validateRow (members_TextChunkRow r) = Inr r"
proof -
  have dt: "dec_list (d_scalar c_int 0) (map JNum (row_Dt r)) = Inr (row_Dt r)"
    using assms by (intro decode_gaps) (simp add: row_ok_def)
  have ms: "members_TextChunkRow r = [(''type'', JStr ChunkRowTag), (''seq0'', JNum (uint (row_Seq0 r))),
      (''time0'', JTime (row_Time0 r)), (''turn'', JNum (row_Turn r)), (''step'', JNum (row_Step r))]
      @ (if row_Kind r = [] then [] else [(''kind'', JStr ''thinking'')])
      @ [(''dt'', JArr (map JNum (row_Dt r))), (''texts'', JArr (map JStr (row_Texts r)))]"
    using assms by (auto simp: members_TextChunkRow_def m_defs row_ok_def)
  have "\<lparr>row_Type = ChunkRowTag, row_Seq0 = row_Seq0 r, row_Time0 = row_Time0 r, row_Turn = row_Turn r,
      row_Step = row_Step r, row_Kind = row_Kind r, row_Dt = row_Dt r, row_Texts = row_Texts r\<rparr> = r"
    using assms by (simp add: row_ok_def)
  then have rc: "rowChecks \<lparr>row_Type = ChunkRowTag, row_Seq0 = row_Seq0 r, row_Time0 = row_Time0 r,
      row_Turn = row_Turn r, row_Step = row_Step r, row_Kind = row_Kind r, row_Dt = row_Dt r,
      row_Texts = row_Texts r\<rparr> = Inr r" using rowChecks_ok [OF assms] by (simp only:)
  have sc: "d_scalar c_str [] (JStr s) = Inr s" "d_scalar c_u64 0 (JNum (uint q)) = Inr q"
    "d_scalar c_time 0 (JTime t) = Inr t" for s q t
    using uint_range [of q] by (simp_all add: d_scalar_def)
  have i: "d_scalar c_int 0 (JNum (row_Turn r)) = Inr (row_Turn r)"
    "d_scalar c_int 0 (JNum (row_Step r)) = Inr (row_Step r)"
    using assms by (simp_all add: d_scalar_def row_ok_def)
  show ?thesis
  proof (cases "row_Kind r = []")
    case True
    with rc show ?thesis
      unfolding ms
      by (simp add: validateRow_def raw_keys_def expectedKeys_def rowField_def raw_get_def rowKind_def sc i
          d_arr_def dt decode_texts)
  next
    case False
    then have k: "row_Kind r = ''thinking''" using assms by (simp add: row_ok_def)
    from rc show ?thesis
      unfolding ms k
      by (simp add: validateRow_def raw_keys_def expectedKeys_def rowField_def raw_get_def rowKind_def sc i
          d_arr_def dt decode_texts)
  qed
qed

lemma decode_row_line:
  assumes "row_ok r"
  shows "DecodeStorageRecord (enc_StorageRecord (SRRow r)) = Inr (expandRow r)"
proof -
  have "u_str ''type'' [] (members_TextChunkRow r) = Inr ChunkRowTag"
    using assms by (simp add: members_TextChunkRow_def json_rt row_ok_def)
  with validate_row_line [OF assms] show ?thesis by (simp add: DecodeStorageRecord_def)
qed

text \<open>Rows the packer builds satisfy the conditions.\<close>

lemma u64_room:
  assumes "unat (x :: u64) + n < 2 ^ 64"
  shows "x \<le> -1 - of_nat n"
proof -
  have n: "unat (of_nat n :: u64) = n" using assms by (simp add: unat_of_nat take_bit_nat_eq_self)
  then have "unat (-1 - of_nat n :: u64) = 2 ^ 64 - 1 - n"
    using unat_sub [of "of_nat n" "-1 :: u64"] by (simp add: unat_max_u64 word_order.extremum)
  then show ?thesis using assms by (simp add: word_le_nat_alt)
qed

lemma length_gaps: "length (gaps ws) = length ws - 1"
  by (induction ws rule: gaps.induct) auto

lemma gaps_bounds:
  "successively next_chunk ws \<Longrightarrow> \<forall>g \<in> set (gaps ws). - (2 ^ 62) \<le> g \<and> g \<le> 2 ^ 62"
proof (induction ws rule: gaps.induct)
  case (1 a b ws)
  then have "next_chunk a b" "\<forall>g \<in> set (gaps (b # ws)). - (2 ^ 62) \<le> g \<and> g \<le> 2 ^ 62" by simp_all
  then show ?case unfolding next_chunk_def by simp
qed simp_all

lemma run_seq_bound:
  assumes "successively next_chunk ws" and "sorted_wrt (\<lambda>a b. we_Seq a < we_Seq b) ws" and "ws \<noteq> []"
  shows "unat (we_Seq (last ws)) = unat (we_Seq (hd ws)) + (length ws - 1)"
  using assms
proof (induction ws rule: induct_list012)
  case (3 a b ws)
  have "next_chunk a b" and lt: "we_Seq a < we_Seq b" using "3.prems"(1,2) by simp_all
  then have s: "we_Seq b = we_Seq a + 1" "we_Seq a < we_Seq b" by (simp_all only: next_chunk_def)
  then have "we_Seq a \<noteq> -1" by auto
  with s(1) have b: "unat (we_Seq b) = unat (we_Seq a) + 1" by (simp add: unat_succ_u64)
  have "unat (we_Seq (last (b # ws))) = unat (we_Seq b) + length ws"
    using "3.IH"(2) "3.prems"(1,2) by simp
  then show ?case unfolding b by simp
qed simp_all

lemma built_row_ok:
  assumes ro: "run_ok ws facts" and len: "minPackRun \<le> length ws"
    and so: "sorted_wrt (\<lambda>a b. we_Seq a < we_Seq b) ws"
  shows "row_ok (buildTextRow ws facts)"
proof -
  have ne: "ws \<noteq> []" "length (gaps ws) > 0" and lf: "length facts = length ws"
    using len ro by (auto simp: minPackRun_def length_gaps run_ok_def dest: list_all2_lengthD)
  have cl: "ck_Chunk f \<noteq> [] \<and> ok_ChunkFact f \<and> ck_Kind f \<in> {[], ''thinking''}" if "f \<in> set facts" for f
  proof -
    from that obtain i where i: "i < length facts" "f = facts ! i" by (metis in_set_conv_nth)
    with ro have "classifyChunk (ws ! i) = Some f" by (auto simp: run_ok_def list_all2_conv_all_nth)
    then show ?thesis using classify_Some by blast
  qed
  have hd: "hd facts \<in> set facts" using lf ne(1) by (intro hd_in_set) auto
  have "unat (we_Seq (hd ws)) + length (gaps ws) < 2 ^ 64"
    using run_seq_bound [OF _ so ne(1)] ro unat_less_2p64 [of "we_Seq (last ws)"]
    by (simp add: run_ok_def length_gaps)
  then have "we_Seq (hd ws) \<le> -1 - of_nat (length (gaps ws))" by (rule u64_room)
  moreover have "[] \<notin> set (map ck_Chunk facts)" using cl by force
  moreover have "gaps ws \<noteq> []" using ne(2) by blast
  moreover have "length facts = Suc (length (gaps ws))" using ne(2) lf by (simp add: length_gaps)
  moreover have "\<forall>g \<in> set (gaps ws). - (2 ^ 62) \<le> g \<and> g \<le> 2 ^ 62"
    using ro by (intro gaps_bounds) (simp add: run_ok_def)
  ultimately show ?thesis
    using cl [OF hd] by (simp add: row_ok_def buildTextRow_def ok_ChunkFact_def)
qed

lemma decode_records:
  assumes "\<forall>r \<in> set rs. record_ok W r" and "\<forall>w \<in> W. line_ok w"
  shows "mapE (\<lambda>r. DecodeStorageRecord (enc_StorageRecord r)) rs = Inr (map unpack rs)"
  using assms(1)
proof (induction rs)
  case (Cons r rs)
  have "DecodeStorageRecord (enc_StorageRecord r) = Inr (unpack r)"
  proof (cases r)
    case (SREvent w)
    with Cons.prems assms(2) have "line_ok w" by (auto simp: record_ok_def)
    with SREvent show ?thesis by (simp only: decode_event_line unpack.simps)
  next
    case (SRRow row)
    with Cons.prems have "row_ok row" by (auto simp: record_ok_def intro: built_row_ok)
    with SRRow show ?thesis by (simp only: decode_row_line unpack.simps)
  qed
  with Cons show ?case by simp
qed simp

section \<open>Properties\<close>

lemma rowed_near:
  assumes "rowed t0 w w'"
  shows "we_Type w' = we_Type w" "we_Seq w' = we_Seq w" "decodePayload w' = decodePayload w"
    and "\<bar>we_At w' - we_At w\<bar> < 1000000"
proof -
  from assms obtain f where f: "classifyChunk w = Some f" and w': "w' = \<lparr>we_Type = AssistantChunk,
      we_Seq = we_Seq w, we_At = t0 + (UnixMilli (we_At w) - UnixMilli t0) * 1000000,
      we_Data = Some (enc_ChunkFact f), we_Ignorable = False, we_SurfaceOp = None,
      we_SourceEventSeqs = None\<rparr>" by (auto simp: rowed_def)
  show "we_Type w' = we_Type w" "we_Seq w' = we_Seq w" using classify_Some(1) [OF f] by (simp_all add: w')
  show "decodePayload w' = decodePayload w"
    using classify_Some(3,5) [OF f]
    by (simp add: w' decodePayload_def decodeTurnPayload_def decodeInto_def ChunkFact_dec_enc)
  show "\<bar>we_At w' - we_At w\<bar> < 1000000"
    by (simp add: w' UnixMilli_def)
qed

text \<open>Events a row reproduces to the last bit: plain flags, the canonical bytes, a whole millisecond.\<close>

definition canonical_chunk :: "WireEvent \<Rightarrow> bool" where
  "canonical_chunk w \<longleftrightarrow> (\<forall>f. classifyChunk w = Some f \<longrightarrow>
     we_Data w = Some (enc_ChunkFact f) \<and> \<not> we_Ignorable w \<and> we_SurfaceOp w = None
     \<and> we_SourceEventSeqs w = None) \<and> (we_At w - unix_epoch) mod 1000000 = 0"

lemma rowed_exact:
  assumes "rowed (we_At a) w w'" and "canonical_chunk a" and "canonical_chunk w"
  shows "w' = w"
proof -
  from assms obtain f where f: "classifyChunk w = Some f" and w': "w' = \<lparr>we_Type = AssistantChunk,
      we_Seq = we_Seq w, we_At = we_At a + (UnixMilli (we_At w) - UnixMilli (we_At a)) * 1000000,
      we_Data = Some (enc_ChunkFact f), we_Ignorable = False, we_SurfaceOp = None,
      we_SourceEventSeqs = None\<rparr>" by (auto simp: rowed_def)
  have "(we_At a - unix_epoch) mod 1000000 = 0" "(we_At w - unix_epoch) mod 1000000 = 0"
    using assms(2,3) by (simp_all add: canonical_chunk_def)
  then have "UnixMilli (we_At a) * 1000000 = we_At a - unix_epoch"
    "UnixMilli (we_At w) * 1000000 = we_At w - unix_epoch" by (auto simp: UnixMilli_def)
  then have "we_At w' = we_At w" by (simp add: w' left_diff_distrib)
  with f assms(3) classify_Some(1) [OF f] show ?thesis
    by (auto simp: w' canonical_chunk_def intro!: WireEvent.equality)
qed



definition flagged_chunk :: "u64 \<Rightarrow> gotime \<Rightarrow> WireEvent" where
  "flagged_chunk q ns = \<lparr>we_Type = AssistantChunk, we_Seq = q, we_At = unix_epoch + ns,
     we_Data = Some (enc_ChunkFact \<lparr>ck_Turn = 1, ck_Step = 1, ck_Chunk = ''a'', ck_Kind = []\<rparr>),
     we_Ignorable = True, we_SurfaceOp = None, we_SourceEventSeqs = None\<rparr>"

text \<open>
  Rows are not the exact original events the package comment promises: packing three chunks clears
  their ignorable flag and moves the later ones by the fraction of a millisecond; and a gap of $2^{62}$
  milliseconds, which the row check allows, expands to no gap at all.
\<close>

theorem chunk_rows_not_exact:
  "map (\<lambda>w. (we_Seq w, we_Ignorable w, we_At w - unix_epoch))
      (concat (map unpack (PackChunkRuns [flagged_chunk 1 0, flagged_chunk 2 1500000, flagged_chunk 3 2700000])))
      = [(1, False, 0), (2, False, 1000000), (3, False, 2000000)]
    \<and> rowChecks \<lparr>row_Type = ChunkRowTag, row_Seq0 = 1, row_Time0 = t, row_Turn = 1, row_Step = 1, row_Kind = [],
        row_Dt = [2 ^ 62], row_Texts = [''a'', ''b'']\<rparr>
      = Inr \<lparr>row_Type = ChunkRowTag, row_Seq0 = 1, row_Time0 = t, row_Turn = 1, row_Step = 1, row_Kind = [],
        row_Dt = [2 ^ 62], row_Texts = [''a'', ''b'']\<rparr>
    \<and> map we_At (expandRow \<lparr>row_Type = ChunkRowTag, row_Seq0 = 1, row_Time0 = t, row_Turn = 1, row_Step = 1,
        row_Kind = [], row_Dt = [2 ^ 62], row_Texts = [''a'', ''b'']\<rparr>) = [t, t]"
proof (intro conjI)
  show "map (\<lambda>w. (we_Seq w, we_Ignorable w, we_At w - unix_epoch))
      (concat (map unpack (PackChunkRuns [flagged_chunk 1 0, flagged_chunk 2 1500000, flagged_chunk 3 2700000])))
      = [(1, False, 0), (2, False, 1000000), (3, False, 2000000)]"
    unfolding flagged_chunk_def by code_simp
  have "wrap64 (4611686018427387904 * 1000000) = 0" by code_simp
  then show "map we_At (expandRow \<lparr>row_Type = ChunkRowTag, row_Seq0 = 1, row_Time0 = t, row_Turn = 1, row_Step = 1,
        row_Kind = [], row_Dt = [2 ^ 62], row_Texts = [''a'', ''b'']\<rparr>) = [t, t]"
    by (simp add: expandRow_def)
qed (simp add: rowChecks_def word_le_def)

end
