(* ===== verification/Tool_Policy.thy ===== *)
theory Tool_Policy
  imports Go_Json
begin

text \<open>
  Tool names and their safety metadata, from \<open>internal/engine/safety\<close> (\<open>capabilities.go\<close>,
  \<open>permission.go\<close>, \<open>profile.go\<close>) and \<open>internal/tool/tool.go\<close>: the alias table that
  canonicalises a tool name, the capability table, the read-only list and the classes of network, write
  and read-only tools. A Go \<open>switch\<close> over literals is a table looked up in order; arguments of a call
  are a map from names to JSON values. The screens \<open>tool.IsSuspicious\<close> and
  \<open>tool.IsDestructiveCommand\<close>, lists of regular expressions over shell text, are arguments of the
  definitions that call them.
\<close>

section \<open>Names\<close>

type_synonym tool_args = "string \<Rightarrow> json option"

record ToolCallInfo =
  tc_Name :: string
  tc_ID :: string
  tc_Args :: tool_args

text \<open>\<open>args[k].(string)\<close>\<close>

definition str_arg :: "tool_args \<Rightarrow> string \<Rightarrow> string option" where
  "str_arg args k = (case args k of Some (JStr s) \<Rightarrow> Some s | _ \<Rightarrow> None)"

definition alias_table :: "(string \<times> string) list" where
  "alias_table =
  [(''bash'', ''Bash''), (''file_read'', ''Read''), (''read'', ''Read''),
   (''file_write'', ''Write''), (''write'', ''Write''), (''file_edit'', ''Edit''),
   (''edit'', ''Edit''), (''ls'', ''LS''), (''glob'', ''Glob''),
   (''grep'', ''Grep''), (''web_fetch'', ''WebFetch''), (''webfetch'', ''WebFetch''),
   (''web_search'', ''WebSearch''), (''websearch'', ''WebSearch''), (''code_match'', ''CodeMatch''),
   (''codematch'', ''CodeMatch''), (''match_code'', ''CodeMatch''), (''fuzzy_find'', ''FuzzyFind''),
   (''fuzzyfind'', ''FuzzyFind''), (''ffind'', ''FuzzyFind''), (''batch_exec'', ''BatchExec''),
   (''batchexec'', ''BatchExec''), (''toolset'', ''Toolset''), (''tool_health'', ''ToolHealth''),
   (''toolhealth'', ''ToolHealth''), (''tools_health'', ''ToolHealth''), (''project_verify'', ''ProjectVerify''),
   (''projectverify'', ''ProjectVerify''), (''verify_project'', ''ProjectVerify''), (''app_verify'', ''AppVerify''),
   (''appverify'', ''AppVerify''), (''verify_app'', ''AppVerify''), (''generate_media'', ''GenerateMedia''),
   (''generatemedia'', ''GenerateMedia''), (''media'', ''GenerateMedia''), (''dependency_audit'', ''DependencyAudit''),
   (''dependencyaudit'', ''DependencyAudit''), (''deps'', ''DependencyAudit''), (''git_history'', ''GitHistory''),
   (''githistory'', ''GitHistory''), (''git-history'', ''GitHistory''), (''github'', ''GitHub''),
   (''gh'', ''GitHub''), (''sql'', ''SQL''), (''sql_query'', ''SQL''),
   (''agent'', ''Agent''), (''task'', ''Agent''), (''ask_user'', ''AskUserQuestion''),
   (''askuser'', ''AskUserQuestion''), (''askuserquestion'', ''AskUserQuestion''), (''todo'', ''TodoWrite''),
   (''todowrite'', ''TodoWrite''), (''lsp'', ''LSP''), (''specify'', ''Specify''),
   (''plan'', ''Plan''), (''tasks'', ''Tasks''), (''approve_implementation'', ''ApproveImplementation''),
   (''approveimplementation'', ''ApproveImplementation''), (''spec_status'', ''SpecStatus''), (''specstatus'', ''SpecStatus''),
   (''spec_edit'', ''SpecEdit''), (''specedit'', ''SpecEdit''), (''spec_list'', ''SpecList''),
   (''speclist'', ''SpecList''), (''spec_reset'', ''SpecReset''), (''specreset'', ''SpecReset''),
   (''spec_config'', ''SpecConfig''), (''specconfig'', ''SpecConfig''), (''clarify'', ''Clarify''),
   (''analyze'', ''Analyze''), (''checklist'', ''Checklist''), (''constitution'', ''Constitution''),
   (''converge'', ''Converge''), (''notebook_edit'', ''NotebookEdit''), (''notebookedit'', ''NotebookEdit''),
   (''config'', ''Config''), (''brief'', ''SendUserMessage''), (''sendusermessage'', ''SendUserMessage'')]"

definition canonicalToolName :: "string \<Rightarrow> string" where
  "canonicalToolName name = (case map_of alias_table (ToLower name) of Some c \<Rightarrow> c | None \<Rightarrow> name)"

section \<open>Capabilities\<close>

type_synonym Capability = string
type_synonym RiskLevel = string

definition RiskLow :: RiskLevel where
  "RiskLow = ''low''"

definition RiskMedium :: RiskLevel where
  "RiskMedium = ''medium''"

definition RiskHigh :: RiskLevel where
  "RiskHigh = ''high''"

definition CapabilityUnknown :: Capability where
  "CapabilityUnknown = ''unknown''"

definition CapabilityFilesystemRead :: Capability where
  "CapabilityFilesystemRead = ''filesystem.read''"

definition CapabilityFilesystemWrite :: Capability where
  "CapabilityFilesystemWrite = ''filesystem.write''"

definition CapabilityFilesystemDelete :: Capability where
  "CapabilityFilesystemDelete = ''filesystem.delete''"

definition CapabilityProcessExecute :: Capability where
  "CapabilityProcessExecute = ''process.execute''"

definition CapabilityNetworkAccess :: Capability where
  "CapabilityNetworkAccess = ''network.access''"

definition CapabilityCredentialsAccess :: Capability where
  "CapabilityCredentialsAccess = ''credentials.access''"

definition CapabilityUserInteraction :: Capability where
  "CapabilityUserInteraction = ''user.interaction''"

definition CapabilitySpecRead :: Capability where
  "CapabilitySpecRead = ''spec.read''"

definition CapabilitySpecWrite :: Capability where
  "CapabilitySpecWrite = ''spec.write''"

definition CapabilitySpecApprove :: Capability where
  "CapabilitySpecApprove = ''spec.approve''"

definition CapabilityConfigurationRead :: Capability where
  "CapabilityConfigurationRead = ''configuration.read''"

definition CapabilityConfigurationWrite :: Capability where
  "CapabilityConfigurationWrite = ''configuration.write''"

definition CapabilityDestructive :: Capability where
  "CapabilityDestructive = ''destructive''"

record ToolPolicy =
  tp_Name :: string
  tp_Capabilities :: "Capability list"
  tp_DefaultRisk :: RiskLevel

definition toolPolicies :: "(string \<times> ToolPolicy) list" where
  "toolPolicies =
  [(''Read'', \<lparr>tp_Name = ''Read'', tp_Capabilities = [CapabilityFilesystemRead], tp_DefaultRisk = RiskLow\<rparr>),
   (''Glob'', \<lparr>tp_Name = ''Glob'', tp_Capabilities = [CapabilityFilesystemRead], tp_DefaultRisk = RiskLow\<rparr>),
   (''Grep'', \<lparr>tp_Name = ''Grep'', tp_Capabilities = [CapabilityFilesystemRead], tp_DefaultRisk = RiskLow\<rparr>),
   (''LS'', \<lparr>tp_Name = ''LS'', tp_Capabilities = [CapabilityFilesystemRead], tp_DefaultRisk = RiskLow\<rparr>),
   (''ToolHealth'', \<lparr>tp_Name = ''ToolHealth'', tp_Capabilities = [CapabilityFilesystemRead], tp_DefaultRisk = RiskLow\<rparr>),
   (''Outline'', \<lparr>tp_Name = ''Outline'', tp_Capabilities = [CapabilityFilesystemRead], tp_DefaultRisk = RiskLow\<rparr>),
   (''SmartRead'', \<lparr>tp_Name = ''SmartRead'', tp_Capabilities = [CapabilityFilesystemRead], tp_DefaultRisk = RiskLow\<rparr>),
   (''CodeSearch'', \<lparr>tp_Name = ''CodeSearch'', tp_Capabilities = [CapabilityFilesystemRead], tp_DefaultRisk = RiskLow\<rparr>),
   (''CodeMatch'', \<lparr>tp_Name = ''CodeMatch'', tp_Capabilities = [CapabilityFilesystemRead], tp_DefaultRisk = RiskLow\<rparr>),
   (''FuzzyFind'', \<lparr>tp_Name = ''FuzzyFind'', tp_Capabilities = [CapabilityFilesystemRead], tp_DefaultRisk = RiskLow\<rparr>),
   (''BatchExec'', \<lparr>tp_Name = ''BatchExec'', tp_Capabilities = [CapabilityNetworkAccess], tp_DefaultRisk = RiskMedium\<rparr>),
   (''Toolset'', \<lparr>tp_Name = ''Toolset'', tp_Capabilities = [], tp_DefaultRisk = RiskLow\<rparr>),
   (''CodeGraph'', \<lparr>tp_Name = ''CodeGraph'', tp_Capabilities = [CapabilityFilesystemRead], tp_DefaultRisk = RiskLow\<rparr>),
   (''Impact'', \<lparr>tp_Name = ''Impact'', tp_Capabilities = [CapabilityFilesystemRead], tp_DefaultRisk = RiskLow\<rparr>),
   (''GitHistory'', \<lparr>tp_Name = ''GitHistory'', tp_Capabilities = [CapabilityFilesystemRead, CapabilityProcessExecute], tp_DefaultRisk = RiskLow\<rparr>),
   (''Diagnostics'', \<lparr>tp_Name = ''Diagnostics'', tp_Capabilities = [CapabilityFilesystemRead, CapabilityProcessExecute], tp_DefaultRisk = RiskMedium\<rparr>),
   (''ProjectVerify'', \<lparr>tp_Name = ''ProjectVerify'', tp_Capabilities = [CapabilityFilesystemRead, CapabilityProcessExecute], tp_DefaultRisk = RiskMedium\<rparr>),
   (''AppVerify'', \<lparr>tp_Name = ''AppVerify'', tp_Capabilities = [CapabilityFilesystemRead, CapabilityProcessExecute], tp_DefaultRisk = RiskMedium\<rparr>),
   (''GenerateMedia'', \<lparr>tp_Name = ''GenerateMedia'', tp_Capabilities = [CapabilityNetworkAccess, CapabilityFilesystemWrite], tp_DefaultRisk = RiskMedium\<rparr>),
   (''DependencyAudit'', \<lparr>tp_Name = ''DependencyAudit'', tp_Capabilities = [CapabilityFilesystemRead, CapabilityProcessExecute, CapabilityNetworkAccess], tp_DefaultRisk = RiskMedium\<rparr>),
   (''Git'', \<lparr>tp_Name = ''Git'', tp_Capabilities = [CapabilityProcessExecute], tp_DefaultRisk = RiskMedium\<rparr>),
   (''GitHub'', \<lparr>tp_Name = ''GitHub'', tp_Capabilities = [CapabilityNetworkAccess, CapabilityProcessExecute], tp_DefaultRisk = RiskMedium\<rparr>),
   (''WebFetch'', \<lparr>tp_Name = ''WebFetch'', tp_Capabilities = [CapabilityNetworkAccess], tp_DefaultRisk = RiskMedium\<rparr>),
   (''WebSearch'', \<lparr>tp_Name = ''WebSearch'', tp_Capabilities = [CapabilityNetworkAccess], tp_DefaultRisk = RiskMedium\<rparr>),
   (''Browser'', \<lparr>tp_Name = ''Browser'', tp_Capabilities = [CapabilityNetworkAccess, CapabilityProcessExecute], tp_DefaultRisk = RiskHigh\<rparr>),
   (''Screenshot'', \<lparr>tp_Name = ''Screenshot'', tp_Capabilities = [CapabilityNetworkAccess, CapabilityFilesystemWrite], tp_DefaultRisk = RiskHigh\<rparr>),
   (''Download'', \<lparr>tp_Name = ''Download'', tp_Capabilities = [CapabilityNetworkAccess, CapabilityFilesystemWrite], tp_DefaultRisk = RiskMedium\<rparr>),
   (''Bash'', \<lparr>tp_Name = ''Bash'', tp_Capabilities = [CapabilityProcessExecute], tp_DefaultRisk = RiskHigh\<rparr>),
   (''Write'', \<lparr>tp_Name = ''Write'', tp_Capabilities = [CapabilityFilesystemWrite], tp_DefaultRisk = RiskMedium\<rparr>),
   (''Edit'', \<lparr>tp_Name = ''Edit'', tp_Capabilities = [CapabilityFilesystemWrite], tp_DefaultRisk = RiskMedium\<rparr>),
   (''Delete'', \<lparr>tp_Name = ''Delete'', tp_Capabilities = [CapabilityFilesystemDelete, CapabilityDestructive], tp_DefaultRisk = RiskHigh\<rparr>),
   (''AskUserQuestion'', \<lparr>tp_Name = ''AskUserQuestion'', tp_Capabilities = [CapabilityUserInteraction], tp_DefaultRisk = RiskLow\<rparr>),
   (''Specify'', \<lparr>tp_Name = ''Specify'', tp_Capabilities = [CapabilitySpecWrite], tp_DefaultRisk = RiskLow\<rparr>),
   (''Plan'', \<lparr>tp_Name = ''Plan'', tp_Capabilities = [CapabilitySpecRead, CapabilitySpecWrite], tp_DefaultRisk = RiskLow\<rparr>),
   (''Tasks'', \<lparr>tp_Name = ''Tasks'', tp_Capabilities = [CapabilitySpecRead, CapabilitySpecWrite], tp_DefaultRisk = RiskLow\<rparr>),
   (''ApproveImplementation'', \<lparr>tp_Name = ''ApproveImplementation'', tp_Capabilities = [CapabilitySpecApprove, CapabilityUserInteraction], tp_DefaultRisk = RiskHigh\<rparr>),
   (''SpecStatus'', \<lparr>tp_Name = ''SpecStatus'', tp_Capabilities = [CapabilitySpecRead], tp_DefaultRisk = RiskLow\<rparr>),
   (''SpecList'', \<lparr>tp_Name = ''SpecList'', tp_Capabilities = [CapabilitySpecRead], tp_DefaultRisk = RiskLow\<rparr>),
   (''SpecEdit'', \<lparr>tp_Name = ''SpecEdit'', tp_Capabilities = [CapabilitySpecWrite], tp_DefaultRisk = RiskMedium\<rparr>),
   (''SpecReset'', \<lparr>tp_Name = ''SpecReset'', tp_Capabilities = [CapabilitySpecWrite], tp_DefaultRisk = RiskMedium\<rparr>),
   (''SpecConfig'', \<lparr>tp_Name = ''SpecConfig'', tp_Capabilities = [CapabilityConfigurationRead, CapabilityConfigurationWrite], tp_DefaultRisk = RiskMedium\<rparr>),
   (''Clarify'', \<lparr>tp_Name = ''Clarify'', tp_Capabilities = [CapabilitySpecRead, CapabilityUserInteraction], tp_DefaultRisk = RiskLow\<rparr>),
   (''Analyze'', \<lparr>tp_Name = ''Analyze'', tp_Capabilities = [CapabilitySpecRead], tp_DefaultRisk = RiskLow\<rparr>),
   (''Checklist'', \<lparr>tp_Name = ''Checklist'', tp_Capabilities = [CapabilitySpecRead], tp_DefaultRisk = RiskLow\<rparr>),
   (''Constitution'', \<lparr>tp_Name = ''Constitution'', tp_Capabilities = [CapabilitySpecRead, CapabilitySpecWrite], tp_DefaultRisk = RiskMedium\<rparr>),
   (''Converge'', \<lparr>tp_Name = ''Converge'', tp_Capabilities = [CapabilitySpecRead, CapabilitySpecWrite], tp_DefaultRisk = RiskMedium\<rparr>)]"

definition ToolPolicyFor :: "string \<Rightarrow> ToolPolicy" where
  "ToolPolicyFor name = (let canonical = canonicalToolName name in
     case map_of toolPolicies canonical of Some policy \<Rightarrow> policy
     | None \<Rightarrow> \<lparr>tp_Name = canonical, tp_Capabilities = [CapabilityUnknown], tp_DefaultRisk = RiskHigh\<rparr>)"

definition ToolCapabilities :: "string \<Rightarrow> Capability list" where
  "ToolCapabilities name = tp_Capabilities (ToolPolicyFor name)"

definition hasCapability :: "ToolPolicy \<Rightarrow> Capability \<Rightarrow> bool" where
  "hasCapability policy want \<longleftrightarrow> want \<in> set (tp_Capabilities policy)"

section \<open>Classes of tools\<close>

definition isNetworkTool :: "string \<Rightarrow> bool" where
  "isNetworkTool name \<longleftrightarrow> canonicalToolName name \<in> set
     [''WebFetch'', ''WebSearch'', ''Browser'', ''Screenshot'', ''Download'', ''DependencyAudit'', ''GitHub'']"

definition isWriteTool :: "string \<Rightarrow> bool" where
  "isWriteTool name \<longleftrightarrow> canonicalToolName name \<in> set
     [''Write'', ''Edit'', ''StructuredEdit'', ''MultiEdit'', ''FileEdit'', ''NotebookEdit'']"

definition isReadOnlyTool :: "string \<Rightarrow> bool" where
  "isReadOnlyTool name \<longleftrightarrow> canonicalToolName name \<in> set
     [''Read'', ''LS'', ''Glob'', ''Grep'', ''SmartReader'', ''SmartRead'', ''Outline'', ''ToolHealth'',
      ''CodeSearch'', ''CodeGraph'', ''Impact'', ''GitHistory'']"

definition readonly_aliases :: "(string \<times> string) list" where
  "readonly_aliases =
  [(''read'', ''Read''), (''file_read'', ''Read''), (''grep'', ''Grep''),
   (''glob'', ''Glob''), (''ls'', ''LS''), (''websearch'', ''WebSearch''),
   (''web_search'', ''WebSearch''), (''webfetch'', ''WebFetch''), (''web_fetch'', ''WebFetch''),
   (''toolsearch'', ''ToolSearch''), (''tool_search'', ''ToolSearch''), (''toolhealth'', ''ToolHealth''),
   (''tool_health'', ''ToolHealth''), (''tools_health'', ''ToolHealth''), (''outline'', ''Outline''),
   (''smartread'', ''SmartRead''), (''smart_reader'', ''SmartRead''), (''smart-reader'', ''SmartRead''),
   (''codesearch'', ''CodeSearch''), (''code_search'', ''CodeSearch''), (''codegraph'', ''CodeGraph''),
   (''code_graph'', ''CodeGraph''), (''impact'', ''Impact''), (''githistory'', ''GitHistory''),
   (''git_history'', ''GitHistory''), (''git-history'', ''GitHistory''), (''github'', ''GitHub''),
   (''gh'', ''GitHub'')]"

definition canonicalForReadOnly :: "string \<Rightarrow> string" where
  "canonicalForReadOnly name = (case map_of readonly_aliases (ToLower name) of Some c \<Rightarrow> c | None \<Rightarrow> name)"

definition ReadOnlyTools :: "string list" where
  "ReadOnlyTools =
  [''Read'', ''Grep'', ''Glob'', ''LS'', ''WebSearch'', ''WebFetch'', ''ToolSearch'', ''ToolHealth'', ''Outline'', ''SmartRead'', ''CodeSearch'', ''CodeGraph'', ''Impact'', ''GitHistory'', ''GitHub'']"

definition IsReadOnly :: "string \<Rightarrow> bool" where
  "IsReadOnly name \<longleftrightarrow> canonicalForReadOnly name \<in> set ReadOnlyTools"

section \<open>Summaries\<close>

definition pathArgument :: "tool_args \<Rightarrow> string option" where
  "pathArgument args = (case str_arg args ''path'' of
     Some p \<Rightarrow> if p \<noteq> [] then Some p else
       (case str_arg args ''file_path'' of Some q \<Rightarrow> if q \<noteq> [] then Some q else None | None \<Rightarrow> None)
   | None \<Rightarrow> (case str_arg args ''file_path'' of Some q \<Rightarrow> if q \<noteq> [] then Some q else None | None \<Rightarrow> None))"

text \<open>The first 120 bytes of a command, the path of a file tool, else the name as given.\<close>

definition ToolSummary :: "string \<Rightarrow> tool_args \<Rightarrow> string" where
  "ToolSummary name args = (let c = canonicalToolName name in
     if c = ''Bash'' then
       (case str_arg args ''command'' of
          Some cmd \<Rightarrow> if 120 < length cmd then take 120 cmd @ ''...'' else cmd
        | None \<Rightarrow> name)
     else if c \<in> set [''Write'', ''Edit'', ''NotebookEdit''] then
       (case pathArgument args of Some p \<Rightarrow> p | None \<Rightarrow> name)
     else name)"

definition ToolNeedsPermission :: "(string \<Rightarrow> bool) \<Rightarrow> string \<Rightarrow> tool_args \<Rightarrow> bool" where
  "ToolNeedsPermission IsSuspicious name args = (let c = canonicalToolName name in
     if c \<in> set [''Write'', ''Edit'', ''NotebookEdit''] then True
     else if c = ''Bash'' then (case str_arg args ''command'' of Some cmd \<Rightarrow> IsSuspicious cmd | None \<Rightarrow> True)
     else False)"

definition permissionWhyLine :: "string \<Rightarrow> RiskLevel \<Rightarrow> ToolPolicy \<Rightarrow> string" where
  "permissionWhyLine toolName risk policy =
    (if risk = RiskHigh then
       (if canonicalToolName toolName = ''Bash''
        then ''Why: shell can change your system '' @ map char_of [226::nat, 128, 148] @ '' review the command before allowing.''
        else ''Why: high-impact action needs your confirmation.'')
     else if risk = RiskMedium then
       (if hasCapability policy CapabilityFilesystemWrite \<or> hasCapability policy CapabilityFilesystemDelete
        then ''Why: this can modify or delete project files.''
        else ''Why: this can change project state.'')
     else ''Why: current autonomy settings require confirmation for this tool.'')"

definition ToUpper :: "string \<Rightarrow> string" where
  "ToUpper s = map (\<lambda>c. let n = of_char c :: nat in if 97 \<le> n \<and> n \<le> 122 then char_of (n - 32) else c) s"

definition displayRisk :: "(string \<Rightarrow> bool) \<Rightarrow> string \<Rightarrow> string \<Rightarrow> RiskLevel" where
  "displayRisk IsSuspicious toolName summary =
    (let policy = ToolPolicyFor toolName;
         risk = (if tp_DefaultRisk policy = [] then RiskMedium else tp_DefaultRisk policy)
     in if canonicalToolName toolName = ''Bash'' \<and> risk \<noteq> RiskHigh \<and> IsSuspicious summary then RiskHigh else risk)"

definition FormatPermissionDisplay :: "(string \<Rightarrow> bool) \<Rightarrow> string \<Rightarrow> string \<Rightarrow> string" where
  "FormatPermissionDisplay IsSuspicious toolName summary =
    (let policy = ToolPolicyFor toolName;
         risk = displayRisk IsSuspicious toolName summary;
         why = permissionWhyLine toolName risk policy;
         summary' = (if TrimSpace summary = [] then toolName else summary)
     in ''['' @ ToUpper risk @ '' risk] '' @ canonicalToolName toolName @ [CHR 0x0A] @ summary' @ [CHR 0x0A] @ why)"

section \<open>Lemmas\<close>

text \<open>A row found by lookup has what every row of the table has.\<close>

lemma table_row: "list_all (\<lambda>(k, v). P k v) t \<Longrightarrow> map_of t k = Some v \<Longrightarrow> P k v"
  by (auto simp: list_all_iff dest: map_of_SomeD)

lemma ToolPolicyFor_Name: "tp_Name (ToolPolicyFor n) = canonicalToolName n"
proof -
  have "list_all (\<lambda>(k, p). tp_Name p = k) toolPolicies" by code_simp
  note table_row [OF this]
  then show ?thesis by (auto simp: ToolPolicyFor_def Let_def split: option.splits)
qed

definition network_names :: "string list" where
  "network_names = [''WebFetch'', ''WebSearch'', ''Browser'', ''Screenshot'', ''Download'', ''DependencyAudit'', ''GitHub'']"

lemma network_known:
  assumes "map_of toolPolicies c = Some p"
  shows "c \<in> set network_names \<longleftrightarrow> CapabilityNetworkAccess \<in> set (tp_Capabilities p)
    \<and> c \<noteq> ''BatchExec'' \<and> c \<noteq> ''GenerateMedia''"
proof -
  have "list_all (\<lambda>(c, p). c \<in> set network_names \<longleftrightarrow> CapabilityNetworkAccess \<in> set (tp_Capabilities p)
      \<and> c \<noteq> ''BatchExec'' \<and> c \<noteq> ''GenerateMedia'') toolPolicies" by code_simp
  from table_row [OF this assms] show ?thesis .
qed

lemma network_unknown:
  assumes "map_of toolPolicies c = None"
  shows "c \<notin> set network_names"
proof -
  have "list_all (\<lambda>c. c \<in> set (map fst toolPolicies)) network_names" by code_simp
  with assms show ?thesis by (auto simp: list_all_iff map_of_eq_None_iff)
qed

lemma network_caps_differ: "CapabilityNetworkAccess \<noteq> CapabilityUnknown"
  by code_simp

text \<open>
  The network gate and the capability table: every tool the gate treats as a network tool declares
  network access, and the tools that declare it but pass the gate are exactly \<open>BatchExec\<close> and
  \<open>GenerateMedia\<close>.
\<close>

theorem network_gate_exact:
  "isNetworkTool n \<longleftrightarrow> CapabilityNetworkAccess \<in> set (ToolCapabilities n)
     \<and> canonicalToolName n \<noteq> ''BatchExec'' \<and> canonicalToolName n \<noteq> ''GenerateMedia''"
proof (cases "map_of toolPolicies (canonicalToolName n)")
  case None
  then show ?thesis
    using network_unknown [OF None] network_caps_differ
    by (simp add: isNetworkTool_def network_names_def [symmetric] ToolCapabilities_def ToolPolicyFor_def)
next
  case (Some p)
  then show ?thesis
    using network_known [OF Some]
    by (simp add: isNetworkTool_def network_names_def [symmetric] ToolCapabilities_def ToolPolicyFor_def)
qed

end
