(* ===== verification/Autonomy.thy ===== *)
theory Autonomy
  imports Tool_Policy
begin

text \<open>
  Autonomy tiers, from \<open>internal/engine/safety/autonomy.go\<close> and \<open>profile.go\<close>: the preset flags of a
  tier, the profile with the user's per-flag overrides, and the two decisions whether a call must be
  confirmed. A level is Go's \<open>int\<close>; the override set of a profile is the list of its keys, \<open>None\<close> for a
  nil map, on which a write panics (\<open>None\<close> as the result of an operation).
\<close>

type_synonym AutonomyLevel = int

definition AutonomySupervised :: AutonomyLevel where
  "AutonomySupervised = 0"

definition AutonomyBasic :: AutonomyLevel where
  "AutonomyBasic = 1"

definition AutonomySemi :: AutonomyLevel where
  "AutonomySemi = 2"

definition AutonomyFull :: AutonomyLevel where
  "AutonomyFull = 3"

definition AutonomyYOLO :: AutonomyLevel where
  "AutonomyYOLO = 4"

lemmas level_defs = AutonomySupervised_def AutonomyBasic_def AutonomySemi_def AutonomyFull_def AutonomyYOLO_def

record AutonomyConfig =
  ac_Level :: AutonomyLevel
  ac_AutoContinue :: bool
  ac_AutoApplyEdits :: bool
  ac_AutoExecuteBash :: bool
  ac_AutoCommit :: bool

definition writeTools :: "string list" where
  "writeTools = [''Write'', ''Edit'', ''file_write'', ''file_edit'']"

definition PresetConfig :: "AutonomyLevel \<Rightarrow> AutonomyConfig" where
  "PresetConfig level =
    (if level = AutonomySupervised then \<lparr>ac_Level = level, ac_AutoContinue = False, ac_AutoApplyEdits = False,
        ac_AutoExecuteBash = False, ac_AutoCommit = False\<rparr>
     else if level = AutonomyBasic then \<lparr>ac_Level = level, ac_AutoContinue = True, ac_AutoApplyEdits = False,
        ac_AutoExecuteBash = False, ac_AutoCommit = False\<rparr>
     else if level = AutonomySemi then \<lparr>ac_Level = level, ac_AutoContinue = True, ac_AutoApplyEdits = True,
        ac_AutoExecuteBash = False, ac_AutoCommit = False\<rparr>
     else if level = AutonomyFull \<or> level = AutonomyYOLO then \<lparr>ac_Level = level, ac_AutoContinue = True,
        ac_AutoApplyEdits = True, ac_AutoExecuteBash = True, ac_AutoCommit = True\<rparr>
     else \<lparr>ac_Level = AutonomySupervised, ac_AutoContinue = False, ac_AutoApplyEdits = False,
        ac_AutoExecuteBash = False, ac_AutoCommit = False\<rparr>)"

definition config_NeedsPermission :: "AutonomyConfig \<Rightarrow> string \<Rightarrow> bool \<Rightarrow> bool" where
  "config_NeedsPermission c toolName isSafe =
    (if ac_Level c = AutonomyYOLO then False
     else if ac_Level c = AutonomyFull then
       (if toolName = ''Bash'' \<or> toolName = ''bash'' then \<not> isSafe else False)
     else if ac_Level c = AutonomySemi then \<not> (IsReadOnly toolName \<or> toolName \<in> set writeTools)
     else if ac_Level c = AutonomyBasic then \<not> IsReadOnly toolName
     else True)"

definition ParseAutonomyLevel :: "string \<Rightarrow> AutonomyLevel" where
  "ParseAutonomyLevel s0 =
    (let s = ReplaceByte (ReplaceByte (TrimSpace (ToLower s0)) (CHR ''-'') []) (CHR ''_'') [] in
     if s \<in> set [''0'', ''supervised''] then AutonomySupervised
     else if s \<in> set [''1'', ''basic''] then AutonomyBasic
     else if s \<in> set [''2'', ''semi'', ''acceptedits''] then AutonomySemi
     else if s \<in> set [''3'', ''full''] then AutonomyFull
     else if s \<in> set [''4'', ''yolo'', ''dontask''] then AutonomyYOLO
     else AutonomySupervised)"

definition level_String :: "AutonomyLevel \<Rightarrow> string" where
  "level_String l =
    (if l = AutonomySupervised then ''supervised''
     else if l = AutonomyBasic then ''basic''
     else if l = AutonomySemi then ''semi''
     else if l = AutonomyFull then ''full''
     else if l = AutonomyYOLO then ''yolo''
     else ''supervised'')"

section \<open>Profiles\<close>

record AutonomyProfile =
  ap_Level :: AutonomyLevel
  ap_AutoContinue :: bool
  ap_AutoApplyEdits :: bool
  ap_AutoExecuteBash :: bool
  ap_AutoCommit :: bool
  ap_AutoNetwork :: bool
  ap_overrides :: "string list option"

definition ProfileFromLevel :: "AutonomyLevel \<Rightarrow> AutonomyProfile" where
  "ProfileFromLevel level = (let cfg = PresetConfig level in
     \<lparr>ap_Level = level, ap_AutoContinue = ac_AutoContinue cfg, ap_AutoApplyEdits = ac_AutoApplyEdits cfg,
      ap_AutoExecuteBash = ac_AutoExecuteBash cfg, ap_AutoCommit = ac_AutoCommit cfg,
      ap_AutoNetwork = (AutonomyBasic \<le> level), ap_overrides = Some []\<rparr>)"

text \<open>Lower case, without surrounding space, underscores, hyphens and blanks.\<close>

definition normFlag :: "string \<Rightarrow> string" where
  "normFlag flag = ReplaceByte (ReplaceByte (ReplaceByte (ToLower (TrimSpace flag)) (CHR ''_'') [])
     (CHR ''-'') []) (CHR '' '') []"

definition setFlag :: "AutonomyProfile \<Rightarrow> string \<Rightarrow> bool \<Rightarrow> (AutonomyProfile \<times> bool) option" where
  "setFlag p flag val =
    (let norm = normFlag flag;
         mark = (\<lambda>q. case ap_overrides q of None \<Rightarrow> None
                  | Some ks \<Rightarrow> Some (q\<lparr>ap_overrides := Some (List.insert norm ks)\<rparr>, True))
     in if norm = ''autocontinue'' then mark (p\<lparr>ap_AutoContinue := val\<rparr>)
        else if norm = ''autoapplyedits'' then mark (p\<lparr>ap_AutoApplyEdits := val\<rparr>)
        else if norm = ''autoexecutebash'' then mark (p\<lparr>ap_AutoExecuteBash := val\<rparr>)
        else if norm = ''autocommit'' then mark (p\<lparr>ap_AutoCommit := val\<rparr>)
        else if norm = ''autonetwork'' then mark (p\<lparr>ap_AutoNetwork := val\<rparr>)
        else Some (p, False))"

definition Override :: "AutonomyProfile \<Rightarrow> string \<Rightarrow> bool \<Rightarrow> (AutonomyProfile \<times> bool) option" where
  "Override p flag val = setFlag p flag val"

text \<open>The overrides of the settings, in the order in which the map is iterated.\<close>

fun setFlags :: "AutonomyProfile \<Rightarrow> (string \<times> bool) list \<Rightarrow> AutonomyProfile option" where
  "setFlags p [] = Some p"
| "setFlags p ((k, v) # kvs) = (case setFlag p k v of None \<Rightarrow> None | Some (q, _) \<Rightarrow> setFlags q kvs)"

definition ApplyOverrides :: "AutonomyProfile \<Rightarrow> (string \<times> bool) list \<Rightarrow> AutonomyProfile option" where
  "ApplyOverrides p overrides =
    setFlags (if ap_overrides p = None then p\<lparr>ap_overrides := Some []\<rparr> else p) overrides"

definition IsOverridden :: "AutonomyProfile \<Rightarrow> string \<Rightarrow> bool" where
  "IsOverridden p flag \<longleftrightarrow> (case ap_overrides p of None \<Rightarrow> False | Some ks \<Rightarrow> normFlag flag \<in> set ks)"

definition profile_NeedsPermission :: "AutonomyProfile \<Rightarrow> string \<Rightarrow> bool \<Rightarrow> bool" where
  "profile_NeedsPermission p toolName isSafe =
    (if ap_Level p = AutonomyYOLO then False
     else if ap_Level p = AutonomyFull then
       (if canonicalToolName toolName = ''Bash'' then (if \<not> ap_AutoExecuteBash p then True else \<not> isSafe)
        else if isNetworkTool toolName then \<not> ap_AutoNetwork p
        else False)
     else if ap_Level p = AutonomySemi then
       (if isReadOnlyTool toolName then False
        else if isWriteTool toolName then False
        else if isNetworkTool toolName then \<not> ap_AutoNetwork p
        else if canonicalToolName toolName = ''Bash'' then \<not> ap_AutoExecuteBash p
        else True)
     else if ap_Level p = AutonomyBasic then \<not> isReadOnlyTool toolName
     else True)"

section \<open>Lemmas\<close>

lemma level_roundtrip:
  assumes "0 \<le> l" and "l \<le> 4"
  shows "ParseAutonomyLevel (level_String l) = l"
proof -
  have "l \<in> set [0..4]" using assms by simp
  moreover have "list_all (\<lambda>l. ParseAutonomyLevel (level_String l) = l) [0..4]" by code_simp
  ultimately show ?thesis by (auto simp: list_all_iff simp del: set_upto)
qed

text \<open>Bash is in none of the classes that a tier lets through.\<close>

lemma bash_class:
  assumes "canonicalToolName n = ''Bash''"
  shows "\<not> isReadOnlyTool n" "\<not> isWriteTool n" "\<not> isNetworkTool n"
  using assms by (simp_all add: isReadOnlyTool_def isWriteTool_def isNetworkTool_def)

lemma network_class:
  assumes "isNetworkTool n"
  shows "\<not> isReadOnlyTool n" "\<not> isWriteTool n"
  using assms by (auto simp: isReadOnlyTool_def isWriteTool_def isNetworkTool_def)

text \<open>An override changes the flag it names and nothing else, whatever spelling it uses.\<close>

lemma setFlag_bash:
  "normFlag flag = ''autoexecutebash'' \<Longrightarrow> ap_overrides p = Some ks \<Longrightarrow>
    setFlag p flag v = Some (p\<lparr>ap_AutoExecuteBash := v, ap_overrides := Some (List.insert (normFlag flag) ks)\<rparr>, True)"
  by (simp add: setFlag_def)

lemma setFlag_network:
  "normFlag flag = ''autonetwork'' \<Longrightarrow> ap_overrides p = Some ks \<Longrightarrow>
    setFlag p flag v = Some (p\<lparr>ap_AutoNetwork := v, ap_overrides := Some (List.insert (normFlag flag) ks)\<rparr>, True)"
  by (simp add: setFlag_def)

text \<open>
  Raising the tier never adds a confirmation, for every tool, verdict of the screen and setting of the
  override flags, with exactly one exception: with Bash execution switched on by override, the middle tier
  runs a command that the screen calls suspicious without asking while the tier above it asks.
\<close>

theorem autonomy_monotone:
  assumes "l \<le> m" and "m \<le> AutonomyYOLO"
  shows "(\<not> profile_NeedsPermission (p\<lparr>ap_Level := l\<rparr>) n safe \<and> profile_NeedsPermission (p\<lparr>ap_Level := m\<rparr>) n safe)
    \<longleftrightarrow> (l = AutonomySemi \<and> m = AutonomyFull \<and> canonicalToolName n = ''Bash'' \<and> ap_AutoExecuteBash p \<and> \<not> safe)"
  using assms bash_class [of n] network_class [of n]
  unfolding profile_NeedsPermission_def level_defs
  by (cases "canonicalToolName n = ''Bash''"; cases "isNetworkTool n") auto

theorem autonomy_monotone_witness:
  "AutonomyBasic \<le> AutonomyFull \<and> AutonomyFull \<le> AutonomyYOLO \<and>
   \<not> profile_NeedsPermission (ProfileFromLevel AutonomyBasic) ''Read'' True \<and>
   \<not> profile_NeedsPermission ((ProfileFromLevel AutonomyBasic)\<lparr>ap_Level := AutonomyFull\<rparr>) ''Read'' True"
proof -
  have p: "(ProfileFromLevel AutonomyBasic)\<lparr>ap_Level := AutonomyBasic\<rparr> = ProfileFromLevel AutonomyBasic"
    by (simp add: ProfileFromLevel_def Let_def)
  have le: "AutonomyBasic \<le> AutonomyFull" "AutonomyFull \<le> AutonomyYOLO" "AutonomyBasic \<noteq> AutonomySemi"
    by (simp_all add: level_defs)
  have "\<not> profile_NeedsPermission (ProfileFromLevel AutonomyBasic) ''Read'' True" by code_simp
  with le autonomy_monotone [OF le(1,2), of "ProfileFromLevel AutonomyBasic" "''Read''" True, unfolded p]
  show ?thesis by metis
qed

end
