(* ===== verification/Go_Glob.thy ===== *)
theory Go_Glob
  imports Go_Prelude "HOL-Library.Char_ord"
begin

text \<open>
  \<open>filepath.Match\<close> of Go's standard library on Unix, over bytes (patterns and names are ASCII): a star
  stands for any run without a slash, a question mark for one byte other than a slash, a bracket for a
  class, a backslash quotes. A malformed pattern is an error in Go; every caller in this program ignores
  the error and uses the boolean, which is then false, so the model returns the boolean.
\<close>

section \<open>One chunk: a pattern without stars\<close>

text \<open>\<open>getEsc\<close>: one end of a range inside a class, \<open>None\<close> for a bad pattern.\<close>

fun getEsc :: "string \<Rightarrow> (char \<times> string) option" where
  "getEsc [] = None"
| "getEsc (c # cs) =
    (if c = CHR ''-'' \<or> c = CHR '']'' then None
     else if c = CHR 0x5C then
       (case cs of [] \<Rightarrow> None | d # ds \<Rightarrow> if ds = [] then None else Some (d, ds))
     else if cs = [] then None else Some (c, cs))"

lemma getEsc_shorter: "getEsc cs = Some (c, ds) \<Longrightarrow> length ds < length cs"
  by (cases cs) (auto split: if_splits list.splits)

text \<open>The ranges of a class up to its closing bracket; \<open>n\<close> says whether a range was read already.\<close>

function classRanges :: "bool \<Rightarrow> string \<Rightarrow> ((char \<times> char) list \<times> string) option" where
  "classRanges seen cs =
    (if seen \<and> cs \<noteq> [] \<and> hd cs = CHR '']'' then Some ([], tl cs)
     else case getEsc cs of
       None \<Rightarrow> None
     | Some (lo, ds) \<Rightarrow>
         (if hd ds = CHR ''-'' then
            (case getEsc (tl ds) of
               None \<Rightarrow> None
             | Some (hi, es) \<Rightarrow> map_option (\<lambda>(rs, r). ((lo, hi) # rs, r)) (classRanges True es))
          else map_option (\<lambda>(rs, r). ((lo, lo) # rs, r)) (classRanges True ds)))"
  by pat_completeness auto

termination
proof (relation "measure (\<lambda>(seen, cs). length cs)")
qed (auto dest!: getEsc_shorter)

declare classRanges.simps [simp del]

lemma classRanges_shorter: "classRanges seen cs = Some (rs, r) \<Longrightarrow> length r < length cs"
proof (induction seen cs arbitrary: rs r rule: classRanges.induct)
  case (1 seen cs)
  show ?case
  proof (cases "seen \<and> cs \<noteq> [] \<and> hd cs = CHR '']''")
    case True
    with "1.prems" have "r = tl cs" by (simp add: classRanges.simps)
    with True show ?thesis by (cases cs) auto
  next
    case False
    with "1.prems" obtain lo ds where g: "getEsc cs = Some (lo, ds)"
      by (auto simp: classRanges.simps [of seen cs] split: option.splits)
    show ?thesis
    proof (cases "hd ds = CHR ''-''")
      case True
      with False "1.prems" g obtain hi es rs' where h: "getEsc (tl ds) = Some (hi, es)"
        and c: "classRanges True es = Some (rs', r)"
        by (auto simp: classRanges.simps [of seen cs] split: option.splits)
      from "1.IH" (1) [OF False g refl True h refl c] getEsc_shorter [OF g] getEsc_shorter [OF h]
      show ?thesis by simp
    next
      case False': False
      with False "1.prems" g obtain rs' where c: "classRanges True ds = Some (rs', r)"
        by (auto simp: classRanges.simps [of seen cs] split: option.splits)
      from "1.IH" (2) [OF False g refl False' c] getEsc_shorter [OF g] show ?thesis by simp
    qed
  qed
qed

text \<open>The tokens of a chunk.\<close>

datatype gtok = GLit char | GAny | GClass bool "(char \<times> char) list"

function chunkToks :: "string \<Rightarrow> gtok list option" where
  "chunkToks [] = Some []"
| "chunkToks (c # cs) =
    (if c = CHR ''['' then
       (let neg = (cs \<noteq> [] \<and> hd cs = CHR ''^''); body = (if neg then tl cs else cs) in
        case classRanges False body of
          None \<Rightarrow> None
        | Some (rs, r) \<Rightarrow> map_option ((#) (GClass neg rs)) (chunkToks r))
     else if c = CHR ''?'' then map_option ((#) GAny) (chunkToks cs)
     else if c = CHR 0x5C then (case cs of [] \<Rightarrow> None | d # ds \<Rightarrow> map_option ((#) (GLit d)) (chunkToks ds))
     else map_option ((#) (GLit c)) (chunkToks cs))"
  by pat_completeness auto

termination
proof (relation "measure length")
  fix c cs x xa y rs r
  assume "x = (cs \<noteq> [] \<and> hd cs = CHR ''^'')" "xa = (if x then tl cs else cs)"
    and y: "classRanges False xa = Some y" "(rs, r) = y"
  then have "length xa \<le> length cs" by auto
  moreover have "length r < length xa" using y by (auto intro: classRanges_shorter)
  ultimately show "(r, c # cs) \<in> measure length" by simp
qed auto

fun tokMatch :: "gtok \<Rightarrow> char \<Rightarrow> bool" where
  "tokMatch (GLit c) x = (c = x)"
| "tokMatch GAny x = (x \<noteq> CHR ''/'')"
| "tokMatch (GClass neg rs) x = (list_ex (\<lambda>(lo, hi). lo \<le> x \<and> x \<le> hi) rs \<noteq> neg)"

text \<open>\<open>matchChunk\<close>: the rest of the name after the chunk, if the chunk matches at its start.\<close>

fun toksMatch :: "gtok list \<Rightarrow> string \<Rightarrow> string option" where
  "toksMatch [] s = Some s"
| "toksMatch (t # ts) [] = None"
| "toksMatch (t # ts) (x # xs) = (if tokMatch t x then toksMatch ts xs else None)"

section \<open>The whole pattern\<close>

text \<open>\<open>scanChunk\<close>: leading stars, then the longest star-free part (stars inside a bracket do not count).\<close>

fun scanBody :: "bool \<Rightarrow> string \<Rightarrow> string \<times> string" where
  "scanBody inrange [] = ([], [])"
| "scanBody inrange (c # cs) =
    (if c = CHR 0x5C then
       (case cs of [] \<Rightarrow> ([c], []) | d # ds \<Rightarrow> (let (b, r) = scanBody inrange ds in (c # d # b, r)))
     else if c = CHR ''*'' \<and> \<not> inrange then ([], c # cs)
     else (let (b, r) = scanBody (if c = CHR ''['' then True else if c = CHR '']'' then False else inrange) cs
           in (c # b, r)))"

definition scanChunk :: "string \<Rightarrow> bool \<times> string \<times> string" where
  "scanChunk p = (let q = dropWhile (\<lambda>c. c = CHR ''*'') p in (q \<noteq> p, scanBody False q))"

lemma scanBody_len: "scanBody i p = (b, r) \<Longrightarrow> length r \<le> length p"
proof (induction i p arbitrary: b r rule: scanBody.induct)
  case (2 inrange c cs)
  then show ?case by (cases cs) (fastforce split: prod.splits if_splits)+
qed simp

lemma scanBody_less: "scanBody False (c # cs) = (b, r) \<Longrightarrow> c \<noteq> CHR ''*'' \<Longrightarrow> length r < Suc (length cs)"
  using scanBody_len by (fastforce split: prod.splits if_splits list.splits)

lemma scanChunk_less:
  assumes "p \<noteq> []" and "scanChunk p = (star, chunk, rest)"
  shows "length rest < length p"
proof (cases "hd p = CHR ''*''")
  case True
  then obtain q where p: "p = CHR ''*'' # q" using assms(1) by (cases p) auto
  have "length rest \<le> length (dropWhile (\<lambda>c. c = CHR ''*'') q)"
    using assms(2) scanBody_len by (auto simp: scanChunk_def p Let_def)
  then show ?thesis using length_dropWhile_le [of "\<lambda>c. c = CHR ''*''" q] by (simp add: p)
next
  case False
  then obtain c cs where p: "p = c # cs" "c \<noteq> CHR ''*''" using assms(1) by (cases p) auto
  then show ?thesis using assms(2) scanBody_less by (auto simp: scanChunk_def)
qed

text \<open>
  After a star the chunk is tried at every later position that is reached without passing a slash; the
  last chunk must use up the name.
\<close>

fun starSearch :: "gtok list \<Rightarrow> bool \<Rightarrow> string \<Rightarrow> string option" where
  "starSearch ts fin [] = None"
| "starSearch ts fin (x # xs) =
    (if x = CHR ''/'' then None
     else case toksMatch ts xs of
       Some t \<Rightarrow> if fin \<and> t \<noteq> [] then starSearch ts fin xs else Some t
     | None \<Rightarrow> starSearch ts fin xs)"

function Match :: "string \<Rightarrow> string \<Rightarrow> bool" where
  "Match p name =
    (if p = [] then name = []
     else case scanChunk p of (star, chunk, rest) \<Rightarrow>
       if star \<and> chunk = [] then CHR ''/'' \<notin> set name
       else case chunkToks chunk of
         None \<Rightarrow> False
       | Some ts \<Rightarrow>
          (case toksMatch ts name of
             Some t \<Rightarrow>
               if t = [] \<or> rest \<noteq> [] then Match rest t
               else if star then (case starSearch ts (rest = []) name of Some t' \<Rightarrow> Match rest t' | None \<Rightarrow> False)
               else False
           | None \<Rightarrow>
               if star then (case starSearch ts (rest = []) name of Some t' \<Rightarrow> Match rest t' | None \<Rightarrow> False)
               else False))"
  by pat_completeness auto

termination
  by (relation "measure (length \<circ> fst)") (auto intro: scanChunk_less [OF _ sym])

declare Match.simps [simp del]

section \<open>Patterns without wildcards\<close>

definition plain :: "string \<Rightarrow> bool" where
  "plain p \<longleftrightarrow> set p \<inter> {CHR ''*'', CHR ''?'', CHR ''['', CHR 0x5C} = {}"

lemma scanBody_plain: "plain p \<Longrightarrow> scanBody i p = (p, [])"
  by (induction p arbitrary: i) (auto simp: plain_def)

lemma chunkToks_plain: "plain p \<Longrightarrow> chunkToks p = Some (map GLit p)"
  by (induction p) (auto simp: plain_def)

lemma toksMatch_lits: "toksMatch (map GLit p) s = (if HasPrefix s p then Some (drop (length p) s) else None)"
proof (induction p arbitrary: s)
  case (Cons c p)
  then show ?case by (cases s) (auto simp: HasPrefix_def)
qed simp

lemma Match_plain [go_simps]: "plain p \<Longrightarrow> Match p s \<longleftrightarrow> p = s"
proof -
  assume p: "plain p"
  then have "dropWhile (\<lambda>c. c = CHR ''*'') p = p" by (cases p) (auto simp: plain_def)
  then have "scanChunk p = (False, p, [])" by (simp add: scanChunk_def scanBody_plain [OF p])
  then show ?thesis
    by (auto simp: Match.simps [of p] Match.simps [of "[]"] chunkToks_plain [OF p] toksMatch_lits HasPrefix_def)
qed

text \<open>A lone star matches exactly the names without a slash.\<close>

lemma Match_star [go_simps]: "Match [CHR ''*''] s \<longleftrightarrow> CHR ''/'' \<notin> set s"
  by (simp add: Match.simps scanChunk_def)

end
