(* ===== verification/Permission_Memory.thy ===== *)
theory Permission_Memory
  imports Tool_Policy Go_Glob "HOL-Library.AList"
begin

text \<open>
  Remembered permission rules, from \<open>internal/engine/safety/permission.go\<close>: the rule store
  \<open>PermissionMemory\<close> with its operations, the parser of rule specifications and the pattern matcher.
  The map of always-allowed tools is an association list in its iteration order.
\<close>

section \<open>Rule specifications\<close>

text \<open>\<open>strings.SplitN(s, sep, 2)\<close> when it has two parts.\<close>

definition splitColon :: "string \<Rightarrow> (string \<times> string) option" where
  "splitColon s = map_option (\<lambda>i. (take i s, drop (Suc i) s)) (IndexByte s (CHR '':''))"

definition parseRuleSpec :: "string \<Rightarrow> string \<times> string" where
  "parseRuleSpec spec0 = (let spec = TrimSpace spec0 in
     case IndexByte spec (CHR ''('') of
       Some open_ \<Rightarrow>
         if 0 < open_ \<and> HasSuffix spec '')'' then (take open_ spec, drop (Suc open_) (take (length spec - 1) spec))
         else (case splitColon spec of Some (t, p) \<Rightarrow> (t, p) | None \<Rightarrow> (spec, []))
     | None \<Rightarrow> (case splitColon spec of Some (t, p) \<Rightarrow> (t, p) | None \<Rightarrow> (spec, [])))"

definition normalizeRulePattern :: "string \<Rightarrow> string" where
  "normalizeRulePattern pattern0 = (let pattern = TrimSpace pattern0 in
     if HasSuffix pattern '':*'' then TrimSuffix pattern '':*'' @ '' *'' else pattern)"

definition normalizeRuleSpec :: "string \<Rightarrow> string" where
  "normalizeRuleSpec spec = (case parseRuleSpec spec of (t, p) \<Rightarrow>
     canonicalToolName t @ '':'' @ normalizeRulePattern p)"

definition matchRulePattern :: "string \<Rightarrow> string \<Rightarrow> bool" where
  "matchRulePattern pattern summary =
    (if pattern = ''*'' then True
     else if Match pattern summary then True
     else if HasSuffix pattern '' *'' then
       (let prefix = TrimSuffix pattern '' *'' in summary = prefix \<or> HasPrefix summary (prefix @ '' ''))
     else if HasSuffix pattern ''*'' then HasPrefix summary (take (length pattern - 1) pattern)
     else pattern = summary)"

section \<open>The store\<close>

record PermissionMemory =
  pm_allowRules :: "string list"
  pm_denyRules :: "string list"
  pm_allowAll :: "(string \<times> bool) list"

record RuleSnapshot =
  rs_AllowRules :: "string list"
  rs_DenyRules :: "string list"
  rs_AllowAll :: "(string \<times> bool) list"

definition NewPermissionMemory :: PermissionMemory where
  "NewPermissionMemory = \<lparr>pm_allowRules = [], pm_denyRules = [], pm_allowAll = []\<rparr>"

definition memory_Snapshot :: "PermissionMemory option \<Rightarrow> RuleSnapshot" where
  "memory_Snapshot pm = (case pm of
     None \<Rightarrow> \<lparr>rs_AllowRules = [], rs_DenyRules = [], rs_AllowAll = []\<rparr>
   | Some m \<Rightarrow> \<lparr>rs_AllowRules = pm_allowRules m, rs_DenyRules = pm_denyRules m, rs_AllowAll = pm_allowAll m\<rparr>)"

definition NewPermissionMemoryFromSnapshot :: "RuleSnapshot \<Rightarrow> PermissionMemory" where
  "NewPermissionMemoryFromSnapshot s =
    \<lparr>pm_allowRules = rs_AllowRules s, pm_denyRules = rs_DenyRules s, pm_allowAll = rs_AllowAll s\<rparr>"

definition memory_Reset :: "PermissionMemory \<Rightarrow> PermissionMemory" where
  "memory_Reset pm = pm\<lparr>pm_allowRules := [], pm_denyRules := [], pm_allowAll := []\<rparr>"

definition AlwaysAllow :: "PermissionMemory \<Rightarrow> string \<Rightarrow> PermissionMemory" where
  "AlwaysAllow pm toolName = pm\<lparr>pm_allowAll := AList.update (canonicalToolName toolName) True (pm_allowAll pm)\<rparr>"

definition AlwaysAllowPattern :: "PermissionMemory \<Rightarrow> string \<Rightarrow> PermissionMemory" where
  "AlwaysAllowPattern pm pattern = pm\<lparr>pm_allowRules := pm_allowRules pm @ [normalizeRuleSpec pattern]\<rparr>"

definition AlwaysDeny :: "PermissionMemory \<Rightarrow> string \<Rightarrow> PermissionMemory" where
  "AlwaysDeny pm toolName = pm\<lparr>pm_denyRules := pm_denyRules pm @ [canonicalToolName toolName @ '':*'']\<rparr>"

definition AlwaysDenyPattern :: "PermissionMemory \<Rightarrow> string \<Rightarrow> PermissionMemory" where
  "AlwaysDenyPattern pm pattern = pm\<lparr>pm_denyRules := pm_denyRules pm @ [normalizeRuleSpec pattern]\<rparr>"

definition AllowSpec :: "PermissionMemory \<Rightarrow> string \<Rightarrow> PermissionMemory" where
  "AllowSpec pm spec = (case parseRuleSpec spec of (t, p) \<Rightarrow>
     if p = [] then AlwaysAllow pm t else AlwaysAllowPattern pm (t @ '':'' @ p))"

definition DenySpec :: "PermissionMemory \<Rightarrow> string \<Rightarrow> PermissionMemory" where
  "DenySpec pm spec = (case parseRuleSpec spec of (t, p) \<Rightarrow>
     if p = [] then AlwaysDeny pm t else AlwaysDenyPattern pm (t @ '':'' @ p))"

definition ruleHits :: "string \<Rightarrow> string \<Rightarrow> string \<Rightarrow> bool" where
  "ruleHits toolName summary rule = (case splitColon rule of
     Some (t, p) \<Rightarrow> t = toolName \<and> matchRulePattern p summary | None \<Rightarrow> False)"

text \<open>\<open>Check\<close>: \<open>Some True\<close> allowed, \<open>Some False\<close> denied, \<open>None\<close> ask the user.\<close>

definition memory_Check :: "PermissionMemory \<Rightarrow> string \<Rightarrow> string \<Rightarrow> bool option" where
  "memory_Check pm toolName0 summary = (let toolName = canonicalToolName toolName0 in
     if list_ex (ruleHits toolName summary) (pm_denyRules pm) then Some False
     else if map_of (pm_allowAll pm) toolName = Some True then Some True
     else if list_ex (ruleHits toolName summary) (pm_allowRules pm) then Some True
     else None)"

section \<open>Sequences of operations\<close>

datatype memory_op =
    OpAllow string | OpAllowPattern string | OpDeny string | OpDenyPattern string
  | OpAllowSpec string | OpDenySpec string

primrec memory_apply :: "memory_op \<Rightarrow> PermissionMemory \<Rightarrow> PermissionMemory" where
  "memory_apply (OpAllow n) pm = AlwaysAllow pm n"
| "memory_apply (OpAllowPattern s) pm = AlwaysAllowPattern pm s"
| "memory_apply (OpDeny n) pm = AlwaysDeny pm n"
| "memory_apply (OpDenyPattern s) pm = AlwaysDenyPattern pm s"
| "memory_apply (OpAllowSpec s) pm = AllowSpec pm s"
| "memory_apply (OpDenySpec s) pm = DenySpec pm s"

lemmas memory_defs = AlwaysAllow_def AlwaysAllowPattern_def AlwaysDeny_def AlwaysDenyPattern_def
  AllowSpec_def DenySpec_def

lemma apply_keeps_denies: "set (pm_denyRules pm) \<subseteq> set (pm_denyRules (memory_apply c pm))"
  by (cases c) (auto simp: memory_defs split: prod.splits)

lemma ops_keep_denies: "set (pm_denyRules pm) \<subseteq> set (pm_denyRules (List.fold memory_apply ops pm))"
proof (induction ops arbitrary: pm)
  case (Cons c ops)
  from Cons.IH [of "memory_apply c pm"] apply_keeps_denies [of pm c] show ?case by auto
qed simp

lemma check_denied_iff:
  "memory_Check pm n s = Some False \<longleftrightarrow> (\<exists>r \<in> set (pm_denyRules pm). ruleHits (canonicalToolName n) s r)"
  by (simp add: memory_Check_def Let_def list_ex_iff)

lemma denied_stays_denied:
  "memory_Check pm n s = Some False \<Longrightarrow> memory_Check (List.fold memory_apply ops pm) n s = Some False"
  using ops_keep_denies [of pm ops] by (auto simp: check_denied_iff)

section \<open>What a rule specification means\<close>

lemma canonical_no_colon: "CHR '':'' \<notin> set n \<Longrightarrow> CHR '':'' \<notin> set (canonicalToolName n)"
proof -
  have "list_all (\<lambda>(k, c). CHR '':'' \<notin> set c) alias_table" by code_simp
  note row = table_row [OF this]
  assume "CHR '':'' \<notin> set n"
  then show ?thesis using row by (auto simp: canonicalToolName_def split: option.splits)
qed

lemma splitColon_append: "CHR '':'' \<notin> set t \<Longrightarrow> splitColon (t @ '':'' @ p) = Some (t, p)"
  by (simp add: splitColon_def IndexByte_append)

lemma ruleHits_canonical:
  "CHR '':'' \<notin> set t \<Longrightarrow>
    ruleHits n s (canonicalToolName t @ '':'' @ p) \<longleftrightarrow> canonicalToolName t = n \<and> matchRulePattern p s"
  unfolding ruleHits_def using splitColon_append [OF canonical_no_colon, of t p] by simp

text \<open>A specification in the form tool, colon, pattern is read back as those two parts, unless the pattern
  holds both parentheses.\<close>

lemma parse_tool_pattern:
  assumes t: "CHR '':'' \<notin> set t" "CHR ''('' \<notin> set t" "t \<noteq> [] \<Longrightarrow> \<not> is_space (hd t)"
    and p: "CHR ''('' \<notin> set p \<or> CHR '')'' \<notin> set p"
  shows "parseRuleSpec (t @ '':'' @ p) = (t, trimRight p)"
proof -
  let ?s = "t @ '':'' @ trimRight p"
  have "dropWhile is_space (t @ '':'' @ p) = t @ '':'' @ p" using t(3) by (cases t) (auto simp: is_space_def)
  then have trim: "TrimSpace (t @ '':'' @ p) = ?s"
    by (simp add: TrimSpace_alt trimRight_append is_space_def)
  have "IndexByte ?s (CHR ''('') = None \<or> \<not> HasSuffix ?s '')''"
  proof (cases "CHR ''('' \<in> set p")
    case True
    with p have "CHR '')'' \<notin> set (trimRight p)" using set_trimRight by blast
    moreover have "last ?s = last ('':'' @ trimRight p)" by simp
    ultimately have "last ?s \<noteq> CHR '')''" by (auto dest: last_in_set)
    then show ?thesis unfolding HasSuffix_iff suffix_def by (metis last_snoc)
  next
    case False
    then show ?thesis using t(2) set_trimRight by (auto simp: IndexByte_None)
  qed
  then show ?thesis
    unfolding parseRuleSpec_def Let_def trim using splitColon_append [OF t(1), of "trimRight p"]
    by (auto split: option.splits)
qed

lemma normalize_tool_pattern:
  assumes "CHR '':'' \<notin> set t" "CHR ''('' \<notin> set t" "t \<noteq> [] \<Longrightarrow> \<not> is_space (hd t)"
    and "CHR ''('' \<notin> set p \<or> CHR '')'' \<notin> set p"
  shows "normalizeRuleSpec (t @ '':'' @ p) = canonicalToolName t @ '':'' @ normalizeRulePattern p"
  using parse_tool_pattern [OF assms] by (simp add: normalizeRuleSpec_def normalizeRulePattern_def)

lemma parse_lead: "parseRuleSpec spec = (t, p) \<Longrightarrow> t \<noteq> [] \<Longrightarrow> \<not> is_space (hd t)"
proof -
  assume s: "parseRuleSpec spec = (t, p)" and t: "t \<noteq> []"
  have "\<exists>i. t = take i (TrimSpace spec)"
    using s by (auto simp: parseRuleSpec_def splitColon_def Let_def split: option.splits if_splits) (metis take_all_iff order_refl)+
  then obtain i where i: "t = take i (TrimSpace spec)" ..
  with t have "hd t = hd (TrimSpace spec)" "TrimSpace spec \<noteq> []" by auto
  then show ?thesis using TrimSpace_no_lead by metis
qed

text \<open>
  A deny rule holds for good: after \<open>DenySpec\<close> of a specification that reads as tool and pattern,
  whatever rules are added later, every call of that tool under any of its aliases whose summary matches the
  pattern is denied, and a specification without a pattern denies every call of the tool. The pattern may
  not hold both parentheses.
\<close>

theorem deny_rule_persists:
  assumes "parseRuleSpec spec = (t, p)" and "canonicalToolName n = canonicalToolName t"
    and "CHR '':'' \<notin> set t" and "CHR ''('' \<notin> set t"
    and "CHR ''('' \<notin> set p \<or> CHR '')'' \<notin> set p"
    and "p = [] \<or> matchRulePattern (normalizeRulePattern p) summary"
  shows "memory_Check (List.fold memory_apply ops (DenySpec pm spec)) n summary = Some False"
proof (rule denied_stays_denied)
  note norm = normalize_tool_pattern [OF assms(3,4) parse_lead [OF assms(1)] assms(5)]
  note hits = ruleHits_canonical [OF assms(3)]
  show "memory_Check (DenySpec pm spec) n summary = Some False"
  proof (cases "p = []")
    case True
    then show ?thesis using assms(1,2) hits [of _ _ "''*''"]
      by (simp add: check_denied_iff DenySpec_def AlwaysDeny_def matchRulePattern_def)
  next
    case False
    then have "DenySpec pm spec = pm\<lparr>pm_denyRules := pm_denyRules pm @ [canonicalToolName t @ '':'' @ normalizeRulePattern p]\<rparr>"
      using assms(1) norm by (simp add: DenySpec_def AlwaysDenyPattern_def)
    then show ?thesis using False assms(2,6) hits by (simp add: check_denied_iff)
  qed
qed

theorem deny_rule_persists_witness:
  "memory_Check (List.fold memory_apply [OpAllow ''bash'', OpAllowSpec ''Bash(git:*)'']
     (DenySpec NewPermissionMemory ''Bash(git push:*)'')) ''bash'' ''git push origin'' = Some False"
proof (rule deny_rule_persists [of _ "''Bash''" "''git push:*''"])
  show "parseRuleSpec ''Bash(git push:*)'' = (''Bash'', ''git push:*'')" by code_simp
  show "canonicalToolName ''bash'' = canonicalToolName ''Bash''" by code_simp
  show "''git push:*'' = [] \<or> matchRulePattern (normalizeRulePattern ''git push:*'') ''git push origin''"
    by code_simp
qed simp_all

text \<open>
  A specification whose pattern holds parentheses is read twice and garbled: the deny rule for
  \<open>Bash(rm (a))\<close> is stored as \<open>Bash:rm :a\<close>, so the call it names is not denied, and allowing
  \<open>Bash(echo (x))\<close> does not allow that command.
\<close>

theorem paren_rule_garbled:
  "pm_denyRules (DenySpec NewPermissionMemory ''Bash(rm (a))'') = [''Bash:rm :a'']
    \<and> memory_Check (DenySpec NewPermissionMemory ''Bash(rm (a))'') ''Bash'' ''rm (a)'' = None
    \<and> memory_Check (AllowSpec NewPermissionMemory ''Bash(echo (x))'') ''Bash'' ''echo (x)'' = None"
  by (intro conjI) code_simp+

end
