(* ===== verification/Grants.thy ===== *)
theory Grants
  imports Permission_Memory
begin

text \<open>
  The unified view of remembered decisions, from \<open>internal/permissions/grants.go\<close>, and the grants that
  \<open>PermissionMemory\<close> publishes (\<open>internal/engine/safety/permission.go\<close>). \<open>GrantStore\<close> is Go's
  interface between the stores and the view; here it is a pair of locales. A view is evaluated on the lists
  that the \<open>Grants\<close> methods of its stores return at that moment.
\<close>

section \<open>Grants\<close>

type_synonym GrantSource = int

definition SourceAutoLearned :: GrantSource where
  "SourceAutoLearned = 0"

definition SourceUserAllow :: GrantSource where
  "SourceUserAllow = 1"

definition SourceUserDeny :: GrantSource where
  "SourceUserDeny = 2"

definition SourceHook :: GrantSource where
  "SourceHook = 3"

definition SourceGovernance :: GrantSource where
  "SourceGovernance = 4"

definition source_String :: "GrantSource \<Rightarrow> string" where
  "source_String s =
    (if s = SourceAutoLearned then ''auto''
     else if s = SourceUserAllow then ''memory''
     else if s = SourceUserDeny then ''memory''
     else if s = SourceHook then ''hook''
     else if s = SourceGovernance then ''governance''
     else ''unknown'')"

record Grant =
  gr_Tool :: string
  gr_Pattern :: string
  gr_Allow :: bool
  gr_Source :: GrantSource
  gr_Scope :: string
  gr_Expires :: "gotime option"
  gr_Label :: string

definition Active :: "Grant \<Rightarrow> gotime \<Rightarrow> bool" where
  "Active g now \<longleftrightarrow> (case gr_Expires g of None \<Rightarrow> True | Some e \<Rightarrow> now < e)"

definition Specificity :: "Grant \<Rightarrow> int" where
  "Specificity g =
    (if gr_Tool g \<noteq> ''*'' \<and> gr_Tool g \<noteq> [] then 10 else 0) +
    (if gr_Pattern g \<noteq> ''*'' \<and> gr_Pattern g \<noteq> [] then 5 else 0) -
    (if HasSuffix (gr_Pattern g) '' *'' \<or> HasSuffix (gr_Pattern g) ''*'' then 1 else 0)"

definition grantMatchPattern :: "string \<Rightarrow> string \<Rightarrow> bool" where
  "grantMatchPattern pattern target =
    (if pattern = ''*'' \<or> pattern = [] then True
     else if Match pattern target then True
     else if HasSuffix pattern '' *'' then
       (let prefix = TrimSuffix pattern '' *'' in target = prefix \<or> HasPrefix target (prefix @ '' ''))
     else if HasSuffix pattern ''*'' then HasPrefix target (TrimSuffix pattern ''*'')
     else pattern = target)"

section \<open>The view\<close>

text \<open>The comparison of \<open>sort.SliceStable\<close> in \<open>collect\<close>.\<close>

definition grantLess :: "Grant \<Rightarrow> Grant \<Rightarrow> bool" where
  "grantLess a b =
    (if gr_Allow a \<noteq> gr_Allow b then \<not> gr_Allow a
     else if gr_Source a \<noteq> gr_Source b then gr_Source b < gr_Source a
     else Specificity b < Specificity a)"

definition collect :: "Grant list list \<Rightarrow> gotime \<Rightarrow> Grant list" where
  "collect stores now = SliceStable grantLess (filter (\<lambda>g. Active g now) (concat stores))"

definition grantHits :: "string \<Rightarrow> string \<Rightarrow> Grant \<Rightarrow> bool" where
  "grantHits toolName summary g \<longleftrightarrow>
    (gr_Tool g = ''*'' \<or> gr_Tool g = toolName) \<and> grantMatchPattern (gr_Pattern g) summary"

text \<open>\<open>Check\<close> returns (allowed, found).\<close>

definition unified_Check :: "Grant list list \<Rightarrow> string \<Rightarrow> string \<Rightarrow> gotime \<Rightarrow> bool \<times> bool" where
  "unified_Check stores toolName summary now =
    (case find (grantHits toolName summary) (collect stores now) of
       Some g \<Rightarrow> (gr_Allow g, True) | None \<Rightarrow> (False, False))"

definition grantKey :: "Grant \<Rightarrow> string" where
  "grantKey g = gr_Tool g @ ''|'' @ gr_Pattern g @ ''|'' @ (if gr_Allow g then ''allow'' else ''deny'')"

fun dedupe :: "string list \<Rightarrow> Grant list \<Rightarrow> Grant list" where
  "dedupe seen [] = []"
| "dedupe seen (g # gs) = (if grantKey g \<in> set seen then dedupe seen gs else g # dedupe (grantKey g # seen) gs)"

definition unified_All :: "Grant list list \<Rightarrow> gotime \<Rightarrow> Grant list" where
  "unified_All stores now = dedupe [] (collect stores now)"

section \<open>Grants of the rule memory\<close>

definition memoryGrant :: "bool \<Rightarrow> string \<Rightarrow> string \<Rightarrow> Grant" where
  "memoryGrant allow t p = \<lparr>gr_Tool = t, gr_Pattern = p, gr_Allow = allow,
     gr_Source = (if allow then SourceUserAllow else SourceUserDeny), gr_Scope = [], gr_Expires = None,
     gr_Label = ''from settings''\<rparr>"

definition memory_Grants :: "PermissionMemory \<Rightarrow> Grant list" where
  "memory_Grants pm =
    map (\<lambda>(t, _). memoryGrant True t ''*'') (pm_allowAll pm) @
    map (\<lambda>r. case parseRuleSpec r of (t, p) \<Rightarrow> memoryGrant True t p) (pm_allowRules pm) @
    map (\<lambda>r. case parseRuleSpec r of (t, p) \<Rightarrow> memoryGrant False t p) (pm_denyRules pm)"

section \<open>Precedence\<close>

lemma grantLess_asym: "grantLess a b \<Longrightarrow> \<not> grantLess b a"
  by (auto simp: grantLess_def split: if_splits)

lemma grantLess_trans: "\<not> grantLess b a \<Longrightarrow> \<not> grantLess c b \<Longrightarrow> \<not> grantLess c a"
  by (auto simp: grantLess_def split: if_splits)

lemma collect_sorted: "sorted_wrt (\<lambda>a b. \<not> grantLess b a) (collect stores now)"
  unfolding collect_def by (rule sorted_SliceStable [OF grantLess_asym grantLess_trans])

lemma set_collect [simp]: "set (collect stores now) = {g \<in> set (concat stores). Active g now}"
  by (simp add: collect_def)

text \<open>In a list sorted by precedence the first hit is a deny if any hit is.\<close>

lemma find_sorted:
  assumes "sorted_wrt (\<lambda>a b. \<not> grantLess b a) gs"
  shows "(case find P gs of Some g \<Rightarrow> (gr_Allow g, True) | None \<Rightarrow> (False, False)) =
    (if \<exists>g \<in> set gs. P g \<and> \<not> gr_Allow g then (False, True)
     else if \<exists>g \<in> set gs. P g then (True, True) else (False, False))"
  using assms
proof (induction gs)
  case (Cons g gs)
  have "\<not> gr_Allow g" if "h \<in> set gs" "\<not> gr_Allow h" for h
    using Cons.prems that by (auto simp: grantLess_def split: if_splits)
  with Cons show ?case by auto
qed simp

text \<open>
  C24. The unified check depends only on which active grants apply to the call: if any denies, the call is
  denied; else if any allows, it is allowed; else nothing was found. The order of the stores, the sources and
  the specificity never change the answer.
\<close>

theorem unified_check_exact:
  "unified_Check stores toolName summary now =
    (let hits = {g \<in> set (concat stores). Active g now \<and> grantHits toolName summary g} in
     if \<exists>g \<in> hits. \<not> gr_Allow g then (False, True)
     else if hits \<noteq> {} then (True, True) else (False, False))"
  unfolding unified_Check_def Let_def find_sorted [OF collect_sorted] by auto

section \<open>Stores behind the interface\<close>

lemma unified_denies:
  assumes "gs \<in> set stores" and "g \<in> set gs" and "Active g now" and "grantHits n x g" and "\<not> gr_Allow g"
  shows "unified_Check stores n x now = (False, True)"
proof -
  have "\<exists>g \<in> set (collect stores now). grantHits n x g \<and> \<not> gr_Allow g" using assms by auto
  then show ?thesis unfolding unified_Check_def find_sorted [OF collect_sorted] by simp
qed

text \<open>
  A store publishes its denials: where its own lookup denies a call, it has a session-long deny grant
  that applies to the call.
\<close>

locale publishing_store =
  fixes Grants :: "'s \<Rightarrow> Grant list"
    and decide :: "'s \<Rightarrow> string \<Rightarrow> string \<Rightarrow> bool option"
    and ok :: "'s \<Rightarrow> string \<Rightarrow> bool"
  assumes session_long: "g \<in> set (Grants s) \<Longrightarrow> gr_Expires g = None"
    and deny_published: "ok s n \<Longrightarrow> decide s n x = Some False \<Longrightarrow>
      \<exists>g \<in> set (Grants s). grantHits n x g \<and> \<not> gr_Allow g"
begin

lemma deny_reaches_view:
  "ok s n \<Longrightarrow> decide s n x = Some False \<Longrightarrow> Grants s \<in> set stores \<Longrightarrow>
    unified_Check stores n x now = (False, True)"
  using deny_published [of s n x] session_long [of _ s]
  by (auto simp: Active_def intro: unified_denies [of "Grants s"])

end

text \<open>An exact store publishes nothing else either.\<close>

locale exact_store = publishing_store +
  assumes deny_exact: "ok s n \<Longrightarrow> g \<in> set (Grants s) \<Longrightarrow> grantHits n x g \<Longrightarrow> \<not> gr_Allow g \<Longrightarrow>
      decide s n x = Some False"
    and found_exact: "ok s n \<Longrightarrow> decide s n x \<noteq> None \<longleftrightarrow> (\<exists>g \<in> set (Grants s). grantHits n x g)"
begin

lemma view_is_lookup:
  assumes "ok s n"
  shows "unified_Check [Grants s] n x now =
    (case decide s n x of Some b \<Rightarrow> (b, True) | None \<Rightarrow> (False, False))"
proof -
  have act: "{g \<in> set (concat [Grants s]). Active g now} = set (Grants s)"
    by (auto simp: Active_def session_long)
  have "unified_Check [Grants s] n x now =
      (if \<exists>g \<in> set (Grants s). grantHits n x g \<and> \<not> gr_Allow g then (False, True)
       else if \<exists>g \<in> set (Grants s). grantHits n x g then (True, True) else (False, False))"
    unfolding unified_Check_def find_sorted [OF collect_sorted] set_collect act ..
  moreover have "(\<exists>g \<in> set (Grants s). grantHits n x g \<and> \<not> gr_Allow g) \<longleftrightarrow> decide s n x = Some False"
    using deny_published [OF assms, of x] deny_exact [OF assms, of _ x] by blast
  ultimately show ?thesis using found_exact [OF assms, of x] by (cases "decide s n x") auto
qed

end

section \<open>The rule memory as a store\<close>

definition rule_regular :: "string \<Rightarrow> bool" where
  "rule_regular r \<longleftrightarrow> (case splitColon r of
     Some (t, p) \<Rightarrow> parseRuleSpec r = (t, p) \<and> p \<noteq> [] \<and> t \<noteq> ''*'' | None \<Rightarrow> False)"

text \<open>
  The name is canonical, the always-allowed entries are set, and every rule splits at its colon the way its
  specification parses, with a pattern and a tool other than the star.
\<close>

definition memory_regular :: "PermissionMemory \<Rightarrow> string \<Rightarrow> bool" where
  "memory_regular pm n \<longleftrightarrow> canonicalToolName n = n \<and>
     list_all (\<lambda>(t, b). b \<and> t \<noteq> ''*'') (pm_allowAll pm) \<and>
     list_all rule_regular (pm_allowRules pm) \<and> list_all rule_regular (pm_denyRules pm)"

lemma TrimSuffix_star: "HasSuffix p ''*'' \<Longrightarrow> TrimSuffix p ''*'' = take (length p - 1) p"
  by (simp add: TrimSuffix_def)

lemma matchers_agree: "p \<noteq> [] \<Longrightarrow> grantMatchPattern p s = matchRulePattern p s"
  by (simp add: grantMatchPattern_def matchRulePattern_def TrimSuffix_star)

lemma rule_as_grant:
  assumes "rule_regular r"
  shows "grantHits n x (case parseRuleSpec r of (t, p) \<Rightarrow> memoryGrant b t p) \<longleftrightarrow> ruleHits n x r"
  using assms
  by (auto simp: rule_regular_def grantHits_def memoryGrant_def ruleHits_def matchers_agree split: option.splits)

lemma memoryGrant_simps [simp]:
  "gr_Allow (case x of (t, p) \<Rightarrow> memoryGrant b t p) = b" "gr_Allow (memoryGrant b t p) = b"
  "gr_Expires (case x of (t, p) \<Rightarrow> memoryGrant b t p) = None" "gr_Expires (memoryGrant b t p) = None"
  by (auto simp: memoryGrant_def split: prod.splits)

lemma star_grant_hits: "grantHits n s (memoryGrant b t ''*'') \<longleftrightarrow> t = ''*'' \<or> t = n"
  by (simp add: grantHits_def memoryGrant_def grantMatchPattern_def)

lemma allowAll_as_grant:
  assumes "list_all (\<lambda>(t, b). b \<and> t \<noteq> ''*'') al"
  shows "(\<exists>x \<in> set al. grantHits n s (case x of (t, _) \<Rightarrow> memoryGrant True t ''*'')) \<longleftrightarrow> map_of al n = Some True"
  using assms
proof (induction al)
  case (Cons x al)
  obtain t b where x: "x = (t, b)" by (cases x)
  with Cons show ?case by (cases "t = n") (simp_all add: star_grant_hits)
qed simp

lemma memory_deny_grants:
  assumes "memory_regular pm n"
  shows "(\<exists>g \<in> set (memory_Grants pm). grantHits n x g \<and> \<not> gr_Allow g) \<longleftrightarrow> memory_Check pm n x = Some False"
proof -
  have "(\<exists>g \<in> set (memory_Grants pm). grantHits n x g \<and> \<not> gr_Allow g) \<longleftrightarrow>
      (\<exists>r \<in> set (pm_denyRules pm). grantHits n x (case parseRuleSpec r of (t, p) \<Rightarrow> memoryGrant False t p))"
    by (auto simp: memory_Grants_def)
  also have "\<dots> \<longleftrightarrow> (\<exists>r \<in> set (pm_denyRules pm). ruleHits n x r)"
    using assms by (intro bex_cong refl rule_as_grant) (simp add: memory_regular_def list_all_iff)
  finally show ?thesis using assms by (simp add: check_denied_iff memory_regular_def)
qed

lemma memory_any_grants:
  assumes "memory_regular pm n"
  shows "(\<exists>g \<in> set (memory_Grants pm). grantHits n x g) \<longleftrightarrow> memory_Check pm n x \<noteq> None"
proof -
  have n: "canonicalToolName n = n" using assms by (simp add: memory_regular_def)
  have rules: "(\<exists>r \<in> set rs. grantHits n x (case parseRuleSpec r of (t, p) \<Rightarrow> memoryGrant b t p))
      \<longleftrightarrow> (\<exists>r \<in> set rs. ruleHits n x r)" if "list_all rule_regular rs" for rs b
    using that by (intro bex_cong refl rule_as_grant) (simp add: list_all_iff)
  have "(\<exists>g \<in> set (memory_Grants pm). grantHits n x g) \<longleftrightarrow> map_of (pm_allowAll pm) n = Some True
      \<or> (\<exists>r \<in> set (pm_allowRules pm). ruleHits n x r) \<or> (\<exists>r \<in> set (pm_denyRules pm). ruleHits n x r)"
    using assms rules allowAll_as_grant [of "pm_allowAll pm" n x]
    by (simp add: memory_Grants_def memory_regular_def bex_Un)
  then show ?thesis by (auto simp: memory_Check_def Let_def n list_ex_iff)
qed

interpretation mem: exact_store memory_Grants memory_Check memory_regular
proof unfold_locales
  fix g pm
  assume "g \<in> set (memory_Grants pm)"
  then show "gr_Expires g = None" by (auto simp: memory_Grants_def)
qed (use memory_deny_grants memory_any_grants in blast)+

text \<open>
  For a canonical tool name and rules that parse as they were written, the unified check over the rule
  memory answers exactly what the memory's own lookup answers.
\<close>

theorem unified_refines_memory:
  assumes "memory_regular pm n"
  shows "unified_Check [memory_Grants pm] n summary now =
    (case memory_Check pm n summary of Some b \<Rightarrow> (b, True) | None \<Rightarrow> (False, False))"
  using assms by (rule mem.view_is_lookup)

theorem unified_refines_memory_witness:
  "memory_regular (DenySpec (AllowSpec NewPermissionMemory ''bash'') ''Bash(git push:*)'') ''Bash'' \<and>
   unified_Check [memory_Grants (DenySpec (AllowSpec NewPermissionMemory ''bash'') ''Bash(git push:*)'')]
     ''Bash'' ''git push origin'' 0 = (False, True)"
proof -
  let ?pm = "DenySpec (AllowSpec NewPermissionMemory ''bash'') ''Bash(git push:*)''"
  have r: "memory_regular ?pm ''Bash''" by code_simp
  have "memory_Check ?pm ''Bash'' ''git push origin'' = Some False" by code_simp
  with r unified_refines_memory [OF r, of "''git push origin''" 0] show ?thesis by simp
qed

text \<open>
  The unified view compares names as the model emitted them while the memory canonicalises: a tool
  denied outright is denied by the memory under its alias \<open>bash\<close> but the view finds no rule for it.
\<close>

theorem unified_misses_aliases:
  "memory_Check (DenySpec NewPermissionMemory ''Bash'') ''bash'' ''rm x'' = Some False
    \<and> unified_Check [memory_Grants (DenySpec NewPermissionMemory ''Bash'')] ''Bash'' ''rm x'' now = (False, True)
    \<and> unified_Check [memory_Grants (DenySpec NewPermissionMemory ''Bash'')] ''bash'' ''rm x'' now = (False, False)"
proof -
  have g: "memory_Grants (DenySpec NewPermissionMemory ''Bash'') = [memoryGrant False ''Bash'' ''*'']" by code_simp
  have "memory_Check (DenySpec NewPermissionMemory ''Bash'') ''bash'' ''rm x'' = Some False" by code_simp
  then show ?thesis unfolding g
    by (simp add: unified_Check_def collect_def Active_def grantHits_def memoryGrant_def grantMatchPattern_def)
qed

end
