(* ===== verification/Governance.thy ===== *)
theory Governance
  imports Go_Glob
begin

text \<open>
  The administrator's ceiling, from \<open>internal/governance/governance.go\<close>: the scope catalogue, policy and
  profile layers, the glob matcher and the tightest-wins evaluation. The home directory that the matcher
  expands a tilde to is an argument (\<open>homePath\<close> reads it from the operating system); reading and parsing a
  policy file is not modelled, a layer is built from the parsed document. The set of denied tools of a layer
  is the list of its keys.
\<close>

section \<open>Scopes\<close>

type_synonym ScopeName = string
type_synonym Action = string

definition ActionAllow :: Action where
  "ActionAllow = ''allow''"

definition ActionDeny :: Action where
  "ActionDeny = ''deny''"

definition ScopeCatalog :: "(ScopeName \<times> string) list" where
  "ScopeCatalog =
    [(''bash'', ''Bash''),
     (''filesystem_read'', ''Read,LS,Glob,Grep,SmartReader''),
     (''filesystem_write'', ''Write,Edit,StructuredEdit,MultiEdit,FileEdit''),
     (''filesystem_delete'', ''Delete''),
     (''network'', ''WebFetch,WebSearch,Browser,Screenshot,Download''),
     (''secrets'', ''CoreMemoryRead,CoreMemorySearch''),
     (''spec'', ''Proposal,Specify,Design,Plan,Tasks,Clarify,Constitution,Analyze,Checklist,Converge''),
     (''mcp'', ''McpTool''),
     (''code_intel'', ''CodeSearch,CodeGraph,Impact,GitHistory,LSP'')]"

text \<open>\<open>strings.Split\<close> on a one-byte separator.\<close>

fun splitByte :: "char \<Rightarrow> string \<Rightarrow> string \<Rightarrow> string list" where
  "splitByte c acc [] = [rev acc]"
| "splitByte c acc (x # xs) = (if x = c then rev acc # splitByte c [] xs else splitByte c (x # acc) xs)"

text \<open>The reverse index: a tool with each scope that lists it, in the order in which the catalogue is iterated.\<close>

definition buildToolToScope :: "(ScopeName \<times> string) list \<Rightarrow> (string \<times> ScopeName) list" where
  "buildToolToScope catalog = concat (map (\<lambda>(scope, names).
     map (\<lambda>name. (name, scope)) (filter (\<lambda>name. name \<noteq> []) (map TrimSpace (splitByte (CHR '','') [] names)))) catalog)"

fun str_less :: "string \<Rightarrow> string \<Rightarrow> bool" where
  "str_less _ [] = False"
| "str_less [] (_ # _) = True"
| "str_less (x # xs) (y # ys) = (x < y \<or> x = y \<and> str_less xs ys)"

definition ScopesForTool :: "string \<Rightarrow> ScopeName list" where
  "ScopesForTool toolName = SliceStable str_less
     (map snd (filter (\<lambda>(name, _). name = TrimSpace toolName) (buildToolToScope ScopeCatalog)))"

section \<open>Layers\<close>

record gov_Capability =
  cap_Scope :: ScopeName
  cap_Action :: Action
  cap_Pattern :: string
  cap_Reason :: string

record Document =
  doc_Version :: int
  doc_FailClosed :: bool
  doc_Capabilities :: "gov_Capability list"
  doc_DeniedTools :: "string list"
  doc_DeniedBash :: "string list"
  doc_SensitivePaths :: "string list"

record Layer =
  gl_Name :: string
  gl_FailClosed :: bool
  gl_Capabilities :: "gov_Capability list"
  gl_DeniedTools :: "string list"
  gl_DeniedBash :: "string list"
  gl_SensitivePaths :: "string list"

datatype layerError = ErrUnsupportedVersion int

definition buildLayer :: "string \<Rightarrow> Document \<Rightarrow> layerError + Layer" where
  "buildLayer name doc =
    (if doc_Version doc \<noteq> 1 then Inl (ErrUnsupportedVersion (doc_Version doc))
     else Inr \<lparr>gl_Name = name, gl_FailClosed = doc_FailClosed doc, gl_Capabilities = doc_Capabilities doc,
       gl_DeniedTools = List.fold (List.insert \<circ> TrimSpace) (doc_DeniedTools doc) [],
       gl_DeniedBash = doc_DeniedBash doc, gl_SensitivePaths = doc_SensitivePaths doc\<rparr>)"

definition BuildProfile :: "string \<Rightarrow> Document \<Rightarrow> layerError + Layer" where
  "BuildProfile name doc = buildLayer name doc"

record gov_Decision =
  gd_Allowed :: bool
  gd_Source :: string
  gd_Scope :: ScopeName
  gd_Rule :: string
  gd_Reason :: string

definition noDecision :: gov_Decision where
  "noDecision = \<lparr>gd_Allowed = False, gd_Source = [], gd_Scope = [], gd_Rule = [], gd_Reason = []\<rparr>"

record gov_Engine =
  ge_policy :: "Layer option"
  ge_profile :: "Layer option"

definition gov_New :: gov_Engine where
  "gov_New = \<lparr>ge_policy = None, ge_profile = None\<rparr>"

definition SetPolicy :: "gov_Engine \<Rightarrow> Layer option \<Rightarrow> gov_Engine" where
  "SetPolicy e layer = e\<lparr>ge_policy := layer\<rparr>"

definition SetProfile :: "gov_Engine \<Rightarrow> Layer option \<Rightarrow> gov_Engine" where
  "SetProfile e layer = e\<lparr>ge_profile := layer\<rparr>"

section \<open>Evaluation\<close>

fun slashMatch :: "string \<Rightarrow> string \<Rightarrow> bool" where
  "slashMatch pattern [] = False"
| "slashMatch pattern (c # cs) = (c = CHR ''/'' \<and> Match pattern cs \<or> slashMatch pattern cs)"

definition globMatch :: "string \<Rightarrow> string \<Rightarrow> string \<Rightarrow> bool" where
  "globMatch home pattern subject =
    (if pattern = [] then True
     else let norm = ReplaceByte subject (CHR ''~'') home in
       if Match pattern norm then True
       else if Match pattern subject then True
       else if HasSuffix pattern ''*'' \<and>
         (HasPrefix norm (TrimSuffix pattern ''*'') \<or> HasPrefix subject (TrimSuffix pattern ''*'')) then True
       else slashMatch pattern subject)"

definition scopeContains :: "ScopeName \<Rightarrow> ScopeName list \<Rightarrow> bool" where
  "scopeContains scope scopes \<longleftrightarrow> scope \<in> set scopes"

definition matchesAnyPattern :: "string \<Rightarrow> string \<Rightarrow> string list \<Rightarrow> bool" where
  "matchesAnyPattern home summary patterns = list_ex (\<lambda>p. globMatch home p summary) patterns"

definition capHits :: "string \<Rightarrow> string \<Rightarrow> ScopeName list \<Rightarrow> gov_Capability \<Rightarrow> bool" where
  "capHits home summary scopes c \<longleftrightarrow> scopeContains (cap_Scope c) scopes \<and>
     (cap_Pattern c = [] \<or> globMatch home (cap_Pattern c) summary)"

text \<open>One row of the loop over the capabilities: (deny hit, allow hit).\<close>

definition capStep :: "string \<Rightarrow> string \<Rightarrow> ScopeName list \<Rightarrow> bool \<times> gov_Decision \<Rightarrow> gov_Capability \<Rightarrow> bool \<times> gov_Decision" where
  "capStep home summary scopes acc c = (case acc of (denyHit, allowHit) \<Rightarrow>
     if \<not> capHits home summary scopes c then acc
     else if cap_Action c = ActionDeny then (True, allowHit)
     else (denyHit, noDecision\<lparr>gd_Allowed := True, gd_Scope := cap_Scope c, gd_Rule := ''capability''\<rparr>))"

definition evaluateLayer :: "string \<Rightarrow> Layer \<Rightarrow> string \<Rightarrow> ScopeName list \<Rightarrow> bool \<times> gov_Decision \<times> bool" where
  "evaluateLayer home l summary scopes =
    (case foldl (capStep home summary scopes) (False, noDecision) (gl_Capabilities l) of (denyHit, allowHit) \<Rightarrow>
       (denyHit \<or> matchesAnyPattern home summary (gl_SensitivePaths l @ gl_DeniedBash l), allowHit,
        gl_Capabilities l \<noteq> [] \<or> gl_DeniedTools l \<noteq> []))"

definition gov_Evaluate :: "string \<Rightarrow> gov_Engine \<Rightarrow> string \<Rightarrow> string \<Rightarrow> gov_Decision" where
  "gov_Evaluate home e toolName summary = (case ge_policy e of
     None \<Rightarrow> noDecision\<lparr>gd_Allowed := True, gd_Source := ''unconfigured'', gd_Reason := ''no governance policy loaded''\<rparr>
   | Some policy \<Rightarrow>
      if TrimSpace toolName \<in> set (gl_DeniedTools policy) then
        noDecision\<lparr>gd_Source := ''policy'', gd_Rule := ''denied_tools'', gd_Reason := ''tool denied by policy ceiling''\<rparr>
      else let scopes = ScopesForTool toolName in
        (case evaluateLayer home policy summary scopes of (policyDeny, policyAllow, governedByPolicy) \<Rightarrow>
           if policyDeny then noDecision\<lparr>gd_Source := ''policy'', gd_Scope := gd_Scope policyAllow,
             gd_Rule := ''capability'', gd_Reason := ''denied by policy ceiling''\<rparr>
           else
             (let rest =
                (if governedByPolicy \<and> gd_Allowed policyAllow then
                   \<lparr>gd_Allowed = True, gd_Source = ''policy'', gd_Scope = gd_Scope policyAllow, gd_Rule = ''capability'',
                    gd_Reason = ''allowed by policy''\<rparr>
                 else if gl_FailClosed policy then
                   noDecision\<lparr>gd_Source := ''policy'', gd_Reason := ''fail_closed'', gd_Rule := ''not_governed''\<rparr>
                 else noDecision\<lparr>gd_Allowed := True, gd_Source := ''ungoverned'', gd_Reason := ''no matching capability''\<rparr>)
              in case ge_profile e of
                   None \<Rightarrow> rest
                 | Some profile \<Rightarrow>
                     (case evaluateLayer home profile summary scopes of (profileDeny, profileAllow, _) \<Rightarrow>
                        if profileDeny then noDecision\<lparr>gd_Source := ''profile'', gd_Scope := gd_Scope profileAllow,
                          gd_Rule := ''capability'', gd_Reason := ''denied by session profile''\<rparr>
                        else rest))))"

section \<open>What a layer says\<close>

definition layer_denies :: "string \<Rightarrow> Layer \<Rightarrow> string \<Rightarrow> ScopeName list \<Rightarrow> bool" where
  "layer_denies home l summary scopes \<longleftrightarrow>
    (\<exists>c \<in> set (gl_Capabilities l). capHits home summary scopes c \<and> cap_Action c = ActionDeny) \<or>
    (\<exists>p \<in> set (gl_SensitivePaths l @ gl_DeniedBash l). globMatch home p summary)"

definition layer_allows :: "string \<Rightarrow> Layer \<Rightarrow> string \<Rightarrow> ScopeName list \<Rightarrow> bool" where
  "layer_allows home l summary scopes \<longleftrightarrow>
    (\<exists>c \<in> set (gl_Capabilities l). capHits home summary scopes c \<and> cap_Action c \<noteq> ActionDeny)"

lemma foldl_capStep:
  "fst (foldl (capStep home summary scopes) (d, a) cs) \<longleftrightarrow>
     d \<or> (\<exists>c \<in> set cs. capHits home summary scopes c \<and> cap_Action c = ActionDeny)"
  "gd_Allowed (snd (foldl (capStep home summary scopes) (d, a) cs)) \<longleftrightarrow>
     gd_Allowed a \<or> (\<exists>c \<in> set cs. capHits home summary scopes c \<and> cap_Action c \<noteq> ActionDeny)"
  by (induction cs arbitrary: d a) (auto simp: capStep_def)

lemma evaluateLayer_facts:
  "fst (evaluateLayer home l summary scopes) \<longleftrightarrow> layer_denies home l summary scopes"
  "gd_Allowed (fst (snd (evaluateLayer home l summary scopes))) \<longleftrightarrow> layer_allows home l summary scopes"
  "snd (snd (evaluateLayer home l summary scopes)) \<longleftrightarrow> gl_Capabilities l \<noteq> [] \<or> gl_DeniedTools l \<noteq> []"
  by (simp_all add: evaluateLayer_def layer_denies_def layer_allows_def case_prod_beta foldl_capStep
      matchesAnyPattern_def list_ex_iff noDecision_def)

lemma noDecision_Allowed [simp]: "gd_Allowed noDecision = False"
  by (simp add: noDecision_def)

lemma layer_allows_governed: "layer_allows home l summary scopes \<Longrightarrow> gl_Capabilities l \<noteq> []"
  by (auto simp: layer_allows_def)

lemma evaluate_parts:
  "\<exists>a g. evaluateLayer home l summary scopes = (layer_denies home l summary scopes, a, g)
     \<and> (g \<and> gd_Allowed a \<longleftrightarrow> layer_allows home l summary scopes)"
  using evaluateLayer_facts [of home l summary scopes] layer_allows_governed [of home l summary scopes]
  by (cases "evaluateLayer home l summary scopes") auto


lemma evaluateLayer_update:
  "evaluateLayer home (l\<lparr>gl_DeniedTools := ts, gl_FailClosed := b\<rparr>) summary scopes =
     (let (d, a, g) = evaluateLayer home l summary scopes in (d, a, gl_Capabilities l \<noteq> [] \<or> ts \<noteq> []))"
  by (simp add: evaluateLayer_def case_prod_beta)

definition bash_denied :: gov_Engine where
  "bash_denied = SetPolicy gov_New (Some \<lparr>gl_Name = ''policy'', gl_FailClosed = False,
     gl_Capabilities = [\<lparr>cap_Scope = ''bash'', cap_Action = ActionDeny, cap_Pattern = [], cap_Reason = []\<rparr>],
     gl_DeniedTools = [], gl_DeniedBash = [], gl_SensitivePaths = []\<rparr>)"

text \<open>
  Two gaps of the ceiling. The deny list and the fail-closed flag of a profile have no effect on any
  call: evaluation with them and without them gives the same decision. And scopes are looked up by the name
  as given: a policy that denies the scope of Bash denies \<open>Bash\<close> and lets its alias \<open>bash\<close> pass.
\<close>

theorem governance_gaps:
  "gov_Evaluate home (SetProfile e (Some (profile\<lparr>gl_DeniedTools := ts, gl_FailClosed := b\<rparr>))) toolName summary =
     gov_Evaluate home (SetProfile e (Some profile)) toolName summary
   \<and> \<not> gd_Allowed (gov_Evaluate [] bash_denied ''Bash'' ''rm x'')
   \<and> gd_Allowed (gov_Evaluate [] bash_denied ''bash'' ''rm x'')"
proof (intro conjI)
  show "gov_Evaluate home (SetProfile e (Some (profile\<lparr>gl_DeniedTools := ts, gl_FailClosed := b\<rparr>))) toolName summary =
     gov_Evaluate home (SetProfile e (Some profile)) toolName summary"
    by (simp add: gov_Evaluate_def SetProfile_def evaluateLayer_update Let_def split: option.split prod.split)
  show "\<not> gd_Allowed (gov_Evaluate [] bash_denied ''Bash'' ''rm x'')" by code_simp
  show "gd_Allowed (gov_Evaluate [] bash_denied ''bash'' ''rm x'')" by code_simp
qed

end
