(* ===== verification/Spec_Workflow.thy ===== *)
theory Spec_Workflow
  imports Tool_Policy
begin

text \<open>
  The spec-driven workflow, from \<open>internal/engine/safety/spec_workflow.go\<close> and the spec part of
  \<open>permission_engine.go\<close>: the validated transition function, the stage advance after a successful tool call
  with its gates on the written files, and which workflow tools a stage admits. The files of a spec directory
  are an argument, a map from slug and file name to contents, \<open>None\<close> where the file cannot be read.
\<close>

unbundle bit_operations_syntax

section \<open>Stages\<close>

datatype SpecStage = SpecStageNone | SpecStageProposal | SpecStageSpecify | SpecStageDesign
  | SpecStagePlan | SpecStageTasks | SpecStageImplementing

fun stage_rank :: "SpecStage \<Rightarrow> nat" where
  "stage_rank SpecStageNone = 0"
| "stage_rank SpecStageProposal = 1"
| "stage_rank SpecStageSpecify = 2"
| "stage_rank SpecStageDesign = 3"
| "stage_rank SpecStagePlan = 4"
| "stage_rank SpecStageTasks = 5"
| "stage_rank SpecStageImplementing = 6"

lemma stage_rank_inj: "stage_rank a = stage_rank b \<Longrightarrow> a = b"
  by (cases a; cases b) simp_all

instantiation SpecStage :: linorder
begin

definition less_eq_SpecStage :: "SpecStage \<Rightarrow> SpecStage \<Rightarrow> bool" where
  "less_eq_SpecStage a b \<longleftrightarrow> stage_rank a \<le> stage_rank b"

definition less_SpecStage :: "SpecStage \<Rightarrow> SpecStage \<Rightarrow> bool" where
  "less_SpecStage a b \<longleftrightarrow> stage_rank a < stage_rank b"

instance
  by standard (auto simp: less_eq_SpecStage_def less_SpecStage_def dest: stage_rank_inj)

end

text \<open>The bit mask of completed parallel stages, Go's \<open>int\<close>.\<close>

type_synonym specDone = "64 word"

definition doneProposal :: specDone where
  "doneProposal = 1"

definition doneSpecify :: specDone where
  "doneSpecify = 2"

definition doneDesign :: specDone where
  "doneDesign = 4"

record SpecWorkflow =
  sw_Stage :: SpecStage
  sw_Slug :: string
  sw_Done :: specDone

datatype specError = ErrProposalUnavailable SpecStage | ErrProposalSlug | ErrSpecifyNeedsProposal
  | ErrSpecifyUnavailable SpecStage | ErrDesignNeedsProposal | ErrDesignUnavailable SpecStage
  | ErrPlanIncomplete | ErrTasksNeedsPlan | ErrApproveNeedsTasks

definition parallelDone :: "specDone \<Rightarrow> bool" where
  "parallelDone d \<longleftrightarrow> d AND (doneSpecify OR doneDesign) = doneSpecify OR doneDesign"

definition Transition :: "SpecWorkflow \<Rightarrow> string \<Rightarrow> string \<Rightarrow> specError + SpecWorkflow" where
  "Transition w toolName slug = (let c = canonicalToolName toolName in
     if c = ''Proposal'' then
       (if sw_Stage w \<noteq> SpecStageNone \<and> sw_Stage w \<noteq> SpecStageProposal then Inl (ErrProposalUnavailable (sw_Stage w))
        else if slug = [] then Inl ErrProposalSlug
        else Inr (w\<lparr>sw_Slug := slug, sw_Stage := SpecStageProposal, sw_Done := sw_Done w OR doneProposal\<rparr>))
     else if c = ''Specify'' then
       (if sw_Stage w = SpecStageNone then Inl ErrSpecifyNeedsProposal
        else if sw_Stage w = SpecStageTasks \<or> sw_Stage w = SpecStageImplementing then Inl (ErrSpecifyUnavailable (sw_Stage w))
        else Inr (w\<lparr>sw_Slug := (if sw_Slug w = [] \<and> slug \<noteq> [] then slug else sw_Slug w),
                    sw_Stage := SpecStageSpecify, sw_Done := sw_Done w OR doneSpecify\<rparr>))
     else if c = ''Design'' then
       (if sw_Stage w = SpecStageNone then Inl ErrDesignNeedsProposal
        else if sw_Stage w = SpecStageTasks \<or> sw_Stage w = SpecStageImplementing then Inl (ErrDesignUnavailable (sw_Stage w))
        else Inr (w\<lparr>sw_Stage := SpecStageDesign, sw_Done := sw_Done w OR doneDesign\<rparr>))
     else if c = ''Plan'' then
       (if sw_Slug w = [] \<or> \<not> parallelDone (sw_Done w) then Inl ErrPlanIncomplete
        else Inr (w\<lparr>sw_Stage := SpecStagePlan\<rparr>))
     else if c = ''Tasks'' then
       (if sw_Stage w \<noteq> SpecStagePlan then Inl ErrTasksNeedsPlan else Inr (w\<lparr>sw_Stage := SpecStageTasks\<rparr>))
     else if c = ''ApproveImplementation'' then
       (if sw_Stage w \<noteq> SpecStageTasks then Inl ErrApproveNeedsTasks
        else Inr (w\<lparr>sw_Stage := SpecStageImplementing\<rparr>))
     else Inr w)"

definition workflow_Reset :: "SpecWorkflow \<Rightarrow> SpecWorkflow" where
  "workflow_Reset w = w\<lparr>sw_Stage := SpecStageNone, sw_Slug := [], sw_Done := 0\<rparr>"

section \<open>Gates on the written files\<close>

type_synonym spec_files = "string \<Rightarrow> string \<Rightarrow> string option"

definition constitutionExists :: "spec_files \<Rightarrow> string \<Rightarrow> bool" where
  "constitutionExists files slug \<longleftrightarrow> slug \<noteq> [] \<and> files slug ''constitution.md'' \<noteq> None"

definition phaseGatesPass :: "spec_files \<Rightarrow> string \<Rightarrow> bool" where
  "phaseGatesPass files slug =
    (if slug = [] then False
     else case files slug ''plan.md'' of None \<Rightarrow> False
     | Some data \<Rightarrow> (let content = ToLower data in
         (Contains content ''simplicity'' \<or> Contains content (map char_of [226::nat, 137, 164] @ ''3'') \<or> Contains content ''<=3'')
         \<and> (Contains content ''anti-abstraction'' \<or> Contains content ''framework directly'')
         \<and> (Contains content ''integration-first'' \<or> Contains content ''contract'')
         \<and> (Contains content ''complexity tracking'' \<or> Contains content ''justification'')))"

text \<open>
  The number of matches of \<open>\[NEEDS CLARIFICATION.*?\]\<close>: from each opening the text up to the first closing
  bracket on the same line.
\<close>

fun closeBracket :: "string \<Rightarrow> string option" where
  "closeBracket [] = None"
| "closeBracket (c # cs) = (if c = CHR '']'' then Some cs else if c = CHR 0x0A then None else closeBracket cs)"

lemma closeBracket_length: "closeBracket s = Some r \<Longrightarrow> length r < length s"
  by (induction s) (auto split: if_splits)

definition clarifyMark :: string where
  "clarifyMark = ''[NEEDS CLARIFICATION''"

function countClarify :: "string \<Rightarrow> nat" where
  "countClarify [] = 0"
| "countClarify (c # cs) =
    (if HasPrefix (c # cs) clarifyMark then
       (case closeBracket (drop (length clarifyMark) (c # cs)) of
          Some r \<Rightarrow> Suc (countClarify r) | None \<Rightarrow> countClarify cs)
     else countClarify cs)"
  by pat_completeness auto

termination
  by (relation "measure length") (auto dest!: closeBracket_length)

definition unresolvedClarifications :: "spec_files \<Rightarrow> string \<Rightarrow> nat" where
  "unresolvedClarifications files slug =
    (if slug = [] then 0 else case files slug ''spec.md'' of None \<Rightarrow> 0 | Some data \<Rightarrow> countClarify data)"

text \<open>The number of lines that start with two hashes, a blank, digits and a dot.\<close>

definition is_digit :: "char \<Rightarrow> bool" where
  "is_digit c \<longleftrightarrow> c \<in> set ''0123456789''"

definition phaseLine :: "string \<Rightarrow> bool" where
  "phaseLine l \<longleftrightarrow> HasPrefix l ''## '' \<and> takeWhile is_digit (drop 3 l) \<noteq> [] \<and>
     HasPrefix (dropWhile is_digit (drop 3 l)) ''.''"

fun countPhaseLines :: "bool \<Rightarrow> string \<Rightarrow> nat" where
  "countPhaseLines atLineStart [] = 0"
| "countPhaseLines atLineStart (c # cs) =
    (if atLineStart \<and> phaseLine (c # cs) then 1 else 0) + countPhaseLines (c = CHR 0x0A) cs"

definition detectPhases :: "spec_files \<Rightarrow> string \<Rightarrow> nat" where
  "detectPhases files slug =
    (if slug = [] then 0 else case files slug ''tasks.md'' of None \<Rightarrow> 0 | Some data \<Rightarrow> countPhaseLines True data)"

section \<open>The workflow state of the engine\<close>

record spec_state =
  pe_Stage :: SpecStage
  pe_specDone :: specDone
  pe_SpecSlug :: string
  pe_Phase :: int
  pe_Phases :: int
  pe_convergeChecked :: bool
  pe_Revision :: u64

definition AdvancePhase :: "'a spec_state_scheme \<Rightarrow> 'a spec_state_scheme" where
  "AdvancePhase pe = (if pe_Phase pe < pe_Phases pe then pe\<lparr>pe_Phase := pe_Phase pe + 1\<rparr> else pe)"

definition AdvanceSpecStage :: "spec_files \<Rightarrow> string \<Rightarrow> 'a spec_state_scheme \<Rightarrow> 'a spec_state_scheme" where
  "AdvanceSpecStage files name pe =
    (if canonicalToolName name = ''SpecReset'' then
       pe\<lparr>pe_Stage := SpecStageNone, pe_SpecSlug := [], pe_specDone := 0, pe_Phase := 0, pe_Phases := 0,
          pe_convergeChecked := False, pe_Revision := pe_Revision pe + 1\<rparr>
     else case Transition \<lparr>sw_Stage = pe_Stage pe, sw_Slug = pe_SpecSlug pe, sw_Done = pe_specDone pe\<rparr> name (pe_SpecSlug pe) of
       Inl err \<Rightarrow> pe
     | Inr w \<Rightarrow>
        (let pe1 = pe\<lparr>pe_Stage := sw_Stage w, pe_SpecSlug := sw_Slug w, pe_specDone := sw_Done w,
                      pe_Revision := pe_Revision pe + 1\<rparr>;
             pe2 = (if canonicalToolName name = ''ApproveImplementation''
                    then pe1\<lparr>pe_Phase := 1, pe_Phases := int (detectPhases files (pe_SpecSlug pe1)), pe_convergeChecked := False\<rparr>
                    else pe1)
         in if canonicalToolName name = ''Plan'' then
              (if 0 < unresolvedClarifications files (pe_SpecSlug pe2) then pe2\<lparr>pe_Stage := SpecStageDesign\<rparr>
               else if \<not> phaseGatesPass files (pe_SpecSlug pe2) then pe2\<lparr>pe_Stage := SpecStageDesign\<rparr>
               else pe2)
            else pe2))"

definition specToolAllowed :: "spec_files \<Rightarrow> 'a spec_state_scheme \<Rightarrow> string \<Rightarrow> bool" where
  "specToolAllowed files pe toolName =
    (if toolName = ''Proposal'' then pe_Stage pe = SpecStageNone \<or> pe_Stage pe = SpecStageProposal
     else if toolName = ''Specify'' \<or> toolName = ''Design'' then
       (if pe_SpecSlug pe \<noteq> [] \<and> \<not> constitutionExists files (pe_SpecSlug pe) then False
        else SpecStageProposal \<le> pe_Stage pe \<and> pe_Stage pe < SpecStagePlan)
     else if toolName = ''Plan'' then parallelDone (pe_specDone pe)
     else if toolName = ''Tasks'' then pe_Stage pe = SpecStagePlan
     else True)"

definition specStageReason :: "spec_files \<Rightarrow> 'a spec_state_scheme \<Rightarrow> string \<Rightarrow> string" where
  "specStageReason files pe toolName =
    (if toolName = ''Proposal'' then ''Proposal is only available when no spec workflow is active.''
     else if toolName = ''Specify'' \<or> toolName = ''Design'' then
       (if pe_SpecSlug pe \<noteq> [] \<and> \<not> constitutionExists files (pe_SpecSlug pe)
        then ''Constitution required: call Constitution tool with action='' @ [CHR 0x27] @ ''init'' @ [CHR 0x27] @ '' before Specify/Design.''
        else ''Spec stage active: Specify/Design require Proposal and must complete before Plan.'')
     else if toolName = ''Plan'' then
       (if \<not> parallelDone (pe_specDone pe)
        then ''Spec stage active: Plan requires both Specify and Design to be complete.''
        else if 0 < unresolvedClarifications files (pe_SpecSlug pe)
        then ''Spec stage active: resolve '' @ show_nat (unresolvedClarifications files (pe_SpecSlug pe)) @
             '' [NEEDS CLARIFICATION] marker(s) before advancing to Plan.''
        else ''Spec stage active: Plan phase gates not documented.'')
     else if toolName = ''Tasks'' then ''Spec stage active: Tasks is available only after Plan completes.''
     else ''Spec stage active: tool is not available at the current stage.'')"

section \<open>The workflow as a state machine\<close>

text \<open>The abstract machine over the stage and the two completion bits.\<close>

inductive stage_step :: "SpecStage \<times> bool \<times> bool \<Rightarrow> SpecStage \<times> bool \<times> bool \<Rightarrow> bool" where
  stay: "stage_step s s"
| reset: "stage_step s (SpecStageNone, False, False)"
| propose: "stage_step (st, a, b) (SpecStageProposal, a, b)"
| specify: "st \<noteq> SpecStageNone \<Longrightarrow> stage_step (st, a, b) (SpecStageSpecify, True, b)"
| design: "st \<noteq> SpecStageNone \<Longrightarrow> stage_step (st, a, b) (SpecStageDesign, a, True)"
| plan: "stage_step (st, True, True) (SpecStagePlan, True, True)"
| plan_refused: "stage_step (st, True, True) (SpecStageDesign, True, True)"
| tasks: "stage_step (SpecStagePlan, a, b) (SpecStageTasks, a, b)"
| approve: "stage_step (SpecStageTasks, a, b) (SpecStageImplementing, a, b)"

definition stage_abs :: "'a spec_state_scheme \<Rightarrow> SpecStage \<times> bool \<times> bool" where
  "stage_abs pe = (pe_Stage pe, bit (pe_specDone pe) 1, bit (pe_specDone pe) 2)"

lemma done_bits [simp]:
  "bit (d OR doneProposal) (Suc 0) = bit d (Suc 0)" "bit (d OR doneProposal) 2 = bit d 2"
  "bit (d OR doneSpecify) (Suc 0)" "bit (d OR doneSpecify) 2 = bit d 2"
  "bit (d OR doneDesign) (Suc 0) = bit d (Suc 0)" "bit (d OR doneDesign) 2"
  by (simp_all add: doneProposal_def doneSpecify_def doneDesign_def bit_simps)

lemma parallelDone_bits: "parallelDone d \<longleftrightarrow> bit d (Suc 0) \<and> bit d 2"
proof -
  have six: "doneSpecify OR doneDesign = (6 :: 64 word)" by (simp add: doneSpecify_def doneDesign_def)
  have b: "bit (6 :: 64 word) n \<longleftrightarrow> n = Suc 0 \<or> n = 2" for n
    by (auto simp: bit_simps numeral_eq_Suc bit_numeral_rec split: nat.splits)
  show ?thesis unfolding parallelDone_def six bit_eq_iff [where 'a = "64 word"] bit_and_iff b
    by (auto dest: spec [of _ "Suc 0"] spec [of _ 2])
qed

lemmas stage_steps = stage_step.intros

lemma advance_refines: "stage_step (stage_abs pe) (stage_abs (AdvanceSpecStage files n pe))"
proof (cases "canonicalToolName n = ''SpecReset''")
  case True
  then show ?thesis by (simp add: AdvanceSpecStage_def stage_abs_def stage_steps)
next
  case False
  let ?w = "\<lparr>sw_Stage = pe_Stage pe, sw_Slug = pe_SpecSlug pe, sw_Done = pe_specDone pe\<rparr>"
  show ?thesis
  proof (cases "Transition ?w n (pe_SpecSlug pe)")
    case (Inl err)
    with False show ?thesis by (simp add: AdvanceSpecStage_def stage_steps)
  next
    case (Inr w)
    then have "stage_step (stage_abs pe) (sw_Stage w, bit (sw_Done w) (Suc 0), bit (sw_Done w) 2)"
      by (auto simp: Transition_def stage_abs_def Let_def parallelDone_bits stage_steps split: if_splits)
    moreover have "stage_step (stage_abs pe) (SpecStageDesign, bit (sw_Done w) (Suc 0), bit (sw_Done w) 2)"
      if "canonicalToolName n = ''Plan''"
      using Inr that by (auto simp: Transition_def stage_abs_def parallelDone_bits stage_steps split: if_splits)
    ultimately show ?thesis using False Inr
      by (simp add: AdvanceSpecStage_def Let_def stage_abs_def)
  qed
qed

text \<open>
  The runs of the workflow with the stages since the last reset: stages advance after a tool call, the spec
  directory is named by the tools, and phases advance during implementation.
\<close>

inductive spec_run :: "SpecStage list \<Rightarrow> spec_state \<Rightarrow> bool" where
  start: "spec_run [] \<lparr>pe_Stage = SpecStageNone, pe_specDone = 0, pe_SpecSlug = [], pe_Phase = 0, pe_Phases = 0,
     pe_convergeChecked = False, pe_Revision = r\<rparr>"
| restart: "spec_run hist pe \<Longrightarrow> canonicalToolName n = ''SpecReset'' \<Longrightarrow> spec_run [] (AdvanceSpecStage files n pe)"
| advance: "spec_run hist pe \<Longrightarrow> canonicalToolName n \<noteq> ''SpecReset'' \<Longrightarrow>
     spec_run (hist @ [pe_Stage (AdvanceSpecStage files n pe)]) (AdvanceSpecStage files n pe)"
| name_slug: "spec_run hist pe \<Longrightarrow> spec_run hist (pe\<lparr>pe_SpecSlug := slug\<rparr>)"
| next_phase: "spec_run hist pe \<Longrightarrow> spec_run hist (AdvancePhase pe)"

fun earned :: "SpecStage list \<Rightarrow> SpecStage \<times> bool \<times> bool \<Rightarrow> bool" where
  "earned hist (st, a, b) \<longleftrightarrow>
    (st \<noteq> SpecStageNone \<longrightarrow> subseq [SpecStageProposal] hist)
    \<and> (a \<longrightarrow> subseq [SpecStageProposal, SpecStageSpecify] hist)
    \<and> (b \<longrightarrow> subseq [SpecStageProposal, SpecStageDesign] hist)
    \<and> (\<forall>path \<in> {[SpecStagePlan], [SpecStagePlan, SpecStageTasks], [SpecStagePlan, SpecStageTasks, SpecStageImplementing]}.
         st = last path \<longrightarrow> subseq ([SpecStageProposal, SpecStageSpecify] @ path) hist
           \<and> subseq ([SpecStageProposal, SpecStageDesign] @ path) hist)"

lemma subseq_snoc: "subseq xs ys \<Longrightarrow> subseq xs (ys @ [y])" "subseq xs ys \<Longrightarrow> subseq (xs @ [y]) (ys @ [y])"
  by (auto intro: subseq_order.order_trans list_emb_append2 list_emb_append_mono)

lemma subseq_head: "subseq [x, y] zs \<Longrightarrow> subseq [x] zs"
  by (induction zs) (auto split: if_splits)

lemma earned_step:
  assumes "stage_step s t" and "earned hist s" and "fst t \<noteq> SpecStageNone \<or> t = s"
  shows "earned (hist @ [fst t]) t"
proof -
  have ext: "\<And>xs. subseq xs hist \<Longrightarrow> subseq xs (hist @ [fst t])" by (rule subseq_snoc)
  have new: "\<And>xs. subseq xs hist \<Longrightarrow> subseq (xs @ [fst t]) (hist @ [fst t])" by (rule subseq_snoc)
  have nil: "subseq [fst t] (hist @ [fst t])" using new [of "[]"] by simp
  from assms show ?thesis
  proof (cases rule: stage_step.cases)
    case stay
    with assms(2) ext show ?thesis by (cases s) auto
  next
    case reset
    with assms(3) have "s = t" by simp
    with assms(2) ext show ?thesis by (cases s) auto
  next
    case propose
    with assms(2) ext nil show ?thesis by simp
  next
    case (specify st b a)
    with assms(2) ext new [of "[SpecStageProposal]"] show ?thesis by simp
  next
    case (design st a b)
    with assms(2) ext new [of "[SpecStageProposal]"] show ?thesis by simp
  next
    case plan
    with assms(2) ext new [of "[SpecStageProposal, SpecStageSpecify]"] new [of "[SpecStageProposal, SpecStageDesign]"]
    show ?thesis by (auto dest: subseq_head)
  next
    case plan_refused
    with assms(2) ext show ?thesis by (auto dest: subseq_head)
  next
    case tasks
    with assms(2) ext new [of "[SpecStageProposal, SpecStageSpecify, SpecStagePlan]"]
      new [of "[SpecStageProposal, SpecStageDesign, SpecStagePlan]"] show ?thesis by simp
  next
    case approve
    with assms(2) ext new [of "[SpecStageProposal, SpecStageSpecify, SpecStagePlan, SpecStageTasks]"]
      new [of "[SpecStageProposal, SpecStageDesign, SpecStagePlan, SpecStageTasks]"] show ?thesis by simp
  qed
qed

lemma run_earned: "spec_run hist pe \<Longrightarrow> earned hist (stage_abs pe)"
proof (induction rule: spec_run.induct)
  case (start r)
  then show ?case by (simp add: stage_abs_def)
next
  case (restart hist pe n files)
  then show ?case by (simp add: AdvanceSpecStage_def stage_abs_def)
next
  case (advance hist pe n files)
  have keep: "pe_Stage (AdvanceSpecStage files n pe) = SpecStageNone \<Longrightarrow> stage_abs (AdvanceSpecStage files n pe) = stage_abs pe"
    using advance.hyps
    by (auto simp: AdvanceSpecStage_def Transition_def stage_abs_def Let_def split: sum.splits if_splits)
  have "fst (stage_abs (AdvanceSpecStage files n pe)) = pe_Stage (AdvanceSpecStage files n pe)"
    by (simp add: stage_abs_def)
  with earned_step [OF advance_refines advance.IH, of files n] keep show ?case by metis
qed (simp_all add: stage_abs_def AdvancePhase_def)

lemma advances_run:
  "list_all (\<lambda>n. canonicalToolName n \<noteq> ''SpecReset'') ns \<Longrightarrow> spec_run hist pe \<Longrightarrow>
    \<exists>hist'. spec_run hist' (List.fold (AdvanceSpecStage files) ns pe)"
proof (induction ns arbitrary: hist pe)
  case (Cons n ns)
  then show ?case using spec_run.advance [of hist pe n files] by fastforce
qed auto

lemma plan_gated:
  assumes "pe_Stage (AdvanceSpecStage files n pe) = SpecStagePlan" and "pe_Stage pe \<noteq> SpecStagePlan"
  shows "pe_SpecSlug pe \<noteq> [] \<and> unresolvedClarifications files (pe_SpecSlug pe) = 0 \<and> phaseGatesPass files (pe_SpecSlug pe)"
  using assms
  by (auto simp: AdvanceSpecStage_def Transition_def Let_def split: sum.splits if_splits)

text \<open>
  C8. Implementation is earned: however tools advance the workflow and name its directory, once the stage is
  Implementing the stages since the last reset include the proposal, the specification, the plan, the tasks
  and the approval in this order, and likewise the proposal, the design, the plan, the tasks and the approval.
  And the plan stage is entered only for a named spec whose text has no open clarification and whose plan
  documents every phase gate.
\<close>

theorem implementing_earned:
  assumes "spec_run hist pe"
  shows "(pe_Stage pe = SpecStageImplementing \<longrightarrow>
      subseq [SpecStageProposal, SpecStageSpecify, SpecStagePlan, SpecStageTasks, SpecStageImplementing] hist
      \<and> subseq [SpecStageProposal, SpecStageDesign, SpecStagePlan, SpecStageTasks, SpecStageImplementing] hist)
    \<and> (pe_Stage (AdvanceSpecStage files n pe) = SpecStagePlan \<and> pe_Stage pe \<noteq> SpecStagePlan \<longrightarrow>
      pe_SpecSlug pe \<noteq> [] \<and> unresolvedClarifications files (pe_SpecSlug pe) = 0 \<and> phaseGatesPass files (pe_SpecSlug pe))"
  using run_earned [OF assms] plan_gated [of files n pe] by (auto simp: stage_abs_def)

definition witness_files :: spec_files where
  "witness_files slug f =
    (if f = ''plan.md'' then Some ''Simplicity, anti-abstraction, integration-first, justification''
     else if f = ''tasks.md'' then Some (''## 1. a'' @ [CHR 0x0A] @ ''## 2. b'') else None)"

definition spec_done_state :: spec_state where
  "spec_done_state = List.fold (AdvanceSpecStage witness_files)
     [''Proposal'', ''specify'', ''Design'', ''plan'', ''tasks'', ''approve_implementation'']
     \<lparr>pe_Stage = SpecStageNone, pe_specDone = 0, pe_SpecSlug = ''s'', pe_Phase = 0, pe_Phases = 0,
      pe_convergeChecked = False, pe_Revision = 0\<rparr>"

theorem implementing_earned_witness:
  "\<exists>hist. spec_run hist spec_done_state \<and> pe_Stage spec_done_state = SpecStageImplementing
     \<and> pe_Phases spec_done_state = 2 \<and> subseq [SpecStageProposal, SpecStageDesign] hist"
proof -
  note st = spec_run.name_slug [OF spec_run.start, where slug = "''s''" and r1 = 0, simplified]
  have names: "list_all (\<lambda>n. canonicalToolName n \<noteq> ''SpecReset'')
      [''Proposal'', ''specify'', ''Design'', ''plan'', ''tasks'', ''approve_implementation'']" by code_simp
  from advances_run [OF names st, of witness_files]
  obtain hist where run: "spec_run hist spec_done_state" unfolding spec_done_state_def ..
  have impl: "pe_Stage spec_done_state = SpecStageImplementing" by code_simp
  have phases: "pe_Phases spec_done_state = 2" by code_simp
  from implementing_earned [OF run] impl
  have "subseq [SpecStageProposal, SpecStageDesign, SpecStagePlan, SpecStageTasks, SpecStageImplementing] hist" by blast
  then have "subseq [SpecStageProposal, SpecStageDesign] hist"
    by (rule subseq_order.order_trans [rotated]) simp
  with run impl phases show ?thesis by blast
qed

end
