(* ===== verification/Permission_Audit.thy ===== *)
theory Permission_Audit
  imports Go_Prelude
begin

text \<open>
  The audit trail of permission decisions, the ring buffer of \<open>internal/engine/safety/permission.go\<close>:
  creation, \<open>record\<close> and \<open>Recent\<close>. The clock is an argument of \<open>record\<close>; a nil log is \<open>None\<close>.
\<close>

section \<open>The ring buffer\<close>

record auditEntry =
  ae_Time :: gotime
  ae_Tool :: string
  ae_Summary :: string
  ae_Outcome :: string
  ae_Reason :: string

record permissionAuditLog =
  al_entries :: "auditEntry list"
  al_head :: nat
  al_full :: bool

definition zeroEntry :: auditEntry where
  "zeroEntry = \<lparr>ae_Time = 0, ae_Tool = [], ae_Summary = [], ae_Outcome = [], ae_Reason = []\<rparr>"

definition newPermissionAuditLog :: "int \<Rightarrow> permissionAuditLog" where
  "newPermissionAuditLog cap =
    \<lparr>al_entries = replicate (nat (if cap \<le> 0 then 256 else cap)) zeroEntry, al_head = 0, al_full = False\<rparr>"

definition audit_put :: "auditEntry \<Rightarrow> permissionAuditLog \<Rightarrow> permissionAuditLog" where
  "audit_put e l = (let head = al_head l + 1 in
     if length (al_entries l) \<le> head
     then l\<lparr>al_entries := (al_entries l)[al_head l := e], al_head := 0, al_full := True\<rparr>
     else l\<lparr>al_entries := (al_entries l)[al_head l := e], al_head := head\<rparr>)"

definition audit_record :: "permissionAuditLog option \<Rightarrow> gotime \<Rightarrow> string \<Rightarrow> string \<Rightarrow> string \<Rightarrow> string \<Rightarrow>
    permissionAuditLog option" where
  "audit_record l now tool summary outcome reason = map_option
     (audit_put \<lparr>ae_Time = now, ae_Tool = tool, ae_Summary = summary, ae_Outcome = outcome, ae_Reason = reason\<rparr>) l"

definition Recent :: "permissionAuditLog option \<Rightarrow> int \<Rightarrow> auditEntry list" where
  "Recent lo n0 = (case lo of None \<Rightarrow> [] | Some l \<Rightarrow>
     (let size = (if \<not> al_full l then int (al_head l) else int (length (al_entries l)));
          n = (if n0 \<le> 0 \<or> size < n0 then size else n0);
          start0 = int (al_head l) - n;
          start = (if start0 < 0 then start0 + int (length (al_entries l)) else start0)
      in map (\<lambda>i. al_entries l ! nat ((start + int i) mod int (length (al_entries l)))) [0..<nat n]))"

section \<open>The buffer holds the last entries\<close>

text \<open>The buffer of capacity \<open>c\<close> after the entries \<open>xs\<close>.\<close>

definition ring_of :: "nat \<Rightarrow> auditEntry list \<Rightarrow> permissionAuditLog \<Rightarrow> bool" where
  "ring_of c xs l \<longleftrightarrow> 0 < c \<and> length (al_entries l) = c \<and> al_head l = length xs mod c \<and>
     (al_full l \<longleftrightarrow> c \<le> length xs) \<and>
     (\<forall>k < length xs. length xs \<le> k + c \<longrightarrow> al_entries l ! (k mod c) = xs ! k)"

lemma ring_new: "ring_of (nat (if cap \<le> 0 then 256 else cap)) [] (newPermissionAuditLog cap)"
  by (auto simp: ring_of_def newPermissionAuditLog_def)

lemma mod_window:
  fixes k n c :: nat
  assumes "k < n" and "n < k + c"
  shows "k mod c \<noteq> n mod c"
proof
  assume "k mod c = n mod c"
  then have "c dvd n - k" using assms(1) mod_eq_dvd_iff_nat [of k n c] by simp
  moreover have "0 < n - k" "n - k < c" using assms by auto
  ultimately show False using nat_dvd_not_less by blast
qed

lemma ring_put:
  assumes "ring_of c xs l"
  shows "ring_of c (xs @ [e]) (audit_put e l)"
proof -
  let ?n = "length xs"
  from assms have c: "0 < c" "length (al_entries l) = c" "al_head l = ?n mod c" "al_full l \<longleftrightarrow> c \<le> ?n"
    and old: "\<And>k. k < ?n \<Longrightarrow> ?n \<le> k + c \<Longrightarrow> al_entries l ! (k mod c) = xs ! k"
    by (auto simp: ring_of_def)
  have entries: "al_entries (audit_put e l) = (al_entries l)[?n mod c := e]"
    by (simp add: audit_put_def Let_def c)
  have "(al_entries l)[?n mod c := e] ! (k mod c) = (xs @ [e]) ! k" if "k < Suc ?n" "Suc ?n \<le> k + c" for k
  proof (cases "k = ?n")
    case True
    then show ?thesis using c by simp
  next
    case False
    with that have "k < ?n" by simp
    moreover have "k mod c \<noteq> ?n mod c" using mod_window [of k ?n c] calculation that by simp
    ultimately show ?thesis using old that by (simp add: nth_append)
  qed
  moreover have "al_head (audit_put e l) = Suc ?n mod c"
    using c(2,3) mod_less_divisor [OF c(1), of ?n] by (auto simp: audit_put_def Let_def mod_Suc)
  moreover have "al_full (audit_put e l) \<longleftrightarrow> c \<le> Suc ?n"
  proof (cases "c \<le> ?n")
    case True
    then show ?thesis using c by (simp add: audit_put_def Let_def)
  next
    case False
    then show ?thesis using c by (auto simp: audit_put_def Let_def)
  qed
  ultimately show ?thesis using c entries by (simp add: ring_of_def)
qed

lemma ring_run: "ring_of c xs l \<Longrightarrow> ring_of c (xs @ ys) (List.fold audit_put ys l)"
proof (induction ys arbitrary: xs l)
  case (Cons y ys)
  from Cons.IH [OF ring_put [OF Cons.prems, of y]] show ?case by simp
qed simp

lemma ring_index:
  assumes "0 < c" and "n \<le> c" and "n \<le> m" and "i < n" and h: "h = m mod c"
  shows "nat (((if int h - int n < 0 then int h - int n + int c else int h - int n) + int i) mod int c) = (m - n + i) mod c"
proof -
  have "(int m mod int c + (int i - int n)) mod int c = (int m + (int i - int n)) mod int c"
    by (rule mod_add_left_eq)
  then have "(int h - int n + int i) mod int c = (int m - int n + int i) mod int c"
    by (simp add: h zmod_int algebra_simps)
  moreover have "int m - int n + int i = int (m - n + i)" using assms by simp
  ultimately have "(int h - int n + int i) mod int c = int ((m - n + i) mod c)" by (simp add: zmod_int)
  moreover have "(int h - int n + int c + int i) mod int c = (int h - int n + int i) mod int c"
    by (metis add.assoc add.commute mod_add_self2)
  ultimately show ?thesis by simp
qed

lemma Recent_ring:
  assumes "ring_of c xs l"
  shows "Recent (Some l) n =
    (let size = min (length xs) c; m = (if n \<le> 0 \<or> int size < n then size else nat n) in drop (length xs - m) xs)"
proof -
  let ?N = "length xs"
  from assms have c: "0 < c" "length (al_entries l) = c" "al_head l = ?N mod c" "al_full l \<longleftrightarrow> c \<le> ?N"
    and old: "\<And>k. k < ?N \<Longrightarrow> ?N \<le> k + c \<Longrightarrow> al_entries l ! (k mod c) = xs ! k"
    by (auto simp: ring_of_def)
  have size: "(if \<not> al_full l then int (al_head l) else int c) = int (min ?N c)"
    using c by auto
  define m where "m = (if n \<le> 0 \<or> int (min ?N c) < n then min ?N c else nat n)"
  have m: "(if n \<le> 0 \<or> int (min ?N c) < n then int (min ?N c) else n) = int m" by (simp add: m_def)
  have le: "m \<le> c" "m \<le> ?N" by (auto simp: m_def)
  have "map (\<lambda>i. al_entries l ! nat (((if int (al_head l) - int m < 0 then int (al_head l) - int m + int c
        else int (al_head l) - int m) + int i) mod int c)) [0..<m] = map (\<lambda>i. xs ! (?N - m + i)) [0..<m]"
  proof (rule map_cong [OF refl])
    fix i
    assume "i \<in> set [0..<m]"
    then have i: "i < m" by simp
    have "al_entries l ! ((?N - m + i) mod c) = xs ! (?N - m + i)"
      using old [of "?N - m + i"] i le by simp
    then show "al_entries l ! nat (((if int (al_head l) - int m < 0 then int (al_head l) - int m + int c
        else int (al_head l) - int m) + int i) mod int c) = xs ! (?N - m + i)"
      using ring_index [OF c(1) le i c(3)] by simp
  qed
  moreover have "map (\<lambda>i. xs ! (?N - m + i)) [0..<m] = drop (?N - m) xs"
    using le by (intro nth_equalityI) auto
  ultimately show ?thesis
    unfolding Recent_def Let_def option.case size m c(2) nat_int m_def [symmetric] by simp
qed

text \<open>
  The audit trail shows the latest decisions in order: after any decisions were recorded in a new buffer,
  \<open>Recent\<close> returns the last of them, oldest first, as many as asked for, all that are kept when the number is
  not positive or too large, and never an entry that was not recorded.
\<close>

theorem audit_recent_exact:
  "Recent (Some (List.fold audit_put xs (newPermissionAuditLog cap))) n =
    (let size = min (length xs) (nat (if cap \<le> 0 then 256 else cap));
         m = (if n \<le> 0 \<or> int size < n then size else nat n)
     in drop (length xs - m) xs)"
  using Recent_ring [OF ring_run [OF ring_new]] by simp

end
