(* ===== verification/Go_Regexp.thy ===== *)
theory Go_Regexp
  imports Go_Prelude
begin

text \<open>
  Regular expressions of Go's \<open>regexp\<close> package as far as the program uses them through \<open>MatchString\<close>:
  classes, concatenation, alternation, repetition, and the empty assertions for the start and the end of the
  text and for a word boundary. Text is ASCII. Whether a match exists does not depend on greediness, so lazy
  and greedy repetition are the same here. \<open>ends\<close> computes the positions at which a match that starts at a
  given position can end; \<open>matches\<close> is the reference relation and both are shown equal.
\<close>

datatype re = Eps | Cls "char \<Rightarrow> bool" | Seq re re | Alt re re | Star re | Bot | Eot | WordB

definition re_space :: "char \<Rightarrow> bool" where
  "re_space c \<longleftrightarrow> c \<in> {CHR 0x09, CHR 0x0A, CHR 0x0C, CHR 0x0D, CHR '' ''}"

definition re_word :: "char \<Rightarrow> bool" where
  "re_word c \<longleftrightarrow> c \<in> set ''0123456789ABCDEFGHIJKLMNOPQRSTUVWXYZ_abcdefghijklmnopqrstuvwxyz''"

definition re_letter :: "char \<Rightarrow> bool" where
  "re_letter c \<longleftrightarrow> c \<in> set ''ABCDEFGHIJKLMNOPQRSTUVWXYZabcdefghijklmnopqrstuvwxyz''"

definition word_at :: "string \<Rightarrow> nat \<Rightarrow> bool" where
  "word_at s i \<longleftrightarrow> i < length s \<and> re_word (s ! i)"

definition boundary :: "string \<Rightarrow> nat \<Rightarrow> bool" where
  "boundary s i \<longleftrightarrow> (0 < i \<and> word_at s (i - 1)) \<noteq> word_at s i"

text \<open>Positions reachable by repeating a step, breadth first; \<open>n\<close> bounds the number of rounds.\<close>

fun closure :: "(nat \<Rightarrow> nat list) \<Rightarrow> nat \<Rightarrow> nat list \<Rightarrow> nat list" where
  "closure f 0 acc = acc"
| "closure f (Suc n) acc =
    (let new = filter (\<lambda>j. j \<notin> set acc) (remdups (concat (map f acc))) in
     if new = [] then acc else closure f n (acc @ new))"

fun ends :: "re \<Rightarrow> string \<Rightarrow> nat \<Rightarrow> nat list" where
  "ends Eps s i = [i]"
| "ends (Cls p) s i = (if i < length s \<and> p (s ! i) then [Suc i] else [])"
| "ends (Seq a b) s i = remdups (concat (map (ends b s) (ends a s i)))"
| "ends (Alt a b) s i = remdups (ends a s i @ ends b s i)"
| "ends (Star a) s i = closure (ends a s) (Suc (length s)) [i]"
| "ends Bot s i = (if i = 0 then [i] else [])"
| "ends Eot s i = (if i = length s then [i] else [])"
| "ends WordB s i = (if boundary s i then [i] else [])"

definition MatchString :: "re \<Rightarrow> string \<Rightarrow> bool" where
  "MatchString r s = list_ex (\<lambda>i. ends r s i \<noteq> []) [0..<Suc (length s)]"

section \<open>Notation for expressions\<close>

fun lit :: "string \<Rightarrow> re" where
  "lit [] = Eps"
| "lit [c] = Cls (\<lambda>x. x = c)"
| "lit (c # cs) = Seq (Cls (\<lambda>x. x = c)) (lit cs)"

fun seq :: "re list \<Rightarrow> re" where
  "seq [] = Eps"
| "seq [r] = r"
| "seq (r # rs) = Seq r (seq rs)"

fun alts :: "re list \<Rightarrow> re" where
  "alts [] = Cls (\<lambda>_. False)"
| "alts [r] = r"
| "alts (r # rs) = Alt r (alts rs)"

definition plus :: "re \<Rightarrow> re" where
  "plus r = Seq r (Star r)"

definition opt :: "re \<Rightarrow> re" where
  "opt r = Alt Eps r"

definition spaces1 :: re where
  "spaces1 = plus (Cls re_space)"

definition anyLine :: re where
  "anyLine = Star (Cls (\<lambda>c. c \<noteq> CHR 0x0A))"

section \<open>The reference relation\<close>

inductive matches :: "string \<Rightarrow> re \<Rightarrow> nat \<Rightarrow> nat \<Rightarrow> bool" for s :: string where
  eps: "matches s Eps i i"
| cls: "i < length s \<Longrightarrow> p (s ! i) \<Longrightarrow> matches s (Cls p) i (Suc i)"
| seqI: "matches s a i j \<Longrightarrow> matches s b j k \<Longrightarrow> matches s (Seq a b) i k"
| altL: "matches s a i j \<Longrightarrow> matches s (Alt a b) i j"
| altR: "matches s b i j \<Longrightarrow> matches s (Alt a b) i j"
| starN: "matches s (Star a) i i"
| starC: "matches s a i j \<Longrightarrow> matches s (Star a) j k \<Longrightarrow> matches s (Star a) i k"
| bot: "matches s Bot 0 0"
| eot: "matches s Eot (length s) (length s)"
| wordb: "boundary s i \<Longrightarrow> matches s WordB i i"

inductive_cases matchesE: "matches s Eps i j" "matches s (Cls p) i j" "matches s (Seq a b) i j"
  "matches s (Alt a b) i j" "matches s Bot i j" "matches s Eot i j" "matches s WordB i j"

lemma matches_le: "matches s r i j \<Longrightarrow> i \<le> j"
  by (induction rule: matches.induct) auto

lemma matches_bound: "matches s r i j \<Longrightarrow> i \<le> length s \<Longrightarrow> j \<le> length s"
  by (induction rule: matches.induct) auto

lemma star_rtranclp: "matches s (Star a) i k \<longleftrightarrow> (matches s a)\<^sup>*\<^sup>* i k"
proof
  assume "matches s (Star a) i k"
  then show "(matches s a)\<^sup>*\<^sup>* i k"
    by (induction "Star a" i k rule: matches.induct) (auto intro: converse_rtranclp_into_rtranclp)
next
  assume "(matches s a)\<^sup>*\<^sup>* i k"
  then show "matches s (Star a) i k"
    by (induction rule: converse_rtranclp_induct) (auto intro: matches.intros)
qed

text \<open>The breadth-first closure is the reflexive transitive closure while the bound allows.\<close>

lemma closure_sound: "j \<in> set (closure f n acc) \<Longrightarrow> \<exists>i \<in> set acc. (\<lambda>x y. y \<in> set (f x))\<^sup>*\<^sup>* i j"
proof (induction f n acc rule: closure.induct)
  case (2 f n acc)
  let ?new = "filter (\<lambda>j. j \<notin> set acc) (remdups (concat (map f acc)))"
  show ?case
  proof (cases "?new = []")
    case True
    with "2.prems" show ?thesis by auto
  next
    case False
    with 2 obtain i where i: "i \<in> set (acc @ ?new)" "(\<lambda>x y. y \<in> set (f x))\<^sup>*\<^sup>* i j"
      by (auto simp: Let_def)
    then show ?thesis by (auto intro: converse_rtranclp_into_rtranclp)
  qed
qed auto

lemma closure_mono: "set acc \<subseteq> set (closure f n acc)"
  by (induction f n acc rule: closure.induct) (auto simp: Let_def)

lemma closure_closed:
  assumes "set acc \<subseteq> U" and "\<And>x y. x \<in> U \<Longrightarrow> y \<in> set (f x) \<Longrightarrow> y \<in> U" and "finite U" and "distinct acc"
    and "card U < n + length acc"
  shows "x \<in> set (closure f n acc) \<Longrightarrow> y \<in> set (f x) \<Longrightarrow> y \<in> set (closure f n acc)"
  using assms
proof (induction f n acc rule: closure.induct)
  case (1 f acc)
  then have "length acc \<le> card U" by (metis card_mono distinct_card)
  with 1 show ?case by simp
next
  case (2 f n acc)
  let ?new = "filter (\<lambda>j. j \<notin> set acc) (remdups (concat (map f acc)))"
  show ?case
  proof (cases "?new = []")
    case True
    then have "closure f (Suc n) acc = acc" by simp
    with True "2.prems" show ?thesis by (auto simp: filter_empty_conv)
  next
    case False
    then have eq: "closure f (Suc n) acc = closure f n (acc @ ?new)" by (simp add: Let_def)
    have "set (acc @ ?new) \<subseteq> U" using "2.prems"(3,4) by auto
    moreover have "distinct (acc @ ?new)" using "2.prems"(6) by auto
    moreover have "card U < n + length (acc @ ?new)"
      using "2.prems"(7) False by (cases ?new) auto
    ultimately show ?thesis
      using "2.IH" [OF refl False] "2.prems"(1,2,4,5) unfolding eq by blast
  qed
qed

lemma ends_matches: "i \<le> length s \<Longrightarrow> j \<in> set (ends r s i) \<longleftrightarrow> matches s r i j"
proof (induction r arbitrary: i j)
  case (Seq a b)
  have bound: "k \<le> length s" if "matches s a i k" for k using matches_bound [OF that Seq.prems] .
  have "j \<in> set (ends (Seq a b) s i) \<longleftrightarrow> (\<exists>k. matches s a i k \<and> j \<in> set (ends b s k))"
    using Seq.IH(1) [OF Seq.prems] by auto
  also have "\<dots> \<longleftrightarrow> (\<exists>k. matches s a i k \<and> matches s b k j)" using Seq.IH(2) bound by blast
  also have "\<dots> \<longleftrightarrow> matches s (Seq a b) i j" by (auto intro: matches.intros elim: matchesE)
  finally show ?case .
next
  case (Alt a b)
  then show ?case by (auto intro: matches.intros elim: matchesE)
next
  case (Star a)
  let ?f = "\<lambda>x y. y \<in> set (ends a s x)" and ?U = "{0..length s}"
  let ?c = "closure (ends a s) (Suc (length s)) [i]"
  have U: "y \<in> ?U" if "x \<in> ?U" "y \<in> set (ends a s x)" for x y
    using that Star.IH [of x y] matches_bound by auto
  have "card ?U < Suc (length s) + length [i]" by simp
  note closed = closure_closed [of "[i]" ?U "ends a s" "Suc (length s)", OF _ U _ _ this]
  have "j \<in> set ?c \<longleftrightarrow> ?f\<^sup>*\<^sup>* i j"
  proof
    assume "j \<in> set ?c"
    then show "?f\<^sup>*\<^sup>* i j" using closure_sound by fastforce
  next
    assume "?f\<^sup>*\<^sup>* i j"
    then show "j \<in> set ?c"
    proof (induction rule: rtranclp_induct)
      case base
      show ?case using closure_mono [of "[i]" "ends a s" "Suc (length s)"] by (simp del: closure.simps)
    next
      case (step y z)
      then show ?case using closed [where x = y and y = z] Star.prems by (simp del: closure.simps)
    qed
  qed
  also have "\<dots> \<longleftrightarrow> (matches s a)\<^sup>*\<^sup>* i j"
  proof
    assume "?f\<^sup>*\<^sup>* i j"
    then have "(matches s a)\<^sup>*\<^sup>* i j \<and> j \<le> length s"
    proof (induction rule: rtranclp_induct)
      case (step y z)
      then have "matches s a y z" using Star.IH [of y z] by simp
      with step show ?case using matches_bound by (auto intro: rtranclp.rtrancl_into_rtrancl)
    qed (use Star.prems in simp)
    then show "(matches s a)\<^sup>*\<^sup>* i j" ..
  next
    assume "(matches s a)\<^sup>*\<^sup>* i j"
    then have "?f\<^sup>*\<^sup>* i j \<and> j \<le> length s"
    proof (induction rule: rtranclp_induct)
      case (step y z)
      then have "z \<in> set (ends a s y)" using Star.IH [of y z] by simp
      with step show ?case using matches_bound by (auto intro: rtranclp.rtrancl_into_rtrancl)
    qed (use Star.prems in simp)
    then show "?f\<^sup>*\<^sup>* i j" ..
  qed
  finally show ?case by (simp add: star_rtranclp)
qed (auto intro: matches.intros elim: matchesE)

lemma MatchString_iff: "MatchString r s \<longleftrightarrow> (\<exists>i j. i \<le> length s \<and> matches s r i j)"
proof -
  have "MatchString r s \<longleftrightarrow> (\<exists>i \<le> length s. \<exists>j. j \<in> set (ends r s i))"
    unfolding MatchString_def list_ex_iff set_upt by (metis atLeastLessThan_iff empty_set equals0D le0 last_in_set less_Suc_eq_le)
  then show ?thesis using ends_matches by blast
qed

end
