(* ===== verification/Go_Path.thy ===== *)
theory Go_Path
  imports Go_Prelude
begin

text \<open>
  The functions of Go's \<open>path/filepath\<close> that the permission code calls, for Unix separators:
  \<open>Clean\<close>, \<open>Join\<close> and \<open>Base\<close>.
\<close>

fun pathParts :: "string \<Rightarrow> string \<Rightarrow> string list" where
  "pathParts acc [] = [rev acc]"
| "pathParts acc (c # cs) = (if c = CHR ''/'' then rev acc # pathParts [] cs else pathParts (c # acc) cs)"

fun cleanParts :: "bool \<Rightarrow> string list \<Rightarrow> string list \<Rightarrow> string list" where
  "cleanParts rooted st [] = rev st"
| "cleanParts rooted st (x # xs) =
    (if x = [] \<or> x = ''.'' then cleanParts rooted st xs
     else if x = ''..'' then
       (if st \<noteq> [] \<and> hd st \<noteq> ''..'' then cleanParts rooted (tl st) xs
        else if rooted then cleanParts rooted st xs
        else cleanParts rooted (x # st) xs)
     else cleanParts rooted (x # st) xs)"

fun joinSlash :: "string list \<Rightarrow> string" where
  "joinSlash [] = []"
| "joinSlash [x] = x"
| "joinSlash (x # xs) = x @ ''/'' @ joinSlash xs"

definition path_Clean :: "string \<Rightarrow> string" where
  "path_Clean p = (let rooted = HasPrefix p ''/'';
       out = (if rooted then ''/'' else []) @ joinSlash (cleanParts rooted [] (pathParts [] p))
     in if out = [] then ''.'' else out)"

definition path_Join :: "string list \<Rightarrow> string" where
  "path_Join elems = (let es = dropWhile (\<lambda>e. e = []) elems in if es = [] then [] else path_Clean (joinSlash es))"

definition path_Base :: "string \<Rightarrow> string" where
  "path_Base p = (if p = [] then ''.''
     else let q = rev (dropWhile (\<lambda>c. c = CHR ''/'') (rev p)) in
       if q = [] then ''/'' else rev (takeWhile (\<lambda>c. c \<noteq> CHR ''/'') (rev q)))"

end
