(* ===== verification/Command_Class.thy ===== *)
theory Command_Class
  imports Go_Regexp Go_Path
begin

text \<open>
  The classifier of shell commands, from \<open>internal/permissions/advanced.go\<close> and the helpers of
  \<open>canonicalize.go\<close>: splitting a command into tokens and into segments, the recogniser of read-only git
  invocations, and \<open>Classify\<close> with its lists of expressions.
\<close>

section \<open>Helpers\<close>

definition stripQuotes :: "string \<Rightarrow> string" where
  "stripQuotes s =
    (if 2 \<le> length s \<and> (hd s = CHR 0x22 \<and> last s = CHR 0x22 \<or> hd s = CHR 0x27 \<and> last s = CHR 0x27)
     then butlast (tl s) else s)"

definition normalizePath :: "string \<Rightarrow> string" where
  "normalizePath cmd = (if CHR ''/'' \<in> set cmd then path_Base cmd else cmd)"

definition shells :: "string list" where
  "shells = [''bash'', ''sh'', ''zsh'', ''fish'', ''dash'']"

definition unwrapShell :: "string \<Rightarrow> string" where
  "unwrapShell cmd = (case find (\<lambda>shell. HasPrefix cmd (shell @ '' -c '')) shells of
     Some shell \<Rightarrow> TrimSpace (stripQuotes (TrimSpace (drop (length (shell @ '' -c '')) cmd)))
   | None \<Rightarrow> cmd)"

text \<open>\<open>tokenize\<close>: the loop with the current token and the two quote flags.\<close>

fun tokenize_loop :: "string \<Rightarrow> bool \<Rightarrow> bool \<Rightarrow> string \<Rightarrow> string list" where
  "tokenize_loop cur inS inD [] = (if cur \<noteq> [] then [cur] else [])"
| "tokenize_loop cur inS inD (ch # rest) =
    (if ch = CHR 0x27 \<and> \<not> inD then tokenize_loop (cur @ [ch]) (\<not> inS) inD rest
     else if ch = CHR 0x22 \<and> \<not> inS then tokenize_loop (cur @ [ch]) inS (\<not> inD) rest
     else if ch = CHR '' '' \<and> \<not> inS \<and> \<not> inD then
       (if cur \<noteq> [] then cur # tokenize_loop [] inS inD rest else tokenize_loop [] inS inD rest)
     else tokenize_loop (cur @ [ch]) inS inD rest)"

definition tokenize :: "string \<Rightarrow> string list" where
  "tokenize cmd = tokenize_loop [] False False cmd"

definition envPrefixRe :: re where
  "envPrefixRe = seq [Bot, Cls (\<lambda>c. re_letter c \<or> c = CHR ''_''), Star (Cls re_word), lit ''='',
     Star (Cls (\<lambda>c. \<not> re_space c)), Eot]"

section \<open>Read-only git\<close>

definition safeGitSubcommands :: "string list" where
  "safeGitSubcommands = [''status'', ''log'', ''diff'', ''show'', ''branch'']"

fun gitArgs :: "string list \<Rightarrow> bool" where
  "gitArgs [] = False"
| "gitArgs (t # ts) = (let tok = stripQuotes t in
     if tok = ''-C'' \<or> tok = ''-c'' then (case ts of [] \<Rightarrow> False | _ # rest \<Rightarrow> gitArgs rest)
     else if tok = ''--git-dir'' \<or> tok = ''--work-tree'' then (case ts of [] \<Rightarrow> False | _ # rest \<Rightarrow> gitArgs rest)
     else if HasPrefix tok ''--git-dir='' \<or> HasPrefix tok ''--work-tree='' then gitArgs ts
     else if HasPrefix tok ''-'' then gitArgs ts
     else tok \<in> set safeGitSubcommands)"

definition isSafeGitCommand :: "string \<Rightarrow> bool" where
  "isSafeGitCommand cmd =
    (let skip = dropWhile (MatchString envPrefixRe);
         tokens = skip (tokenize (TrimSpace cmd)) in
     if tokens = [] then False
     else let tokens' = (if normalizePath (hd tokens) = ''env'' then skip (tl tokens) else tokens) in
       if tokens' = [] then False
       else if normalizePath (stripQuotes (hd tokens')) \<noteq> ''git'' then False
       else gitArgs (tl tokens'))"

section \<open>Segments\<close>

text \<open>\<open>splitSafeCommandSegments\<close>: the loop with the current segment, the open quote and the escape flag.\<close>

definition flushSegment :: "string \<Rightarrow> string list" where
  "flushSegment cur = (if TrimSpace cur \<noteq> [] then [TrimSpace cur] else [])"

fun segments_loop :: "string \<Rightarrow> char option \<Rightarrow> bool \<Rightarrow> string \<Rightarrow> string list" where
  "segments_loop cur quote escaped [] = flushSegment cur"
| "segments_loop cur quote escaped (r # rs) =
    (if escaped then segments_loop (cur @ [r]) quote False rs
     else if r = CHR 0x5C \<and> quote \<noteq> Some (CHR 0x27) then segments_loop (cur @ [r]) quote True rs
     else if quote \<noteq> None then segments_loop (cur @ [r]) (if Some r = quote then None else quote) False rs
     else if r = CHR 0x27 \<or> r = CHR 0x22 then segments_loop (cur @ [r]) (Some r) False rs
     else if r = CHR '';'' then flushSegment cur @ segments_loop [] None False rs
     else case rs of
       r' # rs' \<Rightarrow>
         if r = CHR ''&'' \<and> r' = CHR ''&'' then flushSegment cur @ segments_loop [] None False rs'
         else segments_loop (cur @ [r]) None False rs
     | [] \<Rightarrow> segments_loop (cur @ [r]) None False rs)"

definition splitSafeCommandSegments :: "string \<Rightarrow> string list" where
  "splitSafeCommandSegments command = segments_loop [] None False command"

section \<open>The classifier\<close>

definition safeGitRe :: re where
  "safeGitRe = seq [Bot, lit ''git'', spaces1, alts [lit ''status'', lit ''log'', lit ''diff'', lit ''show'', lit ''branch''], WordB]"

definition safeLsRe :: re where
  "safeLsRe = seq [Bot, lit ''ls'', alts [spaces1, Eot]]"

definition safeCatRe :: re where
  "safeCatRe = seq [Bot, lit ''cat'', spaces1]"

definition safeEchoRe :: re where
  "safeEchoRe = seq [Bot, lit ''echo'', alts [spaces1, Eot]]"

definition safePwdRe :: re where
  "safePwdRe = seq [Bot, lit ''pwd'', alts [spaces1, Eot]]"

definition safeCdRe :: re where
  "safeCdRe = seq [Bot, lit ''cd'', alts [spaces1, Eot]]"

definition safeGoRe :: re where
  "safeGoRe = seq [Bot, lit ''go'', spaces1, alts [lit ''version'', lit ''env'', lit ''mod''], WordB]"

definition safeNodeRe :: re where
  "safeNodeRe = seq [Bot, lit ''node'', spaces1, lit ''--version'']"

definition safePythonRe :: re where
  "safePythonRe = seq [Bot, lit ''python'', opt (lit ''3''), spaces1, lit ''--version'']"

definition unsafeRmRe :: re where
  "unsafeRmRe = seq [lit ''rm'', spaces1, lit ''-rf'', spaces1, lit ''/'']"

definition unsafeCurlRe :: re where
  "unsafeCurlRe = seq [lit ''curl'', spaces1, anyLine, lit ''|'', Star (Cls re_space), alts [lit ''sh'', lit ''bash'']]"

definition unsafeWgetRe :: re where
  "unsafeWgetRe = seq [lit ''wget'', spaces1, anyLine, lit ''|'', Star (Cls re_space), alts [lit ''sh'', lit ''bash'']]"

definition unsafeEvalRe :: re where
  "unsafeEvalRe = seq [lit ''eval'', spaces1]"

definition unsafeSudoRe :: re where
  "unsafeSudoRe = seq [lit ''sudo'', spaces1]"

record Classifier =
  cl_safePatterns :: "re list"
  cl_unsafePatterns :: "re list"

definition NewClassifier :: Classifier where
  "NewClassifier = \<lparr>cl_safePatterns = [safeGitRe, safeLsRe, safeCatRe, safeEchoRe, safePwdRe, safeCdRe, safeGoRe, safeNodeRe, safePythonRe],
     cl_unsafePatterns = [unsafeRmRe, unsafeCurlRe, unsafeWgetRe, unsafeEvalRe, unsafeSudoRe]\<rparr>"

definition isSafeSegment :: "Classifier \<Rightarrow> string \<Rightarrow> bool" where
  "isSafeSegment c segment = (let seg = TrimSpace (unwrapShell segment) in
     seg = [] \<or> isSafeGitCommand seg \<or> list_ex (\<lambda>r. MatchString r seg) (cl_safePatterns c))"

definition Classify :: "Classifier \<Rightarrow> string \<Rightarrow> string" where
  "Classify c command = (let cmd = TrimSpace command in
     if cmd = [] then ''unknown''
     else if list_ex (\<lambda>r. MatchString r cmd) (cl_unsafePatterns c) then ''unsafe''
     else let segments = splitSafeCommandSegments cmd in
       if segments = [] then ''unknown''
       else if list_all (isSafeSegment c) segments then ''safe'' else ''unknown'')"

section \<open>Splitting\<close>

definition quoting :: "char \<Rightarrow> bool" where
  "quoting c \<longleftrightarrow> c \<in> {CHR 0x5C, CHR 0x27, CHR 0x22, CHR '';'', CHR ''&''}"

text \<open>A part without quotes and separators is one segment, and the separators cut.\<close>

lemma segments_plain:
  "\<not> list_ex quoting p \<Longrightarrow> segments_loop cur None False (p @ CHR '';'' # rest) =
     flushSegment (cur @ p) @ segments_loop [] None False rest"
  "\<not> list_ex quoting p \<Longrightarrow> segments_loop cur None False (p @ CHR ''&'' # CHR ''&'' # rest) =
     flushSegment (cur @ p) @ segments_loop [] None False rest"
  "\<not> list_ex quoting p \<Longrightarrow> segments_loop cur None False p = flushSegment (cur @ p)"
proof (induction p arbitrary: cur)
  case (Cons c p)
  {
    case 1
    then show ?case using Cons.IH(1) by (cases p) (auto simp: quoting_def)
  next
    case 2
    then show ?case using Cons.IH(2) by (cases p) (auto simp: quoting_def)
  next
    case 3
    then show ?case using Cons.IH(3) by (cases p) (auto simp: quoting_def)
  }
qed simp_all

text \<open>
  A compound command without quotes is safe only if each part is: joining parts by \<open>&&\<close> or by a
  semicolon, the classifier answers \<open>safe\<close> exactly when no unsafe expression occurs anywhere and every
  non-blank part is a safe segment by itself.
\<close>

theorem classify_compound:
  assumes "\<not> list_ex quoting p" and "\<not> list_ex quoting q" and "TrimSpace p = p" and "TrimSpace q = q"
    and "p \<noteq> []" and "q \<noteq> []" and "sep = ''&&'' \<or> sep = '';''"
  shows "Classify c (p @ sep @ q) = ''safe'' \<longleftrightarrow>
    \<not> list_ex (\<lambda>r. MatchString r (p @ sep @ q)) (cl_unsafePatterns c) \<and> isSafeSegment c p \<and> isSafeSegment c q"
proof -
  have trim: "TrimSpace (p @ sep @ q) = p @ sep @ q" using assms(3-6) by (simp add: TrimSpace_fixed)
  have "flushSegment p = [p]" "flushSegment q = [q]" using assms(3-6) by (simp_all add: flushSegment_def)
  then have "splitSafeCommandSegments (p @ sep @ q) = [p, q]"
    using assms(1,2,7) segments_plain by (auto simp: splitSafeCommandSegments_def)
  then show ?thesis using assms(5) by (simp add: Classify_def trim Let_def)
qed

theorem classify_compound_witness:
  "Classify NewClassifier (''git status'' @ ''&&'' @ ''pwd'') = ''safe''"
proof -
  have "\<not> list_ex quoting ''git status''" "\<not> list_ex quoting ''pwd''"
    "TrimSpace ''git status'' = ''git status''" "TrimSpace ''pwd'' = ''pwd''"
    by (simp_all add: quoting_def TrimSpace_def is_space_def)
  note th = classify_compound [OF this, of "''&&''" NewClassifier]
  have "\<not> list_ex (\<lambda>r. MatchString r ''git status&&pwd'') (cl_unsafePatterns NewClassifier)" by code_simp
  moreover have "isSafeSegment NewClassifier ''git status''" by code_simp
  moreover have "isSafeSegment NewClassifier ''pwd''" by code_simp
  ultimately show ?thesis using th by simp
qed

text \<open>
  The classifier does not see pipes, single ampersands, redirections and substitutions: commands that
  delete, overwrite or run other programs are classified as safe because their first word is.
\<close>

theorem classify_misses_pipes:
  "Classify NewClassifier ''ls | xargs rm'' = ''safe''
    \<and> Classify NewClassifier ''pwd & rm x'' = ''safe''
    \<and> Classify NewClassifier ''echo x > .env'' = ''safe''
    \<and> isSafeGitCommand ''git branch -D main''"
  by (intro conjI) code_simp+

end
