(* ===== verification/Command_Screen.thy ===== *)
theory Command_Screen
  imports Go_Regexp Go_Path Tool_Policy
begin

text \<open>
  The screens of the tool layer, from \<open>internal/tool/bash.go\<close> and \<open>internal/tool/safety.go\<close>: segmenting a
  shell command, the destructive-command check, the suspicious-command check, credential detection, and the
  limits on tool output. What a screen asks of the host (home directory, user database, configuration
  variables, symbolic links) is the record \<open>host\<close>.
\<close>

section \<open>Segments\<close>

definition heredocStop :: "char \<Rightarrow> bool" where
  "heredocStop c \<longleftrightarrow> c \<in> {CHR '' '', CHR 0x0A, CHR ''<'', CHR ''>'', CHR ''|'', CHR ''&'', CHR '';''}"

text \<open>
  After \<open><<\<close>: the text that introduces a here-document (as written) with its delimiter and the rest of the
  command, if a delimiter follows.
\<close>

definition heredocStart :: "string \<Rightarrow> (string \<times> string \<times> string) option" where
  "heredocStart rs =
    (let dash = (if HasPrefix rs ''-'' then ''-'' else []);
         blanks = takeWhile (\<lambda>c. c = CHR '' '') (drop (length dash) rs);
         at = drop (length dash + length blanks) rs in
     case at of [] \<Rightarrow> None
     | q # rest \<Rightarrow>
        if q = CHR 0x27 \<or> q = CHR 0x22 then
          (let d = takeWhile (\<lambda>c. c \<noteq> q) rest in
           if d = [] then None else Some (dash @ blanks @ q # d, d, drop (length d) rest))
        else
          (let d = takeWhile (\<lambda>c. \<not> heredocStop c) at in
           if d = [] then None else Some (dash @ blanks @ d, d, drop (length d) at)))"

lemma heredocStart_shorter: "heredocStart rs = Some (w, d, r) \<Longrightarrow> length r \<le> length rs"
  by (auto simp: heredocStart_def Let_def split: list.splits if_splits)
    (metis diff_le_self length_drop le_trans Suc_leD length_Cons)+

definition pushSegment :: "string \<Rightarrow> string list" where
  "pushSegment cur = (if TrimSpace cur \<noteq> [] then [TrimSpace cur] else [])"

function segment_loop :: "string \<Rightarrow> bool \<Rightarrow> bool \<Rightarrow> string option \<Rightarrow> string \<Rightarrow> string list" where
  "segment_loop cur inS inD hd_delim [] = pushSegment cur"
| "segment_loop cur inS inD hd_delim (ch # rs) =
    (case hd_delim of
       Some delim \<Rightarrow>
         (if ch = CHR 0x0A then
            (let line = takeWhile (\<lambda>c. c \<noteq> CHR 0x0A) rs in
             if TrimSpace line = delim
             then segment_loop (cur @ [ch] @ take (Suc (length line)) rs) inS inD None (drop (Suc (length line)) rs)
             else segment_loop (cur @ [ch]) inS inD hd_delim rs)
          else segment_loop (cur @ [ch]) inS inD hd_delim rs)
     | None \<Rightarrow>
         (if ch = CHR 0x27 \<and> \<not> inD then segment_loop (cur @ [ch]) (\<not> inS) inD None rs
          else if ch = CHR 0x22 \<and> \<not> inS then segment_loop (cur @ [ch]) inS (\<not> inD) None rs
          else if inS \<or> inD then segment_loop (cur @ [ch]) inS inD None rs
          else case (if ch = CHR ''<'' \<and> HasPrefix rs ''<'' then heredocStart (tl rs) else None) of
            Some (w, d, rest) \<Rightarrow> segment_loop (cur @ ''<<'' @ w) inS inD (Some d) rest
          | None \<Rightarrow>
             (if rs \<noteq> [] \<and> (ch = CHR ''&'' \<and> hd rs = CHR ''&'' \<or> ch = CHR ''|'' \<and> hd rs = CHR ''|'')
              then pushSegment cur @ segment_loop [] inS inD None (tl rs)
              else if ch = CHR '';'' \<or> ch = CHR ''|'' then pushSegment cur @ segment_loop [] inS inD None rs
              else segment_loop (cur @ [ch]) inS inD None rs)))"
  by pat_completeness auto

termination
  by (relation "measure (\<lambda>(cur, inS, inD, h, rs). length rs)")
    (auto split: if_splits dest!: heredocStart_shorter)

definition SegmentCommand :: "string \<Rightarrow> string list" where
  "SegmentCommand cmd = segment_loop [] False False None cmd"

section \<open>Destructive commands\<close>

definition destructivePatterns :: "string list" where
  "destructivePatterns = [''rm -rf'', ''git reset --hard'', ''git push --force'', ''drop table'', ''truncate'',
     ''> /dev/sda'', ''dd if='', ''mkfs'', '':(){ :|:& };:'', ''find -delete'', ''find -exec rm'', ''find -execdir rm'']"

definition flagText :: re where
  "flagText = Star (Cls (\<lambda>c. c \<notin> {CHR 0x0A, CHR '';'', CHR ''&'', CHR ''|''}))"

definition findDeleteFlagRe :: re where
  "findDeleteFlagRe = seq [alts [Bot, Cls re_space], lit ''find'', WordB, flagText, lit ''-delete'', WordB]"

definition findExecRmRe :: re where
  "findExecRmRe = seq [alts [Bot, Cls re_space], lit ''find'', WordB, flagText, lit ''-exec'', opt (lit ''dir''), spaces1, lit ''rm'', WordB]"

definition destructiveText :: "string \<Rightarrow> bool" where
  "destructiveText t = (list_ex (\<lambda>pat. Contains (ToLower t) (ToLower pat)) destructivePatterns
     \<or> MatchString findDeleteFlagRe t \<or> MatchString findExecRmRe t)"

definition IsDestructiveCommand :: "string \<Rightarrow> bool" where
  "IsDestructiveCommand command = (destructiveText command \<or> list_ex destructiveText (SegmentCommand command))"

section \<open>Suspicious commands\<close>

record host =
  ho_home :: string
  ho_user :: "string \<Rightarrow> string option"
  ho_hawkDir :: string
  ho_eyrieDir :: string
  ho_provider :: string
  ho_resolve :: "string \<Rightarrow> string option"

definition dangerousCommands :: "string list" where
  "dangerousCommands = [''rm'', ''rmdir'', ''mkfs'', ''dd'', ''shred'', ''wipefs'']"

definition dangerousSubstrings :: "string list" where
  "dangerousSubstrings = [''rm -rf /'', ''rm -rf /*'', ''rm -rf ~'', ''rm -rf .'', '':(){ :|:& };:'', ''chmod -r 777 /'',
     ''> /dev/sd'', ''> /dev/nv'']"

definition suspiciousPatterns :: "string list" where
  "suspiciousPatterns = [''eval '', ''exec '', ''$('', [CHR 0x60], ''| sh'', ''| bash'', ''| zsh'', ''|sh'', ''|bash'', ''|zsh'',
     ''sudo '', ''su -'', ''curl '', ''wget '', ''> /'', ''>> /'', ''git push --force'', ''git reset --hard'',
     ''DROP '', ''DELETE FROM'', ''TRUNCATE '']"

definition zshDangerousCommands :: "string list" where
  "zshDangerousCommands = [''zmodload'', ''emulate'', ''sysopen'', ''sysread'', ''syswrite'', ''sysseek'', ''zpty'', ''ztcp'',
     ''zsocket'', ''zf_rm'', ''zf_mv'', ''zf_ln'', ''zf_chmod'', ''zf_chown'', ''zf_mkdir'', ''zf_rmdir'', ''zf_chgrp'']"

definition re_quote :: "char \<Rightarrow> bool" where
  "re_quote c \<longleftrightarrow> c = CHR 0x27 \<or> c = CHR 0x22"

definition re_name :: "char \<Rightarrow> bool" where
  "re_name c \<longleftrightarrow> re_letter c \<or> c = CHR ''_''"

definition zshEqualsExpansionRe :: re where
  "zshEqualsExpansionRe = seq [alts [Bot, Cls (\<lambda>c. re_space c \<or> c \<in> {CHR '';'', CHR ''&'', CHR ''|''})], lit ''='', Cls re_name]"

definition ifsInjectionRe :: re where
  "ifsInjectionRe = alts [lit ''$IFS'', seq [lit ''${'', Star (Cls (\<lambda>c. c \<noteq> CHR ''}'')), lit ''IFS'']]"

definition procEnvironRe :: re where
  "procEnvironRe = seq [lit ''/proc/'', anyLine, lit ''environ'']"

definition ansiCQuotingRe :: re where
  "ansiCQuotingRe = seq [lit ''$'', lit [CHR 0x27], Star (Cls (\<lambda>c. c \<noteq> CHR 0x27)), lit [CHR 0x27]]"

definition localeQuotingRe :: re where
  "localeQuotingRe = seq [lit ''$'', lit [CHR 0x22], Star (Cls (\<lambda>c. c \<noteq> CHR 0x22)), lit [CHR 0x22]]"

definition emptyQuotePairRe :: re where
  "emptyQuotePairRe = seq [plus (alts [lit [CHR 0x27, CHR 0x27], lit [CHR 0x22, CHR 0x22]]), Star (Cls re_space), lit ''-'']"

definition consecutiveQuotesRe :: re where
  "consecutiveQuotesRe = seq [alts [Bot, Cls re_space], Cls re_quote, Cls re_quote, Cls re_quote, Star (Cls re_quote)]"

definition commandSubstitutionRe :: re where
  "commandSubstitutionRe = lit ''$(''"

definition heredocRe :: re where
  "heredocRe = lit ''<<''"

definition commandSubstitutionPatterns :: "re list" where
  "commandSubstitutionPatterns = [lit ''<('', lit ''>('', lit ''=('', lit ''$('', lit ''${'', lit ''$['', lit ''~['', lit ''(+'',
     seq [lit ''}'', Star (Cls re_space), lit ''always'', Star (Cls re_space), lit ''{'']]"

definition shellFunctionRe :: re where
  "shellFunctionRe = seq [Bot, Cls re_name, Star (Cls re_word), Star (Cls re_space), lit ''('', Star (Cls re_space), lit '')'']"

definition varExpansionRe :: re where
  "varExpansionRe = seq [Bot, lit ''$'', opt (Cls (\<lambda>c. c \<in> {CHR ''{'', CHR ''(''})), Cls re_name, Star (Cls re_word),
     opt (Cls (\<lambda>c. c \<in> {CHR '')'', CHR ''}''})), Eot]"

text \<open>\<open>strings.ReplaceAll\<close> of a non-empty text.\<close>

function ReplaceAll :: "string \<Rightarrow> string \<Rightarrow> string \<Rightarrow> string" where
  "ReplaceAll [] old new = []"
| "ReplaceAll (c # cs) old new =
    (if old \<noteq> [] \<and> HasPrefix (c # cs) old then new @ ReplaceAll (drop (length old) (c # cs)) old new
     else c # ReplaceAll cs old new)"
  by pat_completeness auto

termination
  by (relation "measure (length \<circ> fst)") (auto simp: neq_Nil_conv)

text \<open>The replacement of \<open>~name\<close> before a slash, white space or the end by the home directory of that user.\<close>

definition userChar :: "char \<Rightarrow> bool" where
  "userChar c \<longleftrightarrow> re_word c \<or> c = CHR ''-''"

function expandUsers :: "(string \<Rightarrow> string option) \<Rightarrow> string \<Rightarrow> string" where
  "expandUsers lookup [] = []"
| "expandUsers lookup (c # cs) =
    (let name = takeWhile userChar cs; rest = drop (length name) cs in
     if c = CHR ''~'' \<and> name \<noteq> [] \<and> re_name (hd name) \<and> (rest = [] \<or> hd rest = CHR ''/'' \<or> re_space (hd rest)) then
       (let sep = take 1 rest in
        (case lookup name of Some dir \<Rightarrow> if dir \<noteq> [] then dir @ sep else c # name @ sep | None \<Rightarrow> c # name @ sep)
          @ expandUsers lookup (drop 1 rest))
     else c # expandUsers lookup cs)"
  by pat_completeness auto

termination
  by (relation "measure (length \<circ> snd)") auto

definition normalizeCommand :: "host \<Rightarrow> string \<Rightarrow> string" where
  "normalizeCommand h cmd0 =
    (let homeDir = ho_home h;
         cmd1 = (if homeDir \<noteq> [] then ReplaceAll cmd0 ''~/'' (homeDir @ ''/'') else cmd0);
         cmd2 = (if homeDir \<noteq> [] \<and> HasPrefix cmd1 ''~'' \<and> (length cmd1 = 1 \<or> cmd1 ! 1 = CHR '' '' \<or> cmd1 ! 1 = CHR 0x09)
                 then homeDir @ drop 1 cmd1 else cmd1)
     in expandUsers (ho_user h) cmd2)"

text \<open>The part after the last slash.\<close>

definition afterSlash :: "string \<Rightarrow> string" where
  "afterSlash s = rev (takeWhile (\<lambda>c. c \<noteq> CHR ''/'') (rev s))"

definition isSegmentSuspicious :: "host \<Rightarrow> string \<Rightarrow> bool" where
  "isSegmentSuspicious h segment0 =
    (let segment = normalizeCommand h segment0;
         lower = ToLower segment;
         words = Fields segment in
     list_ex (\<lambda>pat. Contains lower pat) dangerousSubstrings
     \<or> list_ex (\<lambda>pat. Contains lower (ToLower pat)) suspiciousPatterns
     \<or> list_ex (\<lambda>r. MatchString r segment) commandSubstitutionPatterns
     \<or> MatchString zshEqualsExpansionRe segment
     \<or> list_ex (\<lambda>w. TrimSpace (dropWhile (\<lambda>c. c = CHR 0x5C \<or> c = CHR ''/'') w) \<in> set zshDangerousCommands) words
     \<or> MatchString shellFunctionRe segment
     \<or> (words \<noteq> [] \<and> MatchString varExpansionRe (hd words))
     \<or> (1 < length words \<and> hd words = ''command'' \<and> afterSlash (words ! 1) \<in> set dangerousCommands)
     \<or> (words \<noteq> [] \<and> dropWhile (\<lambda>c. c = CHR 0x5C) (afterSlash (hd words)) \<in> set dangerousCommands))"

section \<open>Sensitive paths\<close>

definition blockedPathSuffixes :: "string list" where
  "blockedPathSuffixes = [''/.ssh/id_rsa'', ''/.ssh/id_ed25519'', ''/.ssh/id_ecdsa'', ''/.ssh/id_dsa'', ''/.ssh/config'',
     ''/.ssh/known_hosts'', ''/.ssh/authorized_keys'', ''/.aws/credentials'']"

definition blockedBasenames :: "string list" where
  "blockedBasenames = [''.env'', ''credentials.json'', ''.npmrc'', ''.netrc'', ''.pgpass'', ''kubeconfig'', ''token.json'',
     ''service-account.json'', ''credentials.yaml'', ''credentials.yml'', ''credentials.xml'', ''secrets.txt'',
     ''secrets.yaml'', ''secrets.yml'', ''secrets.json'', ''.git-credentials'', ''.htpasswd'', ''id_rsa'', ''id_ed25519'',
     ''id_ecdsa'', ''id_dsa'']"

definition resolveOr :: "host \<Rightarrow> string \<Rightarrow> string" where
  "resolveOr h path = path_Clean (case ho_resolve h path of Some canonical \<Rightarrow> canonical | None \<Rightarrow> path)"

definition matchesResolvedPath :: "host \<Rightarrow> string \<Rightarrow> string \<Rightarrow> bool" where
  "matchesResolvedPath h cleanPath candidate \<longleftrightarrow> cleanPath = resolveOr h candidate"

text \<open>The basename rules that end the check.\<close>

definition basenameReason :: "string \<Rightarrow> string" where
  "basenameReason base =
    (case find (\<lambda>b. base = b) blockedBasenames of
       Some b \<Rightarrow> ''access to '' @ b @ '' files is blocked for security''
     | None \<Rightarrow> if HasPrefix base ''.env'' \<and> base \<noteq> ''.envrc'' then ''access to '' @ base @ '' files is blocked for security'' else [])"

text \<open>The rules for the agent's own configuration, in the order of the code; empty when none applies.\<close>

definition configReason :: "host \<Rightarrow> string \<Rightarrow> string" where
  "configReason h clean = (let homeDir = ho_home h; cfgDir = TrimSpace (ho_hawkDir h) in
     if homeDir \<noteq> [] \<and> clean = path_Join [homeDir, ''.hawk'', ''provider.json'']
     then ''access to ~/.hawk/provider.json is blocked for security (API credentials)''
     else if homeDir \<noteq> [] \<and> clean = path_Join [homeDir, ''.hawk'', ''env'']
     then ''access to ~/.hawk/env is blocked for security (API keys)''
     else if homeDir \<noteq> [] \<and> clean = path_Join [homeDir, ''.hawk'', ''.env'']
     then ''access to ~/.hawk/.env is blocked for security (API keys)''
     else if matchesResolvedPath h clean (ho_provider h)
     then ''access to provider.json is blocked for security (API credentials)''
     else if cfgDir \<noteq> [] \<and> matchesResolvedPath h clean (path_Join [cfgDir, ''env''])
     then ''access to hawk env file is blocked for security (API keys)''
     else if cfgDir \<noteq> [] \<and> matchesResolvedPath h clean (path_Join [cfgDir, ''.env''])
     then ''access to hawk .env is blocked for security (API keys)''
     else [])"

definition IsSensitivePath :: "host \<Rightarrow> string \<Rightarrow> string" where
  "IsSensitivePath h path = (let clean = resolveOr h path; homeDir = ho_home h; sshDir = path_Join [homeDir, ''.ssh''] in
     if configReason h clean \<noteq> [] then configReason h clean
     else case find (\<lambda>sfx. clean = path_Join [homeDir, drop 1 sfx]) blockedPathSuffixes of
       Some sfx \<Rightarrow> ''access to '' @ sfx @ '' is blocked for security''
     | None \<Rightarrow>
        if homeDir \<noteq> [] \<and> (HasPrefix clean (sshDir @ ''/'') \<or> clean = sshDir) then ''access to ~/.ssh is blocked for security''
        else if homeDir \<noteq> [] \<and> clean = path_Join [homeDir, ''.env''] then ''access to ~/.env is blocked for security''
        else basenameReason (path_Base clean))"

definition commandPathSeparators :: "char \<Rightarrow> bool" where
  "commandPathSeparators r \<longleftrightarrow> r \<in> {CHR '' '', CHR 0x09, CHR 0x0A, CHR 0x0D, CHR '';'', CHR ''|'', CHR ''&'', CHR ''<'',
     CHR ''>'', CHR ''('', CHR '')'', CHR 0x22, CHR 0x27, CHR 0x60, CHR ''=''}"

fun fieldsFunc :: "(char \<Rightarrow> bool) \<Rightarrow> string \<Rightarrow> string \<Rightarrow> string list" where
  "fieldsFunc f acc [] = (if acc = [] then [] else [rev acc])"
| "fieldsFunc f acc (c # cs) =
    (if f c then (if acc = [] then fieldsFunc f [] cs else rev acc # fieldsFunc f [] cs) else fieldsFunc f (c # acc) cs)"

definition expandVar :: "string \<times> string \<Rightarrow> string \<Rightarrow> string" where
  "expandVar item command = (case item of (name, val) \<Rightarrow>
     if val = [] then command
     else ReplaceAll (ReplaceAll command (''${'' @ name @ ''}'') val) (''$'' @ name) val)"

definition expandCommandPathVariables :: "host \<Rightarrow> string \<Rightarrow> string" where
  "expandCommandPathVariables h command =
    filter (\<lambda>c. c \<noteq> CHR 0x22 \<and> c \<noteq> CHR 0x27)
      (List.fold expandVar [(''HOME'', ho_home h), (''HAWK_CONFIG_DIR'', TrimSpace (ho_hawkDir h)),
          (''EYRIE_CONFIG_DIR'', TrimSpace (ho_eyrieDir h))]
        (ReplaceAll command [CHR 0x5C, CHR '' ''] '' ''))"

definition trimPunct :: "string \<Rightarrow> string" where
  "trimPunct s = rev (dropWhile (\<lambda>c. c = CHR '','' \<or> c = CHR '':'') (rev (dropWhile (\<lambda>c. c = CHR '','' \<or> c = CHR '':'') s)))"

definition hasPathChar :: "string \<Rightarrow> bool" where
  "hasPathChar s \<longleftrightarrow> CHR ''/'' \<in> set s \<or> CHR ''.'' \<in> set s"

text \<open>The verdict on one path-like token, empty when it is harmless.\<close>

definition tokenReason :: "host \<Rightarrow> string \<Rightarrow> string" where
  "tokenReason h tok0 = (let tok1 = trimPunct tok0; homeDir = ho_home h in
     if tok1 = [] \<or> \<not> hasPathChar tok1 then []
     else let tok = (if homeDir = [] then tok1
                     else if HasPrefix tok1 ''~/'' then homeDir @ drop 1 tok1
                     else if HasPrefix tok1 ''$HOME/'' then homeDir @ drop 5 tok1 else tok1);
              base = afterSlash tok in
       if IsSensitivePath h tok \<noteq> [] then ''command references a sensitive path: '' @ IsSensitivePath h tok
       else case find (\<lambda>sfx. HasSuffix tok sfx \<or> tok = drop 1 sfx) blockedPathSuffixes of
         Some sfx \<Rightarrow> ''command references '' @ sfx @ '', blocked for security''
       | None \<Rightarrow>
          if Contains tok ''/.ssh/'' \<or> HasSuffix tok ''/.ssh'' then ''command references ~/.ssh, blocked for security''
          else if HasSuffix tok ''.hawk/provider.json'' then ''command references provider.json, blocked for security (API credentials)''
          else case find (\<lambda>b. base = b) blockedBasenames of
            Some b \<Rightarrow> ''command references '' @ b @ '', blocked for security''
          | None \<Rightarrow> if HasPrefix base ''.env'' \<and> base \<noteq> ''.envrc'' then ''command references '' @ base @ '', blocked for security'' else [])"

definition CommandReferencesSensitivePath :: "host \<Rightarrow> string \<Rightarrow> string" where
  "CommandReferencesSensitivePath h command0 =
    (if Contains command0 ''EYRIE_CONFIG_DIR'' then ''command references EYRIE_CONFIG_DIR, blocked for security''
     else if \<not> hasPathChar command0 then []
     else let command = expandCommandPathVariables h command0; cfgDir = TrimSpace (ho_hawkDir h);
              configured = ho_provider h # (if cfgDir \<noteq> [] then [path_Join [cfgDir, ''env''], path_Join [cfgDir, ''.env'']] else []) in
       if list_ex (\<lambda>cand. cand \<noteq> [] \<and> Contains command cand) configured
       then ''command references a configured credential path, blocked for security''
       else case find (\<lambda>r. r \<noteq> []) (map (tokenReason h) (fieldsFunc commandPathSeparators [] command)) of
         Some r \<Rightarrow> r | None \<Rightarrow> [])"

definition IsSuspicious :: "host \<Rightarrow> string \<Rightarrow> bool" where
  "IsSuspicious h command =
    (CHR 0x0D \<in> set command
     \<or> MatchString ifsInjectionRe command
     \<or> MatchString procEnvironRe command
     \<or> MatchString ansiCQuotingRe command
     \<or> MatchString localeQuotingRe command
     \<or> MatchString emptyQuotePairRe command
     \<or> MatchString consecutiveQuotesRe command
     \<or> (MatchString commandSubstitutionRe command \<and> MatchString heredocRe command)
     \<or> CommandReferencesSensitivePath h command \<noteq> []
     \<or> list_ex (\<lambda>pat. Contains (ToLower command) (ToLower pat)) suspiciousPatterns
     \<or> list_ex (isSegmentSuspicious h) (SegmentCommand command))"

definition hardDenySubstrings :: "string list" where
  "hardDenySubstrings = [''eval '', ''exec '', ''$('', [CHR 0x60], ''| sh'', ''| bash'', ''| zsh'', ''|sh'', ''|bash'', ''|zsh'',
     ''sudo '', ''su -'']"

definition isHardDeny :: "host \<Rightarrow> string \<Rightarrow> bool" where
  "isHardDeny h command = (list_ex (Contains (ToLower command)) hardDenySubstrings
     \<or> CommandReferencesSensitivePath h command \<noteq> [])"

section \<open>What the screens guarantee\<close>

lemma heredocStart_split: "heredocStart rs = Some (w, d, r) \<Longrightarrow> rs = w @ r"
proof -
  assume h: "heredocStart rs = Some (w, d, r)"
  have tw: "takeWhile P xs @ drop (length (takeWhile P xs)) xs = xs" for P and xs :: string
    by (metis append_eq_conv_conj takeWhile_dropWhile_id)
  define dash where "dash = (if HasPrefix rs ''-'' then ''-'' else [])"
  define blanks where "blanks = takeWhile (\<lambda>c. c = CHR '' '') (drop (length dash) rs)"
  define at where "at = drop (length dash + length blanks) rs"
  have "rs = dash @ drop (length dash) rs" by (cases rs) (auto simp: dash_def HasPrefix_def)
  moreover have "drop (length dash) rs = blanks @ at"
    using tw [of "\<lambda>c. c = CHR '' ''" "drop (length dash) rs"] by (simp add: blanks_def at_def add.commute)
  ultimately have rs: "rs = dash @ blanks @ at" by simp
  from h show ?thesis
    unfolding heredocStart_def Let_def dash_def [symmetric] blanks_def [symmetric] at_def [symmetric]
    by (auto simp: rs tw split: list.splits if_splits)
qed

text \<open>Every segment the loop still produces is a part of the text it has collected and not yet read.\<close>

definition part_of :: "string \<Rightarrow> string \<Rightarrow> bool" where
  "part_of cmd seg \<longleftrightarrow> seg \<noteq> [] \<and> TrimSpace seg = seg \<and> Contains cmd seg"

lemma TrimSpace_part: "\<exists>a b. s = a @ TrimSpace s @ b"
proof -
  have r: "\<exists>b. t = trimRight t @ b" for t by (induction t) auto
  have "s = takeWhile is_space s @ dropWhile is_space s" by simp
  with r [of "dropWhile is_space s"] show ?thesis unfolding TrimSpace_alt by metis
qed

lemma TrimSpace_idem [simp]: "TrimSpace (TrimSpace s) = TrimSpace s"
proof -
  have "dropWhile is_space (dropWhile is_space s) = dropWhile is_space s" by (induction s) auto
  then show ?thesis by (simp add: TrimSpace_alt trim_commute)
qed

lemma pushSegment_part: "seg \<in> set (pushSegment cur) \<Longrightarrow> part_of (pre @ cur @ rest) seg"
proof -
  assume "seg \<in> set (pushSegment cur)"
  then have seg: "seg = TrimSpace cur" "TrimSpace cur \<noteq> []" by (auto simp: pushSegment_def split: if_splits)
  from TrimSpace_part obtain a b where "cur = a @ TrimSpace cur @ b" by blast
  then have "pre @ cur @ rest = (pre @ a) @ TrimSpace cur @ (b @ rest)" by simp
  with seg show ?thesis unfolding part_of_def Contains_iff by (metis TrimSpace_idem)
qed

text \<open>
  One round of the loop either moves a non-empty part of the input to the current segment or ends the
  segment at a separator, which is dropped.
\<close>

definition separator :: "char \<Rightarrow> bool" where
  "separator c \<longleftrightarrow> c = CHR ''&'' \<or> c = CHR ''|'' \<or> c = CHR '';''"

lemma segment_step:
  "(\<exists>w i d h' rs'. ch # rs = w @ rs' \<and> w \<noteq> [] \<and> segment_loop cur inS inD h (ch # rs) = segment_loop (cur @ w) i d h' rs')
    \<or> (\<exists>sep rs'. ch # rs = sep @ rs' \<and> sep \<noteq> [] \<and> list_all separator sep
        \<and> segment_loop cur inS inD h (ch # rs) = pushSegment cur @ segment_loop [] inS inD None rs')"
  (is "?A \<or> ?B")
proof -
  have one: ?A if "segment_loop cur inS inD h (ch # rs) = segment_loop (cur @ [ch]) i d h' rs" for i d h'
    using that by (intro exI [of _ "[ch]"]) auto
  show ?thesis
  proof (cases h)
    case (Some delim)
    let ?n = "Suc (length (takeWhile (\<lambda>c. c \<noteq> CHR 0x0A) rs))"
    have "?A" if "segment_loop cur inS inD h (ch # rs) = segment_loop (cur @ [ch] @ take ?n rs) inS inD None (drop ?n rs)"
      using that by (intro exI [of _ "ch # take ?n rs"] exI [of _ inS] exI [of _ inD] exI [of _ None] exI [of _ "drop ?n rs"]) simp
    moreover have "?A" if "segment_loop cur inS inD h (ch # rs) = segment_loop (cur @ [ch]) inS inD h rs"
      using one [OF that] .
    moreover have "segment_loop cur inS inD h (ch # rs) = segment_loop (cur @ [ch]) inS inD h rs
        \<or> segment_loop cur inS inD h (ch # rs) = segment_loop (cur @ [ch] @ take ?n rs) inS inD None (drop ?n rs)"
      using Some by (simp add: Let_def)
    ultimately show ?thesis by blast
  next
    case None
    let ?here = "if ch = CHR ''<'' \<and> HasPrefix rs ''<'' then heredocStart (tl rs) else None"
    show ?thesis
    proof (cases "ch = CHR 0x27 \<and> \<not> inD \<or> ch = CHR 0x22 \<and> \<not> inS \<or> inS \<or> inD")
      case True
      then consider "ch = CHR 0x27" "\<not> inD" | "ch = CHR 0x22" "\<not> inS" | "\<not> (ch = CHR 0x27 \<and> \<not> inD)"
        "\<not> (ch = CHR 0x22 \<and> \<not> inS)" "inS \<or> inD" by blast
      then have "\<exists>i d. segment_loop cur inS inD h (ch # rs) = segment_loop (cur @ [ch]) i d None rs"
        by cases (use None in \<open>simp; blast\<close>)+
      then show ?thesis using one by blast
    next
      case False
      then have plain: "\<not> inS" "\<not> inD" "ch \<noteq> CHR 0x27" "ch \<noteq> CHR 0x22" by auto
      show ?thesis
      proof (cases ?here)
        case (Some r)
        then obtain w d rest where r: "?here = Some (w, d, rest)" by (cases r) auto
        then have rs: "ch # rs = (''<<'' @ w) @ rest"
          using heredocStart_split [of "tl rs" w d rest] by (cases rs; auto simp: HasPrefix_def split: if_splits)
        from r plain None have "segment_loop cur inS inD h (ch # rs) = segment_loop (cur @ ''<<'' @ w) inS inD (Some d) rest"
          by simp
        with rs show ?thesis by blast
      next
        case here: None
        consider (two) "rs \<noteq> [] \<and> (ch = CHR ''&'' \<and> hd rs = CHR ''&'' \<or> ch = CHR ''|'' \<and> hd rs = CHR ''|'')"
          | (single) "\<not> (rs \<noteq> [] \<and> (ch = CHR ''&'' \<and> hd rs = CHR ''&'' \<or> ch = CHR ''|'' \<and> hd rs = CHR ''|''))"
            "ch = CHR '';'' \<or> ch = CHR ''|''"
          | (other) "\<not> (rs \<noteq> [] \<and> (ch = CHR ''&'' \<and> hd rs = CHR ''&'' \<or> ch = CHR ''|'' \<and> hd rs = CHR ''|''))"
            "\<not> (ch = CHR '';'' \<or> ch = CHR ''|'')" by blast
        then show ?thesis
        proof cases
          case two
          then have "segment_loop cur inS inD h (ch # rs) = pushSegment cur @ segment_loop [] inS inD None (tl rs)"
            using plain here None by simp
          moreover have "ch # rs = [ch, hd rs] @ tl rs" "list_all separator [ch, hd rs]"
            using two by (auto simp: separator_def)
          ultimately show ?thesis by blast
        next
          case single
          then have "segment_loop cur inS inD h (ch # rs) = pushSegment cur @ segment_loop [] inS inD None rs"
            using plain here None by (simp; blast)
          moreover have "ch # rs = [ch] @ rs" "list_all separator [ch]" using single by (auto simp: separator_def)
          ultimately show ?thesis by blast
        next
          case other
          then have "segment_loop cur inS inD h (ch # rs) = segment_loop (cur @ [ch]) inS inD None rs"
            using plain here None by (simp; blast)
          then show ?thesis using one by blast
        qed
      qed
    qed
  qed
qed

lemma segment_loop_parts:
  "seg \<in> set (segment_loop cur inS inD h rs) \<Longrightarrow> part_of (pre @ cur @ rs) seg"
proof (induction rs arbitrary: cur inS inD h pre rule: length_induct)
  case (1 rs)
  note IH = "1.IH" [rule_format] and seg = "1.prems"
  show ?case
  proof (cases rs)
    case Nil
    then show ?thesis using seg pushSegment_part [of seg cur pre "[]"] by simp
  next
    case (Cons ch rest)
    from segment_step [of ch rest cur inS inD h] show ?thesis
    proof (elim disjE exE conjE)
      fix w i d h' rs'
      assume w: "ch # rest = w @ rs'" "w \<noteq> []"
        "segment_loop cur inS inD h (ch # rest) = segment_loop (cur @ w) i d h' rs'"
      have "length rs' < length rs" using w(2) unfolding Cons w(1) by simp
      from IH [OF this, of "cur @ w" i d h' pre] seg w show ?thesis unfolding Cons by simp
    next
      fix sep rs'
      assume sep: "ch # rest = sep @ rs'" "sep \<noteq> []"
        "segment_loop cur inS inD h (ch # rest) = pushSegment cur @ segment_loop [] inS inD None rs'"
      have "length rs' < length rs" using sep(2) unfolding Cons sep(1) by simp
      from IH [OF this, of "[]" inS inD None "pre @ cur @ sep"] seg sep
        pushSegment_part [of seg cur pre rs] show ?thesis unfolding Cons by auto
    qed
  qed
qed

definition solid :: "char \<Rightarrow> bool" where
  "solid c \<longleftrightarrow> \<not> is_space c \<and> \<not> separator c"

lemma filter_TrimSpace: "filter solid (TrimSpace s) = filter solid s"
proof -
  have l: "filter solid (dropWhile is_space t) = filter solid t" for t by (induction t) (auto simp: solid_def)
  have r: "trimRight t = [] \<Longrightarrow> filter solid t = []" for t
    by (induction t) (auto simp: solid_def split: if_splits)
  have "filter solid (trimRight t) = filter solid t" for t
    by (induction t) (auto simp: solid_def dest: r)
  then show ?thesis by (simp add: TrimSpace_alt l)
qed

lemma filter_pushSegment: "filter solid (concat (pushSegment cur)) = filter solid cur"
  using filter_TrimSpace [of cur] by (auto simp: pushSegment_def)

lemma filter_separators: "list_all separator s \<Longrightarrow> filter solid s = []"
  by (induction s) (auto simp: solid_def)

lemma segment_loop_keeps:
  "filter solid (concat (segment_loop cur inS inD h rs)) = filter solid (cur @ rs)"
proof (induction rs arbitrary: cur inS inD h rule: length_induct)
  case (1 rs)
  note IH = "1.IH" [rule_format]
  show ?case
  proof (cases rs)
    case (Cons ch rest)
    from segment_step [of ch rest cur inS inD h] show ?thesis
    proof (elim disjE exE conjE)
      fix w i d h' rs'
      assume w: "ch # rest = w @ rs'" "w \<noteq> []"
        "segment_loop cur inS inD h (ch # rest) = segment_loop (cur @ w) i d h' rs'"
      have "length rs' < length rs" using w(2) unfolding Cons w(1) by simp
      from IH [OF this, of "cur @ w" i d h'] show ?thesis unfolding Cons w(3) unfolding w(1) by simp
    next
      fix sep rs'
      assume sep: "ch # rest = sep @ rs'" "sep \<noteq> []" "list_all separator sep"
        "segment_loop cur inS inD h (ch # rest) = pushSegment cur @ segment_loop [] inS inD None rs'"
      have "length rs' < length rs" using sep(2) unfolding Cons sep(1) by simp
      from IH [OF this, of "[]" inS inD None] show ?thesis
        unfolding Cons sep(4) unfolding sep(1) by (simp add: filter_pushSegment filter_separators [OF sep(3)])
    qed
  qed (simp add: filter_pushSegment)
qed

text \<open>
  Segmenting loses nothing and invents nothing: each segment that \<open>SegmentCommand\<close> returns is non-empty,
  has no surrounding white space and is a contiguous part of the command, and the segments together hold
  every character of the command in order except white space and the separator characters.
\<close>

theorem segments_faithful:
  "list_all (part_of cmd) (SegmentCommand cmd) \<and> filter solid (concat (SegmentCommand cmd)) = filter solid cmd"
  unfolding list_all_iff SegmentCommand_def
  using segment_loop_parts [of _ "[]" False False None cmd "[]"] by (simp add: segment_loop_keeps)

text \<open>Everything the hard-deny list blocks is also suspicious, whatever the host.\<close>

text \<open>
  The hard-deny screen is a subset of the suspicious screen, as its comment says: on every host a command
  that is blocked without a prompt also needs a prompt.
\<close>

theorem hard_deny_suspicious:
  assumes "isHardDeny h command"
  shows "IsSuspicious h command"
proof -
  have "list_all (\<lambda>p. p \<in> set (map ToLower suspiciousPatterns)) hardDenySubstrings" by code_simp
  then have "p \<in> set hardDenySubstrings \<Longrightarrow> \<exists>q \<in> set suspiciousPatterns. p = ToLower q" for p
    by (auto simp: list_all_iff)
  with assms show ?thesis unfolding isHardDeny_def IsSuspicious_def list_ex_iff by blast
qed

definition plain_host :: host where
  "plain_host = \<lparr>ho_home = ''/home/u'', ho_user = (\<lambda>_. None), ho_hawkDir = [], ho_eyrieDir = [],
     ho_provider = ''/home/u/p.json'', ho_resolve = (\<lambda>_. None)\<rparr>"

theorem hard_deny_suspicious_witness:
  "isHardDeny plain_host ''x | sh'' \<and> IsSuspicious plain_host ''x | sh''"
proof -
  have "isHardDeny plain_host ''x | sh''" by code_simp
  with hard_deny_suspicious [OF this] show ?thesis by simp
qed

end
