(* ===== verification/Tool_Output.thy ===== *)
theory Tool_Output
  imports Go_Regexp
begin

text \<open>
  Limits on what tools take and return, from \<open>internal/tool/safety.go\<close>: timeouts, truncation of large output
  at a character boundary, credential detection and the binary-content probe. Bytes are characters, their bit
  masks are taken on 8-bit words.
\<close>

unbundle bit_operations_syntax

section \<open>Timeouts\<close>

text \<open>Seconds; Go's \<open>Duration\<close> counts nanoseconds.\<close>

definition ToolTimeout :: "string \<Rightarrow> int" where
  "ToolTimeout toolName =
    (if toolName = ''Bash'' \<or> toolName = ''bash'' then 120 * 1000000000
     else if toolName = ''WebFetch'' \<or> toolName = ''web_fetch'' then 30 * 1000000000
     else if toolName = ''Grep'' \<or> toolName = ''grep'' then 60 * 1000000000
     else 60 * 1000000000)"

section \<open>Truncation\<close>

definition maxOutputBytes :: nat where
  "maxOutputBytes = 500000"

definition byte :: "char \<Rightarrow> 8 word" where
  "byte c = of_nat (of_char c)"

definition is_cont :: "char \<Rightarrow> bool" where
  "is_cont b \<longleftrightarrow> byte b AND 0xC0 = 0x80"

definition seqLen :: "char \<Rightarrow> nat" where
  "seqLen b = (if byte b AND 0xE0 = 0xC0 then 2 else if byte b AND 0xF0 = 0xE0 then 3
     else if byte b AND 0xF8 = 0xF0 then 4 else 1)"

text \<open>The index of the last byte that starts a character.\<close>

definition lastStart :: "string \<Rightarrow> nat option" where
  "lastStart t = (let k = length (takeWhile is_cont (rev t)) in if k < length t then Some (length t - 1 - k) else None)"

definition truncateRunes :: "string \<Rightarrow> string" where
  "truncateRunes t = (case lastStart t of None \<Rightarrow> t
   | Some i \<Rightarrow> if i + seqLen (t ! i) \<le> length t then take (i + seqLen (t ! i)) t else take i t)"

definition truncatedMark :: string where
  "truncatedMark = [CHR 0x0A] @ ''[output truncated '' @ map char_of [226::nat, 128, 148] @ '' showing first 500KB]''"

definition TruncateOutput :: "string \<Rightarrow> string" where
  "TruncateOutput s = (if length s \<le> maxOutputBytes then s else truncateRunes (take maxOutputBytes s) @ truncatedMark)"

section \<open>Binary content and credentials\<close>

definition binaryProbeSize :: nat where
  "binaryProbeSize = 8192"

definition controlByte :: "char \<Rightarrow> bool" where
  "controlByte b \<longleftrightarrow> byte b < 0x20 \<and> b \<noteq> CHR 0x09 \<and> b \<noteq> CHR 0x0A \<and> b \<noteq> CHR 0x0D"

text \<open>
  The ratio test is on 64-bit floats in the code; for at most 8192 bytes the quotient compares with 0.3 as the
  exact fraction does.
\<close>

definition IsBinaryContent :: "string \<Rightarrow> bool" where
  "IsBinaryContent data = (let probe = take binaryProbeSize data in
     CHR 0x00 \<in> set probe
     \<or> (probe \<noteq> [] \<and> 3 * length probe < 10 * length (filter controlByte probe)))"

definition alnum :: "char \<Rightarrow> bool" where
  "alnum c \<longleftrightarrow> re_word c \<and> c \<noteq> CHR ''_''"

definition re_digit :: "char \<Rightarrow> bool" where
  "re_digit c \<longleftrightarrow> c \<in> set ''0123456789''"

text \<open>\<open>r{n,}\<close> and \<open>r{n}\<close>\<close>

definition atLeast_re :: "nat \<Rightarrow> re \<Rightarrow> re" where
  "atLeast_re n r = seq (replicate n r @ [Star r])"

definition exactly_re :: "nat \<Rightarrow> re \<Rightarrow> re" where
  "exactly_re n r = seq (replicate n r)"

definition credentialPatterns :: "(re \<times> string) list" where
  "credentialPatterns =
    [(seq [lit ''sk-ant-api'', exactly_re 2 (Cls re_digit), lit ''-'', atLeast_re 20 (Cls (\<lambda>c. re_word c \<or> c = CHR ''-''))],
      ''Anthropic API key (sk-ant-...)''),
     (seq [lit ''sk-'', atLeast_re 20 (Cls alnum)], ''OpenAI/secret key (sk-...)''),
     (seq [lit ''AKIA'', exactly_re 16 (Cls (\<lambda>c. re_digit c \<or> c \<in> set ''ABCDEFGHIJKLMNOPQRSTUVWXYZ''))], ''AWS access key (AKIA...)''),
     (seq [lit ''ghp_'', atLeast_re 36 (Cls alnum)], ''GitHub personal access token (ghp_...)''),
     (seq [lit ''gho_'', atLeast_re 36 (Cls alnum)], ''GitHub OAuth token (gho_...)''),
     (seq [lit ''glpat-'', atLeast_re 20 (Cls (\<lambda>c. re_word c \<or> c = CHR ''-''))], ''GitLab personal access token (glpat-...)''),
     (seq [lit ''xox'', Cls (\<lambda>c. c \<in> set ''bpsar''), lit ''-'', atLeast_re 10 (Cls (\<lambda>c. alnum c \<or> c = CHR ''-''))], ''Slack token (xox...)''),
     (seq [Cls (\<lambda>c. c \<in> set ''sr''), lit ''k_'', alts [lit ''live'', lit ''test''], lit ''_'', atLeast_re 20 (Cls alnum)], ''Stripe secret key''),
     (seq [lit ''-----BEGIN '', opt (alts [lit ''RSA '', lit ''EC '', lit ''OPENSSH '']), lit ''PRIVATE KEY-----''], ''PEM private key''),
     (seq [lit ''://'', plus (Cls (\<lambda>c. c \<noteq> CHR '':'')), lit '':'', plus (Cls (\<lambda>c. c \<noteq> CHR ''@'' \<and> \<not> re_space c)), lit ''@'',
        plus (Cls (\<lambda>c. c \<noteq> CHR ''/'' \<and> \<not> re_space c))], ''password in connection string'')]"

definition DetectCredentials :: "string \<Rightarrow> string" where
  "DetectCredentials content = (case find (\<lambda>(r, _). MatchString r content) credentialPatterns of
     Some (_, label) \<Rightarrow> label | None \<Rightarrow> [])"

section \<open>Truncation keeps whole characters\<close>

text \<open>A text of whole characters: each starting byte is followed by the continuation bytes it announces.\<close>

inductive runes :: "string \<Rightarrow> bool" where
  empty: "runes []"
| char: "\<not> is_cont b \<Longrightarrow> Suc (length cs) = seqLen b \<Longrightarrow> list_all is_cont cs \<Longrightarrow> runes s \<Longrightarrow> runes (b # cs @ s)"

lemma seqLen_le: "seqLen b \<le> 4"
  by (simp add: seqLen_def)

lemma takeWhile_short: "length (takeWhile P xs) < length xs \<longleftrightarrow> \<not> list_all P xs"
  by (induction xs) auto

lemma lastStart_None: "lastStart t = None \<longleftrightarrow> list_all is_cont t"
  using takeWhile_short [of is_cont "rev t"] by (auto simp: lastStart_def Let_def list_all_iff)

lemma lastStart_append:
  "lastStart (u @ t) = (case lastStart t of Some i \<Rightarrow> Some (length u + i) | None \<Rightarrow> lastStart u)"
proof (cases "list_all is_cont t")
  case True
  then have "takeWhile is_cont (rev (u @ t)) = rev t @ takeWhile is_cont (rev u)"
    by (simp add: list_all_iff takeWhile_append)
  with True show ?thesis using lastStart_None [of t] by (auto simp: lastStart_def Let_def)
next
  case False
  then obtain x where x: "x \<in> set t" "\<not> is_cont x" by (auto simp: list_all_iff)
  then have "takeWhile is_cont (rev (u @ t)) = takeWhile is_cont (rev t)" by (simp add: takeWhile_append1)
  moreover have "length (takeWhile is_cont (rev t)) < length t"
    using x takeWhile_short [of is_cont "rev t"] by (auto simp: list_all_iff)
  ultimately show ?thesis by (auto simp: lastStart_def Let_def)
qed

lemma lastStart_bound: "lastStart t = Some i \<Longrightarrow> i < length t"
  by (auto simp: lastStart_def Let_def split: if_splits)

lemma truncateRunes_append:
  "lastStart t \<noteq> None \<Longrightarrow> truncateRunes (u @ t) = u @ truncateRunes t"
  using lastStart_bound [of t] by (auto simp: truncateRunes_def lastStart_append nth_append)

lemma lastStart_lead:
  assumes "\<not> is_cont b" and "list_all is_cont cs"
  shows "lastStart (b # cs) = Some 0"
proof -
  have "lastStart [b] = Some 0" using assms(1) by (simp add: lastStart_def)
  moreover have "lastStart cs = None" using assms(2) by (simp add: lastStart_None)
  ultimately show ?thesis using lastStart_append [of "[b]" cs] by simp
qed

lemma runes_lead: "runes s \<Longrightarrow> t = take n s \<Longrightarrow> t \<noteq> [] \<Longrightarrow> lastStart t \<noteq> None"
  by (cases rule: runes.cases) (auto simp: lastStart_None take_Cons split: nat.splits)

lemma truncate_runes:
  "runes s \<Longrightarrow> runes (truncateRunes (take n s)) \<and> min n (length s) \<le> length (truncateRunes (take n s)) + 3"
proof (induction arbitrary: n rule: runes.induct)
  case empty
  then show ?case by (simp add: truncateRunes_def lastStart_def runes.empty)
next
  case (char b cs s)
  show ?case
  proof (cases "n < seqLen b")
    case True
    show ?thesis
    proof (cases n)
      case 0
      then show ?thesis by (simp add: truncateRunes_def lastStart_def runes.empty)
    next
      case (Suc m)
      with True char.hyps(2) have t: "take n (b # cs @ s) = b # take m cs" by simp
      have "lastStart (b # take m cs) = Some 0"
        using char.hyps(1,3) by (intro lastStart_lead) (auto simp: list_all_iff dest: in_set_takeD)
      then have "truncateRunes (b # take m cs) = []"
        using True Suc char.hyps(2) by (simp add: truncateRunes_def)
      then show ?thesis unfolding t using True seqLen_le [of b] by (simp add: runes.empty)
    qed
  next
    case False
    let ?t = "take (n - seqLen b) s"
    have "take n ((b # cs) @ s) = (b # cs) @ take (n - length (b # cs)) s"
      using False char.hyps(2) by (subst take_append) (simp del: append_Cons)
    then have t: "take n (b # cs @ s) = (b # cs) @ ?t" using char.hyps(2) by simp
    have whole: "truncateRunes (b # cs) = b # cs"
      using lastStart_lead [OF char.hyps(1,3)] char.hyps(2) by (simp add: truncateRunes_def flip: char.hyps(2))
    have "truncateRunes (take n (b # cs @ s)) = (b # cs) @ truncateRunes ?t"
    proof (cases "?t = []")
      case True
      have "truncateRunes [] = []" by (simp add: truncateRunes_def lastStart_def)
      with whole show ?thesis unfolding t True by simp
    next
      case False
      from runes_lead [OF char.hyps(4) refl False] show ?thesis unfolding t by (rule truncateRunes_append)
    qed
    moreover have "runes (b # cs @ truncateRunes ?t)"
      using char.IH [of "n - seqLen b"] char.hyps(1-3) by (blast intro: runes.char)
    ultimately show ?thesis using char.IH [of "n - seqLen b"] False char.hyps(2) by auto
  qed
qed

lemma truncateRunes_prefix: "prefix (truncateRunes t) t"
  by (auto simp: truncateRunes_def take_is_prefix split: option.splits)

text \<open>
  Large output is cut safely: the text before the truncation mark is a prefix of the output of at most
  500000 bytes, misses at most three bytes of that limit, and for a text of whole UTF-8 characters it is
  again a text of whole characters; smaller output is returned as it is.
\<close>

theorem truncate_output_safe:
  assumes "runes s"
  shows "if length s \<le> maxOutputBytes then TruncateOutput s = s
    else \<exists>t. TruncateOutput s = t @ truncatedMark \<and> prefix t s \<and> runes t
      \<and> length t \<le> maxOutputBytes \<and> maxOutputBytes \<le> length t + 3"
proof (cases "length s \<le> maxOutputBytes")
  case True
  then show ?thesis by (simp add: TruncateOutput_def)
next
  case False
  let ?t = "truncateRunes (take maxOutputBytes s)"
  have pre: "prefix ?t (take maxOutputBytes s)" by (rule truncateRunes_prefix)
  then have "prefix ?t s" by (meson prefix_order.trans take_is_prefix)
  moreover have "length ?t \<le> maxOutputBytes" using prefix_length_le [OF pre] by simp
  ultimately show ?thesis
    using False truncate_runes [OF assms, of maxOutputBytes] by (auto simp: TruncateOutput_def)
qed

theorem truncate_output_safe_witness:
  "\<exists>t. TruncateOutput (replicate 500001 CHR ''a'') = t @ truncatedMark \<and> runes t \<and> 500000 \<le> length t + 3"
proof -
  have "runes (replicate n CHR ''a'')" for n
  proof (induction n)
    case (Suc n)
    have "\<not> is_cont CHR ''a''" "seqLen CHR ''a'' = 1" by (simp_all add: is_cont_def seqLen_def byte_def)
    then show ?case using runes.char [of "CHR ''a''" "[]", OF _ _ _ Suc] by simp
  qed (simp add: runes.empty)
  from truncate_output_safe [OF this, of 500001] show ?thesis by (auto simp: maxOutputBytes_def)
qed

end
