(* ===== verification/Decision_Hooks.thy ===== *)
theory Decision_Hooks
  imports Tool_Policy "HOL-Library.Multiset"
begin

text \<open>
  Decision hooks, from \<open>internal/hooks/decision.go\<close>, \<open>internal/hooks/aliases.go\<close> and the event vocabulary of
  \<open>internal/contracts/agent/hooks.go\<close>: canonical event names, matchers, the registry kept in order of
  priority by an exchange sort, and the execution of the first hook with an opinion. The registry, a global
  slice in Go, is passed explicitly. A hook function is arbitrary code: its model is an arbitrary function of
  the event and the call, which may also panic.
\<close>

section \<open>Event names\<close>

definition EventPreTool :: string where
  "EventPreTool = ''pre_tool''"

definition hookNames :: "string list" where
  "hookNames = [''PreToolUse'', ''PostToolUse'', ''UserPromptSubmit'', ''SessionStart'', ''SessionEnd'', ''Stop'',
     ''SubagentStart'', ''SubagentStop'', ''Notification'', ''PermissionRequest'', ''PreCompact'', ''Failure'']"

definition VendorHookAliases :: "(string \<times> string) list" where
  "VendorHookAliases = [
     (''pretooluse'', ''PreToolUse''), (''pre_tool_use'', ''PreToolUse''), (''posttooluse'', ''PostToolUse''),
     (''post_tool_use'', ''PostToolUse''), (''userpromptsubmit'', ''UserPromptSubmit''),
     (''user_prompt_submit'', ''UserPromptSubmit''), (''sessionstart'', ''SessionStart''),
     (''session_start'', ''SessionStart''), (''sessionend'', ''SessionEnd''), (''session_end'', ''SessionEnd''),
     (''stop'', ''Stop''), (''subagentstart'', ''SubagentStart''), (''subagent_start'', ''SubagentStart''),
     (''subagentstop'', ''SubagentStop''), (''subagent_stop'', ''SubagentStop''), (''notification'', ''Notification''),
     (''permissionrequest'', ''PermissionRequest''), (''permission_request'', ''PermissionRequest''),
     (''precompact'', ''PreCompact''), (''pre_compact'', ''PreCompact''), (''failure'', ''Failure''),
     (''onerror'', ''Failure''), (''on_error'', ''Failure'')]"

text \<open>\<open>None\<close> is Go's empty string for an unknown name.\<close>

definition CanonicalHookEvent :: "string \<Rightarrow> string option" where
  "CanonicalHookEvent s =
    (if s = [] then None else if s \<in> set hookNames then Some s
     else map_of VendorHookAliases (ToLower (TrimSpace s)))"

definition hookEvents :: "(string \<times> string) list" where
  "hookEvents = [
     (''PreToolUse'', ''pre_tool''), (''PostToolUse'', ''post_tool''), (''PreCompact'', ''pre_compact''),
     (''SessionStart'', ''session_start''), (''SessionEnd'', ''session_end''),
     (''UserPromptSubmit'', ''user_prompt_submit''), (''SubagentStart'', ''subagent_start''),
     (''SubagentStop'', ''subagent_stop''), (''Stop'', ''stop''), (''Failure'', ''failure''),
     (''PermissionRequest'', ''permission_ask''), (''Notification'', ''notification'')]"

definition eventAliases :: "(string \<times> string) list" where
  "eventAliases = [
     (''pre_tool'', ''pre_tool''), (''pretool'', ''pre_tool''), (''pretooluse'', ''pre_tool''), (''pre_tool_use'', ''pre_tool''),
     (''post_tool'', ''post_tool''), (''posttool'', ''post_tool''), (''posttooluse'', ''post_tool''),
     (''post_tool_use'', ''post_tool''), (''pre_query'', ''pre_query''), (''post_query'', ''post_query''),
     (''pre_compact'', ''pre_compact''), (''post_compact'', ''post_compact''), (''session_start'', ''session_start''),
     (''session_end'', ''session_end''), (''permission_ask'', ''permission_ask''), (''error'', ''failure''),
     (''failure'', ''failure''), (''on_error'', ''failure''), (''onerror'', ''failure''),
     (''subagent_start'', ''subagent_start''), (''subagentstart'', ''subagent_start''),
     (''subagent_stop'', ''subagent_stop''), (''subagentstop'', ''subagent_stop''), (''stop'', ''stop''),
     (''user_prompt_submit'', ''user_prompt_submit''), (''userpromptsubmit'', ''user_prompt_submit''),
     (''user_prompt_queued'', ''user_prompt_queued''), (''userpromptqueued'', ''user_prompt_queued''),
     (''turn_started'', ''turn_started''), (''turnstarted'', ''turn_started''),
     (''post_tool_failure'', ''post_tool_failure''), (''posttoolfailure'', ''post_tool_failure''),
     (''permission_result'', ''permission_result''), (''permissionresult'', ''permission_result''),
     (''session_heartbeat'', ''session_heartbeat''), (''sessionheartbeat'', ''session_heartbeat''),
     (''task_started'', ''task_started''), (''taskstarted'', ''task_started''),
     (''stop_failure'', ''stop_failure''), (''stopfailure'', ''stop_failure''),
     (''interrupt'', ''interrupt''), (''notification'', ''notification'')]"

definition CanonicalEvent :: "string \<Rightarrow> string" where
  "CanonicalEvent s =
    (if s = [] then []
     else case Option.bind (CanonicalHookEvent s) (map_of hookEvents) of
       Some e \<Rightarrow> e
     | None \<Rightarrow> (case map_of eventAliases (ToLower (TrimSpace s)) of Some e \<Rightarrow> e | None \<Rightarrow> s))"

definition EventsMatch :: "string \<Rightarrow> string \<Rightarrow> bool" where
  "EventsMatch matcherEvent runtimeEvent \<longleftrightarrow> CanonicalEvent matcherEvent = CanonicalEvent runtimeEvent"

section \<open>Hooks\<close>

record HookDecision =
  hd_Action :: string
  hd_Reason :: string
  hd_Message :: string
  hd_ModifiedInput :: string

definition ActionAllow :: string where
  "ActionAllow = ''allow''"

definition ActionDeny :: string where
  "ActionDeny = ''deny''"

definition ActionModify :: string where
  "ActionModify = ''modify''"

definition ActionInstruct :: string where
  "ActionInstruct = ''instruct''"

definition hook_Allow :: HookDecision where
  "hook_Allow = \<lparr>hd_Action = ActionAllow, hd_Reason = [], hd_Message = [], hd_ModifiedInput = []\<rparr>"

definition hook_Deny :: "string \<Rightarrow> HookDecision" where
  "hook_Deny reason = \<lparr>hd_Action = ActionDeny, hd_Reason = reason, hd_Message = reason, hd_ModifiedInput = []\<rparr>"

definition hook_Instruct :: "string \<Rightarrow> HookDecision" where
  "hook_Instruct message = \<lparr>hd_Action = ActionInstruct, hd_Reason = [], hd_Message = message, hd_ModifiedInput = []\<rparr>"

definition hook_Modify :: "string \<Rightarrow> string \<Rightarrow> HookDecision" where
  "hook_Modify reason modifiedInput =
    \<lparr>hd_Action = ActionModify, hd_Reason = reason, hd_Message = [], hd_ModifiedInput = modifiedInput\<rparr>"

record DecisionMatcher =
  dm_Events :: "string list"
  dm_ToolNames :: "string list"

definition matcher_Match :: "DecisionMatcher \<Rightarrow> string \<Rightarrow> string \<Rightarrow> bool" where
  "matcher_Match m event toolName \<longleftrightarrow>
    (dm_Events m \<noteq> [] \<longrightarrow> list_ex (\<lambda>e. EventsMatch e event) (dm_Events m)) \<and>
    (dm_ToolNames m \<noteq> [] \<longrightarrow> toolName \<in> set (dm_ToolNames m))"

record DecisionHookConfig =
  hc_Name :: string
  hc_Matcher :: DecisionMatcher
  hc_Priority :: int

text \<open>The data of an event: the entry \<open>tool\<close> when it is a string, the call's id and its arguments.\<close>

record hookData =
  hk_tool :: "string option"
  hk_tool_id :: string
  hk_args :: tool_args

text \<open>The outcome of running a hook function: it panics, has no opinion, or decides.\<close>

datatype hookResult = Panics | NoOpinion | Decides HookDecision

record WrappedDecisionHook =
  wh_Config :: DecisionHookConfig
  wh_Fn :: "string \<Rightarrow> hookData \<Rightarrow> hookResult"

definition RegisterDecisionHook ::
  "WrappedDecisionHook list \<Rightarrow> (string \<Rightarrow> hookData \<Rightarrow> hookResult) \<Rightarrow> WrappedDecisionHook list" where
  "RegisterDecisionHook hooks fn = hooks @ [\<lparr>wh_Config = \<lparr>hc_Name = ''anonymous'',
     hc_Matcher = \<lparr>dm_Events = [], dm_ToolNames = []\<rparr>, hc_Priority = 100\<rparr>, wh_Fn = fn\<rparr>]"

abbreviation priority :: "WrappedDecisionHook \<Rightarrow> int" where
  "priority h \<equiv> hc_Priority (wh_Config h)"

definition swap :: "'a list \<Rightarrow> nat \<Rightarrow> nat \<Rightarrow> 'a list" where
  "swap xs i j = xs[i := xs ! j, j := xs ! i]"

function sortInner :: "nat \<Rightarrow> nat \<Rightarrow> WrappedDecisionHook list \<Rightarrow> WrappedDecisionHook list" where
  "sortInner i j hooks =
    (if j < length hooks
     then sortInner i (j + 1) (if priority (hooks ! j) < priority (hooks ! i) then swap hooks i j else hooks)
     else hooks)"
  by pat_completeness auto

termination
  by (relation "measure (\<lambda>(i, j, hooks). length hooks - j)") (auto simp: swap_def)

declare sortInner.simps [simp del]

lemma length_swap [simp]: "length (swap xs i j) = length xs"
  by (simp add: swap_def)

lemma length_sortInner [simp]: "length (sortInner i j hooks) = length hooks"
  by (induction i j hooks rule: sortInner.induct) (subst sortInner.simps, simp)

function sortOuter :: "nat \<Rightarrow> WrappedDecisionHook list \<Rightarrow> WrappedDecisionHook list" where
  "sortOuter i hooks = (if i < length hooks then sortOuter (i + 1) (sortInner i (i + 1) hooks) else hooks)"
  by pat_completeness auto

termination
  by (relation "measure (\<lambda>(i, hooks). length hooks - i)") auto

declare sortOuter.simps [simp del]

definition RegisterDecisionHookWithConfig ::
  "WrappedDecisionHook list \<Rightarrow> DecisionHookConfig \<Rightarrow> (string \<Rightarrow> hookData \<Rightarrow> hookResult) \<Rightarrow> WrappedDecisionHook list" where
  "RegisterDecisionHookWithConfig hooks config fn = sortOuter 0 (hooks @ [\<lparr>wh_Config = config, wh_Fn = fn\<rparr>])"

definition safeExecuteHook :: "WrappedDecisionHook \<Rightarrow> string \<Rightarrow> hookData \<Rightarrow> HookDecision option" where
  "safeExecuteHook h event data = (case wh_Fn h event data of Panics \<Rightarrow> None | NoOpinion \<Rightarrow> None | Decides d \<Rightarrow> Some d)"

fun executeHooks :: "WrappedDecisionHook list \<Rightarrow> string \<Rightarrow> hookData \<Rightarrow> string \<Rightarrow> HookDecision option" where
  "executeHooks [] event data toolName = None"
| "executeHooks (h # hs) event data toolName =
    (if \<not> matcher_Match (hc_Matcher (wh_Config h)) event toolName then executeHooks hs event data toolName
     else case safeExecuteHook h event data of
       Some d \<Rightarrow> Some d
     | None \<Rightarrow> executeHooks hs event data toolName)"

definition ExecuteDecisionHooks :: "WrappedDecisionHook list \<Rightarrow> string \<Rightarrow> hookData \<Rightarrow> HookDecision option" where
  "ExecuteDecisionHooks hooks event data =
    executeHooks hooks event data (case hk_tool data of Some n \<Rightarrow> n | None \<Rightarrow> [])"

section \<open>Canonical names are stable\<close>

lemma canonical_outputs:
  "CanonicalEvent s = s \<or> CanonicalEvent s \<in> set (map snd hookEvents @ map snd eventAliases)"
proof -
  have "e \<in> set (map snd hookEvents)" if "Option.bind (CanonicalHookEvent s) (map_of hookEvents) = Some e" for e
    using that by (auto simp: bind_eq_Some_conv dest!: map_of_SomeD intro!: image_eqI [where f = snd])
  moreover have "e \<in> set (map snd eventAliases)" if "map_of eventAliases n = Some e" for e n
    using map_of_SomeD [OF that] by (auto intro!: image_eqI [where f = snd])
  ultimately show ?thesis unfolding CanonicalEvent_def by (auto split: option.splits)
qed

lemma canonical_fixed:
  "list_all (\<lambda>e. CanonicalEvent e = e) (map snd hookEvents @ map snd eventAliases)"
  by code_simp

text \<open>
  Canonical event names are stable: canonicalising twice changes nothing, so a matcher may be written with
  any alias of an event or with its canonical name.
\<close>

theorem canonical_event_idem: "CanonicalEvent (CanonicalEvent s) = CanonicalEvent s"
  using canonical_outputs [of s] canonical_fixed unfolding list_all_iff by metis

section \<open>The registry is kept by priority\<close>

lemma mset_sortInner: "i < length hooks \<Longrightarrow> mset (sortInner i j hooks) = mset hooks"
proof (induction i j hooks rule: sortInner.induct)
  case (1 i j hooks)
  let ?next = "if priority (hooks ! j) < priority (hooks ! i) then swap hooks i j else hooks"
  have "mset ?next = mset hooks" if "j < length hooks" using "1.prems" that by (simp add: swap_def mset_swap)
  with 1 show ?case by (subst sortInner.simps) simp
qed

lemma mset_sortOuter: "mset (sortOuter i hooks) = mset hooks"
proof (induction i hooks rule: sortOuter.induct)
  case (1 i hooks)
  then show ?case by (subst sortOuter.simps) (simp add: mset_sortInner)
qed

text \<open>The inner loop moves a smallest hook of the rest to position \<open>i\<close> and leaves the hooks before it alone.\<close>

lemma sortInner_least:
  assumes "i < j" and "i < length hooks"
    and "\<And>k. i < k \<Longrightarrow> k < j \<Longrightarrow> k < length hooks \<Longrightarrow> priority (hooks ! i) \<le> priority (hooks ! k)"
  shows "take i (sortInner i j hooks) = take i hooks \<and>
    (\<forall>k < length hooks. i < k \<longrightarrow> priority (sortInner i j hooks ! i) \<le> priority (sortInner i j hooks ! k))"
  using assms
proof (induction i j hooks rule: sortInner.induct)
  case (1 i j hooks)
  show ?case
  proof (cases "j < length hooks")
    case True
    let ?next = "if priority (hooks ! j) < priority (hooks ! i) then swap hooks i j else hooks"
    have "priority (?next ! i) \<le> priority (?next ! k)" if "i < k" "k < Suc j" for k
      using "1.prems"(1,2) "1.prems"(3) [of k] that True by (cases "k = j") (auto simp: swap_def nth_list_update)
    then have "take i (sortInner i (j + 1) ?next) = take i ?next \<and>
        (\<forall>k < length ?next. i < k \<longrightarrow> priority (sortInner i (j + 1) ?next ! i) \<le> priority (sortInner i (j + 1) ?next ! k))"
      using "1.IH" [OF True] "1.prems"(1,2) by simp
    moreover have "take i ?next = take i hooks" "length ?next = length hooks"
      using "1.prems"(1) by (simp_all add: swap_def)
    moreover have "sortInner i j hooks = sortInner i (j + 1) ?next" using True by (subst sortInner.simps) simp
    ultimately show ?thesis by simp
  next
    case False
    then have "sortInner i j hooks = hooks" by (subst sortInner.simps) simp
    with "1.prems"(3) False show ?thesis by auto
  qed
qed

definition sorted_to :: "nat \<Rightarrow> WrappedDecisionHook list \<Rightarrow> bool" where
  "sorted_to i hooks \<longleftrightarrow> (\<forall>a < i. \<forall>b < length hooks. a < b \<longrightarrow> priority (hooks ! a) \<le> priority (hooks ! b))"

lemma sortInner_extends:
  assumes "sorted_to i hooks" and "i < length hooks"
  shows "sorted_to (i + 1) (sortInner i (i + 1) hooks)"
proof -
  let ?r = "sortInner i (i + 1) hooks"
  have r: "take i ?r = take i hooks" "\<And>k. k < length hooks \<Longrightarrow> i < k \<Longrightarrow> priority (?r ! i) \<le> priority (?r ! k)"
    using sortInner_least [of i "i + 1" hooks] assms(2) by auto
  have "mset (take i ?r) + mset (drop i ?r) = mset (take i hooks) + mset (drop i hooks)"
    using mset_sortInner [OF assms(2)] by (metis append_take_drop_id mset_append)
  then have rest: "set (drop i ?r) = set (drop i hooks)" unfolding r(1) by (metis add_left_cancel mset_eq_setD)
  have "priority (?r ! a) \<le> priority (?r ! b)" if "a < i" "a < b" "b < length hooks" for a b
  proof -
    have "?r ! a = hooks ! a" using r(1) that by (metis nth_take)
    moreover have "\<exists>c < length hooks. a < c \<and> ?r ! b = hooks ! c"
    proof (cases "b < i")
      case True
      then show ?thesis using r(1) that by (metis nth_take)
    next
      case False
      then have "?r ! b \<in> set (drop i ?r)" using that by (auto simp: in_set_conv_nth intro!: exI [of _ "b - i"])
      then obtain c where "c < length hooks - i" "hooks ! (i + c) = ?r ! b"
        unfolding rest by (auto simp: in_set_conv_nth)
      then show ?thesis using that by (intro exI [of _ "i + c"]) auto
    qed
    ultimately show ?thesis using assms(1) that by (auto simp: sorted_to_def)
  qed
  with r(2) show ?thesis unfolding sorted_to_def by (auto simp: less_Suc_eq)
qed

lemma sortOuter_sorted: "sorted_to i hooks \<Longrightarrow> sorted_to (length hooks) (sortOuter i hooks)"
proof (induction i hooks rule: sortOuter.induct)
  case (1 i hooks)
  show ?case
  proof (cases "i < length hooks")
    case True
    then show ?thesis using "1.IH" [OF True] sortInner_extends [OF "1.prems" True] by (subst sortOuter.simps) simp
  next
    case False
    with "1.prems" show ?thesis by (subst sortOuter.simps) (auto simp: sorted_to_def)
  qed
qed

abbreviation by_priority :: "WrappedDecisionHook list \<Rightarrow> bool" where
  "by_priority hooks \<equiv> sorted (map priority hooks)"

lemma by_priority_sorted_to: "by_priority hooks \<longleftrightarrow> sorted_to (length hooks) hooks"
  unfolding sorted_to_def sorted_iff_nth_mono_less by auto

text \<open>
  Registering a configured hook keeps every hook and puts the registry in order of priority, whatever its
  order was before.
\<close>

theorem register_sorted:
  "mset (RegisterDecisionHookWithConfig hooks config fn) = add_mset \<lparr>wh_Config = config, wh_Fn = fn\<rparr> (mset hooks)
    \<and> by_priority (RegisterDecisionHookWithConfig hooks config fn)"
proof -
  let ?all = "hooks @ [\<lparr>wh_Config = config, wh_Fn = fn\<rparr>]"
  have len: "length (sortOuter 0 ?all) = length ?all" using mset_sortOuter [of 0 ?all] by (metis size_mset)
  have "sorted_to (length ?all) (sortOuter 0 ?all)" by (rule sortOuter_sorted) (simp add: sorted_to_def)
  then show ?thesis
    unfolding RegisterDecisionHookWithConfig_def by_priority_sorted_to len by (simp add: mset_sortOuter)
qed

section \<open>Which hook decides\<close>

text \<open>The decision a hook would take on an event, if it applies and has an opinion.\<close>

definition opinion :: "string \<Rightarrow> hookData \<Rightarrow> WrappedDecisionHook \<Rightarrow> HookDecision option" where
  "opinion event data h =
    (if matcher_Match (hc_Matcher (wh_Config h)) event (case hk_tool data of Some n \<Rightarrow> n | None \<Rightarrow> [])
     then safeExecuteHook h event data else None)"

lemma execute_find:
  "ExecuteDecisionHooks hooks event data =
    Option.bind (find (\<lambda>h. opinion event data h \<noteq> None) hooks) (opinion event data)"
  unfolding ExecuteDecisionHooks_def
  by (induction hooks) (auto simp: opinion_def split: option.splits)

text \<open>
  In a registry ordered by priority the decision comes from a hook of smallest priority among those with an
  opinion; hooks that panic or have no opinion never decide, and there is no decision only when no hook has one.
\<close>

theorem execute_least_priority:
  assumes "by_priority hooks"
  shows "case ExecuteDecisionHooks hooks event data of
      None \<Rightarrow> list_all (\<lambda>h. opinion event data h = None) hooks
    | Some d \<Rightarrow> \<exists>h \<in> set hooks. opinion event data h = Some d \<and>
        list_all (\<lambda>h'. opinion event data h' = None \<or> priority h \<le> priority h') hooks"
  using assms
proof (induction hooks)
  case (Cons h hooks)
  show ?case
  proof (cases "opinion event data h")
    case None
    with Cons show ?thesis by (auto simp: execute_find split: option.splits)
  next
    case (Some d)
    with Cons.prems show ?thesis by (auto simp: execute_find list_all_iff)
  qed
qed (simp add: execute_find)

theorem execute_least_priority_witness:
  "ExecuteDecisionHooks (RegisterDecisionHookWithConfig
       [\<lparr>wh_Config = \<lparr>hc_Name = ''b'', hc_Matcher = \<lparr>dm_Events = [''PreToolUse''], dm_ToolNames = []\<rparr>, hc_Priority = 2\<rparr>,
         wh_Fn = \<lambda>_ _. Decides hook_Allow\<rparr>]
       \<lparr>hc_Name = ''a'', hc_Matcher = \<lparr>dm_Events = [''pre_tool''], dm_ToolNames = []\<rparr>, hc_Priority = 1\<rparr>
       (\<lambda>_ _. Decides (hook_Deny ''no'')))
     EventPreTool \<lparr>hk_tool = Some ''Bash'', hk_tool_id = [], hk_args = Map.empty\<rparr> = Some (hook_Deny ''no'')"
proof -
  let ?hooks = "RegisterDecisionHookWithConfig
       [\<lparr>wh_Config = \<lparr>hc_Name = ''b'', hc_Matcher = \<lparr>dm_Events = [''PreToolUse''], dm_ToolNames = []\<rparr>, hc_Priority = 2\<rparr>,
         wh_Fn = \<lambda>_ _. Decides hook_Allow\<rparr>]
       \<lparr>hc_Name = ''a'', hc_Matcher = \<lparr>dm_Events = [''pre_tool''], dm_ToolNames = []\<rparr>, hc_Priority = 1\<rparr>
       (\<lambda>_ _. Decides (hook_Deny ''no''))"
  have ev: "EventsMatch ''PreToolUse'' EventPreTool" "EventsMatch ''pre_tool'' EventPreTool" by code_simp+
  have "by_priority ?hooks" using register_sorted by blast
  note th = execute_least_priority [OF this, of EventPreTool "\<lparr>hk_tool = Some ''Bash'', hk_tool_id = [], hk_args = Map.empty\<rparr>"]
  have "set ?hooks = set_mset (mset ?hooks)" by simp
  then have s: "set ?hooks = {\<lparr>wh_Config = \<lparr>hc_Name = ''a'', hc_Matcher = \<lparr>dm_Events = [''pre_tool''], dm_ToolNames = []\<rparr>, hc_Priority = 1\<rparr>,
       wh_Fn = \<lambda>_ _. Decides (hook_Deny ''no'')\<rparr>,
     \<lparr>wh_Config = \<lparr>hc_Name = ''b'', hc_Matcher = \<lparr>dm_Events = [''PreToolUse''], dm_ToolNames = []\<rparr>, hc_Priority = 2\<rparr>,
         wh_Fn = \<lambda>_ _. Decides hook_Allow\<rparr>}"
    unfolding register_sorted [THEN conjunct1] by simp
  from th show ?thesis unfolding list_all_iff s
    by (simp add: opinion_def matcher_Match_def ev safeExecuteHook_def split: option.splits)
qed

text \<open>
  A hook registered without a configuration is appended with priority 100 and not sorted in: after a hook of
  priority 200 it is evaluated second, so an allowing hook of priority 200 hides a denying one of priority 100.
\<close>

theorem anonymous_hook_unsorted:
  fixes config
  defines "config \<equiv> \<lparr>hc_Name = ''late'', hc_Matcher = \<lparr>dm_Events = [], dm_ToolNames = []\<rparr>, hc_Priority = 200\<rparr>"
  defines "hooks \<equiv> RegisterDecisionHook (RegisterDecisionHookWithConfig [] config (\<lambda>_ _. Decides hook_Allow)) (\<lambda>_ _. Decides (hook_Deny ''no''))"
  shows "\<not> by_priority hooks \<and> ExecuteDecisionHooks hooks event data = Some hook_Allow"
proof -
  have "sortOuter 0 [h] = [h]" for h by (simp add: sortOuter.simps sortInner.simps)
  then show ?thesis
    by (simp add: hooks_def config_def RegisterDecisionHook_def RegisterDecisionHookWithConfig_def
        ExecuteDecisionHooks_def matcher_Match_def safeExecuteHook_def)
qed

end
