(* ===== verification/Permission_Metrics.thy ===== *)
theory Permission_Metrics
  imports Go_Prelude "HOL-Library.AList"
begin

text \<open>
  Counters of permission decisions, from \<open>internal/observability/metrics/permission_metrics.go\<close>. A Go map from
  a label to a counter is an association list; the counters are integers, since 64-bit overflow would take
  more decisions than a session can make.
\<close>

record PermissionMetrics =
  mt_decisions :: "(string \<times> int) list"
  mt_bypass :: "(string \<times> int) list"
  mt_governanceDenials :: "(string \<times> int) list"
  mt_autonomyLevel :: int

definition NewPermissionMetrics :: PermissionMetrics where
  "NewPermissionMetrics = \<lparr>mt_decisions = [(''allow'', 0), (''deny'', 0), (''ask'', 0)], mt_bypass = [],
     mt_governanceDenials = [], mt_autonomyLevel = 0\<rparr>"

text \<open>Adding one to a counter that exists, and counting a label that may be new.\<close>

definition addExisting :: "string \<Rightarrow> (string \<times> int) list \<Rightarrow> (string \<times> int) list" where
  "addExisting k m = (case map_of m k of Some v \<Rightarrow> AList.update k (v + 1) m | None \<Rightarrow> m)"

definition addLabel :: "string \<Rightarrow> (string \<times> int) list \<Rightarrow> (string \<times> int) list" where
  "addLabel k m = (case map_of m k of Some v \<Rightarrow> AList.update k (v + 1) m | None \<Rightarrow> AList.update k 1 m)"

definition RecordDecision :: "PermissionMetrics \<Rightarrow> string \<Rightarrow> string \<Rightarrow> PermissionMetrics" where
  "RecordDecision pm outcome reason = pm\<lparr>mt_decisions := addExisting reason (addExisting outcome (mt_decisions pm))\<rparr>"

definition RecordBypass :: "PermissionMetrics \<Rightarrow> string \<Rightarrow> PermissionMetrics" where
  "RecordBypass pm scope = pm\<lparr>mt_bypass := addLabel scope (mt_bypass pm)\<rparr>"

definition RecordGovernanceDenial :: "PermissionMetrics \<Rightarrow> string \<Rightarrow> PermissionMetrics" where
  "RecordGovernanceDenial pm tool = pm\<lparr>mt_governanceDenials := addLabel tool (mt_governanceDenials pm)\<rparr>"

definition SetAutonomyLevel :: "PermissionMetrics \<Rightarrow> int \<Rightarrow> PermissionMetrics" where
  "SetAutonomyLevel pm level = pm\<lparr>mt_autonomyLevel := level\<rparr>"

definition metrics_Snapshot :: "PermissionMetrics \<Rightarrow> (string \<times> int) list" where
  "metrics_Snapshot pm =
    map (\<lambda>(k, v). (''decision.'' @ k, v)) (mt_decisions pm) @
    map (\<lambda>(k, v). (''bypass.'' @ k, v)) (mt_bypass pm) @
    map (\<lambda>(k, v). (''governance_denial.'' @ k, v)) (mt_governanceDenials pm) @
    [(''autonomy_level'', mt_autonomyLevel pm)]"

section \<open>Counting\<close>

definition counter :: "(string \<times> int) list \<Rightarrow> string \<Rightarrow> int" where
  "counter m k = (case map_of m k of Some v \<Rightarrow> v | None \<Rightarrow> 0)"

lemma map_of_addExisting:
  "map_of (addExisting k m) x = (if x = k then map_option (\<lambda>v. v + 1) (map_of m k) else map_of m x)"
  by (auto simp: addExisting_def update_conv' split: option.splits)

lemma counter_addLabel [simp]: "counter (addLabel k m) x = counter m x + (if x = k then 1 else 0)"
  by (auto simp: addLabel_def counter_def update_conv' split: option.splits)

lemma labels_addExisting [simp]: "dom (map_of (addExisting k m)) = dom (map_of m)"
  by (auto simp: map_of_addExisting split: if_splits)

lemma counter_addExisting:
  "counter (addExisting k m) x = counter m x + (if x = k \<and> x \<in> dom (map_of m) then 1 else 0)"
  by (auto simp: counter_def map_of_addExisting split: option.splits)

text \<open>The decisions of a session in order, as outcome and reason, counted from the start.\<close>

definition recordAll :: "(string \<times> string) list \<Rightarrow> PermissionMetrics" where
  "recordAll ds = foldl (\<lambda>pm (outcome, reason). RecordDecision pm outcome reason) NewPermissionMetrics ds"

lemma recordAll_labels: "dom (map_of (mt_decisions (recordAll ds))) = {''allow'', ''deny'', ''ask''}"
proof (induction ds rule: rev_induct)
  case Nil
  then show ?case unfolding dom_map_of_conv_image_fst by (simp add: recordAll_def NewPermissionMetrics_def)
next
  case (snoc d ds)
  obtain outcome reason where d: "d = (outcome, reason)" by (cases d)
  from snoc show ?case by (simp add: recordAll_def d RecordDecision_def)
qed

text \<open>
  The counters by outcome are exact: each counts the decisions with that outcome (and those whose reason is the
  same word, which no reason of the engine is). There is a counter for no other word, so the decisions are
  never counted by reason.
\<close>

theorem decision_counters_exact:
  "counter (mt_decisions (recordAll ds)) k =
    (if k \<in> {''allow'', ''deny'', ''ask''}
     then int (length (filter (\<lambda>(o1, _). o1 = k) ds) + length (filter (\<lambda>(_, r). r = k) ds)) else 0)"
proof (induction ds rule: rev_induct)
  case Nil
  then show ?case by (simp add: recordAll_def NewPermissionMetrics_def counter_def)
next
  case (snoc d ds)
  obtain outcome reason where d: "d = (outcome, reason)" by (cases d)
  have step: "mt_decisions (recordAll (ds @ [d])) = addExisting reason (addExisting outcome (mt_decisions (recordAll ds)))"
    by (simp add: recordAll_def d RecordDecision_def)
  show ?case unfolding step counter_addExisting labels_addExisting recordAll_labels snoc.IH by (simp add: d)
qed

end
