(* ===== verification/Permission_Engine.thy ===== *)
theory Permission_Engine
  imports Autonomy Governance Spec_Workflow Permission_Audit Permission_Metrics Auto_Mode Command_Screen Decision_Hooks
begin

text \<open>
  The permission engine, from \<open>internal/engine/safety/permission_engine.go\<close>: \<open>evaluateToolDecision\<close> with every
  gate in the order of the code, the entry points \<open>CheckToolDecision\<close>, \<open>CheckToolSnapshot\<close> and
  \<open>EvaluateTool\<close>, and the copies they evaluate on.

  Engines and their copies share objects by pointer. The rule memories are a list of objects and a pointer to
  one is its position; there is one learned state, one bypass switch, one set of counters and one audit
  buffer per session, held in \<open>objects\<close>, and for those that may be nil the engine says whether it has the
  pointer. \<open>BypassKill\<close> is never nil: every constructor and every copy sets it. What a call reads from outside
  is the record \<open>env\<close>: the time, the host, the files of the spec, the hooks, the environment variable
  \<open>HAWK_SANDBOX_NETWORK\<close>; one evaluation sees one instant. The prompt is a function from the request to the
  answer, a cancellation or the time-out.
\<close>

section \<open>Data\<close>

type_synonym DecisionOutcome = string
type_synonym DecisionReason = string

definition DecisionAllow :: DecisionOutcome where
  "DecisionAllow = ''allow''"

definition DecisionAsk :: DecisionOutcome where
  "DecisionAsk = ''ask''"

definition DecisionDeny :: DecisionOutcome where
  "DecisionDeny = ''deny''"

definition ReasonDryRun :: DecisionReason where
  "ReasonDryRun = ''dry_run''"

definition ReasonHookDenied :: DecisionReason where
  "ReasonHookDenied = ''hook_denied''"

definition ReasonSandbox :: DecisionReason where
  "ReasonSandbox = ''sandbox''"

definition ReasonSpecGate :: DecisionReason where
  "ReasonSpecGate = ''spec_gate''"

definition ReasonRuleDenied :: DecisionReason where
  "ReasonRuleDenied = ''rule_denied''"

definition ReasonAutoModeDenied :: DecisionReason where
  "ReasonAutoModeDenied = ''auto_mode_denied''"

definition ReasonRuleAllowed :: DecisionReason where
  "ReasonRuleAllowed = ''rule_allowed''"

definition ReasonAutoModeAllowed :: DecisionReason where
  "ReasonAutoModeAllowed = ''auto_mode_allowed''"

definition ReasonGrantAllowed :: DecisionReason where
  "ReasonGrantAllowed = ''grant_allowed''"

definition ReasonGrantDenied :: DecisionReason where
  "ReasonGrantDenied = ''grant_denied''"

definition ReasonAutonomy :: DecisionReason where
  "ReasonAutonomy = ''autonomy''"

definition ReasonBypass :: DecisionReason where
  "ReasonBypass = ''bypass''"

definition ReasonClassifiedSafe :: DecisionReason where
  "ReasonClassifiedSafe = ''classified_safe''"

definition ReasonUserPrompt :: DecisionReason where
  "ReasonUserPrompt = ''user_prompt''"

definition ReasonPromptUnavailable :: DecisionReason where
  "ReasonPromptUnavailable = ''prompt_unavailable''"

definition ReasonGovernance :: DecisionReason where
  "ReasonGovernance = ''governance''"

record Decision =
  de_Outcome :: DecisionOutcome
  de_Reason :: DecisionReason
  de_Message :: string
  de_MatchedRule :: string
  de_Capabilities :: "Capability list"
  de_Risk :: RiskLevel
  de_Revision :: u64

definition decision :: "DecisionOutcome \<Rightarrow> DecisionReason \<Rightarrow> string \<Rightarrow> Decision" where
  "decision outcome reason message = \<lparr>de_Outcome = outcome, de_Reason = reason, de_Message = message,
     de_MatchedRule = [], de_Capabilities = [], de_Risk = [], de_Revision = 0\<rparr>"

abbreviation "allow reason \<equiv> decision DecisionAllow reason []"
abbreviation "deny \<equiv> decision DecisionDeny"

record PermissionRequest =
  pr_ToolName :: string
  pr_ToolID :: string
  pr_Summary :: string

datatype promptAnswer = Answered bool | PromptCancelled | PromptTimedOut

text \<open>A store behind the unified view: the rule memory at a position, the learned state, or a wrapped function.\<close>

datatype GrantStore = MemoryStore nat | AutoModeStore | FuncGrantStore "Grant list"

record objects =
  ob_memories :: "PermissionMemory list"
  ob_auto :: AutoModeState
  ob_bypass :: BypassKillswitch
  ob_metrics :: PermissionMetrics
  ob_audit :: permissionAuditLog

definition memoryAt :: "objects \<Rightarrow> nat \<Rightarrow> PermissionMemory" where
  "memoryAt ob r = (if r < length (ob_memories ob) then ob_memories ob ! r else NewPermissionMemory)"

definition storeGrants :: "objects \<Rightarrow> GrantStore \<Rightarrow> Grant list" where
  "storeGrants ob st = (case st of MemoryStore r \<Rightarrow> memory_Grants (memoryAt ob r)
     | AutoModeStore \<Rightarrow> auto_Grants (ob_auto ob) | FuncGrantStore gs \<Rightarrow> gs)"

record PermissionEngine = spec_state +
  pe_Memory :: "nat option"
  pe_AutoMode :: bool
  pe_Classifier :: "Classifier option"
  pe_Autonomy :: AutonomyLevel
  pe_AutonomyExplicit :: bool
  pe_SandboxMode :: string
  pe_DryRun :: bool
  pe_PromptFn :: "(PermissionRequest \<Rightarrow> promptAnswer) option"
  pe_Governance :: "gov_Engine option"
  pe_UnifiedGrants :: "GrantStore list option"
  pe_Profile :: "AutonomyProfile option"
  pe_neverAllow :: "string list"
  pe_specAllowTests :: bool
  pe_Metrics :: bool
  pe_auditLog :: bool

record env =
  en_now :: gotime
  en_host :: host
  en_home :: string
  en_files :: spec_files
  en_network :: string
  en_hooks :: "WrappedDecisionHook list"

text \<open>\<open>NewPermissionEngine\<close>, with the objects it creates.\<close>

definition NewPermissionEngine :: "PermissionEngine \<times> objects" where
  "NewPermissionEngine =
    (\<lparr>pe_Stage = SpecStageNone, pe_specDone = 0, pe_SpecSlug = [], pe_Phase = 0, pe_Phases = 0,
      pe_convergeChecked = False, pe_Revision = 0, pe_Memory = Some 0, pe_AutoMode = True,
      pe_Classifier = Some NewClassifier, pe_Autonomy = 0, pe_AutonomyExplicit = False, pe_SandboxMode = [],
      pe_DryRun = False, pe_PromptFn = None, pe_Governance = Some gov_New,
      pe_UnifiedGrants = Some [MemoryStore 0, AutoModeStore], pe_Profile = Some (ProfileFromLevel 0),
      pe_neverAllow = [], pe_specAllowTests = False, pe_Metrics = True, pe_auditLog = True\<rparr>,
     \<lparr>ob_memories = [NewPermissionMemory], ob_auto = NewAutoModeState, ob_bypass = NewBypassKillswitch,
      ob_metrics = NewPermissionMetrics, ob_audit = newPermissionAuditLog 256\<rparr>)"

section \<open>Gates\<close>

definition ModeStrict :: string where
  "ModeStrict = ''strict''"

definition ModeAllowsNetwork :: "string \<Rightarrow> string \<Rightarrow> bool" where
  "ModeAllowsNetwork net m = (let v = ToLower (TrimSpace net) in
     if v \<in> set [''0'', ''off'', ''no'', ''false''] then False
     else if v \<in> set [''1'', ''on'', ''yes'', ''true''] then True
     else m \<noteq> ModeStrict)"

definition strictToolAllowed :: "ToolCallInfo \<Rightarrow> bool" where
  "strictToolAllowed tc = (let name = canonicalToolName (tc_Name tc) in
     if IsReadOnly (tc_Name tc) \<or> name = ''ApproveImplementation'' then True
     else if name \<in> set [''AskUserQuestion'', ''SpecStatus'', ''SpecList'', ''Clarify'', ''Analyze'', ''Checklist'',
       ''Constitution'', ''Converge''] then True
     else if name = ''SpecConfig''
     then ToLower (TrimSpace (case str_arg (tc_Args tc) ''action'' of Some a \<Rightarrow> a | None \<Rightarrow> [])) \<noteq> ''set''
     else False)"

text \<open>The reason of a denying hook, if one denies.\<close>

definition checkPreToolHooks :: "env \<Rightarrow> ToolCallInfo \<Rightarrow> string option" where
  "checkPreToolHooks en tc =
    (case ExecuteDecisionHooks (en_hooks en) EventPreTool
        \<lparr>hk_tool = Some (tc_Name tc), hk_tool_id = tc_ID tc, hk_args = tc_Args tc\<rparr> of
       None \<Rightarrow> None
     | Some d \<Rightarrow>
        if hd_Action d = Decision_Hooks.ActionDeny then
          Some (if hd_Message d \<noteq> [] then hd_Message d else if hd_Reason d \<noteq> [] then hd_Reason d
                else ''Permission denied (PreToolUse hook).'')
        else None)"

definition checkNeverAllow :: "'a PermissionEngine_scheme \<Rightarrow> string \<Rightarrow> string \<Rightarrow> string option" where
  "checkNeverAllow pe toolName summary =
    find (\<lambda>spec. case parseRuleSpec spec of (t, pattern) \<Rightarrow>
      (t = ''*'' \<or> t = canonicalToolName toolName) \<and> (pattern = [] \<or> matchRulePattern pattern summary)) (pe_neverAllow pe)"

definition safePrefixes :: "string list" where
  "safePrefixes = [''go test'', ''npm test'', ''npm run test'', ''pytest'', ''cargo test'', ''mix test'', ''bun test'',
     ''deno test'', ''npx jest'', ''npx vitest'', ''make test'', ''bundle exec rspec'']"

definition isSafeTestCommand :: "string \<Rightarrow> bool" where
  "isSafeTestCommand cmd \<longleftrightarrow> list_ex (HasPrefix (TrimSpace (ToLower cmd))) safePrefixes"

definition promptDecisionWithSummary :: "'a PermissionEngine_scheme \<Rightarrow> ToolCallInfo \<Rightarrow> string \<Rightarrow> Decision" where
  "promptDecisionWithSummary pe tc summary = (case pe_PromptFn pe of
     None \<Rightarrow> deny ReasonPromptUnavailable ''Permission prompt unavailable.''
   | Some ask \<Rightarrow>
      (case ask \<lparr>pr_ToolName = tc_Name tc, pr_ToolID = tc_ID tc, pr_Summary = summary\<rparr> of
         Answered allowed \<Rightarrow> if \<not> allowed then deny ReasonUserPrompt ''Permission denied by user.''
           else allow ReasonUserPrompt
       | PromptCancelled \<Rightarrow> deny ReasonUserPrompt ''Permission prompt cancelled.''
       | PromptTimedOut \<Rightarrow> deny ReasonUserPrompt ''Permission prompt timed out.''))"

definition promptDecision :: "'a PermissionEngine_scheme \<Rightarrow> ToolCallInfo \<Rightarrow> Decision" where
  "promptDecision pe tc = promptDecisionWithSummary pe tc (ToolSummary (tc_Name tc) (tc_Args tc))"

definition specPreview :: "spec_files \<Rightarrow> string \<Rightarrow> string \<Rightarrow> string" where
  "specPreview files slug f = (case files slug f of None \<Rightarrow> []
   | Some content \<Rightarrow>
      (let preview = TrimSpace content;
           shown = (if 300 < length preview then take 300 preview @ ''...'' else preview)
       in ''## '' @ f @ [CHR 0x0A] @ shown @ [CHR 0x0A, CHR 0x0A]))"

definition specApprovalSummary :: "spec_files \<Rightarrow> string \<Rightarrow> string" where
  "specApprovalSummary files slug =
    (if slug = [] then ''ApproveImplementation''
     else let b = concat (map (specPreview files slug) [''proposal.md'', ''spec.md'', ''design.md'', ''plan.md'', ''tasks.md'']) @
            (if 0 < detectPhases files slug then ''Phases: '' @ show_nat (detectPhases files slug) @ [CHR 0x0A] else [])
          in if b = [] then ''ApproveImplementation'' else TrimSpace b)"

definition specTools :: "string list" where
  "specTools = [''Proposal'', ''Specify'', ''Design'', ''Plan'', ''Tasks'', ''AskUserQuestion'', ''SpecStatus'', ''SpecEdit'',
     ''SpecList'', ''SpecReset'', ''SpecConfig'', ''Clarify'', ''Analyze'', ''Checklist'', ''Constitution'', ''Converge'']"

text \<open>The spec-stage gate decides every call while a workflow is active and not yet implementing.\<close>

definition specGate :: "env \<Rightarrow> 'a PermissionEngine_scheme \<Rightarrow> ToolCallInfo \<Rightarrow> Decision option" where
  "specGate en pe tc =
    (if pe_Stage pe = SpecStageNone \<or> pe_Stage pe = SpecStageImplementing then None
     else let toolName = canonicalToolName (tc_Name tc) in
       if toolName \<in> set specTools then
         (if \<not> specToolAllowed (en_files en) pe toolName
          then Some (deny ReasonSpecGate (specStageReason (en_files en) pe toolName))
          else Some (allow ReasonSpecGate))
       else if toolName = ''ApproveImplementation'' then
         (if pe_Stage pe \<noteq> SpecStageTasks
          then Some (deny ReasonSpecGate ''Spec stage active: ApproveImplementation is available only after Tasks completes.'')
          else Some (promptDecisionWithSummary pe tc (specApprovalSummary (en_files en) (pe_SpecSlug pe))))
       else if IsReadOnly (tc_Name tc) then Some (allow ReasonSpecGate)
       else if pe_specAllowTests pe \<and> tc_Name tc = ''Bash''
         \<and> (case str_arg (tc_Args tc) ''command'' of Some cmd \<Rightarrow> isSafeTestCommand cmd | None \<Rightarrow> False)
       then Some (allow ReasonSpecGate)
       else Some (deny ReasonSpecGate ''Spec stage active: only spec workflow tools (and reads) are allowed until ApproveImplementation.''))"

definition destructiveCall :: "ToolCallInfo \<Rightarrow> bool" where
  "destructiveCall tc \<longleftrightarrow> canonicalToolName (tc_Name tc) = ''Bash'' \<and>
    (case str_arg (tc_Args tc) ''command'' of Some cmd \<Rightarrow> IsDestructiveCommand cmd | None \<Rightarrow> False)"

text \<open>Remembered decisions: the unified view, or the rule memory and the learned state one by one.\<close>

definition rememberedDecision :: "env \<Rightarrow> 'a PermissionEngine_scheme \<Rightarrow> objects \<Rightarrow> ToolCallInfo \<Rightarrow> string \<Rightarrow> Decision option" where
  "rememberedDecision en pe ob tc summary = (case pe_UnifiedGrants pe of
     Some stores \<Rightarrow>
       (case unified_Check (map (storeGrants ob) stores) (tc_Name tc) summary (en_now en) of (allowed, found) \<Rightarrow>
          if found then Some (if allowed then allow ReasonGrantAllowed else deny ReasonGrantDenied ''Permission denied (rule).'')
          else None)
   | None \<Rightarrow>
       (let memoryDecision = Option.bind (pe_Memory pe) (\<lambda>r. memory_Check (memoryAt ob r) (tc_Name tc) summary);
            autoDecision = (if pe_AutoMode pe then learnedDecision (ob_auto ob) (tc_Name tc) summary else None)
        in if memoryDecision = Some False then Some (deny ReasonRuleDenied ''Permission denied (rule).'')
           else if autoDecision = Some False then Some (deny ReasonAutoModeDenied ''Permission denied (auto-mode).'')
           else if memoryDecision = Some True then Some (allow ReasonRuleAllowed)
           else if autoDecision = Some True then Some (allow ReasonAutoModeAllowed)
           else None))"

text \<open>The profile follows the tier.\<close>

definition syncProfile :: "PermissionEngine \<Rightarrow> PermissionEngine" where
  "syncProfile pe = (case pe_Profile pe of
     Some p \<Rightarrow> if ap_Level p \<noteq> pe_Autonomy pe then pe\<lparr>pe_Profile := Some (ProfileFromLevel (pe_Autonomy pe))\<rparr> else pe
   | None \<Rightarrow> pe)"

definition needsConfirmation :: "env \<Rightarrow> PermissionEngine \<Rightarrow> ToolCallInfo \<Rightarrow> bool" where
  "needsConfirmation en pe tc =
    (let isSafe = \<not> ToolNeedsPermission (IsSuspicious (en_host en)) (tc_Name tc) (tc_Args tc) in
     case pe_Profile pe of
       Some p \<Rightarrow> profile_NeedsPermission p (tc_Name tc) isSafe
     | None \<Rightarrow> config_NeedsPermission (PresetConfig (pe_Autonomy pe)) (tc_Name tc) isSafe)"

text \<open>\<open>strings.Join(elems, ",")\<close>\<close>

fun joinComma :: "string list \<Rightarrow> string" where
  "joinComma [] = []"
| "joinComma [x] = x"
| "joinComma (x # xs) = x @ '','' @ joinComma xs"

definition bypassScope :: "BypassGrant option \<Rightarrow> string" where
  "bypassScope g = (case g of None \<Rightarrow> ''all''
     | Some grant \<Rightarrow> if bg_Scope grant = [] then ''all'' else joinComma (bg_Scope grant))"

text \<open>The bypass switch when it is on: expire it, or ask outside its scope, or allow.\<close>

definition bypassDecision :: "env \<Rightarrow> PermissionEngine \<Rightarrow> objects \<Rightarrow> ToolCallInfo \<Rightarrow> Decision \<times> objects" where
  "bypassDecision en pe ob tc =
    (let grant = bypass_Grant (ob_bypass ob);
         used = (deny ReasonBypass ''bypass: permission checks bypassed'')\<lparr>de_Outcome := DecisionAllow\<rparr>;
         counted = (if pe_Metrics pe then ob\<lparr>ob_metrics := RecordBypass (ob_metrics ob) (bypassScope grant)\<rparr> else ob)
     in case grant of
          None \<Rightarrow> (used, counted)
        | Some g \<Rightarrow>
            if IsExpired g (en_now en) then (promptDecision pe tc, ob\<lparr>ob_bypass := Disable (ob_bypass ob)\<rparr>)
            else if \<not> Covers g (ToolCategory (tc_Name tc)) then (promptDecision pe tc, ob)
            else (used, counted))"

text \<open>What is left after the gates and the remembered decisions: the tier, the bypass, the classifier, the user.\<close>

definition discretionary :: "env \<Rightarrow> PermissionEngine \<Rightarrow> objects \<Rightarrow> ToolCallInfo \<Rightarrow> string \<Rightarrow> Decision \<times> objects" where
  "discretionary en pe ob tc summary =
    (if \<not> needsConfirmation en pe tc then (allow ReasonAutonomy, ob)
     else if IsEnabled (ob_bypass ob) then bypassDecision en pe ob tc
     else if tc_Name tc = ''Bash'' \<and> (case pe_Classifier pe of Some c \<Rightarrow> Classify c summary = ''safe'' | None \<Rightarrow> False)
     then (allow ReasonClassifiedSafe, ob)
     else (promptDecision pe tc, ob))"

definition governanceDenial :: "env \<Rightarrow> PermissionEngine \<Rightarrow> ToolCallInfo \<Rightarrow> string option" where
  "governanceDenial en pe tc = (case pe_Governance pe of None \<Rightarrow> None
   | Some g \<Rightarrow> (let d = gov_Evaluate (en_home en) g (tc_Name tc) (ToolSummary (tc_Name tc) (tc_Args tc)) in
       if gd_Allowed d then None else Some (gd_Reason d)))"

definition evaluateToolDecision :: "env \<Rightarrow> PermissionEngine \<Rightarrow> objects \<Rightarrow> ToolCallInfo \<Rightarrow> Decision \<times> PermissionEngine \<times> objects" where
  "evaluateToolDecision en pe ob tc =
    (if pe_DryRun pe then (deny ReasonDryRun ''dry-run: tool execution disabled'', pe, ob)
     else case governanceDenial en pe tc of
       Some reason \<Rightarrow> (deny ReasonGovernance reason, pe,
         if pe_Metrics pe then ob\<lparr>ob_metrics := RecordGovernanceDenial (ob_metrics ob) (tc_Name tc)\<rparr> else ob)
     | None \<Rightarrow>
     (case checkPreToolHooks en tc of
       Some reason \<Rightarrow> (deny ReasonHookDenied reason, pe, ob)
     | None \<Rightarrow>
      if pe_SandboxMode pe = ModeStrict \<and> \<not> strictToolAllowed tc
      then (deny ReasonSandbox ''Sandbox strict mode: tool execution is read-only.'', pe, ob)
      else if isNetworkTool (tc_Name tc) \<and> \<not> ModeAllowsNetwork (en_network en) (pe_SandboxMode pe)
      then (deny ReasonSandbox (''network access denied by sandbox '' @ pe_SandboxMode pe @ '' mode''), pe, ob)
      else
     (case specGate en pe tc of
       Some d \<Rightarrow> (d, pe, ob)
     | None \<Rightarrow>
      (let summary = ToolSummary (tc_Name tc) (tc_Args tc) in
       case checkNeverAllow pe (tc_Name tc) summary of
         Some spec \<Rightarrow> (deny ReasonRuleDenied (''denied by personal ceiling: '' @ spec), pe, ob)
       | None \<Rightarrow>
        if destructiveCall tc
        then (deny ReasonRuleDenied ''denied: destructive command is blocked even with bypass/autonomy enabled'', pe, ob)
        else case rememberedDecision en pe ob tc summary of
          Some d \<Rightarrow> (d, pe, ob)
        | None \<Rightarrow>
          (let pe1 = syncProfile pe in
           case discretionary en pe1 ob tc summary of (d, ob1) \<Rightarrow> (d, pe1, ob1))))))"

section \<open>Entry points\<close>

definition stamp :: "PermissionEngine \<Rightarrow> ToolCallInfo \<Rightarrow> Decision \<Rightarrow> Decision" where
  "stamp pe tc d = d\<lparr>de_Capabilities := tp_Capabilities (ToolPolicyFor (tc_Name tc)),
     de_Risk := tp_DefaultRisk (ToolPolicyFor (tc_Name tc)), de_Revision := pe_Revision pe\<rparr>"

definition recordOutcome :: "env \<Rightarrow> PermissionEngine \<Rightarrow> ToolCallInfo \<Rightarrow> Decision \<Rightarrow> objects \<Rightarrow> objects" where
  "recordOutcome en pe tc d ob =
    (let ob1 = (if pe_Metrics pe then ob\<lparr>ob_metrics := RecordDecision (ob_metrics ob) (de_Outcome d) (de_Reason d)\<rparr> else ob)
     in if pe_auditLog pe
        then ob1\<lparr>ob_audit := the (audit_record (Some (ob_audit ob1)) (en_now en) (tc_Name tc)
               (ToolSummary (tc_Name tc) (tc_Args tc)) (de_Outcome d) (de_Reason d))\<rparr>
        else ob1)"

definition CheckToolDecision :: "env \<Rightarrow> PermissionEngine \<Rightarrow> objects \<Rightarrow> ToolCallInfo \<Rightarrow> Decision \<times> PermissionEngine \<times> objects" where
  "CheckToolDecision en pe ob tc = (case evaluateToolDecision en pe ob tc of (d0, pe1, ob1) \<Rightarrow>
     (let d = stamp pe1 tc d0 in (d, pe1, recordOutcome en pe1 tc d ob1)))"

definition CheckTool :: "env \<Rightarrow> PermissionEngine \<Rightarrow> objects \<Rightarrow> ToolCallInfo \<Rightarrow> (bool \<times> string) \<times> PermissionEngine \<times> objects" where
  "CheckTool en pe ob tc = (case CheckToolDecision en pe ob tc of (d, s) \<Rightarrow>
     ((de_Outcome d = DecisionAllow, de_Message d), s))"

text \<open>A copy has no never-allow rules and no record of completed spec stages.\<close>

definition engine_Copy :: "PermissionEngine \<Rightarrow> PermissionEngine" where
  "engine_Copy pe = pe\<lparr>pe_specDone := 0, pe_convergeChecked := False, pe_neverAllow := []\<rparr>"

text \<open>\<open>EvaluateTool\<close>: its clone also lacks the learned state and the prompt. The engine itself is unchanged.\<close>

definition EvaluateTool :: "env \<Rightarrow> PermissionEngine \<Rightarrow> objects \<Rightarrow> ToolCallInfo \<Rightarrow> Decision \<times> objects" where
  "EvaluateTool en pe ob tc =
    (case CheckToolDecision en ((engine_Copy pe)\<lparr>pe_AutoMode := False, pe_PromptFn := None\<rparr>) ob tc of (d, _, ob1) \<Rightarrow>
       (if de_Reason d = ReasonPromptUnavailable
        then d\<lparr>de_Outcome := DecisionAsk, de_Reason := ReasonUserPrompt, de_Message := ''Permission approval required.''\<rparr>
        else d, ob1))"

record PolicySnapshot =
  ps_Autonomy :: AutonomyLevel
  ps_AutonomyExplicit :: bool
  ps_SandboxMode :: string
  ps_Stage :: SpecStage
  ps_DryRun :: bool
  ps_SpecSlug :: string
  ps_Phase :: int
  ps_Phases :: int
  ps_Revision :: u64
  ps_Rules :: RuleSnapshot
  ps_AllowedDirs :: "string list"

definition engine_Snapshot :: "PermissionEngine \<Rightarrow> objects \<Rightarrow> PolicySnapshot" where
  "engine_Snapshot pe ob = \<lparr>ps_Autonomy = pe_Autonomy pe, ps_AutonomyExplicit = pe_AutonomyExplicit pe,
     ps_SandboxMode = pe_SandboxMode pe, ps_Stage = pe_Stage pe, ps_DryRun = pe_DryRun pe, ps_SpecSlug = pe_SpecSlug pe,
     ps_Phase = pe_Phase pe, ps_Phases = pe_Phases pe, ps_Revision = pe_Revision pe,
     ps_Rules = memory_Snapshot (map_option (memoryAt ob) (pe_Memory pe)), ps_AllowedDirs = []\<rparr>"

text \<open>
  \<open>CheckToolSnapshot\<close>: the clone takes the scalars of the snapshot and a fresh rule memory, and has neither the
  learned state nor a unified view, since its \<open>UnifiedGrants\<close> is nil when it is tested.
\<close>

definition snapshotClone :: "PermissionEngine \<Rightarrow> PolicySnapshot \<Rightarrow> nat \<Rightarrow> PermissionEngine" where
  "snapshotClone pe sn r = pe\<lparr>pe_Autonomy := ps_Autonomy sn, pe_AutonomyExplicit := ps_AutonomyExplicit sn,
     pe_SandboxMode := ps_SandboxMode sn, pe_Stage := ps_Stage sn, pe_DryRun := ps_DryRun sn, pe_SpecSlug := ps_SpecSlug sn,
     pe_Phase := ps_Phase sn, pe_Phases := ps_Phases sn, pe_Revision := ps_Revision sn, pe_Memory := Some r,
     pe_specDone := 0, pe_convergeChecked := False, pe_AutoMode := False, pe_UnifiedGrants := None, pe_neverAllow := []\<rparr>"

definition CheckToolSnapshot :: "env \<Rightarrow> PermissionEngine \<Rightarrow> objects \<Rightarrow> ToolCallInfo \<Rightarrow> PolicySnapshot \<Rightarrow> Decision \<times> objects" where
  "CheckToolSnapshot en pe ob tc sn =
    (let ob0 = ob\<lparr>ob_memories := ob_memories ob @ [NewPermissionMemoryFromSnapshot (ps_Rules sn)]\<rparr> in
     case CheckToolDecision en (snapshotClone pe sn (length (ob_memories ob))) ob0 tc of (d, _, ob1) \<Rightarrow> (d, ob1))"

definition SetNeverAllow :: "PermissionEngine \<Rightarrow> string list \<Rightarrow> PermissionEngine" where
  "SetNeverAllow pe specs = pe\<lparr>pe_neverAllow := specs\<rparr>"

definition NeverAllow :: "PermissionEngine \<Rightarrow> string list" where
  "NeverAllow pe = pe_neverAllow pe"

definition SetSpecAllowTests :: "PermissionEngine \<Rightarrow> bool \<Rightarrow> PermissionEngine" where
  "SetSpecAllowTests pe allowed = pe\<lparr>pe_specAllowTests := allowed\<rparr>"

section \<open>Ceilings\<close>

text \<open>The gates that hold before anything can allow a call.\<close>

definition ceilings :: "env \<Rightarrow> PermissionEngine \<Rightarrow> ToolCallInfo \<Rightarrow> bool" where
  "ceilings en pe tc \<longleftrightarrow> \<not> pe_DryRun pe \<and> governanceDenial en pe tc = None \<and> checkPreToolHooks en tc = None
     \<and> (if pe_SandboxMode pe = ModeStrict then strictToolAllowed tc else True)
     \<and> (if isNetworkTool (tc_Name tc) then ModeAllowsNetwork (en_network en) (pe_SandboxMode pe) else True)"

text \<open>The user's own ceiling and the block on destructive commands, outside a spec workflow.\<close>

definition personal :: "PermissionEngine \<Rightarrow> ToolCallInfo \<Rightarrow> bool" where
  "personal pe tc \<longleftrightarrow> checkNeverAllow pe (tc_Name tc) (ToolSummary (tc_Name tc) (tc_Args tc)) = None \<and> \<not> destructiveCall tc"

lemma outcomes_distinct [simp]:
  "DecisionAllow \<noteq> DecisionDeny" "DecisionDeny \<noteq> DecisionAllow" "DecisionAsk \<noteq> DecisionDeny" "DecisionDeny \<noteq> DecisionAsk"
  "DecisionAllow \<noteq> DecisionAsk" "DecisionAsk \<noteq> DecisionAllow"
  by (simp_all add: DecisionAllow_def DecisionDeny_def DecisionAsk_def)

lemma decision_simps [simp]:
  "de_Outcome (decision out reason msg) = out" "de_Reason (decision out reason msg) = reason"
  "de_Message (decision out reason msg) = msg"
  by (simp_all add: decision_def)

lemma evaluate_outside: "\<not> ceilings en pe tc \<Longrightarrow> de_Outcome (fst (evaluateToolDecision en pe ob tc)) = DecisionDeny"
  unfolding ceilings_def evaluateToolDecision_def
  by (cases "governanceDenial en pe tc"; cases "checkPreToolHooks en tc") (auto split: if_split_asm)

lemma evaluate_inside:
  "ceilings en pe tc \<Longrightarrow> evaluateToolDecision en pe ob tc =
    (case specGate en pe tc of Some d \<Rightarrow> (d, pe, ob)
     | None \<Rightarrow> (let summary = ToolSummary (tc_Name tc) (tc_Args tc) in
       case checkNeverAllow pe (tc_Name tc) summary of
         Some spec \<Rightarrow> (deny ReasonRuleDenied (''denied by personal ceiling: '' @ spec), pe, ob)
       | None \<Rightarrow>
        if destructiveCall tc
        then (deny ReasonRuleDenied ''denied: destructive command is blocked even with bypass/autonomy enabled'', pe, ob)
        else case rememberedDecision en pe ob tc summary of
          Some d \<Rightarrow> (d, pe, ob)
        | None \<Rightarrow> (let pe1 = syncProfile pe in
           case discretionary en pe1 ob tc summary of (d, ob1) \<Rightarrow> (d, pe1, ob1))))"
  by (simp add: ceilings_def evaluateToolDecision_def split: if_splits)

lemma check_fst: "de_Outcome (fst (CheckToolDecision en pe ob tc)) = de_Outcome (fst (evaluateToolDecision en pe ob tc))"
  "de_Reason (fst (CheckToolDecision en pe ob tc)) = de_Reason (fst (evaluateToolDecision en pe ob tc))"
  "de_Message (fst (CheckToolDecision en pe ob tc)) = de_Message (fst (evaluateToolDecision en pe ob tc))"
  by (simp_all add: CheckToolDecision_def stamp_def Let_def split: prod.splits)

section \<open>Why a call was allowed\<close>

text \<open>
  The grounds for allowing a call outside a spec workflow, each with its condition: a remembered grant that
  no remembered refusal contradicts, the autonomy tier, a bypass that is on, not expired and covers the tool,
  the classifier, or the user's answer.
\<close>

definition bypassActive :: "env \<Rightarrow> objects \<Rightarrow> ToolCallInfo \<Rightarrow> bool" where
  "bypassActive en ob tc \<longleftrightarrow> IsEnabled (ob_bypass ob) \<and> (case bypass_Grant (ob_bypass ob) of None \<Rightarrow> True
     | Some g \<Rightarrow> \<not> IsExpired g (en_now en) \<and> Covers g (ToolCategory (tc_Name tc)))"

definition userApproves :: "PermissionEngine \<Rightarrow> ToolCallInfo \<Rightarrow> string \<Rightarrow> bool" where
  "userApproves pe tc summary \<longleftrightarrow> (case pe_PromptFn pe of None \<Rightarrow> False
     | Some ask \<Rightarrow> ask \<lparr>pr_ToolName = tc_Name tc, pr_ToolID = tc_ID tc, pr_Summary = summary\<rparr> = Answered True)"

inductive grounds :: "env \<Rightarrow> PermissionEngine \<Rightarrow> objects \<Rightarrow> ToolCallInfo \<Rightarrow> DecisionReason \<Rightarrow> bool"
  for en pe ob tc where
  unified: "pe_UnifiedGrants pe = Some stores \<Longrightarrow>
    unified_Check (map (storeGrants ob) stores) (tc_Name tc) (ToolSummary (tc_Name tc) (tc_Args tc)) (en_now en) = (True, True) \<Longrightarrow>
    grounds en pe ob tc ReasonGrantAllowed"
| rule: "pe_UnifiedGrants pe = None \<Longrightarrow> pe_Memory pe = Some r \<Longrightarrow>
    memory_Check (memoryAt ob r) (tc_Name tc) (ToolSummary (tc_Name tc) (tc_Args tc)) = Some True \<Longrightarrow>
    grounds en pe ob tc ReasonRuleAllowed"
| learned: "pe_UnifiedGrants pe = None \<Longrightarrow> pe_AutoMode pe \<Longrightarrow>
    learnedDecision (ob_auto ob) (tc_Name tc) (ToolSummary (tc_Name tc) (tc_Args tc)) = Some True \<Longrightarrow>
    grounds en pe ob tc ReasonAutoModeAllowed"
| tier: "\<not> needsConfirmation en (syncProfile pe) tc \<Longrightarrow> grounds en pe ob tc ReasonAutonomy"
| bypass: "bypassActive en ob tc \<Longrightarrow> grounds en pe ob tc ReasonBypass"
| classifier: "tc_Name tc = ''Bash'' \<Longrightarrow> pe_Classifier pe = Some c \<Longrightarrow>
    Classify c (ToolSummary ''Bash'' (tc_Args tc)) = ''safe'' \<Longrightarrow> grounds en pe ob tc ReasonClassifiedSafe"
| user: "userApproves pe tc (ToolSummary (tc_Name tc) (tc_Args tc)) \<Longrightarrow> grounds en pe ob tc ReasonUserPrompt"

lemma prompt_allows:
  "de_Outcome (promptDecisionWithSummary pe tc summary) = DecisionAllow \<longleftrightarrow> userApproves pe tc summary"
  "userApproves pe tc summary \<Longrightarrow> de_Reason (promptDecisionWithSummary pe tc summary) = ReasonUserPrompt"
  by (auto simp: promptDecisionWithSummary_def userApproves_def split: option.splits promptAnswer.splits)

lemma syncProfile_simps [simp]:
  "pe_PromptFn (syncProfile pe) = pe_PromptFn pe" "pe_Classifier (syncProfile pe) = pe_Classifier pe"
  "pe_Metrics (syncProfile pe) = pe_Metrics pe" "pe_auditLog (syncProfile pe) = pe_auditLog pe"
  "userApproves (syncProfile pe) tc summary = userApproves pe tc summary"
  by (auto simp: syncProfile_def userApproves_def split: option.splits)

lemma remembered_grounds:
  assumes "rememberedDecision en pe ob tc (ToolSummary (tc_Name tc) (tc_Args tc)) = Some d" and "de_Outcome d = DecisionAllow"
  shows "grounds en pe ob tc (de_Reason d)"
proof (cases "pe_UnifiedGrants pe")
  case None
  with assms show ?thesis
    by (auto simp: rememberedDecision_def Let_def bind_eq_Some_conv split: if_splits intro: grounds.rule grounds.learned)
next
  case (Some stores)
  obtain a f where "unified_Check (map (storeGrants ob) stores) (tc_Name tc) (ToolSummary (tc_Name tc) (tc_Args tc)) (en_now en) = (a, f)"
    by fastforce
  with Some assms show ?thesis by (auto simp: rememberedDecision_def split: if_splits intro: grounds.unified)
qed

lemma discretionary_grounds:
  assumes "discretionary en (syncProfile pe) ob tc (ToolSummary (tc_Name tc) (tc_Args tc)) = (d, ob1)"
    and "de_Outcome d = DecisionAllow"
  shows "grounds en pe ob tc (de_Reason d)"
proof -
  have prompt: "grounds en pe ob tc (de_Reason (promptDecision (syncProfile pe) tc))"
    if "de_Outcome (promptDecision (syncProfile pe) tc) = DecisionAllow"
    using that prompt_allows [of "syncProfile pe" tc "ToolSummary (tc_Name tc) (tc_Args tc)"]
    by (auto simp: promptDecision_def intro: grounds.user)
  show ?thesis
  proof (cases "needsConfirmation en (syncProfile pe) tc")
    case True
    show ?thesis
    proof (cases "IsEnabled (ob_bypass ob)")
      case on: True
      then show ?thesis using assms True prompt
        by (auto simp: discretionary_def bypassDecision_def Let_def bypassActive_def split: option.splits if_splits
            intro!: grounds.bypass)
    next
      case False
      then show ?thesis using assms True prompt
        by (auto simp: discretionary_def split: if_splits option.splits intro: grounds.classifier)
    qed
  next
    case False
    then show ?thesis using assms by (auto simp: discretionary_def intro: grounds.tier)
  qed
qed

lemma allowed_grounds:
  assumes "de_Outcome (fst (CheckToolDecision en pe ob tc)) = DecisionAllow"
  shows "ceilings en pe tc \<and>
    (case specGate en pe tc of Some d \<Rightarrow> de_Outcome d = DecisionAllow
     | None \<Rightarrow> personal pe tc \<and> grounds en pe ob tc (de_Reason (fst (CheckToolDecision en pe ob tc))))"
proof -
  have out: "de_Outcome (fst (evaluateToolDecision en pe ob tc)) = DecisionAllow" using assms by (simp add: check_fst)
  have c: "ceilings en pe tc" using evaluate_outside [of en pe tc ob] out by auto
  note eval = evaluate_inside [OF c, of ob]
  show ?thesis
  proof (cases "specGate en pe tc")
    case (Some d)
    with c out show ?thesis by (simp add: eval)
  next
    case None
    let ?s = "ToolSummary (tc_Name tc) (tc_Args tc)"
    have p: "personal pe tc" using out None
      by (auto simp: eval personal_def Let_def split: option.splits if_splits)
    have "grounds en pe ob tc (de_Reason (fst (evaluateToolDecision en pe ob tc)))"
    proof (cases "rememberedDecision en pe ob tc ?s")
      case (Some d)
      with None p out show ?thesis using remembered_grounds [OF Some] by (simp add: eval personal_def)
    next
      case rem: None
      obtain d ob1 where "discretionary en (syncProfile pe) ob tc ?s = (d, ob1)" by fastforce
      with None p out rem show ?thesis using discretionary_grounds by (simp add: eval personal_def)
    qed
    with c p None show ?thesis by (simp add: check_fst)
  qed
qed

text \<open>
  C1. No call is allowed without cause. Whatever the tier, the rules, the bypass and the user's answers, an allowed
  call passed dry-run, the governance ceiling, the hooks, the strict sandbox and the network gate; and either the
  spec workflow decided it, or it also passed the user's never-allow rules and the destructive-command block and
  one of the grounds above holds.
\<close>

theorem allow_justified:
  assumes "de_Outcome (fst (CheckToolDecision en pe ob tc)) = DecisionAllow"
  shows "ceilings en pe tc \<and>
    (case specGate en pe tc of Some d \<Rightarrow> de_Outcome d = DecisionAllow
     | None \<Rightarrow> personal pe tc \<and> grounds en pe ob tc (de_Reason (fst (CheckToolDecision en pe ob tc))))"
  using assms by (rule allowed_grounds)

definition plain_env :: env where
  "plain_env = \<lparr>en_now = 1, en_host = plain_host, en_home = ''/home/u'', en_files = (\<lambda>_ _. None), en_network = [],
     en_hooks = []\<rparr>"

definition yolo :: PermissionEngine where
  "yolo = (fst NewPermissionEngine)\<lparr>pe_Autonomy := AutonomyYOLO\<rparr>"

definition call :: "string \<Rightarrow> string \<Rightarrow> string \<Rightarrow> ToolCallInfo" where
  "call n k v = \<lparr>tc_Name = n, tc_ID = ''1'', tc_Args = [k \<mapsto> JStr v]\<rparr>"

theorem allow_justified_witness:
  "personal yolo (call ''Write'' ''path'' ''a.go'') \<and>
   grounds plain_env yolo (snd NewPermissionEngine) (call ''Write'' ''path'' ''a.go'') ReasonAutonomy"
proof -
  have a: "de_Outcome (fst (CheckToolDecision plain_env yolo (snd NewPermissionEngine) (call ''Write'' ''path'' ''a.go''))) = DecisionAllow"
    by code_simp
  have r: "de_Reason (fst (CheckToolDecision plain_env yolo (snd NewPermissionEngine) (call ''Write'' ''path'' ''a.go''))) = ReasonAutonomy"
    by code_simp
  have "specGate plain_env yolo (call ''Write'' ''path'' ''a.go'') = None" by code_simp
  with allow_justified [OF a] r show ?thesis by simp
qed

section \<open>The spec workflow confines\<close>

lemma specGate_allows:
  assumes "specGate en pe tc = Some d" and "de_Outcome d = DecisionAllow"
  shows "canonicalToolName (tc_Name tc) \<in> set specTools \<and> specToolAllowed (en_files en) pe (canonicalToolName (tc_Name tc))
    \<or> canonicalToolName (tc_Name tc) = ''ApproveImplementation'' \<and> pe_Stage pe = SpecStageTasks
        \<and> userApproves pe tc (specApprovalSummary (en_files en) (pe_SpecSlug pe))
    \<or> IsReadOnly (tc_Name tc)
    \<or> pe_specAllowTests pe \<and> tc_Name tc = ''Bash'' \<and>
        (case str_arg (tc_Args tc) ''command'' of Some cmd \<Rightarrow> isSafeTestCommand cmd | None \<Rightarrow> False)"
proof -
  let ?n = "canonicalToolName (tc_Name tc)"
  have stage: "\<not> (pe_Stage pe = SpecStageNone \<or> pe_Stage pe = SpecStageImplementing)"
    using assms(1) by (auto simp: specGate_def)
  note gate = assms(1) [unfolded specGate_def if_not_P [OF stage] Let_def]
  consider "?n \<in> set specTools" | "?n \<notin> set specTools" "?n = ''ApproveImplementation''"
    | "?n \<notin> set specTools" "?n \<noteq> ''ApproveImplementation''" by blast
  then show ?thesis
  proof cases
    case 1
    with gate assms(2) show ?thesis by (auto split: if_split_asm)
  next
    case 2
    have "pe_Stage pe = SpecStageTasks \<and> d = promptDecisionWithSummary pe tc (specApprovalSummary (en_files en) (pe_SpecSlug pe))"
      using gate [unfolded if_not_P [OF 2(1)] if_P [OF 2(2)]] assms(2) by (auto split: if_split_asm)
    with 2 assms(2) show ?thesis by (auto simp: prompt_allows)
  next
    case 3
    with gate [unfolded if_not_P [OF 3(1)] if_not_P [OF 3(2)]] assms(2) show ?thesis by (auto split: if_split_asm)
  qed
qed

text \<open>
  C22. While a specification is being written nothing else runs, at every autonomy tier and with the bypass on: an
  allowed call is a tool of the workflow that the stage admits, the approval of the implementation after the
  tasks and by the user, a read-only tool, or, where the settings admit tests, a Bash command that starts like a
  test run.
\<close>

theorem spec_gate_confines:
  assumes "pe_Stage pe \<noteq> SpecStageNone" and "pe_Stage pe \<noteq> SpecStageImplementing"
    and "de_Outcome (fst (CheckToolDecision en pe ob tc)) = DecisionAllow"
  shows "canonicalToolName (tc_Name tc) \<in> set specTools \<and> specToolAllowed (en_files en) pe (canonicalToolName (tc_Name tc))
    \<or> canonicalToolName (tc_Name tc) = ''ApproveImplementation'' \<and> pe_Stage pe = SpecStageTasks
        \<and> userApproves pe tc (specApprovalSummary (en_files en) (pe_SpecSlug pe))
    \<or> IsReadOnly (tc_Name tc)
    \<or> pe_specAllowTests pe \<and> tc_Name tc = ''Bash'' \<and>
        (case str_arg (tc_Args tc) ''command'' of Some cmd \<Rightarrow> isSafeTestCommand cmd | None \<Rightarrow> False)"
proof -
  obtain d where d: "specGate en pe tc = Some d"
    using assms(1,2) by (cases "specGate en pe tc") (auto simp: specGate_def Let_def split: if_split_asm)
  have "ceilings en pe tc" using evaluate_outside [of en pe tc ob] assms(3) by (auto simp: check_fst)
  then have "de_Outcome d = DecisionAllow" using assms(3) d by (simp add: check_fst evaluate_inside)
  with d show ?thesis by (rule specGate_allows)
qed

theorem spec_gate_confines_witness:
  "\<not> de_Outcome (fst (CheckToolDecision plain_env (yolo\<lparr>pe_Stage := SpecStagePlan\<rparr>) (snd NewPermissionEngine)
      (call ''Write'' ''path'' ''a.go''))) = DecisionAllow"
proof
  assume a: "de_Outcome (fst (CheckToolDecision plain_env (yolo\<lparr>pe_Stage := SpecStagePlan\<rparr>) (snd NewPermissionEngine)
      (call ''Write'' ''path'' ''a.go''))) = DecisionAllow"
  have n: "canonicalToolName (tc_Name (call ''Write'' ''path'' ''a.go'')) = ''Write''" "tc_Name (call ''Write'' ''path'' ''a.go'') = ''Write''"
    by code_simp+
  have "''Write'' \<notin> set specTools" "\<not> IsReadOnly ''Write''" by code_simp+
  with spec_gate_confines [OF _ _ a] n show False by simp
qed

section \<open>The bypass switch is bounded\<close>

lemma evaluate_bypass:
  assumes "evaluateToolDecision en pe ob tc = (d, pe1, ob1)"
  shows "ob_bypass ob1 = ob_bypass ob \<or>
    ob_bypass ob1 = Disable (ob_bypass ob) \<and> (\<exists>g. bypass_Grant (ob_bypass ob) = Some g \<and> IsExpired g (en_now en))"
proof (cases "ceilings en pe tc")
  case True
  obtain d2 ob2 where d2: "discretionary en (syncProfile pe) ob tc (ToolSummary (tc_Name tc) (tc_Args tc)) = (d2, ob2)"
    by fastforce
  then have "ob_bypass ob2 = ob_bypass ob \<or>
      ob_bypass ob2 = Disable (ob_bypass ob) \<and> (\<exists>g. bypass_Grant (ob_bypass ob) = Some g \<and> IsExpired g (en_now en))"
    by (auto simp: discretionary_def bypassDecision_def Let_def split: if_splits option.splits)
  with assms d2 show ?thesis
    by (auto simp: evaluate_inside [OF True] Let_def split: option.splits if_splits)
next
  case False
  then have "ob_bypass ob1 = ob_bypass ob"
    using assms unfolding ceilings_def evaluateToolDecision_def
    by (cases "governanceDenial en pe tc"; cases "checkPreToolHooks en tc") (auto split: if_split_asm)
  then show ?thesis ..
qed

lemma recordOutcome_bypass [simp]: "ob_bypass (recordOutcome en pe tc d ob) = ob_bypass ob"
  by (simp add: recordOutcome_def Let_def)


section \<open>Previewing a decision\<close>

abbreviation "preview_clone pe \<equiv> (engine_Copy pe)\<lparr>pe_AutoMode := False, pe_PromptFn := None\<rparr>"

text \<open>
  \<open>EvaluateTool\<close> does not see the never-allow rules and the completed spec stages, and it reads the learned state
  only through the unified view. Where these cannot matter it shows what \<open>CheckToolDecision\<close> will do.
\<close>

definition previewable :: "PermissionEngine \<Rightarrow> bool" where
  "previewable pe \<longleftrightarrow> pe_neverAllow pe = [] \<and> (pe_specDone pe = 0 \<or> pe_Stage pe = SpecStageNone \<or> pe_Stage pe = SpecStageImplementing)
     \<and> (pe_UnifiedGrants pe \<noteq> None \<or> \<not> pe_AutoMode pe)"

text \<open>Two decisions agree, or the first could not ask and the second is the user's answer.\<close>

definition agrees :: "PermissionEngine \<Rightarrow> ToolCallInfo \<Rightarrow> Decision \<Rightarrow> Decision \<Rightarrow> bool" where
  "agrees pe tc d d' \<longleftrightarrow> d' = d \<and> de_Reason d \<noteq> ReasonPromptUnavailable
     \<or> (\<exists>s. d = deny ReasonPromptUnavailable ''Permission prompt unavailable.'' \<and> d' = promptDecisionWithSummary pe tc s)"

lemmas reason_defs = ReasonDryRun_def ReasonHookDenied_def ReasonSandbox_def ReasonSpecGate_def ReasonRuleDenied_def
  ReasonAutoModeDenied_def ReasonRuleAllowed_def ReasonAutoModeAllowed_def ReasonGrantAllowed_def ReasonGrantDenied_def
  ReasonAutonomy_def ReasonBypass_def ReasonClassifiedSafe_def ReasonUserPrompt_def ReasonPromptUnavailable_def
  ReasonGovernance_def

lemma other_reasons [simp]:
  "ReasonDryRun \<noteq> ReasonPromptUnavailable" "ReasonHookDenied \<noteq> ReasonPromptUnavailable"
  "ReasonSandbox \<noteq> ReasonPromptUnavailable" "ReasonSpecGate \<noteq> ReasonPromptUnavailable"
  "ReasonRuleDenied \<noteq> ReasonPromptUnavailable" "ReasonAutoModeDenied \<noteq> ReasonPromptUnavailable"
  "ReasonRuleAllowed \<noteq> ReasonPromptUnavailable" "ReasonAutoModeAllowed \<noteq> ReasonPromptUnavailable"
  "ReasonGrantAllowed \<noteq> ReasonPromptUnavailable" "ReasonGrantDenied \<noteq> ReasonPromptUnavailable"
  "ReasonAutonomy \<noteq> ReasonPromptUnavailable" "ReasonBypass \<noteq> ReasonPromptUnavailable"
  "ReasonClassifiedSafe \<noteq> ReasonPromptUnavailable" "ReasonUserPrompt \<noteq> ReasonPromptUnavailable"
  "ReasonGovernance \<noteq> ReasonPromptUnavailable"
  by (simp_all add: reason_defs)

lemma agrees_self: "de_Reason d \<noteq> ReasonPromptUnavailable \<Longrightarrow> agrees pe tc d d"
  by (simp add: agrees_def)

lemma agrees_prompt: "agrees pe tc (promptDecisionWithSummary (preview_clone pe') tc s) (promptDecisionWithSummary pe tc s)"
  by (auto simp: agrees_def promptDecisionWithSummary_def)

lemma syncProfile_clone: "syncProfile (preview_clone pe) = preview_clone (syncProfile pe)"
  by (auto simp: syncProfile_def engine_Copy_def split: option.splits)

lemma clone_gates [simp]:
  "governanceDenial en (preview_clone pe) tc = governanceDenial en pe tc"
  "needsConfirmation en (preview_clone pe) tc = needsConfirmation en pe tc"
  "pe_DryRun (preview_clone pe) = pe_DryRun pe" "pe_SandboxMode (preview_clone pe) = pe_SandboxMode pe"
  "pe_Metrics (preview_clone pe) = pe_Metrics pe" "pe_Classifier (preview_clone pe) = pe_Classifier pe"
  "ceilings en (preview_clone pe) tc = ceilings en pe tc"
  by (simp_all add: governanceDenial_def needsConfirmation_def engine_Copy_def ceilings_def Let_def split: option.split)

lemma clone_specGate:
  assumes "previewable pe"
  shows "case specGate en pe tc of None \<Rightarrow> specGate en (preview_clone pe) tc = None
    | Some d' \<Rightarrow> (\<exists>d. specGate en (preview_clone pe) tc = Some d \<and> agrees pe tc d d')"
proof (cases "pe_Stage pe = SpecStageNone \<or> pe_Stage pe = SpecStageImplementing")
  case True
  then show ?thesis by (simp add: specGate_def engine_Copy_def)
next
  case False
  with assms have same: "specToolAllowed (en_files en) (preview_clone pe) n = specToolAllowed (en_files en) pe n"
    "specStageReason (en_files en) (preview_clone pe) n = specStageReason (en_files en) pe n" for n
    by (simp_all add: previewable_def specToolAllowed_def specStageReason_def engine_Copy_def)
  have clone: "pe_Stage (preview_clone pe) = pe_Stage pe" "pe_SpecSlug (preview_clone pe) = pe_SpecSlug pe"
    "pe_specAllowTests (preview_clone pe) = pe_specAllowTests pe" by (simp_all add: engine_Copy_def)
  have refl: "agrees pe tc d d" if "de_Reason d = ReasonSpecGate" for d using that by (simp add: agrees_self)
  show ?thesis unfolding specGate_def Let_def clone same if_not_P [OF False]
    by (auto simp: refl agrees_prompt split: if_split)
qed

lemma clone_remembered:
  assumes "previewable pe"
  shows "rememberedDecision en (preview_clone pe) ob tc s = rememberedDecision en pe ob tc s"
  using assms by (auto simp: previewable_def rememberedDecision_def engine_Copy_def Let_def split: option.splits)

lemma remembered_agrees: "rememberedDecision en pe ob tc s = Some d \<Longrightarrow> agrees pe tc d d"
  by (auto simp: rememberedDecision_def Let_def split: option.splits prod.splits if_splits intro!: agrees_self)

lemma clone_discretionary:
  "\<exists>d d' ob1. discretionary en (preview_clone pe) ob tc s = (d, ob1) \<and> discretionary en pe ob tc s = (d', ob1)
     \<and> agrees pe tc d d'"
proof -
  let ?c = "preview_clone pe" and ?b = "ob_bypass ob"
  have p: "agrees pe tc (promptDecision ?c tc) (promptDecision pe tc)"
    unfolding promptDecision_def by (rule agrees_prompt)
  have self: "agrees pe tc (allow ReasonAutonomy) (allow ReasonAutonomy)"
    "agrees pe tc (allow ReasonClassifiedSafe) (allow ReasonClassifiedSafe)"
    "agrees pe tc (d\<lparr>de_Outcome := x\<rparr>) (d\<lparr>de_Outcome := x\<rparr>)" if "de_Reason d = ReasonBypass" for d x
    using that by (simp_all add: agrees_self)
  have "\<exists>d d' ob1. bypassDecision en ?c ob tc = (d, ob1) \<and> bypassDecision en pe ob tc = (d', ob1) \<and> agrees pe tc d d'"
    unfolding bypassDecision_def Let_def clone_gates
    by (cases "bypass_Grant ?b") (auto simp: p intro!: self)
  then show ?thesis unfolding discretionary_def clone_gates using p
    by (auto intro!: agrees_self)
qed

lemma prompt_outcome: "de_Outcome (promptDecisionWithSummary pe tc s) \<in> {DecisionAllow, DecisionDeny}"
  by (simp add: promptDecisionWithSummary_def split: option.split promptAnswer.split)

lemma specGate_outcome: "specGate en pe tc = Some d \<Longrightarrow> de_Outcome d \<in> {DecisionAllow, DecisionDeny}"
  using prompt_outcome [of pe tc] by (auto simp: specGate_def Let_def split: if_split_asm)

lemma remembered_outcome: "rememberedDecision en pe ob tc s = Some d \<Longrightarrow> de_Outcome d \<in> {DecisionAllow, DecisionDeny}"
  by (auto simp: rememberedDecision_def Let_def split: option.splits prod.splits if_splits)

lemma discretionary_outcome: "de_Outcome (fst (discretionary en pe ob tc s)) \<in> {DecisionAllow, DecisionDeny}"
  using prompt_outcome [of pe tc]
  by (auto simp: discretionary_def bypassDecision_def promptDecision_def Let_def split: option.split)

text \<open>\<open>CheckToolDecision\<close> always settles the call.\<close>

lemma evaluate_outcome: "de_Outcome (fst (evaluateToolDecision en pe ob tc)) \<in> {DecisionAllow, DecisionDeny}"
proof (cases "ceilings en pe tc")
  case True
  have "de_Outcome (fst (case discretionary en pe1 ob tc s of (d, ob1) \<Rightarrow> (d, pe1, ob1))) \<in> {DecisionAllow, DecisionDeny}" for pe1 s
    using discretionary_outcome [of en pe1 ob tc s] by (simp add: case_prod_beta)
  then show ?thesis using specGate_outcome [of en pe tc] remembered_outcome [of en pe ob tc]
    by (auto simp: evaluate_inside [OF True] Let_def split: option.split)
qed (simp add: evaluate_outside)

lemma clone_evaluate:
  assumes "previewable pe"
  shows "\<exists>d d' pe1 ob1. evaluateToolDecision en (preview_clone pe) ob tc = (d, preview_clone pe1, ob1)
    \<and> evaluateToolDecision en pe ob tc = (d', pe1, ob1) \<and> agrees pe tc d d' \<and> pe_Revision pe1 = pe_Revision pe"
proof (cases "ceilings en pe tc")
  case False
  then show ?thesis unfolding ceilings_def evaluateToolDecision_def
    by (cases "governanceDenial en pe tc"; cases "checkPreToolHooks en tc") (auto split: if_split_asm intro!: agrees_self)
next
  case True
  then have c: "ceilings en (preview_clone pe) tc" by simp
  note ev = evaluate_inside [OF True] evaluate_inside [OF c]
  have never: "checkNeverAllow (preview_clone pe) n s = None" "checkNeverAllow pe n s = None" for n s
    using assms by (simp_all add: previewable_def checkNeverAllow_def engine_Copy_def)
  show ?thesis
  proof (cases "specGate en pe tc")
    case (Some d')
    with clone_specGate [OF assms, of en tc] show ?thesis by (auto simp: ev)
  next
    case gate: None
    with clone_specGate [OF assms, of en tc] have gate': "specGate en (preview_clone pe) tc = None" by simp
    let ?s = "ToolSummary (tc_Name tc) (tc_Args tc)"
    have rev: "pe_Revision (syncProfile pe) = pe_Revision pe" by (simp add: syncProfile_def split: option.split)
    show ?thesis
    proof (cases "destructiveCall tc")
      case True
      then show ?thesis unfolding ev gate gate' by (auto simp: never intro!: agrees_self)
    next
      case False
      show ?thesis
      proof (cases "rememberedDecision en pe ob tc ?s")
        case (Some d)
        with False show ?thesis unfolding ev gate gate'
          by (auto simp: never clone_remembered [OF assms] intro: remembered_agrees)
      next
        case None
        from clone_discretionary [of en "syncProfile pe" ob tc ?s] obtain d d' ob1 where
          "discretionary en (preview_clone (syncProfile pe)) ob tc ?s = (d, ob1)"
          "discretionary en (syncProfile pe) ob tc ?s = (d', ob1)" "agrees (syncProfile pe) tc d d'" by blast
        with False None rev show ?thesis unfolding ev gate gate'
          by (auto simp: never clone_remembered [OF assms] syncProfile_clone agrees_def promptDecisionWithSummary_def)
      qed
    qed
  qed
qed

text \<open>
  The preview is faithful: for an engine without never-allow rules and outside its own spec bookkeeping,
  \<open>EvaluateTool\<close> answers \<open>ask\<close> only when \<open>CheckToolDecision\<close> puts the call to the user and returns the answer,
  and otherwise returns the very decision \<open>CheckToolDecision\<close> returns.
\<close>

theorem evaluate_previews_check:
  assumes "previewable pe"
  shows "let d = fst (EvaluateTool en pe ob tc); d' = fst (CheckToolDecision en pe ob tc) in
    if de_Outcome d = DecisionAsk then \<exists>s. d' = stamp pe tc (promptDecisionWithSummary pe tc s) else d' = d"
proof -
  from clone_evaluate [OF assms, of en ob tc] obtain d d' pe1 ob1 where
    e: "evaluateToolDecision en (preview_clone pe) ob tc = (d, preview_clone pe1, ob1)"
      "evaluateToolDecision en pe ob tc = (d', pe1, ob1)" and a: "agrees pe tc d d'" and r: "pe_Revision pe1 = pe_Revision pe"
    by blast
  have ask: "de_Outcome d \<noteq> DecisionAsk" using evaluate_outcome [of en "preview_clone pe" ob tc] by (auto simp: e)
  have st: "stamp (preview_clone pe1) tc d = stamp pe tc d" "stamp pe1 tc d' = stamp pe tc d'"
    using r by (simp_all add: stamp_def engine_Copy_def)
  have ev: "fst (EvaluateTool en pe ob tc) = (if de_Reason d = ReasonPromptUnavailable
      then (stamp pe tc d)\<lparr>de_Outcome := DecisionAsk, de_Reason := ReasonUserPrompt, de_Message := ''Permission approval required.''\<rparr>
      else stamp pe tc d)"
    by (simp add: EvaluateTool_def CheckToolDecision_def e(1) st Let_def) (simp add: stamp_def)
  have "fst (CheckToolDecision en pe ob tc) = stamp pe tc d'" by (simp add: CheckToolDecision_def e(2) st Let_def)
  moreover have "de_Outcome (stamp pe tc d) = de_Outcome d" by (simp add: stamp_def)
  ultimately show ?thesis using a ask unfolding ev Let_def agrees_def by auto
qed

theorem evaluate_previews_check_witness:
  "fst (CheckToolDecision plain_env yolo (snd NewPermissionEngine) (call ''Write'' ''path'' ''a.go'')) =
   fst (EvaluateTool plain_env yolo (snd NewPermissionEngine) (call ''Write'' ''path'' ''a.go''))"
proof -
  have p: "previewable yolo" by code_simp
  have "de_Outcome (fst (EvaluateTool plain_env yolo (snd NewPermissionEngine) (call ''Write'' ''path'' ''a.go''))) \<noteq> DecisionAsk"
    by code_simp
  with evaluate_previews_check [OF p, of plain_env "snd NewPermissionEngine" "call ''Write'' ''path'' ''a.go''"]
  show ?thesis by (simp add: Let_def)
qed

section \<open>What the copies lose\<close>

text \<open>
  The never-allow rules bind only on the engine itself. A copy, a preview and a check against a snapshot decide as
  if there were no such rules, whatever they are; with the highest tier this allows a call that the engine refuses.
\<close>

lemma copy_forgets_never:
  "engine_Copy (SetNeverAllow pe specs) = engine_Copy pe"
  "snapshotClone (SetNeverAllow pe specs) sn r = snapshotClone pe sn r"
  by (simp_all add: engine_Copy_def SetNeverAllow_def snapshotClone_def)

theorem never_rules_lost:
  fixes tc
  defines "tc \<equiv> call ''Bash'' ''command'' ''git push origin''" and "pe \<equiv> SetNeverAllow yolo [''Bash(git push:*)'', ''Bash(git push *)'']"
  shows "EvaluateTool en (SetNeverAllow pe' specs) ob tc' = EvaluateTool en pe' ob tc'"
    and "CheckToolSnapshot en (SetNeverAllow pe' specs) ob tc' sn = CheckToolSnapshot en pe' ob tc' sn"
    and "de_Outcome (fst (CheckToolDecision plain_env pe (snd NewPermissionEngine) tc)) = DecisionDeny"
    and "de_Outcome (fst (EvaluateTool plain_env pe (snd NewPermissionEngine) tc)) = DecisionAllow"
    and "de_Outcome (fst (CheckToolDecision plain_env (engine_Copy pe) (snd NewPermissionEngine) tc)) = DecisionAllow"
  unfolding tc_def pe_def
      apply (simp add: EvaluateTool_def copy_forgets_never)
     apply (simp add: CheckToolSnapshot_def copy_forgets_never)
    apply code_simp
   apply code_simp
  apply code_simp
  done

section \<open>Every decision is audited\<close>

lemma evaluate_audit:
  assumes "evaluateToolDecision en pe ob tc = (d, pe1, ob1)"
  shows "ob_audit ob1 = ob_audit ob \<and> pe_auditLog pe1 = pe_auditLog pe"
proof (cases "ceilings en pe tc")
  case True
  obtain d2 ob2 where d2: "discretionary en (syncProfile pe) ob tc (ToolSummary (tc_Name tc) (tc_Args tc)) = (d2, ob2)"
    by fastforce
  then have "ob_audit ob2 = ob_audit ob"
    by (auto simp: discretionary_def bypassDecision_def Let_def split: if_splits option.splits)
  with assms d2 show ?thesis
    by (auto simp: evaluate_inside [OF True] Let_def split: option.splits if_splits)
next
  case False
  then show ?thesis
    using assms unfolding ceilings_def evaluateToolDecision_def
    by (cases "governanceDenial en pe tc"; cases "checkPreToolHooks en tc") (auto split: if_split_asm)
qed

definition auditOf :: "env \<Rightarrow> ToolCallInfo \<Rightarrow> Decision \<Rightarrow> auditEntry" where
  "auditOf en tc d = \<lparr>ae_Time = en_now en, ae_Tool = tc_Name tc, ae_Summary = ToolSummary (tc_Name tc) (tc_Args tc),
     ae_Outcome = de_Outcome d, ae_Reason = de_Reason d\<rparr>"

lemma check_audit:
  assumes "pe_auditLog pe" and "CheckToolDecision en pe ob tc = (d, pe1, ob1)"
  shows "ob_audit ob1 = audit_put (auditOf en tc d) (ob_audit ob) \<and> pe_auditLog pe1"
proof -
  obtain d0 pe0 ob0 where ev: "evaluateToolDecision en pe ob tc = (d0, pe0, ob0)" by (metis prod_cases3)
  from assms ev evaluate_audit [OF ev] show ?thesis
    by (auto simp: CheckToolDecision_def recordOutcome_def audit_record_def auditOf_def Let_def)
qed

text \<open>A session: calls checked one after the other, each in the environment of its moment.\<close>

fun checkAll :: "(env \<times> ToolCallInfo) list \<Rightarrow> PermissionEngine \<Rightarrow> objects \<Rightarrow> Decision list \<times> objects" where
  "checkAll [] pe ob = ([], ob)"
| "checkAll ((en, tc) # calls) pe ob = (case CheckToolDecision en pe ob tc of (d, pe1, ob1) \<Rightarrow>
     (case checkAll calls pe1 ob1 of (ds, ob2) \<Rightarrow> (d # ds, ob2)))"

lemma checkAll_audit:
  "pe_auditLog pe \<Longrightarrow> checkAll calls pe ob = (ds, ob') \<Longrightarrow> length ds = length calls \<and>
    ob_audit ob' = List.fold audit_put (map2 (\<lambda>(en, tc) d. auditOf en tc d) calls ds) (ob_audit ob)"
proof (induction calls arbitrary: pe ob ds ob')
  case (Cons x calls)
  obtain en tc where x: "x = (en, tc)" by (cases x)
  obtain d pe1 ob1 where c: "CheckToolDecision en pe ob tc = (d, pe1, ob1)" by (metis prod_cases3)
  obtain ds1 ob2 where r: "checkAll calls pe1 ob1 = (ds1, ob2)" by fastforce
  from check_audit [OF Cons.prems(1) c] have a: "ob_audit ob1 = audit_put (auditOf en tc d) (ob_audit ob)" "pe_auditLog pe1" by auto
  from Cons.IH [OF a(2) r] Cons.prems(2) show ?case by (auto simp: x c r a(1))
qed simp

text \<open>
  The audit trail of a session is complete and in order: for any calls checked on an engine with a fresh audit
  buffer, asking for the recent entries gives the decisions of the last calls, up to the 256 the buffer holds.
\<close>

theorem session_audited:
  assumes "pe_auditLog pe" and "ob_audit ob = newPermissionAuditLog 256" and "checkAll calls pe ob = (ds, ob')"
  shows "Recent (Some (ob_audit ob')) n =
    (let size = min (length calls) 256; m = (if n \<le> 0 \<or> int size < n then size else nat n)
     in drop (length calls - m) (map2 (\<lambda>(en, tc) d. auditOf en tc d) calls ds))"
proof -
  note a = checkAll_audit [OF assms(1,3)]
  have "ring_of 256 (map2 (\<lambda>(en, tc) d. auditOf en tc d) calls ds) (ob_audit ob')"
    using ring_run [OF ring_new [of 256]] a unfolding assms(2) by simp
  from Recent_ring [OF this] a show ?thesis by (simp add: Let_def)
qed

theorem session_audited_witness:
  "map ae_Outcome (Recent (Some (ob_audit (snd (checkAll [(plain_env, call ''Write'' ''path'' ''a.go'')] yolo (snd NewPermissionEngine))))) 5)
   = [DecisionAllow]"
proof -
  let ?r = "checkAll [(plain_env, call ''Write'' ''path'' ''a.go'')] yolo (snd NewPermissionEngine)"
  have "map de_Outcome (fst ?r) = [DecisionAllow]" by code_simp
  then obtain d where d: "fst ?r = [d]" "de_Outcome d = DecisionAllow" by auto
  have "pe_auditLog yolo" "ob_audit (snd NewPermissionEngine) = newPermissionAuditLog 256"
    by (simp_all add: yolo_def NewPermissionEngine_def)
  note th = session_audited [OF this prod.collapse [symmetric], of "[(plain_env, call ''Write'' ''path'' ''a.go'')]" 5]
  show ?thesis unfolding th d(1) using d(2) by (simp add: auditOf_def Let_def)
qed

end
