(* ===== verification/Stable_Rules.thy ===== *)
theory Stable_Rules
  imports Go_Json
begin

text \<open>
  Exact permission rules with stable ids, from \<open>internal/permissions/stableid/state.go\<close>, and the store that
  persists them, from \<open>internal/permissions/stablerules.go\<close>. The digest of an identity, SHA-256 in the code, is
  an argument \<open>sha\<close> of the definitions: nothing here depends on which function it is. Writing the file is the
  argument \<open>saved\<close>, the success of the write; what is written is the JSON document.
\<close>

section \<open>State\<close>

type_synonym Kind = int
type_synonym stable_Decision = int

definition stable_Deny :: stable_Decision where
  "stable_Deny = 0"

definition stable_Allow :: stable_Decision where
  "stable_Allow = 1"

definition maxRules :: nat where
  "maxRules = 1024"

definition maxIdentityBytes :: nat where
  "maxIdentityBytes = 4096"

record RuleKey =
  rk_Kind :: Kind
  rk_Digest :: string
  rk_Canonical :: string

definition NewKey :: "(string \<Rightarrow> string) \<Rightarrow> Kind \<Rightarrow> string \<Rightarrow> RuleKey option" where
  "NewKey sha kind canonical =
    (if length canonical = 0 \<or> maxIdentityBytes < length canonical then None
     else Some \<lparr>rk_Kind = kind, rk_Digest = sha canonical, rk_Canonical = canonical\<rparr>)"

definition key_Equal :: "RuleKey \<Rightarrow> RuleKey \<Rightarrow> bool" where
  "key_Equal k k' \<longleftrightarrow> rk_Kind k = rk_Kind k' \<and> rk_Digest k = rk_Digest k'"

record Rule =
  sr_ID :: u64
  sr_Key :: RuleKey
  sr_DisplayIdentity :: string
  sr_Decision :: stable_Decision
  sr_Generation :: u64

record State =
  st_NextGeneration :: u64
  st_Rules :: "Rule list"

definition NewState :: State where
  "NewState = \<lparr>st_NextGeneration = 1, st_Rules = []\<rparr>"

record SetEvent =
  se_Key :: RuleKey
  se_DisplayIdentity :: string
  se_Decision :: stable_Decision
  se_ExpectedGeneration :: "u64 option"

record RevokeEvent =
  re_ID :: u64
  re_ExpectedGeneration :: u64

datatype Status = Applied | Stale | Full | Invalid

datatype stableError = ErrCounts | ErrRule Rule | ErrDigest u64 | ErrDuplicateID u64 | ErrDuplicateKey

definition badRule :: "u64 \<Rightarrow> Rule \<Rightarrow> bool" where
  "badRule next r \<longleftrightarrow> sr_ID r = 0 \<or> sr_Generation r = 0 \<or> sr_Generation r < sr_ID r \<or> next \<le> sr_ID r
     \<or> next \<le> sr_Generation r \<or> length (rk_Canonical (sr_Key r)) = 0
     \<or> maxIdentityBytes < length (rk_Canonical (sr_Key r)) \<or> length (sr_DisplayIdentity r) = 0"

fun validateRules :: "(string \<Rightarrow> string) \<Rightarrow> u64 \<Rightarrow> u64 list \<Rightarrow> RuleKey list \<Rightarrow> Rule list \<Rightarrow> stableError option" where
  "validateRules sha next seenID seenKey [] = None"
| "validateRules sha next seenID seenKey (r # rs) =
    (if badRule next r then Some (ErrRule r)
     else if rk_Digest (sr_Key r) \<noteq> sha (rk_Canonical (sr_Key r)) then Some (ErrDigest (sr_ID r))
     else if sr_ID r \<in> set seenID then Some (ErrDuplicateID (sr_ID r))
     else if sr_Key r \<in> set seenKey then Some ErrDuplicateKey
     else validateRules sha next (sr_ID r # seenID) (sr_Key r # seenKey) rs)"

definition stable_Validate :: "(string \<Rightarrow> string) \<Rightarrow> State \<Rightarrow> stableError option" where
  "stable_Validate sha state =
    (if st_NextGeneration state = 0 \<or> maxRules < length (st_Rules state) then Some ErrCounts
     else validateRules sha (st_NextGeneration state) [] [] (st_Rules state))"

fun keyIndexFrom :: "nat \<Rightarrow> RuleKey \<Rightarrow> Rule list \<Rightarrow> nat option" where
  "keyIndexFrom i key [] = None"
| "keyIndexFrom i key (r # rs) = (if key_Equal (sr_Key r) key then Some i else keyIndexFrom (Suc i) key rs)"

text \<open>\<open>None\<close> is Go's -1.\<close>

definition keyIndex :: "State \<Rightarrow> RuleKey \<Rightarrow> nat option" where
  "keyIndex state key = keyIndexFrom 0 key (st_Rules state)"

definition ApplySet :: "State \<Rightarrow> SetEvent \<Rightarrow> State \<times> Status" where
  "ApplySet state ev =
    (if st_NextGeneration state = 0 \<or> length (se_DisplayIdentity ev) = 0 \<or> length (rk_Canonical (se_Key ev)) = 0
        \<or> maxIdentityBytes < length (rk_Canonical (se_Key ev)) then (state, Invalid)
     else let nextGen = st_NextGeneration state + 1 in
       if nextGen = 0 then (state, Invalid)
       else case keyIndex state (se_Key ev) of
         Some idx \<Rightarrow>
           (let r = st_Rules state ! idx in
            if se_ExpectedGeneration ev \<noteq> Some (sr_Generation r) then (state, Stale)
            else (state\<lparr>st_Rules := (st_Rules state)[idx := r\<lparr>sr_DisplayIdentity := se_DisplayIdentity ev,
                     sr_Decision := se_Decision ev, sr_Generation := st_NextGeneration state\<rparr>],
                   st_NextGeneration := nextGen\<rparr>, Applied))
       | None \<Rightarrow>
           if se_ExpectedGeneration ev \<noteq> None then (state, Stale)
           else if maxRules \<le> length (st_Rules state) then (state, Full)
           else (state\<lparr>st_Rules := st_Rules state @ [\<lparr>sr_ID = st_NextGeneration state, sr_Key = se_Key ev,
                    sr_DisplayIdentity = se_DisplayIdentity ev, sr_Decision = se_Decision ev,
                    sr_Generation = st_NextGeneration state\<rparr>],
                  st_NextGeneration := nextGen\<rparr>, Applied))"

fun idIndexFrom :: "nat \<Rightarrow> u64 \<Rightarrow> Rule list \<Rightarrow> nat option" where
  "idIndexFrom i n [] = None"
| "idIndexFrom i n (r # rs) = (if sr_ID r = n then Some i else idIndexFrom (Suc i) n rs)"

definition ApplyRevoke :: "State \<Rightarrow> RevokeEvent \<Rightarrow> State \<times> Status" where
  "ApplyRevoke state ev = (case idIndexFrom 0 (re_ID ev) (st_Rules state) of
     None \<Rightarrow> (state, Stale)
   | Some idx \<Rightarrow>
      if sr_Generation (st_Rules state ! idx) \<noteq> re_ExpectedGeneration ev then (state, Stale)
      else let nextGen = st_NextGeneration state + 1 in
        if nextGen = 0 then (state, Invalid)
        else (state\<lparr>st_Rules := take idx (st_Rules state) @ drop (idx + 1) (st_Rules state),
                    st_NextGeneration := nextGen\<rparr>, Applied))"

definition RuleForID :: "State \<Rightarrow> u64 \<Rightarrow> Rule option" where
  "RuleForID state n = find (\<lambda>r. sr_ID r = n) (st_Rules state)"

definition RuleForKey :: "State \<Rightarrow> RuleKey \<Rightarrow> Rule option" where
  "RuleForKey state key = map_option (\<lambda>idx. st_Rules state ! idx) (keyIndex state key)"

definition Decide :: "State \<Rightarrow> RuleKey \<Rightarrow> stable_Decision \<times> bool" where
  "Decide state key = (case keyIndex state key of None \<Rightarrow> (stable_Deny, False)
     | Some idx \<Rightarrow> (sr_Decision (st_Rules state ! idx), True))"

text \<open>The ids of a valid state are distinct, so the order of \<open>sort.Slice\<close> is determined.\<close>

definition Sorted :: "State \<Rightarrow> Rule list" where
  "Sorted state = SliceStable (\<lambda>a b. sr_ID a < sr_ID b) (st_Rules state)"

section \<open>The store\<close>

record ruleDoc =
  rd_ID :: u64
  rd_Kind :: int
  rd_Canonical :: string
  rd_DisplayIdentity :: string
  rd_Decision :: int
  rd_Generation :: u64

definition members_ruleDoc :: "ruleDoc \<Rightarrow> members" where
  "members_ruleDoc x = m_u64_1 ''id'' (rd_ID x) @ m_int1 ''kind'' (rd_Kind x) @ m_str1 ''canonical'' (rd_Canonical x) @
     m_str1 ''display_identity'' (rd_DisplayIdentity x) @ m_int1 ''decision'' (rd_Decision x) @
     m_u64_1 ''generation'' (rd_Generation x)"

definition enc_ruleDoc :: "ruleDoc \<Rightarrow> json" where
  "enc_ruleDoc x = JObj (members_ruleDoc x)"

definition dec_ruleDoc :: "json \<Rightarrow> jsonError + ruleDoc" where
  "dec_ruleDoc = d_struct (\<lambda>ms.
     bindE (u_u64 ''id'' 0 ms) (\<lambda>v0.
     bindE (u_int ''kind'' 0 ms) (\<lambda>v1.
     bindE (u_str ''canonical'' [] ms) (\<lambda>v2.
     bindE (u_str ''display_identity'' [] ms) (\<lambda>v3.
     bindE (u_int ''decision'' 0 ms) (\<lambda>v4.
     bindE (u_u64 ''generation'' 0 ms) (\<lambda>v5.
     Inr \<lparr>rd_ID = v0, rd_Kind = v1, rd_Canonical = v2, rd_DisplayIdentity = v3, rd_Decision = v4,
          rd_Generation = v5\<rparr>)))))))"

record stableRuleFile =
  sf_NextGeneration :: u64
  sf_Rules :: "ruleDoc list"

definition enc_stableRuleFile :: "stableRuleFile \<Rightarrow> json" where
  "enc_stableRuleFile x = JObj (m_u64_1 ''next_generation'' (sf_NextGeneration x) @ m_arr1 enc_ruleDoc ''rules'' (sf_Rules x))"

definition dec_stableRuleFile :: "json \<Rightarrow> jsonError + stableRuleFile" where
  "dec_stableRuleFile = d_struct (\<lambda>ms.
     bindE (u_u64 ''next_generation'' 0 ms) (\<lambda>v0.
     bindE (u_field (c_arr dec_ruleDoc) ''rules'' [] ms) (\<lambda>v1.
     Inr \<lparr>sf_NextGeneration = v0, sf_Rules = v1\<rparr>)))"

definition docOf :: "Rule \<Rightarrow> ruleDoc" where
  "docOf r = \<lparr>rd_ID = sr_ID r, rd_Kind = rk_Kind (sr_Key r), rd_Canonical = rk_Canonical (sr_Key r),
     rd_DisplayIdentity = sr_DisplayIdentity r, rd_Decision = sr_Decision r, rd_Generation = sr_Generation r\<rparr>"

text \<open>The document \<open>Save\<close> and \<open>saveState\<close> write.\<close>

definition saveState :: "State \<Rightarrow> json" where
  "saveState state = enc_stableRuleFile \<lparr>sf_NextGeneration = st_NextGeneration state, sf_Rules = map docOf (st_Rules state)\<rparr>"

datatype loadError = ErrUnmarshal jsonError | ErrKey u64 | ErrState stableError

fun loadRules :: "(string \<Rightarrow> string) \<Rightarrow> ruleDoc list \<Rightarrow> loadError + Rule list" where
  "loadRules sha [] = Inr []"
| "loadRules sha (d # ds) = (case NewKey sha (rd_Kind d) (rd_Canonical d) of
     None \<Rightarrow> Inl (ErrKey (rd_ID d))
   | Some key \<Rightarrow> bindE (loadRules sha ds) (\<lambda>rs. Inr (\<lparr>sr_ID = rd_ID d, sr_Key = key,
       sr_DisplayIdentity = rd_DisplayIdentity d,
       sr_Decision = (if rd_Decision d = stable_Allow then stable_Allow else stable_Deny),
       sr_Generation = rd_Generation d\<rparr> # rs)))"

text \<open>\<open>Load\<close>: \<open>None\<close> for a missing file.\<close>

definition store_Load :: "(string \<Rightarrow> string) \<Rightarrow> json option \<Rightarrow> loadError + State" where
  "store_Load sha file = (case file of
     None \<Rightarrow> Inr NewState
   | Some j \<Rightarrow> (case dec_stableRuleFile j of
       Inl e \<Rightarrow> Inl (ErrUnmarshal e)
     | Inr f \<Rightarrow> bindE (loadRules sha (sf_Rules f)) (\<lambda>rs.
         let state = \<lparr>st_NextGeneration = (if sf_NextGeneration f = 0 then 1 else sf_NextGeneration f), st_Rules = rs\<rparr> in
         case stable_Validate sha state of Some e \<Rightarrow> Inl (ErrState e) | None \<Rightarrow> Inr state)))"

text \<open>The operations return their result and the state in memory; \<open>saved\<close> is whether the file was written.\<close>

definition store_Remember :: "(string \<Rightarrow> string) \<Rightarrow> bool \<Rightarrow> State \<Rightarrow> Kind \<Rightarrow> string \<Rightarrow> string \<Rightarrow> stable_Decision \<Rightarrow>
    (u64 \<times> bool) \<times> State" where
  "store_Remember sha saved s kind canonical displayIdentity dec = (case NewKey sha kind canonical of
     None \<Rightarrow> ((0, False), s)
   | Some key \<Rightarrow>
      (let expected = map_option sr_Generation (RuleForKey s key) in
       case ApplySet s \<lparr>se_Key = key, se_DisplayIdentity = displayIdentity, se_Decision = dec,
           se_ExpectedGeneration = expected\<rparr> of (next, status) \<Rightarrow>
         if status \<noteq> Applied then ((0, False), s)
         else if \<not> saved then ((0, False), next)
         else ((case RuleForKey next key of Some r \<Rightarrow> sr_ID r | None \<Rightarrow> 0, True), next)))"

definition store_Revoke :: "bool \<Rightarrow> State \<Rightarrow> u64 \<Rightarrow> bool \<times> State" where
  "store_Revoke saved s n = (case RuleForID s n of
     None \<Rightarrow> (False, s)
   | Some r \<Rightarrow> (case ApplyRevoke s \<lparr>re_ID = n, re_ExpectedGeneration = sr_Generation r\<rparr> of (next, status) \<Rightarrow>
       if status \<noteq> Applied then (False, s) else (saved, next)))"

definition store_Reset :: "bool \<Rightarrow> State \<Rightarrow> bool \<times> State" where
  "store_Reset saved s =
    (if st_Rules s = [] then (False, s)
     else let next = NewState\<lparr>st_NextGeneration := st_NextGeneration s + 1\<rparr> in
       if st_NextGeneration next = 0 then (False, s) else (saved, next))"

definition store_Resolve :: "(string \<Rightarrow> string) \<Rightarrow> State \<Rightarrow> Kind \<Rightarrow> string \<Rightarrow> stable_Decision \<times> bool" where
  "store_Resolve sha s kind canonical = (case NewKey sha kind canonical of None \<Rightarrow> (stable_Deny, False)
     | Some key \<Rightarrow> Decide s key)"

definition store_List :: "State \<Rightarrow> Rule list" where
  "store_List s = Sorted s"

section \<open>Validity\<close>

definition goodRule :: "(string \<Rightarrow> string) \<Rightarrow> u64 \<Rightarrow> Rule \<Rightarrow> bool" where
  "goodRule sha next r \<longleftrightarrow> \<not> badRule next r \<and> rk_Digest (sr_Key r) = sha (rk_Canonical (sr_Key r))"

lemma validateRules_iff:
  "validateRules sha next ids keys rs = None \<longleftrightarrow> list_all (goodRule sha next) rs
    \<and> distinct (map sr_ID rs) \<and> set (map sr_ID rs) \<inter> set ids = {}
    \<and> distinct (map sr_Key rs) \<and> set (map sr_Key rs) \<inter> set keys = {}"
  by (induction rs arbitrary: ids keys) (auto simp: goodRule_def)

lemma Validate_iff:
  "stable_Validate sha s = None \<longleftrightarrow> st_NextGeneration s \<noteq> 0 \<and> length (st_Rules s) \<le> maxRules
    \<and> list_all (goodRule sha (st_NextGeneration s)) (st_Rules s)
    \<and> distinct (map sr_ID (st_Rules s)) \<and> distinct (map sr_Key (st_Rules s))"
  by (auto simp: stable_Validate_def validateRules_iff)

text \<open>A generation below the largest has a successor above it.\<close>

lemma succ_above:
  fixes g x :: u64
  assumes "g + 1 \<noteq> 0"
  shows "g < g + 1" and "x < g \<Longrightarrow> x < g + 1" and "x \<le> g \<Longrightarrow> x < g + 1"
proof -
  have "unat (g + 1) = Suc (unat g)" using assms unatSuc [of g] by (simp add: add.commute)
  then show "g < g + 1" "x < g \<Longrightarrow> x < g + 1" "x \<le> g \<Longrightarrow> x < g + 1"
    by (simp_all add: word_less_nat_alt word_le_nat_alt)
qed

lemma keyIndexFrom_Some:
  "keyIndexFrom i key rs = Some idx \<Longrightarrow> i \<le> idx \<and> idx - i < length rs \<and> key_Equal (sr_Key (rs ! (idx - i))) key
    \<and> (\<forall>j < idx - i. \<not> key_Equal (sr_Key (rs ! j)) key)"
proof (induction rs arbitrary: i)
  case (Cons r rs)
  show ?case
  proof (cases "key_Equal (sr_Key r) key")
    case False
    with Cons.prems have "keyIndexFrom (Suc i) key rs = Some idx" by simp
    note IH = Cons.IH [OF this]
    then have "idx - i = Suc (idx - Suc i)" by (intro Suc_diff_Suc [symmetric]) linarith
    with IH False show ?thesis by (auto simp: less_Suc_eq_0_disj)
  qed (use Cons.prems in auto)
qed simp

lemma keyIndex_Some:
  assumes "keyIndex s key = Some idx"
  shows "idx < length (st_Rules s)" and "key_Equal (sr_Key (st_Rules s ! idx)) key"
  using keyIndexFrom_Some [of 0 key "st_Rules s" idx] assms by (auto simp: keyIndex_def)

lemma keyIndexFrom_None: "keyIndexFrom i key rs = None \<longleftrightarrow> list_all (\<lambda>r. \<not> key_Equal (sr_Key r) key) rs"
  by (induction rs arbitrary: i) auto

lemma keyIndex_None: "keyIndex s key = None \<longleftrightarrow> list_all (\<lambda>r. \<not> key_Equal (sr_Key r) key) (st_Rules s)"
  by (simp add: keyIndex_def keyIndexFrom_None)

lemma idIndexFrom_Some:
  "idIndexFrom i n rs = Some idx \<Longrightarrow> i \<le> idx \<and> idx - i < length rs \<and> sr_ID (rs ! (idx - i)) = n"
proof (induction rs arbitrary: i)
  case (Cons r rs)
  show ?case
  proof (cases "sr_ID r = n")
    case False
    with Cons.prems have "idIndexFrom (Suc i) n rs = Some idx" by simp
    note IH = Cons.IH [OF this]
    then have "idx - i = Suc (idx - Suc i)" by (intro Suc_diff_Suc [symmetric]) linarith
    with IH show ?thesis by auto
  qed (use Cons.prems in auto)
qed simp

lemma goodRule_later: "g + 1 \<noteq> 0 \<Longrightarrow> goodRule sha g r \<Longrightarrow> goodRule sha (g + 1) r"
  using succ_above(2) [of g] by (auto simp: goodRule_def badRule_def not_le)

lemma map_same_update: "i < length xs \<Longrightarrow> f y = f (xs ! i) \<Longrightarrow> map f (xs[i := y]) = map f xs"
  by (metis list_update_id map_update)

lemma ApplySet_valid:
  assumes v: "stable_Validate sha s = None" and k: "rk_Digest (se_Key ev) = sha (rk_Canonical (se_Key ev))"
  shows "stable_Validate sha (fst (ApplySet s ev)) = None"
proof (cases "snd (ApplySet s ev) = Applied")
  case False
  then have "fst (ApplySet s ev) = s" by (auto simp: ApplySet_def Let_def split: if_splits option.splits)
  with v show ?thesis by simp
next
  case True
  let ?g = "st_NextGeneration s"
  from v have val: "?g \<noteq> 0" "length (st_Rules s) \<le> maxRules" "list_all (goodRule sha ?g) (st_Rules s)"
    "distinct (map sr_ID (st_Rules s))" "distinct (map sr_Key (st_Rules s))" by (auto simp: Validate_iff)
  from True have nz: "?g + 1 \<noteq> 0" and ev: "length (se_DisplayIdentity ev) \<noteq> 0" "length (rk_Canonical (se_Key ev)) \<noteq> 0"
    "length (rk_Canonical (se_Key ev)) \<le> maxIdentityBytes"
    by (auto simp: ApplySet_def Let_def split: if_splits)
  have later: "list_all (goodRule sha (?g + 1)) (st_Rules s)"
    using val(3) goodRule_later [OF nz] by (auto simp: list_all_iff)
  note above = succ_above [OF nz]
  show ?thesis
  proof (cases "keyIndex s (se_Key ev)")
    case (Some idx)
    let ?r = "st_Rules s ! idx"
    let ?r' = "?r\<lparr>sr_DisplayIdentity := se_DisplayIdentity ev, sr_Decision := se_Decision ev, sr_Generation := ?g\<rparr>"
    have idx: "idx < length (st_Rules s)" using keyIndex_Some [OF Some] by simp
    then have "goodRule sha ?g ?r" using val(3) by (simp add: list_all_length)
    then have "goodRule sha (?g + 1) ?r'"
      using above val(1) ev(1) by (auto simp: goodRule_def badRule_def not_le intro: less_imp_le)
    then have "list_all (goodRule sha (?g + 1)) ((st_Rules s)[idx := ?r'])"
      using later set_update_subset_insert [of "st_Rules s" idx ?r'] by (auto simp: list_all_iff)
    moreover have "fst (ApplySet s ev) = s\<lparr>st_Rules := (st_Rules s)[idx := ?r'], st_NextGeneration := ?g + 1\<rparr>"
      using True Some by (auto simp: ApplySet_def Let_def split: if_splits)
    ultimately show ?thesis using val nz idx by (simp add: Validate_iff map_same_update)
  next
    case None
    let ?r = "\<lparr>sr_ID = ?g, sr_Key = se_Key ev, sr_DisplayIdentity = se_DisplayIdentity ev, sr_Decision = se_Decision ev,
      sr_Generation = ?g\<rparr>"
    have fst: "fst (ApplySet s ev) = s\<lparr>st_Rules := st_Rules s @ [?r], st_NextGeneration := ?g + 1\<rparr>"
      and room: "length (st_Rules s) < maxRules"
      using True None by (auto simp: ApplySet_def Let_def split: if_splits)
    have "goodRule sha (?g + 1) ?r" using above val(1) ev k by (auto simp: goodRule_def badRule_def not_le)
    moreover have "?g \<notin> sr_ID ` set (st_Rules s)"
      using val(3) by (auto simp: list_all_iff goodRule_def badRule_def)
    moreover have "se_Key ev \<notin> sr_Key ` set (st_Rules s)"
      using None by (auto simp: keyIndex_None list_all_iff key_Equal_def)
    ultimately show ?thesis unfolding fst using val later nz room by (simp add: Validate_iff)
  qed
qed

lemma ApplyRevoke_valid:
  assumes v: "stable_Validate sha s = None"
  shows "stable_Validate sha (fst (ApplyRevoke s ev)) = None"
proof (cases "snd (ApplyRevoke s ev) = Applied")
  case False
  then have "fst (ApplyRevoke s ev) = s" by (auto simp: ApplyRevoke_def Let_def split: if_splits option.splits)
  with v show ?thesis by simp
next
  case True
  let ?g = "st_NextGeneration s"
  from True obtain idx where idx: "fst (ApplyRevoke s ev) =
      s\<lparr>st_Rules := take idx (st_Rules s) @ drop (idx + 1) (st_Rules s), st_NextGeneration := ?g + 1\<rparr>" "?g + 1 \<noteq> 0"
    by (auto simp: ApplyRevoke_def Let_def split: if_splits option.splits)
  have cut: "distinct (map f (take idx rs @ drop (Suc idx) rs))" if "distinct (map f rs)" for f and rs :: "Rule list"
    using that distinct_take [of "map f rs" idx] distinct_drop [of "map f rs" "Suc idx"]
      set_take_disj_set_drop_if_distinct [of "map f rs" idx "Suc idx"]
    by (simp add: take_map drop_map)
  have "set (take idx (st_Rules s) @ drop (Suc idx) (st_Rules s)) \<subseteq> set (st_Rules s)"
    by (auto dest: in_set_takeD in_set_dropD)
  then have "list_all (goodRule sha (?g + 1)) (take idx (st_Rules s) @ drop (Suc idx) (st_Rules s))"
    using v goodRule_later [OF idx(2)] by (auto simp: Validate_iff list_all_iff)
  moreover have "length (take idx (st_Rules s) @ drop (Suc idx) (st_Rules s)) \<le> length (st_Rules s)" by simp
  ultimately show ?thesis using v cut [of sr_ID "st_Rules s"] cut [of sr_Key "st_Rules s"] idx
    by (simp add: Validate_iff)
qed

section \<open>The store keeps a valid state and never reuses an id\<close>

text \<open>The requests a session makes of its store, each with the fate of the file write.\<close>

datatype store_op = Remember bool Kind string string stable_Decision | Revoke bool u64 | Reset bool

fun store_step :: "(string \<Rightarrow> string) \<Rightarrow> State \<Rightarrow> store_op \<Rightarrow> State" where
  "store_step sha s (Remember saved kind c d dec) = snd (store_Remember sha saved s kind c d dec)"
| "store_step sha s (Revoke saved n) = snd (store_Revoke saved s n)"
| "store_step sha s (Reset saved) = snd (store_Reset saved s)"

lemma NewKey_digest: "NewKey sha kind c = Some key \<Longrightarrow> rk_Digest key = sha (rk_Canonical key)"
  by (auto simp: NewKey_def split: if_splits)

lemma Remember_state:
  "snd (store_Remember sha saved s kind c d dec) = s \<or>
   (\<exists>ev. rk_Digest (se_Key ev) = sha (rk_Canonical (se_Key ev)) \<and> snd (ApplySet s ev) = Applied
      \<and> snd (store_Remember sha saved s kind c d dec) = fst (ApplySet s ev))"
proof (cases "NewKey sha kind c")
  case (Some key)
  let ?ev = "\<lparr>se_Key = key, se_DisplayIdentity = d, se_Decision = dec,
    se_ExpectedGeneration = map_option sr_Generation (RuleForKey s key)\<rparr>"
  have "rk_Digest (se_Key ?ev) = sha (rk_Canonical (se_Key ?ev))" using NewKey_digest [OF Some] by simp
  then show ?thesis
    by (cases "ApplySet s ?ev") (auto simp: store_Remember_def Some Let_def split: if_splits intro!: exI [of _ ?ev])
qed (simp add: store_Remember_def)

lemma Revoke_state:
  "snd (store_Revoke saved s n) = s \<or>
   (\<exists>ev. snd (ApplyRevoke s ev) = Applied \<and> snd (store_Revoke saved s n) = fst (ApplyRevoke s ev))"
proof (cases "RuleForID s n")
  case (Some r)
  let ?ev = "\<lparr>re_ID = n, re_ExpectedGeneration = sr_Generation r\<rparr>"
  show ?thesis
    by (cases "ApplyRevoke s ?ev") (auto simp: store_Revoke_def Some split: if_splits intro!: exI [of _ ?ev])
qed (simp add: store_Revoke_def)

lemma Reset_state:
  "snd (store_Reset saved s) = s \<or>
   st_NextGeneration s + 1 \<noteq> 0 \<and> snd (store_Reset saved s) = \<lparr>st_NextGeneration = st_NextGeneration s + 1, st_Rules = []\<rparr>"
  by (auto simp: store_Reset_def NewState_def Let_def)

lemma store_step_valid: "stable_Validate sha s = None \<Longrightarrow> stable_Validate sha (store_step sha s x) = None"
proof (cases x)
  case (Remember saved kind c d dec)
  moreover assume "stable_Validate sha s = None"
  ultimately show ?thesis using Remember_state [of sha saved s kind c d dec] ApplySet_valid by auto
next
  case (Revoke saved n)
  moreover assume "stable_Validate sha s = None"
  ultimately show ?thesis using Revoke_state [of saved s n] ApplyRevoke_valid by auto
next
  case (Reset saved)
  moreover assume "stable_Validate sha s = None"
  ultimately show ?thesis using Reset_state [of saved s] by (auto simp: Validate_iff)
qed

text \<open>From one state to a later one: generations only grow, and an id handed out earlier still means its key.\<close>

definition succeeds :: "State \<Rightarrow> State \<Rightarrow> bool" where
  "succeeds s s' \<longleftrightarrow> st_NextGeneration s \<le> st_NextGeneration s' \<and>
     (\<forall>r' \<in> set (st_Rules s'). sr_ID r' < st_NextGeneration s \<longrightarrow>
        (\<exists>r \<in> set (st_Rules s). sr_ID r = sr_ID r' \<and> sr_Key r = sr_Key r'))"

lemma succeeds_refl: "succeeds s s"
  by (auto simp: succeeds_def)

lemma succeeds_trans: "succeeds s s' \<Longrightarrow> succeeds s' s'' \<Longrightarrow> succeeds s s''"
proof -
  assume a: "succeeds s s'" and b: "succeeds s' s''"
  have "\<exists>r \<in> set (st_Rules s). sr_ID r = sr_ID r' \<and> sr_Key r = sr_Key r'"
    if r': "r' \<in> set (st_Rules s'')" "sr_ID r' < st_NextGeneration s" for r'
  proof -
    have "sr_ID r' < st_NextGeneration s'" using r'(2) a unfolding succeeds_def by (meson order.strict_trans2)
    with b r'(1) obtain r1 where r1: "r1 \<in> set (st_Rules s')" "sr_ID r1 = sr_ID r'" "sr_Key r1 = sr_Key r'"
      unfolding succeeds_def by blast
    with a r'(2) obtain r where "r \<in> set (st_Rules s)" "sr_ID r = sr_ID r1" "sr_Key r = sr_Key r1"
      unfolding succeeds_def by metis
    with r1 show ?thesis by auto
  qed
  moreover have "st_NextGeneration s \<le> st_NextGeneration s''" using a b unfolding succeeds_def by (meson order_trans)
  ultimately show ?thesis unfolding succeeds_def by blast
qed

lemma ApplySet_succeeds:
  assumes "snd (ApplySet s ev) = Applied"
  shows "succeeds s (fst (ApplySet s ev))"
proof (cases "keyIndex s (se_Key ev)")
  case (Some idx)
  have idx: "idx < length (st_Rules s)" using keyIndex_Some [OF Some] by simp
  have nz: "st_NextGeneration s + 1 \<noteq> 0" using assms by (auto simp: ApplySet_def Let_def split: if_splits)
  have "\<exists>r \<in> set (st_Rules s). sr_ID r = sr_ID r' \<and> sr_Key r = sr_Key r'"
    if r': "r' \<in> set ((st_Rules s)[idx := y])" and y: "sr_ID y = sr_ID (st_Rules s ! idx)" "sr_Key y = sr_Key (st_Rules s ! idx)"
    for r' y
  proof (cases "r' = y")
    case True
    with y nth_mem [OF idx] show ?thesis by auto
  next
    case False
    with r' set_update_subset_insert [of "st_Rules s" idx y] have "r' \<in> set (st_Rules s)" by auto
    then show ?thesis by auto
  qed
  then show ?thesis using assms Some succ_above(1) [OF nz]
    by (auto simp: ApplySet_def Let_def succeeds_def split: if_splits intro: less_imp_le)
next
  case None
  have nz: "st_NextGeneration s + 1 \<noteq> 0" using assms by (auto simp: ApplySet_def Let_def split: if_splits)
  show ?thesis using assms None succ_above(1) [OF nz]
    by (auto simp: ApplySet_def Let_def succeeds_def split: if_splits intro: less_imp_le)
qed

lemma ApplyRevoke_succeeds:
  assumes "snd (ApplyRevoke s ev) = Applied"
  shows "succeeds s (fst (ApplyRevoke s ev))"
proof -
  from assms obtain idx where idx: "fst (ApplyRevoke s ev) =
      s\<lparr>st_Rules := take idx (st_Rules s) @ drop (idx + 1) (st_Rules s), st_NextGeneration := st_NextGeneration s + 1\<rparr>"
      "st_NextGeneration s + 1 \<noteq> 0"
    by (auto simp: ApplyRevoke_def Let_def split: if_splits option.splits)
  show ?thesis unfolding idx(1) succeeds_def using succ_above(1) [OF idx(2)]
    by (auto intro: less_imp_le dest: in_set_takeD in_set_dropD)
qed

lemma store_step_succeeds: "succeeds s (store_step sha s x)"
proof (cases x)
  case (Remember saved kind c d dec)
  then show ?thesis using Remember_state [of sha saved s kind c d dec] ApplySet_succeeds succeeds_refl by auto
next
  case (Revoke saved n)
  then show ?thesis using Revoke_state [of saved s n] ApplyRevoke_succeeds succeeds_refl by auto
next
  case (Reset saved)
  then show ?thesis using Reset_state [of saved s] succeeds_refl [of s] succ_above(1) [of "st_NextGeneration s"]
    by (auto simp: succeeds_def intro: less_imp_le)
qed

lemma store_run_succeeds: "succeeds s (foldl (store_step sha) s ops)"
  by (induction ops arbitrary: s) (auto intro: succeeds_refl succeeds_trans store_step_succeeds)

lemma store_run_valid: "stable_Validate sha s = None \<Longrightarrow> stable_Validate sha (foldl (store_step sha) s ops) = None"
  by (induction ops arbitrary: s) (simp_all add: store_step_valid)

text \<open>
  C7. Ids are stable: whatever requests a session makes, and whether or not the file can be written, the state stays
  one that validation accepts, within the bound on the number of rules, and an id handed out at some time never
  comes to mean another identity later; the generation counter refuses to wrap instead of reusing ids.
\<close>

theorem stable_ids:
  fixes sha ops ops'
  defines "s \<equiv> foldl (store_step sha) NewState ops" and "s' \<equiv> foldl (store_step sha) NewState (ops @ ops')"
  shows "stable_Validate sha s' = None
    \<and> (case (RuleForID s n, RuleForID s' n) of (Some r, Some r') \<Rightarrow> sr_Key r' = sr_Key r | _ \<Rightarrow> True)"
proof -
  have new: "stable_Validate sha NewState = None" by (simp add: NewState_def Validate_iff)
  have v: "stable_Validate sha s = None" "stable_Validate sha s' = None"
    unfolding s_def s'_def by (rule store_run_valid [OF new])+
  have suc: "succeeds s s'" unfolding s_def s'_def foldl_append by (rule store_run_succeeds)
  have key: "sr_Key r' = sr_Key r" if r: "RuleForID s n = Some r" "RuleForID s' n = Some r'" for r r'
  proof -
    from r have m: "r \<in> set (st_Rules s)" "sr_ID r = n" "r' \<in> set (st_Rules s')" "sr_ID r' = n"
      by (auto simp: RuleForID_def find_Some_iff)
    have "sr_ID r < st_NextGeneration s" using v(1) m(1)
      by (auto simp: Validate_iff list_all_iff goodRule_def badRule_def not_le)
    with suc m obtain r0 where "r0 \<in> set (st_Rules s)" "sr_ID r0 = n" "sr_Key r0 = sr_Key r'"
      unfolding succeeds_def by auto
    moreover have "inj_on sr_ID (set (st_Rules s))" using v(1) unfolding Validate_iff distinct_map by blast
    ultimately have "r0 = r" using m(1,2) unfolding inj_on_def by blast
    with \<open>sr_Key r0 = sr_Key r'\<close> show ?thesis by simp
  qed
  show ?thesis
  proof (cases "\<exists>r r'. RuleForID s n = Some r \<and> RuleForID s' n = Some r'")
    case True
    then obtain r r' where r: "RuleForID s n = Some r" "RuleForID s' n = Some r'" by blast
    from key [OF r] v(2) show ?thesis by (simp add: r)
  next
    case False
    with v(2) show ?thesis by (auto split: option.split)
  qed
qed

section \<open>Rules as a map\<close>

text \<open>
  What a store of decisions promises its clients: remembering a decision sets it for that identity and for no
  other, forgetting removes it, and the invariant is kept. A client then sees a finite map.
\<close>

locale decision_store =
  fixes inv :: "'s \<Rightarrow> bool"
    and lookup :: "'s \<Rightarrow> 'k \<Rightarrow> 'd option"
    and remember :: "'s \<Rightarrow> 'k \<Rightarrow> 'd \<Rightarrow> 's option"
    and forget :: "'s \<Rightarrow> 'k \<Rightarrow> 's option"
    and same :: "'k \<Rightarrow> 'k \<Rightarrow> bool"
  assumes remember_inv: "inv s \<Longrightarrow> remember s k d = Some s' \<Longrightarrow> inv s'"
    and forget_inv: "inv s \<Longrightarrow> forget s k = Some s' \<Longrightarrow> inv s'"
    and same_refl: "same k k"
    and lookup_remember: "inv s \<Longrightarrow> remember s k d = Some s' \<Longrightarrow> lookup s' k' = (if same k k' then Some d else lookup s k')"
    and lookup_forget: "inv s \<Longrightarrow> forget s k = Some s' \<Longrightarrow> lookup s' k' = (if same k k' then None else lookup s k')"
begin

lemma last_answer_wins:
  "inv s \<Longrightarrow> remember s k d = Some s' \<Longrightarrow> remember s' k d' = Some s'' \<Longrightarrow> lookup s'' k = Some d'"
  using lookup_remember [of s' k d' s'' k] remember_inv [of s k d s'] same_refl [of k] by simp

lemma forget_last:
  "inv s \<Longrightarrow> remember s k d = Some s' \<Longrightarrow> forget s' k = Some s'' \<Longrightarrow>
    lookup s'' k' = (if same k k' then None else lookup s k')"
  using lookup_forget [of s' k s'' k'] remember_inv [of s k d s'] lookup_remember [of s k d s' k'] by simp

end

text \<open>The exact rules by kind and canonical identity, for requests whose file write succeeds.\<close>

definition exactLookup :: "(string \<Rightarrow> string) \<Rightarrow> State \<Rightarrow> Kind \<times> string \<Rightarrow> stable_Decision option" where
  "exactLookup sha s k = (case store_Resolve sha s (fst k) (snd k) of (dec, found) \<Rightarrow> if found then Some dec else None)"

definition exactRemember :: "(string \<Rightarrow> string) \<Rightarrow> string \<Rightarrow> State \<Rightarrow> Kind \<times> string \<Rightarrow> stable_Decision \<Rightarrow> State option" where
  "exactRemember sha display s k dec = (case store_Remember sha True s (fst k) (snd k) display dec of ((_, ok), s') \<Rightarrow>
     if ok then Some s' else None)"

definition exactForget :: "(string \<Rightarrow> string) \<Rightarrow> State \<Rightarrow> Kind \<times> string \<Rightarrow> State option" where
  "exactForget sha s k = Option.bind (NewKey sha (fst k) (snd k)) (\<lambda>key. Option.bind (RuleForKey s key) (\<lambda>r.
     case store_Revoke True s (sr_ID r) of (ok, s') \<Rightarrow> if ok then Some s' else None))"

text \<open>The rule of a key, by search.\<close>

lemma RuleForKey_find: "RuleForKey s key = find (\<lambda>r. key_Equal (sr_Key r) key) (st_Rules s)"
proof -
  have "map_option (\<lambda>i. rs ! (i - n)) (keyIndexFrom n key rs) = find (\<lambda>r. key_Equal (sr_Key r) key) rs" for n rs
  proof (induction rs arbitrary: n)
    case (Cons r rs)
    have "map_option (\<lambda>i. (r # rs) ! (i - n)) (keyIndexFrom (Suc n) key rs) =
        map_option (\<lambda>i. rs ! (i - Suc n)) (keyIndexFrom (Suc n) key rs)"
    proof (cases "keyIndexFrom (Suc n) key rs")
      case (Some i)
      then have "i - n = Suc (i - Suc n)" using keyIndexFrom_Some [OF Some] by (intro Suc_diff_Suc [symmetric]) linarith
      with Some show ?thesis by simp
    qed simp
    with Cons show ?case by simp
  qed simp
  from this [of "st_Rules s" 0] show ?thesis by (simp add: RuleForKey_def keyIndex_def)
qed

lemma Decide_find:
  "Decide s key = (case find (\<lambda>r. key_Equal (sr_Key r) key) (st_Rules s) of None \<Rightarrow> (stable_Deny, False) | Some r \<Rightarrow> (sr_Decision r, True))"
  unfolding RuleForKey_find [symmetric] by (auto simp: Decide_def RuleForKey_def split: option.splits)

lemma find_update:
  assumes "i < length rs" and "key_Equal (sr_Key (rs ! i)) key" and "\<forall>j < i. \<not> key_Equal (sr_Key (rs ! j)) key"
    and "sr_Key y = sr_Key (rs ! i)"
  shows "find (\<lambda>r. key_Equal (sr_Key r) key') (rs[i := y]) =
    (if key_Equal key key' then Some y else find (\<lambda>r. key_Equal (sr_Key r) key') rs)"
  using assms
proof (induction rs arbitrary: i)
  case (Cons r rs)
  show ?case
  proof (cases i)
    case 0
    with Cons.prems show ?thesis by (auto simp: key_Equal_def)
  next
    case (Suc n)
    have "\<not> key_Equal (sr_Key r) key" using Cons.prems(3) Suc by auto
    moreover have "\<forall>j < n. \<not> key_Equal (sr_Key (rs ! j)) key" using Cons.prems(3) Suc by auto
    ultimately show ?thesis using Cons.IH [of n] Cons.prems Suc by (auto simp: key_Equal_def)
  qed
qed simp

lemma find_snoc: "find P (rs @ [y]) = (case find P rs of Some r \<Rightarrow> Some r | None \<Rightarrow> if P y then Some y else None)"
  by (induction rs) auto

definition sameKey :: "(string \<Rightarrow> string) \<Rightarrow> Kind \<times> string \<Rightarrow> Kind \<times> string \<Rightarrow> bool" where
  "sameKey sha k k' \<longleftrightarrow> fst k = fst k' \<and> sha (snd k) = sha (snd k')
     \<and> (NewKey sha (fst k) (snd k) = None \<longleftrightarrow> NewKey sha (fst k') (snd k') = None)"

definition keyOf :: "Rule \<Rightarrow> Kind \<times> string" where
  "keyOf r = (rk_Kind (sr_Key r), rk_Digest (sr_Key r))"

definition exactInv :: "(string \<Rightarrow> string) \<Rightarrow> State \<Rightarrow> bool" where
  "exactInv sha s \<longleftrightarrow> stable_Validate sha s = None \<and> distinct (map keyOf (st_Rules s))"

lemma lookup_find:
  "exactLookup sha s k = Option.bind (NewKey sha (fst k) (snd k))
     (\<lambda>key. map_option sr_Decision (find (\<lambda>r. key_Equal (sr_Key r) key) (st_Rules s)))"
  by (auto simp: exactLookup_def store_Resolve_def Decide_find split: option.splits)

text \<open>What an applied upsert does to the rules.\<close>

lemma ApplySet_applied:
  assumes "ApplySet s ev = (s', Applied)"
  shows "(\<exists>idx y. keyIndex s (se_Key ev) = Some idx \<and> st_Rules s' = (st_Rules s)[idx := y]
       \<and> sr_Key y = sr_Key (st_Rules s ! idx) \<and> sr_Decision y = se_Decision ev)
    \<or> (\<exists>y. keyIndex s (se_Key ev) = None \<and> st_Rules s' = st_Rules s @ [y] \<and> sr_Key y = se_Key ev
       \<and> sr_Decision y = se_Decision ev)"
  using assms by (auto simp: ApplySet_def Let_def split: if_splits option.splits)

lemma applied_find:
  assumes "ApplySet s ev = (s', Applied)"
  shows "map_option sr_Decision (find (\<lambda>r. key_Equal (sr_Key r) key) (st_Rules s')) =
    (if key_Equal (se_Key ev) key then Some (se_Decision ev)
     else map_option sr_Decision (find (\<lambda>r. key_Equal (sr_Key r) key) (st_Rules s)))"
  using ApplySet_applied [OF assms]
proof (elim disjE exE conjE)
  fix idx y
  assume a: "keyIndex s (se_Key ev) = Some idx" "st_Rules s' = (st_Rules s)[idx := y]"
    "sr_Key y = sr_Key (st_Rules s ! idx)" "sr_Decision y = se_Decision ev"
  from a(1) have "idx < length (st_Rules s)" "key_Equal (sr_Key (st_Rules s ! idx)) (se_Key ev)"
    "\<forall>j < idx. \<not> key_Equal (sr_Key (st_Rules s ! j)) (se_Key ev)"
    using keyIndexFrom_Some [of 0 "se_Key ev" "st_Rules s" idx] by (auto simp: keyIndex_def)
  from find_update [OF this a(3)] a show ?thesis by simp
next
  fix y
  assume a: "keyIndex s (se_Key ev) = None" "st_Rules s' = st_Rules s @ [y]" "sr_Key y = se_Key ev"
    "sr_Decision y = se_Decision ev"
  have "find (\<lambda>r. key_Equal (sr_Key r) key) (st_Rules s) = None" if "key_Equal (se_Key ev) key"
    using a(1) that by (auto simp: keyIndex_None find_None_iff list_all_iff key_Equal_def)
  with a show ?thesis by (auto simp: find_snoc split: option.splits)
qed

lemma applied_keys:
  assumes "ApplySet s ev = (s', Applied)" and "distinct (map keyOf (st_Rules s))"
  shows "distinct (map keyOf (st_Rules s'))"
  using ApplySet_applied [OF assms(1)]
proof (elim disjE exE conjE)
  fix idx y
  assume a: "keyIndex s (se_Key ev) = Some idx" "st_Rules s' = (st_Rules s)[idx := y]" "sr_Key y = sr_Key (st_Rules s ! idx)"
  then show ?thesis using assms(2) keyIndex_Some [OF a(1)] by (simp add: map_same_update keyOf_def)
next
  fix y
  assume "keyIndex s (se_Key ev) = None" "st_Rules s' = st_Rules s @ [y]" "sr_Key y = se_Key ev"
  then show ?thesis using assms(2) by (auto simp: keyIndex_None list_all_iff key_Equal_def keyOf_def)
qed

lemma find_remove:
  assumes "i < length rs" and "distinct (map keyOf rs)"
  shows "find (\<lambda>r. key_Equal (sr_Key r) key) (take i rs @ drop (Suc i) rs) =
    (if key_Equal (sr_Key (rs ! i)) key then None else find (\<lambda>r. key_Equal (sr_Key r) key) rs)"
  using assms
proof (induction rs arbitrary: i)
  case (Cons r rs)
  show ?case
  proof (cases i)
    case 0
    have "find (\<lambda>r. key_Equal (sr_Key r) key) rs = None" if "key_Equal (sr_Key r) key"
      using Cons.prems(2) that by (auto simp: find_None_iff key_Equal_def keyOf_def image_iff)
    with 0 show ?thesis by simp
  next
    case (Suc n)
    have "keyOf (rs ! n) \<noteq> keyOf r" using Cons.prems Suc by (auto simp: image_iff) (metis nth_mem)
    then show ?thesis using Cons.IH [of n] Cons.prems Suc by (auto simp: key_Equal_def keyOf_def)
  qed
qed simp

text \<open>The two requests in terms of the transitions they apply.\<close>

lemma exactRemember_Some:
  assumes "exactRemember sha display s k dec = Some s'"
  obtains key ev where "NewKey sha (fst k) (snd k) = Some key" "se_Key ev = key" "se_Decision ev = dec" "ApplySet s ev = (s', Applied)"
proof -
  obtain key where key: "NewKey sha (fst k) (snd k) = Some key"
    using assms by (cases "NewKey sha (fst k) (snd k)") (auto simp: exactRemember_def store_Remember_def)
  let ?ev = "\<lparr>se_Key = key, se_DisplayIdentity = display, se_Decision = dec,
    se_ExpectedGeneration = map_option sr_Generation (RuleForKey s key)\<rparr>"
  have "ApplySet s ?ev = (s', Applied)"
    using assms by (cases "ApplySet s ?ev") (auto simp: exactRemember_def store_Remember_def key Let_def split: if_splits)
  with key show thesis by (intro that [of key ?ev]) simp_all
qed

lemma idIndexFrom_find: "(idIndexFrom i n rs = None) = (find (\<lambda>r. sr_ID r = n) rs = None)"
  by (induction rs arbitrary: i) auto

lemma exactForget_Some:
  assumes "exactForget sha s k = Some s'" and "distinct (map sr_ID (st_Rules s))"
  obtains key idx where "NewKey sha (fst k) (snd k) = Some key" "idx < length (st_Rules s)"
    "key_Equal (sr_Key (st_Rules s ! idx)) key" "st_Rules s' = take idx (st_Rules s) @ drop (Suc idx) (st_Rules s)"
    "\<exists>ev. s' = fst (ApplyRevoke s ev)"
proof -
  from assms(1) obtain key r where k: "NewKey sha (fst k) (snd k) = Some key" and r: "RuleForKey s key = Some r"
    and c: "(case store_Revoke True s (sr_ID r) of (ok, s') \<Rightarrow> if ok then Some s' else None) = Some s'"
    by (auto simp: exactForget_def bind_eq_Some_conv)
  have v: "store_Revoke True s (sr_ID r) = (True, s')" using c by (cases "store_Revoke True s (sr_ID r)") (auto split: if_splits)
  from r have rin: "r \<in> set (st_Rules s)" "key_Equal (sr_Key r) key" by (auto simp: RuleForKey_find find_Some_iff)
  from v obtain r0 where r0: "RuleForID s (sr_ID r) = Some r0"
    "ApplyRevoke s \<lparr>re_ID = sr_ID r, re_ExpectedGeneration = sr_Generation r0\<rparr> = (s', Applied)"
    by (auto simp: store_Revoke_def split: option.splits prod.splits if_splits)
  then obtain idx where idx: "idIndexFrom 0 (sr_ID r) (st_Rules s) = Some idx"
    "st_Rules s' = take idx (st_Rules s) @ drop (Suc idx) (st_Rules s)"
    by (auto simp: ApplyRevoke_def Let_def split: option.splits if_splits)
  note i = idIndexFrom_Some [OF idx(1), simplified]
  have "st_Rules s ! idx = r" using i rin(1) assms(2) by (auto simp: distinct_map inj_on_def)
  with i idx rin k r0(2) show thesis by (intro that [of key idx]) (auto intro: exI [of _ "\<lparr>re_ID = sr_ID r, re_ExpectedGeneration = sr_Generation r0\<rparr>"])
qed

lemma NewKey_same:
  "NewKey sha (fst k) (snd k) = Some key \<Longrightarrow> NewKey sha (fst k') (snd k') = Some key' \<Longrightarrow> key_Equal key key' \<longleftrightarrow> sameKey sha k k'"
  by (auto simp: NewKey_def key_Equal_def sameKey_def split: if_splits)

interpretation exact: decision_store "exactInv sha" "exactLookup sha" "exactRemember sha display" "exactForget sha" "sameKey sha"
  for sha display
proof unfold_locales
  fix s k d s'
  assume inv: "exactInv sha s" and r: "exactRemember sha display s k d = Some s'"
  from r obtain key ev where e: "NewKey sha (fst k) (snd k) = Some key" "se_Key ev = key" "se_Decision ev = d"
    "ApplySet s ev = (s', Applied)" by (rule exactRemember_Some)
  have "rk_Digest (se_Key ev) = sha (rk_Canonical (se_Key ev))" using NewKey_digest [OF e(1)] e(2) by simp
  then show "exactInv sha s'"
    using inv ApplySet_valid [of sha s ev] applied_keys [OF e(4)] e(4) by (simp add: exactInv_def)
  fix k'
  show "exactLookup sha s' k' = (if sameKey sha k k' then Some d else exactLookup sha s k')"
  proof (cases "NewKey sha (fst k') (snd k')")
    case None
    with e(1) show ?thesis by (auto simp: lookup_find sameKey_def)
  next
    case (Some key')
    with applied_find [OF e(4), of key'] NewKey_same [OF e(1) Some] e(2,3) show ?thesis by (simp add: lookup_find)
  qed
next
  fix s k s'
  assume inv: "exactInv sha s" and f: "exactForget sha s k = Some s'"
  from f inv obtain key idx where e: "NewKey sha (fst k) (snd k) = Some key" "idx < length (st_Rules s)"
    "key_Equal (sr_Key (st_Rules s ! idx)) key" "st_Rules s' = take idx (st_Rules s) @ drop (Suc idx) (st_Rules s)"
    "\<exists>ev. s' = fst (ApplyRevoke s ev)"
    by (elim exactForget_Some) (auto simp: exactInv_def Validate_iff)
  have d: "distinct (map keyOf (st_Rules s))" using inv by (simp add: exactInv_def)
  then have "distinct (map keyOf (st_Rules s'))" unfolding e(4)
    using distinct_take [of "map keyOf (st_Rules s)" idx] distinct_drop [of "map keyOf (st_Rules s)" "Suc idx"]
      set_take_disj_set_drop_if_distinct [of "map keyOf (st_Rules s)" idx "Suc idx"]
    by (simp add: take_map drop_map)
  then show "exactInv sha s'" using e(5) inv ApplyRevoke_valid [of sha s] by (auto simp: exactInv_def)
  fix k'
  show "exactLookup sha s' k' = (if sameKey sha k k' then None else exactLookup sha s k')"
  proof (cases "NewKey sha (fst k') (snd k')")
    case None
    with e(1) show ?thesis by (auto simp: lookup_find sameKey_def)
  next
    case (Some key')
    have "key_Equal (sr_Key (st_Rules s ! idx)) key' \<longleftrightarrow> sameKey sha k k'"
      using NewKey_same [OF e(1) Some] e(3) by (auto simp: key_Equal_def)
    with find_remove [OF e(2) d, of key'] Some show ?thesis by (simp add: lookup_find e(4))
  qed
qed (auto simp: sameKey_def)

text \<open>
  The exact rules are a map from identities to decisions: remembering a decision sets it for that identity, a
  later one replaces it, revoking the rule by its id removes it, and no other identity is ever affected, up to
  collisions of the digest.
\<close>

theorem exact_rules_map:
  assumes "exactInv sha s" and "exactRemember sha display s k dec = Some s1"
  shows "exactLookup sha s1 k' = (if sameKey sha k k' then Some dec else exactLookup sha s k')
    \<and> (case exactRemember sha display s1 k dec' of None \<Rightarrow> True | Some s2 \<Rightarrow> exactLookup sha s2 k = Some dec')
    \<and> (case exactForget sha s1 k of None \<Rightarrow> True
       | Some s2 \<Rightarrow> exactLookup sha s2 k' = (if sameKey sha k k' then None else exactLookup sha s k'))"
  using exact.lookup_remember [OF assms, of k'] exact.last_answer_wins [OF assms, of dec']
    exact.forget_last [OF assms, of _ k'] by (simp split: option.split)

theorem exact_rules_map_witness:
  "\<exists>s1. exactRemember id ''d'' NewState (0, ''git push'') stable_Allow = Some s1 \<and> exactLookup id s1 (0, ''git push'') = Some stable_Allow
     \<and> exactLookup id s1 (0, ''git pull'') = None"
proof -
  have inv: "exactInv id NewState" by (simp add: exactInv_def Validate_iff NewState_def)
  obtain s1 where r: "exactRemember id ''d'' NewState (0, ''git push'') stable_Allow = Some s1"
    by (auto simp: exactRemember_def store_Remember_def NewKey_def maxIdentityBytes_def ApplySet_def NewState_def
        keyIndex_def RuleForKey_def maxRules_def Let_def)
  have "exactLookup id NewState (0, ''git pull'') = None"
    by (simp add: exactLookup_def store_Resolve_def NewKey_def maxIdentityBytes_def Decide_def keyIndex_def NewState_def)
  then show ?thesis
    using r exact_rules_map [OF inv r, of "(0, ''git push'')"] exact_rules_map [OF inv r, of "(0, ''git pull'')"]
    by (auto simp: sameKey_def NewKey_def maxIdentityBytes_def)
qed

section \<open>Persistence\<close>

lemma ruleDoc_dec_enc: "in_i64 (rd_Kind x) \<Longrightarrow> in_i64 (rd_Decision x) \<Longrightarrow> dec_ruleDoc (enc_ruleDoc x) = Inr x"
  by (simp add: enc_ruleDoc_def dec_ruleDoc_def members_ruleDoc_def json_rt ToLower_def lower_char_def)

lemma file_dec_enc:
  "list_all (\<lambda>d. in_i64 (rd_Kind d) \<and> in_i64 (rd_Decision d)) (sf_Rules x) \<Longrightarrow> dec_stableRuleFile (enc_stableRuleFile x) = Inr x"
  by (simp add: enc_stableRuleFile_def dec_stableRuleFile_def json_rt ruleDoc_dec_enc list_all_iff ToLower_def lower_char_def)

text \<open>The rules the program itself makes: a kind of 64 bits and a decision that is allow or deny.\<close>

definition storable :: "Rule \<Rightarrow> bool" where
  "storable r \<longleftrightarrow> in_i64 (rk_Kind (sr_Key r)) \<and> sr_Decision r \<in> {stable_Deny, stable_Allow}"

lemma loadRules_docs:
  "list_all (goodRule sha g) rs \<Longrightarrow> list_all storable rs \<Longrightarrow> loadRules sha (map docOf rs) = Inr rs"
proof (induction rs)
  case (Cons r rs)
  then have k: "NewKey sha (rk_Kind (sr_Key r)) (rk_Canonical (sr_Key r)) = Some (sr_Key r)"
    by (auto simp: NewKey_def goodRule_def badRule_def)
  from Cons show ?case by (auto simp: docOf_def k storable_def stable_Deny_def stable_Allow_def)
qed simp

text \<open>
  Saving and loading restores the store: for every state that validation accepts, the document that is written is
  read back to the same rules, ids, generations and counter.
\<close>

theorem stable_store_roundtrip:
  assumes "stable_Validate sha s = None" and "list_all storable (st_Rules s)"
  shows "store_Load sha (Some (saveState s)) = Inr s"
proof -
  have "list_all (\<lambda>d. in_i64 (rd_Kind d) \<and> in_i64 (rd_Decision d)) (map docOf (st_Rules s))"
    using assms(2) by (auto simp: list_all_iff docOf_def storable_def stable_Deny_def stable_Allow_def in_i64_def)
  then have d: "dec_stableRuleFile (saveState s) = Inr \<lparr>sf_NextGeneration = st_NextGeneration s, sf_Rules = map docOf (st_Rules s)\<rparr>"
    by (simp add: saveState_def file_dec_enc)
  have "st_NextGeneration s \<noteq> 0" "list_all (goodRule sha (st_NextGeneration s)) (st_Rules s)"
    using assms(1) by (auto simp: Validate_iff)
  with assms loadRules_docs [OF _ assms(2), of sha "st_NextGeneration s"] show ?thesis
    using d by (cases s) (simp add: store_Load_def Let_def)
qed

theorem stable_store_roundtrip_witness:
  "store_Load id (Some (saveState (snd (store_Remember id True NewState 0 ''git push'' ''d'' stable_Allow)))) =
   Inr (snd (store_Remember id True NewState 0 ''git push'' ''d'' stable_Allow))"
proof (rule stable_store_roundtrip)
  have s: "snd (store_Remember id True NewState 0 ''git push'' ''d'' stable_Allow) =
      \<lparr>st_NextGeneration = 2, st_Rules = [\<lparr>sr_ID = 1, sr_Key = \<lparr>rk_Kind = 0, rk_Digest = ''git push'', rk_Canonical = ''git push''\<rparr>,
        sr_DisplayIdentity = ''d'', sr_Decision = stable_Allow, sr_Generation = 1\<rparr>]\<rparr>"
    by (simp add: store_Remember_def NewKey_def maxIdentityBytes_def ApplySet_def NewState_def keyIndex_def RuleForKey_def
        maxRules_def Let_def)
  show "stable_Validate id (snd (store_Remember id True NewState 0 ''git push'' ''d'' stable_Allow)) = None"
    unfolding s by (simp add: Validate_iff goodRule_def badRule_def maxRules_def maxIdentityBytes_def word_le_nat_alt)
  show "list_all storable (st_Rules (snd (store_Remember id True NewState 0 ''git push'' ''d'' stable_Allow)))"
    unfolding s by (simp add: storable_def in_i64_def)
qed

end
