(* ===== verification/Turn_Recovery.thy ===== *)
theory Turn_Recovery
  imports Go_Json
begin

text \<open>
  Re-opening a denied call, from \<open>internal/permissions/turnrecovery/turn_recovery.go\<close>: a denied call gets a
  request id, a human approval is bound to the id, and the approval is taken once by the identical call. SHA-256
  and the parser of the argument text (\<open>json.Unmarshal\<close> into a map) are the arguments \<open>sha\<close> and \<open>unmarshal\<close>.
\<close>

section \<open>Identities\<close>

type_synonym ID = string

definition maxTurnDenials :: nat where
  "maxTurnDenials = 64"

record ToolCall =
  tk_Name :: string
  tk_ArgumentsJSON :: string

definition nibble :: "nat \<Rightarrow> char" where
  "nibble n = ''0123456789abcdef'' ! n"

definition id_Hash :: "ID \<Rightarrow> string" where
  "id_Hash i = concat (map (\<lambda>b. [nibble (of_char b div 16), nibble (of_char b mod 16)]) i)"

definition digest :: "(string \<Rightarrow> ID) \<Rightarrow> string \<Rightarrow> string list \<Rightarrow> ID" where
  "digest sha domain parts = sha (domain @ concat parts)"

definition ActionID :: "(string \<Rightarrow> ID) \<Rightarrow> ToolCall \<Rightarrow> ID" where
  "ActionID sha call = digest sha (''fx.permission-action.v1'' @ [CHR 0x00]) [tk_Name call, [CHR 0x00], tk_ArgumentsJSON call]"

definition requestID :: "(string \<Rightarrow> ID) \<Rightarrow> u64 \<Rightarrow> ID" where
  "requestID sha seq = digest sha (''fx.permission-request.v1:'' @ show_nat (unat seq)) []"

text \<open>\<open>strings.Trim(s, " \t\r\n")\<close> and \<open>strings.TrimRight(s, " \t")\<close>\<close>

definition trimBlank :: "char \<Rightarrow> bool" where
  "trimBlank c \<longleftrightarrow> c \<in> {CHR '' '', CHR 0x09, CHR 0x0D, CHR 0x0A}"

definition trimBoth :: "string \<Rightarrow> string" where
  "trimBoth s = rev (dropWhile trimBlank (rev (dropWhile trimBlank s)))"

definition shellPrefixes :: "string list" where
  "shellPrefixes = map (\<lambda>p. p @ '' -c '' @ [CHR 0x27]) [''sh'', ''bash'', ''zsh'', ''/bin/sh'', ''/bin/bash'', ''/bin/zsh'']"

definition recovery_normalizeCommand :: "string \<Rightarrow> string" where
  "recovery_normalizeCommand command =
    (let n0 = trimBoth command;
         n1 = (if HasSuffix n0 '' 2>&1''
               then rev (dropWhile (\<lambda>c. c = CHR '' '' \<or> c = CHR 0x09) (rev (take (length n0 - 5) n0))) else n0)
     in case find (\<lambda>p. HasPrefix n1 p \<and> HasSuffix n1 [CHR 0x27] \<and> length p < length n1) shellPrefixes of
          Some p \<Rightarrow> trimBoth (drop (length p) (take (length n1 - 1) n1))
        | None \<Rightarrow> n1)"

definition SemanticActionID :: "(string \<Rightarrow> ID) \<Rightarrow> (string \<Rightarrow> members option) \<Rightarrow> string \<Rightarrow> ToolCall \<Rightarrow> ID" where
  "SemanticActionID sha unmarshal workspaceRoot call =
    (if tk_Name call \<noteq> [] then
       (case unmarshal (tk_ArgumentsJSON call) of
          Some args \<Rightarrow>
            (case map_of args ''command'' of
               Some (JStr command) \<Rightarrow>
                 (let cwd = (case map_of args ''cwd'' of Some (JStr c) \<Rightarrow> if c = ''.'' then workspaceRoot else c | _ \<Rightarrow> workspaceRoot)
                  in digest sha [] [''command'' @ [CHR 0x00], recovery_normalizeCommand command,
                       [CHR 0x00] @ ''cwd'' @ [CHR 0x00], cwd])
             | _ \<Rightarrow> ActionID sha call)
        | None \<Rightarrow> ActionID sha call)
     else ActionID sha call)"

section \<open>The registry\<close>

record Approval =
  ap_Authority :: string
  ap_HumanApproval :: bool

record approvedAction =
  aa_approval :: Approval
  aa_consumed :: bool

record deniedEntry =
  dn_requestID :: ID
  dn_exactID :: ID
  dn_semanticID :: ID
  dn_call :: ToolCall
  dn_approval :: "approvedAction option"

record Recovery =
  rc_denied :: "deniedEntry list"
  rc_nextRequestSeq :: u64

definition recovery_New :: Recovery where
  "recovery_New = \<lparr>rc_denied = [], rc_nextRequestSeq = 1\<rparr>"

definition zeroID :: ID where
  "zeroID = replicate 32 (CHR 0x00)"

definition RememberAutoDenial :: "(string \<Rightarrow> ID) \<Rightarrow> (string \<Rightarrow> members option) \<Rightarrow> Recovery \<Rightarrow> string \<Rightarrow> ToolCall \<Rightarrow>
    (ID \<times> bool) \<times> Recovery" where
  "RememberAutoDenial sha unmarshal r workspaceRoot call =
    (case find (\<lambda>e. dn_exactID e = ActionID sha call) (rc_denied r) of
       Some e \<Rightarrow> ((dn_requestID e, True), r)
     | None \<Rightarrow>
        if maxTurnDenials \<le> length (rc_denied r) then ((zeroID, False), r)
        else let i = requestID sha (rc_nextRequestSeq r) in
          ((i, True), r\<lparr>rc_nextRequestSeq := rc_nextRequestSeq r + 1,
             rc_denied := rc_denied r @ [\<lparr>dn_requestID = i, dn_exactID = ActionID sha call,
               dn_semanticID = SemanticActionID sha unmarshal workspaceRoot call, dn_call = call, dn_approval = None\<rparr>]\<rparr>))"

definition DeniedCall :: "Recovery \<Rightarrow> ID \<Rightarrow> ToolCall option" where
  "DeniedCall r i = map_option dn_call (find (\<lambda>e. dn_requestID e = i) (rc_denied r))"

definition PreservedOutcome :: "(string \<Rightarrow> ID) \<Rightarrow> (string \<Rightarrow> members option) \<Rightarrow> Recovery \<Rightarrow> string \<Rightarrow> ToolCall \<Rightarrow> bool" where
  "PreservedOutcome sha unmarshal r workspaceRoot call \<longleftrightarrow>
    list_ex (\<lambda>e. dn_semanticID e = SemanticActionID sha unmarshal workspaceRoot call \<and> dn_approval e = None) (rc_denied r)"

fun approveFirst :: "ID \<Rightarrow> Approval \<Rightarrow> deniedEntry list \<Rightarrow> deniedEntry list option" where
  "approveFirst i a [] = None"
| "approveFirst i a (e # es) =
    (if dn_requestID e = i then Some (e\<lparr>dn_approval := Some \<lparr>aa_approval = a, aa_consumed = False\<rparr>\<rparr> # es)
     else map_option (Cons e) (approveFirst i a es))"

definition RememberApproval :: "Recovery \<Rightarrow> ID \<Rightarrow> Approval \<Rightarrow> bool \<times> Recovery" where
  "RememberApproval r i a =
    (if \<not> ap_HumanApproval a then (False, r)
     else case approveFirst i a (rc_denied r) of None \<Rightarrow> (False, r) | Some es \<Rightarrow> (True, r\<lparr>rc_denied := es\<rparr>))"

text \<open>The first entry of the exact call that carries an approval decides.\<close>

fun takeFirst :: "ID \<Rightarrow> deniedEntry list \<Rightarrow> (Approval \<times> deniedEntry list) option" where
  "takeFirst i [] = None"
| "takeFirst i (e # es) =
    (if dn_exactID e \<noteq> i then map_option (\<lambda>(a, es'). (a, e # es')) (takeFirst i es)
     else case dn_approval e of
       None \<Rightarrow> map_option (\<lambda>(a, es'). (a, e # es')) (takeFirst i es)
     | Some ap \<Rightarrow> if aa_consumed ap then None
         else Some (aa_approval ap, e\<lparr>dn_approval := Some (ap\<lparr>aa_consumed := True\<rparr>)\<rparr> # es))"

definition TakeApproval :: "(string \<Rightarrow> ID) \<Rightarrow> Recovery \<Rightarrow> ToolCall \<Rightarrow> Approval option \<times> Recovery" where
  "TakeApproval sha r call = (case takeFirst (ActionID sha call) (rc_denied r) of
     None \<Rightarrow> (None, r) | Some (a, es) \<Rightarrow> (Some a, r\<lparr>rc_denied := es\<rparr>))"

section \<open>Approvals are used once\<close>

definition live :: "deniedEntry \<Rightarrow> bool" where
  "live e \<longleftrightarrow> (case dn_approval e of Some ap \<Rightarrow> \<not> aa_consumed ap | None \<Rightarrow> False)"

definition lives :: "Recovery \<Rightarrow> nat" where
  "lives r = length (filter live (rc_denied r))"

definition humanOnly :: "Recovery \<Rightarrow> bool" where
  "humanOnly r \<longleftrightarrow> list_all (\<lambda>e. case dn_approval e of Some ap \<Rightarrow> ap_HumanApproval (aa_approval ap) | None \<Rightarrow> True) (rc_denied r)"

lemma approveFirst_live: "approveFirst i a es = Some es' \<Longrightarrow> length (filter live es') \<le> Suc (length (filter live es))"
  by (induction es arbitrary: es') (fastforce simp: live_def split: if_splits)+

lemma takeFirst_live: "takeFirst i es = Some (a, es') \<Longrightarrow> length (filter live es) = Suc (length (filter live es'))"
proof (induction es arbitrary: es')
  case (Cons e es)
  then show ?case by (cases "dn_approval e") (auto simp: live_def split: if_splits)
qed simp

lemma approveFirst_length: "approveFirst i a es = Some es' \<Longrightarrow> length es' = length es"
  by (induction es arbitrary: es') (auto split: if_splits)

lemma takeFirst_length: "takeFirst i es = Some (a, es') \<Longrightarrow> length es' = length es"
proof (induction es arbitrary: es')
  case (Cons e es)
  then show ?case by (cases "dn_approval e") (auto split: if_splits)
qed simp

lemma takeFirst_twice: "takeFirst i es = Some (a, es') \<Longrightarrow> takeFirst i es' = None"
proof (induction es arbitrary: es')
  case (Cons e es)
  then show ?case by (cases "dn_approval e") (auto split: if_splits)
qed simp

lemma approveFirst_human:
  "approveFirst i a es = Some es' \<Longrightarrow> ap_HumanApproval a \<Longrightarrow>
    list_all (\<lambda>e. case dn_approval e of Some ap \<Rightarrow> ap_HumanApproval (aa_approval ap) | None \<Rightarrow> True) es \<Longrightarrow>
    list_all (\<lambda>e. case dn_approval e of Some ap \<Rightarrow> ap_HumanApproval (aa_approval ap) | None \<Rightarrow> True) es'"
  by (induction es arbitrary: es') (auto split: if_splits)

lemma takeFirst_human:
  "takeFirst i es = Some (a, es') \<Longrightarrow>
    list_all (\<lambda>e. case dn_approval e of Some ap \<Rightarrow> ap_HumanApproval (aa_approval ap) | None \<Rightarrow> True) es \<Longrightarrow>
    ap_HumanApproval a \<and> list_all (\<lambda>e. case dn_approval e of Some ap \<Rightarrow> ap_HumanApproval (aa_approval ap) | None \<Rightarrow> True) es'"
proof (induction es arbitrary: es')
  case (Cons e es)
  then show ?case by (cases "dn_approval e") (auto split: if_splits)
qed simp

text \<open>The uses of a registry in a turn, in any order.\<close>

datatype recovery_op = Deny string ToolCall | Approve ID Approval | Take ToolCall

text \<open>One step counts the human approvals that were bound and the approvals that were taken.\<close>

fun recovery_step :: "(string \<Rightarrow> ID) \<Rightarrow> (string \<Rightarrow> members option) \<Rightarrow> Recovery \<times> nat \<times> nat \<Rightarrow> recovery_op \<Rightarrow> Recovery \<times> nat \<times> nat" where
  "recovery_step sha unmarshal (r, bound, taken) (Deny root call) = (snd (RememberAutoDenial sha unmarshal r root call), bound, taken)"
| "recovery_step sha unmarshal (r, bound, taken) (Approve i a) =
    (case RememberApproval r i a of (ok, r') \<Rightarrow> (r', if ok then bound + 1 else bound, taken))"
| "recovery_step sha unmarshal (r, bound, taken) (Take call) =
    (case TakeApproval sha r call of (a, r') \<Rightarrow> (r', bound, if a = None then taken else taken + 1))"

definition recovery_ok :: "Recovery \<times> nat \<times> nat \<Rightarrow> bool" where
  "recovery_ok s \<longleftrightarrow> (case s of (r, bound, taken) \<Rightarrow>
     taken + lives r \<le> bound \<and> humanOnly r \<and> length (rc_denied r) \<le> maxTurnDenials)"

lemma recovery_step_ok: "recovery_ok s \<Longrightarrow> recovery_ok (recovery_step sha unmarshal s x)"
proof -
  obtain r bound taken where s: "s = (r, bound, taken)" by (cases s) auto
  assume "recovery_ok s"
  then have ok: "taken + lives r \<le> bound" "humanOnly r" "length (rc_denied r) \<le> maxTurnDenials" by (auto simp: s recovery_ok_def)
  show ?thesis
  proof (cases x)
    case (Deny root call)
    then show ?thesis using ok
      by (auto simp: s recovery_ok_def RememberAutoDenial_def lives_def humanOnly_def live_def Let_def split: option.splits)
  next
    case (Approve i a)
    show ?thesis
    proof (cases "ap_HumanApproval a \<and> approveFirst i a (rc_denied r) \<noteq> None")
      case True
      then obtain es where es: "approveFirst i a (rc_denied r) = Some es" "ap_HumanApproval a" by auto
      show ?thesis using ok es approveFirst_length [OF es(1)]
          approveFirst_live [OF es(1)] approveFirst_human [OF es]
        by (simp add: Approve s recovery_ok_def RememberApproval_def lives_def humanOnly_def)
    next
      case False
      then show ?thesis using ok by (auto simp: Approve s recovery_ok_def RememberApproval_def)
    qed
  next
    case (Take call)
    show ?thesis
    proof (cases "takeFirst (ActionID sha call) (rc_denied r)")
      case None
      then show ?thesis using ok by (simp add: Take s recovery_ok_def TakeApproval_def)
    next
      case (Some p)
      obtain a es where p: "p = (a, es)" by (cases p)
      have t: "takeFirst (ActionID sha call) (rc_denied r) = Some (a, es)" using Some p by simp
      show ?thesis using ok takeFirst_length [OF t] takeFirst_live [OF t] takeFirst_human [OF t]
        by (simp add: Take s recovery_ok_def TakeApproval_def t lives_def humanOnly_def)
    qed
  qed
qed

lemma recovery_run_ok: "recovery_ok s \<Longrightarrow> recovery_ok (foldl (recovery_step sha unmarshal) s ops)"
  by (induction ops arbitrary: s) (simp_all add: recovery_step_ok)

text \<open>
  C29. An approval re-opens a denied call once. However denials, approvals and calls follow each other in a turn, and
  whatever the digest, no more approvals are taken than were bound by a human to a request id; an approval that is
  taken is a human one and is not given again to the same call; and at most 64 denials are kept.
\<close>

theorem recovery_single_use:
  fixes sha unmarshal ops
  defines "s \<equiv> foldl (recovery_step sha unmarshal) (recovery_New, 0, 0) ops"
  shows "snd (snd s) \<le> fst (snd s) \<and> length (rc_denied (fst s)) \<le> maxTurnDenials
    \<and> (case TakeApproval sha (fst s) call of (None, _) \<Rightarrow> True
       | (Some a, r') \<Rightarrow> ap_HumanApproval a \<and> fst (TakeApproval sha r' call) = None)"
proof -
  have "recovery_ok (recovery_New, 0, 0)"
    by (simp add: recovery_ok_def recovery_New_def lives_def humanOnly_def)
  then have "recovery_ok s" unfolding s_def by (rule recovery_run_ok)
  then have ok: "snd (snd s) + lives (fst s) \<le> fst (snd s)" "humanOnly (fst s)" "length (rc_denied (fst s)) \<le> maxTurnDenials"
    by (auto simp: recovery_ok_def split: prod.splits)
  have "ap_HumanApproval a \<and> fst (TakeApproval sha r' call) = None" if "TakeApproval sha (fst s) call = (Some a, r')" for a r'
  proof -
    from that obtain es where t: "takeFirst (ActionID sha call) (rc_denied (fst s)) = Some (a, es)" "rc_denied r' = es"
      by (auto simp: TakeApproval_def split: option.splits prod.splits)
    from takeFirst_human [OF t(1)] takeFirst_twice [OF t(1)] ok(2) t(2) show ?thesis
      by (simp add: humanOnly_def TakeApproval_def)
  qed
  with ok show ?thesis by (auto split: option.split)
qed

text \<open>
  A denied call that was never approved is denied again, but one whose approval has been used is not: the entry
  keeps its consumed approval, so the identical call reaches the prompt each time from then on. Request ids do not
  depend on the call or the session, and a full registry answers with the zero id.
\<close>

theorem consumed_approval_reopens:
  fixes sha unmarshal root call who
  defines "r1 \<equiv> snd (RememberAutoDenial sha unmarshal recovery_New root call)"
  defines "r2 \<equiv> snd (RememberApproval r1 (requestID sha 1) \<lparr>ap_Authority = who, ap_HumanApproval = True\<rparr>)"
  defines "r3 \<equiv> snd (TakeApproval sha r2 call)"
  shows "fst (RememberAutoDenial sha unmarshal recovery_New root call) = (requestID sha 1, True)"
    and "PreservedOutcome sha unmarshal r1 root call"
    and "fst (TakeApproval sha r2 call) = Some \<lparr>ap_Authority = who, ap_HumanApproval = True\<rparr>"
    and "\<not> PreservedOutcome sha unmarshal r3 root call"
    and "\<not> PreservedOutcome sha unmarshal (snd (RememberAutoDenial sha unmarshal r3 root call)) root call"
  by (simp_all add: r3_def r2_def r1_def RememberAutoDenial_def recovery_New_def maxTurnDenials_def PreservedOutcome_def
      RememberApproval_def TakeApproval_def Let_def)

end
