(* ===== verification/Approval_Gate.thy ===== *)
theory Approval_Gate
  imports Turn_Recovery Event_Log Permission_Engine
begin

text \<open>
  The human approval gate for high-risk actions, from \<open>internal/engine/approval_gate.go\<close>,
  \<open>internal/engine/approval_waterfall.go\<close> and the methods \<open>CheckApproval\<close>, \<open>checkApprovalGate\<close>,
  \<open>denyHighRiskAction\<close>, \<open>appendApprovalFact\<close> and \<open>EscalatePermission\<close> of
  \<open>internal/engine/permission_service.go\<close>. The lock that makes check-and-consume one step is the step of the
  model. Answerers (the deciders of the waterfall, \<open>ConfirmFn\<close>, \<open>askUserFn\<close>) are arbitrary functions.
\<close>

section \<open>The gate\<close>

type_synonym ApprovalCategory = string

definition ApprovalFileDeletion :: ApprovalCategory where
  "ApprovalFileDeletion = ''file_deletion''"

definition ApprovalNetwork :: ApprovalCategory where
  "ApprovalNetwork = ''network''"

definition ApprovalDatabaseWrite :: ApprovalCategory where
  "ApprovalDatabaseWrite = ''database_write''"

datatype ApprovalResponse = ApprovalReject | ApprovalApprove | ApprovalApproveForSession | ApprovalApproveForN

record ApprovalRequest =
  aq_ToolName :: string
  aq_Category :: ApprovalCategory
  aq_Summary :: string
  aq_Args :: tool_args
  aq_N :: int

text \<open>A decider answers or abstains.\<close>

type_synonym ApprovalDecider = "ApprovalRequest \<Rightarrow> ApprovalResponse option"

record ApprovalGate =
  ag_Enabled :: bool
  ag_Categories :: "(ApprovalCategory \<times> bool) list"
  ag_FlaggedTools :: "(string \<times> ApprovalCategory) list"
  ag_MaxAutoApprove :: AutonomyLevel
  ag_ConfirmFn :: "(ApprovalRequest \<Rightarrow> ApprovalResponse) option"
  ag_Waterfall :: "ApprovalDecider list option"
  ag_sessionApproved :: "ApprovalCategory list"
  ag_nApprovals :: "ApprovalCategory \<Rightarrow> int"

text \<open>\<open>strconv.Atoi\<close>: an optional sign and decimal digits, within 64 bits.\<close>

definition digitVal :: "char \<Rightarrow> int option" where
  "digitVal c = (let n = of_char c :: nat in if 48 \<le> n \<and> n \<le> 57 then Some (int n - 48) else None)"

fun digitsVal :: "int \<Rightarrow> string \<Rightarrow> int option" where
  "digitsVal acc [] = Some acc"
| "digitsVal acc (c # cs) = (case digitVal c of None \<Rightarrow> None | Some d \<Rightarrow> digitsVal (10 * acc + d) cs)"

definition Atoi :: "string \<Rightarrow> int option" where
  "Atoi s =
    (let neg = HasPrefix s ''-''; ds = (if HasPrefix s ''-'' \<or> HasPrefix s ''+'' then drop 1 s else s) in
     if ds = [] then None
     else case digitsVal 0 ds of None \<Rightarrow> None
       | Some n \<Rightarrow> let v = (if neg then - n else n) in if in_i64 v then Some v else None)"

definition parseApprovalCount :: "string \<Rightarrow> int option" where
  "parseApprovalCount s0 = (let s = TrimPrefix (TrimSuffix (TrimSpace (ToLower s0)) ''x'') ''n'' in
     case Atoi s of Some n \<Rightarrow> if 0 < n then Some n else None | None \<Rightarrow> None)"

definition categoryEnabled :: "ApprovalGate \<Rightarrow> ApprovalCategory \<Rightarrow> bool" where
  "categoryEnabled g c = (if ag_Categories g = [] then True else map_of (ag_Categories g) c = Some True)"

definition isDestructiveDelete :: "string \<Rightarrow> bool" where
  "isDestructiveDelete cmd \<longleftrightarrow> list_ex (Contains (ToLower cmd))
     [''rm -rf'', ''rm -r '', ''rm -f'', ''rm '', ''rmdir '', ''unlink '', ''shred '']"

definition isNetworkCommand :: "string \<Rightarrow> bool" where
  "isNetworkCommand cmd \<longleftrightarrow> list_ex (Contains (ToLower cmd))
     [''curl '', ''wget '', ''nc '', ''ssh '', ''scp '', ''ftp '', ''git push'', ''git pull'', ''git fetch'', ''npm install'',
      ''pip install'', ''go get '']"

definition classifyAction :: "ApprovalGate \<Rightarrow> string \<Rightarrow> tool_args \<Rightarrow> ApprovalCategory option" where
  "classifyAction g toolName args = (let canon = canonicalToolName toolName in
     case map_of (ag_FlaggedTools g) canon of
       Some cat \<Rightarrow> Some cat
     | None \<Rightarrow>
       if canon \<in> set [''WebFetch'', ''WebSearch'', ''DependencyAudit'', ''GitHub''] then Some ApprovalNetwork
       else if canon = ''Git'' then
         (case str_arg args ''subcommand'' of
            Some sub \<Rightarrow> if sub \<in> set [''fetch'', ''pull'', ''push'', ''clone'', ''remote''] then Some ApprovalNetwork else None
          | None \<Rightarrow> None)
       else if canon = ''SQL'' then (if args ''allow_write'' = Some (JBool True) then Some ApprovalDatabaseWrite else None)
       else if canon = ''Bash'' then
         (case str_arg args ''command'' of
            Some cmd \<Rightarrow> if isDestructiveDelete cmd then Some ApprovalFileDeletion
              else if isNetworkCommand cmd then Some ApprovalNetwork else None
          | None \<Rightarrow> None)
       else None)"

definition sessionApprove :: "ApprovalCategory \<Rightarrow> ApprovalGate \<Rightarrow> ApprovalGate" where
  "sessionApprove cat g = g\<lparr>ag_sessionApproved := List.insert cat (ag_sessionApproved g)\<rparr>"

text \<open>Addition of Go's 64-bit \<open>int\<close>.\<close>

definition add64 :: "int \<Rightarrow> int \<Rightarrow> int" where
  "add64 x y = (x + y + 2 ^ 63) mod 2 ^ 64 - 2 ^ 63"

definition nApprove :: "ApprovalCategory \<Rightarrow> int \<Rightarrow> ApprovalGate \<Rightarrow> ApprovalGate" where
  "nApprove cat n g = g\<lparr>ag_nApprovals := (ag_nApprovals g)(cat := add64 (ag_nApprovals g cat) n)\<rparr>"

definition tryConsumeApproval :: "ApprovalCategory \<Rightarrow> ApprovalGate \<Rightarrow> bool \<times> ApprovalGate" where
  "tryConsumeApproval cat g =
    (if cat \<in> set (ag_sessionApproved g) then (True, g)
     else if 0 < ag_nApprovals g cat then (True, g\<lparr>ag_nApprovals := (ag_nApprovals g)(cat := ag_nApprovals g cat - 1)\<rparr>)
     else (False, g))"

definition approvalSummary :: "string \<Rightarrow> tool_args \<Rightarrow> string" where
  "approvalSummary toolName args = (case str_arg args ''command'' of
     Some cmd \<Rightarrow> if cmd \<noteq> [] then canonicalToolName toolName @ '': '' @ cmd else canonicalToolName toolName
   | None \<Rightarrow> canonicalToolName toolName)"

definition isAffirmative :: "string \<Rightarrow> bool" where
  "isAffirmative ans \<longleftrightarrow> ToLower (TrimSpace ans) \<in> set [''y'', ''yes'', ''approve'', ''ok'', ''allow'', ''true'']"

section \<open>The waterfall\<close>

text \<open>\<open>Add\<close> returns the position its disposer will remove.\<close>

definition waterfall_Add :: "ApprovalDecider list \<Rightarrow> ApprovalDecider \<Rightarrow> ApprovalDecider list \<times> nat" where
  "waterfall_Add w fn = (w @ [fn], length w)"

definition waterfall_remove :: "ApprovalDecider list \<Rightarrow> nat \<Rightarrow> ApprovalDecider list" where
  "waterfall_remove w idx = (if length w \<le> idx then w else take idx w @ drop (idx + 1) w)"

fun waterfall_Decide :: "ApprovalDecider list \<Rightarrow> ApprovalRequest \<Rightarrow> ApprovalResponse \<times> string" where
  "waterfall_Decide [] req = (ApprovalReject,
     ''approval required for '' @ aq_Category req @ '' ('' @ aq_ToolName req @ '') but no answerer is configured'')"
| "waterfall_Decide (fn # w) req = (case fn req of
     Some resp \<Rightarrow> if resp = ApprovalReject
       then (resp, ''approval denied for '' @ aq_Category req @ '' ('' @ aq_ToolName req @ '')'') else (resp, [])
   | None \<Rightarrow> waterfall_Decide w req)"

section \<open>The check\<close>

text \<open>What the check reads and changes of the service.\<close>

record approval_state =
  ps_approval :: "ApprovalGate option"
  ps_autonomy :: AutonomyLevel
  ps_recovery :: "Recovery option"
  ps_journal :: "Log option"

text \<open>
  The parameters of a check: the digest, the parser and printer of argument maps, the fallback answerer (an answer
  or an error) and the time.
\<close>

record approval_env =
  ae_sha :: "string \<Rightarrow> ID"
  ae_unmarshal :: "string \<Rightarrow> members option"
  ae_marshal :: "tool_args \<Rightarrow> string"
  ae_askUserFn :: "(string \<Rightarrow> string option) option"
  ae_now :: gotime

definition approvalRecoveryCall :: "approval_env \<Rightarrow> string \<Rightarrow> tool_args \<Rightarrow> ToolCall" where
  "approvalRecoveryCall en toolName args = \<lparr>tk_Name = toolName, tk_ArgumentsJSON = ae_marshal en args\<rparr>"

definition denyHighRiskAction :: "approval_env \<Rightarrow> approval_state \<Rightarrow> string \<Rightarrow> tool_args \<Rightarrow> string \<Rightarrow> string \<times> approval_state" where
  "denyHighRiskAction en s toolName args baseMsg = (case ps_recovery s of
     None \<Rightarrow> (baseMsg, s)
   | Some r \<Rightarrow> (case RememberAutoDenial (ae_sha en) (ae_unmarshal en) r ''.'' (approvalRecoveryCall en toolName args) of
       ((i, _), r') \<Rightarrow> (baseMsg @ '' permission_request_id: '' @ id_Hash i, s\<lparr>ps_recovery := Some r'\<rparr>)))"

definition gateDenied :: "ApprovalCategory \<Rightarrow> string" where
  "gateDenied cat = ''Action denied by human approval gate ('' @ cat @ '').''"

text \<open>A typed response, from the waterfall or \<open>ConfirmFn\<close>.\<close>

definition applyResponse :: "approval_env \<Rightarrow> approval_state \<Rightarrow> ApprovalGate \<Rightarrow> ApprovalRequest \<Rightarrow> string \<Rightarrow> tool_args \<Rightarrow>
    ApprovalResponse \<Rightarrow> string \<Rightarrow> (bool \<times> string) \<times> approval_state" where
  "applyResponse en s g req toolName args resp denyMsg = (let cat = aq_Category req in case resp of
     ApprovalApproveForSession \<Rightarrow> ((True, []), s\<lparr>ps_approval := Some (sessionApprove cat g)\<rparr>)
   | ApprovalApproveForN \<Rightarrow> ((True, []), s\<lparr>ps_approval := Some (nApprove cat (if aq_N req \<le> 0 then 5 else aq_N req) g)\<rparr>)
   | ApprovalApprove \<Rightarrow> ((True, []), s)
   | ApprovalReject \<Rightarrow> (case denyHighRiskAction en s toolName args denyMsg of (msg, s') \<Rightarrow> ((False, msg), s')))"

text \<open>The answer in words of the fallback answerer.\<close>

definition applyAnswer :: "approval_env \<Rightarrow> approval_state \<Rightarrow> ApprovalGate \<Rightarrow> ApprovalCategory \<Rightarrow> string \<Rightarrow> tool_args \<Rightarrow>
    string option \<Rightarrow> (bool \<times> string) \<times> approval_state" where
  "applyAnswer en s g cat toolName args answer =
    (let reject = (case denyHighRiskAction en s toolName args (gateDenied cat) of (msg, s') \<Rightarrow> ((False, msg), s')) in
     case answer of
       None \<Rightarrow> reject
     | Some ans \<Rightarrow> (let lower = ToLower (TrimSpace ans) in
         if lower \<in> set [''session'', ''s'', ''approve-session'', ''yes-session'']
         then ((True, []), s\<lparr>ps_approval := Some (sessionApprove cat g)\<rparr>)
         else case parseApprovalCount lower of
           Some n \<Rightarrow> ((True, []), s\<lparr>ps_approval := Some (nApprove cat n g)\<rparr>)
         | None \<Rightarrow> if isAffirmative ans then ((True, []), s) else reject))"

text \<open>Asking: the request goes to the journal and to the first kind of answerer that is configured.\<close>

definition askHuman :: "approval_env \<Rightarrow> approval_state \<Rightarrow> ApprovalGate \<Rightarrow> ApprovalCategory \<Rightarrow> string \<Rightarrow> tool_args \<Rightarrow>
    panic + (bool \<times> string) \<times> approval_state" where
  "askHuman en s0 g cat toolName args =
    (let req = \<lparr>aq_ToolName = canonicalToolName toolName, aq_Category = cat, aq_Summary = approvalSummary toolName args,
                aq_Args = args, aq_N = 0\<rparr>;
         asked = \<lparr>aa_Turn = 0, aa_Step = 0, aa_Tool = aq_ToolName req, aa_Category = cat,
                  aa_Question = ''Approve high-risk action ['' @ cat @ '']: '' @ aq_Summary req @ ''?'', aa_ID = [], aa_CallID = []\<rparr>
     in bindE (AppendApprovalAsked asked (ae_now en) (ps_journal s0)) (\<lambda>j.
       let s = s0\<lparr>ps_journal := j\<rparr> in
       Inr (case ag_Waterfall g of
         Some w \<Rightarrow> (case waterfall_Decide w req of (resp, denyMsg) \<Rightarrow> applyResponse en s g req toolName args resp denyMsg)
       | None \<Rightarrow> (case ag_ConfirmFn g of
           Some confirm \<Rightarrow> applyResponse en s g req toolName args (confirm req) (gateDenied cat)
         | None \<Rightarrow> (case ae_askUserFn en of
             Some ask \<Rightarrow> applyAnswer en s g cat toolName args
               (ask (''Approve high-risk action ['' @ cat @ '']: '' @ aq_Summary req @ ''? (yes/no/session/N)''))
           | None \<Rightarrow> ((False, ''High-risk action requires approval but no confirmation handler is configured ('' @ Quote cat @ '').''), s))))))"

text \<open>\<open>checkApprovalGate\<close> returns (allowed, message), whether the human was asked, and the state.\<close>

definition checkApprovalGate :: "approval_env \<Rightarrow> approval_state \<Rightarrow> string \<Rightarrow> tool_args \<Rightarrow>
    panic + (bool \<times> string) \<times> bool \<times> approval_state" where
  "checkApprovalGate en s toolName args = (case ps_approval s of
     None \<Rightarrow> Inr ((True, []), False, s)
   | Some g \<Rightarrow>
      if \<not> ag_Enabled g then Inr ((True, []), False, s)
      else case classifyAction g toolName args of
        None \<Rightarrow> Inr ((True, []), False, s)
      | Some cat \<Rightarrow>
        if \<not> categoryEnabled g cat then Inr ((True, []), False, s)
        else if ps_autonomy s \<le> ag_MaxAutoApprove g then Inr ((True, []), False, s)
        else case tryConsumeApproval cat g of (consumed, g1) \<Rightarrow>
          if consumed then Inr ((True, []), False, s\<lparr>ps_approval := Some g1\<rparr>)
          else let call = approvalRecoveryCall en toolName args;
                   ask = (\<lambda>s. map_sum id (\<lambda>(r, s'). (r, True, s')) (askHuman en s g cat toolName args)) in
            (case ps_recovery s of
               None \<Rightarrow> ask s
             | Some r \<Rightarrow> (case TakeApproval (ae_sha en) r call of (taken, r1) \<Rightarrow>
                 if (case taken of Some a \<Rightarrow> ap_HumanApproval a | None \<Rightarrow> False)
                 then Inr ((True, []), False, s\<lparr>ps_recovery := Some r1\<rparr>)
                 else if PreservedOutcome (ae_sha en) (ae_unmarshal en) r1 ''.'' call then
                   (case RememberAutoDenial (ae_sha en) (ae_unmarshal en) r1 ''.'' call of ((i, _), r2) \<Rightarrow>
                      Inr ((False, gateDenied cat @ '' permission_request_id: '' @ id_Hash i), False, s\<lparr>ps_recovery := Some r2\<rparr>))
                 else ask (s\<lparr>ps_recovery := Some r1\<rparr>))))"

definition appendApprovalFact :: "approval_env \<Rightarrow> approval_state \<Rightarrow> string \<Rightarrow> tool_args \<Rightarrow> bool \<Rightarrow> string \<Rightarrow> bool \<Rightarrow>
    panic + approval_state" where
  "appendApprovalFact en s toolName args allowed msg asked = (case ps_journal s of
     None \<Rightarrow> Inr s
   | Some _ \<Rightarrow>
      (let risk = (case ps_approval s of Some g \<Rightarrow> classifyAction g toolName args | None \<Rightarrow> None);
           category = (case risk of Some cat \<Rightarrow> cat | None \<Rightarrow> []);
           tool = canonicalToolName toolName
       in bindE (AppendPermission \<lparr>pf_Tool = tool, pf_Category = category, pf_Allowed = allowed, pf_Message = msg\<rparr>
              (ae_now en) (ps_journal s)) (\<lambda>j1.
          if asked then
            bindE (AppendApprovalDecided \<lparr>ad_Turn = 0, ad_Step = 0, ad_Tool = tool, ad_Category = category, ad_Allowed = allowed,
                ad_Message = msg, ad_ID = [], ad_Outcome = []\<rparr> (ae_now en) j1) (\<lambda>j2.
            bindE (AppendApprovalPolicy \<lparr>ap_Category = category, ap_Covered = (risk \<noteq> None), ap_PresetName = [], ap_Policy = [],
                ap_Source = []\<rparr> (ae_now en) j2) (\<lambda>j3. Inr (s\<lparr>ps_journal := j3\<rparr>)))
          else Inr (s\<lparr>ps_journal := j1\<rparr>))))"

definition CheckApproval :: "approval_env \<Rightarrow> approval_state \<Rightarrow> string \<Rightarrow> tool_args \<Rightarrow> panic + (bool \<times> string) \<times> approval_state" where
  "CheckApproval en s toolName args =
    bindE (checkApprovalGate en s toolName args) (\<lambda>((allowed, msg), asked, s1).
    bindE (appendApprovalFact en s1 toolName args allowed msg asked) (\<lambda>s2. Inr ((allowed, msg), s2)))"

text \<open>\<open>strconv.ParseUint(s, 16, 8)\<close> of two characters, and the request id in hexadecimal.\<close>

definition hexVal :: "char \<Rightarrow> nat option" where
  "hexVal c = (let n = of_char c :: nat in
     if 48 \<le> n \<and> n \<le> 57 then Some (n - 48) else if 97 \<le> n \<and> n \<le> 102 then Some (n - 87)
     else if 65 \<le> n \<and> n \<le> 70 then Some (n - 55) else None)"

fun hexBytes :: "string \<Rightarrow> string option" where
  "hexBytes (a # b # cs) = (case (hexVal a, hexVal b, hexBytes cs) of
     (Some x, Some y, Some bs) \<Rightarrow> Some (char_of (16 * x + y) # bs) | _ \<Rightarrow> None)"
| "hexBytes _ = Some []"

definition EscalatePermission :: "approval_state \<Rightarrow> string \<Rightarrow> bool \<times> approval_state" where
  "EscalatePermission s reqID = (case ps_recovery s of
     None \<Rightarrow> (False, s)
   | Some r \<Rightarrow>
      if length reqID \<noteq> 64 then (False, s)
      else case hexBytes reqID of
        None \<Rightarrow> (False, s)
      | Some i \<Rightarrow>
        if DeniedCall r i = None then (False, s)
        else case RememberApproval r i \<lparr>ap_Authority = ''escalation'', ap_HumanApproval = True\<rparr> of (ok, r') \<Rightarrow>
          (ok, s\<lparr>ps_recovery := Some r'\<rparr>))"

definition EnableTurnRecovery :: "approval_state \<Rightarrow> approval_state" where
  "EnableTurnRecovery s = (if ps_recovery s = None then s\<lparr>ps_recovery := Some recovery_New\<rparr> else s)"

section \<open>What the gate lets through\<close>

text \<open>The gate and the category under which a call needs approval, if it does.\<close>

definition gated :: "approval_state \<Rightarrow> string \<Rightarrow> tool_args \<Rightarrow> (ApprovalGate \<times> ApprovalCategory) option" where
  "gated s toolName args = (case ps_approval s of
     None \<Rightarrow> None
   | Some g \<Rightarrow> (case classifyAction g toolName args of
       None \<Rightarrow> None
     | Some cat \<Rightarrow> if ag_Enabled g \<and> categoryEnabled g cat \<and> ag_MaxAutoApprove g < ps_autonomy s then Some (g, cat) else None))"

definition gateRequest :: "ApprovalCategory \<Rightarrow> string \<Rightarrow> tool_args \<Rightarrow> ApprovalRequest" where
  "gateRequest cat toolName args = \<lparr>aq_ToolName = canonicalToolName toolName, aq_Category = cat,
     aq_Summary = approvalSummary toolName args, aq_Args = args, aq_N = 0\<rparr>"

text \<open>The answers that approve: the first decider that answers, else the confirmation, else the words of the user.\<close>

definition wordsApprove :: "string \<Rightarrow> bool" where
  "wordsApprove ans \<longleftrightarrow> ToLower (TrimSpace ans) \<in> set [''session'', ''s'', ''approve-session'', ''yes-session'']
     \<or> parseApprovalCount (ToLower (TrimSpace ans)) \<noteq> None \<or> isAffirmative ans"

definition answererApproves :: "approval_env \<Rightarrow> ApprovalGate \<Rightarrow> ApprovalRequest \<Rightarrow> bool" where
  "answererApproves en g req = (case ag_Waterfall g of
     Some w \<Rightarrow> (case List.map_filter (\<lambda>fn. fn req) w of [] \<Rightarrow> False | resp # _ \<Rightarrow> resp \<noteq> ApprovalReject)
   | None \<Rightarrow> (case ag_ConfirmFn g of
       Some confirm \<Rightarrow> confirm req \<noteq> ApprovalReject
     | None \<Rightarrow> (case ae_askUserFn en of
         Some ask \<Rightarrow> (case ask (''Approve high-risk action ['' @ aq_Category req @ '']: '' @ aq_Summary req @ ''? (yes/no/session/N)'') of
           Some ans \<Rightarrow> wordsApprove ans | None \<Rightarrow> False)
       | None \<Rightarrow> False)))"

text \<open>The call was escalated by a human and the escalation not used yet.\<close>

definition escalated :: "approval_env \<Rightarrow> approval_state \<Rightarrow> ToolCall \<Rightarrow> bool" where
  "escalated en s tc = (case ps_recovery s of None \<Rightarrow> False
   | Some r \<Rightarrow> (case fst (TakeApproval (ae_sha en) r tc) of Some a \<Rightarrow> ap_HumanApproval a | None \<Rightarrow> False))"

text \<open>An equivalent call was denied and not escalated.\<close>

definition pendingDenial :: "approval_env \<Rightarrow> approval_state \<Rightarrow> ToolCall \<Rightarrow> bool" where
  "pendingDenial en s tc = (case ps_recovery s of None \<Rightarrow> False
   | Some r \<Rightarrow> PreservedOutcome (ae_sha en) (ae_unmarshal en) r ''.'' tc)"

definition covered :: "ApprovalGate \<Rightarrow> ApprovalCategory \<Rightarrow> bool" where
  "covered g cat \<longleftrightarrow> cat \<in> set (ag_sessionApproved g) \<or> 0 < ag_nApprovals g cat"

definition humanAsked :: "approval_env \<Rightarrow> approval_state \<Rightarrow> string \<Rightarrow> tool_args \<Rightarrow> bool" where
  "humanAsked en s toolName args = (case gated s toolName args of None \<Rightarrow> False
   | Some (g, cat) \<Rightarrow> \<not> covered g cat \<and> \<not> escalated en s (approvalRecoveryCall en toolName args)
       \<and> \<not> pendingDenial en s (approvalRecoveryCall en toolName args))"

definition admits :: "approval_env \<Rightarrow> approval_state \<Rightarrow> string \<Rightarrow> tool_args \<Rightarrow> bool" where
  "admits en s toolName args = (case gated s toolName args of None \<Rightarrow> True
   | Some (g, cat) \<Rightarrow> covered g cat \<or> escalated en s (approvalRecoveryCall en toolName args)
       \<or> humanAsked en s toolName args \<and> answererApproves en g (gateRequest cat toolName args))"

lemma takeFirst_pending:
  "takeFirst i es = Some (a, es') \<Longrightarrow>
    list_ex (\<lambda>e. dn_semanticID e = x \<and> dn_approval e = None) es' = list_ex (\<lambda>e. dn_semanticID e = x \<and> dn_approval e = None) es"
proof (induction es arbitrary: es')
  case (Cons e es)
  then show ?case by (cases "dn_approval e") (auto split: if_splits)
qed simp

lemma TakeApproval_pending:
  "PreservedOutcome sha unmarshal (snd (TakeApproval sha r tc)) root c = PreservedOutcome sha unmarshal r root c"
proof (cases "takeFirst (ActionID sha tc) (rc_denied r)")
  case (Some p)
  then show ?thesis by (cases p) (simp add: TakeApproval_def PreservedOutcome_def takeFirst_pending)
qed (simp add: TakeApproval_def)

lemma waterfall_Decide_first:
  "fst (waterfall_Decide w req) = (case List.map_filter (\<lambda>fn. fn req) w of [] \<Rightarrow> ApprovalReject | resp # _ \<Rightarrow> resp)"
  by (induction w) (auto simp: map_filter_simps split: option.split)

lemma journal_append:
  "Known t \<Longrightarrow> with_log j (\<lambda>l. Append t d now l) = Inr (map_option (push \<lparr>ev_Type = t, ev_Seq = (case j of Some l \<Rightarrow> lg_seq l + 1 | None \<Rightarrow> 0),
     ev_At = now, ev_Data = d, ev_Ignorable = False, ev_SurfaceOp = None, ev_SourceEventSeqs = None\<rparr>) j)"
  by (cases j) (simp_all add: with_log_def Append_eq)

definition journalFacts :: "Log option \<Rightarrow> payload list" where
  "journalFacts j = (case j of None \<Rightarrow> [] | Some l \<Rightarrow> map ev_Data (lg_events l))"

text \<open>What one check leaves in the journal: the question when one is asked, and the decision.\<close>

definition askedFact :: "ApprovalCategory \<Rightarrow> string \<Rightarrow> tool_args \<Rightarrow> payload" where
  "askedFact cat toolName args = DApprovalAsked \<lparr>aa_Turn = 0, aa_Step = 0, aa_Tool = canonicalToolName toolName, aa_Category = cat,
     aa_Question = ''Approve high-risk action ['' @ cat @ '']: '' @ approvalSummary toolName args @ ''?'', aa_ID = [], aa_CallID = []\<rparr>"

definition riskOf :: "approval_state \<Rightarrow> string \<Rightarrow> tool_args \<Rightarrow> ApprovalCategory option" where
  "riskOf s toolName args = (case ps_approval s of Some g \<Rightarrow> classifyAction g toolName args | None \<Rightarrow> None)"

definition decidedFacts :: "ApprovalCategory option \<Rightarrow> string \<Rightarrow> bool \<Rightarrow> string \<Rightarrow> bool \<Rightarrow> payload list" where
  "decidedFacts risk toolName allowed msg asked =
    (let category = (case risk of Some cat \<Rightarrow> cat | None \<Rightarrow> []); tool = canonicalToolName toolName in
     DPermission \<lparr>pf_Tool = tool, pf_Category = category, pf_Allowed = allowed, pf_Message = msg\<rparr> #
     (if asked then [DApprovalDecided \<lparr>ad_Turn = 0, ad_Step = 0, ad_Tool = tool, ad_Category = category, ad_Allowed = allowed,
          ad_Message = msg, ad_ID = [], ad_Outcome = []\<rparr>,
        DApprovalPolicy \<lparr>ap_Category = category, ap_Covered = (risk \<noteq> None), ap_PresetName = [], ap_Policy = [], ap_Source = []\<rparr>]
      else []))"

definition approvalFacts :: "approval_env \<Rightarrow> approval_state \<Rightarrow> string \<Rightarrow> tool_args \<Rightarrow> bool \<Rightarrow> string \<Rightarrow> payload list" where
  "approvalFacts en s toolName args allowed msg =
    (if humanAsked en s toolName args
     then [askedFact (case riskOf s toolName args of Some cat \<Rightarrow> cat | None \<Rightarrow> []) toolName args] else [])
    @ decidedFacts (riskOf s toolName args) toolName allowed msg (humanAsked en s toolName args)"

lemma classify_flagged: "ag_FlaggedTools g = ag_FlaggedTools g' \<Longrightarrow> classifyAction g = classifyAction g'"
  by (intro ext) (simp add: classifyAction_def Let_def)

text \<open>A state after a check classifies calls as the state before.\<close>

definition sameFlags :: "approval_state \<Rightarrow> approval_state \<Rightarrow> bool" where
  "sameFlags s s' \<longleftrightarrow> map_option ag_FlaggedTools (ps_approval s') = map_option ag_FlaggedTools (ps_approval s)"

lemma sameFlags_risk:
  assumes "sameFlags s s'"
  shows "riskOf s' n a = riskOf s n a"
proof (cases "ps_approval s")
  case (Some g)
  with assms obtain g' where "ps_approval s' = Some g'" "ag_FlaggedTools g' = ag_FlaggedTools g" by (auto simp: sameFlags_def)
  with Some show ?thesis by (simp add: riskOf_def classify_flagged [of g' g])
qed (use assms in \<open>simp add: sameFlags_def riskOf_def\<close>)

lemma deny_keeps:
  "denyHighRiskAction en s n a m = (msg, s') \<Longrightarrow> ps_journal s' = ps_journal s \<and> ps_approval s' = ps_approval s"
  by (auto simp: denyHighRiskAction_def split: option.splits prod.splits)

lemma applyResponse_result:
  assumes "ps_approval s = Some g" and "applyResponse en s g req n a resp m = (res, s')"
  shows "fst res = (resp \<noteq> ApprovalReject) \<and> ps_journal s' = ps_journal s \<and> sameFlags s s'"
  using assms by (cases resp) (auto simp: applyResponse_def Let_def sameFlags_def sessionApprove_def nApprove_def
      dest: deny_keeps split: prod.splits)

lemma applyAnswer_result:
  assumes "ps_approval s = Some g" and "applyAnswer en s g cat n a answer = (res, s')"
  shows "fst res = (case answer of Some ans \<Rightarrow> wordsApprove ans | None \<Rightarrow> False) \<and> ps_journal s' = ps_journal s \<and> sameFlags s s'"
proof -
  obtain msg t where d: "denyHighRiskAction en s n a (gateDenied cat) = (msg, t)" by (metis surj_pair)
  show ?thesis
  proof (cases answer)
    case None
    then show ?thesis using assms d deny_keeps [OF d] by (auto simp: applyAnswer_def sameFlags_def)
  next
    case (Some ans)
    show ?thesis
    proof (cases "ToLower (TrimSpace ans) \<in> set [''session'', ''s'', ''approve-session'', ''yes-session'']")
      case True
      then show ?thesis using assms Some d
        by (simp only: applyAnswer_def Let_def option.case if_True wordsApprove_def)
          (auto simp: sameFlags_def sessionApprove_def simp del: list.set)
    next
      case False
      show ?thesis
        using assms Some d deny_keeps [OF d] False
        by (cases "parseApprovalCount (ToLower (TrimSpace ans))"; cases "isAffirmative ans";
            simp only: applyAnswer_def Let_def option.case if_False if_True wordsApprove_def prod.case)
          (auto simp: sameFlags_def nApprove_def simp del: list.set)
    qed
  qed
qed

lemma askHuman_result:
  assumes "ps_approval s = Some g"
  shows "\<exists>msg s'. askHuman en s g cat n a = Inr ((answererApproves en g (gateRequest cat n a), msg), s') \<and> sameFlags s s'
    \<and> journalFacts (ps_journal s') = (if ps_journal s = None then [] else journalFacts (ps_journal s)
        @ [askedFact cat n a])
    \<and> (ps_journal s' = None) = (ps_journal s = None)"
proof -
  define req where "req = gateRequest cat n a"
  define asked where "asked = \<lparr>aa_Turn = 0, aa_Step = 0, aa_Tool = canonicalToolName n, aa_Category = cat,
     aa_Question = ''Approve high-risk action ['' @ cat @ '']: '' @ approvalSummary n a @ ''?'', aa_ID = [], aa_CallID = []\<rparr>"
  obtain j where j: "AppendApprovalAsked asked (ae_now en) (ps_journal s) = Inr j"
    "journalFacts j = (if ps_journal s = None then [] else journalFacts (ps_journal s) @ [DApprovalAsked asked])"
    "(j = None) = (ps_journal s = None)"
    by (cases "ps_journal s") (simp_all add: AppendApprovalAsked_def with_log_def Append_eq Known_iff journalFacts_def)
  define t where "t = s\<lparr>ps_journal := j\<rparr>"
  have t: "ps_approval t = Some g" "sameFlags s t" "ps_journal t = j" using assms by (simp_all add: t_def sameFlags_def)
  have trans: "sameFlags t s' \<Longrightarrow> sameFlags s s'" for s' using t(2) by (simp add: sameFlags_def)
  define out where "out = (case ag_Waterfall g of
         Some w \<Rightarrow> (case waterfall_Decide w req of (resp, denyMsg) \<Rightarrow> applyResponse en t g req n a resp denyMsg)
       | None \<Rightarrow> (case ag_ConfirmFn g of
           Some confirm \<Rightarrow> applyResponse en t g req n a (confirm req) (gateDenied cat)
         | None \<Rightarrow> (case ae_askUserFn en of
             Some ask \<Rightarrow> applyAnswer en t g cat n a
               (ask (''Approve high-risk action ['' @ cat @ '']: '' @ aq_Summary req @ ''? (yes/no/session/N)''))
           | None \<Rightarrow> ((False, ''High-risk action requires approval but no confirmation handler is configured ('' @ Quote cat @ '').''), t))))"
  have eq: "askHuman en s g cat n a = Inr out"
    using j(1) unfolding askHuman_def out_def req_def asked_def gateRequest_def t_def by (simp add: Let_def bindE_def)
  obtain res s' where out: "out = (res, s')" by (cases out)
  have "fst res = answererApproves en g req \<and> ps_journal s' = ps_journal t \<and> sameFlags t s'"
  proof (cases "ag_Waterfall g")
    case (Some w)
    obtain resp m where w: "waterfall_Decide w req = (resp, m)" by (cases "waterfall_Decide w req")
    have "resp = (case List.map_filter (\<lambda>fn. fn req) w of [] \<Rightarrow> ApprovalReject | resp # _ \<Rightarrow> resp)"
      using waterfall_Decide_first [of w req] w by simp
    moreover have "applyResponse en t g req n a resp m = (res, s')" using out Some w by (simp add: out_def)
    note applyResponse_result [OF t(1) this]
    ultimately show ?thesis using Some by (auto simp: answererApproves_def split: list.split)
  next
    case w: None
    show ?thesis
    proof (cases "ag_ConfirmFn g")
      case (Some confirm)
      have "applyResponse en t g req n a (confirm req) (gateDenied cat) = (res, s')" using out Some w by (simp add: out_def)
      then show ?thesis using applyResponse_result [OF t(1)] Some w by (simp add: answererApproves_def)
    next
      case c: None
      show ?thesis
      proof (cases "ae_askUserFn en")
        case (Some ask)
        have "applyAnswer en t g cat n a (ask (''Approve high-risk action ['' @ cat @ '']: '' @ aq_Summary req @ ''? (yes/no/session/N)'')) = (res, s')"
          using out Some w c by (simp add: out_def)
        then show ?thesis using applyAnswer_result [OF t(1)] Some w c by (simp add: answererApproves_def req_def gateRequest_def)
      next
        case None
        then show ?thesis using out w c by (auto simp: out_def answererApproves_def sameFlags_def)
      qed
    qed
  qed
  then show ?thesis using eq out j t trans by (cases res) (auto simp: asked_def req_def askedFact_def)
qed

lemma appendApprovalFact_result:
  "\<exists>s'. appendApprovalFact en s n a allowed msg asked = Inr s' \<and>
    journalFacts (ps_journal s') = (if ps_journal s = None then []
      else journalFacts (ps_journal s) @ decidedFacts (riskOf s n a) n allowed msg asked)"
  by (cases "ps_journal s") (simp_all add: appendApprovalFact_def decidedFacts_def riskOf_def Let_def AppendPermission_def
      AppendApprovalDecided_def AppendApprovalPolicy_def with_log_def Append_eq Known_iff journalFacts_def bindE_def)

lemma gated_risk: "gated s n a = Some (g, cat) \<Longrightarrow> riskOf s n a = Some cat"
  by (auto simp: gated_def riskOf_def split: option.splits if_splits)

lemma checkApprovalGate_result:
  "\<exists>msg s'. checkApprovalGate en s n a = Inr ((admits en s n a, msg), humanAsked en s n a, s') \<and> sameFlags s s'
    \<and> (ps_journal s' = None) = (ps_journal s = None)
    \<and> journalFacts (ps_journal s') = (if ps_journal s = None then [] else journalFacts (ps_journal s) @
        (if humanAsked en s n a then [askedFact (case riskOf s n a of Some cat \<Rightarrow> cat | None \<Rightarrow> []) n a] else []))"
proof (cases "gated s n a")
  case None
  then have "checkApprovalGate en s n a = Inr ((True, []), False, s)"
    by (auto simp: gated_def checkApprovalGate_def split: option.splits if_splits)
  then show ?thesis using None by (simp add: admits_def humanAsked_def sameFlags_def journalFacts_def)
next
  case (Some p)
  then obtain g cat where g: "gated s n a = Some (g, cat)" "riskOf s n a = Some cat" using gated_risk by (cases p) auto
  then have s: "ps_approval s = Some g" "ag_Enabled g" "classifyAction g n a = Some cat" "categoryEnabled g cat"
    "\<not> ps_autonomy s \<le> ag_MaxAutoApprove g"
    by (auto simp: gated_def split: option.splits if_splits)
  define tc where "tc = approvalRecoveryCall en n a"
  show ?thesis
  proof (cases "covered g cat")
    case True
    then have "\<exists>g1. tryConsumeApproval cat g = (True, g1) \<and> ag_FlaggedTools g1 = ag_FlaggedTools g"
      by (auto simp: covered_def tryConsumeApproval_def)
    then show ?thesis using s g True
      by (auto simp: checkApprovalGate_def admits_def humanAsked_def sameFlags_def journalFacts_def)
  next
    case False
    then have nc: "tryConsumeApproval cat g = (False, g)" by (auto simp: covered_def tryConsumeApproval_def)
    show ?thesis
    proof (cases "ps_recovery s")
      case None
      then have h: "humanAsked en s n a" using g False by (simp add: humanAsked_def escalated_def pendingDenial_def)
      from None have "checkApprovalGate en s n a = map_sum id (\<lambda>(r, s'). (r, True, s')) (askHuman en s g cat n a)"
        using s nc by (simp add: checkApprovalGate_def)
      moreover have "admits en s n a = answererApproves en g (gateRequest cat n a)"
        using g False h None by (simp add: admits_def escalated_def)
      ultimately show ?thesis using askHuman_result [OF s(1), of en cat n a] h g by auto
    next
      case (Some r)
      obtain taken r1 where take: "TakeApproval (ae_sha en) r tc = (taken, r1)" by (cases "TakeApproval (ae_sha en) r tc")
      have esc: "escalated en s tc = (case taken of Some a \<Rightarrow> ap_HumanApproval a | None \<Rightarrow> False)"
        using Some take by (simp add: escalated_def)
      have pend: "pendingDenial en s tc = PreservedOutcome (ae_sha en) (ae_unmarshal en) r1 ''.'' tc"
        using Some take TakeApproval_pending [of "ae_sha en" "ae_unmarshal en" r tc "''.''" tc] by (simp add: pendingDenial_def)
      let ?t = "s\<lparr>ps_recovery := Some r1\<rparr>"
      have eq: "checkApprovalGate en s n a =
          (if escalated en s tc then Inr ((True, []), False, ?t)
           else if pendingDenial en s tc then
             (case RememberAutoDenial (ae_sha en) (ae_unmarshal en) r1 ''.'' tc of ((i, _), r2) \<Rightarrow>
                Inr ((False, gateDenied cat @ '' permission_request_id: '' @ id_Hash i), False, s\<lparr>ps_recovery := Some r2\<rparr>))
           else map_sum id (\<lambda>(r, s'). (r, True, s')) (askHuman en ?t g cat n a))"
        using s nc Some take esc pend by (simp add: checkApprovalGate_def tc_def Let_def)
      have same: "sameFlags ?t s' \<Longrightarrow> sameFlags s s'" for s' by (simp add: sameFlags_def)
      consider "escalated en s tc" | "\<not> escalated en s tc" "pendingDenial en s tc" | "\<not> escalated en s tc" "\<not> pendingDenial en s tc" by blast
      then show ?thesis
      proof cases
        case 1
        then show ?thesis using eq g False by (auto simp: admits_def humanAsked_def tc_def sameFlags_def journalFacts_def)
      next
        case 2
        then show ?thesis using eq g False
          by (auto simp: admits_def humanAsked_def tc_def sameFlags_def journalFacts_def split: prod.splits)
      next
        case 3
        then have "humanAsked en s n a" "admits en s n a = answererApproves en g (gateRequest cat n a)"
          using g False by (auto simp: admits_def humanAsked_def tc_def)
        then show ?thesis using askHuman_result [of ?t g en cat n a] 3 eq s(1) g same by auto
      qed
    qed
  qed
qed

text \<open>
  C3. The gate decides exactly as specified. A call is let through precisely if it needs no approval (no enabled gate, no
  high-risk category that is covered, or an autonomy level within the automatic threshold), or its category has a
  session or a counted approval, or a human escalated this very call, or the human is asked and the first answerer
  that answers approves; without an answerer it is denied. The check never panics, and the journal receives the question
  when one was asked, one permission fact with the decision, and after a question the decision and policy facts.
\<close>

theorem approval_gate_exact:
  "\<exists>msg s'. CheckApproval en s toolName args = Inr ((admits en s toolName args, msg), s')
    \<and> journalFacts (ps_journal s') = (if ps_journal s = None then []
        else journalFacts (ps_journal s) @ approvalFacts en s toolName args (admits en s toolName args) msg)"
proof -
  let ?ok = "admits en s toolName args" and ?asked = "humanAsked en s toolName args"
  obtain msg s1 where c: "checkApprovalGate en s toolName args = Inr ((?ok, msg), ?asked, s1)"
    and same: "sameFlags s s1" and j: "(ps_journal s1 = None) = (ps_journal s = None)"
    and facts: "journalFacts (ps_journal s1) = (if ps_journal s = None then [] else journalFacts (ps_journal s) @
        (if ?asked then [askedFact (case riskOf s toolName args of Some cat \<Rightarrow> cat | None \<Rightarrow> []) toolName args] else []))"
    using checkApprovalGate_result [of en s toolName args] by (elim exE conjE) (rule that)
  obtain s2 where a: "appendApprovalFact en s1 toolName args ?ok msg ?asked = Inr s2"
    and f2: "journalFacts (ps_journal s2) = (if ps_journal s1 = None then []
      else journalFacts (ps_journal s1) @ decidedFacts (riskOf s1 toolName args) toolName ?ok msg ?asked)"
    using appendApprovalFact_result [of en s1 toolName args ?ok msg ?asked] by (elim exE conjE) (rule that)
  have "CheckApproval en s toolName args = Inr ((?ok, msg), s2)"
    by (simp add: CheckApproval_def c a bindE_def)
  moreover have "journalFacts (ps_journal s2) = (if ps_journal s = None then []
        else journalFacts (ps_journal s) @ approvalFacts en s toolName args ?ok msg)"
    by (simp add: f2 j facts sameFlags_risk [OF same] approvalFacts_def)
  ultimately show ?thesis by blast
qed

section \<open>Counted approvals and disposers\<close>

text \<open>The answers of \<open>k\<close> consecutive attempts to use an approval of a category.\<close>

primrec consumes :: "nat \<Rightarrow> ApprovalCategory \<Rightarrow> ApprovalGate \<Rightarrow> bool list" where
  "consumes 0 cat g = []"
| "consumes (Suc k) cat g = (case tryConsumeApproval cat g of (ok, g') \<Rightarrow> ok # consumes k cat g')"

text \<open>
  A counted approval is spent once per use: of any number of consecutive attempts exactly the granted number succeeds,
  and all of them do when the category has a session approval.
\<close>

theorem counted_approvals_bounded:
  "length (filter id (consumes k cat g)) = (if cat \<in> set (ag_sessionApproved g) then k else min k (nat (ag_nApprovals g cat)))"
proof (induction k arbitrary: g)
  case (Suc k)
  then show ?case by (auto simp: tryConsumeApproval_def min_def)
qed simp

text \<open>
  The disposer of a decider removes whatever stands at the position the decider was added at: after the first of three
  deciders has been disposed of, disposing of the second removes the third and leaves the second.
\<close>

theorem disposer_removes_other:
  "(case waterfall_Add [] f of (w1, i) \<Rightarrow> case waterfall_Add w1 g of (w2, j) \<Rightarrow> case waterfall_Add w2 h of (w3, _) \<Rightarrow>
     waterfall_remove (waterfall_remove w3 i) j) = [g]"
  by (simp add: waterfall_Add_def waterfall_remove_def)

end
