(* ===== verification/Permission_Service.thy ===== *)
theory Permission_Service
  imports Approval_Gate Stable_Rules
begin

text \<open>
  The permission service of a session, from \<open>internal/engine/permission_service.go\<close>: the state around the permission
  engine, the setters the user interface calls, the snapshot a sub-agent receives, and the sandbox mode folded from the
  journal (\<open>internal/sandbox/policy.go\<close>). The objects engines share through pointers are one argument; a rule memory is
  named by its position. The spending cap, a float that is only stored, and the callbacks' goroutines are left out.
\<close>

section \<open>The service\<close>

record PermissionService =
  sv_perm :: PermissionEngine
  sv_memory :: "nat option"
  sv_maxTurns :: int
  sv_allowedDirs :: "string list"
  sv_approval :: "ApprovalGate option"
  sv_journal :: "Log option"
  sv_recovery :: "Recovery option"
  sv_exact :: "State option"

text \<open>The managed policy is the document read at the trust root, if there is one and it parses.\<close>

definition loadManagedGovernance :: "Document option \<Rightarrow> gov_Engine \<Rightarrow> gov_Engine" where
  "loadManagedGovernance managed g = (case managed of
     None \<Rightarrow> g
   | Some doc \<Rightarrow> (case buildLayer ''policy'' doc of Inl _ \<Rightarrow> g | Inr layer \<Rightarrow> SetPolicy g (Some layer)))"

definition NewPermissionService :: "Document option \<Rightarrow> PermissionService \<times> objects" where
  "NewPermissionService managed = (case NewPermissionEngine of (pe, ob) \<Rightarrow>
     (\<lparr>sv_perm = pe\<lparr>pe_Governance := map_option (loadManagedGovernance managed) (pe_Governance pe)\<rparr>, sv_memory = pe_Memory pe,
       sv_maxTurns = 0, sv_allowedDirs = [], sv_approval = None, sv_journal = None, sv_recovery = None, sv_exact = None\<rparr>, ob))"

definition WithEngine :: "PermissionService \<Rightarrow> PermissionEngine \<Rightarrow> PermissionService" where
  "WithEngine s pe = s\<lparr>sv_perm := pe, sv_memory := pe_Memory pe\<rparr>"

section \<open>Checks\<close>

definition service_CheckTool :: "env \<Rightarrow> PermissionService \<Rightarrow> objects \<Rightarrow> ToolCallInfo \<Rightarrow>
    (bool \<times> string) \<times> PermissionService \<times> objects" where
  "service_CheckTool en s ob tc = (case CheckTool en (sv_perm s) ob tc of (res, pe, ob1) \<Rightarrow> (res, s\<lparr>sv_perm := pe\<rparr>, ob1))"

definition engineCopy :: "PermissionService \<Rightarrow> PermissionEngine" where
  "engineCopy s = engine_Copy (sv_perm s)"

definition service_CheckToolDecision :: "env \<Rightarrow> PermissionService \<Rightarrow> objects \<Rightarrow> ToolCallInfo \<Rightarrow> Decision \<times> objects" where
  "service_CheckToolDecision en s ob tc = (case CheckToolDecision en (engineCopy s) ob tc of (d, _, ob1) \<Rightarrow> (d, ob1))"

definition service_EvaluateTool :: "env \<Rightarrow> PermissionService \<Rightarrow> objects \<Rightarrow> ToolCallInfo \<Rightarrow> Decision \<times> objects" where
  "service_EvaluateTool en s ob tc = EvaluateTool en (engineCopy s) ob tc"

definition service_PolicySnapshot :: "PermissionService \<Rightarrow> objects \<Rightarrow> PolicySnapshot" where
  "service_PolicySnapshot s ob = (engine_Snapshot (sv_perm s) ob)\<lparr>ps_AllowedDirs := sv_allowedDirs s\<rparr>"

definition service_CheckToolSnapshot :: "env \<Rightarrow> PermissionService \<Rightarrow> objects \<Rightarrow> ToolCallInfo \<Rightarrow> PolicySnapshot \<Rightarrow> Decision \<times> objects" where
  "service_CheckToolSnapshot en s ob tc sn = CheckToolSnapshot en (engineCopy s) ob tc sn"

text \<open>The snapshot of a parent replaces the policy of a child; its rules become a memory of their own.\<close>

definition ApplyPolicySnapshot :: "PermissionService \<Rightarrow> objects \<Rightarrow> PolicySnapshot \<Rightarrow> PermissionService \<times> objects" where
  "ApplyPolicySnapshot s ob sn =
    (let r = length (ob_memories ob); pe = sv_perm s in
     (s\<lparr>sv_perm := pe\<lparr>pe_Autonomy := ps_Autonomy sn, pe_AutonomyExplicit := ps_AutonomyExplicit sn,
           pe_SandboxMode := ps_SandboxMode sn, pe_Stage := ps_Stage sn, pe_DryRun := ps_DryRun sn,
           pe_SpecSlug := ps_SpecSlug sn, pe_Phase := ps_Phase sn, pe_Phases := ps_Phases sn, pe_Revision := ps_Revision sn,
           pe_Memory := Some r,
           pe_UnifiedGrants := (if pe_UnifiedGrants pe = None then None
             else Some (MemoryStore r # (if pe_AutoMode pe then [AutoModeStore] else [])))\<rparr>,
        sv_memory := Some r, sv_allowedDirs := ps_AllowedDirs sn\<rparr>,
      ob\<lparr>ob_memories := ob_memories ob @ [NewPermissionMemoryFromSnapshot (ps_Rules sn)]\<rparr>))"

text \<open>The part of the service the approval gate works on.\<close>

definition approvalView :: "PermissionService \<Rightarrow> approval_state" where
  "approvalView s = \<lparr>ps_approval = sv_approval s, ps_autonomy = pe_Autonomy (sv_perm s), ps_recovery = sv_recovery s,
     ps_journal = sv_journal s\<rparr>"

definition service_CheckApproval :: "approval_env \<Rightarrow> PermissionService \<Rightarrow> string \<Rightarrow> tool_args \<Rightarrow>
    panic + (bool \<times> string) \<times> PermissionService" where
  "service_CheckApproval en s toolName args = map_sum id
     (\<lambda>(res, a). (res, s\<lparr>sv_approval := ps_approval a, sv_recovery := ps_recovery a, sv_journal := ps_journal a\<rparr>))
     (CheckApproval en (approvalView s) toolName args)"

section \<open>Exact rules\<close>

definition SetExactRuleStore :: "PermissionService \<Rightarrow> State option \<Rightarrow> PermissionService" where
  "SetExactRuleStore s st = s\<lparr>sv_exact := st\<rparr>"

definition RememberExact :: "(string \<Rightarrow> string) \<Rightarrow> bool \<Rightarrow> PermissionService \<Rightarrow> Kind \<Rightarrow> string \<Rightarrow> string \<Rightarrow> stable_Decision \<Rightarrow>
    (u64 \<times> bool) \<times> PermissionService" where
  "RememberExact sha saved s k canonical displayIdent dec = (case sv_exact s of
     None \<Rightarrow> ((0, False), s)
   | Some st \<Rightarrow> (case store_Remember sha saved st k canonical displayIdent dec of (res, st') \<Rightarrow>
       (res, s\<lparr>sv_exact := Some st'\<rparr>)))"

definition RevokeExact :: "bool \<Rightarrow> PermissionService \<Rightarrow> u64 \<Rightarrow> bool \<times> PermissionService" where
  "RevokeExact saved s n = (case sv_exact s of
     None \<Rightarrow> (False, s)
   | Some st \<Rightarrow> (case store_Revoke saved st n of (ok, st') \<Rightarrow> (ok, s\<lparr>sv_exact := Some st'\<rparr>)))"

definition ListExact :: "PermissionService \<Rightarrow> Rule list" where
  "ListExact s = (case sv_exact s of None \<Rightarrow> [] | Some st \<Rightarrow> store_List st)"

section \<open>Settings\<close>

definition SetMaxTurns :: "PermissionService \<Rightarrow> int \<Rightarrow> PermissionService" where
  "SetMaxTurns s turns = s\<lparr>sv_maxTurns := turns\<rparr>"

definition SetAllowedDirs :: "PermissionService \<Rightarrow> string list \<Rightarrow> PermissionService" where
  "SetAllowedDirs s dirs = s\<lparr>sv_allowedDirs := dirs\<rparr>"

text \<open>
  A profile's \<open>Overrides\<close> is the set of flags that were set, as a map to \<open>true\<close>; \<open>SetAutonomy\<close> passes it on as the
  values to set. The result is \<open>None\<close> where \<open>setFlag\<close> would write to a nil map.
\<close>

definition Overrides :: "AutonomyProfile \<Rightarrow> (string \<times> bool) list" where
  "Overrides p = (case ap_overrides p of None \<Rightarrow> [] | Some ks \<Rightarrow> map (\<lambda>k. (k, True)) ks)"

definition SetAutonomy :: "PermissionService \<Rightarrow> AutonomyLevel \<Rightarrow> PermissionService option" where
  "SetAutonomy s level =
    (let pe = (sv_perm s)\<lparr>pe_Autonomy := level, pe_AutonomyExplicit := True, pe_Revision := pe_Revision (sv_perm s) + 1\<rparr> in
     case pe_Profile pe of
       None \<Rightarrow> Some (s\<lparr>sv_perm := pe\<rparr>)
     | Some p \<Rightarrow> map_option (\<lambda>q. s\<lparr>sv_perm := pe\<lparr>pe_Profile := Some q\<rparr>\<rparr>) (ApplyOverrides (ProfileFromLevel level) (Overrides p)))"

definition ApplyAutonomyOverrides :: "PermissionService \<Rightarrow> (string \<times> bool) list \<Rightarrow> PermissionService option" where
  "ApplyAutonomyOverrides s overrides =
    (let pe = sv_perm s; p = (case pe_Profile pe of Some p \<Rightarrow> p | None \<Rightarrow> ProfileFromLevel (pe_Autonomy pe)) in
     map_option (\<lambda>q. s\<lparr>sv_perm := pe\<lparr>pe_Profile := Some q, pe_Revision := pe_Revision pe + 1\<rparr>\<rparr>) (ApplyOverrides p overrides))"

definition SetSpecStage :: "PermissionService \<Rightarrow> SpecStage \<Rightarrow> PermissionService" where
  "SetSpecStage s stage = s\<lparr>sv_perm := (sv_perm s)\<lparr>pe_Stage := stage\<rparr>\<rparr>"

definition SetDryRun :: "PermissionService \<Rightarrow> bool \<Rightarrow> PermissionService" where
  "SetDryRun s dryRun = s\<lparr>sv_perm := (sv_perm s)\<lparr>pe_DryRun := dryRun\<rparr>\<rparr>"

definition SetSandboxMode :: "PermissionService \<Rightarrow> string \<Rightarrow> gotime \<Rightarrow> panic + PermissionService" where
  "SetSandboxMode s mode now =
    (let s1 = s\<lparr>sv_perm := (sv_perm s)\<lparr>pe_SandboxMode := mode, pe_Revision := pe_Revision (sv_perm s) + 1\<rparr>\<rparr> in
     map_sum id (\<lambda>j. s1\<lparr>sv_journal := j\<rparr>) (AppendSandboxMode mode now (sv_journal s)))"

definition ModeWorkspace :: string where
  "ModeWorkspace = ''workspace''"

text \<open>\<open>OverrideOf\<close>: the mode of the last valid sandbox event, scanning from the tail.\<close>

fun lastMode :: "Event list \<Rightarrow> string option" where
  "lastMode [] = None"
| "lastMode (ev # evs) = (if ev_Type ev = SandboxMode then
     (case ev_Data ev of DSandboxMode f \<Rightarrow> if SandboxModeFact_Valid f then Some (sm_Mode f) else lastMode evs | _ \<Rightarrow> lastMode evs)
   else lastMode evs)"

definition OverrideOf :: "Log \<Rightarrow> string option" where
  "OverrideOf l = lastMode (rev (Snapshot l))"

definition service_SandboxMode :: "PermissionService \<Rightarrow> string" where
  "service_SandboxMode s =
    (let enforced = (if pe_SandboxMode (sv_perm s) \<noteq> [] then pe_SandboxMode (sv_perm s) else ModeWorkspace) in
     case sv_journal s of
       None \<Rightarrow> enforced
     | Some l \<Rightarrow> (case OverrideOf l of Some mode \<Rightarrow> if mode \<noteq> [] then mode else enforced | None \<Rightarrow> enforced))"

definition SetApproval :: "PermissionService \<Rightarrow> ApprovalGate option \<Rightarrow> PermissionService" where
  "SetApproval s a = s\<lparr>sv_approval := a\<rparr>"

definition SetSpecSlug :: "PermissionService \<Rightarrow> string \<Rightarrow> PermissionService" where
  "SetSpecSlug s slug = s\<lparr>sv_perm := (sv_perm s)\<lparr>pe_SpecSlug := slug\<rparr>\<rparr>"

definition SetPermissionFn :: "PermissionService \<Rightarrow> (PermissionRequest \<Rightarrow> promptAnswer) option \<Rightarrow> PermissionService" where
  "SetPermissionFn s fn = s\<lparr>sv_perm := (sv_perm s)\<lparr>pe_PromptFn := fn\<rparr>\<rparr>"

definition StringFromStageEnum :: "nat \<Rightarrow> string" where
  "StringFromStageEnum stage = (if stage = 1 then ''proposal'' else if stage = 2 then ''specify'' else if stage = 3 then ''design''
     else if stage = 4 then ''plan'' else if stage = 5 then ''tasks'' else if stage = 6 then ''implementing'' else ''none'')"

definition service_AdvanceSpecStage :: "spec_files \<Rightarrow> PermissionService \<Rightarrow> string \<Rightarrow> gotime \<Rightarrow> panic + PermissionService" where
  "service_AdvanceSpecStage files s toolName now =
    (let pe = AdvanceSpecStage files toolName (sv_perm s) in
     map_sum id (\<lambda>j. s\<lparr>sv_perm := pe, sv_journal := j\<rparr>)
       (AppendSpec (StringFromStageEnum (stage_rank (pe_Stage pe))) (pe_SpecSlug pe) now (sv_journal s)))"

definition SetJournal :: "PermissionService \<Rightarrow> Log option \<Rightarrow> PermissionService" where
  "SetJournal s j = s\<lparr>sv_journal := j\<rparr>"

definition ResetSpec :: "PermissionService \<Rightarrow> PermissionService" where
  "ResetSpec s =
    (let pe = sv_perm s; w = workflow_Reset \<lparr>sw_Stage = pe_Stage pe, sw_Slug = pe_SpecSlug pe, sw_Done = 0\<rparr> in
     s\<lparr>sv_perm := pe\<lparr>pe_Stage := sw_Stage w, pe_SpecSlug := sw_Slug w, pe_Revision := pe_Revision pe + 1\<rparr>\<rparr>)"

definition SetMemory :: "PermissionService \<Rightarrow> nat option \<Rightarrow> PermissionService" where
  "SetMemory s m = s\<lparr>sv_memory := m, sv_perm := (sv_perm s)\<lparr>pe_Memory := m\<rparr>\<rparr>"

definition service_SetNeverAllow :: "PermissionService \<Rightarrow> string list \<Rightarrow> PermissionService" where
  "service_SetNeverAllow s specs = s\<lparr>sv_perm := SetNeverAllow (sv_perm s) specs\<rparr>"

definition service_SetSpecAllowTests :: "PermissionService \<Rightarrow> bool \<Rightarrow> PermissionService" where
  "service_SetSpecAllowTests s allowed = s\<lparr>sv_perm := SetSpecAllowTests (sv_perm s) allowed\<rparr>"

definition service_EnableTurnRecovery :: "PermissionService \<Rightarrow> PermissionService" where
  "service_EnableTurnRecovery s = s\<lparr>sv_recovery := ps_recovery (EnableTurnRecovery (approvalView s))\<rparr>"

definition service_EscalatePermission :: "PermissionService \<Rightarrow> string \<Rightarrow> bool \<times> PermissionService" where
  "service_EscalatePermission s reqID = (case EscalatePermission (approvalView s) reqID of (ok, a) \<Rightarrow>
     (ok, s\<lparr>sv_recovery := ps_recovery a\<rparr>))"

section \<open>Changing the tier\<close>

definition flagNames :: "string list" where
  "flagNames = [''autocontinue'', ''autoapplyedits'', ''autoexecutebash'', ''autocommit'', ''autonetwork'']"

definition flagOf :: "AutonomyProfile \<Rightarrow> string \<Rightarrow> bool" where
  "flagOf p f = (if f = ''autocontinue'' then ap_AutoContinue p else if f = ''autoapplyedits'' then ap_AutoApplyEdits p
     else if f = ''autoexecutebash'' then ap_AutoExecuteBash p else if f = ''autocommit'' then ap_AutoCommit p
     else ap_AutoNetwork p)"

lemma norm_flagNames: "f \<in> set flagNames \<Longrightarrow> normFlag f = f"
proof -
  have "list_all (\<lambda>f. normFlag f = f) flagNames" by code_simp
  then show "f \<in> set flagNames \<Longrightarrow> normFlag f = f" by (simp add: list_all_iff)
qed

lemma setFlag_known:
  assumes "ap_overrides p = Some ks" and "normFlag k \<in> set flagNames"
  shows "\<exists>q. setFlag p k v = Some (q, True) \<and> ap_overrides q = Some (List.insert (normFlag k) ks) \<and> ap_Level q = ap_Level p
    \<and> (\<forall>f \<in> set flagNames. flagOf q f = (if f = normFlag k then v else flagOf p f))"
  using assms by (auto simp: setFlag_def flagNames_def flagOf_def Let_def)

lemma setFlag_unknown:
  "ap_overrides p = Some ks \<Longrightarrow> normFlag k \<notin> set flagNames \<Longrightarrow> setFlag p k v = Some (p, False)"
  by (auto simp: setFlag_def flagNames_def Let_def)

lemma setFlags_result:
  assumes "ap_overrides p = Some ks"
  shows "\<exists>q ks'. setFlags p kvs = Some q \<and> ap_overrides q = Some ks' \<and> ap_Level q = ap_Level p
    \<and> (\<forall>f \<in> set flagNames. flagOf q f = (case map_of (rev (map (\<lambda>(k, v). (normFlag k, v)) kvs)) f of Some v \<Rightarrow> v | None \<Rightarrow> flagOf p f))
    \<and> set ks' = set ks \<union> {normFlag k | k v. (k, v) \<in> set kvs \<and> normFlag k \<in> set flagNames}"
  using assms
proof (induction kvs arbitrary: p ks)
  case (Cons kv kvs)
  obtain k v where kv: "kv = (k, v)" by (cases kv)
  show ?case
  proof (cases "normFlag k \<in> set flagNames")
    case True
    from setFlag_known [OF Cons.prems True, of v] obtain r where r: "setFlag p k v = Some (r, True)"
      "ap_overrides r = Some (List.insert (normFlag k) ks)" "ap_Level r = ap_Level p"
      "\<forall>f \<in> set flagNames. flagOf r f = (if f = normFlag k then v else flagOf p f)" by auto
    from Cons.IH [OF r(2)] obtain q ks' where q: "setFlags r kvs = Some q" "ap_overrides q = Some ks'" "ap_Level q = ap_Level r"
      "\<forall>f \<in> set flagNames. flagOf q f = (case map_of (rev (map (\<lambda>(k, v). (normFlag k, v)) kvs)) f of Some v \<Rightarrow> v | None \<Rightarrow> flagOf r f)"
      "set ks' = set (List.insert (normFlag k) ks) \<union> {normFlag k | k v. (k, v) \<in> set kvs \<and> normFlag k \<in> set flagNames}" by auto
    have "setFlags p (kv # kvs) = Some q" by (simp add: kv r(1) q(1))
    moreover have "\<forall>f \<in> set flagNames. flagOf q f =
        (case map_of (rev (map (\<lambda>(k, v). (normFlag k, v)) (kv # kvs))) f of Some v \<Rightarrow> v | None \<Rightarrow> flagOf p f)"
      using q(4) r(4) by (auto simp: kv map_add_def split: option.split)
    moreover have "set ks' = set ks \<union> {normFlag k | k v. (k, v) \<in> set (kv # kvs) \<and> normFlag k \<in> set flagNames}"
      using q(5) True by (auto simp: kv)
    ultimately show ?thesis using q(2,3) r(3) by auto
  next
    case False
    from Cons.IH [OF Cons.prems] obtain q ks' where q: "setFlags p kvs = Some q" "ap_overrides q = Some ks'" "ap_Level q = ap_Level p"
      "\<forall>f \<in> set flagNames. flagOf q f = (case map_of (rev (map (\<lambda>(k, v). (normFlag k, v)) kvs)) f of Some v \<Rightarrow> v | None \<Rightarrow> flagOf p f)"
      "set ks' = set ks \<union> {normFlag k | k v. (k, v) \<in> set kvs \<and> normFlag k \<in> set flagNames}" by auto
    have "setFlags p (kv # kvs) = Some q" using setFlag_unknown [OF Cons.prems False] by (simp add: kv q(1))
    moreover have "\<forall>f \<in> set flagNames. flagOf q f =
        (case map_of (rev (map (\<lambda>(k, v). (normFlag k, v)) (kv # kvs))) f of Some v \<Rightarrow> v | None \<Rightarrow> flagOf p f)"
      using q(4) False by (auto simp: kv map_add_def split: option.split)
    moreover have "set ks' = set ks \<union> {normFlag k | k v. (k, v) \<in> set (kv # kvs) \<and> normFlag k \<in> set flagNames}"
      using q(5) False by (auto simp: kv)
    ultimately show ?thesis using q(2,3) by auto
  qed
qed simp

text \<open>
  A change of tier turns every customised flag on. After \<open>SetAutonomy\<close> the profile has the flags of the new tier,
  except that a flag the user had set, to whichever value, is now set to true: a flag that was switched off, such as
  the execution of Bash commands, comes back on.
\<close>

theorem tier_change_switches_on:
  assumes "pe_Profile (sv_perm s) = Some p" and "ApplyOverrides (ProfileFromLevel level0) settings = Some p"
    and "f \<in> set flagNames"
  shows "\<exists>s' q. SetAutonomy s level = Some s' \<and> pe_Profile (sv_perm s') = Some q \<and> ap_Level q = level
    \<and> flagOf q f = (f \<in> normFlag ` fst ` set settings \<or> flagOf (ProfileFromLevel level) f)"
proof -
  have fresh: "ap_overrides (ProfileFromLevel l) = Some []" "ap_Level (ProfileFromLevel l) = l" for l
    by (simp_all add: ProfileFromLevel_def Let_def)
  from setFlags_result [OF fresh(1), of level0 settings] assms(2) obtain ks where
    ks: "ap_overrides p = Some ks" "set ks = {normFlag k | k v. (k, v) \<in> set settings \<and> normFlag k \<in> set flagNames}"
    by (auto simp: ApplyOverrides_def fresh)
  from setFlags_result [OF fresh(1), of level "Overrides p"] obtain q where
    q: "setFlags (ProfileFromLevel level) (Overrides p) = Some q" "ap_Level q = level"
    "flagOf q f = (case map_of (rev (map (\<lambda>(k, v). (normFlag k, v)) (Overrides p))) f of Some v \<Rightarrow> v | None \<Rightarrow> flagOf (ProfileFromLevel level) f)"
    using assms(3) by (auto simp: fresh)
  have over: "map (\<lambda>(k, v). (normFlag k, v)) (Overrides p) = map (\<lambda>k. (normFlag k, True)) ks" by (simp add: Overrides_def ks(1))
  have names: "normFlag ` set ks = set ks"
    using norm_flagNames by (auto simp: ks(2) image_iff) metis+
  have val: "map_of (rev (map (\<lambda>k. (normFlag k, True)) ks)) f = (if f \<in> set ks then Some True else None)"
  proof -
    have "map_of (rev (map (\<lambda>k. (normFlag k, True)) ks)) f = Some b \<Longrightarrow> b \<and> f \<in> set ks" for b
      using names by (auto dest!: map_of_SomeD) (metis imageI)
    moreover have "f \<in> set ks \<Longrightarrow> map_of (rev (map (\<lambda>k. (normFlag k, True)) ks)) f \<noteq> None"
      using names by (simp add: map_of_eq_None_iff image_image)
    ultimately show ?thesis by (cases "map_of (rev (map (\<lambda>k. (normFlag k, True)) ks)) f") auto
  qed
  have "f \<in> set ks \<longleftrightarrow> f \<in> normFlag ` fst ` set settings" using assms(3) by (force simp: ks(2))
  then have "flagOf q f = (f \<in> normFlag ` fst ` set settings \<or> flagOf (ProfileFromLevel level) f)"
    using q(3) by (simp add: over val)
  then show ?thesis using q(1,2) assms(1) by (simp add: SetAutonomy_def Let_def ApplyOverrides_def fresh)
qed

theorem tier_change_switches_on_witness:
  "\<exists>s p s' q. pe_Profile (sv_perm s) = Some p \<and> \<not> ap_AutoExecuteBash p \<and> IsOverridden p ''auto_execute_bash''
    \<and> SetAutonomy s AutonomySemi = Some s' \<and> pe_Profile (sv_perm s') = Some q \<and> ap_AutoExecuteBash q"
proof -
  let ?set = "[(''auto_execute_bash'', False)]"
  define p where "p = the (ApplyOverrides (ProfileFromLevel AutonomyFull) ?set)"
  have p: "ApplyOverrides (ProfileFromLevel AutonomyFull) ?set = Some p" unfolding p_def by code_simp
  have off: "\<not> ap_AutoExecuteBash p" "IsOverridden p ''auto_execute_bash''" unfolding p_def by code_simp+
  define s where "s = (fst (NewPermissionService None))\<lparr>sv_perm := (sv_perm (fst (NewPermissionService None)))\<lparr>pe_Profile := Some p\<rparr>\<rparr>"
  have sp: "pe_Profile (sv_perm s) = Some p" by (simp add: s_def)
  have f: "''autoexecutebash'' \<in> set flagNames" by (simp add: flagNames_def)
  have n: "''autoexecutebash'' \<in> normFlag ` fst ` set ?set" by code_simp
  from tier_change_switches_on [OF sp p f, of AutonomySemi] n obtain s' q where
    q: "SetAutonomy s AutonomySemi = Some s'" "pe_Profile (sv_perm s') = Some q" "flagOf q ''autoexecutebash''" by auto
  from q(3) have "ap_AutoExecuteBash q" by (simp add: flagOf_def)
  with sp off q(1,2) show ?thesis by blast
qed

section \<open>Delegation\<close>

lemma unified_denied_iff:
  "unified_Check stores n x now = (False, True) \<longleftrightarrow> (\<exists>g \<in> set (concat stores). Active g now \<and> grantHits n x g \<and> \<not> gr_Allow g)"
  unfolding unified_Check_def find_sorted [OF collect_sorted] by auto

text \<open>
  A sub-agent is bounded by its parent. Whatever the child's own engine was, after it has received the parent's
  snapshot it allows a call only if the parent is not in a dry run, the parent's sandbox mode admits the tool, and,
  outside the writing of a specification, no rule in the parent's memory denies the call.
\<close>

theorem delegated_policy_bounded:
  assumes "ApplyPolicySnapshot child cob (service_PolicySnapshot parent pob) = (child', cob')"
    and "pe_UnifiedGrants (sv_perm child) \<noteq> None" and "pe_Memory (sv_perm parent) = Some r"
    and "fst (fst (service_CheckTool en child' cob' tc))"
  shows "\<not> pe_DryRun (sv_perm parent)
    \<and> (if pe_SandboxMode (sv_perm parent) = ModeStrict then strictToolAllowed tc else True)
    \<and> (if isNetworkTool (tc_Name tc) then ModeAllowsNetwork (en_network en) (pe_SandboxMode (sv_perm parent)) else True)
    \<and> (if pe_Stage (sv_perm parent) \<in> {SpecStageNone, SpecStageImplementing}
       then unified_Check [memory_Grants (memoryAt pob r)] (tc_Name tc) (ToolSummary (tc_Name tc) (tc_Args tc)) (en_now en) \<noteq> (False, True)
       else True)"
proof -
  let ?pe = "sv_perm child'" and ?s = "ToolSummary (tc_Name tc) (tc_Args tc)"
  have pe: "pe_DryRun ?pe = pe_DryRun (sv_perm parent)" "pe_SandboxMode ?pe = pe_SandboxMode (sv_perm parent)"
    "pe_Stage ?pe = pe_Stage (sv_perm parent)" "pe_UnifiedGrants ?pe \<noteq> None"
    "MemoryStore (length (ob_memories cob)) \<in> set (the (pe_UnifiedGrants ?pe))"
    using assms(1,2) by (auto simp: ApplyPolicySnapshot_def service_PolicySnapshot_def engine_Snapshot_def Let_def)
  have mem: "memoryAt cob' (length (ob_memories cob)) = memoryAt pob r"
    using assms(1,3) by (auto simp: ApplyPolicySnapshot_def service_PolicySnapshot_def engine_Snapshot_def Let_def memoryAt_def
        NewPermissionMemoryFromSnapshot_def memory_Snapshot_def)
  have allowed: "de_Outcome (fst (CheckToolDecision en ?pe cob' tc)) = DecisionAllow"
    using assms(4) by (auto simp: service_CheckTool_def CheckTool_def split: prod.splits)
  note j = allowed_grounds [OF this]
  have rules: "unified_Check [memory_Grants (memoryAt pob r)] (tc_Name tc) ?s (en_now en) \<noteq> (False, True)"
    if st: "pe_Stage (sv_perm parent) \<in> {SpecStageNone, SpecStageImplementing}"
  proof
    assume d: "unified_Check [memory_Grants (memoryAt pob r)] (tc_Name tc) ?s (en_now en) = (False, True)"
    obtain stores where st': "pe_UnifiedGrants ?pe = Some stores" using pe(4) by auto
    have "memory_Grants (memoryAt pob r) \<in> set (map (storeGrants cob') stores)"
      using pe(5) st' mem by (force simp: storeGrants_def)
    then have "unified_Check (map (storeGrants cob') stores) (tc_Name tc) ?s (en_now en) = (False, True)"
      using d unfolding unified_denied_iff by fastforce
    then have "rememberedDecision en ?pe cob' tc ?s = Some (deny ReasonGrantDenied ''Permission denied (rule).'')"
      by (simp add: rememberedDecision_def st')
    moreover have "specGate en ?pe tc = None" using st pe(3) by (auto simp: specGate_def)
    ultimately have "de_Outcome (fst (evaluateToolDecision en ?pe cob' tc)) \<noteq> DecisionAllow"
      using j by (simp add: evaluate_inside personal_def)
    with allowed show False by (simp add: check_fst)
  qed
  have "ceilings en ?pe tc" using j by simp
  then have "\<not> pe_DryRun (sv_perm parent)"
    "if pe_SandboxMode (sv_perm parent) = ModeStrict then strictToolAllowed tc else True"
    "if isNetworkTool (tc_Name tc) then ModeAllowsNetwork (en_network en) (pe_SandboxMode (sv_perm parent)) else True"
    unfolding ceilings_def pe(1,2) by blast+
  with rules show ?thesis by simp
qed

text \<open>A parent at the highest tier with a deny rule for writing, and the child it delegates to.\<close>

definition denyingParent :: "PermissionService \<times> objects" where
  "denyingParent = (case NewPermissionService None of (s, ob) \<Rightarrow>
     (the (SetAutonomy s AutonomyYOLO), ob\<lparr>ob_memories := [DenySpec NewPermissionMemory ''Write'']\<rparr>))"

definition childOf :: "PermissionService \<times> objects \<Rightarrow> PermissionService \<times> objects" where
  "childOf parent = (case parent of (p, pob) \<Rightarrow> case NewPermissionService None of (c, cob) \<Rightarrow>
     ApplyPolicySnapshot c cob (service_PolicySnapshot p pob))"

theorem delegated_policy_bounded_witness:
  "fst (fst (service_CheckTool plain_env (fst (childOf denyingParent)) (snd (childOf denyingParent)) (call ''Edit'' ''path'' ''a.go'')))
   \<and> unified_Check [memory_Grants (memoryAt (snd denyingParent) 0)] ''Edit'' (ToolSummary ''Edit'' [''path'' \<mapsto> JStr ''a.go'']) 1 \<noteq> (False, True)"
proof -
  obtain p pob where p: "denyingParent = (p, pob)" by (cases denyingParent)
  obtain c cob where c: "NewPermissionService None = (c, cob)" by (cases "NewPermissionService None")
  obtain c' cob' where a: "ApplyPolicySnapshot c cob (service_PolicySnapshot p pob) = (c', cob')" by (metis surj_pair)
  have ch: "childOf denyingParent = (c', cob')" by (simp add: childOf_def p c a)
  have ok: "fst (fst (service_CheckTool plain_env (fst (childOf denyingParent)) (snd (childOf denyingParent)) (call ''Edit'' ''path'' ''a.go'')))"
    by code_simp
  have "pe_UnifiedGrants (sv_perm (fst (NewPermissionService None))) \<noteq> None" by code_simp
  then have g: "pe_UnifiedGrants (sv_perm c) \<noteq> None" by (simp add: c)
  have "pe_Memory (sv_perm (fst denyingParent)) = Some 0" by code_simp
  then have m: "pe_Memory (sv_perm p) = Some 0" by (simp add: p)
  have "pe_Stage (sv_perm (fst denyingParent)) = SpecStageNone" by code_simp
  then have st: "pe_Stage (sv_perm p) = SpecStageNone" by (simp add: p)
  from ok ch have "fst (fst (service_CheckTool plain_env c' cob' (call ''Edit'' ''path'' ''a.go'')))" by simp
  from delegated_policy_bounded [OF a g m this] st ok show ?thesis by (simp add: p call_def plain_env_def)
qed

text \<open>
  The user's never-allow rules do not reach a sub-agent. They are no part of the snapshot, so a child at the same tier
  runs what the parent refuses; and the service's own \<open>CheckToolDecision\<close>, which works on a copy, does too.
\<close>

theorem delegation_drops_never:
  "let parent = (service_SetNeverAllow (fst denyingParent) [''Edit''], snd denyingParent); tc = call ''Edit'' ''path'' ''a.go'' in
   \<not> fst (fst (service_CheckTool plain_env (fst parent) (snd parent) tc))
   \<and> fst (fst (service_CheckTool plain_env (fst (childOf parent)) (snd (childOf parent)) tc))
   \<and> de_Outcome (fst (service_CheckToolDecision plain_env (fst parent) (snd parent) tc)) = DecisionAllow"
  by code_simp

section \<open>Settings that do not take effect\<close>

text \<open>
  \<open>ResetSpec\<close> forgets the stage but not which stages were completed: after a workflow in which both parallel stages
  were done, the plan of the next specification is admitted right after its proposal.
\<close>

theorem reset_keeps_completed_stages:
  assumes "parallelDone (pe_specDone (sv_perm s))" and "slug \<noteq> []"
  shows "\<exists>s'. service_AdvanceSpecStage files (SetSpecSlug (ResetSpec s) slug) ''Proposal'' now = Inr s'
    \<and> pe_Stage (sv_perm s') = SpecStageProposal \<and> specToolAllowed files (sv_perm s') ''Plan''"
proof -
  have cn: "canonicalToolName ''Proposal'' = ''Proposal''" by code_simp
  obtain j where j: "AppendSpec ''proposal'' slug now (sv_journal s) = Inr j"
    by (cases "sv_journal s") (simp_all add: AppendSpec_def with_log_def Append_eq Known_iff)
  have "parallelDone (pe_specDone (sv_perm s) OR doneProposal)"
    using assms(1) by (simp add: parallelDone_bits)
  with assms(2) j show ?thesis
    by (simp add: service_AdvanceSpecStage_def ResetSpec_def SetSpecSlug_def AdvanceSpecStage_def Transition_def Let_def cn
        specToolAllowed_def StringFromStageEnum_def workflow_Reset_def)
qed

text \<open>
  Replacing the rule memory has no effect on a service whose engine reads the unified view: every check decides as
  before, whatever rules the new memory holds.
\<close>

theorem set_memory_ignored:
  assumes "pe_UnifiedGrants (sv_perm s) \<noteq> None"
  shows "fst (service_CheckTool en (SetMemory s m) ob tc) = fst (service_CheckTool en s ob tc)"
proof -
  let ?pe = "sv_perm s" let ?pe' = "?pe\<lparr>pe_Memory := m\<rparr>"
  have 1: "governanceDenial en ?pe' tc = governanceDenial en ?pe tc" by (simp add: governanceDenial_def)
  have "specToolAllowed f ?pe' n = specToolAllowed f ?pe n" "specStageReason f ?pe' n = specStageReason f ?pe n"
    "promptDecisionWithSummary ?pe' tc x = promptDecisionWithSummary ?pe tc x" for f n x
    unfolding specToolAllowed_def specStageReason_def promptDecisionWithSummary_def by simp_all
  then have 2: "specGate en ?pe' tc = specGate en ?pe tc" unfolding specGate_def Let_def by simp
  have 3: "checkNeverAllow ?pe' n x = checkNeverAllow ?pe n x" for n x by (simp add: checkNeverAllow_def)
  have 4: "rememberedDecision en ?pe' ob tc x = rememberedDecision en ?pe ob tc x" for x
    using assms by (auto simp: rememberedDecision_def)
  have 5: "syncProfile ?pe' = (syncProfile ?pe)\<lparr>pe_Memory := m\<rparr>" by (simp add: syncProfile_def split: option.split)
  have 6: "discretionary en (q\<lparr>pe_Memory := m\<rparr>) ob tc x = discretionary en q ob tc x" for q x
  proof -
    have prompt: "promptDecision (q\<lparr>pe_Memory := m\<rparr>) tc = promptDecision q tc"
      unfolding promptDecision_def promptDecisionWithSummary_def by simp
    have "needsConfirmation en (q\<lparr>pe_Memory := m\<rparr>) tc = needsConfirmation en q tc"
      unfolding needsConfirmation_def Let_def by (simp split: option.split)
    moreover have "bypassDecision en (q\<lparr>pe_Memory := m\<rparr>) ob tc = bypassDecision en q ob tc"
      unfolding bypassDecision_def Let_def prompt by (simp split: option.split)
    ultimately show ?thesis unfolding discretionary_def prompt by simp
  qed
  have "fst (evaluateToolDecision en ?pe' ob tc) = fst (evaluateToolDecision en ?pe ob tc)"
    by (simp add: evaluateToolDecision_def Let_def 1 2 3 4 5 6 split: option.split prod.split)
  then show ?thesis
    by (auto simp: service_CheckTool_def SetMemory_def CheckTool_def CheckToolDecision_def Let_def stamp_def split: prod.splits)
qed

text \<open>
  A sandbox mode that is set is the one enforced and the one reported. A mode that comes with a replayed journal is
  reported and not enforced: the engine keeps the mode it had.
\<close>

theorem sandbox_mode_reported:
  "(if mode \<in> {''strict'', ''workspace'', ''off''} then
      \<exists>s'. SetSandboxMode s mode now = Inr s' \<and> service_SandboxMode s' = mode \<and> pe_SandboxMode (sv_perm s') = mode else True)
   \<and> (case OverrideOf l of None \<Rightarrow> True | Some m \<Rightarrow>
      service_SandboxMode (SetJournal s (Some l)) = m \<and> sv_perm (SetJournal s (Some l)) = sv_perm s)"
proof -
  have valid: "lastMode evs = Some m \<Longrightarrow> m \<noteq> []" for evs m
    by (induction evs) (auto simp: SandboxModeFact_Valid_def split: if_splits payload.splits)
  have "\<exists>s'. SetSandboxMode s mode now = Inr s' \<and> service_SandboxMode s' = mode \<and> pe_SandboxMode (sv_perm s') = mode"
    if "mode \<in> {''strict'', ''workspace'', ''off''}"
    using that by (cases "sv_journal s")
      (auto simp: SetSandboxMode_def AppendSandboxMode_def AppendSandboxModeWithSource_def with_log_def Append_eq Known_iff Let_def
        service_SandboxMode_def OverrideOf_def Snapshot_def SandboxModeFact_Valid_def SandboxModeSourceUser_def)
  then show ?thesis
    using valid by (auto simp: service_SandboxMode_def SetJournal_def OverrideOf_def Let_def split: option.split)
qed

end
