(* ===== verification/Execution_Graph.thy ===== *)
theory Execution_Graph
  imports Go_Prelude
begin

text \<open>
  The execution graph, from \<open>internal/executiongraph/execution_graph.go\<close> and the contract it exports to,
  \<open>internal/contracts/graph/graph.go\<close>: sessions, tasks, observations and checkpoints are projected into nodes, edges
  and events that are validated as they are added. SHA-256 in hexadecimal is the argument \<open>sha\<close>. Of the inputs only
  the fields that are read are modelled; a confidence is given by its decimal text.
\<close>

section \<open>The contract\<close>

type_synonym NodeKind = string
type_synonym EdgeKind = string
type_synonym EventType = string
type_synonym attributes = "string \<rightharpoonup> string"

definition NodeSystem :: NodeKind where "NodeSystem = ''system''"

definition NodeKnowledge :: NodeKind where "NodeKnowledge = ''knowledge''"

definition NodeExecution :: NodeKind where "NodeExecution = ''execution''"

definition NodePolicy :: NodeKind where "NodePolicy = ''policy''"

definition NodeQuality :: NodeKind where "NodeQuality = ''quality''"

definition NodeOperations :: NodeKind where "NodeOperations = ''operations''"

definition EdgeContains :: EdgeKind where "EdgeContains = ''contains''"

definition EdgeDependsOn :: EdgeKind where "EdgeDependsOn = ''depends_on''"

definition EdgeReferences :: EdgeKind where "EdgeReferences = ''references''"

definition EdgeProduced :: EdgeKind where "EdgeProduced = ''produced''"

definition EdgeGovernedBy :: EdgeKind where "EdgeGovernedBy = ''governed_by''"

definition EdgeValidatedBy :: EdgeKind where "EdgeValidatedBy = ''validated_by''"

definition EventCreated :: EventType where "EventCreated = ''created''"

definition EventUpdated :: EventType where "EventUpdated = ''updated''"

definition EventTransitioned :: EventType where "EventTransitioned = ''transitioned''"

definition EventObserved :: EventType where "EventObserved = ''observed''"

definition EventDeleted :: EventType where "EventDeleted = ''deleted''"

lemmas kind_defs = NodeSystem_def NodeKnowledge_def NodeExecution_def NodePolicy_def NodeQuality_def NodeOperations_def
  EdgeContains_def EdgeDependsOn_def EdgeReferences_def EdgeProduced_def EdgeGovernedBy_def EdgeValidatedBy_def
  EventCreated_def EventUpdated_def EventTransitioned_def EventObserved_def EventDeleted_def

datatype contractError = ErrNodeKind string | ErrEdgeKind string | ErrEventType string | ErrRefID | ErrProducer
  | ErrEvidenceURI nat | ErrNodeID | ErrNodeTime | ErrEdgeID | ErrEdgeFrom contractError | ErrEdgeTo contractError | ErrEdgeTime
  | ErrEventID | ErrEventSubject contractError | ErrEventTime

definition ParseNodeKind :: "string \<Rightarrow> contractError + NodeKind" where
  "ParseNodeKind s = (let k = ToLower (TrimSpace s) in
     if k \<in> set [NodeSystem, NodeKnowledge, NodeExecution, NodePolicy, NodeQuality, NodeOperations] then Inr k
     else Inl (ErrNodeKind s))"

definition ParseEdgeKind :: "string \<Rightarrow> contractError + EdgeKind" where
  "ParseEdgeKind s = (let k = ToLower (TrimSpace s) in
     if k \<in> set [EdgeContains, EdgeDependsOn, EdgeReferences, EdgeProduced, EdgeGovernedBy, EdgeValidatedBy] then Inr k
     else Inl (ErrEdgeKind s))"

definition ParseEventType :: "string \<Rightarrow> contractError + EventType" where
  "ParseEventType s = (let k = ToLower (TrimSpace s) in
     if k \<in> set [EventCreated, EventUpdated, EventTransitioned, EventObserved, EventDeleted] then Inr k
     else Inl (ErrEventType s))"

record Scope =
  sc_TenantID :: string
  sc_ProjectID :: string
  sc_RepositoryID :: string

record Ref =
  rf_Kind :: NodeKind
  rf_ID :: string

record ArtifactRef =
  af_URI :: string
  af_Digest :: string
  af_MediaType :: string

record Provenance =
  pv_Producer :: string
  pv_Version :: string
  pv_SourceID :: string
  pv_Evidence :: "ArtifactRef list"

record Node =
  nd_ID :: string
  nd_Kind :: NodeKind
  nd_Scope :: Scope
  nd_CreatedAt :: gotime
  nd_EffectiveAt :: gotime
  nd_Provenance :: Provenance
  nd_Attributes :: attributes

record Edge =
  ed_ID :: string
  ed_Kind :: EdgeKind
  ed_From :: Ref
  ed_To :: Ref
  ed_Scope :: Scope
  ed_CreatedAt :: gotime
  ed_EffectiveAt :: gotime
  ed_Provenance :: Provenance
  ed_Attributes :: attributes

record graph_Event =
  gv_ID :: string
  gv_Type :: EventType
  gv_Subject :: Ref
  gv_Scope :: Scope
  gv_OccurredAt :: gotime
  gv_CorrelationID :: string
  gv_CausationID :: string
  gv_IdempotencyKey :: string
  gv_Provenance :: Provenance

definition ref_Validate :: "Ref \<Rightarrow> contractError option" where
  "ref_Validate r = (case ParseNodeKind (rf_Kind r) of Inl e \<Rightarrow> Some e
   | Inr _ \<Rightarrow> if TrimSpace (rf_ID r) = [] then Some ErrRefID else None)"

fun evidenceError :: "nat \<Rightarrow> ArtifactRef list \<Rightarrow> contractError option" where
  "evidenceError i [] = None"
| "evidenceError i (a # as) = (if TrimSpace (af_URI a) = [] then Some (ErrEvidenceURI i) else evidenceError (Suc i) as)"

definition provenance_Validate :: "Provenance \<Rightarrow> contractError option" where
  "provenance_Validate p = (if TrimSpace (pv_Producer p) = [] then Some ErrProducer else evidenceError 0 (pv_Evidence p))"

definition node_Validate :: "Node \<Rightarrow> contractError option" where
  "node_Validate n = (if TrimSpace (nd_ID n) = [] then Some ErrNodeID
     else case ParseNodeKind (nd_Kind n) of Inl e \<Rightarrow> Some e
     | Inr _ \<Rightarrow> if IsZero (nd_CreatedAt n) then Some ErrNodeTime else provenance_Validate (nd_Provenance n))"

definition edge_Validate :: "Edge \<Rightarrow> contractError option" where
  "edge_Validate e = (if TrimSpace (ed_ID e) = [] then Some ErrEdgeID
     else case ParseEdgeKind (ed_Kind e) of Inl err \<Rightarrow> Some err
     | Inr _ \<Rightarrow> (case ref_Validate (ed_From e) of Some err \<Rightarrow> Some (ErrEdgeFrom err)
       | None \<Rightarrow> (case ref_Validate (ed_To e) of Some err \<Rightarrow> Some (ErrEdgeTo err)
         | None \<Rightarrow> if IsZero (ed_CreatedAt e) then Some ErrEdgeTime else provenance_Validate (ed_Provenance e))))"

definition event_Validate :: "graph_Event \<Rightarrow> contractError option" where
  "event_Validate v = (if TrimSpace (gv_ID v) = [] then Some ErrEventID
     else case ParseEventType (gv_Type v) of Inl err \<Rightarrow> Some err
     | Inr _ \<Rightarrow> (case ref_Validate (gv_Subject v) of Some err \<Rightarrow> Some (ErrEventSubject err)
       | None \<Rightarrow> if IsZero (gv_OccurredAt v) then Some ErrEventTime else provenance_Validate (gv_Provenance v)))"

section \<open>Inputs\<close>

record graph_ToolCall =
  gc_ID :: string
  gc_Name :: string
  gc_Arguments :: "(string \<times> string) list"

record graph_ToolResult =
  gt_ToolUseID :: string
  gt_Content :: string
  gt_IsError :: bool

record graph_Message =
  gm_Role :: string
  gm_Content :: string
  gm_ToolUse :: "graph_ToolCall list"
  gm_ToolResults :: "graph_ToolResult list"

record Session =
  ss_ID :: string
  ss_Model :: string
  ss_Provider :: string
  ss_Agent :: string
  ss_Name :: string
  ss_Messages :: "graph_Message list"
  ss_CreatedAt :: gotime
  ss_UpdatedAt :: gotime

record TaskDependency =
  dp_TargetID :: string
  dp_Type :: string

record Task =
  tk_ID :: string
  tk_ParentID :: string
  tk_Subject :: string
  tk_Description :: string
  tk_Status :: string
  tk_Owner :: string
  tk_Dependencies :: "TaskDependency list"
  tk_CreatedAt :: gotime
  tk_UpdatedAt :: gotime

record runtime_Task =
  rt_ID :: string
  rt_Kind :: string
  rt_Prompt :: string
  rt_Status :: string
  rt_Output :: string
  rt_Error :: string
  rt_StartedAt :: gotime
  rt_DoneAt :: gotime

text \<open>The context, quality and runtime observations have the same fields.\<close>

record Observation =
  ob_ID :: string
  ob_Subject :: Ref
  ob_Nodes :: "Node list"
  ob_Edges :: "Edge list"
  ob_Events :: "graph_Event list"
  ob_OccurredAt :: gotime

record PermissionVerdict =
  vd_Allowed :: bool
  vd_Reason :: string
  vd_Rule :: string
  vd_Risk :: int
  vd_Confidence :: string
  vd_Source :: string

record PolicyObservation =
  po_ID :: string
  po_Subject :: Ref
  po_Verdict :: PermissionVerdict
  po_ReasonSHA256 :: string
  po_OccurredAt :: gotime

record VerificationSummary =
  vs_Failed :: bool
  vs_FindingCount :: int
  vs_MaxSeverity :: string
  vs_TargetSHA256 :: string

text \<open>Of a verification report: its target, the severities of its findings and its threshold.\<close>

record Report =
  rp_Target :: string
  rp_Severities :: "int list"
  rp_FailOn :: int
  rp_FailOnSet :: bool

record VerificationObservation =
  vo_ID :: string
  vo_Subject :: Ref
  vo_Report :: "Report option"
  vo_Summary :: "VerificationSummary option"
  vo_OccurredAt :: gotime

record SwiftSessionRef =
  sr_SessionID :: string
  sr_Subject :: Ref
  sr_CreatedAt :: gotime

record SwiftCheckpointRef =
  cp_CheckpointID :: string
  cp_SwiftSessionID :: string
  cp_Subject :: Ref
  cp_CreatedAt :: gotime

record Input =
  in_Session :: "Session option"
  in_Tasks :: "Task option list"
  in_RuntimeTasks :: "runtime_Task option list"
  in_ContextObservations :: "Observation list"
  in_QualityObservations :: "Observation list"
  in_RuntimeObservations :: "Observation list"
  in_PolicyObservations :: "PolicyObservation list"
  in_Verifications :: "VerificationObservation list"
  in_SwiftSessions :: "SwiftSessionRef list"
  in_SwiftCheckpoints :: "SwiftCheckpointRef list"
  in_GeneratedAt :: gotime
  in_Scope :: Scope
  in_ProducerVersion :: string

section \<open>The accumulator\<close>

datatype graphError = ErrGeneratedAt | ErrNode string contractError | ErrConflictingKinds string NodeKind NodeKind
  | ErrEdge string contractError | ErrUnknownSource string string | ErrUnknownTarget string string
  | ErrEvent string contractError | ErrSubject string contractError | ErrUnknownSubject string string
  | ErrImportedKind string string NodeKind

record Export =
  ex_SchemaVersion :: string
  ex_GeneratedAt :: gotime
  ex_Scope :: Scope
  ex_Nodes :: "Node list"
  ex_Edges :: "Edge list"
  ex_Events :: "graph_Event list"

record accumulator =
  ac_export :: Export
  ac_generatedAt :: gotime
  ac_producerVersion :: string
  ac_nodes :: "string \<rightharpoonup> NodeKind"
  ac_edges :: "string list"
  ac_events :: "string list"

definition SchemaVersion :: string where
  "SchemaVersion = ''hawk.graph/v1''"

definition newAccumulator :: "gotime \<Rightarrow> Scope \<Rightarrow> string \<Rightarrow> accumulator" where
  "newAccumulator generatedAt scope producerVersion =
    \<lparr>ac_export = \<lparr>ex_SchemaVersion = SchemaVersion, ex_GeneratedAt = generatedAt, ex_Scope = scope, ex_Nodes = [],
       ex_Edges = [], ex_Events = []\<rparr>,
     ac_generatedAt = generatedAt, ac_producerVersion = TrimSpace producerVersion, ac_nodes = Map.empty, ac_edges = [],
     ac_events = []\<rparr>"

abbreviation "scopeOf a \<equiv> ex_Scope (ac_export a)"

definition addNode :: "accumulator \<Rightarrow> Node \<Rightarrow> graphError + accumulator" where
  "addNode a node = (case node_Validate node of
     Some err \<Rightarrow> Inl (ErrNode (nd_ID node) err)
   | None \<Rightarrow> (case ac_nodes a (nd_ID node) of
       Some kind \<Rightarrow> if kind \<noteq> nd_Kind node then Inl (ErrConflictingKinds (nd_ID node) kind (nd_Kind node)) else Inr a
     | None \<Rightarrow> Inr (a\<lparr>ac_nodes := (ac_nodes a)(nd_ID node \<mapsto> nd_Kind node),
         ac_export := (ac_export a)\<lparr>ex_Nodes := ex_Nodes (ac_export a) @ [node]\<rparr>\<rparr>)))"

definition addEdge :: "accumulator \<Rightarrow> Edge \<Rightarrow> graphError + accumulator" where
  "addEdge a edge = (case edge_Validate edge of
     Some err \<Rightarrow> Inl (ErrEdge (ed_ID edge) err)
   | None \<Rightarrow>
      if ac_nodes a (rf_ID (ed_From edge)) = None then Inl (ErrUnknownSource (ed_ID edge) (rf_ID (ed_From edge)))
      else if ac_nodes a (rf_ID (ed_To edge)) = None then Inl (ErrUnknownTarget (ed_ID edge) (rf_ID (ed_To edge)))
      else if ed_ID edge \<in> set (ac_edges a) then Inr a
      else Inr (a\<lparr>ac_edges := ed_ID edge # ac_edges a,
         ac_export := (ac_export a)\<lparr>ex_Edges := ex_Edges (ac_export a) @ [edge]\<rparr>\<rparr>))"

definition addEvent :: "accumulator \<Rightarrow> graph_Event \<Rightarrow> graphError + accumulator" where
  "addEvent a event = (case event_Validate event of
     Some err \<Rightarrow> Inl (ErrEvent (gv_ID event) err)
   | None \<Rightarrow>
      if gv_ID event \<in> set (ac_events a) then Inr a
      else Inr (a\<lparr>ac_events := gv_ID event # ac_events a,
         ac_export := (ac_export a)\<lparr>ex_Events := ex_Events (ac_export a) @ [event]\<rparr>\<rparr>))"

definition hawkProvenance :: "accumulator \<Rightarrow> string \<Rightarrow> string \<Rightarrow> Provenance" where
  "hawkProvenance a sourceID evidenceURI = \<lparr>pv_Producer = ''hawk'', pv_Version = ac_producerVersion a,
     pv_SourceID = TrimSpace sourceID,
     pv_Evidence = (if TrimSpace evidenceURI \<noteq> [] then [\<lparr>af_URI = evidenceURI, af_Digest = [], af_MediaType = []\<rparr>] else [])\<rparr>"

definition baseAttributes :: "string \<Rightarrow> attributes" where
  "baseAttributes entityType = [''entity_type'' \<mapsto> entityType, ''data_classification'' \<mapsto> ''metadata_only'']"

definition addAttribute :: "attributes \<Rightarrow> string \<Rightarrow> string \<Rightarrow> attributes" where
  "addAttribute attrs key value0 = (let v = TrimSpace value0 in if v \<noteq> [] then attrs(key \<mapsto> v) else attrs)"

definition graphTime :: "gotime \<Rightarrow> gotime \<Rightarrow> gotime" where
  "graphTime v fallback = (if IsZero v then fallback else v)"

definition digest :: "(string \<Rightarrow> string) \<Rightarrow> string \<Rightarrow> string" where
  "digest sha v = (if TrimSpace v = [] then [] else sha v)"

text \<open>Sixty-four digits that decode and encode back to the same text are lower-case hexadecimal digits.\<close>

definition sanitizedSHA256 :: "(string \<Rightarrow> string) \<Rightarrow> string \<Rightarrow> string" where
  "sanitizedSHA256 sha value0 = (let v = TrimSpace value0 in
     if length v = 64 \<and> list_all (\<lambda>c. c \<in> set ''0123456789abcdef'') v then v else digest sha v)"

definition sessionNodeID :: "string \<Rightarrow> string" where
  "sessionNodeID sessionID = ''hawk/session/'' @ sessionID"

definition structuredTaskNodeID :: "string \<Rightarrow> string" where
  "structuredTaskNodeID taskID = ''hawk/task/'' @ taskID"

definition toolCallNodeID :: "string \<Rightarrow> string \<Rightarrow> string" where
  "toolCallNodeID sessionID toolUseID = ''hawk/tool-call/'' @ sessionID @ ''/'' @ toolUseID"

definition formatBool :: "bool \<Rightarrow> string" where
  "formatBool b = (if b then ''true'' else ''false'')"

definition Itoa :: "int \<Rightarrow> string" where
  "Itoa i = (if i < 0 then ''-'' @ show_nat (nat (- i)) else show_nat (nat i))"

definition addContainsEdge :: "accumulator \<Rightarrow> Ref \<Rightarrow> Ref \<Rightarrow> gotime \<Rightarrow> Provenance \<Rightarrow> graphError + accumulator" where
  "addContainsEdge a from to createdAt provenance =
    (if rf_ID from = [] \<or> rf_ID to = [] then Inr a
     else addEdge a \<lparr>ed_ID = ''hawk/edge/'' @ rf_ID from @ ''/contains/'' @ rf_ID to, ed_Kind = EdgeContains, ed_From = from,
       ed_To = to, ed_Scope = scopeOf a, ed_CreatedAt = createdAt, ed_EffectiveAt = 0, ed_Provenance = provenance,
       ed_Attributes = Map.empty\<rparr>)"

definition addObservedEvent :: "accumulator \<Rightarrow> Ref \<Rightarrow> gotime \<Rightarrow> Provenance \<Rightarrow> string \<Rightarrow> graphError + accumulator" where
  "addObservedEvent a subject occurredAt provenance name =
    addEvent a \<lparr>gv_ID = ''hawk/event/'' @ name @ ''/observed'', gv_Type = EventObserved, gv_Subject = subject,
      gv_Scope = scopeOf a, gv_OccurredAt = occurredAt, gv_CorrelationID = rf_ID subject, gv_CausationID = [],
      gv_IdempotencyKey = ''hawk/'' @ name @ ''/observed'', gv_Provenance = provenance\<rparr>"

section \<open>Sessions\<close>

definition noRef :: Ref where
  "noRef = \<lparr>rf_Kind = [], rf_ID = []\<rparr>"

text \<open>The results of a session by call; a later result of the same call replaces an earlier one.\<close>

definition resultsOf :: "Session \<Rightarrow> string \<rightharpoonup> graph_ToolResult" where
  "resultsOf saved = map_of (rev (map (\<lambda>r. (gt_ToolUseID r, r)) (concat (map gm_ToolResults (ss_Messages saved)))))"

definition addToolCall :: "Session \<Rightarrow> Ref \<Rightarrow> nat \<Rightarrow> accumulator \<Rightarrow> nat \<times> graph_ToolCall \<Rightarrow> graphError + accumulator" where
  "addToolCall saved parent messageIndex a x = (case x of (toolIndex, tcall) \<Rightarrow>
     let callID = (if TrimSpace (gc_ID tcall) = [] then ''message-'' @ show_nat messageIndex @ ''-tool-'' @ show_nat toolIndex
                   else TrimSpace (gc_ID tcall));
         ref = \<lparr>rf_Kind = NodeExecution, rf_ID = toolCallNodeID (ss_ID saved) callID\<rparr>;
         isError = (case resultsOf saved (gc_ID tcall) of Some r \<Rightarrow> gt_IsError r | None \<Rightarrow> False);
         status = (case resultsOf saved (gc_ID tcall) of Some r \<Rightarrow> (if gt_IsError r then ''failed'' else ''completed'') | None \<Rightarrow> ''pending'');
         node = \<lparr>nd_ID = rf_ID ref, nd_Kind = rf_Kind ref, nd_Scope = scopeOf a, nd_CreatedAt = ac_generatedAt a,
           nd_EffectiveAt = 0,
           nd_Provenance = hawkProvenance a callID (''hawk://session/'' @ ss_ID saved @ ''/tool-call/'' @ callID),
           nd_Attributes = [''entity_type'' \<mapsto> ''tool_call'', ''data_classification'' \<mapsto> ''metadata_only'', ''tool_name'' \<mapsto> gc_Name tcall,
             ''argument_count'' \<mapsto> show_nat (length (gc_Arguments tcall)), ''status'' \<mapsto> status, ''is_error'' \<mapsto> formatBool isError,
             ''message_index'' \<mapsto> show_nat messageIndex, ''temporal_precision'' \<mapsto> ''projection_time'']\<rparr>
     in bindE (addNode a node) (\<lambda>a.
        bindE (addContainsEdge a parent ref (nd_CreatedAt node) (nd_Provenance node)) (\<lambda>a.
        addObservedEvent a ref (nd_CreatedAt node) (nd_Provenance node) (''tool-call/'' @ ss_ID saved @ ''/'' @ callID))))"

definition addTaskRequest :: "(string \<Rightarrow> string) \<Rightarrow> Session \<Rightarrow> Ref \<Rightarrow> accumulator \<Rightarrow> nat \<Rightarrow> nat \<Rightarrow> graph_Message \<Rightarrow>
    graphError + accumulator \<times> Ref" where
  "addTaskRequest sha saved sessionRef a taskNumber messageIndex message =
    (let taskID = ss_ID saved @ ''/'' @ show_nat taskNumber;
         currentTask = \<lparr>rf_Kind = NodeExecution, rf_ID = ''hawk/task-request/'' @ taskID\<rparr>;
         node = \<lparr>nd_ID = rf_ID currentTask, nd_Kind = rf_Kind currentTask, nd_Scope = scopeOf a,
           nd_CreatedAt = ac_generatedAt a, nd_EffectiveAt = 0,
           nd_Provenance = hawkProvenance a (ss_ID saved @ '':message:'' @ show_nat messageIndex)
             (''hawk://session/'' @ ss_ID saved @ ''/message/'' @ show_nat messageIndex),
           nd_Attributes = [''entity_type'' \<mapsto> ''task_request'', ''data_classification'' \<mapsto> ''metadata_only'',
             ''content_sha256'' \<mapsto> digest sha (gm_Content message), ''message_index'' \<mapsto> show_nat messageIndex,
             ''temporal_precision'' \<mapsto> ''projection_time'']\<rparr>
     in bindE (addNode a node) (\<lambda>a.
        bindE (addContainsEdge a sessionRef currentTask (nd_CreatedAt node) (nd_Provenance node)) (\<lambda>a.
        bindE (addObservedEvent a currentTask (nd_CreatedAt node) (nd_Provenance node) (''task-request/'' @ taskID)) (\<lambda>a.
        Inr (a, currentTask)))))"

text \<open>One message: a new task for a request of the user, then its tool calls under the current task.\<close>

definition addMessage :: "(string \<Rightarrow> string) \<Rightarrow> Session \<Rightarrow> Ref \<Rightarrow> accumulator \<times> Ref \<times> nat \<Rightarrow> nat \<times> graph_Message \<Rightarrow>
    graphError + accumulator \<times> Ref \<times> nat" where
  "addMessage sha saved sessionRef st x = (case st of (a, currentTask, taskNumber) \<Rightarrow> case x of (messageIndex, message) \<Rightarrow>
     bindE (if gm_Role message = ''user'' \<and> gm_ToolResults message = [] \<and> TrimSpace (gm_Content message) \<noteq> []
            then bindE (addTaskRequest sha saved sessionRef a (taskNumber + 1) messageIndex message) (\<lambda>(a, t). Inr (a, t, taskNumber + 1))
            else Inr (a, currentTask, taskNumber)) (\<lambda>(a, currentTask, taskNumber).
     bindE (run (addToolCall saved (if rf_ID currentTask = [] then sessionRef else currentTask) messageIndex) a
            (enumerate 0 (gm_ToolUse message))) (\<lambda>a. Inr (a, currentTask, taskNumber))))"

definition addSessionMessages :: "(string \<Rightarrow> string) \<Rightarrow> accumulator \<Rightarrow> Session \<Rightarrow> Ref \<Rightarrow> graphError + accumulator" where
  "addSessionMessages sha a saved sessionRef =
    bindE (run (addMessage sha saved sessionRef) (a, noRef, 0) (enumerate 0 (ss_Messages saved))) (\<lambda>(a, _). Inr a)"

definition addSession :: "(string \<Rightarrow> string) \<Rightarrow> accumulator \<Rightarrow> Session option \<Rightarrow> graphError + accumulator \<times> Ref" where
  "addSession sha a s = (case s of
     None \<Rightarrow> Inr (a, noRef)
   | Some saved \<Rightarrow>
     (let sessionID = TrimSpace (ss_ID saved);
          ref = \<lparr>rf_Kind = NodeExecution, rf_ID = sessionNodeID sessionID\<rparr>;
          createdAt = graphTime (ss_CreatedAt saved) (ac_generatedAt a);
          at1 = (baseAttributes ''hawk_session'')(''message_count'' \<mapsto> show_nat (length (ss_Messages saved)));
          at2 = addAttribute (addAttribute (addAttribute at1 ''model'' (ss_Model saved)) ''provider'' (ss_Provider saved)) ''agent'' (ss_Agent saved);
          node = \<lparr>nd_ID = rf_ID ref, nd_Kind = rf_Kind ref, nd_Scope = scopeOf a, nd_CreatedAt = createdAt,
            nd_EffectiveAt = graphTime (ss_UpdatedAt saved) createdAt,
            nd_Provenance = hawkProvenance a sessionID (''hawk://session/'' @ sessionID),
            nd_Attributes = addAttribute at2 ''name_sha256'' (digest sha (ss_Name saved))\<rparr>
      in bindE (addNode a node) (\<lambda>a.
         bindE (addEvent a \<lparr>gv_ID = ''hawk/event/session/'' @ sessionID @ ''/created'', gv_Type = EventCreated, gv_Subject = ref,
             gv_Scope = scopeOf a, gv_OccurredAt = createdAt, gv_CorrelationID = sessionID, gv_CausationID = [],
             gv_IdempotencyKey = ''hawk/session/'' @ sessionID @ ''/created'', gv_Provenance = nd_Provenance node\<rparr>) (\<lambda>a.
         bindE (addSessionMessages sha a saved ref) (\<lambda>a. Inr (a, ref))))))"

section \<open>Tasks\<close>

text \<open>The events of a task or runtime task: its creation and, when it happened, its transition.\<close>

definition createdEvent :: "accumulator \<Rightarrow> string \<Rightarrow> string \<Rightarrow> Ref \<Rightarrow> gotime \<Rightarrow> Provenance \<Rightarrow> graph_Event" where
  "createdEvent a what taskID ref t p = \<lparr>gv_ID = ''hawk/event/'' @ what @ ''/'' @ taskID @ ''/created'', gv_Type = EventCreated,
     gv_Subject = ref, gv_Scope = scopeOf a, gv_OccurredAt = t, gv_CorrelationID = taskID, gv_CausationID = [],
     gv_IdempotencyKey = ''hawk/'' @ what @ ''/'' @ taskID @ ''/created'', gv_Provenance = p\<rparr>"

definition transitionedEvent :: "accumulator \<Rightarrow> string \<Rightarrow> string \<Rightarrow> Ref \<Rightarrow> gotime \<Rightarrow> string \<Rightarrow> Provenance \<Rightarrow> graph_Event" where
  "transitionedEvent a what taskID ref t status p =
    \<lparr>gv_ID = ''hawk/event/'' @ what @ ''/'' @ taskID @ ''/transitioned'', gv_Type = EventTransitioned,
     gv_Subject = ref, gv_Scope = scopeOf a, gv_OccurredAt = t, gv_CorrelationID = taskID,
     gv_CausationID = ''hawk/event/'' @ what @ ''/'' @ taskID @ ''/created'',
     gv_IdempotencyKey = ''hawk/'' @ what @ ''/'' @ taskID @ ''/transitioned/'' @ status, gv_Provenance = p\<rparr>"

definition addTaskNode :: "(string \<Rightarrow> string) \<Rightarrow> accumulator \<Rightarrow> Task option \<Rightarrow> graphError + accumulator" where
  "addTaskNode sha a t = (case t of
     None \<Rightarrow> Inr a
   | Some task \<Rightarrow>
     (let taskID = TrimSpace (tk_ID task);
          ref = \<lparr>rf_Kind = NodeExecution, rf_ID = structuredTaskNodeID taskID\<rparr>;
          createdAt = graphTime (tk_CreatedAt task) (ac_generatedAt a);
          at1 = (baseAttributes ''task'')(''status'' \<mapsto> tk_Status task);
          at2 = addAttribute (addAttribute at1 ''subject_sha256'' (digest sha (tk_Subject task))) ''description_sha256'' (digest sha (tk_Description task));
          node = \<lparr>nd_ID = rf_ID ref, nd_Kind = rf_Kind ref, nd_Scope = scopeOf a, nd_CreatedAt = createdAt,
            nd_EffectiveAt = graphTime (tk_UpdatedAt task) createdAt,
            nd_Provenance = hawkProvenance a taskID (''hawk://task/'' @ taskID),
            nd_Attributes = addAttribute at2 ''owner'' (tk_Owner task)\<rparr>
      in bindE (addNode a node) (\<lambda>a.
         bindE (addEvent a (createdEvent a ''task'' taskID ref createdAt (nd_Provenance node))) (\<lambda>a.
         if \<not> IsZero (tk_UpdatedAt task) \<and> tk_CreatedAt task < tk_UpdatedAt task
         then addEvent a (transitionedEvent a ''task'' taskID ref (tk_UpdatedAt task) (tk_Status task) (nd_Provenance node))
         else Inr a))))"

text \<open>
  One dependency. The variable \<open>from\<close> is declared outside the loop: a parent-child dependency swaps it with its target
  for the dependencies that follow.
\<close>

definition addDependency :: "Task \<Rightarrow> accumulator \<times> Ref \<Rightarrow> TaskDependency \<Rightarrow> graphError + accumulator \<times> Ref" where
  "addDependency task st dependency = (case st of (a, from0) \<Rightarrow>
     if dp_Type dependency = ''parent-child'' \<and> tk_ParentID task = dp_TargetID dependency then Inr (a, from0)
     else let to0 = \<lparr>rf_Kind = NodeExecution, rf_ID = structuredTaskNodeID (dp_TargetID dependency)\<rparr>;
              kind = (if dp_Type dependency = ''blocks'' then EdgeDependsOn
                      else if dp_Type dependency = ''parent-child'' then EdgeContains else EdgeReferences);
              from = (if dp_Type dependency = ''parent-child'' then to0 else from0);
              to = (if dp_Type dependency = ''parent-child'' then from0 else to0)
       in bindE (addEdge a \<lparr>ed_ID = ''hawk/edge/task/'' @ tk_ID task @ ''/'' @ dp_Type dependency @ ''/'' @ dp_TargetID dependency,
              ed_Kind = kind, ed_From = from, ed_To = to, ed_Scope = scopeOf a,
              ed_CreatedAt = graphTime (tk_CreatedAt task) (ac_generatedAt a), ed_EffectiveAt = 0,
              ed_Provenance = hawkProvenance a (tk_ID task) (''hawk://task/'' @ tk_ID task),
              ed_Attributes = [''dependency_type'' \<mapsto> dp_Type dependency]\<rparr>) (\<lambda>a. Inr (a, from)))"

definition addTaskEdges :: "Ref \<Rightarrow> accumulator \<Rightarrow> Task option \<Rightarrow> graphError + accumulator" where
  "addTaskEdges sessionRef a t = (case t of
     None \<Rightarrow> Inr a
   | Some task \<Rightarrow>
     (let from = \<lparr>rf_Kind = NodeExecution, rf_ID = structuredTaskNodeID (tk_ID task)\<rparr>;
          createdAt = graphTime (tk_CreatedAt task) (ac_generatedAt a);
          p = hawkProvenance a (tk_ID task) (''hawk://task/'' @ tk_ID task)
      in bindE (if tk_ParentID task \<noteq> []
                then addContainsEdge a \<lparr>rf_Kind = NodeExecution, rf_ID = structuredTaskNodeID (tk_ParentID task)\<rparr> from createdAt p
                else if rf_ID sessionRef \<noteq> [] then addContainsEdge a sessionRef from createdAt p
                else Inr a) (\<lambda>a.
         bindE (run (addDependency task) (a, from) (tk_Dependencies task)) (\<lambda>(a, _). Inr a))))"

definition addStructuredTasks :: "(string \<Rightarrow> string) \<Rightarrow> accumulator \<Rightarrow> Task option list \<Rightarrow> Ref \<Rightarrow> graphError + accumulator" where
  "addStructuredTasks sha a tasks sessionRef =
    bindE (run (addTaskNode sha) a tasks) (\<lambda>a. run (addTaskEdges sessionRef) a tasks)"

definition addRuntimeTask :: "(string \<Rightarrow> string) \<Rightarrow> Ref \<Rightarrow> accumulator \<Rightarrow> runtime_Task option \<Rightarrow> graphError + accumulator" where
  "addRuntimeTask sha sessionRef a t = (case t of
     None \<Rightarrow> Inr a
   | Some task \<Rightarrow>
     (let taskID = TrimSpace (rt_ID task);
          ref = \<lparr>rf_Kind = NodeExecution, rf_ID = ''hawk/runtime-task/'' @ taskID\<rparr>;
          createdAt = graphTime (rt_StartedAt task) (ac_generatedAt a);
          at1 = (baseAttributes ''runtime_task'')(''kind'' \<mapsto> rt_Kind task, ''status'' \<mapsto> rt_Status task,
            ''output_present'' \<mapsto> formatBool (rt_Output task \<noteq> []), ''error_present'' \<mapsto> formatBool (rt_Error task \<noteq> []));
          node = \<lparr>nd_ID = rf_ID ref, nd_Kind = rf_Kind ref, nd_Scope = scopeOf a, nd_CreatedAt = createdAt,
            nd_EffectiveAt = graphTime (rt_DoneAt task) createdAt,
            nd_Provenance = hawkProvenance a taskID (''hawk://runtime-task/'' @ taskID),
            nd_Attributes = addAttribute at1 ''label_sha256'' (digest sha (rt_Prompt task))\<rparr>
      in bindE (addNode a node) (\<lambda>a.
         bindE (if rf_ID sessionRef \<noteq> [] then addContainsEdge a sessionRef ref createdAt (nd_Provenance node) else Inr a) (\<lambda>a.
         bindE (addEvent a (createdEvent a ''runtime-task'' taskID ref createdAt (nd_Provenance node))) (\<lambda>a.
         if \<not> IsZero (rt_DoneAt task)
         then addEvent a (transitionedEvent a ''runtime-task'' taskID ref (rt_DoneAt task) (rt_Status task) (nd_Provenance node))
         else Inr a)))))"

definition addRuntimeTasks :: "(string \<Rightarrow> string) \<Rightarrow> accumulator \<Rightarrow> runtime_Task option list \<Rightarrow> Ref \<Rightarrow> graphError + accumulator" where
  "addRuntimeTasks sha a tasks sessionRef = run (addRuntimeTask sha sessionRef) a tasks"

section \<open>Observations\<close>

text \<open>A subject, where one is given, is valid and known.\<close>

definition checkSubject :: "accumulator \<Rightarrow> string \<Rightarrow> Ref \<Rightarrow> graphError option" where
  "checkSubject a what subject = (if rf_ID subject = [] then None
     else case ref_Validate subject of Some err \<Rightarrow> Some (ErrSubject what err)
     | None \<Rightarrow> if ac_nodes a (rf_ID subject) = None then Some (ErrUnknownSubject what (rf_ID subject)) else None)"

definition importNode :: "string \<Rightarrow> NodeKind list \<Rightarrow> accumulator \<Rightarrow> Node \<Rightarrow> graphError + accumulator" where
  "importNode what kinds a node = (if nd_Kind node \<notin> set kinds then Inl (ErrImportedKind what (nd_ID node) (nd_Kind node))
     else addNode a (node\<lparr>nd_Scope := scopeOf a\<rparr>))"

definition importEdge :: "accumulator \<Rightarrow> Edge \<Rightarrow> graphError + accumulator" where
  "importEdge a edge = addEdge a (edge\<lparr>ed_Scope := scopeOf a\<rparr>)"

definition importEvent :: "accumulator \<Rightarrow> graph_Event \<Rightarrow> graphError + accumulator" where
  "importEvent a event = addEvent a (event\<lparr>gv_Scope := scopeOf a\<rparr>)"

text \<open>The edge from the subject to an imported node.\<close>

definition linkNode :: "(string \<Rightarrow> string) \<Rightarrow> string \<Rightarrow> string \<Rightarrow> string \<Rightarrow> (Node \<Rightarrow> EdgeKind option) \<Rightarrow> string \<Rightarrow> Ref \<Rightarrow> gotime \<Rightarrow> accumulator \<Rightarrow> Node \<Rightarrow>
    graphError + accumulator" where
  "linkNode sha area uri entity kindOf i subject occurredAt a node = (case kindOf node of
     None \<Rightarrow> Inr a
   | Some kind \<Rightarrow> addEdge a
      \<lparr>ed_ID = ''hawk/edge/'' @ area @ ''/'' @ i @ ''/'' @ digest sha (rf_ID subject @ [CHR 0x00] @ nd_ID node), ed_Kind = kind,
       ed_From = subject, ed_To = \<lparr>rf_Kind = nd_Kind node, rf_ID = nd_ID node\<rparr>, ed_Scope = scopeOf a,
       ed_CreatedAt = occurredAt, ed_EffectiveAt = 0, ed_Provenance = hawkProvenance a i (''hawk://'' @ uri @ ''/'' @ i),
       ed_Attributes = baseAttributes entity\<rparr>)"

definition addObservation :: "(string \<Rightarrow> string) \<Rightarrow> string \<Rightarrow> string \<Rightarrow> string \<Rightarrow> NodeKind list \<Rightarrow> (Node \<Rightarrow> EdgeKind option) \<Rightarrow> accumulator \<Rightarrow>
    nat \<times> Observation \<Rightarrow> graphError + accumulator" where
  "addObservation sha area uri entity kinds kindOf a x = (case x of (index, observation) \<Rightarrow>
     let occurredAt = graphTime (ob_OccurredAt observation) (ac_generatedAt a); subject = ob_Subject observation in
     case checkSubject a area subject of Some err \<Rightarrow> Inl err
     | None \<Rightarrow>
       bindE (run (importNode area kinds) a (ob_Nodes observation)) (\<lambda>a.
       bindE (run importEdge a (ob_Edges observation)) (\<lambda>a.
       bindE (run importEvent a (ob_Events observation)) (\<lambda>a.
       if rf_ID subject = [] then Inr a
       else let i = (if TrimSpace (ob_ID observation) = [] then show_nat (index + 1) else TrimSpace (ob_ID observation)) in
         run (linkNode sha area uri entity kindOf i subject occurredAt) a (ob_Nodes observation)))))"

definition addContextObservations :: "(string \<Rightarrow> string) \<Rightarrow> accumulator \<Rightarrow> Observation list \<Rightarrow> graphError + accumulator" where
  "addContextObservations sha a obs = run (addObservation sha ''context'' ''context-observation'' ''context_selection''
     [NodeKnowledge] (\<lambda>_. Some EdgeReferences)) a (enumerate 0 obs)"

definition addQualityObservations :: "(string \<Rightarrow> string) \<Rightarrow> accumulator \<Rightarrow> Observation list \<Rightarrow> graphError + accumulator" where
  "addQualityObservations sha a obs = run (addObservation sha ''quality'' ''quality-observation'' ''quality_observation''
     [NodeQuality] (\<lambda>n. if nd_Attributes n ''entity'' = Some ''report'' then Some EdgeValidatedBy else None)) a (enumerate 0 obs)"

definition addRuntimeObservations :: "(string \<Rightarrow> string) \<Rightarrow> accumulator \<Rightarrow> Observation list \<Rightarrow> graphError + accumulator" where
  "addRuntimeObservations sha a obs = run (addObservation sha ''runtime'' ''runtime-observation'' ''runtime_observation''
     [NodeOperations, NodePolicy, NodeQuality]
     (\<lambda>n. Some (if nd_Kind n = NodeOperations then EdgeProduced else if nd_Kind n = NodePolicy then EdgeGovernedBy else EdgeValidatedBy)))
     a (enumerate 0 obs)"

definition risk_String :: "int \<Rightarrow> string" where
  "risk_String r = (if r = 0 then ''low'' else if r = 1 then ''medium'' else if r = 2 then ''high'' else if r = 3 then ''blocked''
     else ''Risk('' @ Itoa r @ '')'')"

text \<open>A node for a verdict or a verification, the edge from its subject, and its event.\<close>

definition addVerdict :: "accumulator \<Rightarrow> string \<Rightarrow> string \<Rightarrow> EdgeKind \<Rightarrow> string \<Rightarrow> NodeKind \<Rightarrow> string \<Rightarrow> Ref \<Rightarrow> gotime \<Rightarrow> attributes \<Rightarrow>
    graphError + accumulator" where
  "addVerdict a what link edgeKind area kind i subject occurredAt attrs =
    (let ref = \<lparr>rf_Kind = kind, rf_ID = ''hawk/'' @ area @ ''/'' @ i\<rparr>;
         node = \<lparr>nd_ID = rf_ID ref, nd_Kind = rf_Kind ref, nd_Scope = scopeOf a, nd_CreatedAt = occurredAt, nd_EffectiveAt = 0,
           nd_Provenance = hawkProvenance a i (''hawk://'' @ area @ ''/'' @ i), nd_Attributes = attrs\<rparr>
     in bindE (addNode a node) (\<lambda>a.
        bindE (if rf_ID subject \<noteq> [] then
            (case ref_Validate subject of Some err \<Rightarrow> Inl (ErrSubject what err)
             | None \<Rightarrow> addEdge a \<lparr>ed_ID = ''hawk/edge/'' @ rf_ID subject @ ''/'' @ link @ ''/'' @ rf_ID ref, ed_Kind = edgeKind,
                 ed_From = subject, ed_To = ref, ed_Scope = scopeOf a, ed_CreatedAt = occurredAt, ed_EffectiveAt = 0,
                 ed_Provenance = nd_Provenance node, ed_Attributes = Map.empty\<rparr>)
          else Inr a) (\<lambda>a.
        addObservedEvent a ref occurredAt (nd_Provenance node) (area @ ''/'' @ i))))"

definition idOr :: "string \<Rightarrow> nat \<Rightarrow> string" where
  "idOr i index = (if TrimSpace i = [] then show_nat (index + 1) else TrimSpace i)"

definition addPolicyObservation :: "(string \<Rightarrow> string) \<Rightarrow> accumulator \<Rightarrow> nat \<times> PolicyObservation \<Rightarrow> graphError + accumulator" where
  "addPolicyObservation sha a x = (case x of (index, observation) \<Rightarrow>
     let v = po_Verdict observation;
         at1 = (baseAttributes ''policy_verdict'')(''allowed'' \<mapsto> formatBool (vd_Allowed v), ''risk'' \<mapsto> risk_String (vd_Risk v),
           ''confidence'' \<mapsto> vd_Confidence v);
         at2 = addAttribute (addAttribute at1 ''rule'' (vd_Rule v)) ''source'' (vd_Source v);
         reason = (if TrimSpace (po_ReasonSHA256 observation) = [] then digest sha (vd_Reason v)
                   else sanitizedSHA256 sha (TrimSpace (po_ReasonSHA256 observation)))
     in addVerdict a ''policy'' ''governed-by'' EdgeGovernedBy ''policy'' NodePolicy (idOr (po_ID observation) index)
          (po_Subject observation) (graphTime (po_OccurredAt observation) (ac_generatedAt a)) (addAttribute at2 ''reason_sha256'' reason))"

definition addPolicyObservations :: "(string \<Rightarrow> string) \<Rightarrow> accumulator \<Rightarrow> PolicyObservation list \<Rightarrow> graphError + accumulator" where
  "addPolicyObservations sha a obs = run (addPolicyObservation sha) a (enumerate 0 obs)"

definition severityNames :: "string list" where
  "severityNames = [''info'', ''low'', ''medium'', ''high'', ''critical'']"

definition severity_String :: "int \<Rightarrow> string" where
  "severity_String s = (if 0 \<le> s \<and> s < int (length severityNames) then severityNames ! nat s else ''unknown'')"

definition report_Failed :: "Report \<Rightarrow> bool" where
  "report_Failed r = list_ex (\<lambda>s. (if rp_FailOnSet r then rp_FailOn r else 4) \<le> s) (rp_Severities r)"

definition report_MaxSeverity :: "Report \<Rightarrow> int" where
  "report_MaxSeverity r = foldl (\<lambda>m s. if m < s then s else m) 0 (rp_Severities r)"

definition addVerification :: "(string \<Rightarrow> string) \<Rightarrow> accumulator \<Rightarrow> nat \<times> VerificationObservation \<Rightarrow> graphError + accumulator" where
  "addVerification sha a x = (case x of (index, observation) \<Rightarrow>
     let add = (\<lambda>failed count sev target. addVerdict a ''verification'' ''validated-by'' EdgeValidatedBy ''verification'' NodeQuality
           (idOr (vo_ID observation) index) (vo_Subject observation) (graphTime (vo_OccurredAt observation) (ac_generatedAt a))
           (addAttribute ((baseAttributes ''verification'')(''failed'' \<mapsto> formatBool failed, ''finding_count'' \<mapsto> count,
              ''max_severity'' \<mapsto> sev)) ''target_sha256'' target))
     in case vo_Summary observation of
          Some s \<Rightarrow> add (vs_Failed s) (Itoa (vs_FindingCount s)) (vs_MaxSeverity s) (sanitizedSHA256 sha (vs_TargetSHA256 s))
        | None \<Rightarrow> (case vo_Report observation of
            Some r \<Rightarrow> add (report_Failed r) (show_nat (length (rp_Severities r))) (severity_String (report_MaxSeverity r)) (digest sha (rp_Target r))
          | None \<Rightarrow> Inr a))"

definition addVerifications :: "(string \<Rightarrow> string) \<Rightarrow> accumulator \<Rightarrow> VerificationObservation list \<Rightarrow> graphError + accumulator" where
  "addVerifications sha a obs = run (addVerification sha) a (enumerate 0 obs)"

section \<open>Checkpoints\<close>

text \<open>The node of an object of Swift and the reference to it from its subject.\<close>

definition addSwiftNode :: "accumulator \<Rightarrow> string \<Rightarrow> string \<Rightarrow> string \<Rightarrow> gotime \<Rightarrow> graphError + accumulator" where
  "addSwiftNode a what entity i createdAt = addNode a \<lparr>nd_ID = ''swift/'' @ what @ ''/'' @ i, nd_Kind = NodeExecution,
     nd_Scope = scopeOf a, nd_CreatedAt = createdAt, nd_EffectiveAt = 0,
     nd_Provenance = \<lparr>pv_Producer = ''swift'', pv_Version = [], pv_SourceID = i,
       pv_Evidence = [\<lparr>af_URI = ''swift://'' @ what @ ''/'' @ i, af_Digest = [], af_MediaType = []\<rparr>]\<rparr>,
     nd_Attributes = baseAttributes entity\<rparr>"

definition addSwiftReference :: "accumulator \<Rightarrow> string \<Rightarrow> string \<Rightarrow> Ref \<Rightarrow> gotime \<Rightarrow> graphError + accumulator" where
  "addSwiftReference a what i subject createdAt = (case ref_Validate subject of
     Some err \<Rightarrow> Inl (ErrSubject (''swift '' @ what) err)
   | None \<Rightarrow> (let ref = \<lparr>rf_Kind = NodeExecution, rf_ID = ''swift/'' @ what @ ''/'' @ i\<rparr> in
       addEdge a \<lparr>ed_ID = ''hawk/edge/'' @ rf_ID subject @ ''/references/'' @ rf_ID ref, ed_Kind = EdgeReferences, ed_From = subject,
         ed_To = ref, ed_Scope = scopeOf a, ed_CreatedAt = createdAt, ed_EffectiveAt = 0,
         ed_Provenance = hawkProvenance a i (''swift://'' @ what @ ''/'' @ i), ed_Attributes = Map.empty\<rparr>))"

definition addSwiftSession :: "Ref \<Rightarrow> accumulator \<Rightarrow> SwiftSessionRef \<Rightarrow> graphError + accumulator" where
  "addSwiftSession sessionRef a t =
    (let i = TrimSpace (sr_SessionID t); createdAt = graphTime (sr_CreatedAt t) (ac_generatedAt a);
         subject = (if rf_ID (sr_Subject t) = [] then sessionRef else sr_Subject t)
     in bindE (addSwiftNode a ''session'' ''swift_session'' i createdAt) (\<lambda>a.
        if rf_ID subject = [] then Inr a else addSwiftReference a ''session'' i subject createdAt))"

definition addSwiftSessions :: "accumulator \<Rightarrow> SwiftSessionRef list \<Rightarrow> Ref \<Rightarrow> graphError + accumulator" where
  "addSwiftSessions a sessions sessionRef = run (addSwiftSession sessionRef) a sessions"

definition addSwiftCheckpoint :: "Ref \<Rightarrow> accumulator \<Rightarrow> SwiftCheckpointRef \<Rightarrow> graphError + accumulator" where
  "addSwiftCheckpoint sessionRef a c =
    (let i = TrimSpace (cp_CheckpointID c); createdAt = graphTime (cp_CreatedAt c) (ac_generatedAt a);
         subject = (if rf_ID (cp_Subject c) = [] then sessionRef else cp_Subject c);
         swiftSessionID = TrimSpace (cp_SwiftSessionID c)
     in bindE (addSwiftNode a ''checkpoint'' ''checkpoint'' i createdAt) (\<lambda>a.
        if rf_ID subject = [] then Inr a
        else bindE (addSwiftReference a ''checkpoint'' i subject createdAt) (\<lambda>a.
          if swiftSessionID = [] then Inr a
          else bindE (addSwiftSessions a [\<lparr>sr_SessionID = swiftSessionID, sr_Subject = noRef, sr_CreatedAt = createdAt\<rparr>] sessionRef) (\<lambda>a.
            addEdge a \<lparr>ed_ID = ''swift/edge/'' @ swiftSessionID @ ''/produced/'' @ i, ed_Kind = EdgeProduced,
              ed_From = \<lparr>rf_Kind = NodeExecution, rf_ID = ''swift/session/'' @ swiftSessionID\<rparr>,
              ed_To = \<lparr>rf_Kind = NodeExecution, rf_ID = ''swift/checkpoint/'' @ i\<rparr>, ed_Scope = scopeOf a,
              ed_CreatedAt = createdAt, ed_EffectiveAt = 0,
              ed_Provenance = \<lparr>pv_Producer = ''swift'', pv_Version = [], pv_SourceID = i,
                pv_Evidence = [\<lparr>af_URI = ''swift://checkpoint/'' @ i, af_Digest = [], af_MediaType = []\<rparr>]\<rparr>,
              ed_Attributes = Map.empty\<rparr>))))"

definition addSwiftCheckpoints :: "accumulator \<Rightarrow> SwiftCheckpointRef list \<Rightarrow> Ref \<Rightarrow> graphError + accumulator" where
  "addSwiftCheckpoints a checkpoints sessionRef = run (addSwiftCheckpoint sessionRef) a checkpoints"

section \<open>Building the graph\<close>

text \<open>
  The ids of a kind are distinct, so that sorting by id has one result; \<open>string_le\<close> is the order of Go's strings.
\<close>

fun string_le :: "string \<Rightarrow> string \<Rightarrow> bool" where
  "string_le [] t = True"
| "string_le (c # s) [] = False"
| "string_le (c # s) (d # t) = (if (of_char c :: nat) = of_char d then string_le s t else (of_char c :: nat) < of_char d)"

fun insertBy :: "('a \<Rightarrow> string) \<Rightarrow> 'a \<Rightarrow> 'a list \<Rightarrow> 'a list" where
  "insertBy key x [] = [x]"
| "insertBy key x (y # ys) = (if string_le (key x) (key y) then x # y # ys else y # insertBy key x ys)"

definition sortBy :: "('a \<Rightarrow> string) \<Rightarrow> 'a list \<Rightarrow> 'a list" where
  "sortBy key xs = foldr (insertBy key) xs []"

definition Build :: "(string \<Rightarrow> string) \<Rightarrow> Input \<Rightarrow> graphError + Export" where
  "Build sha inp = (if IsZero (in_GeneratedAt inp) then Inl ErrGeneratedAt
     else bindE (addSession sha (newAccumulator (in_GeneratedAt inp) (in_Scope inp) (in_ProducerVersion inp)) (in_Session inp)) (\<lambda>(a, sessionRef).
       bindE (addStructuredTasks sha a (in_Tasks inp) sessionRef) (\<lambda>a.
       bindE (addRuntimeTasks sha a (in_RuntimeTasks inp) sessionRef) (\<lambda>a.
       bindE (addContextObservations sha a (in_ContextObservations inp)) (\<lambda>a.
       bindE (addQualityObservations sha a (in_QualityObservations inp)) (\<lambda>a.
       bindE (addRuntimeObservations sha a (in_RuntimeObservations inp)) (\<lambda>a.
       bindE (addPolicyObservations sha a (in_PolicyObservations inp)) (\<lambda>a.
       bindE (addVerifications sha a (in_Verifications inp)) (\<lambda>a.
       bindE (addSwiftSessions a (in_SwiftSessions inp) sessionRef) (\<lambda>a.
       bindE (addSwiftCheckpoints a (in_SwiftCheckpoints inp) sessionRef) (\<lambda>a.
       Inr ((ac_export a)\<lparr>ex_Nodes := sortBy nd_ID (ex_Nodes (ac_export a)), ex_Edges := sortBy ed_ID (ex_Edges (ac_export a)),
         ex_Events := sortBy gv_ID (ex_Events (ac_export a))\<rparr>))))))))))))"

section \<open>Sorting\<close>

lemma string_le_total: "string_le s t \<or> string_le t s"
  by (induction s t rule: string_le.induct) (auto simp: not_less order.strict_iff_order)

lemma string_le_trans: "string_le s t \<Longrightarrow> string_le t u \<Longrightarrow> string_le s u"
proof (induction s t arbitrary: u rule: string_le.induct)
  case (3 c s d t)
  then show ?case by (cases u) (auto split: if_splits)
qed auto

lemma set_insertBy: "set (insertBy key x ys) = insert x (set ys)"
  by (induction ys) auto

lemma set_sortBy [simp]: "set (sortBy key xs) = set xs"
  unfolding sortBy_def by (induction xs) (auto simp: set_insertBy)

lemma insertBy_sorted:
  "sorted_wrt (\<lambda>x y. string_le (key x) (key y)) ys \<Longrightarrow> sorted_wrt (\<lambda>x y. string_le (key x) (key y)) (insertBy key x ys)"
proof (induction ys)
  case (Cons y ys)
  then show ?case
    using string_le_total [of "key x" "key y"] string_le_trans [of "key x" "key y"] by (auto simp: set_insertBy)
qed simp

lemma sortBy_sorted: "sorted_wrt (\<lambda>x y. string_le (key x) (key y)) (sortBy key xs)"
  unfolding sortBy_def by (induction xs) (auto simp: insertBy_sorted)

lemma insertBy_distinct: "distinct (map key (insertBy key x ys)) \<longleftrightarrow> key x \<notin> key ` set ys \<and> distinct (map key ys)"
  by (induction ys) (auto simp: set_insertBy)

lemma sortBy_distinct [simp]: "distinct (map key (sortBy key xs)) = distinct (map key xs)"
proof (induction xs)
  case (Cons x xs)
  then show ?case using set_sortBy [of key xs] by (simp add: sortBy_def insertBy_distinct)
qed (simp add: sortBy_def)

section \<open>Keeping an invariant\<close>

text \<open>A step from an accumulator keeps an invariant and the scope of the export.\<close>

definition keeps :: "(accumulator \<Rightarrow> bool) \<Rightarrow> accumulator \<Rightarrow> graphError + accumulator \<Rightarrow> bool" where
  "keeps ok a m \<longleftrightarrow> (\<forall>b. ok a \<longrightarrow> m = Inr b \<longrightarrow> ok b \<and> scopeOf b = scopeOf a)"

named_theorems keeping \<open>rules for \<open>keeps\<close>\<close>

lemma keeps_base [keeping]: "keeps ok a (Inr a)" "keeps ok a (Inl e)"
  by (simp_all add: keeps_def)

lemma keeps_bind [keeping]:
  "keeps ok a m \<Longrightarrow> (\<And>b. scopeOf b = scopeOf a \<Longrightarrow> keeps ok b (f b)) \<Longrightarrow> keeps ok a (bindE m f)"
  unfolding keeps_def bindE_Inr by (intro allI impI, elim exE conjE) metis

lemma keeps_run [keeping]: "(\<And>b x. keeps ok b (f b x)) \<Longrightarrow> keeps ok a (run f a xs)"
proof (induction xs arbitrary: a)
  case (Cons x xs)
  have "keeps ok a (bindE (f a x) (\<lambda>b. run f b xs))" by (intro keeps_bind Cons)
  then show ?case by (simp add: bindE_def)
qed (simp add: keeping)

lemma keeps_if [keeping]: "(c \<Longrightarrow> keeps ok a m) \<Longrightarrow> (\<not> c \<Longrightarrow> keeps ok a n) \<Longrightarrow> keeps ok a (if c then m else n)"
  by simp

text \<open>Loops that carry more than the accumulator.\<close>

lemma keeps_run_fst:
  assumes "\<And>st x. keeps ok (fst st) (map_sum id fst (f st x))"
  shows "keeps ok (fst st) (map_sum id fst (run f st xs))"
proof (induction xs arbitrary: st)
  case (Cons x xs)
  show ?case
  proof (cases "f st x")
    case (Inr st')
    have step: "ok (fst st) \<Longrightarrow> ok (fst st') \<and> scopeOf (fst st') = scopeOf (fst st)"
      using assms [of st x] Inr by (simp add: keeps_def)
    have eq: "run f st (x # xs) = run f st' xs" using Inr by simp
    show ?thesis using step Cons.IH [of st'] unfolding keeps_def eq by metis
  qed (simp add: keeping)
qed (simp add: keeping)

lemma bind_fst: "bindE m (\<lambda>(a, _). Inr a) = map_sum id fst m"
  by (cases m) auto

text \<open>
  An invariant of the graph under construction: it holds of the empty graph and is kept by adding a node, an edge or an
  event of the scope of the export.
\<close>

locale construction =
  fixes ok :: "accumulator \<Rightarrow> bool"
  assumes empty: "ok (newAccumulator t s v)"
    and node: "nd_Scope n = scopeOf a \<Longrightarrow> keeps ok a (addNode a n)"
    and edge: "ed_Scope e = scopeOf a \<Longrightarrow> keeps ok a (addEdge a e)"
    and event: "gv_Scope e' = scopeOf a \<Longrightarrow> keeps ok a (addEvent a e')"
begin

lemmas rules = keeping node edge event

lemma contains: "keeps ok a (addContainsEdge a x y t p)"
  unfolding addContainsEdge_def by (intro rules) simp_all

lemma observed: "keeps ok a (addObservedEvent a r t p n)"
  unfolding addObservedEvent_def by (intro rules) simp_all

lemma tool_call: "keeps ok a (addToolCall saved parent i a x)"
  unfolding addToolCall_def Let_def by (cases x) (auto intro!: rules contains observed)

lemma task_request: "keeps ok a (map_sum id fst (addTaskRequest sha saved r a k i m))"
proof -
  have "map_sum id fst (bindE m (\<lambda>a. Inr (a, z))) = m" for m :: "graphError + accumulator" and z :: Ref by (cases m) simp_all
  moreover have "map_sum id fst (bindE m f) = bindE m (\<lambda>a. map_sum id fst (f a))"
    for m :: "graphError + accumulator" and f :: "accumulator \<Rightarrow> graphError + accumulator \<times> Ref" by (cases m) simp_all
  ultimately show ?thesis unfolding addTaskRequest_def Let_def by (auto intro!: rules contains observed)
qed

lemma message: "keeps ok (fst st) (map_sum id fst (addMessage sha saved r st x))"
proof -
  obtain a cur k where st: "st = (a, cur, k)" by (cases st) auto
  obtain i m where x: "x = (i, m)" by (cases x)
  define first where "first = (if gm_Role m = ''user'' \<and> gm_ToolResults m = [] \<and> TrimSpace (gm_Content m) \<noteq> []
     then bindE (addTaskRequest sha saved r a (k + 1) i m) (\<lambda>(a, t). Inr (a, t, k + 1)) else Inr (a, cur, k))"
  have "keeps ok a (map_sum id fst first)"
    unfolding first_def using task_request [of a sha saved r "k + 1" i m]
    by (cases "addTaskRequest sha saved r a (k + 1) i m") (auto simp: keeps_def)
  moreover have "addMessage sha saved r st x = bindE first (\<lambda>(a, cur, k).
     bindE (run (addToolCall saved (if rf_ID cur = [] then r else cur) i) a (enumerate 0 (gm_ToolUse m))) (\<lambda>a. Inr (a, cur, k)))"
    by (simp add: addMessage_def st x first_def)
  moreover have "keeps ok b (run (addToolCall saved p i) b xs)" for b p xs by (intro rules tool_call)
  ultimately show ?thesis
    by (cases first) (fastforce simp: keeps_def st bindE_def split: sum.splits prod.splits)+
qed

lemma session_messages: "keeps ok a (addSessionMessages sha a saved r)"
  unfolding addSessionMessages_def bind_fst using keeps_run_fst [of ok "addMessage sha saved r" "(a, noRef, 0)", OF message] by simp

lemma session: "keeps ok a (map_sum id fst (addSession sha a s))"
proof (cases s)
  case (Some saved)
  have pull: "map_sum id fst (bindE m f) = bindE m (\<lambda>a. map_sum id fst (f a))"
    for m :: "graphError + accumulator" and f :: "accumulator \<Rightarrow> graphError + accumulator \<times> Ref" by (cases m) simp_all
  show ?thesis unfolding Some addSession_def Let_def option.case pull map_sum.simps fst_conv
    by (auto intro!: rules session_messages)
qed (simp add: addSession_def keeping)

lemma task_node: "keeps ok a (addTaskNode sha a t)"
  unfolding addTaskNode_def Let_def by (cases t) (auto intro!: rules simp: createdEvent_def transitionedEvent_def)

lemma dependency: "keeps ok (fst st) (map_sum id fst (addDependency task st d))"
proof -
  have pull: "map_sum id fst (bindE m (\<lambda>a. Inr (a, z))) = m" for m :: "graphError + accumulator" and z :: Ref by (cases m) simp_all
  show ?thesis unfolding addDependency_def Let_def by (cases st) (auto simp: pull intro!: rules)
qed

lemma task_edges: "keeps ok a (addTaskEdges r a t)"
proof (cases t)
  case (Some task)
  have "keeps ok b (map_sum id fst (run (addDependency task) (b, f) ds))" for b f ds
    using keeps_run_fst [of ok "addDependency task" "(b, f)", OF dependency] by simp
  then show ?thesis unfolding Some addTaskEdges_def Let_def option.case bind_fst by (auto intro!: rules contains)
qed (simp add: addTaskEdges_def keeping)

lemma structured_tasks: "keeps ok a (addStructuredTasks sha a ts r)"
  unfolding addStructuredTasks_def by (intro rules task_node task_edges)

lemma runtime_task: "keeps ok a (addRuntimeTask sha r a t)"
  unfolding addRuntimeTask_def Let_def
  by (cases t) (auto intro!: rules contains simp: createdEvent_def transitionedEvent_def)

lemma runtime_tasks: "keeps ok a (addRuntimeTasks sha a ts r)"
  unfolding addRuntimeTasks_def by (intro rules runtime_task)

lemma observation: "keeps ok a (addObservation sha area uri entity kinds kindOf a x)"
  unfolding addObservation_def Let_def
  by (cases x) (auto simp: importNode_def importEdge_def importEvent_def linkNode_def split: option.split intro!: rules)

lemma observations:
  "keeps ok a (addContextObservations sha a obs)" "keeps ok a (addQualityObservations sha a obs)"
  "keeps ok a (addRuntimeObservations sha a obs)"
  unfolding addContextObservations_def addQualityObservations_def addRuntimeObservations_def by (intro keeps_run observation)+

lemma verdict: "keeps ok a (addVerdict a what link k area kind i subject t attrs)"
  unfolding addVerdict_def Let_def by (auto split: option.split intro!: rules observed)

lemma policies: "keeps ok a (addPolicyObservations sha a obs)"
  unfolding addPolicyObservations_def by (rule keeps_run) (auto simp: addPolicyObservation_def Let_def verdict split: prod.split)

lemma verifications: "keeps ok a (addVerifications sha a obs)"
  unfolding addVerifications_def
  by (rule keeps_run) (auto simp: addVerification_def Let_def verdict keeping split: prod.split option.split)

lemma swift:
  "keeps ok a (addSwiftNode a what entity i t)" "keeps ok a (addSwiftReference a what i subject t)"
  unfolding addSwiftNode_def addSwiftReference_def Let_def by (auto split: option.split intro!: rules)

lemma swift_sessions: "keeps ok a (addSwiftSessions a xs r)"
  unfolding addSwiftSessions_def by (rule keeps_run) (auto simp: addSwiftSession_def Let_def intro!: rules swift)

lemma swift_checkpoints: "keeps ok a (addSwiftCheckpoints a xs r)"
  unfolding addSwiftCheckpoints_def
  by (rule keeps_run) (auto simp: addSwiftCheckpoint_def Let_def intro!: rules swift swift_sessions)

lemma build:
  assumes "Build sha inp = Inr ex"
  shows "\<exists>a. ok a \<and> scopeOf a = in_Scope inp \<and> ex = (ac_export a)\<lparr>ex_Nodes := sortBy nd_ID (ex_Nodes (ac_export a)),
    ex_Edges := sortBy ed_ID (ex_Edges (ac_export a)), ex_Events := sortBy gv_ID (ex_Events (ac_export a))\<rparr>"
proof -
  define a0 where "a0 = newAccumulator (in_GeneratedAt inp) (in_Scope inp) (in_ProducerVersion inp)"
  have a0: "ok a0" "scopeOf a0 = in_Scope inp" using empty by (simp_all add: a0_def newAccumulator_def)
  from assms obtain a1 r where s: "addSession sha a0 (in_Session inp) = Inr (a1, r)"
    by (auto simp: Build_def bindE_Inr a0_def split: if_splits)
  have a1: "ok a1" "scopeOf a1 = in_Scope inp"
    using session [of a0 sha "in_Session inp"] s a0 by (simp_all add: keeps_def)
  define rest where "rest = bindE (addStructuredTasks sha a1 (in_Tasks inp) r) (\<lambda>a.
       bindE (addRuntimeTasks sha a (in_RuntimeTasks inp) r) (\<lambda>a.
       bindE (addContextObservations sha a (in_ContextObservations inp)) (\<lambda>a.
       bindE (addQualityObservations sha a (in_QualityObservations inp)) (\<lambda>a.
       bindE (addRuntimeObservations sha a (in_RuntimeObservations inp)) (\<lambda>a.
       bindE (addPolicyObservations sha a (in_PolicyObservations inp)) (\<lambda>a.
       bindE (addVerifications sha a (in_Verifications inp)) (\<lambda>a.
       bindE (addSwiftSessions a (in_SwiftSessions inp) r) (\<lambda>a.
       addSwiftCheckpoints a (in_SwiftCheckpoints inp) r))))))))"
  have "keeps ok a1 rest" unfolding rest_def
    by (intro keeps_bind structured_tasks runtime_tasks observations policies verifications swift_sessions swift_checkpoints)
  moreover from assms s obtain a where "rest = Inr a" "ex = (ac_export a)\<lparr>ex_Nodes := sortBy nd_ID (ex_Nodes (ac_export a)),
      ex_Edges := sortBy ed_ID (ex_Edges (ac_export a)), ex_Events := sortBy gv_ID (ex_Events (ac_export a))\<rparr>"
    unfolding Build_def a0_def [symmetric] by (auto simp: bindE_Inr rest_def split: if_splits)
  ultimately show ?thesis using a1 by (auto simp: keeps_def)
qed

end

section \<open>The exported graph\<close>

lemma distinct_sorted_wrt: "distinct (map key ys) \<Longrightarrow> sorted_wrt (\<lambda>x y. key x \<noteq> key y) ys"
  by (induction ys) auto

lemma map_of_snoc: "k \<notin> fst ` set xs \<Longrightarrow> map_of (xs @ [(k, v)]) = (map_of xs)(k \<mapsto> v)"
  by (induction xs) (auto simp: fun_upd_twist)

text \<open>Ids are distinct and recorded, everything was validated, edges join nodes of the graph, and all has the scope of the export.\<close>

definition graph_ok :: "accumulator \<Rightarrow> bool" where
  "graph_ok a \<longleftrightarrow>
    (let ex = ac_export a in
     ac_nodes a = map_of (map (\<lambda>n. (nd_ID n, nd_Kind n)) (ex_Nodes ex)) \<and> distinct (map nd_ID (ex_Nodes ex))
     \<and> list_all (\<lambda>n. node_Validate n = None \<and> nd_Scope n = ex_Scope ex) (ex_Nodes ex)
     \<and> set (ac_edges a) = ed_ID ` set (ex_Edges ex) \<and> distinct (map ed_ID (ex_Edges ex))
     \<and> list_all (\<lambda>e. edge_Validate e = None \<and> ed_Scope e = ex_Scope ex
         \<and> rf_ID (ed_From e) \<in> nd_ID ` set (ex_Nodes ex) \<and> rf_ID (ed_To e) \<in> nd_ID ` set (ex_Nodes ex)) (ex_Edges ex)
     \<and> set (ac_events a) = gv_ID ` set (ex_Events ex) \<and> distinct (map gv_ID (ex_Events ex))
     \<and> list_all (\<lambda>e. event_Validate e = None \<and> gv_Scope e = ex_Scope ex) (ex_Events ex))"

lemma graph_ok_nodes: "graph_ok a \<Longrightarrow> ac_nodes a i = None \<longleftrightarrow> i \<notin> nd_ID ` set (ex_Nodes (ac_export a))"
  by (simp add: graph_ok_def Let_def map_of_eq_None_iff image_image)

interpretation export: construction graph_ok
proof
  show "graph_ok (newAccumulator t s v)" for t s v by (simp add: graph_ok_def newAccumulator_def)
  show "keeps graph_ok a (addNode a n)" if "nd_Scope n = scopeOf a" for n a
    unfolding keeps_def
  proof (intro allI impI)
    fix b assume a: "graph_ok a" and b: "addNode a n = Inr b"
    show "graph_ok b \<and> scopeOf b = scopeOf a"
    proof (cases "ac_nodes a (nd_ID n)")
      case (Some k)
      then show ?thesis using a b by (auto simp: addNode_def split: option.splits if_splits)
    next
      case None
      then have new: "nd_ID n \<notin> nd_ID ` set (ex_Nodes (ac_export a))" using a graph_ok_nodes by blast
      then have "map_of (map (\<lambda>n. (nd_ID n, nd_Kind n)) (ex_Nodes (ac_export a)) @ [(nd_ID n, nd_Kind n)])
        = (map_of (map (\<lambda>n. (nd_ID n, nd_Kind n)) (ex_Nodes (ac_export a))))(nd_ID n \<mapsto> nd_Kind n)"
        by (intro map_of_snoc) (simp add: image_image)
      moreover from b None have "node_Validate n = None"
        "b = a\<lparr>ac_nodes := (ac_nodes a)(nd_ID n \<mapsto> nd_Kind n), ac_export := (ac_export a)\<lparr>ex_Nodes := ex_Nodes (ac_export a) @ [n]\<rparr>\<rparr>"
        by (auto simp: addNode_def split: option.splits)
      ultimately show ?thesis using a that new by (auto simp: graph_ok_def Let_def list_all_iff)
    qed
  qed
  show "keeps graph_ok a (addEdge a e)" if "ed_Scope e = scopeOf a" for e a
    unfolding keeps_def
  proof (intro allI impI)
    fix b assume a: "graph_ok a" and b: "addEdge a e = Inr b"
    then have e: "edge_Validate e = None" "rf_ID (ed_From e) \<in> nd_ID ` set (ex_Nodes (ac_export a))"
      "rf_ID (ed_To e) \<in> nd_ID ` set (ex_Nodes (ac_export a))"
      using graph_ok_nodes [OF a] by (auto simp: addEdge_def split: option.splits if_splits)
    show "graph_ok b \<and> scopeOf b = scopeOf a"
      using a b that e by (cases "ed_ID e \<in> set (ac_edges a)") (auto simp: addEdge_def graph_ok_def Let_def list_all_iff split: if_splits)
  qed
  show "keeps graph_ok a (addEvent a e)" if "gv_Scope e = scopeOf a" for e a
    unfolding keeps_def
    using that by (auto simp: addEvent_def graph_ok_def Let_def list_all_iff split: option.splits if_splits)
qed

text \<open>
  C34. What \<open>Build\<close> exports is a well-formed graph in a fixed order, whatever the inputs: nodes, edges and events are
  sorted by their distinct ids, each passed its validation and carries the scope of the export, and every edge joins two
  nodes of the graph.
\<close>

theorem export_well_formed:
  assumes "Build sha inp = Inr ex"
  shows "sorted_wrt (\<lambda>x y. string_le (nd_ID x) (nd_ID y) \<and> nd_ID x \<noteq> nd_ID y) (ex_Nodes ex)
    \<and> sorted_wrt (\<lambda>x y. string_le (ed_ID x) (ed_ID y) \<and> ed_ID x \<noteq> ed_ID y) (ex_Edges ex)
    \<and> sorted_wrt (\<lambda>x y. string_le (gv_ID x) (gv_ID y) \<and> gv_ID x \<noteq> gv_ID y) (ex_Events ex)
    \<and> list_all (\<lambda>n. node_Validate n = None \<and> nd_Scope n = in_Scope inp) (ex_Nodes ex)
    \<and> list_all (\<lambda>e. event_Validate e = None \<and> gv_Scope e = in_Scope inp) (ex_Events ex)
    \<and> list_all (\<lambda>e. edge_Validate e = None \<and> ed_Scope e = in_Scope inp
        \<and> rf_ID (ed_From e) \<in> nd_ID ` set (ex_Nodes ex) \<and> rf_ID (ed_To e) \<in> nd_ID ` set (ex_Nodes ex)) (ex_Edges ex)"
proof -
  from export.build [OF assms] obtain a where a: "graph_ok a" "scopeOf a = in_Scope inp"
    "ex = (ac_export a)\<lparr>ex_Nodes := sortBy nd_ID (ex_Nodes (ac_export a)),
      ex_Edges := sortBy ed_ID (ex_Edges (ac_export a)), ex_Events := sortBy gv_ID (ex_Events (ac_export a))\<rparr>" by blast
  have strict: "sorted_wrt (\<lambda>x y. string_le (key x) (key y) \<and> key x \<noteq> key y) (sortBy key xs)" if "distinct (map key xs)"
    for key :: "'c \<Rightarrow> string" and xs
  proof -
    have "distinct (map key (sortBy key xs))" using that by simp
    then have "sorted_wrt (\<lambda>x y. key x \<noteq> key y) (sortBy key xs)" by (rule distinct_sorted_wrt)
    with sortBy_sorted [of key xs] show ?thesis by (simp add: sorted_wrt_iff_nth_less)
  qed
  show ?thesis using a(1,2) unfolding a(3) by (auto simp: graph_ok_def Let_def list_all_iff intro!: strict)
qed


text \<open>A session with one request and the tool call that it led to.\<close>

definition sampleSession :: Session where
  "sampleSession = \<lparr>ss_ID = '' s1 '', ss_Model = ''m'', ss_Provider = '' '', ss_Agent = [], ss_Name = [],
     ss_Messages = [\<lparr>gm_Role = ''user'', gm_Content = ''hi'', gm_ToolUse = [], gm_ToolResults = []\<rparr>,
       \<lparr>gm_Role = ''assistant'', gm_Content = [],
        gm_ToolUse = [\<lparr>gc_ID = ''t1'', gc_Name = ''Read'', gc_Arguments = [(''path'', ''/x'')]\<rparr>], gm_ToolResults = []\<rparr>],
     ss_CreatedAt = 0, ss_UpdatedAt = 0\<rparr>"

definition emptyInput :: Input where
  "emptyInput = \<lparr>in_Session = None, in_Tasks = [], in_RuntimeTasks = [], in_ContextObservations = [],
     in_QualityObservations = [], in_RuntimeObservations = [], in_PolicyObservations = [], in_Verifications = [],
     in_SwiftSessions = [], in_SwiftCheckpoints = [], in_GeneratedAt = 7,
     in_Scope = \<lparr>sc_TenantID = [], sc_ProjectID = [], sc_RepositoryID = ''r''\<rparr>, in_ProducerVersion = ''1''\<rparr>"

lemma sample_nodes: "map_sum id (\<lambda>ex. map nd_ID (ex_Nodes ex)) (Build id (emptyInput\<lparr>in_Session := Some sampleSession\<rparr>))
  = Inr [''hawk/session/s1'', ''hawk/task-request/ s1 /1'', ''hawk/tool-call/ s1 /t1'']"
  by code_simp

theorem export_well_formed_witness:
  "\<exists>ex :: Export. map nd_ID (ex_Nodes ex) = [''hawk/session/s1'', ''hawk/task-request/ s1 /1'', ''hawk/tool-call/ s1 /t1'']
    \<and> list_all (\<lambda>e. rf_ID (ed_From e) \<in> nd_ID ` set (ex_Nodes ex) \<and> rf_ID (ed_To e) \<in> nd_ID ` set (ex_Nodes ex)) (ex_Edges ex)"
proof -
  from sample_nodes obtain ex where ex: "Build id (emptyInput\<lparr>in_Session := Some sampleSession\<rparr>) = Inr ex"
    "map nd_ID (ex_Nodes ex) = [''hawk/session/s1'', ''hawk/task-request/ s1 /1'', ''hawk/tool-call/ s1 /t1'']"
    by (cases "Build id (emptyInput\<lparr>in_Session := Some sampleSession\<rparr>)") simp_all
  have edges: "list_all (\<lambda>e. rf_ID (ed_From e) \<in> nd_ID ` set (ex_Nodes ex) \<and> rf_ID (ed_To e) \<in> nd_ID ` set (ex_Nodes ex)) (ex_Edges ex)"
    using export_well_formed [OF ex(1)] by (simp add: list_all_iff)
  show ?thesis by (rule exI [where x = ex], rule conjI, rule ex(2), rule edges)
qed

section \<open>Only metadata is exported\<close>

text \<open>
  What the export may depend on of an input: of a text its digest and whether it is blank, of a call the number of its
  arguments, of a result whether it is an error, of an output whether there is one.
\<close>

definition textView :: "(string \<Rightarrow> string) \<Rightarrow> string \<Rightarrow> string \<times> bool" where
  "textView sha s = (digest sha s, TrimSpace s = [])"

definition callView :: "graph_ToolCall \<Rightarrow> string \<times> string \<times> nat" where
  "callView c = (gc_ID c, gc_Name c, length (gc_Arguments c))"

definition resultView :: "graph_ToolResult \<Rightarrow> string \<times> bool" where
  "resultView r = (gt_ToolUseID r, gt_IsError r)"

definition messageView :: "(string \<Rightarrow> string) \<Rightarrow> graph_Message \<Rightarrow>
    string \<times> (string \<times> bool) \<times> (string \<times> string \<times> nat) list \<times> (string \<times> bool) list" where
  "messageView sha m = (gm_Role m, textView sha (gm_Content m), map callView (gm_ToolUse m), map resultView (gm_ToolResults m))"

definition sessionView :: "(string \<Rightarrow> string) \<Rightarrow> Session \<Rightarrow> Session \<times> string \<times>
    (string \<times> (string \<times> bool) \<times> (string \<times> string \<times> nat) list \<times> (string \<times> bool) list) list" where
  "sessionView sha s = (s\<lparr>ss_Name := [], ss_Messages := []\<rparr>, digest sha (ss_Name s), map (messageView sha) (ss_Messages s))"

definition taskView :: "(string \<Rightarrow> string) \<Rightarrow> Task \<Rightarrow> Task \<times> string \<times> string" where
  "taskView sha t = (t\<lparr>tk_Subject := [], tk_Description := []\<rparr>, digest sha (tk_Subject t), digest sha (tk_Description t))"

definition runtimeView :: "(string \<Rightarrow> string) \<Rightarrow> runtime_Task \<Rightarrow> runtime_Task \<times> string \<times> bool \<times> bool" where
  "runtimeView sha t = (t\<lparr>rt_Prompt := [], rt_Output := [], rt_Error := []\<rparr>, digest sha (rt_Prompt t), rt_Output t = [], rt_Error t = [])"

definition policyView :: "(string \<Rightarrow> string) \<Rightarrow> PolicyObservation \<Rightarrow> PolicyObservation \<times> string" where
  "policyView sha o' = (o'\<lparr>po_Verdict := (po_Verdict o')\<lparr>vd_Reason := []\<rparr>\<rparr>, digest sha (vd_Reason (po_Verdict o')))"

definition inputView where
  "inputView sha inp = (inp\<lparr>in_Session := None, in_Tasks := [], in_RuntimeTasks := [], in_PolicyObservations := []\<rparr>,
     map_option (sessionView sha) (in_Session inp), map (map_option (taskView sha)) (in_Tasks inp),
     map (map_option (runtimeView sha)) (in_RuntimeTasks inp), map (policyView sha) (in_PolicyObservations inp))"

lemma run_by_view:
  assumes "map v xs = map v ys" and "\<And>a x y. v x = v y \<Longrightarrow> f a x = g a y"
  shows "run f a xs = run g a ys"
  using assms(1)
proof (induction xs arbitrary: a ys)
  case (Cons x xs)
  then obtain y ys' where y: "ys = y # ys'" "v x = v y" "map v xs = map v ys'" by auto
  have step: "f a x = g a y" using y(2) by (rule assms(2))
  have "run f b xs = run g b ys'" for b using y(3) by (rule Cons.IH)
  then show ?case by (simp only: y(1) run.simps step)
qed simp

lemma run_enumerate_view:
  assumes "map v xs = map v ys" and "\<And>a i x y. v x = v y \<Longrightarrow> f a (i, x) = g a (i, y)"
  shows "run f a (enumerate n xs) = run g a (enumerate n ys)"
  using assms(1)
proof (induction xs arbitrary: a n ys)
  case (Cons x xs)
  then obtain y ys' where y: "ys = y # ys'" "v x = v y" "map v xs = map v ys'" by auto
  have step: "f a (n, x) = g a (n, y)" using y(2) by (rule assms(2))
  have "run f b (enumerate (Suc n) xs) = run g b (enumerate (Suc n) ys')" for b using y(3) by (rule Cons.IH)
  then show ?case by (simp only: y(1) enumerate_simps run.simps step)
qed simp

lemma map_option_view:
  assumes "\<And>x y. v x = v y \<Longrightarrow> f (Some x) = f (Some y)" and "map_option v x = map_option v y"
  shows "f x = f y"
proof (cases x)
  case None
  then show ?thesis using assms(2) by simp
next
  case (Some x')
  then obtain y' where y: "y = Some y'" and v: "v x' = v y'" using assms(2) by (cases y) simp_all
  show ?thesis unfolding Some y using v by (rule assms(1))
qed

lemma map_option_map_of: "map_option f (map_of (map (\<lambda>r. (k r, r)) rs) i) = map_of (map (\<lambda>r. (k r, f r)) rs) i"
  by (induction rs) auto

lemma results_view:
  assumes "map (messageView sha) (ss_Messages s) = map (messageView sha) (ss_Messages t)"
  shows "map_option gt_IsError (resultsOf s i) = map_option gt_IsError (resultsOf t i)"
proof -
  have view: "map_option gt_IsError (resultsOf s i)
    = map_of (rev (concat (map (snd \<circ> snd \<circ> snd) (map (messageView sha) (ss_Messages s))))) i" for s
  proof -
    have "map_option gt_IsError (resultsOf s i) = map_of (map (\<lambda>r. (gt_ToolUseID r, gt_IsError r)) (rev (concat (map gm_ToolResults (ss_Messages s))))) i"
      unfolding resultsOf_def rev_map by (rule map_option_map_of)
    also have "map (\<lambda>r. (gt_ToolUseID r, gt_IsError r)) (rev (concat (map gm_ToolResults (ss_Messages s))))
      = rev (concat (map (snd \<circ> snd \<circ> snd) (map (messageView sha) (ss_Messages s))))"
      by (simp add: messageView_def resultView_def [abs_def] rev_map [symmetric] map_concat o_def)
    finally show ?thesis .
  qed
  show ?thesis by (simp only: view assms)
qed

text \<open>Each step depends on its input through the view only.\<close>

lemma digest_view: "textView sha s = textView sha t \<Longrightarrow> digest sha s = digest sha t \<and> (TrimSpace s = [] \<longleftrightarrow> TrimSpace t = [])"
  by (simp add: textView_def)

lemma tool_call_view:
  assumes "callView c = callView d" and "ss_ID s = ss_ID t"
    and "\<And>i. map_option gt_IsError (resultsOf s i) = map_option gt_IsError (resultsOf t i)"
  shows "addToolCall s parent k a (i, c) = addToolCall t parent k a (i, d)"
proof -
  have c: "gc_ID c = gc_ID d" "gc_Name c = gc_Name d" "length (gc_Arguments c) = length (gc_Arguments d)"
    using assms(1) by (simp_all add: callView_def)
  have r: "(case resultsOf u j of Some r \<Rightarrow> gt_IsError r | None \<Rightarrow> False)
      = (case map_option gt_IsError (resultsOf u j) of Some b \<Rightarrow> b | None \<Rightarrow> False)"
    "(case resultsOf u j of Some r \<Rightarrow> if gt_IsError r then x else y | None \<Rightarrow> z)
      = (case map_option gt_IsError (resultsOf u j) of Some b \<Rightarrow> if b then x else y | None \<Rightarrow> z)"
    for u j and x y z :: string by (simp_all split: option.split)
  show ?thesis unfolding addToolCall_def prod.case r by (simp only: assms(2,3) c)
qed

lemma message_view:
  assumes "messageView sha m = messageView sha n" and "ss_ID s = ss_ID t"
    and "\<And>i. map_option gt_IsError (resultsOf s i) = map_option gt_IsError (resultsOf t i)"
  shows "addMessage sha s r st (k, m) = addMessage sha t r st (k, n)"
proof -
  have m: "gm_Role m = gm_Role n" "digest sha (gm_Content m) = digest sha (gm_Content n)"
    "TrimSpace (gm_Content m) = [] \<longleftrightarrow> TrimSpace (gm_Content n) = []"
    "map callView (gm_ToolUse m) = map callView (gm_ToolUse n)" "map resultView (gm_ToolResults m) = map resultView (gm_ToolResults n)"
    using assms(1) by (simp_all add: messageView_def textView_def)
  have "run (addToolCall s p k) a (enumerate i (gm_ToolUse m)) = run (addToolCall t p k) a (enumerate i (gm_ToolUse n))" for p a i
    by (rule run_enumerate_view [OF m(4)]) (rule tool_call_view [OF _ assms(2,3)])
  moreover have "gm_ToolResults m = [] \<longleftrightarrow> gm_ToolResults n = []" using m(5) by (metis Nil_is_map_conv)
  moreover have "addTaskRequest sha s r a j k m = addTaskRequest sha t r a j k n" for a j
    by (simp only: addTaskRequest_def assms(2) m(2))
  ultimately show ?thesis unfolding addMessage_def prod.case by (simp only: m(1,3))
qed

lemma session_view:
  assumes "sessionView sha s = sessionView sha t"
  shows "addSession sha a (Some s) = addSession sha a (Some t)"
proof -
  have m: "map (messageView sha) (ss_Messages s) = map (messageView sha) (ss_Messages t)" using assms by (simp add: sessionView_def)
  have s: "ss_ID s = ss_ID t" "ss_Model s = ss_Model t" "ss_Provider s = ss_Provider t" "ss_Agent s = ss_Agent t"
    "ss_CreatedAt s = ss_CreatedAt t" "ss_UpdatedAt s = ss_UpdatedAt t" "digest sha (ss_Name s) = digest sha (ss_Name t)"
    using assms by (cases s; cases t; simp add: sessionView_def)+
  have n: "length (ss_Messages s) = length (ss_Messages t)" using m by (rule map_eq_imp_length_eq)
  have "addSessionMessages sha b s r = addSessionMessages sha b t r" for b r
    unfolding addSessionMessages_def
    by (rule arg_cong [of _ _ "\<lambda>x. bindE x _"], rule run_enumerate_view [OF m], rule message_view [OF _ s(1) results_view [OF m]])
  then show ?thesis unfolding addSession_def option.case by (simp only: s n)
qed

lemma task_view:
  assumes "taskView sha s = taskView sha t"
  shows "addTaskNode sha a (Some s) = addTaskNode sha a (Some t)" and "addTaskEdges r a (Some s) = addTaskEdges r a (Some t)"
proof -
  have t: "tk_ID s = tk_ID t" "tk_ParentID s = tk_ParentID t" "tk_Status s = tk_Status t" "tk_Owner s = tk_Owner t"
    "tk_Dependencies s = tk_Dependencies t" "tk_CreatedAt s = tk_CreatedAt t" "tk_UpdatedAt s = tk_UpdatedAt t"
    "digest sha (tk_Subject s) = digest sha (tk_Subject t)" "digest sha (tk_Description s) = digest sha (tk_Description t)"
    using assms by (cases s; cases t; simp add: taskView_def)+
  show "addTaskNode sha a (Some s) = addTaskNode sha a (Some t)" unfolding addTaskNode_def option.case by (simp only: t)
  have "addDependency s = addDependency t" by (intro ext) (simp only: addDependency_def t)
  then show "addTaskEdges r a (Some s) = addTaskEdges r a (Some t)" unfolding addTaskEdges_def option.case by (simp only: t)
qed

lemma runtime_view:
  assumes "runtimeView sha s = runtimeView sha t"
  shows "addRuntimeTask sha r a (Some s) = addRuntimeTask sha r a (Some t)"
proof -
  have t: "rt_ID s = rt_ID t" "rt_Kind s = rt_Kind t" "rt_Status s = rt_Status t" "rt_StartedAt s = rt_StartedAt t"
    "rt_DoneAt s = rt_DoneAt t" "digest sha (rt_Prompt s) = digest sha (rt_Prompt t)" "rt_Output s = [] \<longleftrightarrow> rt_Output t = []"
    "rt_Error s = [] \<longleftrightarrow> rt_Error t = []"
    using assms by (cases s; cases t; simp add: runtimeView_def)+
  show ?thesis unfolding addRuntimeTask_def option.case by (simp only: t)
qed

lemma policy_view:
  assumes "policyView sha s = policyView sha t"
  shows "addPolicyObservation sha a (i, s) = addPolicyObservation sha a (i, t)"
proof -
  have t: "po_ID s = po_ID t" "po_Subject s = po_Subject t" "po_OccurredAt s = po_OccurredAt t" "po_ReasonSHA256 s = po_ReasonSHA256 t"
    using assms by (cases s; cases t; simp add: policyView_def)+
  have "(po_Verdict s)\<lparr>vd_Reason := []\<rparr> = (po_Verdict t)\<lparr>vd_Reason := []\<rparr>"
    using assms by (cases s; cases t; simp add: policyView_def)
  then have v: "vd_Allowed (po_Verdict s) = vd_Allowed (po_Verdict t)" "vd_Rule (po_Verdict s) = vd_Rule (po_Verdict t)"
    "vd_Risk (po_Verdict s) = vd_Risk (po_Verdict t)" "vd_Confidence (po_Verdict s) = vd_Confidence (po_Verdict t)"
    "vd_Source (po_Verdict s) = vd_Source (po_Verdict t)"
    by (cases "po_Verdict s"; cases "po_Verdict t"; simp)+
  have d: "digest sha (vd_Reason (po_Verdict s)) = digest sha (vd_Reason (po_Verdict t))" using assms by (simp add: policyView_def)
  show ?thesis unfolding addPolicyObservation_def prod.case Let_def by (simp only: t v d)
qed

lemma addSession_view:
  assumes "map_option (sessionView sha) x = map_option (sessionView sha) y"
  shows "addSession sha a x = addSession sha a y"
  by (rule map_option_view [of "sessionView sha" "addSession sha a", OF session_view assms])

lemma addStructuredTasks_view:
  assumes "map (map_option (taskView sha)) xs = map (map_option (taskView sha)) ys"
  shows "addStructuredTasks sha a xs r = addStructuredTasks sha a ys r"
proof -
  have "run (addTaskNode sha) b xs = run (addTaskNode sha) b ys" for b
  proof (rule run_by_view [OF assms])
    show "addTaskNode sha c x = addTaskNode sha c y" if "map_option (taskView sha) x = map_option (taskView sha) y" for c x y
      by (rule map_option_view [of "taskView sha" "addTaskNode sha c", OF task_view(1) that])
  qed
  moreover have "run (addTaskEdges r) b xs = run (addTaskEdges r) b ys" for b
  proof (rule run_by_view [OF assms])
    show "addTaskEdges r c x = addTaskEdges r c y" if "map_option (taskView sha) x = map_option (taskView sha) y" for c x y
      by (rule map_option_view [of "taskView sha" "addTaskEdges r c", OF task_view(2) that])
  qed
  ultimately show ?thesis by (simp only: addStructuredTasks_def)
qed

lemma addRuntimeTasks_view:
  assumes "map (map_option (runtimeView sha)) xs = map (map_option (runtimeView sha)) ys"
  shows "addRuntimeTasks sha a xs r = addRuntimeTasks sha a ys r"
  unfolding addRuntimeTasks_def
proof (rule run_by_view [OF assms])
  show "addRuntimeTask sha r b x = addRuntimeTask sha r b y" if "map_option (runtimeView sha) x = map_option (runtimeView sha) y" for b x y
    by (rule map_option_view [of "runtimeView sha" "addRuntimeTask sha r b", OF runtime_view that])
qed


text \<open>A secret in the arguments of a call, in its result and in the output of a runtime task.\<close>

definition sampleSecret :: "string \<Rightarrow> Input" where
  "sampleSecret secret = emptyInput\<lparr>
     in_Session := Some (sampleSession\<lparr>ss_Messages := [
       \<lparr>gm_Role = ''assistant'', gm_Content = [], gm_ToolUse = [\<lparr>gc_ID = ''t1'', gc_Name = ''Read'', gc_Arguments = [(''path'', secret)]\<rparr>],
        gm_ToolResults = []\<rparr>,
       \<lparr>gm_Role = ''user'', gm_Content = [], gm_ToolUse = [], gm_ToolResults = [\<lparr>gt_ToolUseID = ''t1'', gt_Content = secret, gt_IsError = False\<rparr>]\<rparr>]\<rparr>),
     in_RuntimeTasks := [Some \<lparr>rt_ID = ''r1'', rt_Kind = ''shell'', rt_Prompt = ''p'', rt_Status = ''done'', rt_Output = CHR ''>'' # secret,
       rt_Error = [], rt_StartedAt = 3, rt_DoneAt = 5\<rparr>]\<rparr>"


section \<open>Sessions are always exported\<close>

text \<open>Progress: a step ends without an error in a state with the property.\<close>

definition progress :: "('a \<Rightarrow> bool) \<Rightarrow> graphError + 'a \<Rightarrow> bool" where
  "progress P m = (case m of Inl _ \<Rightarrow> False | Inr b \<Rightarrow> P b)"

lemma progress_simps [simp]: "progress P (Inr b) = P b" "progress P (Inl e) = False"
  by (simp_all add: progress_def)

lemma progress_bind: "progress Q m \<Longrightarrow> (\<And>b. Q b \<Longrightarrow> progress P (f b)) \<Longrightarrow> progress P (bindE m f)"
  by (cases m) simp_all

lemma progress_run: "P s \<Longrightarrow> (\<And>s x. P s \<Longrightarrow> progress P (f s x)) \<Longrightarrow> progress P (run f s xs)"
proof (induction xs arbitrary: s)
  case (Cons x xs)
  from Cons.prems(2) [OF Cons.prems(1), of x] obtain t where "f s x = Inr t" "P t" by (cases "f s x") simp_all
  then show ?case using Cons.IH [of t] Cons.prems(2) by simp
qed simp

text \<open>All nodes so far are execution nodes, those of \<open>K\<close> among them, and there is a time to fall back to.\<close>

definition live :: "string set \<Rightarrow> accumulator \<Rightarrow> bool" where
  "live K a \<longleftrightarrow> \<not> IsZero (ac_generatedAt a) \<and> K \<subseteq> dom (ac_nodes a) \<and> ran (ac_nodes a) \<subseteq> {NodeExecution}"

lemma live_addNode:
  "live K a \<Longrightarrow> node_Validate n = None \<Longrightarrow> nd_Kind n = NodeExecution \<Longrightarrow> progress (live (insert (nd_ID n) K)) (addNode a n)"
  by (auto simp: addNode_def live_def ran_def split: option.split)

lemma live_addEdge:
  "live K a \<Longrightarrow> edge_Validate e = None \<Longrightarrow> rf_ID (ed_From e) \<in> K \<Longrightarrow> rf_ID (ed_To e) \<in> K \<Longrightarrow> progress (live K) (addEdge a e)"
  by (auto simp: addEdge_def live_def split: option.split)

lemma live_addEvent: "live K a \<Longrightarrow> event_Validate e = None \<Longrightarrow> progress (live K) (addEvent a e)"
  by (auto simp: addEvent_def live_def split: option.split)

text \<open>What \<open>addSession\<close> and \<open>addRuntimeTasks\<close> build passes its validation.\<close>

lemma TrimSpace_nonblank: "c \<in> set s \<Longrightarrow> \<not> is_space c \<Longrightarrow> TrimSpace s \<noteq> []"
  by (auto simp: TrimSpace_def dropWhile_eq_Nil_conv) (metis dropWhile_eq_Nil_conv set_dropWhileD set_takeWhileD takeWhile_dropWhile_id Un_iff set_append)

lemma h_nonblank: "TrimSpace (CHR ''h'' # s) \<noteq> []"
  by (rule TrimSpace_nonblank [of "CHR ''h''"]) (simp_all add: is_space_def)

lemma execution_kind: "ParseNodeKind NodeExecution = Inr NodeExecution"
  by code_simp

lemma kinds_parse: "ParseEdgeKind EdgeContains = Inr EdgeContains" "ParseEventType EventCreated = Inr EventCreated"
  "ParseEventType EventObserved = Inr EventObserved" "ParseEventType EventTransitioned = Inr EventTransitioned"
  by code_simp+

lemma hawk_valid: "provenance_Validate (hawkProvenance a i (CHR ''h'' # u)) = None"
  by (simp add: provenance_Validate_def hawkProvenance_def h_nonblank)

lemma execution_ref: "ref_Validate \<lparr>rf_Kind = NodeExecution, rf_ID = CHR ''h'' # i\<rparr> = None"
  by (simp add: ref_Validate_def execution_kind h_nonblank)

lemma graphTime_nonzero: "\<not> IsZero t \<Longrightarrow> \<not> IsZero (graphTime v t)"
  by (simp add: graphTime_def)

text \<open>A reference to an execution node of the graph.\<close>

definition known :: "string set \<Rightarrow> Ref \<Rightarrow> bool" where
  "known K r \<longleftrightarrow> rf_ID r \<in> K \<and> rf_Kind r = NodeExecution \<and> TrimSpace (rf_ID r) \<noteq> []"

lemma known_Validate: "known K r \<Longrightarrow> ref_Validate r = None"
  by (auto simp: known_def ref_Validate_def execution_kind)

lemma known_insert: "known K r \<Longrightarrow> known (insert i K) r"
  by (simp add: known_def)

lemma live_mono: "live (insert i K) a \<Longrightarrow> live K a"
  by (simp add: live_def)

lemma progress_mono: "progress Q m \<Longrightarrow> (\<And>b. Q b \<Longrightarrow> P b) \<Longrightarrow> progress P m"
  by (cases m) simp_all

lemma live_contains:
  "live K a \<Longrightarrow> known K x \<Longrightarrow> known K y \<Longrightarrow> \<not> IsZero t \<Longrightarrow> provenance_Validate p = None \<Longrightarrow>
    progress (live K) (addContainsEdge a x y t p)"
  unfolding addContainsEdge_def
  by (auto intro!: live_addEdge simp: edge_Validate_def kinds_parse known_Validate h_nonblank) (simp_all add: known_def)

lemma live_observed:
  "live K a \<Longrightarrow> known K r \<Longrightarrow> \<not> IsZero t \<Longrightarrow> provenance_Validate p = None \<Longrightarrow> progress (live K) (addObservedEvent a r t p n)"
  unfolding addObservedEvent_def
  by (auto intro!: live_addEvent simp: event_Validate_def kinds_parse known_Validate h_nonblank)

text \<open>An execution node, its edge from a known node, and its observation.\<close>

lemma live_attach:
  assumes a: "live K a" and r: "known K r" and n: "nd_ID n = rf_ID q" "nd_Kind n = NodeExecution" "\<not> IsZero (nd_CreatedAt n)"
    and q: "rf_Kind q = NodeExecution" "TrimSpace (rf_ID q) \<noteq> []" and p: "provenance_Validate (nd_Provenance n) = None"
  shows "progress (live (insert (rf_ID q) K)) (bindE (addNode a n) (\<lambda>a.
    bindE (addContainsEdge a r q (nd_CreatedAt n) (nd_Provenance n)) (\<lambda>a.
    addObservedEvent a q (nd_CreatedAt n) (nd_Provenance n) name)))"
proof (rule progress_bind, rule live_addNode [OF a])
  show "node_Validate n = None" using n q p by (simp add: node_Validate_def execution_kind)
  fix b assume b: "live (insert (nd_ID n) K) b"
  have known: "known (insert (rf_ID q) K) r" "known (insert (rf_ID q) K) q" using r q by (simp_all add: known_def)
  show "progress (live (insert (rf_ID q) K)) (bindE (addContainsEdge b r q (nd_CreatedAt n) (nd_Provenance n)) (\<lambda>a.
      addObservedEvent a q (nd_CreatedAt n) (nd_Provenance n) name))"
    by (rule progress_bind [OF live_contains [OF b [unfolded n(1)] known n(3) p] live_observed [OF _ known(2) n(3) p]])
qed (fact n)

lemma live_tool_call:
  assumes "live K a" and "known K r"
  shows "progress (live K) (addToolCall saved r k a x)"
proof (cases x)
  case (Pair i c)
  show ?thesis unfolding addToolCall_def Let_def prod.case Pair
    by (rule progress_mono [OF live_attach live_mono]) (use assms in \<open>simp_all add: toolCallNodeID_def h_nonblank hawk_valid live_def\<close>)
qed

lemma live_task_request:
  assumes "live K a" and "known K r"
  shows "progress (\<lambda>(b, t). live (insert (rf_ID t) K) b \<and> known (insert (rf_ID t) K) t) (addTaskRequest sha saved r a j k m)"
proof -
  have assoc: "bindE m (\<lambda>a. bindE (f a) (\<lambda>a. bindE (g a) h)) = bindE (bindE m (\<lambda>a. bindE (f a) g)) h"
    for m :: "graphError + accumulator" and f g and h :: "accumulator \<Rightarrow> graphError + accumulator \<times> Ref" by (simp add: bindE_def split: sum.split)
  show ?thesis unfolding addTaskRequest_def Let_def assoc
    by (rule progress_bind [OF live_attach]) (use assms in \<open>simp_all add: h_nonblank hawk_valid live_def known_def\<close>)
qed

text \<open>Between two messages the current task, where there is one, is a node of the graph.\<close>

definition ready :: "Ref \<Rightarrow> string set \<Rightarrow> accumulator \<times> Ref \<times> nat \<Rightarrow> bool" where
  "ready r K st = (case st of (a, cur, _) \<Rightarrow> live K a \<and> known K r \<and> (rf_ID cur = [] \<or> known (dom (ac_nodes a)) cur))"

lemma live_dom: "live K a \<Longrightarrow> live (dom (ac_nodes a)) a"
  by (simp add: live_def)

lemma ready_mono: "live K a \<Longrightarrow> known K r \<Longrightarrow> K \<subseteq> L \<Longrightarrow> live L b \<Longrightarrow> rf_ID cur = [] \<or> known L cur \<Longrightarrow> ready r K (b, cur, k)"
  by (auto simp: ready_def live_def known_def)

lemma ready_calls:
  assumes "ready r K (a, cur, k)"
  shows "progress (ready r K) (bindE (run (addToolCall saved (if rf_ID cur = [] then r else cur) i) a xs) (\<lambda>a. Inr (a, cur, k)))"
proof -
  have a: "live K a" "known K r" "rf_ID cur = [] \<or> known (dom (ac_nodes a)) cur" using assms by (simp_all add: ready_def)
  let ?D = "dom (ac_nodes a)" and ?p = "if rf_ID cur = [] then r else cur"
  have "K \<subseteq> ?D" using a(1) by (simp add: live_def)
  then have "known ?D ?p" using a(2,3) by (auto simp: known_def)
  then have "progress (live ?D) (run (addToolCall saved ?p i) a xs)"
    by (intro progress_run live_dom [OF a(1)] live_tool_call)
  then show ?thesis
    by (rule progress_bind) (simp, rule ready_mono [OF a(1,2) \<open>K \<subseteq> ?D\<close> _ a(3)])
qed

lemma live_message:
  assumes "ready r K st"
  shows "progress (ready r K) (addMessage sha saved r st x)"
proof -
  obtain a cur k where st: "st = (a, cur, k)" by (cases st)
  obtain i m where x: "x = (i, m)" by (cases x)
  have a: "live K a" "known K r" using assms by (simp_all add: ready_def st)
  have request: "progress (ready r K) (bindE (addTaskRequest sha saved r a (k + 1) i m) (\<lambda>(a, t). Inr (a, t, k + 1)))"
    by (rule progress_bind [OF live_task_request [OF a]]) (auto intro: ready_mono [OF a, of "insert z K" for z])
  show ?thesis unfolding addMessage_def st x prod.case
    by (rule progress_bind [of "ready r K"]) (use request assms st in simp, auto intro: ready_calls)
qed

lemma live_session:
  assumes "live {} a" and "\<not> IsZero (ac_generatedAt a)"
  shows "progress (\<lambda>(b, r). (case s of None \<Rightarrow> rf_ID r = [] \<and> live {} b
    | Some saved \<Rightarrow> rf_ID r = sessionNodeID (TrimSpace (ss_ID saved)) \<and> known {rf_ID r} r \<and> live {rf_ID r} b)) (addSession sha a s)"
proof (cases s)
  case None
  then show ?thesis using assms by (simp add: addSession_def noRef_def)
next
  case (Some saved)
  define i where "i = sessionNodeID (TrimSpace (ss_ID saved))"
  define r where "r = \<lparr>rf_Kind = NodeExecution, rf_ID = i\<rparr>"
  have r: "known {i} r" by (simp add: known_def r_def i_def sessionNodeID_def h_nonblank)
  have messages: "progress (live {i}) (addSessionMessages sha b saved r)" if "live {i} b" for b
    unfolding addSessionMessages_def
    by (rule progress_bind [OF progress_run [OF _ live_message [of r "{i}"]]]) (use that r in \<open>auto simp: noRef_def ready_def\<close>)
  show ?thesis unfolding addSession_def Some option.case Let_def i_def [symmetric] Ref.simps r_def [symmetric]
  proof (rule progress_bind [OF live_addNode [OF assms(1)]], goal_cases)
    case 1
    show ?case using assms(2) by (simp add: node_Validate_def execution_kind graphTime_nonzero hawk_valid i_def sessionNodeID_def h_nonblank)
  next
    case (3 b)
    then have b: "live {i} b" by simp
    show ?case
    proof (rule progress_bind [OF live_addEvent [OF b]], goal_cases)
      case 1
      show ?case using assms(2) known_Validate [OF r]
        by (simp add: event_Validate_def kinds_parse graphTime_nonzero hawk_valid h_nonblank)
    next
      case (2 c)
      then show ?case using r by (intro progress_bind [OF messages]) (simp_all add: r_def i_def)
    qed
  qed simp
qed

definition runtimeID :: "runtime_Task \<Rightarrow> string" where
  "runtimeID t = ''hawk/runtime-task/'' @ TrimSpace (rt_ID t)"

lemma live_runtime_task:
  assumes "live K a" and "rf_ID r = [] \<or> known K r"
  shows "progress (live (insert (runtimeID t) K)) (addRuntimeTask sha r a (Some t))"
proof -
  have z: "\<not> IsZero (ac_generatedAt a)" using assms(1) by (simp add: live_def)
  define q where "q = \<lparr>rf_Kind = NodeExecution, rf_ID = runtimeID t\<rparr>"
  have q: "known (insert (runtimeID t) K) q" by (simp add: q_def known_def runtimeID_def h_nonblank)
  show ?thesis unfolding addRuntimeTask_def option.case Let_def runtimeID_def [symmetric] q_def [symmetric] Ref.simps
  proof (rule progress_bind [OF live_addNode [OF assms(1)]], goal_cases)
    case 1
    show ?case using z by (simp add: q_def node_Validate_def execution_kind graphTime_nonzero hawk_valid runtimeID_def h_nonblank)
  next
    case 2
    show ?case by (simp add: q_def)
  next
    case (3 b)
    then have b: "live (insert (runtimeID t) K) b" by (simp add: q_def)
    have p: "provenance_Validate (hawkProvenance a (TrimSpace (rt_ID t)) (''hawk://runtime-task/'' @ TrimSpace (rt_ID t))) = None"
      by (simp add: hawk_valid)
    have t: "\<not> IsZero (graphTime (rt_StartedAt t) (ac_generatedAt a))" using z by (rule graphTime_nonzero)
    show ?case unfolding Node.simps
    proof (rule progress_bind [of "live (insert (runtimeID t) K)"], goal_cases)
      case 1
      show ?case using assms(2) b q t p by (auto intro!: live_contains known_insert)
    next
      case (2 c)
      show ?case
      proof (rule progress_bind [OF live_addEvent [OF 2]], goal_cases)
        case 1
        show ?case using t p known_Validate [OF q] by (simp add: createdEvent_def event_Validate_def kinds_parse h_nonblank)
      next
        case (2 d)
        then show ?case using p known_Validate [OF q]
          by (auto intro!: live_addEvent simp: transitionedEvent_def event_Validate_def kinds_parse h_nonblank)
      qed
    qed
  qed
qed

lemma live_runtime_tasks:
  assumes "live K a" and "rf_ID r = [] \<or> known K r"
  shows "progress (live (K \<union> {runtimeID t |t. Some t \<in> set ts})) (addRuntimeTasks sha a ts r)"
  using assms unfolding addRuntimeTasks_def
proof (induction ts arbitrary: a K)
  case (Cons t ts)
  define L where "L = K \<union> {runtimeID u |u. t = Some u}"
  have "progress (live L) (addRuntimeTask sha r a t)"
  proof (cases t)
    case None
    then show ?thesis using Cons.prems by (simp add: L_def addRuntimeTask_def)
  next
    case (Some u)
    then have "L = insert (runtimeID u) K" by (auto simp: L_def)
    then show ?thesis unfolding Some using live_runtime_task [OF Cons.prems] by simp
  qed
  then obtain b where b: "addRuntimeTask sha r a t = Inr b" "live L b" by (cases "addRuntimeTask sha r a t") simp_all
  have "rf_ID r = [] \<or> known L r" using Cons.prems(2) by (auto simp: L_def known_def)
  from Cons.IH [OF b(2) this] have "progress (live (L \<union> {runtimeID t |t. Some t \<in> set ts})) (run (addRuntimeTask sha r) b ts)" .
  moreover have "L \<union> {runtimeID t |t. Some t \<in> set ts} = K \<union> {runtimeID u |u. Some u \<in> set (t # ts)}" by (auto simp: L_def)
  ultimately show ?case using b(1) by simp
qed simp

text \<open>
  Exporting a session and its runtime tasks never fails: whatever their ids, texts, roles, calls and times, \<open>Build\<close>
  returns a graph, given the time of the export, and the session and each runtime task is a node of it.
\<close>

theorem sessions_always_export:
  assumes "\<not> IsZero (in_GeneratedAt inp)"
    and "inp = \<lparr>in_Session = s, in_Tasks = [], in_RuntimeTasks = ts, in_ContextObservations = [], in_QualityObservations = [],
      in_RuntimeObservations = [], in_PolicyObservations = [], in_Verifications = [], in_SwiftSessions = [],
      in_SwiftCheckpoints = [], in_GeneratedAt = t, in_Scope = sc, in_ProducerVersion = v\<rparr>"
  shows "\<exists>ex. Build sha inp = Inr ex
    \<and> (case s of None \<Rightarrow> True | Some saved \<Rightarrow> sessionNodeID (TrimSpace (ss_ID saved)) \<in> nd_ID ` set (ex_Nodes ex))
    \<and> list_all (\<lambda>u. case u of None \<Rightarrow> True | Some task \<Rightarrow> runtimeID task \<in> nd_ID ` set (ex_Nodes ex)) ts"
proof -
  define a0 where "a0 = newAccumulator t sc v"
  have a0: "live {} a0" "\<not> IsZero (ac_generatedAt a0)" "graph_ok a0"
    using assms export.empty by (simp_all add: a0_def newAccumulator_def live_def)
  define S where "S = (case s of None \<Rightarrow> {} | Some saved \<Rightarrow> {sessionNodeID (TrimSpace (ss_ID saved))})"
  obtain a1 r where a1: "addSession sha a0 s = Inr (a1, r)" "live S a1" "rf_ID r = [] \<or> known S r"
    using live_session [OF a0(1,2), of s sha] by (cases "addSession sha a0 s"; cases s) (auto simp: S_def)
  from live_runtime_tasks [OF a1(2,3), of ts sha] obtain a2 where a2: "addRuntimeTasks sha a1 ts r = Inr a2"
    "live (S \<union> {runtimeID u |u. Some u \<in> set ts}) a2"
    by (cases "addRuntimeTasks sha a1 ts r") auto
  have "graph_ok a1" using export.session [of a0 sha s] a0(3) a1(1) by (simp add: keeps_def)
  then have "graph_ok a2" using export.runtime_tasks [of a1 sha ts r] a2(1) by (simp add: keeps_def)
  then have nodes: "dom (ac_nodes a2) = nd_ID ` set (ex_Nodes (ac_export a2))" by (intro set_eqI) (simp only: domIff graph_ok_nodes not_not)
  have none: "addStructuredTasks sha a [] q = Inr a" "addContextObservations sha a [] = Inr a" "addQualityObservations sha a [] = Inr a"
    "addRuntimeObservations sha a [] = Inr a" "addPolicyObservations sha a [] = Inr a" "addVerifications sha a [] = Inr a"
    "addSwiftSessions a [] q = Inr a" "addSwiftCheckpoints a [] q = Inr a" for a q
    by (simp_all add: addStructuredTasks_def addContextObservations_def addQualityObservations_def
      addRuntimeObservations_def addPolicyObservations_def addVerifications_def addSwiftSessions_def addSwiftCheckpoints_def)
  have "\<not> IsZero t" using assms by simp
  then have "Build sha inp = Inr ((ac_export a2)\<lparr>ex_Nodes := sortBy nd_ID (ex_Nodes (ac_export a2)),
      ex_Edges := sortBy ed_ID (ex_Edges (ac_export a2)), ex_Events := sortBy gv_ID (ex_Events (ac_export a2))\<rparr>)"
    unfolding assms(2) Build_def Input.simps a0_def [symmetric] by (simp only: if_False none bindE_simps prod.case a1(1) a2(1))
  moreover have "S \<union> {runtimeID u |u. Some u \<in> set ts} \<subseteq> nd_ID ` set (ex_Nodes (ac_export a2))"
    using a2(2) by (simp add: live_def nodes)
  then have "case s of None \<Rightarrow> True | Some saved \<Rightarrow> sessionNodeID (TrimSpace (ss_ID saved)) \<in> nd_ID ` set (ex_Nodes (ac_export a2))"
    "list_all (\<lambda>u. case u of None \<Rightarrow> True | Some task \<Rightarrow> runtimeID task \<in> nd_ID ` set (ex_Nodes (ac_export a2))) ts"
    by (auto simp: S_def list_all_iff split: option.split)
  ultimately show ?thesis by (simp split: option.splits)
qed

theorem sessions_always_export_witness:
  "\<exists>ex. Build id (emptyInput\<lparr>in_Session := Some sampleSession\<rparr>) = Inr ex
    \<and> sessionNodeID (TrimSpace (ss_ID sampleSession)) \<in> nd_ID ` set (ex_Nodes ex)"
  using sessions_always_export [of "emptyInput\<lparr>in_Session := Some sampleSession\<rparr>" "Some sampleSession" "[]" 7
      "in_Scope emptyInput" "in_ProducerVersion emptyInput" id]
  by (simp add: emptyInput_def IsZero_def)

end
