(* ===== verification/Spec_Dag.thy ===== *)
theory Spec_Dag
  imports Go_Prelude
begin

text \<open>
  The artifacts of a specification and their dependencies, from \<open>internal/spec/schema.go\<close> and \<open>internal/spec/dag.go\<close>:
  Kahn's algorithm, and the state of each artifact computed from the files that exist. Of an artifact the fields that
  are read are modelled. Which files exist is the argument \<open>fileExists\<close>. \<open>TopologicalOrder\<close> and \<open>Status\<close> are loops and
  recursions that the code does not bound, so they are partial functions: \<open>None\<close> stands for not returning (for \<open>Status\<close>,
  the overflow of the stack).
\<close>

section \<open>Schemas\<close>

record Artifact =
  ar_ID :: string
  ar_Generates :: string
  ar_Requires :: "string list"

record ApplyPhase =
  ap_Requires :: "string list"
  ap_Tracks :: string

record Schema =
  sc_Name :: string
  sc_Version :: int
  sc_Artifacts :: "Artifact list"
  sc_Apply :: "ApplyPhase option"

definition DefaultSchema :: Schema where
  "DefaultSchema = \<lparr>sc_Name = ''spec-driven'', sc_Version = 1,
     sc_Artifacts =
       [\<lparr>ar_ID = ''proposal'', ar_Generates = ''proposal.md'', ar_Requires = []\<rparr>,
        \<lparr>ar_ID = ''specs'', ar_Generates = ''specs.md'', ar_Requires = [''proposal'']\<rparr>,
        \<lparr>ar_ID = ''design'', ar_Generates = ''design.md'', ar_Requires = [''proposal'']\<rparr>,
        \<lparr>ar_ID = ''tasks'', ar_Generates = ''tasks.md'', ar_Requires = [''specs'', ''design'']\<rparr>],
     sc_Apply = Some \<lparr>ap_Requires = [''tasks''], ap_Tracks = ''tasks.md''\<rparr>\<rparr>"

datatype schemaError = ErrSchemaRead | ErrSchemaParse | ErrSchemaName | ErrNoArtifacts | ErrSchemaNotFound string | ErrCycle

text \<open>Reading a file and parsing YAML are arguments; what \<open>LoadSchema\<close> requires of the outcome is its own.\<close>

definition LoadSchema :: "(string \<Rightarrow> string option) \<Rightarrow> (string \<Rightarrow> Schema option) \<Rightarrow> string \<Rightarrow> schemaError + Schema" where
  "LoadSchema readFile unmarshal path = (case readFile path of
     None \<Rightarrow> Inl ErrSchemaRead
   | Some data \<Rightarrow> (case unmarshal data of
       None \<Rightarrow> Inl ErrSchemaParse
     | Some s \<Rightarrow> if sc_Name s = [] then Inl ErrSchemaName else if sc_Artifacts s = [] then Inl ErrNoArtifacts else Inr s))"

text \<open>The project's schema directory, where there is a working directory.\<close>

definition FindSchema :: "(string \<Rightarrow> bool) \<Rightarrow> (string \<Rightarrow> string option) \<Rightarrow> (string \<Rightarrow> Schema option) \<Rightarrow> string option \<Rightarrow> string \<Rightarrow>
    schemaError + Schema" where
  "FindSchema fileExists readFile unmarshal projDir name =
    (if name = [] \<or> name = ''spec-driven'' then Inr DefaultSchema
     else case projDir of
       Some dir \<Rightarrow> (let path = dir @ ''/'' @ name @ ''.yaml'' in
         if fileExists path then LoadSchema readFile unmarshal path else Inl (ErrSchemaNotFound name))
     | None \<Rightarrow> Inl (ErrSchemaNotFound name))"

definition ArtifactByID :: "Schema \<Rightarrow> string \<Rightarrow> Artifact option" where
  "ArtifactByID s i = find (\<lambda>a. ar_ID a = i) (sc_Artifacts s)"

definition IDs :: "Schema \<Rightarrow> string list" where
  "IDs s = map ar_ID (sc_Artifacts s)"

section \<open>The graph\<close>

text \<open>An id without an entry has no dependents and degree 0, as in a Go map.\<close>

record Graph =
  gr_schema :: Schema
  gr_changeDir :: string
  gr_artifacts :: "Artifact list"
  gr_dependents :: "string \<Rightarrow> string list"
  gr_inDegree :: "string \<Rightarrow> int"

definition addRequirement :: "string \<Rightarrow> Graph \<Rightarrow> string \<Rightarrow> Graph" where
  "addRequirement i g dep = g\<lparr>gr_dependents := (gr_dependents g)(dep := gr_dependents g dep @ [i]),
     gr_inDegree := (gr_inDegree g)(i := gr_inDegree g i + 1)\<rparr>"

definition addArtifact :: "Graph \<Rightarrow> Artifact \<Rightarrow> Graph" where
  "addArtifact g a = foldl (addRequirement (ar_ID a)) g (ar_Requires a)"

definition NewGraph :: "Schema \<Rightarrow> string \<Rightarrow> Graph" where
  "NewGraph schema changeDir = foldl addArtifact
     \<lparr>gr_schema = schema, gr_changeDir = changeDir, gr_artifacts = sc_Artifacts schema, gr_dependents = (\<lambda>_. []),
      gr_inDegree = (\<lambda>_. 0)\<rparr> (sc_Artifacts schema)"

text \<open>The dependents of an artifact that was ordered lose a requirement each; those left without one are queued.\<close>

fun release :: "(string \<Rightarrow> int) \<Rightarrow> string list \<Rightarrow> string list \<Rightarrow> (string \<Rightarrow> int) \<times> string list" where
  "release inDegree queue [] = (inDegree, queue)"
| "release inDegree queue (dep # deps) =
    (let d = inDegree dep - 1 in release (inDegree(dep := d)) (if d = 0 then queue @ [dep] else queue) deps)"

partial_function (option) kahn :: "(string \<Rightarrow> string list) \<Rightarrow> (string \<Rightarrow> int) \<Rightarrow> string list \<Rightarrow> string list \<Rightarrow> string list option" where
  "kahn dependents inDegree queue order = (case queue of
     [] \<Rightarrow> Some order
   | i # rest \<Rightarrow> (case release inDegree rest (dependents i) of
       (inDegree', queue') \<Rightarrow> kahn dependents inDegree' queue' (order @ [i])))"

declare kahn.simps [code]

definition TopologicalOrder :: "Graph \<Rightarrow> (schemaError + string list) option" where
  "TopologicalOrder g =
    map_option (\<lambda>order. if length order \<noteq> length (gr_artifacts g) then Inl ErrCycle else Inr order)
      (kahn (gr_dependents g) (gr_inDegree g) (filter (\<lambda>i. gr_inDegree g i = 0) (IDs (gr_schema g))) [])"

section \<open>The state of an artifact\<close>

datatype ArtifactState = ArtifactBlocked | ArtifactReady | ArtifactDone

fun state_String :: "ArtifactState \<Rightarrow> string" where
  "state_String ArtifactBlocked = ''blocked''"
| "state_String ArtifactReady = ''ready''"
| "state_String ArtifactDone = ''done''"

record ArtifactStatus =
  st_ID :: string
  st_State :: ArtifactState
  st_OutputPath :: string
  st_MissingDeps :: "string list"

definition resolveOutput :: "Graph \<Rightarrow> string \<Rightarrow> string" where
  "resolveOutput g pattern = (if gr_changeDir g = [] then pattern else gr_changeDir g @ ''/'' @ pattern)"

definition outputExists :: "(string \<Rightarrow> bool) \<Rightarrow> Graph \<Rightarrow> Artifact \<Rightarrow> bool" where
  "outputExists fileExists g a = (let path = resolveOutput g (ar_Generates a) in path \<noteq> [] \<and> fileExists path)"

text \<open>A loop that calls a partial function for each element.\<close>

fun forEach :: "('a \<Rightarrow> 'b option) \<Rightarrow> 'a list \<Rightarrow> 'b list option" where
  "forEach f [] = Some []"
| "forEach f (x # xs) = Option.bind (f x) (\<lambda>y. Option.bind (forEach f xs) (\<lambda>ys. Some (y # ys)))"

lemma forEach_mono [partial_function_mono]:
  assumes "\<And>x. mono_option (\<lambda>f. B x f)"
  shows "mono_option (\<lambda>f. forEach (\<lambda>x. B x f) xs)"
proof (induction xs)
  case Nil
  show ?case unfolding forEach.simps by (rule option.const_mono)
next
  case (Cons x xs)
  show ?case unfolding forEach.simps by (intro bind_mono assms Cons.IH option.const_mono)
qed

partial_function (option) Status :: "(string \<Rightarrow> bool) \<Rightarrow> Graph \<Rightarrow> string \<Rightarrow> ArtifactStatus option" where
  "Status fileExists g i = (case ArtifactByID (gr_schema g) i of
     None \<Rightarrow> Some \<lparr>st_ID = i, st_State = ArtifactBlocked, st_OutputPath = [], st_MissingDeps = []\<rparr>
   | Some a \<Rightarrow>
      if outputExists fileExists g a
      then Some \<lparr>st_ID = i, st_State = ArtifactDone, st_OutputPath = resolveOutput g (ar_Generates a), st_MissingDeps = []\<rparr>
      else Option.bind (forEach (\<lambda>dep. Status fileExists g dep) (ar_Requires a)) (\<lambda>deps.
        let missing = map fst (filter (\<lambda>(_, s). st_State s \<noteq> ArtifactDone) (zip (ar_Requires a) deps)) in
        Some (if missing \<noteq> []
          then \<lparr>st_ID = i, st_State = ArtifactBlocked, st_OutputPath = [], st_MissingDeps = missing\<rparr>
          else \<lparr>st_ID = i, st_State = ArtifactReady, st_OutputPath = resolveOutput g (ar_Generates a), st_MissingDeps = []\<rparr>)))"

declare Status.simps [code]

definition AllStatus :: "(string \<Rightarrow> bool) \<Rightarrow> Graph \<Rightarrow> ArtifactStatus list option" where
  "AllStatus fileExists g = forEach (\<lambda>a. Status fileExists g (ar_ID a)) (gr_artifacts g)"

definition NextActionable :: "(string \<Rightarrow> bool) \<Rightarrow> Graph \<Rightarrow> string list option" where
  "NextActionable fileExists g = map_option (\<lambda>ss. map fst (filter (\<lambda>(_, s). st_State s = ArtifactReady) (zip (map ar_ID (gr_artifacts g)) ss)))
     (AllStatus fileExists g)"

text \<open>The loop of \<open>IsComplete\<close> ends at the first artifact that is not done.\<close>

fun allDone :: "(string \<Rightarrow> bool) \<Rightarrow> Graph \<Rightarrow> string list \<Rightarrow> bool option" where
  "allDone fileExists g [] = Some True"
| "allDone fileExists g (i # is) = Option.bind (Status fileExists g i) (\<lambda>s.
     if st_State s \<noteq> ArtifactDone then Some False else allDone fileExists g is)"

definition IsComplete :: "(string \<Rightarrow> bool) \<Rightarrow> Graph \<Rightarrow> bool option" where
  "IsComplete fileExists g = allDone fileExists g (map ar_ID (gr_artifacts g))"

definition Progress :: "(string \<Rightarrow> bool) \<Rightarrow> Graph \<Rightarrow> (nat \<times> nat) option" where
  "Progress fileExists g = map_option (\<lambda>ss. (length (filter (\<lambda>s. st_State s = ArtifactDone) ss), length (gr_artifacts g)))
     (AllStatus fileExists g)"

fun Join :: "string list \<Rightarrow> string \<Rightarrow> string" where
  "Join [] sep = []"
| "Join [x] sep = x"
| "Join (x # y # xs) sep = x @ sep @ Join (y # xs) sep"

definition TrimRight :: "string \<Rightarrow> string \<Rightarrow> string" where
  "TrimRight s cutset = rev (dropWhile (\<lambda>c. c \<in> set cutset) (rev s))"

text \<open>The summary for the user; the icons are the UTF-8 bytes of a circle, a triangle and a ring.\<close>

definition stateIcon :: "ArtifactState \<Rightarrow> string" where
  "stateIcon st = (case st of ArtifactDone \<Rightarrow> ''+'' | ArtifactReady \<Rightarrow> [CHR 0xE2, CHR 0x96, CHR 0xB6]
     | ArtifactBlocked \<Rightarrow> [CHR 0xE2, CHR 0x97, CHR 0x89])"

definition arrow :: string where
  "arrow = [CHR 0xE2, CHR 0x86, CHR 0x92]"

definition statusLine :: "ArtifactStatus \<Rightarrow> string \<Rightarrow> string" where
  "statusLine s i = ''  '' @ stateIcon (st_State s) @ '' '' @ i
     @ (if st_OutputPath s \<noteq> [] then '' '' @ arrow @ '' '' @ st_OutputPath s else [])
     @ (if st_MissingDeps s \<noteq> [] then '' (needs: '' @ Join (st_MissingDeps s) '', '' @ '')'' else []) @ [CHR 10]"

definition applyLine :: "bool \<Rightarrow> string" where
  "applyLine ready = (if ready then ''  '' @ stateIcon ArtifactReady @ '' apply '' @ arrow @ '' ready to implement''
     else ''  '' @ stateIcon ArtifactBlocked @ '' apply '' @ arrow @ '' blocked (needs all artifacts done)'') @ [CHR 10]"

definition FormatStatus :: "(string \<Rightarrow> bool) \<Rightarrow> Graph \<Rightarrow> string option" where
  "FormatStatus fileExists g = Option.bind (TopologicalOrder g) (\<lambda>r. case r of
     Inl _ \<Rightarrow> Some ''error: cycle detected in artifact dependency graph''
   | Inr order \<Rightarrow>
     Option.bind (Progress fileExists g) (\<lambda>(done', total).
     Option.bind (forEach (\<lambda>i. Status fileExists g i) order) (\<lambda>ss.
     Option.bind (case sc_Apply (gr_schema g) of None \<Rightarrow> Some []
       | Some ap \<Rightarrow> map_option applyLine (allDone fileExists g (ap_Requires ap))) (\<lambda>apply'.
     Some (TrimRight (''Progress: '' @ show_nat done' @ ''/'' @ show_nat total @ '' artifacts'' @ [CHR 10]
       @ concat (map (\<lambda>(i, s). statusLine s i) (zip order ss)) @ apply') [CHR 10])))))"

section \<open>What NewGraph builds\<close>

definition occurrences :: "Schema \<Rightarrow> string \<Rightarrow> string list" where
  "occurrences s i = concat (map (\<lambda>a. map (\<lambda>_. ar_ID a) (filter (\<lambda>r. r = i) (ar_Requires a))) (sc_Artifacts s))"

lemma addRequirement_fold:
  "gr_dependents (foldl (addRequirement i) g rs) = (\<lambda>d. gr_dependents g d @ map (\<lambda>_. i) (filter (\<lambda>r. r = d) rs))"
  "gr_inDegree (foldl (addRequirement i) g rs) = (gr_inDegree g)(i := gr_inDegree g i + int (length rs))"
  "gr_schema (foldl (addRequirement i) g rs) = gr_schema g" "gr_artifacts (foldl (addRequirement i) g rs) = gr_artifacts g"
  "gr_changeDir (foldl (addRequirement i) g rs) = gr_changeDir g"
  by (induction rs arbitrary: g) (auto simp: addRequirement_def fun_eq_iff)

lemma addArtifact_fold:
  "gr_dependents (foldl addArtifact g as) d
    = gr_dependents g d @ concat (map (\<lambda>a. map (\<lambda>_. ar_ID a) (filter (\<lambda>r. r = d) (ar_Requires a))) as)"
  "gr_inDegree (foldl addArtifact g as) i = gr_inDegree g i + int (sum_list (map (\<lambda>a. length (ar_Requires a)) (filter (\<lambda>a. ar_ID a = i) as)))"
  "gr_schema (foldl addArtifact g as) = gr_schema g" "gr_artifacts (foldl addArtifact g as) = gr_artifacts g"
  "gr_changeDir (foldl addArtifact g as) = gr_changeDir g"
  by (induction as arbitrary: g) (auto simp: addArtifact_def addRequirement_fold)

lemma NewGraph_parts [simp]:
  "gr_schema (NewGraph s d) = s" "gr_artifacts (NewGraph s d) = sc_Artifacts s" "gr_changeDir (NewGraph s d) = d"
  "gr_dependents (NewGraph s d) = occurrences s"
  by (simp_all add: NewGraph_def addArtifact_fold occurrences_def fun_eq_iff)

lemma NewGraph_degree:
  "gr_inDegree (NewGraph s d) i = int (sum_list (map (\<lambda>a. length (ar_Requires a)) (filter (\<lambda>a. ar_ID a = i) (sc_Artifacts s))))"
  by (simp add: NewGraph_def addArtifact_fold)

lemma occurrences_ids: "set (occurrences s i) \<subseteq> set (IDs s)"
  by (auto simp: occurrences_def IDs_def)

section \<open>Kahn's algorithm\<close>

text \<open>After a release each degree is smaller by the number of times its id occurs; those that reach 0 are queued once.\<close>

lemma release_spec:
  assumes "release inDegree queue ds = (inDegree', queue')"
  shows "inDegree' = (\<lambda>x. inDegree x - int (count_list ds x))
    \<and> (\<exists>pushed. queue' = queue @ pushed \<and> distinct pushed
        \<and> set pushed = {x. 0 < inDegree x \<and> inDegree x \<le> int (count_list ds x)})"
  using assms
proof (induction inDegree queue ds arbitrary: inDegree' queue' rule: release.induct)
  case (2 inDegree queue dep deps)
  define d where "d = inDegree dep - 1"
  obtain pushed where p: "inDegree' = (\<lambda>x. (inDegree(dep := d)) x - int (count_list deps x))"
    "queue' = (if d = 0 then queue @ [dep] else queue) @ pushed" "distinct pushed"
    "set pushed = {x. 0 < (inDegree(dep := d)) x \<and> (inDegree(dep := d)) x \<le> int (count_list deps x)}"
    using "2.IH" [OF d_def, of inDegree' queue'] "2.prems" unfolding release.simps Let_def d_def [symmetric] by blast
  have "inDegree' = (\<lambda>x. inDegree x - int (count_list (dep # deps) x))" by (auto simp: p(1) d_def)
  moreover have "queue' = queue @ ((if d = 0 then [dep] else []) @ pushed)" by (simp add: p(2))
  moreover have "distinct ((if d = 0 then [dep] else []) @ pushed)" using p(3,4) by auto
  moreover have "set ((if d = 0 then [dep] else []) @ pushed) = {x. 0 < inDegree x \<and> inDegree x \<le> int (count_list (dep # deps) x)}"
    by (auto simp: p(4) d_def split: if_splits)
  ultimately show ?case by metis
qed auto

text \<open>
  The loop returns, as every id is queued only when its degree reaches 0, and an invariant of its steps holds at the end.
\<close>

lemma kahn_rule:
  assumes "finite {x. 0 < inDegree x}" and "I inDegree queue order"
    and step: "\<And>inDegree i rest order inDegree' queue'. I inDegree (i # rest) order \<Longrightarrow>
      release inDegree rest (dependents i) = (inDegree', queue') \<Longrightarrow> I inDegree' queue' (order @ [i])"
  shows "\<exists>inDegree' order'. kahn dependents inDegree queue order = Some order' \<and> I inDegree' [] order'"
  using assms(1,2)
proof (induction "card {x. 0 < inDegree x} + length queue" arbitrary: inDegree queue order rule: less_induct)
  case less
  show ?case
  proof (cases queue)
    case Nil
    then show ?thesis using less.prems(2) by (auto simp: kahn.simps)
  next
    case (Cons i rest)
    obtain inDegree' queue' where r: "release inDegree rest (dependents i) = (inDegree', queue')" by fastforce
    from release_spec [OF r] obtain pushed where p: "inDegree' = (\<lambda>x. inDegree x - int (count_list (dependents i) x))"
      "queue' = rest @ pushed" "distinct pushed" "set pushed = {x. 0 < inDegree x \<and> inDegree x \<le> int (count_list (dependents i) x)}"
      by blast
    have split: "{x. 0 < inDegree x} = {x. 0 < inDegree' x} \<union> set pushed" "{x. 0 < inDegree' x} \<inter> set pushed = {}"
      by (auto simp: p(1,4))
    then have fin: "finite {x. 0 < inDegree' x}" using less.prems(1) by simp
    then have "card {x. 0 < inDegree x} = card {x. 0 < inDegree' x} + length pushed"
      using split distinct_card [OF p(3)] by (simp add: card_Un_disjoint)
    then have "card {x. 0 < inDegree' x} + length queue' < card {x. 0 < inDegree x} + length queue"
      by (simp add: p(2) Cons)
    from less.hyps [OF this fin step [OF less.prems(2) [unfolded Cons] r]] show ?thesis
      unfolding Cons by (simp add: kahn.simps [of dependents inDegree "i # rest"] r)
  qed
qed

text \<open>The requirements of an id that are not in the order yet.\<close>

definition pending :: "Schema \<Rightarrow> string set \<Rightarrow> string \<Rightarrow> string list" where
  "pending s X i = filter (\<lambda>r. r \<notin> X) (concat (map ar_Requires (filter (\<lambda>a. ar_ID a = i) (sc_Artifacts s))))"

definition kahn_inv :: "Schema \<Rightarrow> (string \<Rightarrow> int) \<Rightarrow> string list \<Rightarrow> string list \<Rightarrow> bool" where
  "kahn_inv s inDegree queue order \<longleftrightarrow>
    distinct (order @ queue) \<and> (\<forall>i. inDegree i = int (length (pending s (set order) i)))
    \<and> set (order @ queue) = {i \<in> set (IDs s). pending s (set order) i = []}
    \<and> (\<forall>k < length order. pending s (set (take k order)) (order ! k) = [])"

lemma count_occurrences: "count_list (occurrences s d) i = count_list (pending s {} i) d"
proof -
  have "count_list (concat (map (\<lambda>a. map (\<lambda>_. ar_ID a) (filter (\<lambda>r. r = d) (ar_Requires a))) as)) i
    = count_list (concat (map ar_Requires (filter (\<lambda>a. ar_ID a = i) as))) d" for as
  proof (induction as)
    case (Cons a as)
    have "count_list (map (\<lambda>_. j) (filter (\<lambda>r. r = d) rs)) i = (if j = i then count_list rs d else 0)" for j rs
      by (induction rs) auto
    then show ?case using Cons by simp
  qed simp
  then show ?thesis by (simp add: occurrences_def pending_def)
qed

lemma count_pending:
  assumes "d \<notin> X"
  shows "count_list (pending s {} i) d = count_list (pending s X i) d"
proof -
  have "count_list (filter (\<lambda>r. r \<notin> X) xs) d = count_list xs d" for xs using assms by (induction xs) auto
  then show ?thesis by (simp add: pending_def)
qed

lemma pending_insert: "length (pending s X i) = length (pending s (insert d X) i) + count_list (pending s X i) d"
proof -
  have "length (filter (\<lambda>r. r \<notin> X) xs) = length (filter (\<lambda>r. r \<notin> insert d X) xs) + count_list (filter (\<lambda>r. r \<notin> X) xs) d" for xs
    by (induction xs) auto
  then show ?thesis unfolding pending_def .
qed

lemma pending_mono: "pending s X i = [] \<Longrightarrow> X \<subseteq> Y \<Longrightarrow> pending s Y i = []"
  by (auto simp: pending_def filter_empty_conv)

lemma pending_id: "pending s X i \<noteq> [] \<Longrightarrow> i \<in> set (IDs s)"
  by (auto simp: pending_def IDs_def filter_empty_conv)

lemma kahn_inv_step:
  assumes inv: "kahn_inv s inDegree (i # rest) order" and r: "release inDegree rest (occurrences s i) = (inDegree', queue')"
  shows "kahn_inv s inDegree' queue' (order @ [i])"
proof -
  let ?X = "set order"
  from release_spec [OF r] obtain pushed where p: "inDegree' = (\<lambda>x. inDegree x - int (count_list (occurrences s i) x))"
    "queue' = rest @ pushed" "distinct pushed" "set pushed = {x. 0 < inDegree x \<and> inDegree x \<le> int (count_list (occurrences s i) x)}"
    by blast
  from inv have d: "distinct (order @ i # rest)" and deg: "\<And>x. inDegree x = int (length (pending s ?X x))"
    and all: "set (order @ i # rest) = {x \<in> set (IDs s). pending s ?X x = []}"
    and before: "\<forall>k < length order. pending s (set (take k order)) (order ! k) = []"
    by (simp_all add: kahn_inv_def)
  have count: "count_list (occurrences s i) x = count_list (pending s ?X x) i" for x
    using count_pending [of i ?X s x] d by (simp add: count_occurrences)
  have deg': "inDegree' x = int (length (pending s (insert i ?X) x))" for x
    using pending_insert [of s ?X x i] by (simp add: p(1) deg count)
  have pushed: "x \<in> set pushed \<longleftrightarrow> pending s ?X x \<noteq> [] \<and> pending s (insert i ?X) x = []" for x
  proof -
    have "length (pending s ?X x) = length (pending s (insert i ?X) x) + count_list (occurrences s i) x"
      by (simp only: count pending_insert [symmetric])
    then have "int (length (pending s ?X x)) \<le> int (count_list (occurrences s i) x) \<longleftrightarrow> length (pending s (insert i ?X) x) = 0"
      by linarith
    then show ?thesis by (simp add: p(4) deg)
  qed
  have "set pushed \<inter> set (order @ i # rest) = {}" unfolding all using pushed by auto
  then have "distinct ((order @ [i]) @ queue')" using d p(3) by (auto simp: p(2))
  moreover have "set ((order @ [i]) @ queue') = {x \<in> set (IDs s). pending s (insert i ?X) x = []}"
  proof -
    have "set ((order @ [i]) @ queue') = {x \<in> set (IDs s). pending s ?X x = []} \<union> set pushed"
      using all by (auto simp: p(2))
    also have "\<dots> = {x \<in> set (IDs s). pending s (insert i ?X) x = []}"
      using pushed pending_id pending_mono [of s ?X _ "insert i ?X"] by blast
    finally show ?thesis .
  qed
  moreover have "pending s ?X i = []" using all by auto
  then have "\<forall>k < length (order @ [i]). pending s (set (take k (order @ [i]))) ((order @ [i]) ! k) = []"
    using before by (auto simp: nth_append less_Suc_eq)
  ultimately show ?thesis by (simp add: kahn_inv_def deg')
qed

section \<open>The order is right\<close>

text \<open>An order lists every artifact once, and each after all its requirements.\<close>

definition dependency_order :: "Schema \<Rightarrow> string list \<Rightarrow> bool" where
  "dependency_order s order \<longleftrightarrow> distinct order \<and> set order = set (IDs s)
    \<and> (\<forall>a \<in> set (sc_Artifacts s). \<forall>r \<in> set (ar_Requires a). \<exists>k j. k < j \<and> j < length order \<and> order ! k = r \<and> order ! j = ar_ID a)"

lemma kahn_total:
  assumes "distinct (IDs s)"
  shows "\<exists>inDegree order. kahn (occurrences s) (gr_inDegree (NewGraph s d)) (filter (\<lambda>i. gr_inDegree (NewGraph s d) i = 0) (IDs s)) [] = Some order
    \<and> kahn_inv s inDegree [] order"
proof (rule kahn_rule)
  have deg: "gr_inDegree (NewGraph s d) i = int (length (pending s {} i))" for i
    by (simp add: NewGraph_degree pending_def length_concat o_def)
  have "{x. 0 < gr_inDegree (NewGraph s d) x} \<subseteq> set (IDs s)" using pending_id [of s "{}"] by (auto simp: deg)
  then show "finite {x. 0 < gr_inDegree (NewGraph s d) x}" by (rule finite_subset) simp
  show "kahn_inv s (gr_inDegree (NewGraph s d)) (filter (\<lambda>i. gr_inDegree (NewGraph s d) i = 0) (IDs s)) []"
    using assms by (auto simp: kahn_inv_def deg)
qed (rule kahn_inv_step)

lemma complete_order:
  assumes "kahn_inv s inDegree [] order" and "length order = length (sc_Artifacts s)" and "distinct (IDs s)"
  shows "dependency_order s order"
proof -
  have d: "distinct order" and sub: "set order \<subseteq> set (IDs s)" and before: "\<And>k. k < length order \<Longrightarrow> pending s (set (take k order)) (order ! k) = []"
    using assms(1) by (auto simp: kahn_inv_def)
  have "card (set order) = card (set (IDs s))" using distinct_card [OF d] distinct_card [OF assms(3)] assms(2) by (simp add: IDs_def)
  then have all: "set order = set (IDs s)" using sub by (simp add: card_subset_eq)
  have "\<exists>k j. k < j \<and> j < length order \<and> order ! k = r \<and> order ! j = ar_ID a"
    if a: "a \<in> set (sc_Artifacts s)" "r \<in> set (ar_Requires a)" for a r
  proof -
    have "ar_ID a \<in> set order" using a(1) by (auto simp: all IDs_def)
    then obtain j where j: "j < length order" "order ! j = ar_ID a" by (auto simp: in_set_conv_nth)
    with before [of j] a have "r \<in> set (take j order)" by (auto simp: pending_def filter_empty_conv)
    then obtain k where "k < j" "order ! k = r" using j(1) by (auto simp: in_set_conv_nth)
    with j show ?thesis by blast
  qed
  with d all show ?thesis by (simp add: dependency_order_def)
qed

lemma incomplete_order:
  assumes "kahn_inv s inDegree [] order" and "length order \<noteq> length (sc_Artifacts s)" and "distinct (IDs s)"
  shows "\<not> dependency_order s w"
proof
  assume w: "dependency_order s w"
  have d: "distinct order" and all: "set order = {i \<in> set (IDs s). pending s (set order) i = []}"
    using assms(1) by (simp_all add: kahn_inv_def)
  have "set order \<noteq> set (IDs s)"
    using distinct_card [OF d] distinct_card [OF assms(3)] assms(2) by (auto simp: IDs_def)
  then obtain i where "i \<in> set (IDs s) - set order" using all by blast
  with w have "\<exists>j. j < length w \<and> w ! j \<notin> set order" using in_set_conv_nth [of i w] by (auto simp: dependency_order_def)
  then obtain j where j: "j < length w" "w ! j \<notin> set order" "\<And>k. k < j \<Longrightarrow> w ! k \<in> set order"
    using exists_least_iff [of "\<lambda>j. j < length w \<and> w ! j \<notin> set order"] by (metis order.strict_trans)
  from j(1) w have "w ! j \<in> set (IDs s)" by (auto simp: dependency_order_def)
  with j(2) all have "pending s (set order) (w ! j) \<noteq> []" by blast
  then obtain a r where a: "a \<in> set (sc_Artifacts s)" "ar_ID a = w ! j" "r \<in> set (ar_Requires a)" "r \<notin> set order"
    by (auto simp: pending_def filter_empty_conv)
  with w obtain k l where k: "k < l" "l < length w" "w ! k = r" "w ! l = w ! j"
    unfolding dependency_order_def by metis
  from w j(1) k(2,4) have "l = j" by (simp add: dependency_order_def nth_eq_iff_index_eq)
  with k j(3) a(4) show False by blast
qed

text \<open>
  C17. For a schema whose ids are distinct \<open>TopologicalOrder\<close> always returns. It returns an order that lists every artifact once
  and after all its requirements, and reports a cycle only if there is no such order.
\<close>

theorem topological_order_exact:
  assumes "distinct (IDs s)"
  shows "case TopologicalOrder (NewGraph s d) of
      None \<Rightarrow> False
    | Some (Inr order) \<Rightarrow> dependency_order s order
    | Some (Inl e) \<Rightarrow> e = ErrCycle \<and> (\<forall>order. \<not> dependency_order s order)"
proof -
  obtain inDegree order where k: "kahn_inv s inDegree [] order"
    "kahn (occurrences s) (gr_inDegree (NewGraph s d)) (filter (\<lambda>i. gr_inDegree (NewGraph s d) i = 0) (IDs s)) [] = Some order"
    using kahn_total [OF assms] by blast
  then show ?thesis using complete_order [OF k(1) _ assms] incomplete_order [OF k(1) _ assms]
    by (simp add: TopologicalOrder_def)
qed

theorem topological_order_exact_witness:
  "TopologicalOrder (NewGraph DefaultSchema ''c'') = Some (Inr [''proposal'', ''specs'', ''design'', ''tasks''])
    \<and> dependency_order DefaultSchema [''proposal'', ''specs'', ''design'', ''tasks'']"
proof -
  have "TopologicalOrder (NewGraph DefaultSchema ''c'') = Some (Inr [''proposal'', ''specs'', ''design'', ''tasks''])" by code_simp
  moreover have "distinct (IDs DefaultSchema)" by code_simp
  ultimately show ?thesis using topological_order_exact [of DefaultSchema "''c''"] by simp
qed

section \<open>The states of the artifacts\<close>

lemma forEach_Some: "(\<And>x. x \<in> set xs \<Longrightarrow> f x = Some (g x)) \<Longrightarrow> forEach f xs = Some (map g xs)"
  by (induction xs) auto

text \<open>What the state of an artifact is meant to be, read off the files alone.\<close>

definition isDone :: "(string \<Rightarrow> bool) \<Rightarrow> Graph \<Rightarrow> string \<Rightarrow> bool" where
  "isDone fileExists g i = (case ArtifactByID (gr_schema g) i of None \<Rightarrow> False | Some a \<Rightarrow> outputExists fileExists g a)"

definition stateOf :: "(string \<Rightarrow> bool) \<Rightarrow> Graph \<Rightarrow> Artifact \<Rightarrow> ArtifactStatus" where
  "stateOf fileExists g a = (let missing = filter (\<lambda>r. \<not> isDone fileExists g r) (ar_Requires a) in
     if outputExists fileExists g a
     then \<lparr>st_ID = ar_ID a, st_State = ArtifactDone, st_OutputPath = resolveOutput g (ar_Generates a), st_MissingDeps = []\<rparr>
     else if missing = []
     then \<lparr>st_ID = ar_ID a, st_State = ArtifactReady, st_OutputPath = resolveOutput g (ar_Generates a), st_MissingDeps = []\<rparr>
     else \<lparr>st_ID = ar_ID a, st_State = ArtifactBlocked, st_OutputPath = [], st_MissingDeps = missing\<rparr>)"

lemma find_artifact: "distinct (IDs s) \<Longrightarrow> a \<in> set (sc_Artifacts s) \<Longrightarrow> ArtifactByID s (ar_ID a) = Some a"
proof -
  have "distinct (map ar_ID as) \<Longrightarrow> a \<in> set as \<Longrightarrow> find (\<lambda>b. ar_ID b = ar_ID a) as = Some a" for as
    by (induction as) auto
  then show "distinct (IDs s) \<Longrightarrow> a \<in> set (sc_Artifacts s) \<Longrightarrow> ArtifactByID s (ar_ID a) = Some a" by (simp add: IDs_def ArtifactByID_def)
qed

lemma isDone_artifact:
  "distinct (IDs s) \<Longrightarrow> a \<in> set (sc_Artifacts s) \<Longrightarrow> isDone fileExists (NewGraph s d) (ar_ID a) = outputExists fileExists (NewGraph s d) a"
  by (simp add: isDone_def find_artifact)

lemma stateOf_done: "st_State (stateOf fileExists g a) = ArtifactDone \<longleftrightarrow> outputExists fileExists g a"
  by (simp add: stateOf_def Let_def)

lemma Status_artifact:
  assumes "distinct (IDs s)" and "a \<in> set (sc_Artifacts s)"
    and deps: "\<And>r. r \<in> set (ar_Requires a) \<Longrightarrow> \<exists>b \<in> set (sc_Artifacts s). ar_ID b = r
      \<and> Status fileExists (NewGraph s d) r = Some (stateOf fileExists (NewGraph s d) b)"
  shows "Status fileExists (NewGraph s d) (ar_ID a) = Some (stateOf fileExists (NewGraph s d) a)"
proof (cases "outputExists fileExists (NewGraph s d) a")
  case True
  then show ?thesis by (simp add: Status.simps [of _ _ "ar_ID a"] find_artifact [OF assms(1,2)] stateOf_def Let_def)
next
  case False
  define f where "f r = the (Status fileExists (NewGraph s d) r)" for r
  have f: "Status fileExists (NewGraph s d) r = Some (f r) \<and> (st_State (f r) = ArtifactDone \<longleftrightarrow> isDone fileExists (NewGraph s d) r)"
    if "r \<in> set (ar_Requires a)" for r
    using deps [OF that] isDone_artifact [OF assms(1)] by (auto simp: f_def stateOf_done)
  then have "forEach (Status fileExists (NewGraph s d)) (ar_Requires a) = Some (map f (ar_Requires a))"
    by (intro forEach_Some) blast
  moreover have "map fst (filter (\<lambda>(_, s). st_State s \<noteq> ArtifactDone) (zip rs (map f rs))) = filter (\<lambda>r. \<not> isDone fileExists (NewGraph s d) r) rs"
    if "set rs \<subseteq> set (ar_Requires a)" for rs
    using that by (induction rs) (auto simp: f)
  note missing = this [OF order_refl]
  moreover from missing have "filter (\<lambda>(_, s). st_State s \<noteq> ArtifactDone) (zip (ar_Requires a) (map f (ar_Requires a))) = []
    \<longleftrightarrow> filter (\<lambda>r. \<not> isDone fileExists (NewGraph s d) r) (ar_Requires a) = []" by (metis Nil_is_map_conv)
  ultimately show ?thesis using False
    by (simp add: Status.simps [of _ _ "ar_ID a"] find_artifact [OF assms(1,2)] stateOf_def Let_def)
qed

lemma Status_ordered:
  assumes "distinct (IDs s)" and "dependency_order s order" and "a \<in> set (sc_Artifacts s)"
  shows "Status fileExists (NewGraph s d) (ar_ID a) = Some (stateOf fileExists (NewGraph s d) a)"
proof -
  have "\<forall>a \<in> set (sc_Artifacts s). ar_ID a = order ! j \<longrightarrow>
      Status fileExists (NewGraph s d) (ar_ID a) = Some (stateOf fileExists (NewGraph s d) a)" if "j < length order" for j
    using that
  proof (induction j rule: less_induct)
    case (less j)
    show ?case
    proof (intro ballI impI Status_artifact [OF assms(1)])
      fix a r assume a: "a \<in> set (sc_Artifacts s)" "ar_ID a = order ! j" "r \<in> set (ar_Requires a)"
      then obtain k l where k: "k < l" "l < length order" "order ! k = r" "order ! l = order ! j"
        using assms(2) unfolding dependency_order_def by metis
      then have kj: "k < j" using assms(2) less.prems by (simp add: dependency_order_def nth_eq_iff_index_eq)
      have "r \<in> set (IDs s)" using assms(2) k by (auto simp: dependency_order_def)
      then obtain b where b: "b \<in> set (sc_Artifacts s)" "ar_ID b = r" by (auto simp: IDs_def)
      with less.IH [OF kj] k(3) kj less.prems
      show "\<exists>b \<in> set (sc_Artifacts s). ar_ID b = r \<and> Status fileExists (NewGraph s d) r = Some (stateOf fileExists (NewGraph s d) b)"
        by auto
    qed
  qed
  moreover have "ar_ID a \<in> set order" using assms(2,3) by (auto simp: dependency_order_def IDs_def)
  ultimately show ?thesis using assms(3) by (metis in_set_conv_nth)
qed

lemma statuses:
  assumes "distinct (IDs s)" and "dependency_order s order"
  shows "AllStatus fileExists (NewGraph s d) = Some (map (stateOf fileExists (NewGraph s d)) (sc_Artifacts s))"
  using forEach_Some [of "sc_Artifacts s" "\<lambda>a. Status fileExists (NewGraph s d) (ar_ID a)" "stateOf fileExists (NewGraph s d)"]
    Status_ordered [OF assms] by (simp add: AllStatus_def)

lemma allDone_ordered:
  assumes "\<And>a. a \<in> set as \<Longrightarrow> Status fileExists g (ar_ID a) = Some (stateOf fileExists g a)"
  shows "allDone fileExists g (map ar_ID as) = Some (list_all (outputExists fileExists g) as)"
  using assms by (induction as) (auto simp: stateOf_done)

text \<open>
  C18. With distinct ids and an acyclic schema the queries return, and their answers are determined by the files: an artifact is
  done if its output exists, ready if it does not and all its requirements are done, and blocked by the others. The work
  never stalls: unless all artifacts are done, at least one is ready.
\<close>

theorem workflow_never_stalls:
  assumes "distinct (IDs s)" and "dependency_order s order"
  shows "AllStatus fileExists (NewGraph s d) = Some (map (stateOf fileExists (NewGraph s d)) (sc_Artifacts s))
    \<and> IsComplete fileExists (NewGraph s d) = Some (list_all (outputExists fileExists (NewGraph s d)) (sc_Artifacts s))
    \<and> (\<exists>ready. NextActionable fileExists (NewGraph s d) = Some ready
        \<and> (ready = [] \<longleftrightarrow> IsComplete fileExists (NewGraph s d) = Some True)
        \<and> (\<forall>a \<in> set (sc_Artifacts s). ar_ID a \<in> set ready \<longleftrightarrow> \<not> outputExists fileExists (NewGraph s d) a
            \<and> (\<forall>r \<in> set (ar_Requires a). isDone fileExists (NewGraph s d) r)))"
proof -
  let ?g = "NewGraph s d" and ?as = "sc_Artifacts s"
  have all: "AllStatus fileExists ?g = Some (map (stateOf fileExists ?g) ?as)" by (rule statuses [OF assms])
  have complete: "IsComplete fileExists ?g = Some (list_all (outputExists fileExists ?g) ?as)"
    unfolding IsComplete_def NewGraph_parts by (rule allDone_ordered) (rule Status_ordered [OF assms])
  define ready where "ready = map ar_ID (filter (\<lambda>a. st_State (stateOf fileExists ?g a) = ArtifactReady) ?as)"
  have next': "NextActionable fileExists ?g = Some ready"
  proof -
    have "map fst (filter (\<lambda>(_, s). st_State s = ArtifactReady) (zip (map ar_ID as) (map (stateOf fileExists ?g) as)))
      = map ar_ID (filter (\<lambda>a. st_State (stateOf fileExists ?g a) = ArtifactReady) as)" for as
      by (induction as) auto
    then show ?thesis by (simp add: NextActionable_def all ready_def)
  qed
  have state: "st_State (stateOf fileExists ?g a) = ArtifactReady
      \<longleftrightarrow> \<not> outputExists fileExists ?g a \<and> (\<forall>r \<in> set (ar_Requires a). isDone fileExists ?g r)" for a
    by (auto simp: stateOf_def Let_def filter_empty_conv)
  have mem: "ar_ID a \<in> set ready \<longleftrightarrow> st_State (stateOf fileExists ?g a) = ArtifactReady" if "a \<in> set ?as" for a
    using that assms(1) by (auto simp: ready_def IDs_def dest: distinct_map [THEN iffD1] inj_onD)
  have stall: "list_all (outputExists fileExists ?g) ?as" if "ready = []"
  proof (rule ccontr)
    assume "\<not> list_all (outputExists fileExists ?g) ?as"
    then obtain a0 where a0: "a0 \<in> set ?as" "\<not> isDone fileExists ?g (ar_ID a0)"
      using isDone_artifact [OF assms(1)] by (auto simp: list_all_iff)
    then have "ar_ID a0 \<in> set order" using assms(2) by (auto simp: dependency_order_def IDs_def)
    with a0(2) have "\<exists>j. j < length order \<and> \<not> isDone fileExists ?g (order ! j)" by (auto simp: in_set_conv_nth)
    then obtain j where j: "j < length order" "\<not> isDone fileExists ?g (order ! j)" "\<And>k. k < j \<Longrightarrow> isDone fileExists ?g (order ! k)"
      using exists_least_iff [of "\<lambda>j. j < length order \<and> \<not> isDone fileExists ?g (order ! j)"] by (metis order.strict_trans)
    have "order ! j \<in> set (IDs s)" using assms(2) j(1) by (auto simp: dependency_order_def)
    then obtain a where a: "a \<in> set ?as" "ar_ID a = order ! j" by (auto simp: IDs_def)
    have "isDone fileExists ?g r" if r: "r \<in> set (ar_Requires a)" for r
    proof -
      obtain k l where k: "k < l" "l < length order" "order ! k = r" "order ! l = order ! j"
        using assms(2) a r unfolding dependency_order_def by metis
      then have "k < j" using assms(2) j(1) by (simp add: dependency_order_def nth_eq_iff_index_eq)
      then show ?thesis using j(3) k(3) by blast
    qed
    then have "ar_ID a \<in> set ready" using mem [OF a(1)] state j(2) a isDone_artifact [OF assms(1) a(1)] by auto
    with that show False by simp
  qed
  have none: "ready = []" if "list_all (outputExists fileExists ?g) ?as"
    using that by (auto simp: ready_def state filter_empty_conv list_all_iff)
  have "ready = [] \<longleftrightarrow> list_all (outputExists fileExists ?g) ?as" by (rule iffI, erule stall, erule none)
  then have "ready = [] \<longleftrightarrow> IsComplete fileExists ?g = Some True" unfolding complete option.inject by simp
  moreover have "\<forall>a \<in> set ?as. ar_ID a \<in> set ready \<longleftrightarrow> \<not> outputExists fileExists ?g a \<and> (\<forall>r \<in> set (ar_Requires a). isDone fileExists ?g r)"
    using mem state by blast
  ultimately show ?thesis using all complete next' by blast
qed

text \<open>The default schema after its first document: the specification and the design can be written next.\<close>

definition sampleFiles :: "string \<Rightarrow> bool" where
  "sampleFiles path = (path = ''c/proposal.md'')"

lemma default_order: "distinct (IDs DefaultSchema)" "dependency_order DefaultSchema [''proposal'', ''specs'', ''design'', ''tasks'']"
proof -
  show d: "distinct (IDs DefaultSchema)" by code_simp
  have "TopologicalOrder (NewGraph DefaultSchema ''c'') = Some (Inr [''proposal'', ''specs'', ''design'', ''tasks''])" by code_simp
  moreover obtain inDegree order where "kahn_inv DefaultSchema inDegree [] order" "TopologicalOrder (NewGraph DefaultSchema ''c'')
      = Some (if length order \<noteq> length (sc_Artifacts DefaultSchema) then Inl ErrCycle else Inr order)"
    using kahn_total [OF d, of "''c''"] by (auto simp: TopologicalOrder_def)
  ultimately show "dependency_order DefaultSchema [''proposal'', ''specs'', ''design'', ''tasks'']"
    using complete_order [OF _ _ d] by (auto split: if_splits)
qed

theorem workflow_never_stalls_witness:
  "NextActionable sampleFiles (NewGraph DefaultSchema ''c'') = Some [''specs'', ''design'']
    \<and> IsComplete sampleFiles (NewGraph DefaultSchema ''c'') \<noteq> Some True
    \<and> AllStatus sampleFiles (NewGraph DefaultSchema ''c'')
      = Some (map (stateOf sampleFiles (NewGraph DefaultSchema ''c'')) (sc_Artifacts DefaultSchema))"
proof -
  have ready: "NextActionable sampleFiles (NewGraph DefaultSchema ''c'') = Some [''specs'', ''design'']" by code_simp
  show ?thesis using workflow_never_stalls [OF default_order, of sampleFiles "''c''"] ready by auto
qed

section \<open>When the queries do not return\<close>

lemma forEach_defined: "forEach f xs = Some ys \<Longrightarrow> x \<in> set xs \<Longrightarrow> f x \<noteq> None"
  by (induction xs arbitrary: ys) (auto split: bind_splits)

lemma Status_diverges:
  assumes U: "\<And>i. i \<in> U \<Longrightarrow> \<exists>a. ArtifactByID (gr_schema g) i = Some a \<and> \<not> outputExists f g a \<and> (\<exists>r \<in> set (ar_Requires a). r \<in> U)"
    and "i \<in> U"
  shows "Status f g i = None"
proof -
  have "f' = f \<longrightarrow> g' = g \<longrightarrow> j \<notin> U" if "Status f' g' j = Some y" for f' g' j y
  proof (rule Status.raw_induct [where P = "\<lambda>f' g' j y. f' = f \<longrightarrow> g' = g \<longrightarrow> j \<notin> U", OF _ that], intro impI notI, goal_cases)
    case (1 Status' f' g' j y)
    note IH = 1(1) and body = 1(2) and eq = 1(3,4)
    obtain a r where a: "ArtifactByID (gr_schema g) j = Some a" "\<not> outputExists f g a" "r \<in> set (ar_Requires a)" "r \<in> U"
      using U [OF 1(5)] by blast
    with body eq obtain ds where "forEach (Status' f g) (ar_Requires a) = Some ds" by (auto split: bind_splits)
    from forEach_defined [OF this a(3)] obtain z where "Status' f g r = Some z" by auto
    from IH [OF this] a(4) show False by blast
  qed
  with assms(2) show ?thesis by (metis option.exhaust)
qed

text \<open>
  C36. With no output written, the state of every artifact of a closed schema is computed exactly if the requirements are
  acyclic; otherwise the recursion of \<open>Status\<close> does not end for the artifacts on or behind a cycle.
\<close>

theorem status_terminates_exact:
  assumes "distinct (IDs s)" and "\<forall>a \<in> set (sc_Artifacts s). set (ar_Requires a) \<subseteq> set (IDs s)"
  shows "(\<forall>a \<in> set (sc_Artifacts s). Status (\<lambda>_. False) (NewGraph s d) (ar_ID a) \<noteq> None) \<longleftrightarrow> (\<exists>order. dependency_order s order)"
proof
  assume "\<exists>order. dependency_order s order"
  then show "\<forall>a \<in> set (sc_Artifacts s). Status (\<lambda>_. False) (NewGraph s d) (ar_ID a) \<noteq> None"
    using Status_ordered [OF assms(1)] by auto
next
  assume returns: "\<forall>a \<in> set (sc_Artifacts s). Status (\<lambda>_. False) (NewGraph s d) (ar_ID a) \<noteq> None"
  obtain inDegree order where inv: "kahn_inv s inDegree [] order" using kahn_total [OF assms(1)] by blast
  define U where "U = set (IDs s) - set order"
  have cyclic: "\<exists>a. ArtifactByID (gr_schema (NewGraph s d)) i = Some a \<and> \<not> outputExists (\<lambda>_. False) (NewGraph s d) a
      \<and> (\<exists>r \<in> set (ar_Requires a). r \<in> U)" if "i \<in> U" for i
  proof -
    from that inv have "pending s (set order) i \<noteq> []" by (auto simp: U_def kahn_inv_def)
    then obtain a r where a: "a \<in> set (sc_Artifacts s)" "ar_ID a = i" "r \<in> set (ar_Requires a)" "r \<notin> set order"
      by (auto simp: pending_def filter_empty_conv)
    then have "r \<in> U" using assms(2) by (auto simp: U_def)
    with a find_artifact [OF assms(1) a(1)] show ?thesis by (auto simp: outputExists_def Let_def)
  qed
  have "U = {}"
  proof (rule ccontr)
    assume "U \<noteq> {}"
    then obtain a where "a \<in> set (sc_Artifacts s)" "ar_ID a \<in> U" by (auto simp: U_def IDs_def)
    then show False using returns Status_diverges [OF cyclic] by blast
  qed
  then have "set order = set (IDs s)" "distinct order" using inv by (auto simp: U_def kahn_inv_def)
  then have "length order = length (sc_Artifacts s)" using distinct_card [of order] distinct_card [OF assms(1)] by (simp add: IDs_def)
  from complete_order [OF inv this assms(1)] show "\<exists>order. dependency_order s order" by blast
qed

text \<open>Two documents that require each other.\<close>

definition cyclicSchema :: Schema where
  "cyclicSchema = \<lparr>sc_Name = ''x'', sc_Version = 1,
     sc_Artifacts = [\<lparr>ar_ID = ''a'', ar_Generates = ''a.md'', ar_Requires = [''b'']\<rparr>, \<lparr>ar_ID = ''b'', ar_Generates = ''b.md'', ar_Requires = [''a'']\<rparr>],
     sc_Apply = None\<rparr>"

theorem status_terminates_exact_witness:
  "(\<exists>a \<in> set (sc_Artifacts cyclicSchema). Status (\<lambda>_. False) (NewGraph cyclicSchema []) (ar_ID a) = None)
    \<and> TopologicalOrder (NewGraph cyclicSchema []) = Some (Inl ErrCycle)"
proof -
  have d: "distinct (IDs cyclicSchema)" by code_simp
  have t: "TopologicalOrder (NewGraph cyclicSchema []) = Some (Inl ErrCycle)" by code_simp
  obtain inDegree order where "kahn_inv cyclicSchema inDegree [] order" "TopologicalOrder (NewGraph cyclicSchema [])
      = Some (if length order \<noteq> length (sc_Artifacts cyclicSchema) then Inl ErrCycle else Inr order)"
    using kahn_total [OF d, of "[]"] by (auto simp: TopologicalOrder_def)
  with t have "\<forall>w. \<not> dependency_order cyclicSchema w" using incomplete_order [OF _ _ d] by (auto split: if_splits)
  then show ?thesis using status_terminates_exact [OF d, of "[]"] t by (auto simp: cyclicSchema_def IDs_def)
qed

end
