(* ===== verification/Schedule.thy ===== *)
theory Schedule
  imports Event_Wire
begin

text \<open>
  Reminders of a conversation, from \<open>internal/schedule\<close>: the fold that computes the active reminders from the event log
  (\<open>fold.go\<close>) and the manager that journals them and runs their timers (\<open>manager.go\<close>). A timer of the runtime is an entry
  of a pool: \<open>AfterFunc\<close> adds it, \<open>Stop\<close> removes it unless it has fired, and its callback may wait for the lock long
  after that, also while the manager is closed or attached to another log. What \<open>deliverFn\<close> receives is collected;
  parsing an interval and the fresh random id are arguments.
\<close>

section \<open>Folding the log\<close>

record Item =
  it_ID :: string
  it_Prompt :: string
  it_DueAt :: gotime
  it_Interval :: string
  it_Recurring :: bool
  it_CreatedAt :: gotime
  it_UpdatedAt :: gotime
  it_LastDueAt :: "gotime option"
  it_Deleted :: bool

text \<open>A payload of the right struct is taken as it is, any other goes through JSON; nil leaves the zero fact, which has no id.\<close>

definition decodeFact :: "(payload \<Rightarrow> 'f option) \<Rightarrow> (json \<Rightarrow> jsonError + 'f) \<Rightarrow> payload \<Rightarrow> 'f option" where
  "decodeFact get dec src = (if src = DNil then None else case get src of
     Some f \<Rightarrow> Some f
   | None \<Rightarrow> (case bindE (marshalData src) dec of Inl _ \<Rightarrow> None | Inr f \<Rightarrow> Some f))"

definition foldCreate :: "gotime \<Rightarrow> (string \<rightharpoonup> Item) \<Rightarrow> ScheduleCreateFact \<Rightarrow> (string \<rightharpoonup> Item)" where
  "foldCreate t items f = (if scr_ID f = [] then items else items(scr_ID f \<mapsto>
     \<lparr>it_ID = scr_ID f, it_Prompt = scr_Prompt f, it_DueAt = scr_DueAt f, it_Interval = scr_Interval f,
      it_Recurring = scr_Recurring f, it_CreatedAt = t, it_UpdatedAt = t, it_LastDueAt = None, it_Deleted = False\<rparr>))"

definition foldUpdate :: "gotime \<Rightarrow> (string \<rightharpoonup> Item) \<Rightarrow> ScheduleUpdateFact \<Rightarrow> (string \<rightharpoonup> Item)" where
  "foldUpdate t items f = (if su_ID f = [] then items else case items (su_ID f) of
     None \<Rightarrow> items
   | Some item \<Rightarrow> if it_Deleted item then items else items(su_ID f \<mapsto>
       item\<lparr>it_Prompt := (case su_Prompt f of Some p \<Rightarrow> p | None \<Rightarrow> it_Prompt item),
            it_DueAt := (case su_DueAt f of Some d \<Rightarrow> d | None \<Rightarrow> it_DueAt item), it_UpdatedAt := t\<rparr>))"

definition foldDelete :: "gotime \<Rightarrow> (string \<rightharpoonup> Item) \<Rightarrow> ScheduleDeleteFact \<Rightarrow> (string \<rightharpoonup> Item)" where
  "foldDelete t items f = (if sdl_ID f = [] then items else case items (sdl_ID f) of
     None \<Rightarrow> items
   | Some item \<Rightarrow> items(sdl_ID f \<mapsto> item\<lparr>it_Deleted := True, it_UpdatedAt := t\<rparr>))"

definition foldDue :: "gotime \<Rightarrow> (string \<rightharpoonup> Item) \<Rightarrow> ScheduleDueFact \<Rightarrow> (string \<rightharpoonup> Item)" where
  "foldDue t items f = (if sdu_ID f = [] then items else case items (sdu_ID f) of
     None \<Rightarrow> items
   | Some item \<Rightarrow> if it_Deleted item then items else
       (let delivered = (if IsZero (sdu_DeliveredAt f) then t else sdu_DeliveredAt f);
            item1 = item\<lparr>it_LastDueAt := Some delivered, it_UpdatedAt := t\<rparr>
        in items(sdu_ID f \<mapsto> (case sdu_NextDueAt f of
             Some next \<Rightarrow> if \<not> IsZero next then item1\<lparr>it_DueAt := next\<rparr>
               else if \<not> it_Recurring item1 then item1\<lparr>it_Deleted := True\<rparr> else item1
           | None \<Rightarrow> if \<not> it_Recurring item1 then item1\<lparr>it_Deleted := True\<rparr> else item1))))"

definition foldEvent :: "(string \<rightharpoonup> Item) \<Rightarrow> Event \<Rightarrow> (string \<rightharpoonup> Item)" where
  "foldEvent items ev = (let t = ev_At ev in
     case ev_Type ev of
       ScheduleCreate \<Rightarrow> (case decodeFact as_ScheduleCreate dec_ScheduleCreateFact (ev_Data ev) of None \<Rightarrow> items | Some f \<Rightarrow> foldCreate t items f)
     | ScheduleUpdate \<Rightarrow> (case decodeFact as_ScheduleUpdate dec_ScheduleUpdateFact (ev_Data ev) of None \<Rightarrow> items | Some f \<Rightarrow> foldUpdate t items f)
     | ScheduleDelete \<Rightarrow> (case decodeFact as_ScheduleDelete dec_ScheduleDeleteFact (ev_Data ev) of None \<Rightarrow> items | Some f \<Rightarrow> foldDelete t items f)
     | ScheduleDue \<Rightarrow> (case decodeFact as_ScheduleDue dec_ScheduleDueFact (ev_Data ev) of None \<Rightarrow> items | Some f \<Rightarrow> foldDue t items f)
     | _ \<Rightarrow> items)"

definition allItems :: "Event list \<Rightarrow> string \<rightharpoonup> Item" where
  "allItems events = foldl foldEvent Map.empty events"

definition Fold :: "Event list \<Rightarrow> string \<rightharpoonup> Item" where
  "Fold events = (\<lambda>i. case allItems events i of None \<Rightarrow> None | Some item \<Rightarrow> if it_Deleted item then None else Some item)"

section \<open>The manager and its timers\<close>

record Manager =
  mn_journal :: "Log option"
  mn_deliverFn :: bool
  mn_timers :: "string \<rightharpoonup> nat"
  mn_closed :: bool

record timer =
  tm_item :: Item
  tm_at :: gotime
  tm_fired :: bool

record world =
  wd_manager :: Manager
  wd_pool :: "nat \<rightharpoonup> timer"
  wd_next :: nat
  wd_delivered :: "Item list"

definition NewManager :: Manager where
  "NewManager = \<lparr>mn_journal = None, mn_deliverFn = False, mn_timers = Map.empty, mn_closed = False\<rparr>"

definition start :: world where
  "start = \<lparr>wd_manager = NewManager, wd_pool = Map.empty, wd_next = 0, wd_delivered = []\<rparr>"

text \<open>\<open>Timer.Stop\<close> prevents the callback of a timer that has not fired.\<close>

definition stopTimer :: "nat \<Rightarrow> world \<Rightarrow> world" where
  "stopTimer t w = (case wd_pool w t of None \<Rightarrow> w
   | Some x \<Rightarrow> if tm_fired x then w else w\<lparr>wd_pool := (wd_pool w)(t := None)\<rparr>)"

definition stopAll :: "world \<Rightarrow> world" where
  "stopAll w = w\<lparr>wd_pool := (\<lambda>t. case wd_pool w t of None \<Rightarrow> None
     | Some x \<Rightarrow> if \<not> tm_fired x \<and> t \<in> ran (mn_timers (wd_manager w)) then None else Some x)\<rparr>"

definition armTimerLocked :: "gotime \<Rightarrow> Item \<Rightarrow> world \<Rightarrow> world" where
  "armTimerLocked now item w = (if mn_closed (wd_manager w) then w
     else let dur = max 0 (time_Sub (it_DueAt item) now) in
       w\<lparr>wd_pool := (wd_pool w)(wd_next w \<mapsto> \<lparr>tm_item = item, tm_at = now + dur, tm_fired = False\<rparr>),
         wd_next := wd_next w + 1,
         wd_manager := (wd_manager w)\<lparr>mn_timers := (mn_timers (wd_manager w))(it_ID item \<mapsto> wd_next w)\<rparr>\<rparr>)"

definition calculateNextDue :: "(string \<Rightarrow> int option) \<Rightarrow> gotime \<Rightarrow> string \<Rightarrow> gotime" where
  "calculateNextDue parseDuration from' interval = (if interval = [] then from' + 300000000000
     else case parseDuration interval of
       Some d \<Rightarrow> if 0 < d then from' + d else from' + 300000000000
     | None \<Rightarrow> from' + 300000000000)"

definition journalize :: "(Log option \<Rightarrow> panic + Log option) \<Rightarrow> world \<Rightarrow> panic + world" where
  "journalize append' w = bindE (append' (mn_journal (wd_manager w))) (\<lambda>l.
     Inr (w\<lparr>wd_manager := (wd_manager w)\<lparr>mn_journal := l\<rparr>\<rparr>))"

definition triggerDueLocked :: "(string \<Rightarrow> int option) \<Rightarrow> Item \<Rightarrow> gotime \<Rightarrow> world \<Rightarrow> panic + world" where
  "triggerDueLocked parseDuration item triggeredAt w =
    (if mn_closed (wd_manager w) then Inr w
     else let w1 = (if mn_deliverFn (wd_manager w) then w\<lparr>wd_delivered := wd_delivered w @ [item]\<rparr> else w);
              nextDueAt = (if it_Recurring item then Some (calculateNextDue parseDuration triggeredAt (it_Interval item)) else None)
       in bindE (journalize (AppendScheduleDue \<lparr>sdu_ID = it_ID item, sdu_DeliveredAt = triggeredAt, sdu_NextDueAt = nextDueAt\<rparr> triggeredAt) w1) (\<lambda>w2.
          let w3 = w2\<lparr>wd_manager := (wd_manager w2)\<lparr>mn_timers := (mn_timers (wd_manager w2))(it_ID item := None)\<rparr>\<rparr>
          in case nextDueAt of None \<Rightarrow> Inr w3
             | Some next \<Rightarrow> Inr (armTimerLocked triggeredAt (item\<lparr>it_DueAt := next\<rparr>) w3)))"

text \<open>\<open>order\<close> is the order in which the range over the map of active items visits them.\<close>

definition attachItem :: "(string \<Rightarrow> int option) \<Rightarrow> (string \<rightharpoonup> Item) \<Rightarrow> gotime \<Rightarrow> world \<Rightarrow> string \<Rightarrow> panic + world" where
  "attachItem parseDuration active now w i = (case active i of None \<Rightarrow> Inr w
   | Some item \<Rightarrow> if it_DueAt item \<le> now then triggerDueLocked parseDuration item now w else Inr (armTimerLocked now item w))"

definition Attach :: "(string \<Rightarrow> int option) \<Rightarrow> Log option \<Rightarrow> bool \<Rightarrow> string list \<Rightarrow> gotime \<Rightarrow> world \<Rightarrow> panic + world" where
  "Attach parseDuration journal deliverFn order now w =
    (let w1 = (stopAll w)\<lparr>wd_manager := \<lparr>mn_journal = journal, mn_deliverFn = deliverFn, mn_timers = Map.empty, mn_closed = False\<rparr>\<rparr>
     in case journal of None \<Rightarrow> Inr w1
        | Some l \<Rightarrow> run (attachItem parseDuration (Fold (Snapshot l)) now) w1 order)"

text \<open>The error of \<open>Create\<close> on a closed manager is \<open>None\<close>.\<close>

definition Create :: "(string \<Rightarrow> int option) \<Rightarrow> string \<Rightarrow> string \<Rightarrow> gotime \<Rightarrow> string \<Rightarrow> bool \<Rightarrow> gotime \<Rightarrow> world \<Rightarrow> panic + world \<times> Item option" where
  "Create parseDuration i prompt dueAt interval recurring now w =
    (if mn_closed (wd_manager w) then Inr (w, None)
     else let fact = \<lparr>scr_ID = i, scr_Prompt = prompt, scr_DueAt = dueAt, scr_Interval = interval, scr_Recurring = recurring\<rparr>;
              item = \<lparr>it_ID = i, it_Prompt = prompt, it_DueAt = dueAt, it_Interval = interval, it_Recurring = recurring,
                it_CreatedAt = now, it_UpdatedAt = now, it_LastDueAt = None, it_Deleted = False\<rparr>
       in bindE (journalize (AppendScheduleCreate fact now) w) (\<lambda>w1.
          bindE (if dueAt \<le> now then triggerDueLocked parseDuration item now w1 else Inr (armTimerLocked now item w1)) (\<lambda>w2.
          Inr (w2, Some item))))"

definition schedule_Delete :: "string \<Rightarrow> string \<Rightarrow> gotime \<Rightarrow> world \<Rightarrow> panic + world" where
  "schedule_Delete i reason now w =
    (let w1 = (case mn_timers (wd_manager w) i of None \<Rightarrow> w
       | Some t \<Rightarrow> (stopTimer t w)\<lparr>wd_manager := (wd_manager w)\<lparr>mn_timers := (mn_timers (wd_manager w))(i := None)\<rparr>\<rparr>)
     in journalize (AppendScheduleDelete i reason now) w1)"

definition Close :: "world \<Rightarrow> world" where
  "Close w = (stopAll w)\<lparr>wd_manager := (wd_manager w)\<lparr>mn_closed := True, mn_timers := Map.empty\<rparr>\<rparr>"

text \<open>Any order of the map's items, sorted by due time.\<close>

definition schedule_List :: "string list \<Rightarrow> world \<Rightarrow> Item list" where
  "schedule_List order w = (case mn_journal (wd_manager w) of None \<Rightarrow> []
   | Some l \<Rightarrow> sort_key it_DueAt (List.map_filter (Fold (Snapshot l)) order))"

text \<open>The body of the callback of a fired timer, which then leaves the pool.\<close>

definition timerCallback :: "(string \<Rightarrow> int option) \<Rightarrow> nat \<Rightarrow> timer \<Rightarrow> gotime \<Rightarrow> world \<Rightarrow> panic + world" where
  "timerCallback parseDuration t x now w =
    (let w1 = w\<lparr>wd_pool := (wd_pool w)(t := None)\<rparr> in
     if mn_closed (wd_manager w1) then Inr w1
     else case mn_journal (wd_manager w1) of None \<Rightarrow> Inr w1
       | Some l \<Rightarrow> (case Fold (Snapshot l) (it_ID (tm_item x)) of None \<Rightarrow> Inr w1
         | Some current \<Rightarrow> if \<not> it_Deleted current then triggerDueLocked parseDuration current now w1 else Inr w1))"

section \<open>Steps of the system\<close>

text \<open>
  Calls of the session, timers that fire, callbacks of fired timers that get the lock, and other events on the same log.
  Ids are fresh and nonempty, the clock has passed the zero time, and a range over a map visits each key once.
\<close>

definition facts :: "world \<Rightarrow> string \<rightharpoonup> Item" where
  "facts w = (case mn_journal (wd_manager w) of None \<Rightarrow> Map.empty | Some l \<Rightarrow> allItems (Snapshot l))"

definition enumerates :: "string list \<Rightarrow> (string \<rightharpoonup> 'a) \<Rightarrow> bool" where
  "enumerates order m \<longleftrightarrow> distinct order \<and> set order = dom m"

definition schedule_types :: "etype set" where
  "schedule_types = {ScheduleCreate, ScheduleUpdate, ScheduleDelete, ScheduleDue}"

inductive schedule_step :: "(string \<Rightarrow> int option) \<Rightarrow> world \<Rightarrow> world \<Rightarrow> bool" for parseDuration where
  create: "i \<noteq> [] \<Longrightarrow> facts w i = None \<Longrightarrow> 0 < now \<Longrightarrow> Create parseDuration i prompt dueAt interval recurring now w = Inr (w', r) \<Longrightarrow>
    schedule_step parseDuration w w'"
| delete: "schedule_Delete i reason now w = Inr w' \<Longrightarrow> schedule_step parseDuration w w'"
| close: "schedule_step parseDuration w (Close w)"
| reattach: "mn_journal (wd_manager w) = Some l \<Longrightarrow> enumerates order (Fold (Snapshot l)) \<Longrightarrow> 0 < now \<Longrightarrow>
    Attach parseDuration (Some l) deliverFn order now w = Inr w' \<Longrightarrow> schedule_step parseDuration w w'"
| fire: "wd_pool w t = Some x \<Longrightarrow> tm_at x \<le> now \<Longrightarrow> schedule_step parseDuration w (w\<lparr>wd_pool := (wd_pool w)(t \<mapsto> x\<lparr>tm_fired := True\<rparr>)\<rparr>)"
| callback: "wd_pool w t = Some x \<Longrightarrow> tm_fired x \<Longrightarrow> 0 < now \<Longrightarrow> timerCallback parseDuration t x now w = Inr w' \<Longrightarrow>
    schedule_step parseDuration w w'"
| other: "mn_journal (wd_manager w) = Some l \<Longrightarrow> typ \<notin> schedule_types \<Longrightarrow> Append typ data now l = Inr l' \<Longrightarrow>
    schedule_step parseDuration w (w\<lparr>wd_manager := (wd_manager w)\<lparr>mn_journal := Some l'\<rparr>\<rparr>)"

inductive_cases schedule_stepE: "schedule_step parseDuration w w'"

section \<open>The fold along the log\<close>

lemma allItems_push: "allItems (Snapshot (push ev l)) = foldEvent (allItems (Snapshot l)) ev"
  by (simp add: allItems_def Snapshot_def push_def)

lemma fold_own [simp]:
  "foldEvent items \<lparr>ev_Type = ScheduleCreate, ev_Seq = n, ev_At = t, ev_Data = DScheduleCreate f, ev_Ignorable = b, ev_SurfaceOp = o', ev_SourceEventSeqs = q\<rparr>
    = foldCreate t items f"
  "foldEvent items \<lparr>ev_Type = ScheduleDelete, ev_Seq = n, ev_At = t, ev_Data = DScheduleDelete g, ev_Ignorable = b, ev_SurfaceOp = o', ev_SourceEventSeqs = q\<rparr>
    = foldDelete t items g"
  "foldEvent items \<lparr>ev_Type = ScheduleDue, ev_Seq = n, ev_At = t, ev_Data = DScheduleDue h, ev_Ignorable = b, ev_SurfaceOp = o', ev_SourceEventSeqs = q\<rparr>
    = foldDue t items h"
  by (simp_all add: foldEvent_def decodeFact_def)

lemma fold_other: "ev_Type ev \<notin> schedule_types \<Longrightarrow> foldEvent items ev = items"
  by (cases "ev_Type ev") (auto simp: foldEvent_def schedule_types_def)

text \<open>An item stays under its id, an id is never empty, and a deleted item stays deleted.\<close>

definition keyed :: "(string \<rightharpoonup> Item) \<Rightarrow> bool" where
  "keyed items \<longleftrightarrow> (\<forall>i item. items i = Some item \<longrightarrow> it_ID item = i \<and> i \<noteq> [])"

lemma keyed_fold [simp]:
  "keyed items \<Longrightarrow> keyed (foldCreate t items f)" "keyed items \<Longrightarrow> keyed (foldUpdate t items u)"
  "keyed items \<Longrightarrow> keyed (foldDelete t items g)" "keyed items \<Longrightarrow> keyed (foldDue t items h)"
  by (auto simp: keyed_def foldCreate_def foldUpdate_def foldDelete_def foldDue_def Let_def split: option.splits if_splits)

lemma keyed_foldEvent: "keyed items \<Longrightarrow> keyed (foldEvent items ev)"
  by (cases "ev_Type ev") (auto simp: foldEvent_def Let_def split: option.split)

lemma keyed_allItems: "keyed (allItems es)"
proof (induction es rule: rev_induct)
  case Nil
  show ?case by (simp add: allItems_def keyed_def)
next
  case (snoc e es)
  then show ?case using keyed_foldEvent by (simp add: allItems_def)
qed

definition gone :: "string \<Rightarrow> (string \<rightharpoonup> Item) \<Rightarrow> bool" where
  "gone i items \<longleftrightarrow> (\<exists>item. items i = Some item \<and> it_Deleted item)"

lemma Fold_Some: "Fold es i = Some item \<longleftrightarrow> allItems es i = Some item \<and> \<not> it_Deleted item"
  by (auto simp: Fold_def split: option.splits)

text \<open>What the manager's own events do.\<close>

lemma journal_due:
  assumes "mn_journal (wd_manager w) = Some l"
  shows "\<exists>l'. journalize (AppendScheduleDue f now) w = Inr (w\<lparr>wd_manager := (wd_manager w)\<lparr>mn_journal := Some l'\<rparr>\<rparr>)
    \<and> allItems (Snapshot l') = foldDue now (allItems (Snapshot l)) f"
  using assms by (auto simp: journalize_def AppendScheduleDue_def with_log_def Append_eq Known_iff allItems_push)

lemma journal_create:
  assumes "mn_journal (wd_manager w) = Some l"
  shows "\<exists>l'. journalize (AppendScheduleCreate f now) w = Inr (w\<lparr>wd_manager := (wd_manager w)\<lparr>mn_journal := Some l'\<rparr>\<rparr>)
    \<and> allItems (Snapshot l') = foldCreate now (allItems (Snapshot l)) f"
  using assms by (auto simp: journalize_def AppendScheduleCreate_def with_log_def Append_eq Known_iff allItems_push)

lemma journal_delete:
  assumes "mn_journal (wd_manager w) = Some l"
  shows "\<exists>l'. journalize (AppendScheduleDelete i reason now) w = Inr (w\<lparr>wd_manager := (wd_manager w)\<lparr>mn_journal := Some l'\<rparr>\<rparr>)
    \<and> allItems (Snapshot l') = foldDelete now (allItems (Snapshot l)) \<lparr>sdl_ID = i, sdl_Reason = reason\<rparr>"
  using assms by (auto simp: journalize_def AppendScheduleDelete_def with_log_def Append_eq Known_iff allItems_push)

section \<open>The invariant of the manager\<close>

text \<open>Every active reminder outside \<open>X\<close> has a timer that has fired or will fire when the reminder is due.\<close>

definition covered :: "string set \<Rightarrow> world \<Rightarrow> bool" where
  "covered X w \<longleftrightarrow> (\<forall>i cur. i \<notin> X \<longrightarrow> facts w i = Some cur \<longrightarrow> \<not> it_Deleted cur \<longrightarrow>
     (\<exists>t x. wd_pool w t = Some x \<and> it_ID (tm_item x) = i \<and> (tm_fired x \<or> tm_at x \<le> it_DueAt cur)))"

definition timers_ok :: "world \<Rightarrow> bool" where
  "timers_ok w \<longleftrightarrow> (\<forall>t x. wd_pool w t = Some x \<longrightarrow> t < wd_next w)
    \<and> (\<forall>i t. mn_timers (wd_manager w) i = Some t \<longrightarrow> t < wd_next w \<and> (\<forall>x. wd_pool w t = Some x \<longrightarrow> it_ID (tm_item x) = i))"

text \<open>A reminder that is not recurring and was delivered is completed, and was delivered once.\<close>

definition once :: "world \<Rightarrow> bool" where
  "once w \<longleftrightarrow> distinct (map it_ID (filter (\<lambda>x. \<not> it_Recurring x) (wd_delivered w)))
    \<and> (\<forall>x \<in> set (wd_delivered w). \<not> it_Recurring x \<longrightarrow> gone (it_ID x) (facts w))"

definition schedule_inv :: "string set \<Rightarrow> world \<Rightarrow> bool" where
  "schedule_inv X w \<longleftrightarrow> mn_journal (wd_manager w) \<noteq> None \<and> timers_ok w \<and> once w \<and> (\<not> mn_closed (wd_manager w) \<longrightarrow> covered X w)"

text \<open>Nothing that is completed or deleted comes back or is delivered again.\<close>

definition later :: "world \<Rightarrow> world \<Rightarrow> bool" where
  "later w w' \<longleftrightarrow> (\<forall>i. gone i (facts w) \<longrightarrow> gone i (facts w')
     \<and> filter (\<lambda>x. it_ID x = i) (wd_delivered w') = filter (\<lambda>x. it_ID x = i) (wd_delivered w))"

lemma later_refl: "later w w"
  by (simp add: later_def)

lemma later_trans: "later u v \<Longrightarrow> later v w \<Longrightarrow> later u w"
  by (simp add: later_def)

lemma facts_keyed: "keyed (facts w)"
  by (auto simp: facts_def keyed_allItems split: option.split) (simp add: keyed_def)

lemma arm_spec:
  assumes "schedule_inv (insert i X) w" and "\<not> mn_closed (wd_manager w)" and "facts w i = Some cur"
    and "it_ID item = i" and "it_DueAt item = it_DueAt cur" and "now \<le> it_DueAt cur"
  shows "schedule_inv (X - {i}) (armTimerLocked now item w)"
proof -
  have open': "armTimerLocked now item w = w\<lparr>wd_pool := (wd_pool w)(wd_next w \<mapsto> \<lparr>tm_item = item,
      tm_at = now + max 0 (time_Sub (it_DueAt item) now), tm_fired = False\<rparr>), wd_next := wd_next w + 1,
      wd_manager := (wd_manager w)\<lparr>mn_timers := (mn_timers (wd_manager w))(i \<mapsto> wd_next w)\<rparr>\<rparr>"
    using assms(2,4) by (simp add: armTimerLocked_def Let_def)
  have at: "now + max 0 (time_Sub (it_DueAt item) now) \<le> it_DueAt cur"
    using assms(5,6) by (simp add: time_Sub_def sat64_def)
  have f: "facts (armTimerLocked now item w) = facts w" by (simp add: open' facts_def)
  have old: "wd_pool w t \<noteq> Some x" if "t = wd_next w" for t x
    using assms(1) that by (auto simp: schedule_inv_def timers_ok_def)
  have "covered (X - {i}) (armTimerLocked now item w)"
    unfolding covered_def f
  proof (intro allI impI)
    fix j c assume j: "j \<notin> X - {i}" "facts w j = Some c" "\<not> it_Deleted c"
    show "\<exists>t x. wd_pool (armTimerLocked now item w) t = Some x \<and> it_ID (tm_item x) = j \<and> (tm_fired x \<or> tm_at x \<le> it_DueAt c)"
    proof (cases "j = i")
      case True
      then show ?thesis using j assms(3,4) at by (intro exI [of _ "wd_next w"]) (simp add: open')
    next
      case False
      then obtain t x where "wd_pool w t = Some x" "it_ID (tm_item x) = j" "tm_fired x \<or> tm_at x \<le> it_DueAt c"
        using assms(1,2) j unfolding schedule_inv_def covered_def by blast
      moreover from this(1) old have "t \<noteq> wd_next w" by blast
      ultimately show ?thesis by (intro exI [of _ t]) (simp add: open')
    qed
  qed
  moreover have "timers_ok (armTimerLocked now item w)"
    using assms(1,4) unfolding open' schedule_inv_def timers_ok_def by (auto simp: less_Suc_eq split: if_splits)
  ultimately show ?thesis using assms(1,2) f by (simp add: schedule_inv_def once_def open')
qed

lemma foldDue_active:
  assumes "facts w i = Some cur" and "\<not> it_Deleted cur" and "i \<noteq> []"
  shows "foldDue now (facts w) \<lparr>sdu_ID = i, sdu_DeliveredAt = at, sdu_NextDueAt = n\<rparr> j = facts w j \<or> j = i"
    and "\<not> it_Recurring cur \<Longrightarrow> gone i (foldDue now (facts w) \<lparr>sdu_ID = i, sdu_DeliveredAt = at, sdu_NextDueAt = None\<rparr>)"
    and "0 < d \<Longrightarrow> \<exists>c. foldDue now (facts w) \<lparr>sdu_ID = i, sdu_DeliveredAt = at, sdu_NextDueAt = Some d\<rparr> i = Some c
      \<and> \<not> it_Deleted c \<and> it_DueAt c = d"
  using assms by (auto simp: foldDue_def Let_def gone_def IsZero_def split: option.split)

lemma covered_gone:
  assumes "covered (insert i X) w" and "gone i (facts w) \<or> facts w i = None"
  shows "covered (X - {i}) w"
  unfolding covered_def
proof (intro allI impI)
  fix j cur assume j: "j \<notin> X - {i}" "facts w j = Some cur" "\<not> it_Deleted cur"
  then have "j \<notin> insert i X" using assms(2) by (cases "j = i") (auto simp: gone_def)
  then show "\<exists>t x. wd_pool w t = Some x \<and> it_ID (tm_item x) = j \<and> (tm_fired x \<or> tm_at x \<le> it_DueAt cur)"
    using assms(1) j(2,3) unfolding covered_def by blast
qed

lemma calculateNextDue_later: "now < calculateNextDue p now interval"
  by (simp add: calculateNextDue_def split: option.split)

text \<open>Delivering an active reminder completes it or arms its next timer.\<close>

lemma trigger_spec:
  assumes inv: "schedule_inv (insert i X) w" and closed: "\<not> mn_closed (wd_manager w)"
    and cur: "facts w i = Some cur" "\<not> it_Deleted cur" and item: "it_ID item = i" "it_Recurring item = it_Recurring cur" and now: "0 < now"
  shows "\<exists>w'. triggerDueLocked p item now w = Inr w' \<and> schedule_inv (X - {i}) w' \<and> \<not> mn_closed (wd_manager w')
    \<and> (\<forall>j. j \<noteq> i \<longrightarrow> facts w' j = facts w j) \<and> later w w'
    \<and> wd_delivered w' = wd_delivered w @ (if mn_deliverFn (wd_manager w) then [item] else [])
    \<and> mn_deliverFn (wd_manager w') = mn_deliverFn (wd_manager w)"
proof -
  obtain l where l: "mn_journal (wd_manager w) = Some l" using inv by (auto simp: schedule_inv_def)
  have i: "i \<noteq> []" using facts_keyed [of w] cur(1) by (simp add: keyed_def)
  have live: "\<not> gone i (facts w)" using cur by (simp add: gone_def)
  define n where "n = (if it_Recurring item then Some (calculateNextDue p now (it_Interval item)) else None)"
  define w1 where "w1 = (if mn_deliverFn (wd_manager w) then w\<lparr>wd_delivered := wd_delivered w @ [item]\<rparr> else w)"
  have w1: "wd_manager w1 = wd_manager w" "wd_pool w1 = wd_pool w" "wd_next w1 = wd_next w"
    "wd_delivered w1 = wd_delivered w @ (if mn_deliverFn (wd_manager w) then [item] else [])" by (simp_all add: w1_def)
  obtain l' where l': "journalize (AppendScheduleDue \<lparr>sdu_ID = i, sdu_DeliveredAt = now, sdu_NextDueAt = n\<rparr> now) w1
      = Inr (w1\<lparr>wd_manager := (wd_manager w1)\<lparr>mn_journal := Some l'\<rparr>\<rparr>)"
    "allItems (Snapshot l') = foldDue now (facts w) \<lparr>sdu_ID = i, sdu_DeliveredAt = now, sdu_NextDueAt = n\<rparr>"
    using journal_due [of w1 l "\<lparr>sdu_ID = i, sdu_DeliveredAt = now, sdu_NextDueAt = n\<rparr>" now] l w1(1) by (auto simp: facts_def)
  define w3 where "w3 = w1\<lparr>wd_manager := (wd_manager w)\<lparr>mn_journal := Some l', mn_timers := (mn_timers (wd_manager w))(i := None)\<rparr>\<rparr>"
  have w3: "facts w3 = foldDue now (facts w) \<lparr>sdu_ID = i, sdu_DeliveredAt = now, sdu_NextDueAt = n\<rparr>"
    "wd_pool w3 = wd_pool w" "wd_next w3 = wd_next w" "wd_delivered w3 = wd_delivered w1" by (simp_all add: w3_def facts_def l'(2) w1)
  have same: "facts w3 j = facts w j" if "j \<noteq> i" for j
    using foldDue_active(1) [OF cur i, of now now n j] that by (auto simp: w3(1))
  have trigger: "triggerDueLocked p item now w = (case n of None \<Rightarrow> Inr w3 | Some next \<Rightarrow> Inr (armTimerLocked now (item\<lparr>it_DueAt := next\<rparr>) w3))"
    unfolding triggerDueLocked_def Let_def n_def [symmetric] w1_def [symmetric] item(1) l'(1) bindE_simps
    using closed by (cases n) (simp_all add: w3_def w1)
  have done': "gone i (facts w3)" if "\<not> it_Recurring item"
    using foldDue_active(2) [OF cur i] that item(2) by (simp add: w3(1) n_def)
  have old: "gone j (facts w) \<Longrightarrow> j \<noteq> i \<and> gone j (facts w3)" for j using live same [of j] by (cases "j = i") (auto simp: gone_def)
  have "once w3"
  proof -
    have o: "distinct (map it_ID (filter (\<lambda>x. \<not> it_Recurring x) (wd_delivered w)))"
      "\<And>x. x \<in> set (wd_delivered w) \<Longrightarrow> \<not> it_Recurring x \<Longrightarrow> it_ID x \<noteq> i \<and> gone (it_ID x) (facts w3)"
      using inv old by (auto simp: schedule_inv_def once_def)
    then show ?thesis using done' item(1) by (auto simp: once_def w3(4) w1(4))
  qed
  moreover have "timers_ok w3" using inv by (auto simp: schedule_inv_def timers_ok_def w3(2,3)) (auto simp: w3_def split: if_splits)
  moreover have cov: "covered (insert i X) w3"
    using inv closed same by (auto simp: schedule_inv_def covered_def w3(2))
  ultimately have inv3: "schedule_inv (insert i X) w3" by (simp add: schedule_inv_def w3_def)
  have later3: "later w w3" using old item(1) by (auto simp: later_def w3(4) w1(4))
  show ?thesis
  proof (cases "it_Recurring item")
    case False
    have "schedule_inv (X - {i}) w3" using inv3 done' [OF False] covered_gone by (simp add: schedule_inv_def)
    then show ?thesis using False closed later3 same by (auto simp: trigger n_def w3_def w1)
  next
    case True
    define next' where "next' = calculateNextDue p now (it_Interval item)"
    have n: "n = Some next'" using True by (simp add: n_def next'_def)
    have next': "now < next'" unfolding next'_def by (rule calculateNextDue_later)
    then obtain c where c: "facts w3 i = Some c" "\<not> it_Deleted c" "it_DueAt c = next'"
      using foldDue_active(3) [OF cur i, of next' now now] now by (auto simp: w3(1) n)
    let ?w = "armTimerLocked now (item\<lparr>it_DueAt := next'\<rparr>) w3"
    have "schedule_inv (X - {i}) ?w"
      using inv3 closed c next' item(1) by (intro arm_spec [where i = i and cur = c]) (simp_all add: w3_def w1)
    moreover have arm: "facts ?w = facts w3" "wd_delivered ?w = wd_delivered w3" "mn_closed (wd_manager ?w) = mn_closed (wd_manager w3)"
      "mn_deliverFn (wd_manager ?w) = mn_deliverFn (wd_manager w3)"
      by (simp_all add: armTimerLocked_def Let_def facts_def)
    ultimately show ?thesis using closed later3 same
      by (intro exI [of _ ?w]) (simp add: trigger n w3(4) w1(4) later_def, simp add: w3_def)
  qed
qed

section \<open>Every step keeps the invariant\<close>

lemma arm_parts:
  "facts (armTimerLocked now item w) = facts w" "wd_delivered (armTimerLocked now item w) = wd_delivered w"
  "mn_closed (wd_manager (armTimerLocked now item w)) = mn_closed (wd_manager w)"
  "mn_deliverFn (wd_manager (armTimerLocked now item w)) = mn_deliverFn (wd_manager w)"
  by (simp_all add: armTimerLocked_def Let_def facts_def)

lemma attach_item:
  assumes "schedule_inv (insert i X) w" and "\<not> mn_closed (wd_manager w)" and "active i = Some item"
    and "facts w i = Some item" and "\<not> it_Deleted item" and "0 < now"
  shows "\<exists>w'. attachItem p active now w i = Inr w' \<and> schedule_inv (X - {i}) w' \<and> \<not> mn_closed (wd_manager w')
    \<and> (\<forall>j. j \<noteq> i \<longrightarrow> facts w' j = facts w j) \<and> later w w'"
proof -
  have i: "it_ID item = i" using facts_keyed [of w] assms(4) by (simp add: keyed_def)
  show ?thesis
  proof (cases "it_DueAt item \<le> now")
    case True
    then show ?thesis using trigger_spec [OF assms(1,2,4,5) i refl assms(6), of p] by (auto simp: attachItem_def assms(3))
  next
    case False
    then have "schedule_inv (X - {i}) (armTimerLocked now item w)" using arm_spec [OF assms(1,2,4) i refl] by simp
    then show ?thesis using False assms(2) by (simp add: attachItem_def assms(3) arm_parts later_def)
  qed
qed

lemma attach_run:
  assumes "schedule_inv (set order) w" and "\<not> mn_closed (wd_manager w)" and "distinct order"
    and "\<And>i. i \<in> set order \<Longrightarrow> \<exists>item. active i = Some item \<and> facts w i = Some item \<and> \<not> it_Deleted item" and "0 < now"
  shows "\<exists>w'. run (attachItem p active now) w order = Inr w' \<and> schedule_inv {} w' \<and> \<not> mn_closed (wd_manager w') \<and> later w w'"
  using assms(1-4)
proof (induction order arbitrary: w)
  case Nil
  then show ?case by (simp add: later_refl)
next
  case (Cons i order)
  obtain item where item: "active i = Some item" "facts w i = Some item" "\<not> it_Deleted item" using Cons.prems(4) by auto
  have "schedule_inv (insert i (set order)) w" using Cons.prems(1) by simp
  from attach_item [of i "set order" w active item now p, OF this Cons.prems(2) item assms(5)] obtain v where v: "attachItem p active now w i = Inr v"
    "schedule_inv (set order - {i}) v" "\<not> mn_closed (wd_manager v)" "\<forall>j. j \<noteq> i \<longrightarrow> facts v j = facts w j" "later w v" by blast
  have i: "i \<notin> set order" "distinct order" using Cons.prems(3) by simp_all
  have "\<exists>item. active j = Some item \<and> facts v j = Some item \<and> \<not> it_Deleted item" if "j \<in> set order" for j
    using Cons.prems(4) [of j] that i(1) v(4) by (cases "j = i") auto
  from Cons.IH [OF _ v(3) i(2) this] v(2) i(1) obtain w' where "run (attachItem p active now) v order = Inr w'" "schedule_inv {} w'"
    "\<not> mn_closed (wd_manager w')" "later v w'" by auto
  with v(1,5) show ?case using later_trans by (auto simp: v(1))
qed

lemma timers_stopAll: "timers_ok w \<Longrightarrow> timers_ok ((stopAll w)\<lparr>wd_manager := m\<rparr>)" if "mn_timers m = Map.empty"
  using that by (auto simp: timers_ok_def stopAll_def split: option.splits if_splits)

lemma attach_spec:
  assumes "timers_ok w" and "enumerates order (Fold (Snapshot l))" and "0 < now"
    and "once (w\<lparr>wd_manager := (wd_manager w)\<lparr>mn_journal := Some l\<rparr>\<rparr>)"
  shows "\<exists>w'. Attach p (Some l) deliverFn order now w = Inr w' \<and> schedule_inv {} w' \<and> \<not> mn_closed (wd_manager w')
    \<and> later (w\<lparr>wd_manager := (wd_manager w)\<lparr>mn_journal := Some l\<rparr>\<rparr>) w'"
proof -
  define w1 where "w1 = (stopAll w)\<lparr>wd_manager := \<lparr>mn_journal = Some l, mn_deliverFn = deliverFn, mn_timers = Map.empty, mn_closed = False\<rparr>\<rparr>"
  have w1: "facts w1 = allItems (Snapshot l)" "wd_delivered w1 = wd_delivered w" "timers_ok w1"
    using timers_stopAll [OF _ assms(1)] by (simp_all add: w1_def facts_def stopAll_def)
  have dom: "\<exists>item. Fold (Snapshot l) i = Some item \<and> facts w1 i = Some item \<and> \<not> it_Deleted item" if "i \<in> set order" for i
  proof -
    have "i \<in> dom (Fold (Snapshot l))" using assms(2) that by (simp add: enumerates_def)
    then obtain item where "Fold (Snapshot l) i = Some item" by auto
    then show ?thesis by (auto simp: w1(1) Fold_Some)
  qed
  have "covered (set order) w1"
    unfolding covered_def
  proof (intro allI impI)
    fix i cur assume "i \<notin> set order" "facts w1 i = Some cur" "\<not> it_Deleted cur"
    then have "i \<in> dom (Fold (Snapshot l))" "i \<notin> dom (Fold (Snapshot l))"
      using assms(2) Fold_Some [of "Snapshot l" i cur] by (auto simp: enumerates_def w1(1))
    then show "\<exists>t x. wd_pool w1 t = Some x \<and> it_ID (tm_item x) = i \<and> (tm_fired x \<or> tm_at x \<le> it_DueAt cur)" by blast
  qed
  moreover have "once w1" using assms(4) unfolding once_def w1 by (simp add: facts_def)
  ultimately have "schedule_inv (set order) w1" using w1(3) by (simp add: schedule_inv_def w1_def)
  moreover have "\<not> mn_closed (wd_manager w1)" by (simp add: w1_def)
  ultimately obtain w' where "run (attachItem p (Fold (Snapshot l)) now) w1 order = Inr w'" "schedule_inv {} w'"
    "\<not> mn_closed (wd_manager w')" "later w1 w'"
    using attach_run [of order w1 "Fold (Snapshot l)" now p] dom assms(2,3) by (auto simp: enumerates_def)
  moreover have "later (w\<lparr>wd_manager := (wd_manager w)\<lparr>mn_journal := Some l\<rparr>\<rparr>) w1" unfolding later_def w1 by (simp add: facts_def)
  ultimately show ?thesis using later_trans by (auto simp: Attach_def w1_def [symmetric] Let_def)
qed

lemma create_spec:
  assumes inv: "schedule_inv {} w" and i: "i \<noteq> []" "facts w i = None" and now: "0 < now"
    and step: "Create p i prompt dueAt interval recurring now w = Inr (w', r)"
  shows "schedule_inv {} w' \<and> later w w'"
proof (cases "mn_closed (wd_manager w)")
  case True
  then show ?thesis using inv step by (simp add: Create_def later_refl)
next
  case False
  define item where "item = \<lparr>it_ID = i, it_Prompt = prompt, it_DueAt = dueAt, it_Interval = interval, it_Recurring = recurring,
    it_CreatedAt = now, it_UpdatedAt = now, it_LastDueAt = None, it_Deleted = False\<rparr>"
  define fact where "fact = \<lparr>scr_ID = i, scr_Prompt = prompt, scr_DueAt = dueAt, scr_Interval = interval, scr_Recurring = recurring\<rparr>"
  obtain l where l: "mn_journal (wd_manager w) = Some l" using inv by (auto simp: schedule_inv_def)
  from journal_create [OF l, of fact now] obtain l' where l': "journalize (AppendScheduleCreate fact now) w
      = Inr (w\<lparr>wd_manager := (wd_manager w)\<lparr>mn_journal := Some l'\<rparr>\<rparr>)" "allItems (Snapshot l') = foldCreate now (facts w) fact"
    by (auto simp: facts_def l)
  define w1 where "w1 = w\<lparr>wd_manager := (wd_manager w)\<lparr>mn_journal := Some l'\<rparr>\<rparr>"
  have w1: "facts w1 = (facts w)(i \<mapsto> item)" using i by (simp add: w1_def facts_def l' [unfolded facts_def] foldCreate_def fact_def item_def)
  have gone1: "gone j (facts w1) \<longleftrightarrow> gone j (facts w)" for j using i by (auto simp: gone_def w1 item_def)
  have "schedule_inv {i} w1" using inv False gone1
    by (simp add: schedule_inv_def once_def) (auto simp: w1_def timers_ok_def covered_def w1 [unfolded w1_def])
  moreover have "\<not> mn_closed (wd_manager w1)" using False by (simp add: w1_def)
  moreover have "facts w1 i = Some item" "\<not> it_Deleted item" "it_ID item = i" by (simp_all add: w1 item_def)
  ultimately have "\<exists>w2. (if dueAt \<le> now then triggerDueLocked p item now w1 else Inr (armTimerLocked now item w1)) = Inr w2
      \<and> schedule_inv {} w2 \<and> later w1 w2"
    using trigger_spec [of i "{}" w1 item item now p] arm_spec [of i "{}" w1 item item now] now
    by (auto simp: arm_parts later_def item_def)
  moreover have "Create p i prompt dueAt interval recurring now w = bindE (if dueAt \<le> now then triggerDueLocked p item now w1
      else Inr (armTimerLocked now item w1)) (\<lambda>w2. Inr (w2, Some item))"
    using False by (simp add: Create_def Let_def fact_def [symmetric] item_def [symmetric] l'(1) w1_def)
  ultimately have "schedule_inv {} w' \<and> later w1 w'" using step by auto
  moreover have "later w w1" using gone1 by (simp add: later_def w1_def)
  ultimately show ?thesis using later_trans by blast
qed

lemma delete_spec:
  assumes inv: "schedule_inv {} w" and step: "schedule_Delete i reason now w = Inr w'"
  shows "schedule_inv {} w' \<and> later w w' \<and> (i \<in> dom (facts w) \<longrightarrow> gone i (facts w'))"
proof -
  obtain l where l: "mn_journal (wd_manager w) = Some l" using inv by (auto simp: schedule_inv_def)
  define w1 where "w1 = (case mn_timers (wd_manager w) i of None \<Rightarrow> w
       | Some t \<Rightarrow> (stopTimer t w)\<lparr>wd_manager := (wd_manager w)\<lparr>mn_timers := (mn_timers (wd_manager w))(i := None)\<rparr>\<rparr>)"
  have w1: "mn_journal (wd_manager w1) = Some l" "mn_closed (wd_manager w1) = mn_closed (wd_manager w)" "wd_delivered w1 = wd_delivered w"
    by (auto simp: w1_def stopTimer_def l split: option.split)
  from journal_delete [OF w1(1), of i reason now] obtain l' where l': "w' = w1\<lparr>wd_manager := (wd_manager w1)\<lparr>mn_journal := Some l'\<rparr>\<rparr>"
    "allItems (Snapshot l') = foldDelete now (facts w) \<lparr>sdl_ID = i, sdl_Reason = reason\<rparr>"
    using step by (auto simp: schedule_Delete_def Let_def w1_def [symmetric] facts_def l)
  have w': "facts w' = foldDelete now (facts w) \<lparr>sdl_ID = i, sdl_Reason = reason\<rparr>" "wd_delivered w' = wd_delivered w"
    by (simp_all add: l' [unfolded facts_def] facts_def w1)
  have other: "facts w' j = facts w j" if "j \<noteq> i" for j using that by (simp add: w' foldDelete_def split: option.split)
  have own: "facts w i = None \<and> facts w' i = None \<or> gone i (facts w')"
    using facts_keyed [of w] by (auto simp: w' foldDelete_def gone_def keyed_def split: option.split)
  have gone': "gone j (facts w) \<Longrightarrow> gone j (facts w')" for j
    using own other [of j] by (cases "j = i") (auto simp: gone_def)
  have "timers_ok w'" using inv unfolding schedule_inv_def
    by (auto simp: l' w1_def timers_ok_def stopTimer_def split: option.splits if_splits)
  moreover have "covered {} w'" if open': "\<not> mn_closed (wd_manager w)"
  proof -
    have "covered {i} w'" unfolding covered_def
    proof (intro allI impI)
      fix j cur assume j: "j \<notin> {i}" "facts w' j = Some cur" "\<not> it_Deleted cur"
      then obtain t x where t: "wd_pool w t = Some x" "it_ID (tm_item x) = j" "tm_fired x \<or> tm_at x \<le> it_DueAt cur"
        using inv open' other [of j] unfolding schedule_inv_def covered_def by (metis empty_iff singletonI)
      have "mn_timers (wd_manager w) i \<noteq> Some t" using inv t(1,2) j(1) by (auto simp: schedule_inv_def timers_ok_def)
      then have "wd_pool w' t = Some x" using t(1) by (auto simp: l' w1_def stopTimer_def split: option.split)
      with t show "\<exists>t x. wd_pool w' t = Some x \<and> it_ID (tm_item x) = j \<and> (tm_fired x \<or> tm_at x \<le> it_DueAt cur)" by blast
    qed
    with covered_gone [of i "{}" w'] own show ?thesis by auto
  qed
  ultimately have "schedule_inv {} w'" using inv gone' by (auto simp: schedule_inv_def once_def w'(2)) (auto simp: l' w1)
  then show ?thesis using gone' own by (auto simp: later_def w'(2))
qed

text \<open>Taking a timer from the pool leaves its own reminder uncovered at most.\<close>

lemma drop_timer:
  assumes inv: "schedule_inv {} w" and x: "wd_pool w t = Some x"
  shows "schedule_inv {it_ID (tm_item x)} (w\<lparr>wd_pool := (wd_pool w)(t := None)\<rparr>)"
proof -
  let ?i = "it_ID (tm_item x)" and ?w = "w\<lparr>wd_pool := (wd_pool w)(t := None)\<rparr>"
  have f: "facts ?w = facts w" by (simp add: facts_def)
  have "covered {?i} ?w" if open': "\<not> mn_closed (wd_manager w)"
    unfolding covered_def f
  proof (intro allI impI)
    fix j cur assume j: "j \<notin> {?i}" "facts w j = Some cur" "\<not> it_Deleted cur"
    then obtain u y where u: "wd_pool w u = Some y" "it_ID (tm_item y) = j" "tm_fired y \<or> tm_at y \<le> it_DueAt cur"
      using inv open' unfolding schedule_inv_def covered_def by (metis empty_iff)
    with x j(1) have "wd_pool ?w u = Some y" by auto
    with u show "\<exists>t x. wd_pool ?w t = Some x \<and> it_ID (tm_item x) = j \<and> (tm_fired x \<or> tm_at x \<le> it_DueAt cur)" by blast
  qed
  moreover have "timers_ok ?w" using inv by (auto simp: schedule_inv_def timers_ok_def)
  ultimately show ?thesis using inv by (simp add: schedule_inv_def once_def f)
qed

lemma callback_spec:
  assumes inv: "schedule_inv {} w" and x: "wd_pool w t = Some x" and now: "0 < now" and step: "timerCallback p t x now w = Inr w'"
  shows "schedule_inv {} w' \<and> later w w'"
proof -
  obtain l where l: "mn_journal (wd_manager w) = Some l" using inv by (auto simp: schedule_inv_def)
  define w1 where "w1 = w\<lparr>wd_pool := (wd_pool w)(t := None)\<rparr>"
  have w1: "facts w1 = facts w" "wd_manager w1 = wd_manager w" "wd_delivered w1 = wd_delivered w" by (simp_all add: w1_def facts_def)
  let ?i = "it_ID (tm_item x)"
  have inv1: "schedule_inv {?i} w1" unfolding w1_def by (rule drop_timer [OF inv x])
  have later1: "later w w1" by (simp add: later_def w1)
  show ?thesis
  proof (cases "\<not> mn_closed (wd_manager w) \<and> (\<exists>cur. facts w ?i = Some cur \<and> \<not> it_Deleted cur)")
    case True
    then obtain cur where cur: "facts w ?i = Some cur" "\<not> it_Deleted cur" by blast
    then have "it_ID cur = ?i" using facts_keyed [of w] by (simp add: keyed_def)
    with trigger_spec [of ?i "{}" w1 cur cur now p] inv1 True cur now obtain w2 where
      "triggerDueLocked p cur now w1 = Inr w2" "schedule_inv {} w2" "later w1 w2" by (auto simp: w1)
    moreover have "timerCallback p t x now w = triggerDueLocked p cur now w1"
      using True cur by (simp add: timerCallback_def Let_def w1_def [symmetric] w1 l) (simp add: facts_def l Fold_def)
    ultimately show ?thesis using step later_trans [OF later1] by auto
  next
    case False
    then have "w' = w1" using step Fold_Some [of "Snapshot l" ?i]
      by (auto simp: timerCallback_def Let_def w1_def [symmetric] w1 l facts_def split: if_splits option.splits)
    moreover have "schedule_inv {} w1"
    proof (cases "mn_closed (wd_manager w)")
      case True
      then show ?thesis using inv1 by (simp add: schedule_inv_def w1)
    next
      case open': False
      then have "gone ?i (facts w1) \<or> facts w1 ?i = None" using False by (auto simp: gone_def w1)
      then show ?thesis using inv1 covered_gone [of ?i "{}" w1] by (auto simp: schedule_inv_def)
    qed
    ultimately show ?thesis using later1 by simp
  qed
qed

lemma fire_spec:
  assumes "schedule_inv {} w" and x: "wd_pool w t = Some x"
  shows "schedule_inv {} (w\<lparr>wd_pool := (wd_pool w)(t \<mapsto> x\<lparr>tm_fired := True\<rparr>)\<rparr>)"
proof -
  let ?w = "w\<lparr>wd_pool := (wd_pool w)(t \<mapsto> x\<lparr>tm_fired := True\<rparr>)\<rparr>"
  have f: "facts ?w = facts w" by (simp add: facts_def)
  have "covered {} ?w" if "covered {} w"
    unfolding covered_def f
  proof (intro allI impI)
    fix j cur assume "j \<notin> {}" "facts w j = Some cur" "\<not> it_Deleted cur"
    then obtain u y where "wd_pool w u = Some y" "it_ID (tm_item y) = j" "tm_fired y \<or> tm_at y \<le> it_DueAt cur"
      using \<open>covered {} w\<close> unfolding covered_def by blast
    then show "\<exists>u y. wd_pool ?w u = Some y \<and> it_ID (tm_item y) = j \<and> (tm_fired y \<or> tm_at y \<le> it_DueAt cur)"
      using x by (intro exI [of _ u]) auto
  qed
  moreover have "timers_ok ?w" if "timers_ok w" using that x by (auto simp: timers_ok_def)
  ultimately show ?thesis using assms(1) by (simp add: schedule_inv_def once_def f)
qed

lemma step_spec:
  assumes "schedule_step p w w'" and inv: "schedule_inv {} w"
  shows "schedule_inv {} w' \<and> later w w'"
  using assms(1)
proof cases
  case (reattach l order now deliverFn)
  have w: "w\<lparr>wd_manager := (wd_manager w)\<lparr>mn_journal := Some l\<rparr>\<rparr> = w" using reattach(1) by (cases w; cases "wd_manager w") simp
  from attach_spec [of w order l now p deliverFn] reattach inv show ?thesis by (auto simp: w schedule_inv_def)
next
  case close
  then show ?thesis using inv timers_stopAll [of "(wd_manager w)\<lparr>mn_closed := True, mn_timers := Map.empty\<rparr>" w]
    by (simp add: Close_def schedule_inv_def once_def later_def facts_def stopAll_def)
next
  case (fire t x now)
  then show ?thesis using fire_spec [OF inv fire(2)] by (simp add: later_def facts_def)
next
  case (other l ty data now l')
  then have "allItems (Snapshot l') = allItems (Snapshot l)"
    by (auto simp: Append_def appendWithFlags_def allItems_push fold_other split: if_splits)
  then have "facts w' = facts w" using other by (simp add: facts_def)
  then show ?thesis using inv unfolding other(1)
    by (auto simp: schedule_inv_def once_def later_def timers_ok_def covered_def)
next
  case create
  then show ?thesis using create_spec [OF inv] by blast
next
  case delete
  then show ?thesis using delete_spec [OF inv] by blast
next
  case callback
  then show ?thesis using callback_spec [OF inv] by blast
qed

lemma steps_spec: "(schedule_step p)\<^sup>*\<^sup>* w w' \<Longrightarrow> schedule_inv {} w \<Longrightarrow> schedule_inv {} w' \<and> later w w'"
proof (induction rule: rtranclp_induct)
  case (step v w')
  then show ?case using step_spec later_trans by blast
qed (simp add: later_refl)

text \<open>The worlds a session reaches after it attached its log to a new manager.\<close>

definition session_reaches :: "(string \<Rightarrow> int option) \<Rightarrow> Log \<Rightarrow> world \<Rightarrow> bool" where
  "session_reaches p l w \<longleftrightarrow> (\<exists>deliverFn order now w0. enumerates order (Fold (Snapshot l)) \<and> 0 < now
     \<and> Attach p (Some l) deliverFn order now start = Inr w0 \<and> (schedule_step p)\<^sup>*\<^sup>* w0 w)"

lemma session_inv:
  assumes "session_reaches p l w"
  shows "schedule_inv {} w"
proof -
  have "timers_ok start" "once (start\<lparr>wd_manager := (wd_manager start)\<lparr>mn_journal := Some l\<rparr>\<rparr>)"
    by (simp_all add: timers_ok_def once_def start_def NewManager_def)
  with assms attach_spec [of start _ l _ p] steps_spec show ?thesis unfolding session_reaches_def by (metis sum.inject(2))
qed

text \<open>
  C11. However creations, deletions, closings, attachments, timers and late callbacks interleave, a reminder that is not
  recurring is delivered at most once, and after that it is not active any more.
\<close>

theorem one_shot_delivered_once:
  assumes "session_reaches p l w"
  shows "distinct (map it_ID (filter (\<lambda>x. \<not> it_Recurring x) (wd_delivered w)))
    \<and> (\<forall>x \<in> set (wd_delivered w). \<not> it_Recurring x \<longrightarrow> gone (it_ID x) (facts w))"
  using session_inv [OF assms] by (simp add: schedule_inv_def once_def)

text \<open>
  A deleted reminder is silent: whatever happens afterwards, a timer that had fired already included, it is not delivered
  again and stays deleted.
\<close>

theorem deleted_reminders_silent:
  assumes "session_reaches p l w" and "i \<in> dom (facts w)" and "schedule_Delete i reason now w = Inr w1"
    and "(schedule_step p)\<^sup>*\<^sup>* w1 w2"
  shows "filter (\<lambda>x. it_ID x = i) (wd_delivered w2) = filter (\<lambda>x. it_ID x = i) (wd_delivered w) \<and> gone i (facts w2)"
proof -
  have w1: "schedule_inv {} w1" "gone i (facts w1)" using delete_spec [OF session_inv [OF assms(1)] assms(3)] assms(2) by blast+
  have "wd_delivered w1 = wd_delivered w"
    using assms(3) by (auto simp: schedule_Delete_def Let_def journalize_def bindE_Inr stopTimer_def split: option.splits if_splits)
  then show ?thesis using steps_spec [OF assms(4) w1(1)] w1(2) by (auto simp: later_def)
qed

text \<open>
  C15. No reminder is lost: while the manager is open and has a sink, an active reminder that is due can always be delivered,
  as its timer has fired or fires now and its callback finds the reminder in the log.
\<close>

theorem no_reminder_lost:
  assumes "session_reaches p l w" and "\<not> mn_closed (wd_manager w)" and "mn_deliverFn (wd_manager w)"
    and "mn_journal (wd_manager w) = Some l'" and "Fold (Snapshot l') i = Some item" and "it_DueAt item \<le> now" and "0 < now"
  shows "\<exists>w'. (schedule_step p)\<^sup>*\<^sup>* w w' \<and> wd_delivered w' = wd_delivered w @ [item]"
proof -
  have inv: "schedule_inv {} w" by (rule session_inv [OF assms(1)])
  have item: "facts w i = Some item" "\<not> it_Deleted item" using assms(4,5) Fold_Some by (auto simp: facts_def)
  with inv assms(2) obtain t x where t: "wd_pool w t = Some x" "it_ID (tm_item x) = i" "tm_fired x \<or> tm_at x \<le> it_DueAt item"
    unfolding schedule_inv_def covered_def by blast
  define v where "v = w\<lparr>wd_pool := (wd_pool w)(t \<mapsto> x\<lparr>tm_fired := True\<rparr>)\<rparr>"
  have v: "(schedule_step p)\<^sup>*\<^sup>* w v"
  proof (cases "tm_fired x")
    case True
    then have "v = w" using t(1) by (cases x) (simp add: v_def map_upd_triv)
    then show ?thesis by simp
  next
    case False
    then show ?thesis using t assms(6) unfolding v_def by (intro r_into_rtranclp schedule_step.fire [where now = now]) auto
  qed
  have inv_v: "schedule_inv {} v" "wd_manager v = wd_manager w" "wd_delivered v = wd_delivered w" "facts v = facts w"
    using fire_spec [OF inv t(1)] by (simp_all add: v_def facts_def)
  define v1 where "v1 = v\<lparr>wd_pool := (wd_pool v)(t := None)\<rparr>"
  have v1m: "wd_manager v1 = wd_manager w" by (simp add: v1_def inv_v(2))
  have inv_v1: "schedule_inv {i} v1"
    using drop_timer [OF inv_v(1), of t "x\<lparr>tm_fired := True\<rparr>"] t(2) by (simp add: v1_def v_def)
  have "it_ID item = i" using facts_keyed [of w] item(1) by (simp add: keyed_def)
  then obtain w' where w': "triggerDueLocked p item now v1 = Inr w'" "wd_delivered w' = wd_delivered w @ [item]"
    using trigger_spec [of i "{}" v1 item item now p] inv_v1 assms(2,3,7) item inv_v by (auto simp: v1_def facts_def)
  have "timerCallback p t (x\<lparr>tm_fired := True\<rparr>) now v = Inr w'"
    unfolding timerCallback_def Let_def v1_def [symmetric] v1m using assms(2,4,5) t(2) w'(1) item(2) by simp
  then have "schedule_step p v w'"
    using assms(7) by (intro schedule_step.callback [of v t "x\<lparr>tm_fired := True\<rparr>" now]) (simp_all add: v_def)
  with v w'(2) show ?thesis by (meson rtranclp.rtrancl_into_rtrancl)
qed

text \<open>A log with one reminder, attached before it is due.\<close>

definition sampleItem :: Item where
  "sampleItem = \<lparr>it_ID = ''s'', it_Prompt = ''p'', it_DueAt = 10, it_Interval = [], it_Recurring = False, it_CreatedAt = 3,
     it_UpdatedAt = 3, it_LastDueAt = None, it_Deleted = False\<rparr>"

definition sampleLog :: Log where
  "sampleLog = push \<lparr>ev_Type = ScheduleCreate, ev_Seq = 1, ev_At = 3, ev_Data = DScheduleCreate
     \<lparr>scr_ID = ''s'', scr_Prompt = ''p'', scr_DueAt = 10, scr_Interval = [], scr_Recurring = False\<rparr>, ev_Ignorable = False,
     ev_SurfaceOp = None, ev_SourceEventSeqs = None\<rparr> (New False)"

definition sampleWorld :: world where
  "sampleWorld = \<lparr>wd_manager = \<lparr>mn_journal = Some sampleLog, mn_deliverFn = True, mn_timers = [''s'' \<mapsto> 0], mn_closed = False\<rparr>,
     wd_pool = [0 \<mapsto> \<lparr>tm_item = sampleItem, tm_at = 10, tm_fired = False\<rparr>], wd_next = 1, wd_delivered = []\<rparr>"

lemma sample_fold: "allItems (Snapshot sampleLog) = [''s'' \<mapsto> sampleItem]" "Fold (Snapshot sampleLog) = [''s'' \<mapsto> sampleItem]"
proof -
  show a: "allItems (Snapshot sampleLog) = [''s'' \<mapsto> sampleItem]"
    unfolding sampleLog_def allItems_push fold_own by (simp add: allItems_def New_def Snapshot_def foldCreate_def sampleItem_def)
  show "Fold (Snapshot sampleLog) = [''s'' \<mapsto> sampleItem]" by (auto simp: Fold_def a sampleItem_def split: option.split)
qed

lemma sample_reaches: "session_reaches (\<lambda>_. None) sampleLog sampleWorld"
proof -
  have "Attach (\<lambda>_. None) (Some sampleLog) True [''s''] 5 start = Inr sampleWorld"
    by (simp add: Attach_def Let_def attachItem_def sample_fold armTimerLocked_def time_Sub_def sat64_def sampleWorld_def start_def
      stopAll_def NewManager_def) (simp add: sampleItem_def)
  moreover have "enumerates [''s''] (Fold (Snapshot sampleLog))" by (simp add: enumerates_def sample_fold)
  ultimately show ?thesis unfolding session_reaches_def
    by (intro exI [of _ True] exI [of _ "[''s'']"] exI [of _ 5] exI [of _ sampleWorld]) simp
qed

theorem one_shot_delivered_once_witness:
  "\<exists>w. session_reaches (\<lambda>_. None) sampleLog w \<and> wd_delivered w = [sampleItem]
    \<and> distinct (map it_ID (filter (\<lambda>x. \<not> it_Recurring x) (wd_delivered w))) \<and> gone ''s'' (facts w)"
proof -
  have "Attach (\<lambda>_. None) (Some sampleLog) True [''s''] 12 start = triggerDueLocked (\<lambda>_. None) sampleItem 12
      \<lparr>wd_manager = \<lparr>mn_journal = Some sampleLog, mn_deliverFn = True, mn_timers = Map.empty, mn_closed = False\<rparr>,
       wd_pool = Map.empty, wd_next = 0, wd_delivered = []\<rparr>"
    by (simp add: Attach_def Let_def attachItem_def sample_fold start_def stopAll_def NewManager_def split: sum.split) (simp add: sampleItem_def)
  then obtain w where w: "Attach (\<lambda>_. None) (Some sampleLog) True [''s''] 12 start = Inr w" "wd_delivered w = [sampleItem]"
    by (simp add: triggerDueLocked_def Let_def journalize_def AppendScheduleDue_def with_log_def Append_eq Known_iff sampleItem_def)
  have "session_reaches (\<lambda>_. None) sampleLog w" unfolding session_reaches_def
    by (intro exI [of _ True] exI [of _ "[''s'']"] exI [of _ 12] exI [of _ w]) (simp add: w(1) enumerates_def sample_fold)
  moreover have "it_ID sampleItem = ''s''" "\<not> it_Recurring sampleItem" by (simp_all add: sampleItem_def)
  ultimately show ?thesis using one_shot_delivered_once [of "\<lambda>_. None" sampleLog w] w(2) by (intro exI [of _ w]) simp
qed

theorem deleted_reminders_silent_witness:
  "\<exists>w1. schedule_Delete ''s'' [] 6 sampleWorld = Inr w1 \<and> gone ''s'' (facts w1)"
proof -
  have "\<exists>w1. schedule_Delete ''s'' [] 6 sampleWorld = Inr w1"
    by (simp add: schedule_Delete_def Let_def journalize_def AppendScheduleDelete_def with_log_def Append_eq Known_iff sampleWorld_def stopTimer_def)
  then obtain w1 where w1: "schedule_Delete ''s'' [] 6 sampleWorld = Inr w1" ..
  have "''s'' \<in> dom (facts sampleWorld)" by (simp add: facts_def sampleWorld_def sample_fold)
  from deleted_reminders_silent [OF sample_reaches this w1 rtranclp.rtrancl_refl] w1 show ?thesis by blast
qed

theorem no_reminder_lost_witness:
  "\<exists>w'. (schedule_step (\<lambda>_. None))\<^sup>*\<^sup>* sampleWorld w' \<and> wd_delivered w' = wd_delivered sampleWorld @ [sampleItem]"
  by (rule no_reminder_lost [OF sample_reaches, of sampleLog "''s''" sampleItem 12])
    (simp_all add: sampleWorld_def sample_fold, simp add: sampleItem_def)

end
