(* ===== verification/Compaction.thy ===== *)
theory Compaction
  imports Go_Json
begin

text \<open>
  Reducing a conversation that outgrows the context window: \<open>internal/engine/compact\<close> (\<open>strategy.go\<close>, \<open>micro.go\<close>,
  \<open>session_memory.go\<close>), \<open>internal/engine/compact_clear.go\<close>, the truncation and the summary of \<open>internal/engine/engine.go\<close>
  and \<open>compact.go\<close>, and \<open>ApplyCompaction\<close> of \<open>persistence_service.go\<close>. The tokenizer, the text of an argument that is not a string, and the summary of the language model are
  arguments.
\<close>

section \<open>Messages\<close>

record eyrie_ToolCall =
  ec_ID :: string
  ec_Name :: string
  ec_Arguments :: "members option"

record eyrie_ToolResult =
  er_ToolUseID :: string
  er_Content :: string
  er_IsError :: bool

record ImageURLPart =
  ip_URL :: string
  ip_Detail :: string

record InputAudioPart =
  ia_Data :: string
  ia_Format :: string

record ContentPart =
  pa_Type :: string
  pa_Text :: string
  pa_ImageURL :: "ImageURLPart option"
  pa_InputAudio :: "InputAudioPart option"

record EyrieMessage =
  em_Role :: string
  em_Content :: string
  em_Thinking :: string
  em_Images :: "string list"
  em_ContentParts :: "ContentPart list"
  em_ToolUse :: "eyrie_ToolCall list"
  em_ToolResults :: "eyrie_ToolResult list"

definition textMessage :: "string \<Rightarrow> string \<Rightarrow> EyrieMessage" where
  "textMessage role content = \<lparr>em_Role = role, em_Content = content, em_Thinking = [], em_Images = [], em_ContentParts = [],
     em_ToolUse = [], em_ToolResults = []\<rparr>"

definition argumentTokens :: "(string \<Rightarrow> int) \<Rightarrow> (json \<Rightarrow> string) \<Rightarrow> json \<Rightarrow> int" where
  "argumentTokens CountTokens jsonText v = (case v of JStr s \<Rightarrow> CountTokens s | _ \<Rightarrow> CountTokens (jsonText v))"

definition EstimateMessageTokens :: "(string \<Rightarrow> int) \<Rightarrow> (json \<Rightarrow> string) \<Rightarrow> EyrieMessage \<Rightarrow> int" where
  "EstimateMessageTokens CountTokens jsonText m = CountTokens (em_Content m)
     + (\<Sum>tc \<leftarrow> em_ToolUse m. CountTokens (ec_Name tc) + (\<Sum>(_, v) \<leftarrow> (case ec_Arguments tc of None \<Rightarrow> [] | Some args \<Rightarrow> args). argumentTokens CountTokens jsonText v))
     + (\<Sum>tr \<leftarrow> em_ToolResults m. CountTokens (er_Content tr))"

definition EstimateTokens :: "(string \<Rightarrow> int) \<Rightarrow> (json \<Rightarrow> string) \<Rightarrow> EyrieMessage list \<Rightarrow> int" where
  "EstimateTokens CountTokens jsonText msgs = (\<Sum>m \<leftarrow> msgs. EstimateMessageTokens CountTokens jsonText m)"

section \<open>Where a conversation may be cut\<close>

definition HasTextContent :: "EyrieMessage \<Rightarrow> bool" where
  "HasTextContent m = (if em_ToolResults m \<noteq> [] then False else TrimSpace (em_Content m) \<noteq> [])"

text \<open>The number of result messages that follow, up to \<open>n\<close>.\<close>

fun resultsFollowing :: "nat \<Rightarrow> EyrieMessage list \<Rightarrow> nat" where
  "resultsFollowing n [] = 0"
| "resultsFollowing n (m # ms) = (if n = 0 \<or> em_ToolResults m = [] then 0 else Suc (resultsFollowing (n - 1) ms))"

fun adjustLoop :: "EyrieMessage list \<Rightarrow> nat \<Rightarrow> nat" where
  "adjustLoop msgs 0 = 0"
| "adjustLoop msgs (Suc idx) = (let msg = msgs ! Suc idx in
     if em_ToolResults msg \<noteq> [] then adjustLoop msgs idx
     else if em_Role msg = ''assistant'' \<and> em_ToolUse msg \<noteq> []
       \<and> resultsFollowing (length (em_ToolUse msg)) (drop (Suc (Suc idx)) msgs) < length (em_ToolUse msg) then adjustLoop msgs idx
     else Suc idx)"

definition AdjustIndexToPreserveAPIInvariants :: "EyrieMessage list \<Rightarrow> int \<Rightarrow> nat" where
  "AdjustIndexToPreserveAPIInvariants msgs startIdx =
    (if startIdx \<le> 0 then 0 else if int (length msgs) \<le> startIdx then length msgs else adjustLoop msgs (nat startIdx))"

record SessionMemoryConfig =
  mc_MinTokens :: int
  mc_MinTextBlockMessages :: int
  mc_MaxTokens :: int

definition DefaultSessionMemoryConfig :: SessionMemoryConfig where
  "DefaultSessionMemoryConfig = \<lparr>mc_MinTokens = 10000, mc_MinTextBlockMessages = 5, mc_MaxTokens = 40000\<rparr>"

text \<open>The loop from the end: \<open>k\<close> messages are left before the one looked at, counts so far.\<close>

fun keepLoop :: "(EyrieMessage \<Rightarrow> int) \<Rightarrow> SessionMemoryConfig \<Rightarrow> EyrieMessage list \<Rightarrow> nat \<Rightarrow> int \<Rightarrow> int \<Rightarrow> nat" where
  "keepLoop est cfg msgs 0 tokenCount textBlocks = 0"
| "keepLoop est cfg msgs (Suc idx) tokenCount textBlocks = (let m = msgs ! idx;
       tokens = tokenCount + est m; texts = textBlocks + (if HasTextContent m then 1 else 0) in
     if mc_MinTokens cfg \<le> tokens \<and> mc_MinTextBlockMessages cfg \<le> texts then idx
     else if mc_MaxTokens cfg \<le> tokens then idx
     else keepLoop est cfg msgs idx tokens texts)"

definition CalculateMessagesToKeepIndex :: "(EyrieMessage \<Rightarrow> int) \<Rightarrow> EyrieMessage list \<Rightarrow> SessionMemoryConfig \<Rightarrow> nat" where
  "CalculateMessagesToKeepIndex est msgs cfg = keepLoop est cfg msgs (length msgs) 0 0"

definition IsCompactBoundary :: "EyrieMessage \<Rightarrow> bool" where
  "IsCompactBoundary m = (em_Role m = ''user'' \<and> (HasPrefix (em_Content m) ''[Session memory summary]''
     \<or> HasPrefix (em_Content m) ''[Conversation summary]'' \<or> HasPrefix (em_Content m) ''[Earlier conversation compacted''))"

definition FilterCompactBoundaries :: "EyrieMessage list \<Rightarrow> EyrieMessage list" where
  "FilterCompactBoundaries msgs = filter (\<lambda>m. \<not> IsCompactBoundary m) msgs"

datatype compactError = ErrMemoryRead | ErrMemoryEmpty | ErrNotEnough | ErrNoSession | ErrNativeUnavailable | ErrNativeFailed

text \<open>The strategy that replaces all but the recent messages by the session's memory file.\<close>

definition sessionMemoryCompact :: "(EyrieMessage \<Rightarrow> int) \<Rightarrow> string option \<Rightarrow> EyrieMessage list \<Rightarrow> compactError + EyrieMessage list" where
  "sessionMemoryCompact est memory messages = (case memory of
     None \<Rightarrow> Inl ErrMemoryRead
   | Some mem \<Rightarrow> if TrimSpace mem = [] then Inl ErrMemoryEmpty
     else let keepIdx = AdjustIndexToPreserveAPIInvariants messages (int (CalculateMessagesToKeepIndex est messages DefaultSessionMemoryConfig)) in
       if int (length messages) - 2 \<le> int keepIdx then Inl ErrNotEnough
       else Inr ([textMessage ''user'' (''[Session memory summary]'' @ [CHR 10] @ mem @ [CHR 10, CHR 10] @ ''[Continue from the recent messages below.]''),
           textMessage ''assistant'' ''Understood. I have the context from the session memory above. Continuing with the recent conversation.'']
         @ FilterCompactBoundaries (drop keepIdx messages)))"

section \<open>Truncation\<close>

definition compactBoundaryKeepEnd :: int where
  "compactBoundaryKeepEnd = 16"

definition smartCompactKeepEnd :: int where
  "smartCompactKeepEnd = 10"

text \<open>Whether the context is done when a position is looked at is the argument \<open>err\<close>; \<open>None\<close> is the early return.\<close>

function cutEndLoop :: "(nat \<Rightarrow> bool) \<Rightarrow> EyrieMessage list \<Rightarrow> nat \<Rightarrow> nat option" where
  "cutEndLoop err raw cutEnd = (if length raw \<le> cutEnd then Some cutEnd
     else if err cutEnd then None
     else if em_ToolResults (raw ! cutEnd) \<noteq> [] then cutEndLoop err raw (cutEnd + 1)
     else if em_Role (raw ! cutEnd) = ''assistant'' \<and> em_ToolUse (raw ! cutEnd) \<noteq> [] then cutEndLoop err raw (cutEnd + 1)
     else Some cutEnd)"
  by pat_completeness auto
termination by (relation "measure (\<lambda>(_, raw, cutEnd). length raw - cutEnd)") auto

declare cutEndLoop.simps [simp del]

function skipResults :: "EyrieMessage list \<Rightarrow> nat \<Rightarrow> nat \<Rightarrow> nat" where
  "skipResults raw cutEnd cutStart = (if cutStart < cutEnd \<and> em_ToolResults (raw ! cutStart) \<noteq> [] then skipResults raw cutEnd (cutStart + 1) else cutStart)"
  by pat_completeness auto
termination by (relation "measure (\<lambda>(_, cutEnd, cutStart). cutEnd - cutStart)") auto

declare skipResults.simps [simp del]

lemma skipResults_le: "cutStart \<le> skipResults raw cutEnd cutStart"
proof (induction raw cutEnd cutStart rule: skipResults.induct)
  case (1 raw cutEnd cutStart)
  then show ?case by (subst skipResults.simps) auto
qed

function cutStartLoop :: "(nat \<Rightarrow> bool) \<Rightarrow> EyrieMessage list \<Rightarrow> nat \<Rightarrow> nat \<Rightarrow> nat option" where
  "cutStartLoop err raw cutEnd cutStart = (if cutEnd \<le> cutStart then Some cutStart
     else if err cutStart then None
     else if em_ToolResults (raw ! cutStart) \<noteq> [] then cutStartLoop err raw cutEnd (cutStart + 1)
     else if em_Role (raw ! cutStart) = ''assistant'' \<and> em_ToolUse (raw ! cutStart) \<noteq> []
       then cutStartLoop err raw cutEnd (skipResults raw cutEnd (cutStart + 1))
     else Some cutStart)"
  by pat_completeness auto
termination
proof (relation "measure (\<lambda>(_, _, cutEnd, cutStart). cutEnd - cutStart)", goal_cases)
  case (3 err raw cutEnd cutStart)
  then show ?case using skipResults_le [of "cutStart + 1" raw cutEnd] by simp
qed auto

declare cutStartLoop.simps [simp del]

text \<open>The new messages, or \<open>None\<close> where the conversation is left alone.\<close>

definition truncated :: "(nat \<Rightarrow> bool) \<Rightarrow> (nat \<Rightarrow> bool) \<Rightarrow> int \<Rightarrow> EyrieMessage list \<Rightarrow> EyrieMessage list option" where
  "truncated errEnd errStart pinned raw =
    (let keepEnd = (if compactBoundaryKeepEnd < pinned then pinned else compactBoundaryKeepEnd) in
     if int (length raw) \<le> keepEnd + 4 then None
     else case cutEndLoop errEnd raw (nat (int (length raw) - keepEnd)) of None \<Rightarrow> None
       | Some cutEnd \<Rightarrow> (case cutStartLoop errStart raw cutEnd 4 of None \<Rightarrow> None
         | Some cutStart \<Rightarrow> if cutEnd \<le> cutStart then None
           else Some (take cutStart raw @ [textMessage ''user'' ''[Earlier conversation compacted to save context.]''] @ drop cutEnd raw)))"

text \<open>Messages that were appended since the snapshot are kept behind the compacted ones.\<close>

definition ApplyCompaction :: "EyrieMessage list \<Rightarrow> EyrieMessage list \<Rightarrow> int \<Rightarrow> EyrieMessage list" where
  "ApplyCompaction messages keep snapshotLen =
    (if 0 \<le> snapshotLen \<and> snapshotLen < int (length messages) then keep @ drop (nat snapshotLen) messages else keep)"

definition session_compact :: "(nat \<Rightarrow> bool) \<Rightarrow> (nat \<Rightarrow> bool) \<Rightarrow> int \<Rightarrow> EyrieMessage list \<Rightarrow> EyrieMessage list \<Rightarrow> EyrieMessage list" where
  "session_compact errEnd errStart pinned raw messages = (case truncated errEnd errStart pinned raw of None \<Rightarrow> messages
   | Some keep \<Rightarrow> ApplyCompaction messages keep (int (length raw)))"

text \<open>
  The compaction by summary: \<open>None\<close> where nothing is done. An empty summary falls back to the truncation. The files
  block is what the tracker formats.
\<close>

definition summarized :: "int \<Rightarrow> string \<Rightarrow> string \<Rightarrow> EyrieMessage list \<Rightarrow> EyrieMessage list option" where
  "summarized pinned summary fileBlock raw =
    (let keepEnd = (if smartCompactKeepEnd < pinned then pinned else smartCompactKeepEnd);
         text = summary @ (if fileBlock \<noteq> [] then [CHR 10, CHR 10] @ fileBlock else []);
         tail = drop (nat (int (length raw) - keepEnd)) raw
     in if length raw \<le> 20 \<or> int (length raw) \<le> keepEnd then None
        else Some ([textMessage ''user'' (''[Conversation summary]'' @ [CHR 10] @ text @ [CHR 10, CHR 10] @ ''[Continue from the recent messages below.]'')]
          @ (if tail = [] \<or> em_Role (hd tail) \<noteq> ''assistant''
             then [textMessage ''assistant'' ''Understood. I have the context from the summary above. Continuing.''] else [])
          @ tail))"

definition smartCompactBody :: "(nat \<Rightarrow> bool) \<Rightarrow> (nat \<Rightarrow> bool) \<Rightarrow> int \<Rightarrow> string \<Rightarrow> string \<Rightarrow> EyrieMessage list \<Rightarrow> EyrieMessage list" where
  "smartCompactBody errEnd errStart pinned summary fileBlock raw = (case summarized pinned summary fileBlock raw of
     None \<Rightarrow> raw
   | Some keep \<Rightarrow> if summary = [] then session_compact errEnd errStart pinned raw raw else ApplyCompaction raw keep (int (length raw)))"

section \<open>Clearing tool results\<close>

definition compactableTools :: "string list" where
  "compactableTools = [''Bash'', ''Read'', ''Grep'', ''Glob'', ''WebFetch'', ''WebSearch'', ''Edit'', ''Write'', ''LS'', ''ToolSearch'']"

definition IsCompactableTool :: "string \<Rightarrow> bool" where
  "IsCompactableTool name = (name \<in> set compactableTools)"

record MicroCompactConfig =
  mi_CompactableTools :: "string list"
  mi_KeepRecent :: int

definition DefaultMicroCompactConfig :: MicroCompactConfig where
  "DefaultMicroCompactConfig = \<lparr>mi_CompactableTools = compactableTools, mi_KeepRecent = 3\<rparr>"

text \<open>The last message with a call of the id, and the first such call in it.\<close>

definition ToolNameForResult :: "EyrieMessage \<Rightarrow> EyrieMessage list \<Rightarrow> string" where
  "ToolNameForResult m msgs = (case em_ToolResults m of [] \<Rightarrow> []
   | r # _ \<Rightarrow> (case find (\<lambda>tc. ec_ID tc = er_ToolUseID r) (concat (map em_ToolUse (rev msgs))) of
       Some tc \<Rightarrow> ec_Name tc | None \<Rightarrow> []))"

definition oldContentCleared :: string where
  "oldContentCleared = ''[Old tool result content cleared]''"

definition clearedMessage :: "EyrieMessage \<Rightarrow> EyrieMessage" where
  "clearedMessage m = (textMessage (em_Role m) [])\<lparr>em_ToolResults := map (\<lambda>tr. tr\<lparr>er_Content := oldContentCleared\<rparr>) (em_ToolResults m)\<rparr>"

definition compactableResults :: "MicroCompactConfig \<Rightarrow> EyrieMessage list \<Rightarrow> nat list" where
  "compactableResults cfg msgs = filter (\<lambda>i. em_ToolResults (msgs ! i) \<noteq> [] \<and> ToolNameForResult (msgs ! i) msgs \<in> set (mi_CompactableTools cfg))
     [0..<length msgs]"

definition MicrocompactMessages :: "EyrieMessage list \<Rightarrow> MicroCompactConfig \<Rightarrow> EyrieMessage list" where
  "MicrocompactMessages msgs cfg = (let rs = compactableResults cfg msgs in
     if int (length rs) \<le> mi_KeepRecent cfg then msgs
     else let clearSet = set (take (nat (int (length rs) - mi_KeepRecent cfg)) rs) in
       map (\<lambda>i. if i \<in> clearSet then clearedMessage (msgs ! i) else msgs ! i) [0..<length msgs])"

definition clearKeepRecent :: nat where
  "clearKeepRecent = 4"

definition outputClearedPlaceholder :: string where
  "outputClearedPlaceholder = ''[output cleared]''"

definition toolResultBytes :: "EyrieMessage \<Rightarrow> nat" where
  "toolResultBytes m = (\<Sum>tr \<leftarrow> em_ToolResults m. length (er_Content tr))"

text \<open>Go's division truncates towards zero.\<close>

definition quot4 :: "int \<Rightarrow> int" where
  "quot4 n = (if n < 0 then - ((- n) div 4) else n div 4)"

definition clearable :: "eyrie_ToolResult \<Rightarrow> bool" where
  "clearable tr = (er_Content tr \<noteq> [] \<and> er_Content tr \<noteq> outputClearedPlaceholder)"

definition clearMessageToolResults :: "EyrieMessage \<Rightarrow> EyrieMessage \<times> int" where
  "clearMessageToolResults m =
    (m\<lparr>em_ToolResults := map (\<lambda>tr. if clearable tr then tr\<lparr>er_Content := outputClearedPlaceholder\<rparr> else tr) (em_ToolResults m)\<rparr>,
     quot4 (\<Sum>tr \<leftarrow> filter clearable (em_ToolResults m). int (length (er_Content tr)) - int (length outputClearedPlaceholder)))"

fun clearLoop :: "int \<Rightarrow> EyrieMessage list \<Rightarrow> int \<Rightarrow> int \<Rightarrow> (nat \<times> nat) list \<Rightarrow> EyrieMessage list \<times> int" where
  "clearLoop threshold out tokens freed [] = (out, freed)"
| "clearLoop threshold out tokens freed (c # cs) = (if tokens < threshold then (out, freed)
     else case clearMessageToolResults (out ! fst c) of (m, f) \<Rightarrow>
       clearLoop threshold (out[fst c := m]) (tokens - f) (freed + f) cs)"

definition clearCandidates :: "EyrieMessage list \<Rightarrow> (nat \<times> nat) list" where
  "clearCandidates msgs = filter (\<lambda>(i, n). 0 < n) (map (\<lambda>i. (i, toolResultBytes (msgs ! i))) [0..<length msgs])"

text \<open>\<open>sortSlice\<close> is \<open>sort.Slice\<close> by decreasing size, which need not be stable.\<close>

definition clearOldToolResults :: "((nat \<times> nat) list \<Rightarrow> (nat \<times> nat) list) \<Rightarrow> EyrieMessage list \<Rightarrow> int \<Rightarrow> int \<Rightarrow> EyrieMessage list \<times> int" where
  "clearOldToolResults sortSlice msgs estimatedTokens threshold =
    (if threshold \<le> 0 \<or> estimatedTokens \<le> 0 \<or> msgs = [] then (msgs, 0)
     else let candidates = clearCandidates msgs in
       if length candidates \<le> clearKeepRecent then (msgs, 0)
       else clearLoop threshold msgs estimatedTokens 0 (sortSlice (take (length candidates - clearKeepRecent) candidates)))"

section \<open>Calls and their results\<close>

text \<open>
  A conversation is well paired if every block of results follows the message with their calls, and all calls of a
  message are answered before the conversation goes on. \<open>A\<close> are the calls of that message, \<open>P\<close> those still open.
\<close>

definition callIDs :: "EyrieMessage \<Rightarrow> string set" where
  "callIDs m = ec_ID ` set (em_ToolUse m)"

definition resultIDs :: "EyrieMessage \<Rightarrow> string set" where
  "resultIDs m = er_ToolUseID ` set (em_ToolResults m)"

fun paired :: "string set \<Rightarrow> string set \<Rightarrow> EyrieMessage list \<Rightarrow> bool" where
  "paired A P [] = True"
| "paired A P (m # ms) = (if em_ToolResults m \<noteq> []
     then em_ToolUse m = [] \<and> resultIDs m \<subseteq> A \<and> paired A (P - resultIDs m) ms
     else P = {} \<and> paired (callIDs m) (callIDs m) ms)"

text \<open>A place where the conversation can be cut: at its end or before a message without results.\<close>

definition clean :: "EyrieMessage list \<Rightarrow> bool" where
  "clean ms \<longleftrightarrow> ms = [] \<or> em_ToolResults (hd ms) = []"

lemma paired_suffix: "paired A P (xs @ ys) \<Longrightarrow> clean ys \<Longrightarrow> paired {} {} ys"
proof (induction xs arbitrary: A P)
  case Nil
  then show ?case by (cases ys) (auto simp: clean_def)
next
  case (Cons x xs)
  then show ?case by (auto split: if_splits)
qed

lemma paired_splice:
  assumes "paired A P (xs @ y # ys)" and "em_ToolResults y = []" and "em_ToolResults z = []" and "paired (callIDs z) (callIDs z) zs"
  shows "paired A P (xs @ z # zs)"
  using assms(1)
proof (induction xs arbitrary: A P)
  case Nil
  then show ?case using assms(2-4) by simp
next
  case (Cons x xs)
  then show ?case by (auto split: if_splits)
qed

lemma paired_mono: "paired A {} ms \<Longrightarrow> A \<subseteq> B \<Longrightarrow> paired B {} ms"
proof (induction ms arbitrary: A)
  case (Cons m ms)
  then show ?case by (auto split: if_splits)
qed simp

lemma paired_filter:
  assumes "paired A P ms" and "\<And>m. m \<in> set ms \<Longrightarrow> \<not> keep m \<Longrightarrow> em_ToolResults m = [] \<and> em_ToolUse m = []"
  shows "paired A P (filter keep ms)"
  using assms
proof (induction ms arbitrary: A P)
  case (Cons m ms)
  show ?case
  proof (cases "keep m")
    case True
    then show ?thesis using Cons by (auto split: if_splits)
  next
    case False
    then have "em_ToolResults m = []" "callIDs m = {}" using Cons.prems(2) [of m] by (auto simp: callIDs_def)
    with Cons.prems False have "P = {}" "paired {} {} (filter keep ms)" using Cons.IH [of "{}" "{}"] by (auto split: if_splits)
    then show ?thesis using False paired_mono [of "{}" _ A] by simp
  qed
qed simp

section \<open>Truncation keeps calls with their results\<close>

lemma cutEndLoop_clean:
  "cutEndLoop err raw cutEnd = Some e \<Longrightarrow> cutEnd \<le> length raw \<Longrightarrow> cutEnd \<le> e \<and> e \<le> length raw \<and> clean (drop e raw)"
proof (induction err raw cutEnd rule: cutEndLoop.induct)
  case (1 err raw cutEnd)
  note eq = "1.prems"(1) [unfolded cutEndLoop.simps [of err raw cutEnd]]
  then show ?case using "1.prems"(2) "1.IH"
    by (cases "length raw \<le> cutEnd") (auto simp: clean_def hd_drop_conv_nth split: if_splits)
qed

lemma cutStartLoop_clean:
  "cutStartLoop err raw cutEnd cutStart = Some s \<Longrightarrow> cutStart \<le> s \<and> (s < cutEnd \<longrightarrow> em_ToolResults (raw ! s) = [])"
proof (induction err raw cutEnd cutStart rule: cutStartLoop.induct)
  case (1 err raw cutEnd cutStart)
  note eq = "1.prems" [unfolded cutStartLoop.simps [of err raw cutEnd cutStart]]
  then show ?case using "1.IH" skipResults_le [of "cutStart + 1" raw cutEnd] by (auto split: if_splits)
qed

text \<open>What a truncation returns: a prefix that ends before a message without results, the note, and a suffix that is clean.\<close>

lemma truncated_cut:
  assumes "truncated errEnd errStart pinned raw = Some keep"
  obtains s e where "4 \<le> s" and "s < e" and "e \<le> length raw" and "em_ToolResults (raw ! s) = []" and "clean (drop e raw)"
    and "int (length raw) - max pinned compactBoundaryKeepEnd \<le> int e"
    and "keep = take s raw @ textMessage ''user'' ''[Earlier conversation compacted to save context.]'' # drop e raw"
proof -
  let ?k = "max pinned compactBoundaryKeepEnd"
  have k: "(if compactBoundaryKeepEnd < pinned then pinned else compactBoundaryKeepEnd) = ?k" "16 \<le> ?k"
    by (auto simp: compactBoundaryKeepEnd_def)
  from assms obtain e s where e: "cutEndLoop errEnd raw (nat (int (length raw) - ?k)) = Some e" and s: "cutStartLoop errStart raw e 4 = Some s"
    and rest: "s < e" "keep = take s raw @ textMessage ''user'' ''[Earlier conversation compacted to save context.]'' # drop e raw"
    unfolding truncated_def k(1) Let_def by (auto split: if_splits option.splits)
  have "nat (int (length raw) - ?k) \<le> length raw" using k(2) by linarith
  from cutEndLoop_clean [OF e this] have E: "nat (int (length raw) - ?k) \<le> e" "e \<le> length raw" "clean (drop e raw)" by auto
  then have "int (length raw) - ?k \<le> int e" by linarith
  with E cutStartLoop_clean [OF s] rest show ?thesis by (intro that [of s e]) auto
qed

lemma textMessage_blocks [simp]: "em_ToolResults (textMessage r c) = []" "em_ToolUse (textMessage r c) = []" "callIDs (textMessage r c) = {}"
  by (simp_all add: textMessage_def callIDs_def)

text \<open>A kept prefix, a message without calls and a clean suffix.\<close>

lemma paired_cut_out:
  assumes raw: "paired {} {} (raw @ appended)" and "clean appended" and "s < e" and "e \<le> length raw"
    and "em_ToolResults (raw ! s) = []" and "clean (drop e raw)"
  shows "paired {} {} (take s raw @ textMessage r c # drop e raw @ appended)"
proof -
  have "clean (drop e raw @ appended)" using assms(2,6) by (auto simp: clean_def hd_append)
  moreover have "paired {} {} (take e raw @ (drop e raw @ appended))"
    using raw append_take_drop_id [of e raw] by (metis append_assoc)
  ultimately have tl: "paired {} {} (drop e raw @ appended)" by (rule paired_suffix [rotated])
  have "s < length raw" using assms(3,4) by simp
  then have "take s raw @ raw ! s # drop (Suc s) raw @ appended = raw @ appended" by (simp add: id_take_nth_drop [symmetric])
  with raw have "paired {} {} (take s raw @ raw ! s # drop (Suc s) raw @ appended)" by (simp only:)
  from paired_splice [OF this assms(5) textMessage_blocks(1)] show ?thesis using tl by simp
qed

lemma session_compact_paired:
  assumes "paired {} {} (raw @ appended)" and "clean appended"
  shows "paired {} {} (session_compact errEnd errStart pinned raw (raw @ appended))"
proof (cases "truncated errEnd errStart pinned raw")
  case (Some keep)
  obtain s e where cut: "s < e" "e \<le> length raw" "em_ToolResults (raw ! s) = []" "clean (drop e raw)"
    and keep: "keep = take s raw @ textMessage ''user'' ''[Earlier conversation compacted to save context.]'' # drop e raw"
    by (rule truncated_cut [OF Some])
  have "session_compact errEnd errStart pinned raw (raw @ appended) = keep @ appended"
    using Some by (simp add: session_compact_def ApplyCompaction_def)
  then show ?thesis using paired_cut_out [OF assms cut] keep by simp
qed (simp add: session_compact_def assms(1))


section \<open>Session memory and summary\<close>

lemma adjustLoop_clean: "idx < length msgs \<Longrightarrow> adjustLoop msgs idx = 0 \<or> clean (drop (adjustLoop msgs idx) msgs)"
proof (induction idx)
  case (Suc idx)
  then show ?case by (auto simp: Let_def clean_def hd_drop_conv_nth)
qed simp

lemma paired_drop_adjusted:
  assumes "paired {} {} msgs"
  shows "paired {} {} (drop (AdjustIndexToPreserveAPIInvariants msgs start) msgs)"
proof -
  let ?i = "AdjustIndexToPreserveAPIInvariants msgs start"
  have "?i = 0 \<or> clean (drop ?i msgs)"
    using adjustLoop_clean [of "nat start" msgs] by (auto simp: AdjustIndexToPreserveAPIInvariants_def clean_def)
  then show ?thesis using assms paired_suffix [of "{}" "{}" "take ?i msgs" "drop ?i msgs"] by auto
qed

lemma sessionMemoryCompact_eq:
  assumes "sessionMemoryCompact est memory messages = Inr out"
  obtains k mem where "k + 2 < length messages" and "out = [textMessage ''user'' (''[Session memory summary]'' @ [CHR 10] @ mem @ [CHR 10, CHR 10] @ ''[Continue from the recent messages below.]''),
      textMessage ''assistant'' ''Understood. I have the context from the session memory above. Continuing with the recent conversation.'']
      @ FilterCompactBoundaries (drop k messages)"
    and "k = AdjustIndexToPreserveAPIInvariants messages (int (CalculateMessagesToKeepIndex est messages DefaultSessionMemoryConfig))"
  using assms by (auto simp: sessionMemoryCompact_def Let_def split: option.splits if_splits)

lemma sessionMemoryCompact_paired:
  assumes "paired {} {} messages" and "\<forall>m \<in> set messages. IsCompactBoundary m \<longrightarrow> em_ToolUse m = [] \<and> em_ToolResults m = []"
    and "sessionMemoryCompact est memory messages = Inr out"
  shows "paired {} {} out"
proof -
  obtain k mem where out: "out = [textMessage ''user'' (''[Session memory summary]'' @ [CHR 10] @ mem @ [CHR 10, CHR 10] @ ''[Continue from the recent messages below.]''),
      textMessage ''assistant'' ''Understood. I have the context from the session memory above. Continuing with the recent conversation.'']
      @ FilterCompactBoundaries (drop k messages)"
    and k: "k = AdjustIndexToPreserveAPIInvariants messages (int (CalculateMessagesToKeepIndex est messages DefaultSessionMemoryConfig))"
    by (rule sessionMemoryCompact_eq [OF assms(3)])
  have "paired {} {} (FilterCompactBoundaries (drop k messages))" unfolding FilterCompactBoundaries_def k
    using paired_drop_adjusted [OF assms(1)] assms(2) by (intro paired_filter) (auto dest: in_set_dropD)
  then show ?thesis by (simp add: out)
qed

text \<open>
  \<^bold>\<open>The session memory replaces a well paired prefix.\<close> If earlier boundary messages carry no tool blocks, the compaction
  by session memory keeps the pairing: it is the new summary, its acknowledgement and the messages of a suffix of the
  conversation that are no boundary themselves.
\<close>

theorem session_memory_keeps_pairing:
  assumes "paired {} {} messages" and "\<forall>m \<in> set messages. IsCompactBoundary m \<longrightarrow> em_ToolUse m = [] \<and> em_ToolResults m = []"
    and "sessionMemoryCompact est memory messages = Inr out"
  shows "paired {} {} out \<and> IsCompactBoundary (hd out) \<and> (\<forall>m \<in> set (tl out). \<not> IsCompactBoundary m)
    \<and> (\<exists>k. k + 2 < length messages \<and> tl (tl out) = FilterCompactBoundaries (drop k messages))"
proof -
  obtain k mem where k: "k + 2 < length messages"
    and out: "out = [textMessage ''user'' (''[Session memory summary]'' @ [CHR 10] @ mem @ [CHR 10, CHR 10] @ ''[Continue from the recent messages below.]''),
      textMessage ''assistant'' ''Understood. I have the context from the session memory above. Continuing with the recent conversation.'']
      @ FilterCompactBoundaries (drop k messages)"
    by (rule sessionMemoryCompact_eq [OF assms(3)])
  have "IsCompactBoundary (hd out)" and "\<forall>m \<in> set (tl out). \<not> IsCompactBoundary m"
    by (auto simp: out IsCompactBoundary_def textMessage_def HasPrefix_def FilterCompactBoundaries_def)
  moreover have "tl (tl out) = FilterCompactBoundaries (drop k messages)" by (simp add: out)
  ultimately show ?thesis using sessionMemoryCompact_paired [OF assms] k by blast
qed

text \<open>
  \<^bold>\<open>The summary may separate them.\<close> The compaction by summary cuts at a fixed distance from the end, and the result is
  well paired exactly if the message at the cut carries no tool results.
\<close>

theorem summary_pairing_exact:
  assumes "paired {} {} raw" and "summarized pinned summary fileBlock raw = Some keep"
  shows "paired {} {} keep \<longleftrightarrow> em_ToolResults (raw ! nat (int (length raw) - max pinned smartCompactKeepEnd)) = []"
proof -
  let ?k = "max pinned smartCompactKeepEnd"
  define n where "n = nat (int (length raw) - ?k)"
  define rest where "rest = drop n raw"
  have k: "(if smartCompactKeepEnd < pinned then pinned else smartCompactKeepEnd) = ?k" by auto
  from assms(2) have n: "n < length raw" unfolding summarized_def k Let_def n_def
    by (auto simp: smartCompactKeepEnd_def split: if_splits)
  then have hd: "hd rest = raw ! n" "rest \<noteq> []" by (auto simp: rest_def hd_drop_conv_nth)
  from assms(2) obtain t where "keep = [textMessage ''user'' t]
      @ (if rest = [] \<or> em_Role (hd rest) \<noteq> ''assistant'' then [textMessage ''assistant'' ''Understood. I have the context from the summary above. Continuing.''] else []) @ rest"
    unfolding summarized_def k Let_def n_def [symmetric] rest_def [symmetric] by (auto split: if_splits)
  then have "paired {} {} keep \<longleftrightarrow> paired {} {} rest" by auto
  also have "\<dots> \<longleftrightarrow> clean rest"
  proof
    assume "paired {} {} rest"
    then show "clean rest" by (cases rest) (auto simp: clean_def resultIDs_def split: if_splits)
  next
    assume "clean rest"
    moreover have "paired {} {} (take n raw @ rest)" using assms(1) by (simp add: rest_def)
    ultimately show "paired {} {} rest" by (rule paired_suffix [rotated])
  qed
  also have "\<dots> \<longleftrightarrow> em_ToolResults (raw ! n) = []" using hd by (simp add: clean_def)
  finally show ?thesis unfolding n_def .
qed

section \<open>Clearing keeps the structure\<close>

text \<open>What clearing leaves of a message: everything but the contents of its results, which are kept or replaced.\<close>

definition sameResult :: "string \<Rightarrow> eyrie_ToolResult \<Rightarrow> eyrie_ToolResult \<Rightarrow> bool" where
  "sameResult placeholder tr tr' \<longleftrightarrow> tr' = tr \<or> tr' = tr\<lparr>er_Content := placeholder\<rparr>"

definition sameMessage :: "EyrieMessage \<Rightarrow> EyrieMessage \<Rightarrow> bool" where
  "sameMessage m m' \<longleftrightarrow> m' = m\<lparr>em_ToolResults := em_ToolResults m'\<rparr>
     \<and> list_all2 (sameResult outputClearedPlaceholder) (em_ToolResults m) (em_ToolResults m')"

text \<open>The blocks the pairing depends on.\<close>

definition blocks :: "EyrieMessage \<Rightarrow> eyrie_ToolCall list \<times> string list" where
  "blocks m = (em_ToolUse m, map er_ToolUseID (em_ToolResults m))"

lemma paired_blocks: "map blocks ms = map blocks ms' \<Longrightarrow> paired A P ms = paired A P ms'"
proof (induction ms arbitrary: ms' A P)
  case (Cons m ms)
  then obtain m' ns where ms': "ms' = m' # ns" and m: "blocks m = blocks m'" and "map blocks ms = map blocks ns" by auto
  moreover have "resultIDs m = resultIDs m'" "em_ToolResults m = [] \<longleftrightarrow> em_ToolResults m' = []"
    using m by (auto simp: blocks_def resultIDs_def simp flip: set_map)
  moreover have "em_ToolUse m = em_ToolUse m'" using m by (simp add: blocks_def)
  ultimately show ?case using Cons.IH [of ns] by (simp add: callIDs_def)
qed simp

lemma sameResult_cleared: "sameResult p tr tr' \<Longrightarrow> sameResult p tr (tr'\<lparr>er_Content := p\<rparr>)"
  by (auto simp: sameResult_def)

lemma sameMessage_refl [simp]: "sameMessage m m"
  by (simp add: sameMessage_def sameResult_def list.rel_refl)

lemma sameMessage_cleared: "sameMessage m m' \<Longrightarrow> sameMessage m (fst (clearMessageToolResults m'))"
  by (cases m, cases m') (auto simp: sameMessage_def clearMessageToolResults_def list_all2_conv_all_nth sameResult_cleared)

lemma sameMessage_blocks: "sameMessage m m' \<Longrightarrow> blocks m' = blocks m"
  by (cases m, cases m') (auto simp: sameMessage_def blocks_def list_all2_conv_all_nth sameResult_def intro!: nth_equalityI)

lemma clearLoop_same:
  "clearLoop threshold out tokens freed cs = (out', freed') \<Longrightarrow> list_all2 sameMessage msgs out \<Longrightarrow> list_all2 sameMessage msgs out'"
proof (induction threshold out tokens freed cs rule: clearLoop.induct)
  case (2 threshold out tokens freed c cs)
  show ?case
  proof (cases "tokens < threshold")
    case False
    obtain m f where mf: "clearMessageToolResults (out ! fst c) = (m, f)" by fastforce
    have "list_all2 sameMessage msgs (out[fst c := m])" using "2.prems"(2) mf sameMessage_cleared [of _ "out ! fst c"]
      by (cases "fst c < length out") (auto simp: list_all2_conv_all_nth nth_list_update)
    then show ?thesis using "2.IH" [OF False mf [symmetric]] "2.prems"(1) False mf by simp
  qed (use "2.prems" in auto)
qed simp

lemma clearLoop_untouched:
  "clearLoop threshold out tokens freed cs = (out', freed') \<Longrightarrow> i \<notin> fst ` set cs \<Longrightarrow> out' ! i = out ! i"
  by (induction threshold out tokens freed cs rule: clearLoop.induct) (auto split: if_splits prod.splits)

definition cleared :: "EyrieMessage \<Rightarrow> bool" where
  "cleared m \<longleftrightarrow> (\<forall>tr \<in> set (em_ToolResults m). \<not> clearable tr)"

lemma cleared_clear: "clearMessageToolResults m = (m', f) \<Longrightarrow> cleared m'"
  by (auto simp: clearMessageToolResults_def cleared_def clearable_def)

lemma clearLoop_stays: "clearLoop threshold out tokens freed cs = (out', freed') \<Longrightarrow> cleared (out ! i) \<Longrightarrow> cleared (out' ! i)"
proof (induction threshold out tokens freed cs rule: clearLoop.induct)
  case (2 threshold out tokens freed c cs)
  show ?case
  proof (cases "tokens < threshold")
    case False
    obtain m f where mf: "clearMessageToolResults (out ! fst c) = (m, f)" by fastforce
    have "cleared (out[fst c := m] ! i)" using "2.prems"(2) cleared_clear [OF mf]
      by (cases "fst c < length out"; cases "fst c = i") (simp_all add: list_update_beyond)
    then show ?thesis using "2.IH" [OF False mf [symmetric]] "2.prems"(1) False mf by simp
  qed (use "2.prems" in auto)
qed simp

text \<open>The loop ends as soon as the estimate falls below the threshold; otherwise every candidate was cleared.\<close>

lemma clearLoop_reaches:
  "clearLoop threshold out tokens freed cs = (out', freed') \<Longrightarrow> \<forall>c \<in> set cs. fst c < length out \<Longrightarrow>
    tokens + freed - freed' < threshold \<or> (\<forall>c \<in> set cs. cleared (out' ! fst c))"
proof (induction threshold out tokens freed cs rule: clearLoop.induct)
  case (2 threshold out tokens freed c cs)
  show ?case
  proof (cases "tokens < threshold")
    case False
    obtain m f where mf: "clearMessageToolResults (out ! fst c) = (m, f)" by fastforce
    let ?out = "out[fst c := m]"
    have run: "clearLoop threshold ?out (tokens - f) (freed + f) cs = (out', freed')" using "2.prems"(1) False mf by simp
    moreover have "cleared (?out ! fst c)" using "2.prems"(2) cleared_clear [OF mf] by simp
    ultimately have "cleared (out' ! fst c)" by (rule clearLoop_stays)
    moreover have "tokens - f + (freed + f) - freed' < threshold \<or> (\<forall>c \<in> set cs. cleared (out' ! fst c))"
      using "2.IH" [OF False mf [symmetric] run] "2.prems"(2) by simp
    ultimately show ?thesis by auto
  qed (use "2.prems" in auto)
qed simp

definition candidateIndexes :: "EyrieMessage list \<Rightarrow> nat list" where
  "candidateIndexes msgs = filter (\<lambda>i. 0 < toolResultBytes (msgs ! i)) [0..<length msgs]"

lemma clearCandidates_indexes: "map fst (clearCandidates msgs) = candidateIndexes msgs"
  by (simp add: clearCandidates_def candidateIndexes_def filter_map comp_def case_prod_unfold)

text \<open>
  \<^bold>\<open>Clearing keeps the structure.\<close> However the candidates of equal size are ordered, clearing changes nothing but the
  contents of tool results, so the conversation stays well paired; the last four messages with output are untouched; and
  unless the conversation is too short the estimate falls below the threshold or all earlier output is cleared.
\<close>

theorem clearing_keeps_structure:
  assumes "\<And>xs. mset (sortSlice xs) = mset xs" and "clearOldToolResults sortSlice msgs estimated threshold = (out, freed)"
  shows "list_all2 sameMessage msgs out \<and> (paired {} {} out \<longleftrightarrow> paired {} {} msgs)
    \<and> (\<forall>i \<in> set (drop (length (candidateIndexes msgs) - 4) (candidateIndexes msgs)). out ! i = msgs ! i)
    \<and> (0 < threshold \<and> 0 < estimated \<longrightarrow> estimated - freed < threshold
         \<or> (\<forall>i \<in> set (take (length (candidateIndexes msgs) - 4) (candidateIndexes msgs)). cleared (out ! i)))"
proof -
  let ?is = "candidateIndexes msgs" and ?cs = "clearCandidates msgs"
  let ?olds = "take (length ?is - 4) ?is" and ?ns = "drop (length ?is - 4) ?is"
  have len: "length ?cs = length ?is" using clearCandidates_indexes [of msgs] by (metis length_map)
  have nil: "msgs = [] \<Longrightarrow> ?is = []" by (simp add: candidateIndexes_def)
  show ?thesis
  proof (cases "threshold \<le> 0 \<or> estimated \<le> 0 \<or> length ?is \<le> 4")
    case True
    then have "out = msgs" using assms(2) unfolding clearOldToolResults_def Let_def clearKeepRecent_def len
      by (simp split: if_splits)
    then show ?thesis using True by (auto simp: list.rel_refl)
  next
    case False
    then have loop: "clearLoop threshold msgs estimated 0 (sortSlice (take (length ?is - 4) ?cs)) = (out, freed)"
      using assms(2) nil unfolding clearOldToolResults_def Let_def clearKeepRecent_def len by (simp split: if_splits)
    let ?sorted = "sortSlice (take (length ?is - 4) ?cs)"
    have "set ?sorted = set (take (length ?is - 4) ?cs)" by (rule mset_eq_setD [OF assms(1)])
    then have "fst ` set ?sorted = set (take (length ?is - 4) (map fst ?cs))" by (simp add: take_map)
    then have sorted: "fst ` set ?sorted = set ?olds" unfolding clearCandidates_indexes .
    have "distinct ?is" "set ?is \<subseteq> {..<length msgs}" by (auto simp: candidateIndexes_def)
    then have disj: "set ?olds \<inter> set ?ns = {}" and "set ?olds \<subseteq> {..<length msgs}"
      by (simp_all add: set_take_disj_set_drop_if_distinct) (meson in_set_takeD subset_eq)
    then have below: "\<forall>c \<in> set ?sorted. fst c < length msgs" using sorted by blast
    then have new: "out ! i = msgs ! i" if "i \<in> set ?ns" for i using clearLoop_untouched [OF loop, of i] sorted that disj by blast
    have all: "list_all2 sameMessage msgs out" by (rule clearLoop_same [OF loop]) (simp add: list.rel_refl)
    then have "map blocks msgs = map blocks out" by (auto simp: list_all2_conv_all_nth sameMessage_blocks intro!: nth_equalityI)
    then have "paired {} {} out \<longleftrightarrow> paired {} {} msgs" using paired_blocks by metis
    moreover have "estimated - freed < threshold \<or> (\<forall>i \<in> set ?olds. cleared (out ! i))"
      using clearLoop_reaches [OF loop below] sorted by (auto simp flip: sorted)
    ultimately show ?thesis using all new by blast
  qed
qed

lemma clearedMessage_blocks: "em_ToolUse m = [] \<Longrightarrow> blocks (clearedMessage m) = blocks m"
  by (simp add: blocks_def clearedMessage_def textMessage_def)

lemma paired_no_calls: "paired A P ms \<Longrightarrow> m \<in> set ms \<Longrightarrow> em_ToolResults m \<noteq> [] \<Longrightarrow> em_ToolUse m = []"
  by (induction ms arbitrary: A P) (auto split: if_splits)

lemma MicrocompactMessages_eq:
  assumes "0 \<le> mi_KeepRecent cfg"
  shows "MicrocompactMessages msgs cfg = map (\<lambda>i. if i \<in> set (take (length (compactableResults cfg msgs) - nat (mi_KeepRecent cfg)) (compactableResults cfg msgs))
      then clearedMessage (msgs ! i) else msgs ! i) [0..<length msgs]"
proof -
  have n: "nat (int (length (compactableResults cfg msgs)) - mi_KeepRecent cfg) = length (compactableResults cfg msgs) - nat (mi_KeepRecent cfg)"
    using assms by linarith
  then show ?thesis using assms by (auto simp: MicrocompactMessages_def Let_def map_nth)
qed

lemma MicrocompactMessages_paired:
  assumes "paired {} {} msgs" and "0 \<le> mi_KeepRecent cfg"
  shows "paired {} {} (MicrocompactMessages msgs cfg)"
proof -
  let ?rs = "compactableResults cfg msgs"
  have "blocks (clearedMessage (msgs ! i)) = blocks (msgs ! i)" if "i \<in> set (take (length ?rs - nat (mi_KeepRecent cfg)) ?rs)" for i
    using that assms(1) by (intro clearedMessage_blocks paired_no_calls [of "{}" "{}" msgs]) (auto simp: compactableResults_def dest!: in_set_takeD)
  then have "map blocks (MicrocompactMessages msgs cfg) = map blocks msgs" by (auto simp: MicrocompactMessages_eq [OF assms(2)] intro!: nth_equalityI)
  then show ?thesis using paired_blocks [of "MicrocompactMessages msgs cfg" msgs] assms(1) by simp
qed

text \<open>
  \<^bold>\<open>Microcompaction clears exactly the old results.\<close> Of a well paired conversation every message but the results of
  compactable tools before the most recent ones is returned as it is, those are cleared, and it stays well paired.
\<close>

theorem microcompaction_exact:
  assumes "paired {} {} msgs" and "0 \<le> mi_KeepRecent cfg"
  shows "paired {} {} (MicrocompactMessages msgs cfg) \<and> length (MicrocompactMessages msgs cfg) = length msgs
    \<and> (\<forall>i < length msgs. MicrocompactMessages msgs cfg ! i
        = (if i \<in> set (take (length (compactableResults cfg msgs) - nat (mi_KeepRecent cfg)) (compactableResults cfg msgs))
           then clearedMessage (msgs ! i) else msgs ! i))"
  using MicrocompactMessages_paired [OF assms] by (simp add: MicrocompactMessages_eq [OF assms(2)])

section \<open>Examples\<close>

definition sampleCall :: EyrieMessage where
  "sampleCall = (textMessage ''assistant'' [])\<lparr>em_ToolUse := [\<lparr>ec_ID = ''t1'', ec_Name = ''Read'', ec_Arguments = Some []\<rparr>]\<rparr>"

definition sampleResult :: EyrieMessage where
  "sampleResult = (textMessage ''user'' ''contents'')\<lparr>em_ToolResults := [\<lparr>er_ToolUseID = ''t1'', er_Content = ''contents'', er_IsError = False\<rparr>]\<rparr>"

definition sampleChat :: "EyrieMessage list" where
  "sampleChat = concat (replicate 8 [textMessage ''user'' ''go on'', sampleCall, sampleResult])"

lemma sampleChat_paired: "paired {} {} sampleChat" "paired {} {} (sampleChat @ [textMessage ''user'' ''now''])"
  by code_simp+


theorem summary_pairing_exact_witness:
  "\<exists>keep. summarized 0 ''done'' [] sampleChat = Some keep \<and> \<not> paired {} {} keep"
proof -
  have "summarized 0 ''done'' [] sampleChat \<noteq> None" by code_simp
  then obtain keep where keep: "summarized 0 ''done'' [] sampleChat = Some keep" by blast
  have "em_ToolResults (sampleChat ! nat (int (length sampleChat) - max 0 smartCompactKeepEnd)) \<noteq> []" by code_simp
  then show ?thesis using summary_pairing_exact [OF sampleChat_paired(1) keep] keep by simp
qed

theorem session_memory_keeps_pairing_witness:
  "\<exists>out. sessionMemoryCompact (\<lambda>_. 2000) (Some ''notes'') sampleChat = Inr out \<and> paired {} {} out \<and> length out = 17"
proof -
  have "\<not> isl (sessionMemoryCompact (\<lambda>_. 2000) (Some ''notes'') sampleChat)" by code_simp
  then obtain out where out: "sessionMemoryCompact (\<lambda>_. 2000) (Some ''notes'') sampleChat = Inr out" by (auto simp: isl_def) (meson sum.exhaust_sel)
  have "\<forall>m \<in> set sampleChat. IsCompactBoundary m \<longrightarrow> em_ToolUse m = [] \<and> em_ToolResults m = []" by code_simp
  moreover have "length (projr (sessionMemoryCompact (\<lambda>_. 2000) (Some ''notes'') sampleChat)) = 17" by code_simp
  ultimately show ?thesis using session_memory_keeps_pairing [OF sampleChat_paired(1) _ out] out by auto
qed

theorem clearing_keeps_structure_witness:
  "paired {} {} (fst (clearOldToolResults id sampleChat 100 10)) \<and> fst (clearOldToolResults id sampleChat 100 10) \<noteq> sampleChat"
proof
  obtain out freed where "clearOldToolResults id sampleChat 100 10 = (out, freed)" by fastforce
  then show "paired {} {} (fst (clearOldToolResults id sampleChat 100 10))"
    using clearing_keeps_structure [of id sampleChat 100 10 out freed] sampleChat_paired(1) by simp
qed code_simp

theorem microcompaction_exact_witness:
  "paired {} {} (MicrocompactMessages sampleChat DefaultMicroCompactConfig)
   \<and> MicrocompactMessages sampleChat DefaultMicroCompactConfig ! 2 = clearedMessage sampleResult"
proof
  show "paired {} {} (MicrocompactMessages sampleChat DefaultMicroCompactConfig)"
    using microcompaction_exact [OF sampleChat_paired(1), of DefaultMicroCompactConfig] by (simp add: DefaultMicroCompactConfig_def)
qed code_simp

end
