(* ===== verification/Transcript.thy ===== *)
theory Transcript
  imports Compaction Event_Projection Event_Invariants
begin

text \<open>
  The transcript of a session: \<open>internal/engine/persistence_service.go\<close> (messages, system prompt, repair of an
  interrupted turn), \<open>journal.go\<close> (appends that are journaled, and the projection of the journal back to messages) and
  \<open>ctxmgr/context_collapse.go\<close>. Copies made to avoid aliasing are the values themselves, and a nil slice is an empty
  list; a nil argument map is \<open>None\<close>.
\<close>

section \<open>Journaled appends\<close>

definition toContentPartPayload :: "ContentPart \<Rightarrow> ContentPartPayload" where
  "toContentPartPayload p = \<lparr>cp_Type = pa_Type p, cp_Text = pa_Text p,
     cp_ImageURL = (case pa_ImageURL p of None \<Rightarrow> [] | Some i \<Rightarrow> ip_URL i),
     cp_ImageDetail = (case pa_ImageURL p of None \<Rightarrow> [] | Some i \<Rightarrow> ip_Detail i),
     cp_AudioData = (case pa_InputAudio p of None \<Rightarrow> [] | Some a \<Rightarrow> ia_Data a),
     cp_AudioFormat = (case pa_InputAudio p of None \<Rightarrow> [] | Some a \<Rightarrow> ia_Format a)\<rparr>"

definition fromContentPartPayload :: "ContentPartPayload \<Rightarrow> ContentPart" where
  "fromContentPartPayload p = \<lparr>pa_Type = cp_Type p, pa_Text = cp_Text p,
     pa_ImageURL = (if cp_ImageURL p \<noteq> [] then Some \<lparr>ip_URL = cp_ImageURL p, ip_Detail = cp_ImageDetail p\<rparr> else None),
     pa_InputAudio = (if cp_AudioData p \<noteq> [] \<or> cp_AudioFormat p \<noteq> []
       then Some \<lparr>ia_Data = cp_AudioData p, ia_Format = cp_AudioFormat p\<rparr> else None)\<rparr>"

definition toJournalMessage :: "EyrieMessage \<Rightarrow> Message" where
  "toJournalMessage m = \<lparr>msg_Role = em_Role m, msg_Content = em_Content m, msg_Thinking = em_Thinking m, msg_Images = em_Images m,
     msg_ContentParts = map toContentPartPayload (em_ContentParts m),
     msg_ToolUse = map (\<lambda>c. \<lparr>tc_Turn = 0, tc_Step = 0, tc_ID = ec_ID c, tc_Name = ec_Name c, tc_Arguments = ec_Arguments c\<rparr>) (em_ToolUse m),
     msg_ToolResults = map (\<lambda>r. \<lparr>tr_Turn = 0, tr_Step = 0, tr_ToolUseID = er_ToolUseID r, tr_Content = er_Content r, tr_IsError = er_IsError r\<rparr>) (em_ToolResults m),
     msg_Turn = 0, msg_Step = 0\<rparr>"

definition fromJournalMessage :: "Message \<Rightarrow> EyrieMessage" where
  "fromJournalMessage m = \<lparr>em_Role = msg_Role m, em_Content = msg_Content m, em_Thinking = msg_Thinking m, em_Images = msg_Images m,
     em_ContentParts = map fromContentPartPayload (msg_ContentParts m),
     em_ToolUse = map (\<lambda>c. \<lparr>ec_ID = tc_ID c, ec_Name = tc_Name c, ec_Arguments = tc_Arguments c\<rparr>) (msg_ToolUse m),
     em_ToolResults = map (\<lambda>r. \<lparr>er_ToolUseID = tr_ToolUseID r, er_Content = tr_Content r, er_IsError = tr_IsError r\<rparr>) (msg_ToolResults m)\<rparr>"

record PersistenceService =
  ps_messages :: "EyrieMessage list"
  ps_system :: string
  ps_journal :: "Log option"

definition AppendUserJournaled :: "EyrieMessage \<Rightarrow> gotime \<Rightarrow> PersistenceService \<Rightarrow> panic + PersistenceService" where
  "AppendUserJournaled msg now s =
    (case AppendSurface UserMessage (DMessage (toJournalMessage msg)) ''append'' 0 0 None now (ps_journal s) of Inl p \<Rightarrow> Inl p
     | Inr j \<Rightarrow> Inr (s\<lparr>ps_journal := j, ps_messages := ps_messages s @ [msg]\<rparr>))"

definition AppendAssistantJournaled :: "EyrieMessage \<Rightarrow> gotime \<Rightarrow> PersistenceService \<Rightarrow> panic + PersistenceService" where
  "AppendAssistantJournaled msg now s =
    (case AppendSurface AssistantMsg (DMessage (toJournalMessage msg)) ''append'' 0 0 None now (ps_journal s) of Inl p \<Rightarrow> Inl p
     | Inr j \<Rightarrow> Inr (s\<lparr>ps_journal := j, ps_messages := ps_messages s @ [msg]\<rparr>))"

definition AddAssistant :: "string \<Rightarrow> gotime \<Rightarrow> PersistenceService \<Rightarrow> panic + PersistenceService" where
  "AddAssistant content = AppendAssistantJournaled (textMessage ''assistant'' content)"

definition AddUser :: "string \<Rightarrow> gotime \<Rightarrow> PersistenceService \<Rightarrow> panic + PersistenceService" where
  "AddUser content = AppendUserJournaled (textMessage ''user'' content)"

definition AddMessage :: "string \<Rightarrow> string \<Rightarrow> gotime \<Rightarrow> PersistenceService \<Rightarrow> panic + PersistenceService" where
  "AddMessage role content now s =
    (if ToLower role = ''assistant'' then AddAssistant content now s
     else if ToLower role = ''user'' then AddUser content now s
     else Inr (s\<lparr>ps_messages := ps_messages s @ [textMessage role content]\<rparr>))"

definition AddUserWithImage :: "string \<Rightarrow> string \<Rightarrow> string \<Rightarrow> gotime \<Rightarrow> PersistenceService \<Rightarrow> panic + PersistenceService" where
  "AddUserWithImage content imageBase64 imageType =
     AppendUserJournaled ((textMessage ''user'' content)\<lparr>em_Images := [''data:'' @ imageType @ '';base64,'' @ imageBase64]\<rparr>)"

definition AppendSystemContext :: "string \<Rightarrow> gotime \<Rightarrow> PersistenceService \<Rightarrow> panic + PersistenceService" where
  "AppendSystemContext raw now s = (let content = TrimSpace raw in
     if content = [] then Inr s
     else let system = (if TrimSpace (ps_system s) = [] then content else ps_system s @ [CHR 10, CHR 10] @ content) in
       case AppendContextInjected content now (ps_journal s) of Inl p \<Rightarrow> Inl p
       | Inr j \<Rightarrow> Inr (s\<lparr>ps_system := system, ps_journal := j\<rparr>))"

text \<open>\<open>strings.Index\<close>.\<close>

fun stringIndex :: "string \<Rightarrow> string \<Rightarrow> nat option" where
  "stringIndex [] sub = (if sub = [] then Some 0 else None)"
| "stringIndex (c # cs) sub = (if HasPrefix (c # cs) sub then Some 0 else map_option Suc (stringIndex cs sub))"

definition ReplaceSystemContextSection :: "string \<Rightarrow> string \<Rightarrow> PersistenceService \<Rightarrow> PersistenceService" where
  "ReplaceSystemContextSection header raw s = (let content = TrimSpace raw; system = ps_system s in
     if content = [] then s
     else s\<lparr>ps_system := (case stringIndex system header of
         None \<Rightarrow> if TrimSpace system = [] then content else system @ [CHR 10, CHR 10] @ content
       | Some idx \<Rightarrow> let rest = drop (idx + length header) system in
           take idx system @ content @ (case stringIndex rest ([CHR 10, CHR 10] @ ''## '') of None \<Rightarrow> [] | Some next \<Rightarrow> drop next rest))\<rparr>)"

definition RemoveLastExchange :: "PersistenceService \<Rightarrow> PersistenceService" where
  "RemoveLastExchange s = (if length (ps_messages s) < 2 then s else s\<lparr>ps_messages := take (length (ps_messages s) - 2) (ps_messages s)\<rparr>)"

definition LoadMessages :: "EyrieMessage list \<Rightarrow> PersistenceService \<Rightarrow> PersistenceService" where
  "LoadMessages msgs s = s\<lparr>ps_messages := msgs\<rparr>"

definition JournalProjection :: "PersistenceService \<Rightarrow> EyrieMessage list" where
  "JournalProjection s = (case ps_journal s of None \<Rightarrow> [] | Some j \<Rightarrow> map fromJournalMessage (ProjectMessages (Snapshot j)))"

datatype reconstructError = NotValid "nat \<times> validateError" | NotReconstructible nat nat

definition Reconstructible :: "PersistenceService \<Rightarrow> reconstructError option" where
  "Reconstructible s = (case ps_journal s of None \<Rightarrow> None
   | Some j \<Rightarrow> (case Validate (Snapshot j) of Some e \<Rightarrow> Some (NotValid e)
     | None \<Rightarrow> if ps_messages s = JournalProjection s then None
         else Some (NotReconstructible (length (ps_messages s)) (length (JournalProjection s)))))"

section \<open>What is visible is logged\<close>

text \<open>What a session does with its transcript and its journal: append messages, and write other facts to the journal.\<close>

datatype transcriptOp = OpUser EyrieMessage gotime | OpAssistant EyrieMessage gotime | OpFact etype payload bool gotime

fun transcriptStep :: "PersistenceService \<Rightarrow> transcriptOp \<Rightarrow> panic + PersistenceService" where
  "transcriptStep s (OpUser m now) = AppendUserJournaled m now s"
| "transcriptStep s (OpAssistant m now) = AppendAssistantJournaled m now s"
| "transcriptStep s (OpFact typ data ign now) = (case ps_journal s of None \<Rightarrow> Inr s
     | Some l \<Rightarrow> (case appendWithFlags typ data ign now l of Inl p \<Rightarrow> Inl p | Inr l' \<Rightarrow> Inr (s\<lparr>ps_journal := Some l'\<rparr>)))"

fun requestOf :: "transcriptOp \<Rightarrow> request" where
  "requestOf (OpUser m now) = ReqSurface UserMessage (DMessage (toJournalMessage m)) ''append'' 0 0 None now"
| "requestOf (OpAssistant m now) = ReqSurface AssistantMsg (DMessage (toJournalMessage m)) ''append'' 0 0 None now"
| "requestOf (OpFact typ data ign now) = ReqAppend typ data ign now"

fun appendedBy :: "transcriptOp \<Rightarrow> EyrieMessage list" where
  "appendedBy (OpUser m now) = [m]"
| "appendedBy (OpAssistant m now) = [m]"
| "appendedBy (OpFact typ data ign now) = []"

text \<open>The text a fact injects into the projection.\<close>

fun injectedBy :: "transcriptOp \<Rightarrow> Message list" where
  "injectedBy (OpFact typ data ign now) = rawStep [] \<lparr>ev_Type = typ, ev_Seq = 0, ev_At = now, ev_Data = data,
     ev_Ignorable = ign, ev_SurfaceOp = None, ev_SourceEventSeqs = None\<rparr>"
| "injectedBy _ = []"

fun shownBy :: "transcriptOp \<Rightarrow> Message list" where
  "shownBy (OpUser m now) = [toJournalMessage m]"
| "shownBy (OpAssistant m now) = (if contentless (toJournalMessage m) then [] else [toJournalMessage m])"
| "shownBy op = injectedBy op"

text \<open>Facts that neither pose as messages nor prune, with well-formed contents; messages the journal can represent.\<close>

fun opOk :: "transcriptOp \<Rightarrow> bool" where
  "opOk (OpFact typ data ign now) \<longleftrightarrow> typ \<notin> {UserMessage, AssistantMsg, ToolResult, CompactionPrune} \<and> request_ok (ReqAppend typ data ign now)"
| "opOk (OpUser m now) \<longleftrightarrow> fromJournalMessage (toJournalMessage m) = m"
| "opOk (OpAssistant m now) \<longleftrightarrow> fromJournalMessage (toJournalMessage m) = m \<and> \<not> contentless (toJournalMessage m)"

lemma call_fields [simp]: "\<lparr>ec_ID = ec_ID c, ec_Name = ec_Name c, ec_Arguments = ec_Arguments c\<rparr> = c"
  by simp

lemma result_fields [simp]: "\<lparr>er_ToolUseID = er_ToolUseID r, er_Content = er_Content r, er_IsError = er_IsError r\<rparr> = r"
  by simp

lemma journal_roundtrip:
  "fromJournalMessage (toJournalMessage m) = m \<longleftrightarrow>
    (\<forall>p \<in> set (em_ContentParts m). (\<forall>i. pa_ImageURL p = Some i \<longrightarrow> ip_URL i \<noteq> [])
      \<and> (\<forall>a. pa_InputAudio p = Some a \<longrightarrow> ia_Data a \<noteq> [] \<or> ia_Format a \<noteq> []))"
proof -
  have part: "fromContentPartPayload (toContentPartPayload p) = p \<longleftrightarrow> (\<forall>i. pa_ImageURL p = Some i \<longrightarrow> ip_URL i \<noteq> [])
      \<and> (\<forall>a. pa_InputAudio p = Some a \<longrightarrow> ia_Data a \<noteq> [] \<or> ia_Format a \<noteq> [])" for p
    by (cases p) (auto simp: fromContentPartPayload_def toContentPartPayload_def split: option.splits)
  have "map (\<lambda>x. fromContentPartPayload (toContentPartPayload x)) ps = ps
      \<longleftrightarrow> (\<forall>p \<in> set ps. fromContentPartPayload (toContentPartPayload p) = p)" for ps
    by (induction ps) auto
  then show ?thesis using part by (cases m) (auto simp: fromJournalMessage_def toJournalMessage_def comp_def)
qed

lemma step_request:
  assumes "transcriptStep s op = Inr s'" and "ps_journal s = Some l"
  obtains l' where "ps_journal s' = Some l'" and "apply_request l (requestOf op) = Inr l'" and "ps_messages s' = ps_messages s @ appendedBy op"
  using assms
  by (cases op) (auto simp: AppendUserJournaled_def AppendAssistantJournaled_def AppendSurface_def with_log_def split: sum.splits option.splits if_splits)

lemma rawStep_append: "ev_Type ev \<noteq> CompactionPrune \<Longrightarrow> rawStep out ev = out @ rawStep [] ev"
  by (cases "ev_Type ev") (auto simp: rawStep_def split: option.splits)

lemma rawStep_cong:
  assumes "ev_Type a = ev_Type b" and "ev_Data a = ev_Data b"
  shows "rawStep out a = rawStep out b"
  unfolding rawStep_def assms ..

lemma rawStep_fields: "rawStep out (ev\<lparr>ev_Seq := q\<rparr>) = rawStep out ev"
  by (rule rawStep_cong) simp_all

lemma projectMessagesRaw_snoc: "projectMessagesRaw (evs @ [ev]) = rawStep (projectMessagesRaw evs) ev"
  by (simp add: projectMessagesRaw_def)

lemma step_projection:
  assumes "apply_request l (requestOf op) = Inr l'" and "opOk op"
  shows "projectMessagesRaw (Snapshot l') = projectMessagesRaw (Snapshot l) @ shownBy op
    \<and> ((\<forall>ev \<in> set (Snapshot l). \<not> is_replace ev) \<longrightarrow> (\<forall>ev \<in> set (Snapshot l'). \<not> is_replace ev))"
proof (cases op)
  case (OpFact ty data ign now)
  let ?ev = "\<lparr>ev_Type = ty, ev_Seq = 0, ev_At = now, ev_Data = data, ev_Ignorable = ign, ev_SurfaceOp = None, ev_SourceEventSeqs = None\<rparr>"
  from assms OpFact have l': "Snapshot l' = Snapshot l @ [?ev\<lparr>ev_Seq := lg_seq l + 1\<rparr>]"
    by (auto simp: appendWithFlags_def Snapshot_def split: if_splits)
  have "rawStep (projectMessagesRaw (Snapshot l)) ?ev = projectMessagesRaw (Snapshot l) @ rawStep [] ?ev"
    using assms(2) OpFact by (intro rawStep_append) simp
  then have "projectMessagesRaw (Snapshot l') = projectMessagesRaw (Snapshot l) @ shownBy op"
    unfolding l' projectMessagesRaw_snoc rawStep_fields using OpFact by simp
  then show ?thesis by (simp add: l' is_replace_def)
next
  case (OpUser m now)
  then show ?thesis using assms
    by (auto simp: AppendSurface_def with_log_def Snapshot_def projectMessagesRaw_snoc rawStep_def is_replace_def SurfaceOpReplace_def
      split: if_splits)
next
  case (OpAssistant m now)
  then show ?thesis using assms
    by (auto simp: AppendSurface_def with_log_def Snapshot_def projectMessagesRaw_snoc rawStep_def is_replace_def SurfaceOpReplace_def
      split: if_splits)
qed

lemma run_projection:
  assumes "run transcriptStep s ops = Inr s'" and "ps_journal s = Some l" and "\<forall>op \<in> set ops. opOk op"
    and "\<forall>ev \<in> set (Snapshot l). \<not> is_replace ev"
  shows "\<exists>l'. ps_journal s' = Some l' \<and> run apply_request l (map requestOf ops) = Inr l'
    \<and> ps_messages s' = ps_messages s @ concat (map appendedBy ops)
    \<and> projectMessagesRaw (Snapshot l') = projectMessagesRaw (Snapshot l) @ concat (map shownBy ops)
    \<and> (\<forall>ev \<in> set (Snapshot l'). \<not> is_replace ev)"
  using assms
proof (induction ops arbitrary: s l)
  case (Cons op ops)
  from Cons.prems(1) obtain t where t: "transcriptStep s op = Inr t" and r: "run transcriptStep t ops = Inr s'"
    by (auto split: sum.splits)
  obtain m where m: "ps_journal t = Some m" "apply_request l (requestOf op) = Inr m" "ps_messages t = ps_messages s @ appendedBy op"
    by (rule step_request [OF t Cons.prems(2)])
  have p: "projectMessagesRaw (Snapshot m) = projectMessagesRaw (Snapshot l) @ shownBy op" "\<forall>ev \<in> set (Snapshot m). \<not> is_replace ev"
    using step_projection [OF m(2)] Cons.prems(3,4) by auto
  have "\<exists>l'. ps_journal s' = Some l' \<and> run apply_request m (map requestOf ops) = Inr l'
    \<and> ps_messages s' = ps_messages t @ concat (map appendedBy ops)
    \<and> projectMessagesRaw (Snapshot l') = projectMessagesRaw (Snapshot m) @ concat (map shownBy ops)
    \<and> (\<forall>ev \<in> set (Snapshot l'). \<not> is_replace ev)"
    using Cons.prems(3) by (intro Cons.IH [OF r m(1) _ p(2)]) simp
  then show ?case using m(2,3) p(1) by simp
qed simp

lemma opOk_request: "opOk op \<Longrightarrow> request_ok (requestOf op)"
  by (cases op) (auto simp: SurfaceOpAppend_def)

lemma opOk_shown: "opOk op \<Longrightarrow> map fromJournalMessage (shownBy op) = appendedBy op @ map fromJournalMessage (injectedBy op)"
  by (cases op) auto


section \<open>Repair of an interrupted turn\<close>

definition hasResultsForAllToolUses :: "EyrieMessage list \<Rightarrow> eyrie_ToolCall list \<Rightarrow> bool" where
  "hasResultsForAllToolUses msgs uses \<longleftrightarrow> (\<forall>tc \<in> set uses. \<exists>m \<in> set msgs. ec_ID tc \<in> resultIDs m)"

text \<open>The calls of the last assistant message that has some, none if there is no such message.\<close>

definition isCallTurn :: "EyrieMessage \<Rightarrow> bool" where
  "isCallTurn m \<longleftrightarrow> em_Role m = ''assistant'' \<and> em_ToolUse m \<noteq> []"

definition lastAssistantToolUseIDs :: "EyrieMessage list \<Rightarrow> string set" where
  "lastAssistantToolUseIDs msgs = (case find isCallTurn (rev msgs) of None \<Rightarrow> {} | Some m \<Rightarrow> callIDs m)"

definition hasOwnersForToolResults :: "EyrieMessage list \<Rightarrow> eyrie_ToolResult list \<Rightarrow> bool" where
  "hasOwnersForToolResults msgs results = (let owners = lastAssistantToolUseIDs msgs in
     if owners = {} then False else \<forall>r \<in> set results. er_ToolUseID r \<in> owners)"

text \<open>The messages in reverse, \<open>later\<close> those already passed.\<close>

fun cutUnanswered :: "EyrieMessage list \<Rightarrow> EyrieMessage list \<Rightarrow> EyrieMessage list" where
  "cutUnanswered [] later = later"
| "cutUnanswered (m # ms) later = (if isCallTurn m
     then (if hasResultsForAllToolUses later (em_ToolUse m) then rev ms @ m # later else rev ms)
     else cutUnanswered ms (m # later))"

fun trimTail :: "EyrieMessage list \<Rightarrow> EyrieMessage list" where
  "trimTail [] = []"
| "trimTail (m # ms) = (if em_ToolResults m \<noteq> []
     then (if hasOwnersForToolResults (rev ms) (em_ToolResults m) then m # ms else trimTail ms)
     else if em_ToolUse m \<noteq> [] then trimTail ms
     else m # ms)"

definition TrimIncompleteTurn :: "EyrieMessage list \<Rightarrow> EyrieMessage list" where
  "TrimIncompleteTurn msgs = rev (trimTail (rev (cutUnanswered (rev msgs) [])))"

text \<open>Well paired, with no call left open at the end.\<close>

fun complete :: "string set \<Rightarrow> string set \<Rightarrow> EyrieMessage list \<Rightarrow> bool" where
  "complete A P [] = (P = {})"
| "complete A P (m # ms) = (if em_ToolResults m \<noteq> []
     then em_ToolUse m = [] \<and> resultIDs m \<subseteq> A \<and> complete A (P - resultIDs m) ms
     else P = {} \<and> complete (callIDs m) (callIDs m) ms)"

definition callsByAssistant :: "EyrieMessage list \<Rightarrow> bool" where
  "callsByAssistant ms \<longleftrightarrow> (\<forall>m \<in> set ms. em_ToolUse m \<noteq> [] \<longrightarrow> em_Role m = ''assistant'')"

lemma callIDs_empty [simp]: "callIDs m = {} \<longleftrightarrow> em_ToolUse m = []"
  by (simp add: callIDs_def)

lemma callIDs_nil [simp]: "em_ToolUse m = [] \<Longrightarrow> callIDs m = {}"
  by simp

lemma resultIDs_nil [simp]: "em_ToolResults m = [] \<Longrightarrow> resultIDs m = {}"
  by (simp add: resultIDs_def)

lemma resultIDs_empty [simp]: "resultIDs m = {} \<longleftrightarrow> em_ToolResults m = []"
  by (simp add: resultIDs_def)

lemma complete_paired: "complete A P ms \<Longrightarrow> paired A P ms"
  by (induction ms arbitrary: A P) (auto split: if_splits)

text \<open>A conversation is a part without calls, or it has a last message with calls, before which it is complete.\<close>

lemma no_calls_complete:
  assumes "paired A P ms" and "\<forall>m \<in> set ms. em_ToolUse m = []"
  shows "complete A P ms \<longleftrightarrow> P \<subseteq> \<Union> (resultIDs ` set ms)"
  using assms
proof (induction ms arbitrary: A P)
  case (Cons m ms)
  show ?case
  proof (cases "em_ToolResults m = []")
    case True
    with True Cons show ?thesis by simp
  next
    case False
    with Cons show ?thesis by (auto split: if_splits)
  qed
qed simp

lemma paired_before_call: "paired A P (xs @ m # ys) \<Longrightarrow> em_ToolUse m \<noteq> [] \<Longrightarrow> complete A P xs \<and> em_ToolResults m = [] \<and> paired (callIDs m) (callIDs m) ys"
  by (induction xs arbitrary: A P) (auto split: if_splits)

lemma complete_append_call: "em_ToolResults m = [] \<Longrightarrow> complete A P (xs @ m # ys) \<longleftrightarrow> complete A P xs \<and> complete (callIDs m) (callIDs m) ys"
  by (induction xs arbitrary: A P) auto

lemma cutUnanswered_call:
  "isCallTurn m \<Longrightarrow> \<forall>y \<in> set ys. \<not> isCallTurn y \<Longrightarrow> cutUnanswered (rev (xs @ m # ys)) later =
    (if hasResultsForAllToolUses (ys @ later) (em_ToolUse m) then xs @ m # ys @ later else xs)"
  by (induction ys arbitrary: later rule: rev_induct) auto

lemma cutUnanswered_none: "\<forall>y \<in> set ys. \<not> isCallTurn y \<Longrightarrow> cutUnanswered (rev ys) later = ys @ later"
  by (induction ys arbitrary: later rule: rev_induct) auto

lemma answered_all: "hasResultsForAllToolUses ys (em_ToolUse m) \<longleftrightarrow> callIDs m \<subseteq> \<Union> (resultIDs ` set ys)"
  by (auto simp: hasResultsForAllToolUses_def callIDs_def)

text \<open>The calls a result at the end of a conversation can answer.\<close>

fun ownersAfter :: "string set \<Rightarrow> EyrieMessage list \<Rightarrow> string set" where
  "ownersAfter A [] = A"
| "ownersAfter A (m # ms) = ownersAfter (if em_ToolResults m \<noteq> [] then A else callIDs m) ms"

lemma ownersAfter_snoc [simp]: "ownersAfter A (ms @ [m]) = (if em_ToolResults m \<noteq> [] then ownersAfter A ms else callIDs m)"
  by (induction ms arbitrary: A) auto

lemma paired_snoc: "paired A P (ms @ [m]) \<Longrightarrow> paired A P ms \<and> (em_ToolResults m \<noteq> [] \<longrightarrow> em_ToolUse m = [] \<and> resultIDs m \<subseteq> ownersAfter A ms)"
  by (induction ms arbitrary: A P) (auto split: if_splits)

lemma complete_snoc: "complete A P (ms @ [m]) \<Longrightarrow> em_ToolResults m = [] \<Longrightarrow> em_ToolUse m = []"
  by (induction ms arbitrary: A P) (auto split: if_splits)

lemma owners_last:
  "paired {} {} ms \<Longrightarrow> callsByAssistant ms \<Longrightarrow> ownersAfter {} ms \<noteq> {} \<Longrightarrow> lastAssistantToolUseIDs ms = ownersAfter {} ms"
proof (induction ms rule: rev_induct)
  case (snoc m ms)
  have p: "paired {} {} ms" "em_ToolResults m \<noteq> [] \<longrightarrow> em_ToolUse m = []" using paired_snoc [OF snoc.prems(1)] by auto
  show ?case
  proof (cases "em_ToolResults m = []")
    case True
    then show ?thesis using snoc.prems by (auto simp: lastAssistantToolUseIDs_def isCallTurn_def callsByAssistant_def)
  next
    case False
    then have "lastAssistantToolUseIDs (ms @ [m]) = lastAssistantToolUseIDs ms" using p(2)
      by (simp add: lastAssistantToolUseIDs_def isCallTurn_def)
    then show ?thesis using False snoc p(1) by (simp add: callsByAssistant_def)
  qed
qed simp

lemma trimTail_complete:
  assumes "complete {} {} ms" and "callsByAssistant ms"
  shows "trimTail (rev ms) = rev ms"
proof (cases ms rule: rev_cases)
  case (snoc ns m)
  have p: "paired {} {} (ns @ [m])" using complete_paired assms(1) snoc by blast
  show ?thesis
  proof (cases "em_ToolResults m = []")
    case True
    then show ?thesis using complete_snoc [of "{}" "{}" ns m] assms(1) snoc by simp
  next
    case False
    with paired_snoc [OF p] have "resultIDs m \<subseteq> ownersAfter {} ns" and ns: "paired {} {} ns" by auto
    moreover from this False have "ownersAfter {} ns \<noteq> {}" by auto
    moreover have "callsByAssistant ns" using assms(2) snoc by (simp add: callsByAssistant_def)
    ultimately have "hasOwnersForToolResults ns (em_ToolResults m)" using owners_last [OF ns]
      by (auto simp: hasOwnersForToolResults_def Let_def resultIDs_def)
    then show ?thesis using False snoc by simp
  qed
qed simp

text \<open>
  C16. \<^bold>\<open>The repair completes the transcript.\<close> Interrupted anywhere, a well paired conversation is cut to a prefix in which
  every call is answered: nothing is cut if none was open, and otherwise exactly the last turn with calls and all that follows.
\<close>

theorem trim_completes:
  assumes "paired {} {} msgs" and "callsByAssistant msgs"
  shows "complete {} {} (TrimIncompleteTurn msgs)
    \<and> (if complete {} {} msgs then TrimIncompleteTurn msgs = msgs
       else \<exists>m rest. msgs = TrimIncompleteTurn msgs @ m # rest \<and> em_ToolUse m \<noteq> [] \<and> (\<forall>x \<in> set rest. em_ToolUse x = []))"
proof (cases "\<exists>m \<in> set msgs. em_ToolUse m \<noteq> []")
  case False
  then have "complete {} {} msgs" using no_calls_complete [OF assms(1)] by simp
  moreover have "cutUnanswered (rev msgs) [] = msgs" using False by (simp add: cutUnanswered_none isCallTurn_def)
  ultimately show ?thesis using trimTail_complete [OF _ assms(2)] by (simp add: TrimIncompleteTurn_def)
next
  case True
  then obtain xs m ys where msgs: "msgs = xs @ m # ys" and m: "em_ToolUse m \<noteq> []" and ys: "\<forall>y \<in> set ys. \<not> em_ToolUse y \<noteq> []"
    by (rule split_list_last_propE)
  have split: "complete {} {} xs" "em_ToolResults m = []" "paired (callIDs m) (callIDs m) ys"
    using paired_before_call [of "{}" "{}" xs m ys] assms(1) m msgs by auto
  have "complete {} {} msgs \<longleftrightarrow> callIDs m \<subseteq> \<Union> (resultIDs ` set ys)"
    using split no_calls_complete [OF split(3)] ys by (simp add: msgs complete_append_call)
  moreover have "cutUnanswered (rev msgs) [] = (if hasResultsForAllToolUses ys (em_ToolUse m) then msgs else xs)"
    using assms(2) m ys cutUnanswered_call [of m ys xs "[]"] by (simp add: msgs isCallTurn_def callsByAssistant_def)
  moreover have "callsByAssistant xs" using assms(2) by (simp add: msgs callsByAssistant_def)
  ultimately show ?thesis using trimTail_complete [OF split(1)] trimTail_complete [OF _ assms(2)] split(1) m ys msgs
    by (auto simp: TrimIncompleteTurn_def answered_all)
qed

section \<open>Collapsing repeated messages\<close>

definition contentPrefix :: "string \<Rightarrow> nat \<Rightarrow> string" where
  "contentPrefix s n = (case IndexByte s (CHR 10) of
     Some idx \<Rightarrow> if idx < n then take idx s else take n s
   | None \<Rightarrow> take n s)"

definition isErrorMessage :: "EyrieMessage \<Rightarrow> bool" where
  "isErrorMessage m \<longleftrightarrow> (case em_ToolResults m of tr # _ \<Rightarrow> er_IsError tr | [] \<Rightarrow> False)
     \<or> HasPrefix (ToLower (em_Content m)) ''error:'' \<or> HasPrefix (ToLower (em_Content m)) ''error ''"

definition extractErrorText :: "EyrieMessage \<Rightarrow> string" where
  "extractErrorText m = (case em_ToolResults m of tr # _ \<Rightarrow> if er_IsError tr then er_Content tr else em_Content m | [] \<Rightarrow> em_Content m)"

definition isSimilarToolResult :: "EyrieMessage \<Rightarrow> EyrieMessage \<Rightarrow> bool" where
  "isSimilarToolResult a b = (case (em_ToolResults a, em_ToolResults b) of
     (ra # _, rb # _) \<Rightarrow> contentPrefix (er_Content ra) 100 = contentPrefix (er_Content rb) 100 | _ \<Rightarrow> False)"

definition toolResultSource :: "EyrieMessage \<Rightarrow> string" where
  "toolResultSource m = (case em_ToolResults m of tr # _ \<Rightarrow> if er_ToolUseID tr \<noteq> [] then er_ToolUseID tr else ''tool'' | [] \<Rightarrow> ''tool'')"

definition sameError :: "EyrieMessage \<Rightarrow> EyrieMessage \<Rightarrow> bool" where
  "sameError m x \<longleftrightarrow> isErrorMessage x \<and> extractErrorText m = extractErrorText x"

definition repeatedError :: "EyrieMessage \<Rightarrow> nat \<Rightarrow> EyrieMessage" where
  "repeatedError m runLen = (textMessage (em_Role m) (''[Error repeated '' @ show_nat runLen @ '' times: '' @ extractErrorText m @ '']''))
     \<lparr>em_ToolResults := em_ToolResults m\<rparr>"

text \<open>The dash is the three bytes of its encoding.\<close>

definition similarOutput :: "EyrieMessage \<Rightarrow> nat \<Rightarrow> EyrieMessage" where
  "similarOutput m n = (let note = ''[Similar output from '' @ toolResultSource m @ [CHR 32, CHR 0xE2, CHR 0x80, CHR 0x94, CHR 32]
       @ show_nat n @ '' results collapsed]'' in
     (textMessage ''user'' note)\<lparr>em_ToolResults := [\<lparr>er_ToolUseID = ''collapsed'', er_Content = note, er_IsError = False\<rparr>]\<rparr>)"

function collapseLoop :: "EyrieMessage list \<Rightarrow> EyrieMessage list" where
  "collapseLoop [] = []"
| "collapseLoop (m # ms) =
    (let same = (if isErrorMessage m then takeWhile (sameError m) ms else []);
         similar = (if em_ToolResults m \<noteq> [] then takeWhile (\<lambda>x. em_ToolResults x \<noteq> [] \<and> isSimilarToolResult m x) ms else []) in
     if same \<noteq> [] then repeatedError m (Suc (length same)) # collapseLoop (drop (length same) ms)
     else if 2 \<le> length similar then m # similarOutput m (length similar - 1) # last similar # collapseLoop (drop (length similar) ms)
     else m # collapseLoop ms)"
  by pat_completeness auto
termination by (relation "measure length") auto

declare collapseLoop.simps(2) [simp del]

definition CollapseRepeatedMessages :: "EyrieMessage list \<Rightarrow> EyrieMessage list" where
  "CollapseRepeatedMessages msgs = (if length msgs < 3 then msgs else collapseLoop msgs)"

text \<open>A conversation as the agent loop writes it: one message for each result, every call answered once.\<close>

fun wired :: "string set \<Rightarrow> EyrieMessage list \<Rightarrow> bool" where
  "wired P [] \<longleftrightarrow> P = {}"
| "wired P (m # ms) = (case em_ToolResults m of
     [] \<Rightarrow> P = {} \<and> wired (callIDs m) ms
   | [r] \<Rightarrow> em_ToolUse m = [] \<and> er_ToolUseID r \<in> P \<and> wired (P - {er_ToolUseID r}) ms
   | _ \<Rightarrow> False)"

text \<open>Two results that are the same error, or three that begin alike, next to each other.\<close>

fun answersMerged :: "EyrieMessage list \<Rightarrow> bool" where
  "answersMerged (x # y # zs) \<longleftrightarrow>
     (em_ToolResults x \<noteq> [] \<and> em_ToolResults y \<noteq> [] \<and> isErrorMessage x \<and> sameError x y)
     \<or> (case zs of z # _ \<Rightarrow> em_ToolResults z \<noteq> [] \<and> isSimilarToolResult x y \<and> isSimilarToolResult x z | [] \<Rightarrow> False)
     \<or> answersMerged (y # zs)"
| "answersMerged _ \<longleftrightarrow> False"

text \<open>The calls answered before the conversation goes on.\<close>

fun leading :: "EyrieMessage list \<Rightarrow> string set" where
  "leading [] = {}"
| "leading (m # ms) = (if em_ToolResults m = [] then {} else resultIDs m \<union> leading ms)"

lemma isSimilar_results: "isSimilarToolResult x y \<Longrightarrow> em_ToolResults x \<noteq> [] \<and> em_ToolResults y \<noteq> []"
  by (auto simp: isSimilarToolResult_def split: list.splits)

lemma wired_text: "em_ToolResults m = [] \<Longrightarrow> wired P (m # ms) \<longleftrightarrow> P = {} \<and> wired (callIDs m) ms"
  by simp

lemma wired_result: "wired P (m # ms) \<Longrightarrow> em_ToolResults m \<noteq> [] \<Longrightarrow>
    \<exists>r. em_ToolResults m = [r] \<and> em_ToolUse m = [] \<and> er_ToolUseID r \<in> P \<and> wired (P - {er_ToolUseID r}) ms"
  by (auto split: list.splits)

declare wired.simps(2) [simp del]

lemma wired_leading: "wired P ms \<Longrightarrow> P = leading ms"
proof (induction ms arbitrary: P)
  case (Cons m ms)
  show ?case
  proof (cases "em_ToolResults m = []")
    case False
    from wired_result [OF Cons.prems False] obtain r where r: "em_ToolResults m = [r]" "er_ToolUseID r \<in> P" "wired (P - {er_ToolUseID r}) ms" by auto
    then show ?thesis using Cons.IH [OF r(3)] by (auto simp: resultIDs_def)
  qed (use Cons.prems in \<open>simp add: wired_text\<close>)
qed simp

lemma wired_skip:
  "wired P (xs @ ms) \<Longrightarrow> \<forall>x \<in> set xs. em_ToolUse x = [] \<Longrightarrow> \<exists>P'. P' \<subseteq> P \<and> wired P' ms"
proof (induction xs arbitrary: P)
  case (Cons x xs)
  show ?case
  proof (cases "em_ToolResults x = []")
    case True
    then have "P = {}" "wired {} (xs @ ms)" using Cons.prems by (auto simp: wired_text)
    then show ?thesis using Cons.IH [of "{}"] Cons.prems(2) by simp
  next
    case False
    then obtain r :: eyrie_ToolResult where "wired (P - {er_ToolUseID r}) (xs @ ms)" using Cons.prems(1) wired_result [of P x "xs @ ms"] by fastforce
    then have "\<exists>P'. P' \<subseteq> P - {er_ToolUseID r} \<and> wired P' ms" using Cons.IH Cons.prems(2) by simp
    then show ?thesis by blast
  qed
qed auto

lemma wired_plain: "wired {} (xs @ ms) \<Longrightarrow> \<forall>x \<in> set xs. em_ToolUse x = [] \<Longrightarrow> (\<forall>x \<in> set xs. em_ToolResults x = []) \<and> wired {} ms"
proof (induction xs)
  case (Cons x xs)
  then have "em_ToolResults x = []" using wired_result [of "{}" x "xs @ ms"] by auto
  with Cons show ?case by (simp add: wired_text)
qed simp

lemma answersMerged_plain: "em_ToolResults m = [] \<Longrightarrow> answersMerged (m # ms) = answersMerged ms"
proof (cases ms)
  case (Cons y zs)
  assume "em_ToolResults m = []"
  then have "\<not> isSimilarToolResult m x" for x using isSimilar_results by blast
  then show ?thesis using Cons \<open>em_ToolResults m = []\<close> by (cases zs) simp_all
qed simp

declare answersMerged.simps(1) [simp del]

lemma answersMerged_skip: "\<forall>x \<in> set xs. em_ToolResults x = [] \<Longrightarrow> answersMerged (xs @ ms) = answersMerged ms"
  by (induction xs) (simp_all add: answersMerged_plain)

lemma answersMerged_next: "em_ToolResults y = [] \<Longrightarrow> answersMerged (m # y # zs) = answersMerged (y # zs)"
  using isSimilar_results [of m y] by (subst answersMerged.simps(1)) (auto split: list.splits)

lemma complete_leading: "complete A P ms \<Longrightarrow> P \<subseteq> leading ms"
  by (induction ms arbitrary: A P) (auto split: if_splits)

text \<open>What the loop needs of a conversation: no call has the marker's id, no turn with calls reads as an error.\<close>

definition plainCalls :: "EyrieMessage list \<Rightarrow> bool" where
  "plainCalls ms \<longleftrightarrow> (\<forall>m \<in> set ms. ''collapsed'' \<notin> callIDs m \<and> (em_ToolUse m \<noteq> [] \<longrightarrow> \<not> isErrorMessage m))"

text \<open>The three ways the loop goes on.\<close>

lemma collapse_cases:
  obtains (error) same rest where "ms = same @ rest" and "same \<noteq> []" and "isErrorMessage m" and "\<forall>x \<in> set same. sameError m x"
      and "collapseLoop (m # ms) = repeatedError m (Suc (length same)) # collapseLoop rest"
    | (similar) sim rest where "ms = sim @ rest" and "2 \<le> length sim" and "em_ToolResults m \<noteq> []" and "\<forall>x \<in> set sim. isSimilarToolResult m x"
      and "collapseLoop (m # ms) = m # similarOutput m (length sim - 1) # last sim # collapseLoop rest"
    | (keep) "collapseLoop (m # ms) = m # collapseLoop ms" and "isErrorMessage m \<Longrightarrow> ms \<noteq> [] \<Longrightarrow> \<not> sameError m (hd ms)"
      and "2 \<le> length ms \<Longrightarrow> \<not> (isSimilarToolResult m (ms ! 0) \<and> isSimilarToolResult m (ms ! 1))"
proof -
  let ?similar = "\<lambda>x. em_ToolResults x \<noteq> [] \<and> isSimilarToolResult m x"
  define same where "same = (if isErrorMessage m then takeWhile (sameError m) ms else [])"
  define sim where "sim = (if em_ToolResults m \<noteq> [] then takeWhile ?similar ms else [])"
  have loop: "collapseLoop (m # ms) = (if same \<noteq> [] then repeatedError m (Suc (length same)) # collapseLoop (drop (length same) ms)
     else if 2 \<le> length sim then m # similarOutput m (length sim - 1) # last sim # collapseLoop (drop (length sim) ms)
     else m # collapseLoop ms)"
    by (simp only: collapseLoop.simps(2) Let_def same_def [symmetric] sim_def [symmetric])
  have parts: "ms = same @ drop (length same) ms" "ms = sim @ drop (length sim) ms"
    by (simp_all add: same_def sim_def flip: dropWhile_eq_drop)
  consider "same \<noteq> []" | "same = []" "2 \<le> length sim" | "same = []" "\<not> 2 \<le> length sim" by blast
  then show ?thesis
  proof cases
    case 1
    then show ?thesis by (intro error [OF parts(1)]) (auto simp: loop same_def dest: set_takeWhileD split: if_splits)
  next
    case 2
    moreover from 2 have "em_ToolResults m \<noteq> []" "\<forall>x \<in> set sim. isSimilarToolResult m x"
      by (auto simp: sim_def dest: set_takeWhileD split: if_splits)
    ultimately show ?thesis by (intro similar [OF parts(2)]) (simp_all add: loop)
  next
    case 3
    have "\<not> sameError m (hd ms)" if "isErrorMessage m" "ms \<noteq> []" using that 3(1) by (cases ms) (auto simp: same_def split: if_splits)
    moreover have "\<not> (isSimilarToolResult m (ms ! 0) \<and> isSimilarToolResult m (ms ! 1))" if n: "2 \<le> length ms"
    proof
      assume "isSimilarToolResult m (ms ! 0) \<and> isSimilarToolResult m (ms ! 1)"
      moreover obtain x y zs where "ms = x # y # zs" using n by (metis One_nat_def Suc_1 Suc_le_length_iff)
      ultimately have "2 \<le> length sim" using isSimilar_results by (auto simp: sim_def)
      with 3(2) show False by blast
    qed
    ultimately show ?thesis using 3 by (intro keep) (simp_all add: loop)
  qed
qed

lemma wired_results:
  "wired P (xs @ ms) \<Longrightarrow> \<forall>x \<in> set xs. em_ToolResults x \<noteq> [] \<Longrightarrow> (\<forall>x \<in> set xs. resultIDs x \<subseteq> P \<and> em_ToolUse x = [])"
proof (induction xs arbitrary: P)
  case (Cons x xs)
  from Cons.prems wired_result [of P x "xs @ ms"] obtain r where r: "em_ToolResults x = [r]" "em_ToolUse x = []" "er_ToolUseID r \<in> P"
    "wired (P - {er_ToolUseID r}) (xs @ ms)" by auto
  with Cons.IH [OF r(4)] Cons.prems(2) show ?case by (auto simp: resultIDs_def)
qed simp

lemma error_no_calls: "plainCalls ms \<Longrightarrow> m \<in> set ms \<Longrightarrow> sameError x m \<Longrightarrow> em_ToolUse m = []"
  by (auto simp: plainCalls_def sameError_def)

lemma plainCalls_append [simp]: "plainCalls (xs @ ys) \<longleftrightarrow> plainCalls xs \<and> plainCalls ys"
  by (auto simp: plainCalls_def)

lemma repeatedError_blocks [simp]: "em_ToolResults (repeatedError m n) = em_ToolResults m" "em_ToolUse (repeatedError m n) = []"
    "resultIDs (repeatedError m n) = resultIDs m"
  by (simp_all add: repeatedError_def resultIDs_def textMessage_def)

lemma similarOutput_blocks [simp]: "em_ToolResults (similarOutput m n) \<noteq> []" "resultIDs (similarOutput m n) = {''collapsed''}"
  by (simp_all add: similarOutput_def resultIDs_def Let_def)

lemma leading_collapse: "wired P ms \<Longrightarrow> plainCalls ms \<Longrightarrow> leading (collapseLoop ms) \<subseteq> insert ''collapsed'' P"
proof (induction ms arbitrary: P rule: length_induct)
  case (1 ns)
  show ?case
  proof (cases ns)
    case (Cons m ms)
    show ?thesis
    proof (cases "em_ToolResults m = []")
      case True
      then show ?thesis unfolding Cons
        by (cases rule: collapse_cases [of ms m]) simp_all
    next
      case False
      from wired_result [OF "1.prems"(1) [unfolded Cons] False] obtain r where r: "em_ToolResults m = [r]" "er_ToolUseID r \<in> P" "wired (P - {er_ToolUseID r}) ms"
        by auto
      then have m: "resultIDs m \<subseteq> P" by (simp add: resultIDs_def)
      have IH: "leading (collapseLoop xs) \<subseteq> insert ''collapsed'' P" if "length xs < length ns" "wired Q xs" "Q \<subseteq> P" "plainCalls xs" for xs Q
        using "1.IH" that by blast
      show ?thesis unfolding Cons
      proof (cases rule: collapse_cases [of ms m])
        case (error same rest)
        have "\<forall>x \<in> set same. em_ToolUse x = []" using error(1,4) "1.prems"(2) Cons error_no_calls by (metis in_set_conv_decomp plainCalls_append append_Cons)
        then obtain Q where "Q \<subseteq> P - {er_ToolUseID r}" "wired Q rest" using wired_skip [of "P - {er_ToolUseID r}" same rest] r(3) error(1) by auto
        then have "leading (collapseLoop rest) \<subseteq> insert ''collapsed'' P" using error(1) Cons "1.prems"(2) plainCalls_append [of "m # same" rest] by (intro IH [of rest Q]) auto
        then show "leading (collapseLoop (m # ms)) \<subseteq> insert ''collapsed'' P" using m by (auto simp: error(5))
      next
        case (similar sim rest)
        then have "\<forall>x \<in> set sim. em_ToolResults x \<noteq> []" using isSimilar_results by blast
        with wired_results [of "P - {er_ToolUseID r}" sim rest] r(3) similar(1) have res: "\<forall>x \<in> set sim. resultIDs x \<subseteq> P - {er_ToolUseID r} \<and> em_ToolUse x = []" by simp
        then obtain Q where "Q \<subseteq> P - {er_ToolUseID r}" "wired Q rest" using wired_skip [of "P - {er_ToolUseID r}" sim rest] r(3) similar(1) by auto
        then have "leading (collapseLoop rest) \<subseteq> insert ''collapsed'' P" using similar(1,2) Cons "1.prems"(2) plainCalls_append [of "m # sim" rest] by (intro IH [of rest Q]) auto
        moreover have "sim \<noteq> []" using similar(2) by auto
        then have "resultIDs (last sim) \<subseteq> P" using res last_in_set by blast
        ultimately show "leading (collapseLoop (m # ms)) \<subseteq> insert ''collapsed'' P" using m by (auto simp: similar(5))
      next
        case keep
        then show "leading (collapseLoop (m # ms)) \<subseteq> insert ''collapsed'' P"
          using m IH [of ms "P - {er_ToolUseID r}"] r(3) Cons "1.prems"(2) by (auto simp: plainCalls_def)
      qed
    qed
  qed simp
qed

lemma complete_collapse_bound:
  "wired Q ms \<Longrightarrow> plainCalls ms \<Longrightarrow> complete A P (collapseLoop ms) \<Longrightarrow> ''collapsed'' \<notin> P \<Longrightarrow> P \<subseteq> Q"
  using complete_leading leading_collapse by blast

text \<open>A run of equal errors is harmless exactly if only its first message is a result.\<close>

lemma collapse_error:
  assumes P: "wired P (m # same @ rest)" "P \<subseteq> A" "''collapsed'' \<notin> A" and plain: "plainCalls (m # same @ rest)"
    and run: "same \<noteq> []" "isErrorMessage m" "\<forall>x \<in> set same. sameError m x"
    and IH: "\<And>A. wired {} rest \<Longrightarrow> ''collapsed'' \<notin> A \<Longrightarrow> complete A {} (collapseLoop rest) \<longleftrightarrow> \<not> answersMerged rest"
  shows "complete A P (repeatedError m n # collapseLoop rest) \<longleftrightarrow> \<not> answersMerged (m # same @ rest)"
proof -
  have calls: "\<forall>x \<in> set same. em_ToolUse x = []" "em_ToolUse m = []" using plain run by (auto simp: plainCalls_def sameError_def)
  show ?thesis
  proof (cases "em_ToolResults m = []")
    case True
    with P(1) calls have "P = {}" and "wired {} (same @ rest)" by (auto simp: wired_text)
    moreover from this calls have "\<forall>x \<in> set same. em_ToolResults x = []" "wired {} rest" using wired_plain by auto
    ultimately show ?thesis using True IH [of "{}"] by (simp add: answersMerged_plain answersMerged_skip)
  next
    case False
    then obtain r where r: "em_ToolResults m = [r]" "er_ToolUseID r \<in> P" "wired (P - {er_ToolUseID r}) (same @ rest)"
      using wired_result [OF P(1)] by auto
    then have rid: "resultIDs m = {er_ToolUseID r}" by (simp add: resultIDs_def)
    obtain y ys where same: "same = y # ys" using run(1) by (cases same) auto
    show ?thesis
    proof (cases "em_ToolResults y = []")
      case True
      with r(3) calls(1) same have none: "P - {er_ToolUseID r} = {}" and "wired {} (ys @ rest)" by (auto simp: wired_text)
      then have "\<forall>x \<in> set ys. em_ToolResults x = []" and rest: "wired {} rest" using wired_plain calls(1) same by auto
      then have "answersMerged (m # same @ rest) = answersMerged rest" using True same
        by (simp add: answersMerged_next answersMerged_plain answersMerged_skip)
      moreover have "complete A P (repeatedError m n # collapseLoop rest) \<longleftrightarrow> er_ToolUseID r \<in> A \<and> complete A (P - {er_ToolUseID r}) (collapseLoop rest)"
        using False rid by simp
      ultimately show ?thesis using r(2) P(2,3) IH [OF rest P(3)] unfolding none by blast
    next
      case res: False
      from wired_result [of _ y "ys @ rest"] r(3) same res obtain q :: eyrie_ToolResult
        where q: "er_ToolUseID q \<in> P - {er_ToolUseID r}" "wired (P - {er_ToolUseID r} - {er_ToolUseID q}) (ys @ rest)" by fastforce
      then obtain Q where Q: "Q \<subseteq> P - {er_ToolUseID r} - {er_ToolUseID q}" "wired Q rest"
        using wired_skip [of "P - {er_ToolUseID r} - {er_ToolUseID q}" ys rest] calls(1) same by auto
      have "\<not> complete A (P - {er_ToolUseID r}) (collapseLoop rest)"
        using complete_collapse_bound [OF Q(2), of A "P - {er_ToolUseID r}"] plain P(2,3) Q(1) q(1) plainCalls_append [of "m # same" rest] by auto
      moreover have "answersMerged (m # same @ rest)" using res False run same by (simp add: answersMerged.simps(1))
      ultimately show ?thesis using False rid by simp
    qed
  qed
qed

lemma collapse_exact:
  "wired P ns \<Longrightarrow> P \<subseteq> A \<Longrightarrow> ''collapsed'' \<notin> A \<Longrightarrow> plainCalls ns \<Longrightarrow> complete A P (collapseLoop ns) \<longleftrightarrow> \<not> answersMerged ns"
proof (induction ns arbitrary: P A rule: length_induct)
  case (1 ns)
  show ?case
  proof (cases ns)
    case Nil
    then show ?thesis using "1.prems"(1) by simp
  next
    case (Cons m ms)
    note prems = "1.prems" [unfolded Cons]
    have IH: "complete B Q (collapseLoop xs) \<longleftrightarrow> \<not> answersMerged xs"
      if "length xs < length ns" "wired Q xs" "Q \<subseteq> B" "''collapsed'' \<notin> B" "plainCalls xs" for xs Q B
      using "1.IH" that by blast
    show ?thesis unfolding Cons
    proof (cases rule: collapse_cases [of ms m])
      case (error same rest)
      have "plainCalls rest" using prems(4) error(1) plainCalls_append [of "m # same" rest] by simp
      then have "complete A P (repeatedError m (Suc (length same)) # collapseLoop rest) \<longleftrightarrow> \<not> answersMerged (m # same @ rest)"
        using Cons error(1) by (intro collapse_error prems [unfolded error(1)] error(2-4) IH) auto
      then show "complete A P (collapseLoop (m # ms)) \<longleftrightarrow> \<not> answersMerged (m # ms)" by (simp only: error(5)) (simp only: error(1))
    next
      case (similar sim rest)
      then obtain x y zs where sim: "sim = x # y # zs" by (metis One_nat_def Suc_1 Suc_le_length_iff)
      have "\<not> complete A P (collapseLoop (m # ms))" using prems(3) by (simp add: similar(3,5))
      moreover have "isSimilarToolResult m x" "isSimilarToolResult m y" using similar(4) by (simp_all add: sim)
      then have "answersMerged (m # x # y # zs @ rest)" using isSimilar_results [of m y] by (subst answersMerged.simps(1)) simp
      then have "answersMerged (m # ms)" by (simp add: similar(1) sim)
      ultimately show "complete A P (collapseLoop (m # ms)) \<longleftrightarrow> \<not> answersMerged (m # ms)" by simp
    next
      case keep
      have merged: "answersMerged (m # ms) = answersMerged ms"
      proof (cases ms)
        case (Cons y zs)
        have "\<not> (isErrorMessage m \<and> sameError m y)" using keep(2) Cons by auto
        moreover have "\<not> (isSimilarToolResult m y \<and> isSimilarToolResult m z)" if "zs = z # zs'" for z zs' using keep(3) Cons that by auto
        ultimately show ?thesis unfolding Cons by (subst answersMerged.simps(1)) (auto split: list.splits)
      qed simp
      show "complete A P (collapseLoop (m # ms)) \<longleftrightarrow> \<not> answersMerged (m # ms)"
      proof (cases "em_ToolResults m = []")
        case True
        then show ?thesis using prems IH [of ms "callIDs m" "callIDs m"] Cons unfolding keep(1) merged
          by (auto simp: wired_text plainCalls_def)
      next
        case False
        then obtain r where "em_ToolResults m = [r]" "em_ToolUse m = []" "er_ToolUseID r \<in> P" "wired (P - {er_ToolUseID r}) ms"
          using wired_result [OF prems(1)] by auto
        then show ?thesis using False prems IH [of ms "P - {er_ToolUseID r}" A] Cons unfolding keep(1) merged
          by (auto simp: plainCalls_def resultIDs_def)
      qed
    qed
  qed
qed

text \<open>
  C38. \<^bold>\<open>Collapsing can break the pairing.\<close> In a conversation with one result message for each call, collapsing keeps every
  call answered exactly if there are no two adjacent results that are the same error and no three that begin alike.
\<close>

theorem collapse_pairing_exact:
  assumes "wired {} msgs" and "plainCalls msgs"
  shows "complete {} {} (CollapseRepeatedMessages msgs) \<longleftrightarrow> \<not> answersMerged msgs"
proof (cases "length msgs < 3")
  case False
  then show ?thesis using collapse_exact [OF assms(1)] assms(2) by (simp add: CollapseRepeatedMessages_def)
next
  case True
  have "\<not> answersMerged msgs"
  proof (cases msgs)
    case (Cons x xs)
    have "em_ToolResults x = []" using wired_result [of "{}" x xs] assms(1) Cons by auto
    then have "answersMerged msgs = answersMerged xs" by (simp add: Cons answersMerged_plain)
    moreover have "length xs < 2" using True Cons by simp
    then have "xs = [] \<or> (\<exists>y. xs = [y])" by (cases xs) (auto simp: length_Suc_conv less_Suc_eq)
    ultimately show ?thesis by auto
  qed simp
  moreover have "complete A P ms" if "wired P ms" "P \<subseteq> A" for A P ms using that
  proof (induction ms arbitrary: A P)
    case (Cons m ms)
    show ?case
    proof (cases "em_ToolResults m = []")
      case False
      with wired_result [OF Cons.prems(1)] obtain r where r: "em_ToolResults m = [r]" "em_ToolUse m = []" "er_ToolUseID r \<in> P"
        "wired (P - {er_ToolUseID r}) ms" by auto
      then show ?thesis using Cons.IH [OF r(4), of A] Cons.prems(2) by (auto simp: resultIDs_def)
    qed (use Cons in \<open>auto simp: wired_text\<close>)
  qed simp
  ultimately show ?thesis using True assms(1) by (simp add: CollapseRepeatedMessages_def)
qed

section \<open>Examples\<close>


text \<open>Interrupted after one of two calls was answered.\<close>

definition sampleTwoCalls :: EyrieMessage where
  "sampleTwoCalls = sampleCall\<lparr>em_ToolUse := [\<lparr>ec_ID = ''t1'', ec_Name = ''Bash'', ec_Arguments = None\<rparr>, \<lparr>ec_ID = ''t2'', ec_Name = ''Bash'', ec_Arguments = None\<rparr>]\<rparr>"

definition sampleDenied :: "string \<Rightarrow> EyrieMessage" where
  "sampleDenied i = (textMessage ''user'' ''permission denied'')\<lparr>em_ToolResults := [\<lparr>er_ToolUseID = i, er_Content = ''permission denied'', er_IsError = True\<rparr>]\<rparr>"

theorem trim_completes_witness:
  "TrimIncompleteTurn [textMessage ''user'' ''go'', sampleTwoCalls, sampleDenied ''t1''] = [textMessage ''user'' ''go'']
   \<and> complete {} {} (TrimIncompleteTurn [textMessage ''user'' ''go'', sampleTwoCalls, sampleDenied ''t1''])"
proof
  have "paired {} {} [textMessage ''user'' ''go'', sampleTwoCalls, sampleDenied ''t1'']" by code_simp
  moreover have "callsByAssistant [textMessage ''user'' ''go'', sampleTwoCalls, sampleDenied ''t1'']" by code_simp
  ultimately show "complete {} {} (TrimIncompleteTurn [textMessage ''user'' ''go'', sampleTwoCalls, sampleDenied ''t1''])"
    using trim_completes by blast
qed code_simp

text \<open>Two calls denied with the same words lose an answer.\<close>

theorem collapse_pairing_exact_witness:
  "\<not> complete {} {} (CollapseRepeatedMessages [textMessage ''user'' ''go'', sampleTwoCalls, sampleDenied ''t1'', sampleDenied ''t2''])
   \<and> complete {} {} (CollapseRepeatedMessages [textMessage ''user'' ''go'', sampleCall, sampleResult])"
proof -
  have "wired {} [textMessage ''user'' ''go'', sampleTwoCalls, sampleDenied ''t1'', sampleDenied ''t2'']"
    and "plainCalls [textMessage ''user'' ''go'', sampleTwoCalls, sampleDenied ''t1'', sampleDenied ''t2'']"
    and "answersMerged [textMessage ''user'' ''go'', sampleTwoCalls, sampleDenied ''t1'', sampleDenied ''t2'']"
    and "wired {} [textMessage ''user'' ''go'', sampleCall, sampleResult]" and "plainCalls [textMessage ''user'' ''go'', sampleCall, sampleResult]"
    and "\<not> answersMerged [textMessage ''user'' ''go'', sampleCall, sampleResult]"
    by code_simp+
  then show ?thesis using collapse_pairing_exact by blast
qed

end
