(* ===== verification/Circuit_Breaker.thy ===== *)
theory Circuit_Breaker
  imports Go_Prelude
begin

text \<open>
  The circuit breaker of \<open>internal/circuitbreaker/circuitbreaker.go\<close>: after a number of consecutive failures it skips
  the operation until a cooldown has passed, then lets one attempt probe. A duration is a number of nanoseconds, and an
  instant far from the ends of Go's range.
\<close>

datatype breakerState = Closed | Open | HalfOpen

record Breaker =
  br_maxConsecutiveFailures :: int
  br_cooldown :: int
  br_consecutiveFailures :: int
  br_nextRetryAt :: gotime
  br_lastFailureAt :: gotime

record Decision =
  de_Allow :: bool
  de_WasHalfOpen :: bool
  de_EffectiveConsecutiveFailures :: int

definition breaker_New :: "int \<Rightarrow> int \<Rightarrow> Breaker" where
  "breaker_New maxConsecutiveFailures cooldown =
    \<lparr>br_maxConsecutiveFailures = (if maxConsecutiveFailures < 1 then 1 else maxConsecutiveFailures),
     br_cooldown = (if cooldown < 0 then 0 else cooldown), br_consecutiveFailures = 0, br_nextRetryAt = 0, br_lastFailureAt = 0\<rparr>"

definition ShouldAllow :: "gotime \<Rightarrow> Breaker \<Rightarrow> Breaker \<times> Decision" where
  "ShouldAllow now b =
    (if br_consecutiveFailures b < br_maxConsecutiveFailures b
     then (b, \<lparr>de_Allow = True, de_WasHalfOpen = False, de_EffectiveConsecutiveFailures = br_consecutiveFailures b\<rparr>)
     else let b1 = (if IsZero (br_nextRetryAt b) \<and> \<not> IsZero (br_lastFailureAt b) then b\<lparr>br_nextRetryAt := br_lastFailureAt b + br_cooldown b\<rparr> else b) in
       if \<not> IsZero (br_nextRetryAt b1) \<and> now < br_nextRetryAt b1
       then (b1, \<lparr>de_Allow = False, de_WasHalfOpen = False, de_EffectiveConsecutiveFailures = br_consecutiveFailures b1\<rparr>)
       else let b2 = b1\<lparr>br_consecutiveFailures := br_maxConsecutiveFailures b1 - 1\<rparr> in
         (b2, \<lparr>de_Allow = True, de_WasHalfOpen = True, de_EffectiveConsecutiveFailures = br_consecutiveFailures b2\<rparr>))"

definition breaker_RecordSuccess :: "Breaker \<Rightarrow> Breaker" where
  "breaker_RecordSuccess b = b\<lparr>br_consecutiveFailures := 0, br_nextRetryAt := 0, br_lastFailureAt := 0\<rparr>"

definition breaker_RecordFailure :: "gotime \<Rightarrow> Breaker \<Rightarrow> Breaker" where
  "breaker_RecordFailure now b = b\<lparr>br_consecutiveFailures := br_consecutiveFailures b + 1, br_lastFailureAt := now,
     br_nextRetryAt := now + br_cooldown b\<rparr>"

definition breaker_State :: "gotime \<Rightarrow> Breaker \<Rightarrow> breakerState" where
  "breaker_State now b =
    (if br_consecutiveFailures b < br_maxConsecutiveFailures b then Closed
     else if \<not> IsZero (br_nextRetryAt b) \<and> now < br_nextRetryAt b then Open
     else HalfOpen)"

definition ConsecutiveFailures :: "Breaker \<Rightarrow> int" where
  "ConsecutiveFailures b = br_consecutiveFailures b"

text \<open>An operation that always fails, tried at the instants of a list: the number of attempts that are made.\<close>

fun failedAttempts :: "Breaker \<Rightarrow> gotime list \<Rightarrow> nat" where
  "failedAttempts b [] = 0"
| "failedAttempts b (t # ts) = (case ShouldAllow t b of (b', d) \<Rightarrow>
     if de_Allow d then Suc (failedAttempts (breaker_RecordFailure t b') ts) else failedAttempts b' ts)"

text \<open>Open since the failure at \<open>s\<close>.\<close>

definition openSince :: "gotime \<Rightarrow> Breaker \<Rightarrow> bool" where
  "openSince s b \<longleftrightarrow> br_consecutiveFailures b = br_maxConsecutiveFailures b \<and> br_nextRetryAt b = s + br_cooldown b"

lemma ShouldAllow_open:
  assumes "openSince s b" and "0 < s + br_cooldown b"
  shows "ShouldAllow t b = (if t < s + br_cooldown b
      then (b, \<lparr>de_Allow = False, de_WasHalfOpen = False, de_EffectiveConsecutiveFailures = br_consecutiveFailures b\<rparr>)
      else (b\<lparr>br_consecutiveFailures := br_maxConsecutiveFailures b - 1\<rparr>,
            \<lparr>de_Allow = True, de_WasHalfOpen = True, de_EffectiveConsecutiveFailures = br_maxConsecutiveFailures b - 1\<rparr>))"
  using assms by (simp add: ShouldAllow_def openSince_def Let_def IsZero_def)

lemma probe_reopens: "openSince t (breaker_RecordFailure t (b\<lparr>br_consecutiveFailures := br_maxConsecutiveFailures b - 1\<rparr>))"
  by (simp add: openSince_def breaker_RecordFailure_def)

lemma open_bound:
  assumes "openSince s b" and "0 < br_cooldown b" and "0 \<le> s" and "sorted ts" and "\<forall>t \<in> set ts. s \<le> t \<and> t \<le> fin" and "s \<le> fin"
  shows "int (failedAttempts b ts) \<le> (fin - s) div br_cooldown b"
  using assms
proof (induction ts arbitrary: s b)
  case Nil
  then show ?case by (simp add: pos_imp_zdiv_nonneg_iff)
next
  case (Cons t ts)
  let ?c = "br_cooldown b"
  note allow = ShouldAllow_open [OF Cons.prems(1), of t]
  show ?case
  proof (cases "t < s + ?c")
    case True
    then show ?thesis using Cons allow by simp
  next
    case False
    let ?b = "breaker_RecordFailure t (b\<lparr>br_consecutiveFailures := br_maxConsecutiveFailures b - 1\<rparr>)"
    have c: "br_cooldown ?b = ?c" by (simp add: breaker_RecordFailure_def)
    have "int (failedAttempts ?b ts) \<le> (fin - t) div ?c"
      using Cons.IH [OF probe_reopens [of t b]] Cons.prems unfolding c by simp
    moreover have "(fin - t) div ?c + 1 = (fin - t + ?c) div ?c" using Cons.prems(2) div_add_self2 [of ?c "fin - t"] by linarith
    moreover have "(fin - t + ?c) div ?c \<le> (fin - s) div ?c" using False Cons.prems(2) by (intro zdiv_mono1) auto
    ultimately show ?thesis using False allow Cons.prems(2,3) by simp
  qed
qed

lemma closed_bound:
  assumes "br_consecutiveFailures b < br_maxConsecutiveFailures b" and "0 < br_cooldown b" and "0 \<le> start" and "sorted ts"
    and "\<forall>t \<in> set ts. start \<le> t \<and> t \<le> fin" and "start \<le> fin"
  shows "int (failedAttempts b ts) \<le> br_maxConsecutiveFailures b - br_consecutiveFailures b + (fin - start) div br_cooldown b"
  using assms
proof (induction ts arbitrary: b)
  case Nil
  then show ?case by (simp add: pos_imp_zdiv_nonneg_iff add_nonneg_nonneg)
next
  case (Cons t ts)
  let ?b = "breaker_RecordFailure t b" and ?c = "br_cooldown b"
  have eq: "failedAttempts b (t # ts) = Suc (failedAttempts ?b ts)" using Cons.prems(1) by (simp add: ShouldAllow_def)
  have b: "br_cooldown ?b = ?c" "br_maxConsecutiveFailures ?b = br_maxConsecutiveFailures b" "br_consecutiveFailures ?b = br_consecutiveFailures b + 1"
    by (simp_all add: breaker_RecordFailure_def)
  show ?case
  proof (cases "br_consecutiveFailures b + 1 < br_maxConsecutiveFailures b")
    case True
    then have "int (failedAttempts ?b ts) \<le> br_maxConsecutiveFailures b - (br_consecutiveFailures b + 1) + (fin - start) div ?c"
      using Cons.IH [of ?b] Cons.prems unfolding b by simp
    then show ?thesis unfolding eq by simp
  next
    case False
    then have "openSince t ?b" using Cons.prems(1) by (simp add: openSince_def breaker_RecordFailure_def)
    then have "int (failedAttempts ?b ts) \<le> (fin - t) div ?c" using open_bound [of t ?b ts fin] Cons.prems unfolding b by simp
    moreover have "(fin - t) div ?c \<le> (fin - start) div ?c" using Cons.prems by (intro zdiv_mono1) auto
    ultimately show ?thesis using Cons.prems(1) unfolding eq by simp
  qed
qed

text \<open>
  C39. \<^bold>\<open>No retry storm.\<close> However often an operation that always fails is tried between two instants, a fresh breaker lets
  at most its number of failures through, and one more for each full cooldown in between.
\<close>

theorem retry_storm_bounded:
  assumes "1 \<le> limit" and "0 < cooldown" and "0 \<le> start" and "sorted ts" and "\<forall>t \<in> set ts. start \<le> t \<and> t \<le> fin" and "start \<le> fin"
  shows "int (failedAttempts (breaker_New limit cooldown) ts) \<le> limit + (fin - start) div cooldown"
  using closed_bound [of "breaker_New limit cooldown" start ts fin] assms by (simp add: breaker_New_def)

theorem retry_storm_bounded_witness:
  "int (failedAttempts (breaker_New 3 100) [1, 2, 3, 4, 5, 150, 160]) \<le> 3 + (160 - 1) div 100
   \<and> failedAttempts (breaker_New 3 100) [1, 2, 3, 4, 5, 150, 160] = 4"
  using retry_storm_bounded [of 3 100 1 "[1, 2, 3, 4, 5, 150, 160]" 160]
  by (simp add: breaker_New_def ShouldAllow_def breaker_RecordFailure_def IsZero_def Let_def)

end
