(* ===== verification/Auto_Compact.thy ===== *)
theory Auto_Compact
  imports Circuit_Breaker Transcript "HOL-Library.Signed_Division"
begin

text \<open>
  When a conversation is reduced and by which strategy: \<open>internal/engine/compact_auto.go\<close>, \<open>compact_strategy_engine.go\<close> and
  the strategies, the split of an oversized turn (\<open>compact_split.go\<close>), pruning by relevance
  (\<open>internal/relevanceprune\<close>), the context budget (\<open>ctxmgr/context_budget.go\<close>) and the governor that runs before every
  turn (\<open>context_governor.go\<close>). Summaries, the tokenizer, the memory file, the floating-point scores and thresholds, and
  the instants at which the clock is read are given by an environment.
\<close>

section \<open>Environment and configuration\<close>

record pruneMessage =
  pm_Role :: string
  pm_Content :: string
  pm_Timestamp :: gotime
  pm_HasToolCall :: bool
  pm_IsError :: bool

text \<open>
  The score of a group is a \<open>float64\<close>; any integer that orders groups the same way stands for it. \<open>en_ramp\<close> is the
  floating-point product of the file budget, \<open>en_clearThreshold\<close> eight tenths of the window.
\<close>

record compactEnv =
  en_estimate :: "EyrieMessage \<Rightarrow> int"
  en_memorySize :: "int option"
  en_memory :: "string option"
  en_supportsNative :: bool
  en_native :: "EyrieMessage list \<Rightarrow> string option"
  en_summary :: "EyrieMessage list \<Rightarrow> string"
  en_partialSummary :: "EyrieMessage list \<Rightarrow> string"
  en_turnSummary :: "EyrieMessage \<Rightarrow> string"
  en_fileBlock :: "EyrieMessage list \<Rightarrow> string"
  en_secondHalf :: "string \<Rightarrow> string"
  en_groupScore :: "string \<Rightarrow> pruneMessage list \<Rightarrow> int"
  en_sort :: "(nat \<times> nat) list \<Rightarrow> (nat \<times> nat) list"
  en_clearThreshold :: "int \<Rightarrow> int"
  en_ramp :: "int \<Rightarrow> int \<Rightarrow> int \<Rightarrow> int"
  en_done :: "nat \<Rightarrow> bool"
  en_pinned :: int
  en_asked :: gotime
  en_failed :: gotime

record CompactConfig =
  cc_AutoEnabled :: bool
  cc_ContextWindowSize :: int
  cc_AutoCompactBuffer :: int
  cc_MaxOutputTokens :: int
  cc_MaxFailures :: int
  cc_Cooldown :: int

definition DefaultCompactConfig :: CompactConfig where
  "DefaultCompactConfig = \<lparr>cc_AutoEnabled = True, cc_ContextWindowSize = 200000, cc_AutoCompactBuffer = 13000,
     cc_MaxOutputTokens = 20000, cc_MaxFailures = 3, cc_Cooldown = 5 * 60 * 1000000000\<rparr>"

definition estimateAll :: "compactEnv \<Rightarrow> EyrieMessage list \<Rightarrow> int" where
  "estimateAll env msgs = (\<Sum>m \<leftarrow> msgs. en_estimate env m)"

section \<open>Summaries\<close>

definition FormatCompactSummary :: "string \<Rightarrow> string" where
  "FormatCompactSummary raw0 = (let
     raw = (case (stringIndex raw0 ''<analysis>'', stringIndex raw0 ''</analysis>'') of
         (Some start, Some fin) \<Rightarrow> if start < fin then take start raw0 @ drop (fin + 11) raw0 else raw0
       | _ \<Rightarrow> raw0) in
     case (stringIndex raw ''<summary>'', stringIndex raw ''</summary>'') of
         (Some start, Some fin) \<Rightarrow> if start < fin then take (fin - (start + 9)) (drop (start + 9) raw) else raw
       | _ \<Rightarrow> raw)"

definition turnTokenBudget :: "compactEnv \<Rightarrow> EyrieMessage list \<Rightarrow> int" where
  "turnTokenBudget env tail = (if tail = [] then 0
     else let budget = (estimateAll env tail sdiv int (length tail)) * 3 in if budget < 2000 then 2000 else budget)"

definition SplitTurnNeeded :: "compactEnv \<Rightarrow> nat \<Rightarrow> EyrieMessage list \<Rightarrow> bool" where
  "SplitTurnNeeded env keepCount raw = (if length raw \<le> keepCount then False
     else let tail = drop (length raw - keepCount) raw in \<exists>m \<in> set tail. turnTokenBudget env tail < en_estimate env m)"

definition smartBody :: "compactEnv \<Rightarrow> EyrieMessage list \<Rightarrow> EyrieMessage list" where
  "smartBody env raw = smartCompactBody (en_done env) (en_done env) (en_pinned env) (en_summary env raw) (en_fileBlock env raw) raw"

definition halved :: "compactEnv \<Rightarrow> EyrieMessage \<Rightarrow> EyrieMessage" where
  "halved env m = m\<lparr>em_Content := en_secondHalf env (em_Content m),
     em_ToolResults := map (\<lambda>tr. tr\<lparr>er_Content := en_secondHalf env (er_Content tr)\<rparr>) (em_ToolResults m)\<rparr>"

definition splitTurnCompact :: "compactEnv \<Rightarrow> EyrieMessage list \<Rightarrow> EyrieMessage list" where
  "splitTurnCompact env raw =
    (let keepEnd = (if smartCompactKeepEnd < en_pinned env then en_pinned env else smartCompactKeepEnd);
         tailStart = nat (int (length raw) - keepEnd);
         tail = drop tailStart raw; budget = turnTokenBudget env tail in
     if int (length raw) \<le> keepEnd then raw
     else case find_index (map (\<lambda>m. budget < en_estimate env m) tail) True of
       None \<Rightarrow> smartBody env raw
     | Some oversized \<Rightarrow> let splitPoint = tailStart + oversized;
         fileBlock = en_fileBlock env (take splitPoint raw);
         combined = ''[Combined summary]'' @ [CHR 10] @ en_partialSummary env (take splitPoint raw) @ [CHR 10, CHR 10]
           @ ''[Oversized turn context]'' @ [CHR 10] @ en_turnSummary env (raw ! splitPoint)
           @ (if fileBlock \<noteq> [] then [CHR 10, CHR 10] @ fileBlock else []);
         remaining = halved env (raw ! splitPoint) # drop (Suc splitPoint) raw;
         keep = [textMessage ''user'' (combined @ [CHR 10, CHR 10] @ ''[Continue from the recent messages below.]'')]
           @ (if em_Role (hd remaining) \<noteq> ''assistant''
              then [textMessage ''assistant'' ''Understood. I have the context from the summary above. Continuing.''] else [])
           @ remaining
       in ApplyCompaction raw keep (int (length raw)))"

definition smartCompact :: "compactEnv \<Rightarrow> EyrieMessage list \<Rightarrow> EyrieMessage list" where
  "smartCompact env raw = (if length raw \<le> 20 then raw
     else if SplitTurnNeeded env (nat smartCompactKeepEnd) raw then splitTurnCompact env raw
     else smartBody env raw)"

section \<open>Pruning by relevance\<close>

definition NormalizeCompactTailTurns :: "int \<Rightarrow> int" where
  "NormalizeCompactTailTurns v = (if 1 \<le> v then v else 3)"

fun groupLoop :: "pruneMessage list \<Rightarrow> pruneMessage list \<Rightarrow> pruneMessage list list" where
  "groupLoop current [] = (if current \<noteq> [] then [current] else [])"
| "groupLoop current (m # ms) = (if pm_Role m = ''assistant'' \<and> current \<noteq> []
     then current # groupLoop [m] ms else groupLoop (current @ [m]) ms)"

definition groupByRound :: "pruneMessage list \<Rightarrow> pruneMessage list list" where
  "groupByRound msgs = groupLoop [] msgs"

definition RoughTokenCount :: "string \<Rightarrow> int" where
  "RoughTokenCount text = int (length text) div 4"

fun fillBudget :: "int \<Rightarrow> int \<Rightarrow> (pruneMessage list \<times> int) list \<Rightarrow> pruneMessage list" where
  "fillBudget target used [] = []"
| "fillBudget target used (s # ss) = (let tokens = RoughTokenCount (concat (map pm_Content (fst s))) in
     if target < used + tokens then fillBudget target used ss else fst s @ fillBudget target (used + tokens) ss)"

definition PruneByRelevance :: "(pruneMessage list \<Rightarrow> int) \<Rightarrow> int \<Rightarrow> int \<Rightarrow> pruneMessage list \<Rightarrow> pruneMessage list" where
  "PruneByRelevance score targetTokens preserveRecent messages =
    (let target = (if targetTokens \<le> 0 then 5000 else targetTokens); preserve = NormalizeCompactTailTurns preserveRecent;
         cut = nat (int (length messages) - preserve) in
     if int (length messages) \<le> preserve then messages
     else let scored = SliceStable (\<lambda>a b. if snd a \<noteq> snd b then snd b < snd a else pm_Timestamp (hd (fst b)) < pm_Timestamp (hd (fst a)))
            (map (\<lambda>g. (g, score g)) (groupByRound (take cut messages))) in
       SliceStable (\<lambda>a b. pm_Timestamp a < pm_Timestamp b) (drop cut messages @ fillBudget target 0 scored))"

definition toPruneMessages :: "EyrieMessage list \<Rightarrow> gotime \<Rightarrow> pruneMessage list" where
  "toPruneMessages raw now = map (\<lambda>m. \<lparr>pm_Role = em_Role m, pm_Content = em_Content m, pm_Timestamp = now,
     pm_HasToolCall = (em_ToolUse m \<noteq> [] \<or> em_ToolResults m \<noteq> []), pm_IsError = (\<exists>tr \<in> set (em_ToolResults m). er_IsError tr)\<rparr>) raw"

definition toEyrieMessages :: "pruneMessage list \<Rightarrow> EyrieMessage list" where
  "toEyrieMessages msgs = map (\<lambda>m. textMessage (pm_Role m) (pm_Content m)) msgs"

definition lastUserText :: "EyrieMessage list \<Rightarrow> string" where
  "lastUserText raw = (case find (\<lambda>m. em_Role m = ''user'') (rev raw) of Some m \<Rightarrow> em_Content m | None \<Rightarrow> [])"

definition relevanceCompact :: "compactEnv \<Rightarrow> int \<Rightarrow> EyrieMessage list \<Rightarrow> EyrieMessage list" where
  "relevanceCompact env target raw = toEyrieMessages (PruneByRelevance (en_groupScore env (lastUserText raw)) target 3 (toPruneMessages raw (en_asked env)))"

section \<open>Strategies\<close>

datatype strategy = ProviderNative | MicroCompact | SessionMemory | SmartCompact | RelevancePrune | TruncateAll

fun strategy_Name :: "strategy \<Rightarrow> string" where
  "strategy_Name ProviderNative = ''provider_native''"
| "strategy_Name MicroCompact = ''micro''"
| "strategy_Name SessionMemory = ''session_memory''"
| "strategy_Name SmartCompact = ''smart''"
| "strategy_Name RelevancePrune = ''relevance''"
| "strategy_Name TruncateAll = ''truncate''"

text \<open>Messages after the last assistant text, more than twenty.\<close>

definition HasTimeGap :: "EyrieMessage list \<Rightarrow> int \<Rightarrow> bool" where
  "HasTimeGap msgs threshold = (case find_index (map (\<lambda>m. HasTextContent m \<and> em_Role m = ''assistant'') (rev msgs)) True of
     None \<Rightarrow> False
   | Some messagesSinceText \<Rightarrow> 20 < messagesSinceText \<or> threshold = 0)"

definition compactableCount :: "EyrieMessage list \<Rightarrow> nat" where
  "compactableCount msgs = length (filter (\<lambda>m. em_ToolResults m \<noteq> [] \<and> IsCompactableTool (ToolNameForResult m msgs)) msgs)"

fun ShouldTrigger :: "compactEnv \<Rightarrow> EyrieMessage list \<Rightarrow> int \<Rightarrow> int \<Rightarrow> strategy \<Rightarrow> bool" where
  "ShouldTrigger env msgs tokenCount threshold ProviderNative \<longleftrightarrow> threshold \<le> tokenCount \<and> 8 \<le> length msgs"
| "ShouldTrigger env msgs tokenCount threshold MicroCompact \<longleftrightarrow>
     (if tokenCount < threshold sdiv 2 then False else if compactableCount msgs < 5 then False else HasTimeGap msgs (60 * 60 * 1000000000))"
| "ShouldTrigger env msgs tokenCount threshold SessionMemory \<longleftrightarrow>
     (if tokenCount < threshold then False else case en_memorySize env of None \<Rightarrow> False | Some bytes \<Rightarrow> \<not> bytes < 100)"
| "ShouldTrigger env msgs tokenCount threshold SmartCompact \<longleftrightarrow> threshold \<le> tokenCount \<and> 20 < length msgs"
| "ShouldTrigger env msgs tokenCount threshold RelevancePrune \<longleftrightarrow> threshold \<le> tokenCount \<and> 20 \<le> length msgs"
| "ShouldTrigger env msgs tokenCount threshold TruncateAll \<longleftrightarrow> threshold \<le> tokenCount"

definition targetTokens :: "CompactConfig \<Rightarrow> int" where
  "targetTokens cfg = cc_ContextWindowSize cfg - cc_AutoCompactBuffer cfg - cc_MaxOutputTokens cfg"

definition registryStrategies :: "strategy list" where
  "registryStrategies = [ProviderNative, MicroCompact, SessionMemory, SmartCompact, RelevancePrune, TruncateAll]"

definition SelectStrategy :: "compactEnv \<Rightarrow> CompactConfig \<Rightarrow> EyrieMessage list \<Rightarrow> int \<Rightarrow> strategy" where
  "SelectStrategy env cfg msgs tokenCount =
    (case find (\<lambda>s. \<not> (s = ProviderNative \<and> \<not> en_supportsNative env) \<and> ShouldTrigger env msgs tokenCount (targetTokens cfg) s) registryStrategies of
       Some s \<Rightarrow> s | None \<Rightarrow> TruncateAll)"

definition nativeCompact :: "compactEnv \<Rightarrow> EyrieMessage list \<Rightarrow> compactError + EyrieMessage list" where
  "nativeCompact env raw = (if \<not> en_supportsNative env then Inl ErrNativeUnavailable
     else case en_native env raw of None \<Rightarrow> Inl ErrNativeFailed
     | Some summary \<Rightarrow> let keepEnd = (if length raw < 6 then length raw else 6) in
         Inr (textMessage ''user'' (FormatCompactSummary summary) # drop (length raw - keepEnd) raw))"

definition truncateNow :: "compactEnv \<Rightarrow> EyrieMessage list \<Rightarrow> EyrieMessage list" where
  "truncateNow env raw = session_compact (en_done env) (en_done env) (en_pinned env) raw raw"

fun strategy_Compact :: "compactEnv \<Rightarrow> CompactConfig \<Rightarrow> EyrieMessage list \<Rightarrow> strategy \<Rightarrow> compactError + EyrieMessage list" where
  "strategy_Compact env cfg raw ProviderNative = nativeCompact env raw"
| "strategy_Compact env cfg raw MicroCompact = Inr (MicrocompactMessages raw DefaultMicroCompactConfig)"
| "strategy_Compact env cfg raw SessionMemory = sessionMemoryCompact (en_estimate env) (en_memory env) raw"
| "strategy_Compact env cfg raw SmartCompact = Inr (smartCompact env raw)"
| "strategy_Compact env cfg raw RelevancePrune = Inr (relevanceCompact env (targetTokens cfg) raw)"
| "strategy_Compact env cfg raw TruncateAll = Inr (truncateNow env raw)"

section \<open>The orchestrator\<close>

record AutoCompactor =
  ac_config :: CompactConfig
  ac_breaker :: Breaker
  ac_lastStrategy :: string

record CompactionEvent =
  ce_Strategy :: string
  ce_TokensBefore :: int
  ce_TokensAfter :: int
  ce_Manual :: bool

definition NewAutoCompactor :: "CompactConfig \<Rightarrow> AutoCompactor" where
  "NewAutoCompactor cfg = \<lparr>ac_config = cfg, ac_breaker = breaker_New (cc_MaxFailures cfg) (cc_Cooldown cfg), ac_lastStrategy = []\<rparr>"

definition Configure :: "CompactConfig \<Rightarrow> AutoCompactor \<Rightarrow> AutoCompactor" where
  "Configure cfg ac = ac\<lparr>ac_config := cfg, ac_breaker := breaker_New (cc_MaxFailures cfg) (cc_Cooldown cfg)\<rparr>"

definition ShouldAutoCompact :: "compactEnv \<Rightarrow> EyrieMessage list \<Rightarrow> AutoCompactor \<Rightarrow> AutoCompactor \<times> bool" where
  "ShouldAutoCompact env msgs ac = (if \<not> cc_AutoEnabled (ac_config ac) then (ac, False)
     else case ShouldAllow (en_asked env) (ac_breaker ac) of (b, d) \<Rightarrow>
       (ac\<lparr>ac_breaker := b\<rparr>, de_Allow d \<and> targetTokens (ac_config ac) \<le> estimateAll env msgs))"

definition RunCompaction :: "compactEnv \<Rightarrow> EyrieMessage list \<Rightarrow> AutoCompactor \<Rightarrow> AutoCompactor \<times> EyrieMessage list \<times> (compactError + string)" where
  "RunCompaction env msgs ac =
    (let s = SelectStrategy env (ac_config ac) msgs (estimateAll env msgs) in
     case strategy_Compact env (ac_config ac) msgs s of
       Inl e \<Rightarrow> (ac, msgs, Inl e)
     | Inr out \<Rightarrow> (ac\<lparr>ac_lastStrategy := strategy_Name s\<rparr>, out, Inr (strategy_Name s)))"

definition recordCompaction :: "string \<Rightarrow> int \<Rightarrow> int \<Rightarrow> bool \<Rightarrow> CompactionEvent list" where
  "recordCompaction name before after manual = (if name = [] then []
     else [\<lparr>ce_Strategy = name, ce_TokensBefore = before, ce_TokensAfter = after, ce_Manual = manual\<rparr>])"

record compactOutcome =
  co_ac :: AutoCompactor
  co_messages :: "EyrieMessage list"
  co_strategy :: string
  co_compacted :: bool
  co_events :: "CompactionEvent list"

definition truncateFallback :: "compactEnv \<Rightarrow> int \<Rightarrow> EyrieMessage list \<Rightarrow> AutoCompactor \<Rightarrow> compactOutcome" where
  "truncateFallback env before msgs ac = (let msgs' = truncateNow env msgs in
     \<lparr>co_ac = ac\<lparr>ac_breaker := breaker_RecordFailure (en_failed env) (ac_breaker ac)\<rparr>, co_messages = msgs', co_strategy = ''truncate_fallback'',
      co_compacted = True, co_events = recordCompaction ''truncate_fallback'' before (estimateAll env msgs') False\<rparr>)"

definition AutoCompactIfNeeded :: "compactEnv \<Rightarrow> EyrieMessage list \<Rightarrow> AutoCompactor \<Rightarrow> compactOutcome" where
  "AutoCompactIfNeeded env msgs ac0 = (case ShouldAutoCompact env msgs ac0 of (ac, needed) \<Rightarrow>
     if \<not> needed then \<lparr>co_ac = ac, co_messages = msgs, co_strategy = [], co_compacted = False, co_events = []\<rparr>
     else let before = estimateAll env msgs in case RunCompaction env msgs ac of (ac1, out, r) \<Rightarrow> (case r of
         Inl e \<Rightarrow> truncateFallback env before out ac1
       | Inr name \<Rightarrow> let after = estimateAll env out in
           if before \<le> after then truncateFallback env before out ac1
           else \<lparr>co_ac = ac1\<lparr>ac_breaker := breaker_RecordSuccess (ac_breaker ac1)\<rparr>, co_messages = out, co_strategy = name,
             co_compacted = True, co_events = recordCompaction name before after False\<rparr>))"

definition ResetFailures :: "AutoCompactor \<Rightarrow> AutoCompactor" where
  "ResetFailures ac = ac\<lparr>ac_breaker := breaker_RecordSuccess (ac_breaker ac)\<rparr>"

section \<open>The context budget\<close>

definition clamp :: "int \<Rightarrow> int \<Rightarrow> int \<Rightarrow> int" where
  "clamp v lo hi = (if v < lo then lo else if hi < v then hi else v)"

record ContextBudget =
  bu_Total :: int
  bu_SystemPrompt :: int
  bu_ToolDefs :: int
  bu_RepoMap :: int
  bu_Memory :: int
  bu_Workspace :: int
  bu_PreloadedFiles :: int
  bu_Conversation :: int
  bu_OutputReserve :: int
  bu_SafetyMargin :: int

record ContextAllocation =
  al_SystemPrompt :: int
  al_ToolDefs :: int
  al_RepoMap :: int
  al_Memory :: int
  al_Workspace :: int
  al_PreloadedFiles :: int
  al_Conversation :: int
  al_OutputReserve :: int
  al_SafetyMargin :: int
  al_Remaining :: int

definition NewContextBudget :: "int \<Rightarrow> ContextBudget" where
  "NewContextBudget contextSize =
    (let systemPrompt = clamp (contextSize * 3 sdiv 100) 3000 5000; toolDefs = clamp (contextSize * 2 sdiv 100) 2000 3000;
         repoMap = clamp (contextSize * 2 sdiv 100) 2000 4000; memory = clamp (contextSize * 1 sdiv 100) 1000 2000;
         workspace = clamp (contextSize * 1 sdiv 200) 300 500; outputReserve = clamp (contextSize * 10 sdiv 100) 4000 20000;
         safetyMargin = clamp (contextSize * 7 sdiv 100) 2000 15000;
         fixed = systemPrompt + toolDefs + repoMap + memory + workspace;
         reserved = outputReserve + safetyMargin;
         adaptive = contextSize - fixed - reserved;
         maxPreload0 = clamp (contextSize * 15 sdiv 100) 5000 30000;
         maxPreload = (if adaptive < maxPreload0 then adaptive sdiv 2 else maxPreload0)
     in \<lparr>bu_Total = contextSize, bu_SystemPrompt = systemPrompt, bu_ToolDefs = toolDefs, bu_RepoMap = repoMap, bu_Memory = memory,
         bu_Workspace = workspace, bu_PreloadedFiles = maxPreload, bu_Conversation = adaptive - maxPreload,
         bu_OutputReserve = outputReserve, bu_SafetyMargin = safetyMargin\<rparr>)"

definition adaptiveFileBudget :: "(int \<Rightarrow> int \<Rightarrow> int \<Rightarrow> int) \<Rightarrow> ContextBudget \<Rightarrow> int \<Rightarrow> int \<Rightarrow> int" where
  "adaptiveFileBudget ramp b conversationTokens adaptiveSpace =
    (let minFiles0 = clamp (bu_Total b * 5 sdiv 100) 2000 10000; maxFiles0 = clamp (bu_Total b * 15 sdiv 100) 5000 30000;
         maxFiles = (if adaptiveSpace < maxFiles0 then adaptiveSpace sdiv 2 else maxFiles0);
         minFiles = (if maxFiles < minFiles0 then maxFiles else minFiles0);
         threshold = adaptiveSpace - minFiles
     in if threshold \<le> 0 then minFiles
        else if conversationTokens \<le> 0 then maxFiles
        else if threshold \<le> conversationTokens then minFiles
        else clamp (maxFiles - ramp (maxFiles - minFiles) conversationTokens threshold) minFiles maxFiles)"

definition fixedTokens :: "ContextBudget \<Rightarrow> int" where
  "fixedTokens b = bu_SystemPrompt b + bu_ToolDefs b + bu_RepoMap b + bu_Memory b + bu_Workspace b"

definition reservedTokens :: "ContextBudget \<Rightarrow> int" where
  "reservedTokens b = bu_OutputReserve b + bu_SafetyMargin b"

definition Allocate :: "(int \<Rightarrow> int \<Rightarrow> int \<Rightarrow> int) \<Rightarrow> ContextBudget \<Rightarrow> int \<Rightarrow> ContextAllocation" where
  "Allocate ramp b conversationTokens =
    (let adaptive0 = bu_Total b - fixedTokens b - reservedTokens b;
         adaptive = (if adaptive0 < 0 then 0 else adaptive0);
         fileBudget = adaptiveFileBudget ramp b conversationTokens adaptive;
         conversation = (if adaptive - fileBudget < 0 then 0 else adaptive - fileBudget);
         used = fixedTokens b + reservedTokens b + fileBudget + conversation
     in \<lparr>al_SystemPrompt = bu_SystemPrompt b, al_ToolDefs = bu_ToolDefs b, al_RepoMap = bu_RepoMap b, al_Memory = bu_Memory b,
         al_Workspace = bu_Workspace b, al_PreloadedFiles = fileBudget, al_Conversation = conversation,
         al_OutputReserve = bu_OutputReserve b, al_SafetyMargin = bu_SafetyMargin b, al_Remaining = bu_Total b - used\<rparr>)"

definition budget_ShouldCompact :: "(int \<Rightarrow> int \<Rightarrow> int \<Rightarrow> int) \<Rightarrow> ContextBudget \<Rightarrow> int \<Rightarrow> bool" where
  "budget_ShouldCompact ramp b conversationTokens \<longleftrightarrow> al_Conversation (Allocate ramp b conversationTokens) < conversationTokens"

definition FilesBudget :: "(int \<Rightarrow> int \<Rightarrow> int \<Rightarrow> int) \<Rightarrow> ContextBudget \<Rightarrow> int \<Rightarrow> int" where
  "FilesBudget ramp b conversationTokens = al_PreloadedFiles (Allocate ramp b conversationTokens)"

section \<open>The governor\<close>

definition maxContextMessages :: nat where
  "maxContextMessages = 100"

definition compactThresholdPct :: "int \<Rightarrow> int" where
  "compactThresholdPct configured = (let pct = (if configured \<le> 0 then 85 else configured) in
     if pct < 50 then 50 else if 95 < pct then 95 else pct)"

definition compactConfig :: "int \<Rightarrow> int \<Rightarrow> CompactConfig" where
  "compactConfig window configured = (let buffer = window - (window * compactThresholdPct configured) sdiv 100 in
     DefaultCompactConfig\<lparr>cc_AutoEnabled := True, cc_ContextWindowSize := window, cc_MaxOutputTokens := 0,
       cc_AutoCompactBuffer := (if buffer < 0 then 0 else buffer)\<rparr>)"

record governed =
  go_messages :: "EyrieMessage list"
  go_window :: int
  go_pct :: int
  go_compactor :: "AutoCompactor option"
  go_events :: "CompactionEvent list"

definition EnsureAutoCompactor :: "governed \<Rightarrow> AutoCompactor" where
  "EnsureAutoCompactor s = (case go_compactor s of
     Some ac \<Rightarrow> Configure (compactConfig (go_window s) (go_pct s)) ac
   | None \<Rightarrow> NewAutoCompactor (compactConfig (go_window s) (go_pct s)))"

definition session_ClearOldToolResults :: "compactEnv \<Rightarrow> int \<Rightarrow> EyrieMessage list \<Rightarrow> EyrieMessage list" where
  "session_ClearOldToolResults env window raw = (let tokens = estimateAll env raw; threshold = en_clearThreshold env window in
     if raw = [] \<or> window \<le> 0 \<or> tokens < threshold then raw
     else case clearOldToolResults (en_sort env) raw tokens threshold of (out, freed) \<Rightarrow> if 0 < freed then out else raw)"

definition smartNow :: "compactEnv \<Rightarrow> string \<Rightarrow> AutoCompactor \<Rightarrow> governed \<Rightarrow> governed \<times> string \<times> bool" where
  "smartNow env name ac s = (let out = smartCompact env (go_messages s) in
     (s\<lparr>go_messages := out, go_compactor := Some ac,
        go_events := go_events s @ recordCompaction name (estimateAll env (go_messages s)) (estimateAll env out) False\<rparr>, name, True))"

definition ManageContextBeforeTurn :: "compactEnv \<Rightarrow> governed \<Rightarrow> governed \<times> string \<times> bool" where
  "ManageContextBeforeTurn env s0 =
    (let cleared = session_ClearOldToolResults env (go_window s0) (CollapseRepeatedMessages (go_messages s0));
         o1 = AutoCompactIfNeeded env cleared (EnsureAutoCompactor s0);
         s = s0\<lparr>go_messages := co_messages o1, go_compactor := Some (co_ac o1), go_events := go_events s0 @ co_events o1\<rparr> in
     if co_compacted o1 then (s, co_strategy o1, True)
     else if maxContextMessages < length (go_messages s) then smartNow env ''smart_message_cap'' (co_ac o1) s
     else if budget_ShouldCompact (en_ramp env) (NewContextBudget (go_window s)) (estimateAll env (go_messages s)) then smartNow env ''smart_budget'' (co_ac o1) s
     else (s, [], False))"

definition WillCompactBeforeTurn :: "compactEnv \<Rightarrow> governed \<Rightarrow> governed \<times> bool" where
  "WillCompactBeforeTurn env s = (case ShouldAutoCompact env (go_messages s) (EnsureAutoCompactor s) of (ac, needed) \<Rightarrow>
     (s\<lparr>go_compactor := Some ac\<rparr>, needed \<or> maxContextMessages < length (go_messages s)
       \<or> budget_ShouldCompact (en_ramp env) (NewContextBudget (go_window s)) (estimateAll env (go_messages s))))"

definition CompactConversation :: "compactEnv \<Rightarrow> governed \<Rightarrow> governed \<times> string \<times> int \<times> int" where
  "CompactConversation env s0 =
    (let msgs = CollapseRepeatedMessages (go_messages s0); before = estimateAll env msgs in
     case RunCompaction env msgs (EnsureAutoCompactor s0) of (ac, out, r) \<Rightarrow>
       (let (final, name) = (case r of Inl e \<Rightarrow> (smartCompact env out, ''smart_fallback'') | Inr n \<Rightarrow> (out, n)); after = estimateAll env final in
        (s0\<lparr>go_messages := final, go_compactor := Some ac, go_events := go_events s0 @ recordCompaction name before after True\<rparr>, name, before, after)))"

definition ShouldCompactByBudget :: "compactEnv \<Rightarrow> governed \<Rightarrow> bool" where
  "ShouldCompactByBudget env s \<longleftrightarrow> (go_window s * compactThresholdPct (go_pct s)) sdiv 100 \<le> estimateAll env (go_messages s)"

section \<open>The breaker is forgotten\<close>

lemma ShouldAutoCompact_fresh:
  assumes "ac_breaker ac = breaker_New n c" and "cc_AutoEnabled (ac_config ac)"
  shows "ShouldAutoCompact env msgs ac = (ac, targetTokens (ac_config ac) \<le> estimateAll env msgs)"
  using assms by (simp add: ShouldAutoCompact_def ShouldAllow_def breaker_New_def)

lemma EnsureAutoCompactor_fields:
  "ac_config (EnsureAutoCompactor s) = compactConfig (go_window s) (go_pct s)"
  "ac_breaker (EnsureAutoCompactor s) = breaker_New 3 (5 * 60 * 1000000000)"
  by (auto simp: EnsureAutoCompactor_def Configure_def NewAutoCompactor_def compactConfig_def DefaultCompactConfig_def Let_def split: option.splits)

text \<open>What a run decides does not depend on the name of the last strategy.\<close>

definition sameOutcome :: "compactOutcome \<Rightarrow> compactOutcome \<Rightarrow> bool" where
  "sameOutcome a b \<longleftrightarrow> co_messages a = co_messages b \<and> co_strategy a = co_strategy b \<and> co_compacted a = co_compacted b \<and> co_events a = co_events b"

lemma RunCompaction_same:
  assumes "ac_config a = ac_config b"
  shows "snd (RunCompaction env msgs a) = snd (RunCompaction env msgs b)"
  using assms by (simp add: RunCompaction_def Let_def split: sum.splits)

lemma AutoCompact_same:
  assumes "ac_config a = ac_config b" and "ac_breaker a = breaker_New n c" and "ac_breaker b = breaker_New n c" and "cc_AutoEnabled (ac_config b)"
  shows "sameOutcome (AutoCompactIfNeeded env msgs a) (AutoCompactIfNeeded env msgs b)"
proof -
  obtain out r where "snd (RunCompaction env msgs a) = (out, r)" by fastforce
  moreover from this have "snd (RunCompaction env msgs b) = (out, r)" using RunCompaction_same [OF assms(1)] by simp
  ultimately obtain a1 b1 where "RunCompaction env msgs a = (a1, out, r)" "RunCompaction env msgs b = (b1, out, r)" by (metis prod.collapse)
  then show ?thesis using assms
    by (auto simp: AutoCompactIfNeeded_def ShouldAutoCompact_fresh sameOutcome_def truncateFallback_def Let_def split: sum.splits)
qed

lemma AutoCompact_attempts:
  assumes "ac_breaker ac = breaker_New n c" and "cc_AutoEnabled (ac_config ac)" and "targetTokens (ac_config ac) \<le> estimateAll env msgs"
  shows "co_compacted (AutoCompactIfNeeded env msgs ac)"
  using assms by (auto simp: AutoCompactIfNeeded_def ShouldAutoCompact_fresh truncateFallback_def Let_def split: sum.splits prod.splits)

text \<open>
  C32. \<^bold>\<open>The breaker never pauses compaction.\<close> The governor reconfigures the compactor before every turn, and that replaces
  the breaker: whatever failures it had recorded, the turn goes on as with a new compactor, and compaction is attempted
  whenever the estimate reaches the threshold.
\<close>

theorem breaker_never_pauses:
  "go_messages (fst (ManageContextBeforeTurn env s)) = go_messages (fst (ManageContextBeforeTurn env (s\<lparr>go_compactor := None\<rparr>)))
   \<and> snd (ManageContextBeforeTurn env s) = snd (ManageContextBeforeTurn env (s\<lparr>go_compactor := None\<rparr>))
   \<and> (targetTokens (compactConfig (go_window s) (go_pct s))
        \<le> estimateAll env (session_ClearOldToolResults env (go_window s) (CollapseRepeatedMessages (go_messages s)))
      \<longrightarrow> snd (snd (ManageContextBeforeTurn env s)))"
proof -
  let ?cleared = "session_ClearOldToolResults env (go_window s) (CollapseRepeatedMessages (go_messages s))"
  let ?a = "AutoCompactIfNeeded env ?cleared (EnsureAutoCompactor s)"
  let ?b = "AutoCompactIfNeeded env ?cleared (EnsureAutoCompactor (s\<lparr>go_compactor := None\<rparr>))"
  have on: "cc_AutoEnabled (compactConfig w p)" for w p by (simp add: compactConfig_def Let_def)
  have same: "sameOutcome ?a ?b" by (rule AutoCompact_same) (simp_all add: EnsureAutoCompactor_fields on)
  have "targetTokens (compactConfig (go_window s) (go_pct s)) \<le> estimateAll env ?cleared \<longrightarrow> co_compacted ?a"
    by (intro impI AutoCompact_attempts) (simp_all add: EnsureAutoCompactor_fields on)
  then show ?thesis using same by (auto simp: ManageContextBeforeTurn_def smartNow_def sameOutcome_def Let_def)
qed

section \<open>Which strategies keep the pairing\<close>

lemma relevance_selected: "SelectStrategy env cfg msgs tokens = RelevancePrune \<Longrightarrow> length msgs = 20"
  by (auto simp: SelectStrategy_def registryStrategies_def split: if_splits)

lemma truncateNow_paired: "paired {} {} msgs \<Longrightarrow> paired {} {} (truncateNow env msgs)"
  unfolding truncateNow_def using session_compact_paired [of msgs "[]"] by (simp add: clean_def)

lemma strategy_paired:
  assumes "paired {} {} msgs" and "\<forall>m \<in> set msgs. IsCompactBoundary m \<longrightarrow> em_ToolUse m = [] \<and> em_ToolResults m = []"
    and "s \<in> {MicroCompact, SessionMemory, TruncateAll}" and "strategy_Compact env cfg msgs s = Inr out"
  shows "paired {} {} out"
  using assms MicrocompactMessages_paired [OF assms(1), of DefaultMicroCompactConfig] truncateNow_paired [OF assms(1)] sessionMemoryCompact_paired [OF assms(1,2)]
  by (auto simp: DefaultMicroCompactConfig_def)

text \<open>
  \<^bold>\<open>Compaction before a turn keeps calls with their results\<close>, if the strategy chosen is microcompaction, the session
  memory or truncation, also when it fails or does not help and truncation steps in.
\<close>

theorem auto_compaction_paired:
  assumes "paired {} {} msgs" and "\<forall>m \<in> set msgs. IsCompactBoundary m \<longrightarrow> em_ToolUse m = [] \<and> em_ToolResults m = []"
    and "SelectStrategy env (ac_config ac) msgs (estimateAll env msgs) \<in> {MicroCompact, SessionMemory, TruncateAll}"
  shows "paired {} {} (co_messages (AutoCompactIfNeeded env msgs ac))"
proof -
  obtain ac1 needed where should: "ShouldAutoCompact env msgs ac = (ac1, needed)" by fastforce
  then have cfg: "ac_config ac1 = ac_config ac" by (auto simp: ShouldAutoCompact_def split: if_splits prod.splits)
  obtain ac2 out r where run: "RunCompaction env msgs ac1 = (ac2, out, r)" by (metis prod_cases3)
  have "paired {} {} out"
  proof (cases "strategy_Compact env (ac_config ac) msgs (SelectStrategy env (ac_config ac) msgs (estimateAll env msgs))")
    case (Inl e)
    then show ?thesis using run assms(1) cfg by (auto simp: RunCompaction_def Let_def)
  next
    case (Inr x)
    then show ?thesis using run strategy_paired [OF assms Inr] cfg by (auto simp: RunCompaction_def Let_def)
  qed
  then show ?thesis using should run assms(1) truncateNow_paired [of out env]
    by (auto simp: AutoCompactIfNeeded_def truncateFallback_def Let_def split: sum.splits)
qed

section \<open>Pruning reorders\<close>

definition plainText :: "EyrieMessage \<Rightarrow> EyrieMessage" where
  "plainText m = textMessage (em_Role m) (em_Content m)"

lemma SliceStable_constant: "\<forall>x \<in> set xs. \<forall>y \<in> set xs. \<not> lt x y \<Longrightarrow> SliceStable lt xs = xs"
proof (induction xs)
  case (Cons x xs)
  have "\<forall>y \<in> set ys. \<not> lt y x \<Longrightarrow> insert_by lt x ys = x # ys" for ys by (cases ys) auto
  then show ?case using Cons by simp
qed simp

lemma concat_groupLoop: "concat (groupLoop current ms) = current @ ms"
  by (induction current ms rule: groupLoop.induct) auto

lemma groups_sublist: "g \<in> set (groupByRound ms) \<Longrightarrow> set g \<subseteq> set ms"
proof -
  assume "g \<in> set (groupByRound ms)"
  then have "set g \<subseteq> set (concat (groupByRound ms))" by auto
  then show ?thesis by (simp add: groupByRound_def concat_groupLoop)
qed

lemma fillBudget_subset: "set (fillBudget target used ss) \<subseteq> \<Union> (set ` fst ` set ss)"
  by (induction target used ss rule: fillBudget.induct) (auto simp: Let_def)

text \<open>
  \<^bold>\<open>Pruning by relevance puts the end first.\<close> All messages get the same timestamp, so the final sort leaves the order in
  which they were collected: the last three come first. Every message returned is one of the conversation, without its
  calls and results.
\<close>

theorem relevance_reorders:
  assumes "3 < length raw"
  shows "take 3 (relevanceCompact env target raw) = map plainText (drop (length raw - 3) raw)
    \<and> set (relevanceCompact env target raw) \<subseteq> plainText ` set raw"
proof -
  let ?pm = "toPruneMessages raw (en_asked env)" and ?n = "length raw - 3"
  let ?score = "en_groupScore env (lastUserText raw)" and ?target = "if target \<le> 0 then 5000 else target"
  let ?scored = "SliceStable (\<lambda>a b. if snd a \<noteq> snd b then snd b < snd a else pm_Timestamp (hd (fst b)) < pm_Timestamp (hd (fst a)))
    (map (\<lambda>g. (g, ?score g)) (groupByRound (take ?n ?pm)))"
  let ?kept = "fillBudget ?target 0 ?scored"
  have len: "length ?pm = length raw" by (simp add: toPruneMessages_def)
  have eq: "PruneByRelevance ?score target 3 ?pm = SliceStable (\<lambda>a b. pm_Timestamp a < pm_Timestamp b) (drop ?n ?pm @ ?kept)"
    using assms by (simp add: PruneByRelevance_def NormalizeCompactTailTurns_def Let_def len nat_diff_distrib)
  have "set ?kept \<subseteq> set ?pm"
  proof -
    have "set ?kept \<subseteq> \<Union> (set ` set (groupByRound (take ?n ?pm)))" using fillBudget_subset [of ?target 0 ?scored] by (auto simp: image_image)
    then show ?thesis using groups_sublist by (blast dest: in_set_takeD)
  qed
  then have sub: "set (drop ?n ?pm @ ?kept) \<subseteq> set ?pm" by (auto dest: in_set_dropD)
  moreover have "\<forall>x \<in> set ?pm. pm_Timestamp x = en_asked env" by (auto simp: toPruneMessages_def)
  ultimately have "\<forall>x \<in> set (drop ?n ?pm @ ?kept). pm_Timestamp x = en_asked env" by blast
  then have same: "PruneByRelevance ?score target 3 ?pm = drop ?n ?pm @ ?kept" unfolding eq by (intro SliceStable_constant) auto
  have plain: "(\<lambda>m. textMessage (pm_Role m) (pm_Content m)) ` set ?pm = plainText ` set raw"
    "map (\<lambda>m. textMessage (pm_Role m) (pm_Content m)) (drop ?n ?pm) = map plainText (drop ?n raw)"
    by (simp_all add: toPruneMessages_def plainText_def image_image drop_map comp_def)
  have out: "relevanceCompact env target raw = map plainText (drop ?n raw) @ map (\<lambda>m. textMessage (pm_Role m) (pm_Content m)) ?kept"
    by (simp add: relevanceCompact_def toEyrieMessages_def same plain(2))
  have "set (relevanceCompact env target raw) = (\<lambda>m. textMessage (pm_Role m) (pm_Content m)) ` set (drop ?n ?pm @ ?kept)"
    unfolding relevanceCompact_def toEyrieMessages_def same by (simp only: set_map)
  also have "\<dots> \<subseteq> (\<lambda>m. textMessage (pm_Role m) (pm_Content m)) ` set ?pm" using sub by (rule image_mono)
  finally show ?thesis using assms unfolding plain(1) by (simp add: out)
qed

section \<open>The budget adds up\<close>

lemma clamp_bounds: "lo \<le> hi \<Longrightarrow> lo \<le> clamp v lo hi \<and> clamp v lo hi \<le> hi"
  by (auto simp: clamp_def)

text \<open>
  \<^bold>\<open>The allocation is exact.\<close> Whatever the length of the conversation and the rounding of the ramp, no part is
  negative and the parts add up to the window, unless the fixed parts alone exceed it. Then nothing is left for the
  conversation, and every nonempty one is to be compacted.
\<close>

theorem allocation_exact:
  assumes "0 \<le> w"
  shows "let b = NewContextBudget w; a = Allocate ramp b n; parts = fixedTokens b + reservedTokens b in
      0 \<le> al_PreloadedFiles a \<and> 0 \<le> al_Conversation a
      \<and> parts + al_PreloadedFiles a + al_Conversation a = max w parts \<and> al_Remaining a = min 0 (w - parts)
      \<and> (w \<le> parts \<longrightarrow> budget_ShouldCompact ramp b n = (0 < n))"
proof -
  define b where "b = NewContextBudget w"
  define a where "a = Allocate ramp b n"
  define adaptive where "adaptive = (if bu_Total b - fixedTokens b - reservedTokens b < 0 then 0 else bu_Total b - fixedTokens b - reservedTokens b)"
  define files where "files = adaptiveFileBudget ramp b n adaptive"
  have w: "bu_Total b = w" by (simp add: b_def NewContextBudget_def Let_def)
  have a0: "0 \<le> adaptive" by (simp add: adaptive_def)
  have "0 \<le> files \<and> files \<le> adaptive"
  proof -
    define lo0 where "lo0 = clamp (bu_Total b * 5 sdiv 100) 2000 10000"
    define hi0 where "hi0 = clamp (bu_Total b * 15 sdiv 100) 5000 30000"
    have pos: "0 \<le> lo0" "0 \<le> hi0" by (auto simp: lo0_def hi0_def clamp_def)
    define hi where "hi = (if adaptive < hi0 then adaptive sdiv 2 else hi0)"
    define lo where "lo = (if hi < lo0 then hi else lo0)"
    have "adaptive sdiv 2 = adaptive div 2" using a0 by (simp add: signed_divide_int_def sgn_if)
    then have hi: "0 \<le> hi" "hi \<le> adaptive" using a0 pos by (auto simp: hi_def)
    then have lo: "0 \<le> lo" "lo \<le> hi" using pos by (auto simp: lo_def)
    have "files = (if adaptive - lo \<le> 0 then lo else if n \<le> 0 then hi else if adaptive - lo \<le> n then lo
        else clamp (hi - ramp (hi - lo) n (adaptive - lo)) lo hi)"
      by (simp only: files_def adaptiveFileBudget_def Let_def hi_def [symmetric] lo_def [symmetric] lo0_def [symmetric] hi0_def [symmetric])
    then show ?thesis using lo hi clamp_bounds [OF lo(2)] by (auto intro: order_trans)
  qed
  then have parts: "al_PreloadedFiles a = files" "al_Conversation a = adaptive - files" "0 \<le> files" "files \<le> adaptive"
    "al_Remaining a = w - (fixedTokens b + reservedTokens b + adaptive)"
    unfolding a_def Allocate_def Let_def adaptive_def [symmetric] files_def [symmetric] by (auto simp: w)
  moreover have "budget_ShouldCompact ramp b n \<longleftrightarrow> al_Conversation a < n" by (simp add: budget_ShouldCompact_def a_def)
  ultimately show ?thesis unfolding Let_def b_def [symmetric] a_def [symmetric] by (auto simp: adaptive_def w)
qed

section \<open>Examples\<close>

definition sampleEnv :: compactEnv where
  "sampleEnv = \<lparr>en_estimate = (\<lambda>_. 3000), en_memorySize = None, en_memory = None, en_supportsNative = False, en_native = (\<lambda>_. None),
     en_summary = (\<lambda>_. []), en_partialSummary = (\<lambda>_. []), en_turnSummary = (\<lambda>_. []), en_fileBlock = (\<lambda>_. []), en_secondHalf = id,
     en_groupScore = (\<lambda>_ g. int (length g)), en_sort = id, en_clearThreshold = (\<lambda>w. w), en_ramp = (\<lambda>a n t. a * n div t),
     en_done = (\<lambda>_. False), en_pinned = 0, en_asked = 1000, en_failed = 2000\<rparr>"

definition sampleGoverned :: governed where
  "sampleGoverned = \<lparr>go_messages = [textMessage ''user'' ''a'', textMessage ''assistant'' ''b'', textMessage ''user'' ''c''], go_window = 10000,
     go_pct = 85, go_compactor = Some \<lparr>ac_config = DefaultCompactConfig, ac_breaker = (breaker_New 3 100)\<lparr>br_consecutiveFailures := 3, br_nextRetryAt := 5000\<rparr>,
       ac_lastStrategy = []\<rparr>, go_events = []\<rparr>"

theorem breaker_never_pauses_witness:
  "snd (snd (ManageContextBeforeTurn sampleEnv sampleGoverned))
   \<and> \<not> snd (ShouldAutoCompact sampleEnv (go_messages sampleGoverned) (the (go_compactor sampleGoverned)))"
proof
  have "targetTokens (compactConfig (go_window sampleGoverned) (go_pct sampleGoverned))
        \<le> estimateAll sampleEnv (session_ClearOldToolResults sampleEnv (go_window sampleGoverned) (CollapseRepeatedMessages (go_messages sampleGoverned)))"
    by code_simp
  then show "snd (snd (ManageContextBeforeTurn sampleEnv sampleGoverned))" using breaker_never_pauses [of sampleEnv sampleGoverned] by blast
qed code_simp

theorem auto_compaction_paired_witness:
  "paired {} {} (co_messages (AutoCompactIfNeeded (sampleEnv\<lparr>en_pinned := 20\<rparr>) [textMessage ''user'' ''go'', sampleCall, sampleResult]
     (NewAutoCompactor (compactConfig 10000 85))))"
proof (rule auto_compaction_paired)
  show "paired {} {} [textMessage ''user'' ''go'', sampleCall, sampleResult]" by code_simp
  show "\<forall>m \<in> set [textMessage ''user'' ''go'', sampleCall, sampleResult]. IsCompactBoundary m \<longrightarrow> em_ToolUse m = [] \<and> em_ToolResults m = []" by code_simp
qed code_simp

theorem relevance_reorders_witness:
  "map em_Content (relevanceCompact sampleEnv 100 [textMessage ''user'' ''1'', textMessage ''assistant'' ''2'', textMessage ''user'' ''3'', textMessage ''assistant'' ''4''])
     = [''2'', ''3'', ''4'', ''1'']
   \<and> take 3 (relevanceCompact sampleEnv 100 [textMessage ''user'' ''1'', textMessage ''assistant'' ''2'', textMessage ''user'' ''3'', textMessage ''assistant'' ''4''])
     = map plainText [textMessage ''assistant'' ''2'', textMessage ''user'' ''3'', textMessage ''assistant'' ''4'']"
proof
  show "map em_Content (relevanceCompact sampleEnv 100 [textMessage ''user'' ''1'', textMessage ''assistant'' ''2'', textMessage ''user'' ''3'', textMessage ''assistant'' ''4''])
     = [''2'', ''3'', ''4'', ''1'']" by code_simp
qed (use relevance_reorders [of "[textMessage ''user'' ''1'', textMessage ''assistant'' ''2'', textMessage ''user'' ''3'', textMessage ''assistant'' ''4'']" sampleEnv 100] in simp)

theorem allocation_exact_witness:
  "let b = NewContextBudget 200000; a = Allocate (\<lambda>x n t. x * n div t) b 50000 in
     fixedTokens b + reservedTokens b + al_PreloadedFiles a + al_Conversation a = 200000"
proof -
  have "max 200000 (fixedTokens (NewContextBudget 200000) + reservedTokens (NewContextBudget 200000)) = 200000" by code_simp
  then show ?thesis using allocation_exact [of 200000 "\<lambda>x n t. x * n div t" 50000] by (simp add: Let_def)
qed

end
