(* ===== verification/Task_Store.thy ===== *)
theory Task_Store
  imports Go_Json "HOL-Library.AList"
begin

text \<open>
  The store of structured tasks (\<open>internal/tool/task_create.go\<close>, \<open>task_runner.go\<close>): creation under a parent, updates,
  the outcomes of an attempt. The map of tasks is an association list with distinct keys, a metadata map a function.
\<close>

section \<open>Tasks\<close>

record TaskDependency =
  td_TargetID :: string
  td_Type :: string

record Task =
  ta_ID :: string
  ta_ParentID :: string
  ta_Subject :: string
  ta_Description :: string
  ta_ActiveForm :: string
  ta_Status :: string
  ta_Owner :: string
  ta_Dependencies :: "TaskDependency list"
  ta_Metadata :: "string \<Rightarrow> json option"
  ta_CreatedAt :: gotime
  ta_UpdatedAt :: gotime
  ta_Attempts :: int
  ta_MaxAttempts :: int
  ta_LastError :: string
  ta_Checkpoint :: "string \<Rightarrow> json option"

definition taskStatuses :: "string list" where
  "taskStatuses = [''pending'', ''in_progress'', ''reviewing'', ''completed'', ''failed'', ''skipped'', ''cancelled'']"

definition DefaultMaxAttempts :: int where
  "DefaultMaxAttempts = 3"

definition EffectiveMaxAttempts :: "Task \<Rightarrow> int" where
  "EffectiveMaxAttempts t = (if 0 < ta_MaxAttempts t then ta_MaxAttempts t else DefaultMaxAttempts)"

record TaskStore =
  ts_tasks :: "(string \<times> Task) list"
  ts_next :: int

definition emptyStore :: TaskStore where
  "emptyStore = \<lparr>ts_tasks = [], ts_next = 0\<rparr>"

definition show_decimal :: "int \<Rightarrow> string" where
  "show_decimal n = (if n < 0 then CHR ''-'' # show_nat (nat (- n)) else show_nat (nat n))"

definition topID :: "int \<Rightarrow> string" where
  "topID n = ''task_'' @ show_decimal n"

definition childID :: "string \<Rightarrow> nat \<Rightarrow> string" where
  "childID parentID n = parentID @ ''.'' @ show_nat n"

definition childCount :: "TaskStore \<Rightarrow> string \<Rightarrow> nat" where
  "childCount s parentID = length (filter (\<lambda>(_, t). ta_ParentID t = parentID) (ts_tasks s))"

definition newTask :: "string \<Rightarrow> string \<Rightarrow> string \<Rightarrow> string \<Rightarrow> (string \<Rightarrow> json option) \<Rightarrow> string \<Rightarrow> gotime \<Rightarrow> Task" where
  "newTask i subject description activeForm metadata parentID now =
    \<lparr>ta_ID = i, ta_ParentID = parentID, ta_Subject = subject, ta_Description = description, ta_ActiveForm = activeForm,
     ta_Status = ''pending'', ta_Owner = [],
     ta_Dependencies = (if parentID \<noteq> [] then [\<lparr>td_TargetID = parentID, td_Type = ''parent-child''\<rparr>] else []),
     ta_Metadata = metadata, ta_CreatedAt = now, ta_UpdatedAt = now, ta_Attempts = 0, ta_MaxAttempts = 0, ta_LastError = [],
     ta_Checkpoint = (\<lambda>_. None)\<rparr>"

definition CreateWithParent :: "string \<Rightarrow> string \<Rightarrow> string \<Rightarrow> (string \<Rightarrow> json option) \<Rightarrow> string \<Rightarrow> gotime \<Rightarrow> TaskStore \<Rightarrow> TaskStore \<times> Task" where
  "CreateWithParent subject description activeForm metadata parentID now s =
    (let next = (if parentID \<noteq> [] then ts_next s else ts_next s + 1);
         i = (if parentID \<noteq> [] then childID parentID (childCount s parentID + 1) else topID next);
         t = newTask i subject description activeForm metadata parentID now
     in (s\<lparr>ts_tasks := AList.update i t (ts_tasks s), ts_next := next\<rparr>, t))"

definition task_Create :: "string \<Rightarrow> string \<Rightarrow> string \<Rightarrow> (string \<Rightarrow> json option) \<Rightarrow> gotime \<Rightarrow> TaskStore \<Rightarrow> TaskStore \<times> Task" where
  "task_Create subject description activeForm metadata = CreateWithParent subject description activeForm metadata []"

definition task_Get :: "TaskStore \<Rightarrow> string \<Rightarrow> Task option" where
  "task_Get s i = map_of (ts_tasks s) i"

definition task_Update :: "string \<Rightarrow> (Task \<Rightarrow> Task) \<Rightarrow> gotime \<Rightarrow> TaskStore \<Rightarrow> TaskStore \<times> bool" where
  "task_Update i f now s = (case task_Get s i of None \<Rightarrow> (s, False)
   | Some t \<Rightarrow> (s\<lparr>ts_tasks := AList.update i ((f t)\<lparr>ta_UpdatedAt := now\<rparr>) (ts_tasks s)\<rparr>, True))"

definition task_Delete :: "string \<Rightarrow> TaskStore \<Rightarrow> TaskStore \<times> bool" where
  "task_Delete i s = (case task_Get s i of None \<Rightarrow> (s, False) | Some _ \<Rightarrow> (s\<lparr>ts_tasks := AList.delete i (ts_tasks s)\<rparr>, True))"

definition task_Reset :: "TaskStore \<Rightarrow> TaskStore" where
  "task_Reset s = emptyStore"

definition CompactCompleted :: "TaskStore \<Rightarrow> TaskStore \<times> string list" where
  "CompactCompleted s = (s\<lparr>ts_tasks := filter (\<lambda>(_, t). ta_Status t \<noteq> ''completed'') (ts_tasks s)\<rparr>,
     map fst (filter (\<lambda>(_, t). ta_Status t = ''completed'') (ts_tasks s)))"

text \<open>The update a \<open>TaskUpdate\<close> call makes; a status is stored as given.\<close>

definition updateFields :: "string \<Rightarrow> string \<Rightarrow> TaskDependency list option \<Rightarrow> Task \<Rightarrow> Task" where
  "updateFields status owner dependencies t =
    (let t1 = (if status \<noteq> [] then
           (let t0 = (if ta_Status t = ''failed'' \<and> status \<noteq> ''failed'' then t\<lparr>ta_Attempts := 0, ta_LastError := []\<rparr> else t)
            in t0\<lparr>ta_Status := status\<rparr>) else t);
         t2 = (if owner \<noteq> [] then t1\<lparr>ta_Owner := owner\<rparr> else t1)
     in case dependencies of None \<Rightarrow> t2 | Some ds \<Rightarrow> t2\<lparr>ta_Dependencies := ds\<rparr>)"

section \<open>Outcomes of an attempt\<close>

datatype taskError = ErrTaskNotFound string

definition afterFailure :: "string \<Rightarrow> Task \<Rightarrow> Task \<times> bool" where
  "afterFailure errMsg t0 = (let t = t0\<lparr>ta_Attempts := ta_Attempts t0 + 1, ta_LastError := errMsg\<rparr> in
     if ta_Status t = ''completed'' then (t, False)
     else if ta_Status t = ''in_progress'' then
       (if ta_Attempts t < EffectiveMaxAttempts t
        then (t\<lparr>ta_Status := ''pending'', ta_Metadata := (ta_Metadata t)(''retryBackoffTick'' \<mapsto> JNum (ta_Attempts t))\<rparr>, True)
        else (t\<lparr>ta_Status := ''failed''\<rparr>, False))
     else (t\<lparr>ta_Status := ''failed''\<rparr>, False))"

definition MarkFailed :: "string \<Rightarrow> string \<Rightarrow> gotime \<Rightarrow> TaskStore \<Rightarrow> taskError + TaskStore \<times> bool" where
  "MarkFailed i errMsg now s = (case task_Get s i of None \<Rightarrow> Inl (ErrTaskNotFound i)
   | Some t \<Rightarrow> (case afterFailure errMsg t of (t', requeued) \<Rightarrow>
       Inr (s\<lparr>ts_tasks := AList.update i (t'\<lparr>ta_UpdatedAt := now\<rparr>) (ts_tasks s)\<rparr>, requeued)))"

definition Requeue :: "string \<Rightarrow> gotime \<Rightarrow> TaskStore \<Rightarrow> taskError + TaskStore" where
  "Requeue i now s = (case task_Get s i of None \<Rightarrow> Inl (ErrTaskNotFound i)
   | Some t \<Rightarrow> Inr (s\<lparr>ts_tasks := AList.update i (t\<lparr>ta_Status := ''pending'', ta_Attempts := 0, ta_LastError := [], ta_UpdatedAt := now\<rparr>) (ts_tasks s)\<rparr>))"

text \<open>\<open>Skip\<close> and \<open>Cancel\<close> differ in the status and in the key of the reason.\<close>

definition parkTask :: "string \<Rightarrow> string \<Rightarrow> string \<Rightarrow> string \<Rightarrow> gotime \<Rightarrow> TaskStore \<Rightarrow> taskError + TaskStore \<times> bool" where
  "parkTask status key i reason now s = (case task_Get s i of None \<Rightarrow> Inl (ErrTaskNotFound i)
   | Some t \<Rightarrow> if ta_Status t = ''completed'' \<or> ta_Status t = status then Inr (s, False)
     else Inr (s\<lparr>ts_tasks := AList.update i (t\<lparr>ta_Status := status,
         ta_Metadata := (if reason \<noteq> [] then (ta_Metadata t)(key \<mapsto> JStr reason) else ta_Metadata t), ta_UpdatedAt := now\<rparr>) (ts_tasks s)\<rparr>, True))"

definition task_Skip :: "string \<Rightarrow> string \<Rightarrow> gotime \<Rightarrow> TaskStore \<Rightarrow> taskError + TaskStore \<times> bool" where
  "task_Skip = parkTask ''skipped'' ''skipReason''"

definition task_Cancel :: "string \<Rightarrow> string \<Rightarrow> gotime \<Rightarrow> TaskStore \<Rightarrow> taskError + TaskStore \<times> bool" where
  "task_Cancel = parkTask ''cancelled'' ''cancelReason''"

definition task_Checkpoint :: "string \<Rightarrow> (string \<Rightarrow> json option) \<Rightarrow> gotime \<Rightarrow> TaskStore \<Rightarrow> taskError + TaskStore" where
  "task_Checkpoint i data now s = (case task_Get s i of None \<Rightarrow> Inl (ErrTaskNotFound i)
   | Some t \<Rightarrow> Inr (s\<lparr>ts_tasks := AList.update i (t\<lparr>ta_Checkpoint := ta_Checkpoint t ++ data, ta_UpdatedAt := now\<rparr>) (ts_tasks s)\<rparr>))"

text \<open>Most recently updated first; tasks updated at the same instant in any order.\<close>

definition FailedTasks :: "TaskStore \<Rightarrow> Task list" where
  "FailedTasks s = SliceStable (\<lambda>a b. ta_UpdatedAt b < ta_UpdatedAt a) (filter (\<lambda>t. ta_Status t = ''failed'') (map snd (ts_tasks s)))"

section \<open>Identities\<close>

datatype taskOp = OpCreate string string string "string \<Rightarrow> json option" string gotime | OpTouch string "Task \<Rightarrow> Task" gotime
  | OpDelete string | OpCompact | OpReset

text \<open>Every operation that changes a stored task does so through \<open>OpTouch\<close>.\<close>

fun taskStep :: "TaskStore \<Rightarrow> taskOp \<Rightarrow> TaskStore" where
  "taskStep s (OpCreate subject description activeForm metadata parentID now) = fst (CreateWithParent subject description activeForm metadata parentID now s)"
| "taskStep s (OpTouch i f now) = fst (task_Update i f now s)"
| "taskStep s (OpDelete i) = fst (task_Delete i s)"
| "taskStep s OpCompact = fst (CompactCompleted s)"
| "taskStep s OpReset = task_Reset s"

fun removes :: "taskOp \<Rightarrow> bool" where
  "removes (OpDelete i) \<longleftrightarrow> True"
| "removes OpCompact \<longleftrightarrow> True"
| "removes _ \<longleftrightarrow> False"

fun keepsParent :: "taskOp \<Rightarrow> bool" where
  "keepsParent (OpTouch i f now) \<longleftrightarrow> (\<forall>t. ta_ParentID (f t) = ta_ParentID t)"
| "keepsParent _ \<longleftrightarrow> True"

lemma update_as_touch:
  "fst (task_Update i f now s) = taskStep s (OpTouch i f now)"
  "MarkFailed i e now s = Inr (s', r) \<Longrightarrow> s' = taskStep s (OpTouch i (\<lambda>t. fst (afterFailure e t)) now)"
  "Requeue i now s = Inr s' \<Longrightarrow> s' = taskStep s (OpTouch i (\<lambda>t. t\<lparr>ta_Status := ''pending'', ta_Attempts := 0, ta_LastError := []\<rparr>) now)"
  by (auto simp: task_Update_def MarkFailed_def Requeue_def split: option.splits prod.splits)

section \<open>Identities are not used twice\<close>

lemma digit_char_digit: "d < 10 \<Longrightarrow> digit_char d \<in> set ''0123456789''"
  unfolding digit_char_def by (rule nth_mem) simp

lemma digit_char_inj: "d < 10 \<Longrightarrow> e < 10 \<Longrightarrow> digit_char d = digit_char e \<longleftrightarrow> d = e"
  unfolding digit_char_def by (rule nth_eq_iff_index_eq) simp_all

lemma show_nat_digits: "set (show_nat n) \<subseteq> set ''0123456789''"
proof (induction n rule: show_nat.induct)
  case (1 n)
  show ?case
  proof (cases "n < 10")
    case True
    then show ?thesis using digit_char_digit [of n] unfolding show_nat.simps [of n] by (simp only: if_True) (simp del: list.set(2) add: list.set(2) [of "digit_char n"])
  next
    case False
    then show ?thesis using 1 digit_char_digit [of "n mod 10"] by (simp add: show_nat.simps [of n] del: list.set(2)) simp
  qed
qed

lemma show_nat_no_dot [simp]: "CHR ''.'' \<notin> set (show_nat n)"
  using show_nat_digits [of n] by auto

lemma show_nat_nonempty [simp]: "show_nat n \<noteq> []"
  by (simp add: show_nat.simps [of n])

lemma show_nat_inj: "show_nat m = show_nat n \<Longrightarrow> m = n"
proof (induction m arbitrary: n rule: show_nat.induct)
  case (1 m)
  show ?case
  proof (cases "m < 10 \<or> n < 10")
    case True
    then have "m < 10 \<and> n < 10" using 1(2) show_nat_nonempty [of "m div 10"] show_nat_nonempty [of "n div 10"]
      by (auto simp: show_nat.simps [of m] show_nat.simps [of n] simp del: show_nat_nonempty split: if_splits)
    then show ?thesis using 1(2) by (simp add: show_nat.simps [of m] show_nat.simps [of n] digit_char_inj)
  next
    case False
    then have "show_nat (m div 10) = show_nat (n div 10)" "digit_char (m mod 10) = digit_char (n mod 10)"
      using 1(2) by (simp_all add: show_nat.simps [of m] show_nat.simps [of n])
    then have "m div 10 = n div 10" "m mod 10 = n mod 10" using 1(1) False by (simp_all add: digit_char_inj)
    then show ?thesis by (metis div_mult_mod_eq)
  qed
qed

lemma topID_no_dot: "0 \<le> n \<Longrightarrow> CHR ''.'' \<notin> set (topID n)"
  by (simp add: topID_def show_decimal_def)

lemma topID_inj: "0 \<le> m \<Longrightarrow> 0 \<le> n \<Longrightarrow> topID m = topID n \<longleftrightarrow> m = n"
  using show_nat_inj [of "nat m" "nat n"] by (auto simp: topID_def show_decimal_def)

lemma childID_inj: "childID p m = childID q n \<longleftrightarrow> p = q \<and> m = n"
proof
  assume eq: "childID p m = childID q n"
  have digits: "takeWhile (\<lambda>c. c \<noteq> CHR ''.'') (rev (childID p m)) = rev (show_nat m)" for p m
  proof -
    have "takeWhile (\<lambda>c. c \<noteq> CHR ''.'') (rev (show_nat m) @ CHR ''.'' # rev p) = rev (show_nat m) @ takeWhile (\<lambda>c. c \<noteq> CHR ''.'') (CHR ''.'' # rev p)"
      by (rule takeWhile_append2) (auto dest: show_nat_no_dot [THEN notE])
    then show ?thesis by (simp add: childID_def)
  qed
  have "show_nat m = show_nat n" using digits [of p m] digits [of q n] eq by simp
  then show "p = q \<and> m = n" using eq show_nat_inj by (auto simp: childID_def)
qed simp

lemma childID_dot: "CHR ''.'' \<in> set (childID p n)"
  by (simp add: childID_def)

text \<open>
  \<open>keyed\<close>: a task without parent is stored under a number given out, a child under a number of its parent. \<open>consecutive\<close>: the
  children of a parent have the numbers from one up to their count.
\<close>

definition idOk :: "int \<Rightarrow> string \<Rightarrow> Task \<Rightarrow> bool" where
  "idOk next i t \<longleftrightarrow> (if ta_ParentID t = [] then \<exists>n. 0 < n \<and> n \<le> next \<and> i = topID n else \<exists>n. i = childID (ta_ParentID t) n)"

definition keyed :: "TaskStore \<Rightarrow> bool" where
  "keyed s \<longleftrightarrow> 0 \<le> ts_next s \<and> distinct (map fst (ts_tasks s))
     \<and> (\<forall>i t. task_Get s i = Some t \<longrightarrow> idOk (ts_next s) i t)"

definition consecutive :: "TaskStore \<Rightarrow> bool" where
  "consecutive s \<longleftrightarrow> (\<forall>p. p \<noteq> [] \<longrightarrow> {i. \<exists>t. task_Get s i = Some t \<and> ta_ParentID t = p} = childID p ` {1..childCount s p})"

lemma childCount_card:
  assumes "distinct (map fst (ts_tasks s))"
  shows "childCount s p = card {i. \<exists>t. task_Get s i = Some t \<and> ta_ParentID t = p}"
proof -
  have "distinct (map fst (filter (\<lambda>(_, t). ta_ParentID t = p) (ts_tasks s)))" using assms by (simp add: distinct_map_filter)
  then have "childCount s p = card (set (map fst (filter (\<lambda>(_, t). ta_ParentID t = p) (ts_tasks s))))"
    unfolding childCount_def by (metis distinct_card length_map)
  also have "set (map fst (filter (\<lambda>(_, t). ta_ParentID t = p) (ts_tasks s))) = {i. \<exists>t. task_Get s i = Some t \<and> ta_ParentID t = p}"
    using map_of_eq_Some_iff [OF assms] by (force simp: task_Get_def)
  finally show ?thesis .
qed

lemma keyed_keys: "keyed s \<Longrightarrow> distinct (map fst (ts_tasks s))"
  by (simp add: keyed_def)

lemma idOk_mono: "idOk m i t \<Longrightarrow> m \<le> n \<Longrightarrow> idOk n i t"
  by (auto simp: idOk_def split: if_splits)

lemma keyed_Get: "keyed s \<Longrightarrow> task_Get s i = Some t \<Longrightarrow> idOk (ts_next s) i t"
  by (simp add: keyed_def)

lemma idOk_child: "idOk n (childID p m) t \<Longrightarrow> ta_ParentID t = p"
  using childID_dot [of p m] topID_no_dot by (force simp: idOk_def childID_inj split: if_splits)

lemma idOk_top: "idOk n (topID m) t \<Longrightarrow> 0 \<le> m \<Longrightarrow> m \<le> n"
  using childID_dot topID_no_dot [of m] by (auto simp: idOk_def topID_inj split: if_splits)

lemma fresh_top:
  assumes "keyed s"
  shows "task_Get s (topID (ts_next s + 1)) = None"
  using keyed_Get [OF assms, of "topID (ts_next s + 1)"] idOk_top [of "ts_next s" "ts_next s + 1"] assms
  by (cases "task_Get s (topID (ts_next s + 1))") (auto simp: keyed_def)

lemma fresh_child:
  assumes "keyed s" and "consecutive s" and "p \<noteq> []"
  shows "task_Get s (childID p (childCount s p + 1)) = None"
proof (rule ccontr)
  let ?i = "childID p (childCount s p + 1)"
  assume "task_Get s ?i \<noteq> None"
  then obtain t where t: "task_Get s ?i = Some t" by blast
  then have "ta_ParentID t = p" using idOk_child keyed_Get [OF assms(1)] by blast
  then have "?i \<in> {i. \<exists>t. task_Get s i = Some t \<and> ta_ParentID t = p}" using t by blast
  then have "?i \<in> childID p ` {1..childCount s p}" using assms(2,3) unfolding consecutive_def by blast
  then show False by (auto simp: childID_inj)
qed

lemma Get_update: "task_Get (s\<lparr>ts_tasks := AList.update i t (ts_tasks s), ts_next := n\<rparr>) j = (if j = i then Some t else task_Get s j)"
  by (simp add: task_Get_def update_conv')

lemma keyed_create:
  assumes "keyed s"
  shows "keyed (fst (CreateWithParent subject description activeForm metadata p now s))"
proof -
  have "idOk (ts_next s + 1) (topID (ts_next s + 1)) (newTask i subject description activeForm metadata [] now)" for i
    using assms unfolding idOk_def newTask_def keyed_def by (auto intro!: exI [of _ "ts_next s + 1"])
  moreover have "idOk n (childID p m) (newTask i subject description activeForm metadata p now)" if "p \<noteq> []" for n m i
    using that by (auto simp: idOk_def newTask_def)
  ultimately show ?thesis using assms idOk_mono [OF keyed_Get [OF assms], of _ _ "ts_next s + 1"]
    by (auto simp: keyed_def CreateWithParent_def Let_def Get_update distinct_update)
qed

lemma keyed_shrink:
  assumes "keyed s" and "distinct (map fst (ts_tasks s'))" and "ts_next s' = ts_next s"
    and "\<And>i t. task_Get s' i = Some t \<Longrightarrow> \<exists>u. task_Get s i = Some u \<and> ta_ParentID t = ta_ParentID u"
  shows "keyed s'"
  using assms by (fastforce simp: keyed_def idOk_def)

lemma Get_touch:
  "task_Get (fst (task_Update i f now s)) j = (if j = i then map_option (\<lambda>t. (f t)\<lparr>ta_UpdatedAt := now\<rparr>) (task_Get s i) else task_Get s j)"
  by (auto simp: task_Update_def task_Get_def update_conv' split: option.split)

lemma distinct_touch: "distinct (map fst (ts_tasks s)) \<Longrightarrow> distinct (map fst (ts_tasks (fst (task_Update i f now s))))"
  by (simp add: task_Update_def distinct_update split: option.split)

lemma Get_delete: "task_Get (fst (task_Delete i s)) j = (if j = i then None else task_Get s j)"
  by (auto simp: task_Delete_def task_Get_def delete_conv' split: option.split)

lemma map_of_filter_Some: "distinct (map fst xs) \<Longrightarrow> map_of (filter P xs) i = Some t \<Longrightarrow> map_of xs i = Some t"
  by (auto simp: distinct_map_filter map_of_eq_Some_iff)

lemma keyed_step:
  assumes "keyed s" and "keepsParent op"
  shows "keyed (taskStep s op)"
proof (cases op)
  case (OpTouch i f now)
  have "ts_next (fst (task_Update i f now s)) = ts_next s" by (simp add: task_Update_def split: option.split)
  with OpTouch show ?thesis
    by (intro keyed_shrink [OF assms(1)])
      (use assms in \<open>auto simp: Get_touch distinct_touch keyed_keys split: if_splits\<close>)
next
  case (OpDelete i)
  then show ?thesis
    by (intro keyed_shrink [OF assms(1)])
      (use keyed_keys [OF assms(1)] in \<open>auto simp: Get_delete split: if_splits, auto simp: task_Delete_def distinct_delete split: option.split\<close>)
next
  case OpCompact
  then show ?thesis
    by (intro keyed_shrink [OF assms(1)])
      (use keyed_keys [OF assms(1)] in \<open>auto simp: CompactCompleted_def task_Get_def distinct_map_filter dest: map_of_filter_Some\<close>)
qed (use assms keyed_create in \<open>auto simp: task_Reset_def emptyStore_def keyed_def task_Get_def\<close>)

lemma consecutive_create:
  assumes "keyed s" and "consecutive s"
  shows "consecutive (fst (CreateWithParent subject description activeForm metadata p now s))"
proof -
  let ?s = "fst (CreateWithParent subject description activeForm metadata p now s)"
  let ?i = "if p \<noteq> [] then childID p (childCount s p + 1) else topID (ts_next s + 1)"
  have Get: "task_Get ?s j = (if j = ?i then Some (newTask ?i subject description activeForm metadata p now) else task_Get s j)" for j
    by (simp add: CreateWithParent_def Let_def Get_update)
  have fresh: "task_Get s ?i = None" using fresh_top [OF assms(1)] fresh_child [OF assms] by simp
  have parent: "ta_ParentID (newTask ?i subject description activeForm metadata p now) = p" by (simp add: newTask_def)
  have keys: "{i. \<exists>t. task_Get ?s i = Some t \<and> ta_ParentID t = q} = (if q = p then {?i} else {}) \<union> {i. \<exists>t. task_Get s i = Some t \<and> ta_ParentID t = q}" for q
    using fresh parent by (auto simp: Get)
  have "{i. \<exists>t. task_Get ?s i = Some t \<and> ta_ParentID t = q} = childID q ` {1..childCount ?s q}" if q: "q \<noteq> []" for q
  proof -
    have old: "{i. \<exists>t. task_Get s i = Some t \<and> ta_ParentID t = q} = childID q ` {1..childCount s q}" using assms(2) q by (simp add: consecutive_def)
    have "childCount ?s q = childCount s q + (if q = p then 1 else 0)"
    proof -
      have count: "card (childID q ` {1..childCount s q}) = childCount s q" by (subst card_image) (simp_all add: inj_on_def childID_inj)
      have notin: "?i \<notin> childID q ` {1..childCount s q}" using fresh unfolding old [symmetric] by auto
      have "card ((if q = p then {a} else {}) \<union> A) = card A + (if q = p then 1 else 0)" if "a \<notin> A" "finite A" for a and A :: "string set"
        using that by simp
      from this [OF notin] have "card ((if q = p then {?i} else {}) \<union> childID q ` {1..childCount s q}) = childCount s q + (if q = p then 1 else 0)"
        unfolding count by simp
      then show ?thesis unfolding childCount_card [OF keyed_keys [OF keyed_create [OF assms(1)]]] keys old .
    qed
    then show ?thesis using q unfolding keys old by (cases "q = p") (simp_all add: atLeastAtMostSuc_conv image_insert)
  qed
  then show ?thesis by (simp add: consecutive_def)
qed

lemma consecutive_step:
  assumes "keyed s" and "consecutive s" and "keepsParent op" and "\<not> removes op"
  shows "consecutive (taskStep s op)"
proof (cases op)
  case (OpTouch i f now)
  let ?s = "fst (task_Update i f now s)"
  have keys: "distinct (map fst (ts_tasks s))" "distinct (map fst (ts_tasks ?s))" using keyed_keys [OF assms(1)] distinct_touch by blast+
  have "{i. \<exists>t. task_Get ?s i = Some t \<and> ta_ParentID t = q} = {i. \<exists>t. task_Get s i = Some t \<and> ta_ParentID t = q}" for q
    using assms(3) OpTouch by (auto simp: Get_touch)
  then have "childCount ?s q = childCount s q \<and> {i. \<exists>t. task_Get ?s i = Some t \<and> ta_ParentID t = q} = {i. \<exists>t. task_Get s i = Some t \<and> ta_ParentID t = q}" for q
    using childCount_card [OF keys(1)] childCount_card [OF keys(2)] by simp
  then show ?thesis using assms(2) OpTouch by (simp add: consecutive_def)
qed (use assms consecutive_create in \<open>auto simp: task_Reset_def emptyStore_def consecutive_def task_Get_def childCount_def\<close>)

lemma keyed_empty: "keyed emptyStore" "consecutive emptyStore"
  by (simp_all add: keyed_def emptyStore_def task_Get_def consecutive_def childCount_def)

lemma keyed_run: "\<forall>op \<in> set ops. keepsParent op \<Longrightarrow> keyed s \<Longrightarrow> keyed (foldl taskStep s ops)"
  by (induction ops arbitrary: s) (simp_all add: keyed_step)

lemma consecutive_run:
  "\<forall>op \<in> set ops. keepsParent op \<and> \<not> removes op \<Longrightarrow> keyed s \<Longrightarrow> consecutive s \<Longrightarrow> consecutive (foldl taskStep s ops)"
  by (induction ops arbitrary: s) (simp_all add: keyed_step consecutive_step)

text \<open>
  C30. \<^bold>\<open>A new task never overwrites another\<close>, if it has no parent; the store never holds two tasks under one id. A child
  overwrites none as long as nothing was deleted or compacted; afterwards it can, since its number is the count of its siblings.
\<close>

theorem created_ids_fresh:
  assumes "\<forall>op \<in> set ops. keepsParent op"
  shows "let s = foldl taskStep emptyStore ops in distinct (map fst (ts_tasks s))
    \<and> task_Get s (ta_ID (snd (CreateWithParent subject description activeForm metadata [] now s))) = None
    \<and> ((\<forall>op \<in> set ops. \<not> removes op) \<longrightarrow> task_Get s (ta_ID (snd (CreateWithParent subject description activeForm metadata p now s))) = None)"
proof -
  let ?s = "foldl taskStep emptyStore ops"
  have keyed: "keyed ?s" using keyed_run [OF assms keyed_empty(1)] .
  moreover have "consecutive ?s" if "\<forall>op \<in> set ops. \<not> removes op" using that assms consecutive_run [OF _ keyed_empty] by simp
  ultimately show ?thesis using fresh_top [OF keyed] fresh_child [OF keyed] keyed_keys [OF keyed]
    by (auto simp: CreateWithParent_def newTask_def Let_def)
qed

theorem created_ids_fresh_witness:
  "let s = foldl taskStep emptyStore [OpCreate ''a'' [] [] (\<lambda>_. None) [] 1, OpCreate ''b'' [] [] (\<lambda>_. None) ''task_1'' 2] in
     task_Get s ''task_1.1'' \<noteq> None \<and> ta_ID (snd (CreateWithParent ''c'' [] [] (\<lambda>_. None) ''task_1'' 3 s)) = ''task_1.2'' \<and> task_Get s ''task_1.2'' = None"
proof -
  let ?s = "foldl taskStep emptyStore [OpCreate ''a'' [] [] (\<lambda>_. None) [] 1, OpCreate ''b'' [] [] (\<lambda>_. None) ''task_1'' 2]"
  have "ta_ID (snd (CreateWithParent ''c'' [] [] (\<lambda>_. None) ''task_1'' 3 ?s)) = ''task_1.2'' \<and> task_Get ?s ''task_1.1'' \<noteq> None" by code_simp
  then show ?thesis
    using created_ids_fresh [of "[OpCreate ''a'' [] [] (\<lambda>_. None) [] 1, OpCreate ''b'' [] [] (\<lambda>_. None) ''task_1'' 2]" "''c''" "[]" "[]" "\<lambda>_. None" 3 "''task_1''"]
    by (simp add: Let_def)
qed

lemma child_overwrites_sibling:
  "let s = foldl taskStep emptyStore [OpCreate ''a'' [] [] (\<lambda>_. None) [] 1, OpCreate ''b'' [] [] (\<lambda>_. None) ''task_1'' 2,
       OpCreate ''c'' [] [] (\<lambda>_. None) ''task_1'' 3, OpDelete ''task_1.1''] in
     ta_Subject (the (task_Get s ''task_1.2'')) = ''c''
     \<and> ta_Subject (the (task_Get (fst (CreateWithParent ''d'' [] [] (\<lambda>_. None) ''task_1'' 4 s)) ''task_1.2'')) = ''d''"
  by code_simp

end
