(* ===== verification/Task_Schedule.thy ===== *)
theory Task_Schedule
  imports Task_Store "HOL-Library.List_Lexorder" "HOL-Library.Char_ord"
begin

text \<open>
  The schedule of the blocking dependencies between tasks (\<open>internal/tool/task_schedule.go\<close>). Strings are ordered by
  their bytes. The waves are a loop that the code does not bound: \<open>None\<close> stands for not returning, and the schedule is
  proved to return. What it computes is stated by \<open>schedulable\<close>, \<open>blocking\<close> and \<open>layered\<close>.
\<close>

section \<open>The schedule\<close>

datatype scheduleError = ErrTaskLimit | ErrTaskIdentity string | ErrTaskStatus string string | ErrEmptyBlocker string
  | ErrBlocksItself string | ErrMissingBlocker string string | ErrEdgeLimit | ErrBlockingCycle

definition maxScheduleTasks :: nat where
  "maxScheduleTasks = 1000"

definition maxScheduleDependencies :: nat where
  "maxScheduleDependencies = 10000"

record edges =
  eg_inDegree :: "string \<Rightarrow> int"
  eg_dependents :: "string \<Rightarrow> string list"
  eg_blockers :: "string \<Rightarrow> string list"
  eg_count :: nat

definition noEdges :: edges where
  "noEdges = \<lparr>eg_inDegree = (\<lambda>_. 0), eg_dependents = (\<lambda>_. []), eg_blockers = (\<lambda>_. []), eg_count = 0\<rparr>"

definition addBlocker :: "string \<Rightarrow> string \<Rightarrow> edges \<Rightarrow> edges" where
  "addBlocker i target e = e\<lparr>eg_inDegree := (eg_inDegree e)(i := eg_inDegree e i + 1),
     eg_dependents := (eg_dependents e)(target := eg_dependents e target @ [i]),
     eg_blockers := (eg_blockers e)(i := eg_blockers e i @ [target]), eg_count := eg_count e + 1\<rparr>"

fun scanDependencies :: "TaskStore \<Rightarrow> string \<Rightarrow> string set \<Rightarrow> edges \<Rightarrow> TaskDependency list \<Rightarrow> scheduleError + edges" where
  "scanDependencies s i seen e [] = Inr e"
| "scanDependencies s i seen e (d # ds) =
    (if td_Type d \<noteq> ''blocks'' then scanDependencies s i seen e ds
     else let target = TrimSpace (td_TargetID d) in
       if target = [] then Inl (ErrEmptyBlocker i)
       else if target = i then Inl (ErrBlocksItself i)
       else if task_Get s target = None then Inl (ErrMissingBlocker i target)
       else if target \<in> seen then scanDependencies s i seen e ds
       else if maxScheduleDependencies < eg_count e + 1 then Inl ErrEdgeLimit
       else scanDependencies s i (insert target seen) (addBlocker i target e) ds)"

fun scanTasks :: "TaskStore \<Rightarrow> edges \<Rightarrow> string list \<Rightarrow> scheduleError + edges" where
  "scanTasks s e [] = Inr e"
| "scanTasks s e (i # is) = (case task_Get s i of
     None \<Rightarrow> Inl (ErrTaskIdentity i)
   | Some t \<Rightarrow> if TrimSpace i = [] \<or> ta_ID t \<noteq> i then Inl (ErrTaskIdentity i)
     else if ta_Status t \<notin> set taskStatuses then Inl (ErrTaskStatus i (ta_Status t))
     else case scanDependencies s i {} e (ta_Dependencies t) of Inl err \<Rightarrow> Inl err | Inr e' \<Rightarrow> scanTasks s e' is)"

text \<open>The dependents of a finished task lose a blocker each; those left without one are collected.\<close>

fun releaseDependents :: "(string \<Rightarrow> int) \<Rightarrow> string list \<Rightarrow> string list \<Rightarrow> (string \<Rightarrow> int) \<times> string list" where
  "releaseDependents inDegree next [] = (inDegree, next)"
| "releaseDependents inDegree next (d # ds) = (let n = inDegree d - 1 in
     releaseDependents (inDegree(d := n)) (if n = 0 then next @ [d] else next) ds)"

fun releaseWave :: "(string \<Rightarrow> string list) \<Rightarrow> (string \<Rightarrow> int) \<Rightarrow> string list \<Rightarrow> string list \<Rightarrow> (string \<Rightarrow> int) \<times> string list" where
  "releaseWave dependents inDegree next [] = (inDegree, next)"
| "releaseWave dependents inDegree next (i # is) = (case releaseDependents inDegree next (dependents i) of
     (inDegree', next') \<Rightarrow> releaseWave dependents inDegree' next' is)"

partial_function (option) waveLoop :: "(string \<Rightarrow> string list) \<Rightarrow> (string \<Rightarrow> int) \<Rightarrow> string list \<Rightarrow> string list list \<Rightarrow> string list list option" where
  "waveLoop dependents inDegree queue waves = (if queue = [] then Some waves
     else case releaseWave dependents inDegree [] queue of
       (inDegree', next) \<Rightarrow> waveLoop dependents inDegree' (sort next) (waves @ [queue]))"

declare waveLoop.simps [code]

record TaskSchedule =
  sc_Waves :: "string list list"
  sc_Ready :: "Task list"

definition readyTasks :: "TaskStore \<Rightarrow> (string \<Rightarrow> string list) \<Rightarrow> string list \<Rightarrow> Task list" where
  "readyTasks s blockers ids = map (\<lambda>i. the (task_Get s i)) (filter (\<lambda>i. ta_Status (the (task_Get s i)) = ''pending''
     \<and> (\<forall>b \<in> set (blockers i). ta_Status (the (task_Get s b)) = ''completed'')) ids)"

definition GetSchedule :: "TaskStore \<Rightarrow> (scheduleError + TaskSchedule) option" where
  "GetSchedule s =
    (let ids = sort (map fst (ts_tasks s)) in
     if maxScheduleTasks < length (ts_tasks s) then Some (Inl ErrTaskLimit)
     else case scanTasks s noEdges ids of Inl err \<Rightarrow> Some (Inl err)
     | Inr e \<Rightarrow> map_option (\<lambda>waves. if length (concat waves) \<noteq> length ids then Inl ErrBlockingCycle
           else Inr \<lparr>sc_Waves = waves, sc_Ready = readyTasks s (\<lambda>i. sort (eg_blockers e i)) ids\<rparr>)
         (waveLoop (\<lambda>i. sort (eg_dependents e i)) (eg_inDegree e) (filter (\<lambda>i. eg_inDegree e i = 0) ids) []))"

definition GetReadyWork :: "TaskStore \<Rightarrow> Task list option" where
  "GetReadyWork s = map_option (\<lambda>r. case r of Inl _ \<Rightarrow> [] | Inr sc \<Rightarrow> sc_Ready sc) (GetSchedule s)"

section \<open>What the schedule is meant to be\<close>

definition blockTargets :: "TaskDependency list \<Rightarrow> string list" where
  "blockTargets ds = map (\<lambda>d. TrimSpace (td_TargetID d)) (filter (\<lambda>d. td_Type d = ''blocks'') ds)"

definition blockersOf :: "TaskStore \<Rightarrow> string \<Rightarrow> string set" where
  "blockersOf s i = (case task_Get s i of None \<Rightarrow> {} | Some t \<Rightarrow> set (blockTargets (ta_Dependencies t)))"

definition blocking :: "TaskStore \<Rightarrow> (string \<times> string) set" where
  "blocking s = {(b, i). b \<in> blockersOf s i}"

text \<open>Within the limits, identities and statuses valid, and every blocker another task of the store.\<close>

definition schedulable :: "TaskStore \<Rightarrow> bool" where
  "schedulable s \<longleftrightarrow> length (ts_tasks s) \<le> maxScheduleTasks
     \<and> (\<forall>(i, t) \<in> set (ts_tasks s). TrimSpace i \<noteq> [] \<and> ta_ID t = i \<and> ta_Status t \<in> set taskStatuses
         \<and> (\<forall>b \<in> blockersOf s i. b \<noteq> [] \<and> b \<noteq> i \<and> task_Get s b \<noteq> None))
     \<and> (\<Sum>i \<leftarrow> map fst (ts_tasks s). card (blockersOf s i)) \<le> maxScheduleDependencies"

section \<open>Edges\<close>

definition edges_ok :: "edges \<Rightarrow> bool" where
  "edges_ok e \<longleftrightarrow> (\<forall>i. distinct (eg_blockers e i) \<and> eg_inDegree e i = int (length (eg_blockers e i)))
     \<and> (\<forall>t. distinct (eg_dependents e t) \<and> set (eg_dependents e t) = {i. t \<in> set (eg_blockers e i)})"

lemma noEdges_ok [simp]: "edges_ok noEdges"
  by (simp add: edges_ok_def noEdges_def)

lemma addBlocker_ok: "edges_ok e \<Longrightarrow> t \<notin> set (eg_blockers e i) \<Longrightarrow> edges_ok (addBlocker i t e)"
  by (auto simp: edges_ok_def addBlocker_def)

lemma blockTargets_Cons:
  "blockTargets (d # ds) = (if td_Type d = ''blocks'' then TrimSpace (td_TargetID d) # blockTargets ds else blockTargets ds)"
  by (simp add: blockTargets_def)

lemma scanDependencies_edges:
  assumes "scanDependencies s i seen e ds = Inr e'" and "edges_ok e" and "set (eg_blockers e i) = seen"
  shows "edges_ok e' \<and> set (eg_blockers e' i) = seen \<union> set (blockTargets ds) \<and> (\<forall>j. j \<noteq> i \<longrightarrow> eg_blockers e' j = eg_blockers e j)
    \<and> eg_count e' = eg_count e + card (set (blockTargets ds) - seen)"
  using assms
proof (induction ds arbitrary: seen e)
  case (Cons d ds)
  let ?t = "TrimSpace (td_TargetID d)"
  show ?case
  proof (cases "td_Type d = ''blocks'' \<and> ?t \<notin> seen")
    case True
    then have rest: "scanDependencies s i (insert ?t seen) (addBlocker i ?t e) ds = Inr e'"
      using Cons.prems(1) by (simp add: Let_def split: if_splits)
    have "set (eg_blockers (addBlocker i ?t e) i) = insert ?t seen" using Cons.prems(3) by (auto simp: addBlocker_def)
    then have ih: "edges_ok e' \<and> set (eg_blockers e' i) = insert ?t seen \<union> set (blockTargets ds)
      \<and> (\<forall>j. j \<noteq> i \<longrightarrow> eg_blockers e' j = eg_blockers (addBlocker i ?t e) j)
      \<and> eg_count e' = eg_count (addBlocker i ?t e) + card (set (blockTargets ds) - insert ?t seen)"
      using Cons.IH [OF rest] addBlocker_ok Cons.prems(2,3) True by blast
    have "set (blockTargets (d # ds)) - seen = insert ?t (set (blockTargets ds) - insert ?t seen)" using True by (auto simp: blockTargets_Cons)
    then have "card (set (blockTargets (d # ds)) - seen) = Suc (card (set (blockTargets ds) - insert ?t seen))" by simp
    with ih show ?thesis using True by (auto simp: addBlocker_def blockTargets_Cons)
  next
    case False
    then have rest: "scanDependencies s i seen e ds = Inr e'" using Cons.prems(1) by (auto simp: Let_def split: if_splits)
    have "seen \<union> set (blockTargets (d # ds)) = seen \<union> set (blockTargets ds)"
      and "set (blockTargets (d # ds)) - seen = set (blockTargets ds) - seen" using False by (auto simp: blockTargets_Cons)
    then show ?thesis using Cons.IH [OF rest] Cons.prems(2,3) by simp
  qed
qed (simp add: blockTargets_def)

lemma scanDependencies_succeeds:
  assumes "eg_count e \<le> maxScheduleDependencies"
  shows "(\<exists>e'. scanDependencies s i seen e ds = Inr e') \<longleftrightarrow>
    (\<forall>b \<in> set (blockTargets ds). b \<noteq> [] \<and> b \<noteq> i \<and> task_Get s b \<noteq> None)
    \<and> eg_count e + card (set (blockTargets ds) - seen) \<le> maxScheduleDependencies"
  using assms
proof (induction ds arbitrary: seen e)
  case (Cons d ds)
  let ?t = "TrimSpace (td_TargetID d)"
  show ?case
  proof (cases "td_Type d = ''blocks'' \<and> ?t \<notin> seen")
    case True
    have "set (blockTargets (d # ds)) - seen = insert ?t (set (blockTargets ds) - insert ?t seen)" using True by (auto simp: blockTargets_Cons)
    then have card: "card (set (blockTargets (d # ds)) - seen) = Suc (card (set (blockTargets ds) - insert ?t seen))" by simp
    show ?thesis
    proof (cases "eg_count e + 1 \<le> maxScheduleDependencies")
      case room: True
      then have "eg_count (addBlocker i ?t e) \<le> maxScheduleDependencies" by (simp add: addBlocker_def)
      from Cons.IH [OF this, of "insert ?t seen"] show ?thesis using True room card
        by (auto simp: blockTargets_Cons Let_def addBlocker_def)
    next
      case False
      then show ?thesis using True card by (auto simp: blockTargets_Cons Let_def)
    qed
  next
    case False
    have "set (blockTargets (d # ds)) - seen = set (blockTargets ds) - seen" using False by (auto simp: blockTargets_Cons)
    then show ?thesis using Cons.IH [OF Cons.prems, of seen] False by (auto simp: blockTargets_Cons Let_def)
  qed
qed (simp add: blockTargets_def)

lemma scanTasks_edges:
  assumes "scanTasks s e is = Inr e'" and "edges_ok e" and "distinct is" and "\<forall>i \<in> set is. eg_blockers e i = []"
  shows "edges_ok e' \<and> (\<forall>i. set (eg_blockers e' i) = (if i \<in> set is then blockersOf s i else set (eg_blockers e i)))"
  using assms
proof (induction "is" arbitrary: e)
  case (Cons i "is")
  from Cons.prems(1) obtain t e1 where t: "task_Get s i = Some t" and e1: "scanDependencies s i {} e (ta_Dependencies t) = Inr e1"
    and rest: "scanTasks s e1 is = Inr e'" by (auto split: option.splits if_splits sum.splits)
  have edges: "edges_ok e1 \<and> set (eg_blockers e1 i) = blockersOf s i \<and> (\<forall>j. j \<noteq> i \<longrightarrow> eg_blockers e1 j = eg_blockers e j)"
    using scanDependencies_edges [OF e1 Cons.prems(2)] Cons.prems(4) t by (simp add: blockersOf_def)
  then have "\<forall>j \<in> set is. eg_blockers e1 j = []" using Cons.prems(3,4) by (metis distinct.simps(2) list.set_intros(2))
  with Cons.IH [OF rest] edges Cons.prems(3)
  have "edges_ok e' \<and> (\<forall>j. set (eg_blockers e' j) = (if j \<in> set is then blockersOf s j else set (eg_blockers e1 j)))" by simp
  with edges Cons.prems(3) show ?case by (auto split: if_splits)
qed simp

lemma scanTasks_succeeds:
  assumes "eg_count e \<le> maxScheduleDependencies" and "edges_ok e" and "distinct is" and "\<forall>i \<in> set is. eg_blockers e i = []"
  shows "(\<exists>e'. scanTasks s e is = Inr e') \<longleftrightarrow>
    (\<forall>i \<in> set is. \<exists>t. task_Get s i = Some t \<and> TrimSpace i \<noteq> [] \<and> ta_ID t = i \<and> ta_Status t \<in> set taskStatuses
       \<and> (\<forall>b \<in> blockersOf s i. b \<noteq> [] \<and> b \<noteq> i \<and> task_Get s b \<noteq> None))
    \<and> eg_count e + (\<Sum>i \<leftarrow> is. card (blockersOf s i)) \<le> maxScheduleDependencies"
  using assms
proof (induction "is" arbitrary: e)
  case (Cons i "is")
  show ?case
  proof (cases "\<exists>t e1. task_Get s i = Some t \<and> TrimSpace i \<noteq> [] \<and> ta_ID t = i \<and> ta_Status t \<in> set taskStatuses
      \<and> scanDependencies s i {} e (ta_Dependencies t) = Inr e1")
    case True
    then obtain t e1 where t: "task_Get s i = Some t" "TrimSpace i \<noteq> []" "ta_ID t = i" "ta_Status t \<in> set taskStatuses"
      and e1: "scanDependencies s i {} e (ta_Dependencies t) = Inr e1" by blast
    have blockers: "blockersOf s i = set (blockTargets (ta_Dependencies t))" using t(1) by (simp add: blockersOf_def)
    have ok: "(\<forall>b \<in> blockersOf s i. b \<noteq> [] \<and> b \<noteq> i \<and> task_Get s b \<noteq> None) \<and> eg_count e + card (blockersOf s i) \<le> maxScheduleDependencies"
      using scanDependencies_succeeds [OF Cons.prems(1), of s i "{}" "ta_Dependencies t"] e1 blockers by auto
    have edges: "edges_ok e1 \<and> (\<forall>j. j \<noteq> i \<longrightarrow> eg_blockers e1 j = eg_blockers e j) \<and> eg_count e1 = eg_count e + card (blockersOf s i)"
      using scanDependencies_edges [OF e1 Cons.prems(2)] Cons.prems(4) blockers by simp
    then have none: "\<forall>j \<in> set is. eg_blockers e1 j = []" using Cons.prems(3,4) by (metis distinct.simps(2) list.set_intros(2))
    have "scanTasks s e (i # is) = scanTasks s e1 is" using t e1 by simp
    with Cons.IH [of e1] edges ok none Cons.prems(3) t show ?thesis by auto
  next
    case False
    then have "\<not> (\<exists>e'. scanTasks s e (i # is) = Inr e')" by (auto split: option.splits if_splits sum.splits)
    moreover have "\<not> (\<exists>t. task_Get s i = Some t \<and> TrimSpace i \<noteq> [] \<and> ta_ID t = i \<and> ta_Status t \<in> set taskStatuses
        \<and> (\<forall>b \<in> blockersOf s i. b \<noteq> [] \<and> b \<noteq> i \<and> task_Get s b \<noteq> None)) \<or> maxScheduleDependencies < eg_count e + card (blockersOf s i)"
    proof (rule ccontr)
      assume "\<not> ?thesis"
      then obtain t where t: "task_Get s i = Some t" "TrimSpace i \<noteq> []" "ta_ID t = i" "ta_Status t \<in> set taskStatuses"
        and ok: "\<forall>b \<in> blockersOf s i. b \<noteq> [] \<and> b \<noteq> i \<and> task_Get s b \<noteq> None" "eg_count e + card (blockersOf s i) \<le> maxScheduleDependencies"
        by (auto simp: not_less)
      have "blockersOf s i = set (blockTargets (ta_Dependencies t))" using t(1) by (simp add: blockersOf_def)
      then have "\<exists>e1. scanDependencies s i {} e (ta_Dependencies t) = Inr e1"
        using scanDependencies_succeeds [OF Cons.prems(1), of s i "{}" "ta_Dependencies t"] ok by simp
      with False t show False by blast
    qed
    ultimately show ?thesis by auto
  qed
qed simp

section \<open>Waves\<close>

lemma releaseDependents_spec:
  assumes "distinct ds"
  shows "releaseDependents inD next ds = ((\<lambda>j. if j \<in> set ds then inD j - 1 else inD j), next @ filter (\<lambda>j. inD j = 1) ds)"
  using assms
proof (induction ds arbitrary: inD "next")
  case (Cons d ds)
  have "filter (\<lambda>j. (inD(d := inD d - 1)) j = 1) ds = filter (\<lambda>j. inD j = 1) ds" using Cons.prems by (intro filter_cong) auto
  with Cons show ?case by (auto simp: Let_def fun_eq_iff)
qed (simp add: fun_eq_iff)

lemma releaseWave_spec:
  assumes "distinct is" and "\<forall>i. distinct (dep i)" and "\<forall>j. int (card {i \<in> set is. j \<in> set (dep i)}) \<le> inD j"
    and "distinct next" and "\<forall>j \<in> set next. inD j = 0"
  obtains next' where "releaseWave dep inD next is = ((\<lambda>j. inD j - int (card {i \<in> set is. j \<in> set (dep i)})), next')"
    and "distinct next'" and "set next' = set next \<union> {j. 0 < inD j \<and> inD j = int (card {i \<in> set is. j \<in> set (dep i)})}"
proof -
  have "\<exists>next'. releaseWave dep inD next is = ((\<lambda>j. inD j - int (card {i \<in> set is. j \<in> set (dep i)})), next')
    \<and> distinct next' \<and> set next' = set next \<union> {j. 0 < inD j \<and> inD j = int (card {i \<in> set is. j \<in> set (dep i)})}"
    using assms
  proof (induction "is" arbitrary: inD "next")
    case (Cons i "is")
    let ?D = "\<lambda>j. if j \<in> set (dep i) then inD j - 1 else inD j"
    let ?next = "next @ filter (\<lambda>j. inD j = 1) (dep i)"
    have card: "card {k \<in> set (i # is). j \<in> set (dep k)} = (if j \<in> set (dep i) then 1 else 0) + card {k \<in> set is. j \<in> set (dep k)}" for j
    proof -
      have "{k \<in> set (i # is). j \<in> set (dep k)} = (if j \<in> set (dep i) then insert i {k \<in> set is. j \<in> set (dep k)} else {k \<in> set is. j \<in> set (dep k)})" by auto
      then show ?thesis using Cons.prems(1) by simp
    qed
    have bound: "int (card {k \<in> set is. j \<in> set (dep k)}) \<le> ?D j" for j using Cons.prems(3) [rule_format, of j] card [of j] by (simp split: if_splits)
    have nonneg: "0 \<le> ?D j" for j using bound [of j] by linarith
    have "distinct ?next" using Cons.prems(2,4,5) by auto
    moreover have "\<forall>j \<in> set ?next. ?D j = 0" using Cons.prems(5) nonneg by (force split: if_splits)
    ultimately obtain next' where next': "releaseWave dep ?D ?next is = ((\<lambda>j. ?D j - int (card {k \<in> set is. j \<in> set (dep k)})), next')"
      "distinct next'" "set next' = set ?next \<union> {j. 0 < ?D j \<and> ?D j = int (card {k \<in> set is. j \<in> set (dep k)})}"
      using Cons.IH [of ?D ?next] Cons.prems(1,2) bound by auto
    have "releaseWave dep inD next (i # is) = releaseWave dep ?D ?next is" using releaseDependents_spec Cons.prems(2) by simp
    moreover have "set next' = set next \<union> {j. 0 < inD j \<and> inD j = int (card {k \<in> set (i # is). j \<in> set (dep k)})}"
    proof -
      have "j \<in> set (dep i) \<and> inD j = 1 \<or> 0 < ?D j \<and> ?D j = int (card {k \<in> set is. j \<in> set (dep k)})
          \<longleftrightarrow> 0 < inD j \<and> inD j = int (card {k \<in> set (i # is). j \<in> set (dep k)})" for j
      proof -
        define c where "c = card {k \<in> set is. j \<in> set (dep k)}"
        show ?thesis using bound [of j] unfolding card [of j] c_def [symmetric] by (cases "j \<in> set (dep i)") auto
      qed
      then show ?thesis unfolding next'(3) set_append set_filter by blast
    qed
    moreover have "(\<lambda>j. ?D j - int (card {k \<in> set is. j \<in> set (dep k)})) = (\<lambda>j. inD j - int (card {k \<in> set (i # is). j \<in> set (dep k)}))"
      unfolding card by (auto simp: fun_eq_iff)
    ultimately show ?case using next'(1,2) by simp
  qed auto
  with that show thesis by blast
qed

section \<open>The waves are the layers of the blocking order\<close>

text \<open>
  The loop with blockers \<open>B\<close> among \<open>ids\<close>: the finished tasks are closed, each wave collects exactly those whose blockers
  were finished before it, and the counters count the blockers still open.
\<close>

definition layer :: "string list \<Rightarrow> (string \<Rightarrow> string set) \<Rightarrow> string list \<Rightarrow> string list" where
  "layer ids B finished = filter (\<lambda>i. i \<notin> set finished \<and> B i \<subseteq> set finished) ids"

definition layered :: "string list \<Rightarrow> (string \<Rightarrow> string set) \<Rightarrow> string list list \<Rightarrow> bool" where
  "layered ids B waves \<longleftrightarrow> (\<forall>k < length waves. waves ! k \<noteq> [] \<and> waves ! k = layer ids B (concat (take k waves)))"

definition waves_inv :: "string list \<Rightarrow> (string \<Rightarrow> string set) \<Rightarrow> (string \<Rightarrow> int) \<Rightarrow> string list \<Rightarrow> string list list \<Rightarrow> bool" where
  "waves_inv ids B inD queue waves \<longleftrightarrow> layered ids B waves \<and> distinct (concat waves) \<and> set (concat waves) \<subseteq> set ids
     \<and> (\<forall>i \<in> set (concat waves). B i \<subseteq> set (concat waves))
     \<and> queue = layer ids B (concat waves) \<and> (\<forall>j. inD j = int (card (B j - set (concat waves))))"

lemma layered_snoc: "layered ids B (waves @ [w]) \<longleftrightarrow> layered ids B waves \<and> w \<noteq> [] \<and> w = layer ids B (concat waves)"
proof -
  have "(\<forall>k < length (waves @ [w]). P k) \<longleftrightarrow> (\<forall>k < length waves. P k) \<and> P (length waves)" for P by (auto simp: less_Suc_eq)
  then show ?thesis unfolding layered_def by (simp add: nth_append)
qed

lemma set_layer: "set (layer ids B finished) = {i \<in> set ids. i \<notin> set finished \<and> B i \<subseteq> set finished}"
  by (auto simp: layer_def)

lemma waves_inv_step:
  assumes inv: "waves_inv ids B inD queue waves" and "queue \<noteq> []" and ids: "sorted ids" "distinct ids"
    and B: "\<forall>j. finite (B j)" "\<forall>j. B j \<noteq> {} \<longrightarrow> j \<in> set ids" and dep: "\<forall>i. distinct (dep i) \<and> set (dep i) = {j. i \<in> B j}"
  obtains inD' next' where "releaseWave dep inD [] queue = (inD', next')" and "waves_inv ids B inD' (sort next') (waves @ [queue])"
proof -
  let ?P = "set (concat waves)" and ?Q = "set queue"
  from inv have queue: "?Q = {i \<in> set ids. i \<notin> ?P \<and> B i \<subseteq> ?P}" "distinct queue" and inD: "inD j = int (card (B j - ?P))" for j
    using ids(2) by (auto simp: waves_inv_def set_layer) (simp_all add: layer_def)
  have closed: "\<forall>i \<in> ?P. B i \<subseteq> ?P" using inv by (simp add: waves_inv_def del: set_concat)
  have hits: "{i \<in> ?Q. j \<in> set (dep i)} = B j \<inter> ?Q" for j using dep by auto
  have split: "card (B j - ?P) = card (B j \<inter> ?Q) + card (B j - (?P \<union> ?Q))" for j
  proof -
    have "B j - ?P = (B j \<inter> ?Q) \<union> (B j - (?P \<union> ?Q))" using queue by auto
    moreover have "finite (B j \<inter> ?Q)" "finite (B j - (?P \<union> ?Q))" "(B j \<inter> ?Q) \<inter> (B j - (?P \<union> ?Q)) = {}" using B(1) by auto
    ultimately show ?thesis by (metis card_Un_disjoint)
  qed
  have "\<forall>j. int (card {i \<in> ?Q. j \<in> set (dep i)}) \<le> inD j" using split by (simp add: hits inD)
  from releaseWave_spec [OF queue(2) _ this, of "[]"] dep obtain next' where
    run: "releaseWave dep inD [] queue = ((\<lambda>j. inD j - int (card {i \<in> ?Q. j \<in> set (dep i)})), next')" and "distinct next'"
    and next': "set next' = {j. 0 < inD j \<and> inD j = int (card {i \<in> ?Q. j \<in> set (dep i)})}" by auto
  let ?D = "\<lambda>j. inD j - int (card {i \<in> ?Q. j \<in> set (dep i)})"
  have D: "?D j = int (card (B j - (?P \<union> ?Q)))" for j using split [of j] by (simp add: hits inD)
  have "j \<in> set next' \<longleftrightarrow> j \<in> set ids \<and> j \<notin> ?P \<union> ?Q \<and> B j \<subseteq> ?P \<union> ?Q" for j
  proof -
    have "j \<in> set next' \<longleftrightarrow> B j - ?P \<noteq> {} \<and> B j - (?P \<union> ?Q) = {}"
    proof -
      have "j \<in> set next' \<longleftrightarrow> 0 < card (B j - ?P) \<and> card (B j - (?P \<union> ?Q)) = 0" using next' D [of j] inD [of j] by auto
      then show ?thesis using B(1) by (simp add: card_gt_0_iff)
    qed
    moreover have "j \<notin> ?P" if "B j - ?P \<noteq> {}" using that closed by blast
    ultimately show ?thesis using B(2) queue(1) by blast
  qed
  then have set: "set next' = set (layer ids B (concat waves @ queue))" by (auto simp: set_layer)
  have "sorted (layer ids B (concat waves @ queue))" "distinct (layer ids B (concat waves @ queue))" using ids sorted_filter [of "\<lambda>i. i" ids] by (simp_all add: layer_def)
  then have layer: "sort next' = layer ids B (concat (waves @ [queue]))" using set \<open>distinct next'\<close> by (intro sorted_distinct_set_unique) simp_all
  have P: "set (concat (waves @ [queue])) = ?P \<union> ?Q" by simp
  have "\<forall>i \<in> ?P \<union> ?Q. B i \<subseteq> ?P \<union> ?Q" using closed queue(1) by blast
  moreover have "?P \<inter> ?Q = {}" "?P \<union> ?Q \<subseteq> set ids" using inv queue(1) by (auto simp: waves_inv_def)
  then have "distinct (concat (waves @ [queue]))" "?P \<union> ?Q \<subseteq> set ids" using inv queue(2) by (simp_all add: waves_inv_def del: set_concat)
  moreover have "layered ids B (waves @ [queue])" using inv assms(2) by (simp add: waves_inv_def layered_snoc)
  ultimately have "waves_inv ids B ?D (sort next') (waves @ [queue])" using D layer unfolding waves_inv_def P by blast
  with run that show thesis by blast
qed

lemma waveLoop_returns:
  assumes "waves_inv ids B inD queue waves" and "sorted ids" "distinct ids"
    and "\<forall>j. finite (B j)" "\<forall>j. B j \<noteq> {} \<longrightarrow> j \<in> set ids" and "\<forall>i. distinct (dep i) \<and> set (dep i) = {j. i \<in> B j}"
  obtains inD' waves' where "waveLoop dep inD queue waves = Some waves'" and "waves_inv ids B inD' [] waves'"
  using assms(1)
proof (induction "card (set ids - set (concat waves))" arbitrary: inD queue waves thesis rule: less_induct)
  case less
  show ?case
  proof (cases "queue = []")
    case True
    then have "waveLoop dep inD queue waves = Some waves" using True by (subst waveLoop.simps) simp
    then show ?thesis using less.prems True by blast
  next
    case False
    from waves_inv_step [OF less.prems(2) False assms(2-6)] obtain inD1 next' where
      run: "releaseWave dep inD [] queue = (inD1, next')" and inv: "waves_inv ids B inD1 (sort next') (waves @ [queue])" by blast
    have fewer: "A - (P \<union> Q) \<subset> A - P" if "Q \<subseteq> A - P" and "Q \<noteq> {}" for A P Q :: "string set" using that by blast
    have "set queue \<subseteq> set ids - set (concat waves)" using less.prems(2) by (auto simp: waves_inv_def set_layer)
    moreover have "set queue \<noteq> {}" using False by simp
    moreover have "set (concat (waves @ [queue])) = set (concat waves) \<union> set queue" by simp
    ultimately have "set ids - set (concat (waves @ [queue])) \<subset> set ids - set (concat waves)" using fewer by metis
    then have "card (set ids - set (concat (waves @ [queue]))) < card (set ids - set (concat waves))" by (simp add: psubset_card_mono)
    from less.hyps [OF this _ inv] obtain inD' waves' where "waveLoop dep inD1 (sort next') (waves @ [queue]) = Some waves'"
      "waves_inv ids B inD' [] waves'" by blast
    moreover from this have "waveLoop dep inD queue waves = Some waves'" using run False by (subst waveLoop.simps) simp
    ultimately show ?thesis using less.prems(1) by blast
  qed
qed

section \<open>The schedule is exact\<close>

lemma layered_progress:
  assumes "layered ids B waves" and "i \<in> set (concat waves)" and "b \<in> B i" and "distinct (concat waves)"
  shows "(b, i) \<in> measure (\<lambda>j. card {k. k \<le> length waves \<and> j \<notin> set (concat (take k waves))})"
proof -
  let ?done = "\<lambda>k. set (concat (take k waves))"
  from assms(2) obtain w where "w \<in> set waves" "i \<in> set w" by auto
  then obtain k where k: "k < length waves" "i \<in> set (waves ! k)" by (metis in_set_conv_nth)
  then have "i \<notin> ?done k" "b \<in> ?done k" using assms(1,3) by (auto simp: layered_def layer_def)
  have mono: "?done m \<subseteq> ?done n" if "m \<le> n" for m n using set_take_subset_set_take [OF that, of waves] by auto
  have "m < k" if "b \<notin> ?done m" for m using mono [of k m] that \<open>b \<in> ?done k\<close> by (meson not_less subsetD)
  moreover have "i \<notin> ?done m" if "m \<le> k" for m using mono [OF that] \<open>i \<notin> ?done k\<close> by blast
  ultimately have "{m. m \<le> length waves \<and> b \<notin> ?done m} \<subseteq> {m. m \<le> length waves \<and> i \<notin> ?done m} - {k}" using less_imp_le by blast
  moreover have "k \<in> {m. m \<le> length waves \<and> i \<notin> ?done m}" using k(1) \<open>i \<notin> ?done k\<close> by simp
  ultimately have "{m. m \<le> length waves \<and> b \<notin> ?done m} \<subset> {m. m \<le> length waves \<and> i \<notin> ?done m}" by blast
  then show ?thesis by (simp add: psubset_card_mono)
qed

lemma complete_waves:
  assumes "waves_inv ids B inD [] waves" and "sorted ids" "distinct ids" and "\<forall>i. B i \<subseteq> set ids" "\<forall>j. B j \<noteq> {} \<longrightarrow> j \<in> set ids"
  shows "length (concat waves) = length ids \<longleftrightarrow> acyclic {(b, i). b \<in> B i}"
    and "length (concat waves) = length ids \<Longrightarrow> set (concat waves) = set ids"
proof -
  let ?P = "set (concat waves)"
  have P: "?P \<subseteq> set ids" "distinct (concat waves)" and layers: "layered ids B waves" and stuck: "layer ids B (concat waves) = []"
    using assms(1) by (simp_all add: waves_inv_def del: set_concat)
  have len: "length (concat waves) = length ids \<longleftrightarrow> ?P = set ids"
    using P assms(3) card_subset_eq [of "set ids" ?P] by (metis List.finite_set distinct_card)
  then show "length (concat waves) = length ids \<Longrightarrow> ?P = set ids" by simp
  have "acyclic {(b, i). b \<in> B i}" if "?P = set ids"
  proof -
    have "{(b, i). b \<in> B i} \<subseteq> measure (\<lambda>j. card {k. k \<le> length waves \<and> j \<notin> set (concat (take k waves))})"
      using layered_progress [OF layers _ _ P(2)] assms(5) that by blast
    then show ?thesis by (meson acyclic_subset wf_acyclic wf_measure)
  qed
  moreover have "?P = set ids" if "acyclic {(b, i). b \<in> B i}"
  proof (rule ccontr)
    assume "?P \<noteq> set ids"
    then obtain u where "u \<in> set ids - ?P" using P(1) by blast
    have "{(b, i). b \<in> B i} \<subseteq> set ids \<times> set ids" using assms(4,5) by blast
    then have "wf {(b, i). b \<in> B i}" using that by (meson List.finite_set finite_SigmaI finite_acyclic_wf finite_subset)
    from wfE_min [OF this \<open>u \<in> set ids - ?P\<close>] obtain z where z: "z \<in> set ids - ?P" "\<And>y. (y, z) \<in> {(b, i). b \<in> B i} \<Longrightarrow> y \<notin> set ids - ?P" by blast
    then have "B z \<subseteq> ?P" using assms(4) by blast
    then have "z \<in> set (layer ids B (concat waves))" using z(1) by (simp add: set_layer del: set_concat)
    then show False by (simp add: stuck)
  qed
  ultimately show "length (concat waves) = length ids \<longleftrightarrow> acyclic {(b, i). b \<in> B i}" using len by blast
qed

lemma blockersOf_Get: "b \<in> blockersOf s i \<Longrightarrow> i \<in> set (map fst (ts_tasks s))"
  by (force simp: blockersOf_def task_Get_def split: option.splits dest: map_of_SomeD)

lemma finite_blockersOf [simp]: "finite (blockersOf s i)"
  by (simp add: blockersOf_def split: option.split)

lemma schedulable_scan:
  assumes "distinct (map fst (ts_tasks s))" and "length (ts_tasks s) \<le> maxScheduleTasks"
  shows "(\<exists>e. scanTasks s noEdges (sort (map fst (ts_tasks s))) = Inr e) \<longleftrightarrow> schedulable s"
proof -
  have tasks: "(i, t) \<in> set (ts_tasks s) \<longleftrightarrow> task_Get s i = Some t" for i t
    using map_of_eq_Some_iff [OF assms(1)] by (simp add: task_Get_def)
  have ids: "i \<in> set (map fst (ts_tasks s)) \<longleftrightarrow> (\<exists>t. task_Get s i = Some t)" for i using tasks by force
  have sums: "(\<Sum>i \<leftarrow> sort xs. card (blockersOf s i)) = (\<Sum>i \<leftarrow> xs. card (blockersOf s i))" for xs by (simp flip: sum_mset_sum_list)
  have conv: "(\<forall>i \<in> set (map fst (ts_tasks s)). \<exists>t. task_Get s i = Some t \<and> Q i t) \<longleftrightarrow> (\<forall>(i, t) \<in> set (ts_tasks s). Q i t)" for Q
  proof -
    have "(\<forall>(i, t) \<in> set (ts_tasks s). Q i t) \<longleftrightarrow> (\<forall>i t. task_Get s i = Some t \<longrightarrow> Q i t)" by (auto simp: tasks [symmetric])
    moreover have "(\<forall>i \<in> set (map fst (ts_tasks s)). \<exists>t. task_Get s i = Some t \<and> Q i t) \<longleftrightarrow> (\<forall>i t. task_Get s i = Some t \<longrightarrow> Q i t)"
      unfolding Ball_def ids by force
    ultimately show ?thesis by simp
  qed
  have none: "eg_count noEdges = 0" "eg_blockers noEdges i = []" for i by (simp_all add: noEdges_def)
  have "(\<exists>e. scanTasks s noEdges (sort (map fst (ts_tasks s))) = Inr e) \<longleftrightarrow>
      (\<forall>i \<in> set (map fst (ts_tasks s)). \<exists>t. task_Get s i = Some t \<and> TrimSpace i \<noteq> [] \<and> ta_ID t = i \<and> ta_Status t \<in> set taskStatuses
         \<and> (\<forall>b \<in> blockersOf s i. b \<noteq> [] \<and> b \<noteq> i \<and> task_Get s b \<noteq> None))
      \<and> (\<Sum>i \<leftarrow> map fst (ts_tasks s). card (blockersOf s i)) \<le> maxScheduleDependencies"
    using scanTasks_succeeds [of noEdges "sort (map fst (ts_tasks s))" s] assms(1) by (simp add: none sums del: set_map map_map)
  then show ?thesis using assms(2) unfolding conv schedulable_def by simp
qed

lemma GetSchedule_result:
  assumes "distinct (map fst (ts_tasks s))"
  defines "ids \<equiv> sort (map fst (ts_tasks s))"
  shows "if \<not> schedulable s then (\<exists>err. GetSchedule s = Some (Inl err) \<and> err \<noteq> ErrBlockingCycle)
    else if \<not> acyclic (blocking s) then GetSchedule s = Some (Inl ErrBlockingCycle)
    else (\<exists>waves blockers. GetSchedule s = Some (Inr \<lparr>sc_Waves = waves, sc_Ready = readyTasks s blockers ids\<rparr>)
      \<and> (\<forall>i. set (blockers i) = blockersOf s i) \<and> layered ids (blockersOf s) waves \<and> distinct (concat waves) \<and> set (concat waves) = set ids)"
proof (cases "schedulable s")
  case False
  show ?thesis
  proof (cases "maxScheduleTasks < length (ts_tasks s)")
    case fits: False
    have scan: "scanTasks s e is = Inl err \<Longrightarrow> err \<noteq> ErrBlockingCycle" for e "is" err
    proof (induction s e "is" rule: scanTasks.induct)
      case (2 s e i "is")
      have "scanDependencies s i seen e ds = Inl err \<Longrightarrow> err \<noteq> ErrBlockingCycle" for seen e ds
        by (induction s i seen e ds rule: scanDependencies.induct) (auto simp: Let_def split: if_splits)
      with 2 show ?case by (auto split: option.splits if_splits sum.splits)
    qed simp
    from False fits schedulable_scan [OF assms(1)] obtain err where "scanTasks s noEdges ids = Inl err"
      by (cases "scanTasks s noEdges ids") (auto simp: ids_def)
    with scan False fits show ?thesis by (auto simp: GetSchedule_def ids_def)
  qed (simp add: False GetSchedule_def)
next
  case True
  then have fits: "length (ts_tasks s) \<le> maxScheduleTasks" by (simp add: schedulable_def)
  with True schedulable_scan [OF assms(1)] obtain e where scan: "scanTasks s noEdges ids = Inr e" by (auto simp: ids_def)
  have ids: "sorted ids" "distinct ids" "set ids = set (map fst (ts_tasks s))" "length ids = length (ts_tasks s)" using assms(1) by (simp_all add: ids_def)
  let ?B = "blockersOf s"
  have none: "eg_blockers noEdges i = []" for i by (simp add: noEdges_def)
  from scanTasks_edges [OF scan noEdges_ok ids(2)] have ok: "edges_ok e"
    and scanned: "\<forall>i. set (eg_blockers e i) = (if i \<in> set ids then ?B i else {})" by (simp_all add: none)
  have blockers: "set (eg_blockers e i) = ?B i" for i
    using scanned [rule_format, of i] blockersOf_Get [of _ s i] ids(3) by (auto split: if_splits)
  have "task_Get s b \<noteq> None" if "b \<in> ?B i" for b i using True blockersOf_Get [OF that] that by (force simp: schedulable_def)
  then have inside: "\<forall>i. ?B i \<subseteq> set ids" by (auto simp: ids(3) task_Get_def map_of_eq_None_iff)
  have owners: "\<forall>j. ?B j \<noteq> {} \<longrightarrow> j \<in> set ids" using blockersOf_Get [of _ s] ids(3) by blast
  let ?dep = "\<lambda>i. sort (eg_dependents e i)" and ?queue = "filter (\<lambda>i. eg_inDegree e i = 0) ids"
  have dep: "\<forall>i. distinct (?dep i) \<and> set (?dep i) = {j. i \<in> ?B j}" using ok blockers by (simp add: edges_ok_def)
  have deg: "eg_inDegree e j = int (card (?B j))" for j using ok by (simp add: edges_ok_def distinct_card flip: blockers)
  then have "?queue = layer ids ?B []" by (auto simp: layer_def)
  then have "waves_inv ids ?B (eg_inDegree e) ?queue []" by (simp add: waves_inv_def layered_def deg)
  then obtain inD' waves where loop: "waveLoop ?dep (eg_inDegree e) ?queue [] = Some waves" and inv: "waves_inv ids ?B inD' [] waves"
    by (rule waveLoop_returns [OF _ ids(1,2) _ owners dep]) simp_all
  have blocking: "blocking s = {(b, i). b \<in> ?B i}" by (simp add: blocking_def)
  have result: "GetSchedule s = Some (if length (concat waves) \<noteq> length ids then Inl ErrBlockingCycle
      else Inr \<lparr>sc_Waves = waves, sc_Ready = readyTasks s (\<lambda>i. sort (eg_blockers e i)) ids\<rparr>)"
    using scan loop fits by (simp add: GetSchedule_def Let_def flip: ids_def)
  show ?thesis
    using True result complete_waves [OF inv ids(1,2) inside owners] inv blockers unfolding blocking by (auto simp: waves_inv_def)
qed

text \<open>
  C9. \<^bold>\<open>The schedule is exact.\<close> It always returns. Invalid tasks are refused, a cycle of blockers is reported exactly if there
  is one, and otherwise each wave is, in order of the ids, the tasks not in an earlier wave whose blockers all are, every
  task is in one wave, and the ready tasks are the pending ones all of whose blockers are completed.
\<close>

theorem schedule_exact:
  assumes "distinct (map fst (ts_tasks s))"
  shows "let ids = sort (map fst (ts_tasks s)) in case GetSchedule s of
      None \<Rightarrow> False
    | Some (Inl err) \<Rightarrow> (if err = ErrBlockingCycle then schedulable s \<and> \<not> acyclic (blocking s) else \<not> schedulable s)
    | Some (Inr sc) \<Rightarrow> schedulable s \<and> acyclic (blocking s)
        \<and> distinct (concat (sc_Waves sc)) \<and> set (concat (sc_Waves sc)) = set ids
        \<and> (\<forall>k < length (sc_Waves sc). sc_Waves sc ! k \<noteq> []
            \<and> (let earlier = set (concat (take k (sc_Waves sc))) in sc_Waves sc ! k = filter (\<lambda>i. i \<notin> earlier \<and> blockersOf s i \<subseteq> earlier) ids))
        \<and> sc_Ready sc = map (\<lambda>i. the (task_Get s i)) (filter (\<lambda>i. ta_Status (the (task_Get s i)) = ''pending''
            \<and> (\<forall>b \<in> blockersOf s i. ta_Status (the (task_Get s b)) = ''completed'')) ids)"
proof -
  let ?ids = "sort (map fst (ts_tasks s))"
  consider (invalid) err where "\<not> schedulable s" "GetSchedule s = Some (Inl err)" "err \<noteq> ErrBlockingCycle"
    | (cyclic) "schedulable s" "\<not> acyclic (blocking s)" "GetSchedule s = Some (Inl ErrBlockingCycle)"
    | (scheduled) waves blockers where "schedulable s" "acyclic (blocking s)"
        "GetSchedule s = Some (Inr \<lparr>sc_Waves = waves, sc_Ready = readyTasks s blockers ?ids\<rparr>)" "\<forall>i. set (blockers i) = blockersOf s i"
        "layered ?ids (blockersOf s) waves" "distinct (concat waves)" "set (concat waves) = set ?ids"
    using GetSchedule_result [OF assms] by (auto split: if_splits)
  then show ?thesis
  proof cases
    case scheduled
    have "\<forall>k < length waves. layer ?ids (blockersOf s) (concat (take k waves)) \<noteq> []" using scheduled(5) unfolding layered_def by metis
    then show ?thesis using scheduled by (simp add: Let_def layered_def layer_def readyTasks_def del: set_concat set_sort)
  qed (simp_all add: Let_def)
qed

definition sampleTask :: "string \<Rightarrow> string \<Rightarrow> string list \<Rightarrow> string \<times> Task" where
  "sampleTask i status blockers = (i, (newTask i i i [] (\<lambda>_. None) [] 1)\<lparr>ta_Status := status,
     ta_Dependencies := map (\<lambda>b. \<lparr>td_TargetID = b, td_Type = ''blocks''\<rparr>) blockers\<rparr>)"

definition sampleStore :: TaskStore where
  "sampleStore = \<lparr>ts_tasks = [sampleTask ''t3'' ''pending'' [''t1'', '' t2 ''], sampleTask ''t2'' ''pending'' [''t1''],
     sampleTask ''t1'' ''completed'' []], ts_next = 3\<rparr>"

lemma sample_schedule:
  "map_option (map_sum id sc_Waves) (GetSchedule sampleStore) = Some (Inr [[''t1''], [''t2''], [''t3'']])"
  by code_simp

theorem schedule_exact_witness:
  "distinct (map fst (ts_tasks sampleStore))
   \<and> (\<exists>ready. GetSchedule sampleStore = Some (Inr \<lparr>sc_Waves = [[''t1''], [''t2''], [''t3'']], sc_Ready = ready\<rparr>) \<and> acyclic (blocking sampleStore)
        \<and> map ta_ID ready = [''t2''])"
proof -
  have keys: "distinct (map fst (ts_tasks sampleStore))" by (simp add: sampleStore_def sampleTask_def)
  obtain waves ready where sc: "GetSchedule sampleStore = Some (Inr \<lparr>sc_Waves = waves, sc_Ready = ready\<rparr>)"
    using sample_schedule by (cases "GetSchedule sampleStore" rule: option.exhaust) (auto split: sum.splits elim!: TaskSchedule.cases simp: map_sum_def)
  then have waves: "waves = [[''t1''], [''t2''], [''t3'']]" using sample_schedule by simp
  have "ready = map (\<lambda>i. the (task_Get sampleStore i)) (filter (\<lambda>i. ta_Status (the (task_Get sampleStore i)) = ''pending''
      \<and> (\<forall>b \<in> blockersOf sampleStore i. ta_Status (the (task_Get sampleStore b)) = ''completed'')) (sort (map fst (ts_tasks sampleStore))))"
    and acyclic: "acyclic (blocking sampleStore)"
    using schedule_exact [OF keys] sc by (simp_all add: Let_def)
  moreover have "map ta_ID (map (\<lambda>i. the (task_Get sampleStore i)) (filter (\<lambda>i. ta_Status (the (task_Get sampleStore i)) = ''pending''
      \<and> (\<forall>b \<in> blockersOf sampleStore i. ta_Status (the (task_Get sampleStore b)) = ''completed'')) (sort (map fst (ts_tasks sampleStore))))) = [''t2'']"
    by code_simp
  ultimately show ?thesis using keys sc waves by auto
qed

section \<open>Compaction of completed tasks\<close>

text \<open>A task that remains has lost a blocker.\<close>

definition loses_blocker :: "TaskStore \<Rightarrow> bool" where
  "loses_blocker s \<longleftrightarrow> (\<exists>i t b u. task_Get s i = Some t \<and> ta_Status t \<noteq> ''completed'' \<and> b \<in> blockersOf s i
     \<and> task_Get s b = Some u \<and> ta_Status u = ''completed'')"

lemma map_of_filter_value:
  "distinct (map fst xs) \<Longrightarrow> map_of (filter (\<lambda>(_, t). P t) xs) i = (case map_of xs i of Some t \<Rightarrow> if P t then Some t else None | None \<Rightarrow> None)"
proof (induction xs)
  case (Cons x xs)
  then have "fst x = i \<Longrightarrow> map_of xs i = None" by (auto simp: map_of_eq_None_iff)
  with Cons show ?case by (cases x) auto
qed simp

lemma keys_filter_value:
  "distinct (map fst xs) \<Longrightarrow> map fst (filter (\<lambda>(_, t). P t) xs) = filter (\<lambda>i. P (the (map_of xs i))) (map fst xs)"
proof (induction xs)
  case (Cons x xs)
  then have "map_of (x # xs) i = map_of xs i" if "i \<in> set (map fst xs)" for i using that by (cases x) auto
  then have "filter (\<lambda>i. P (the (map_of (x # xs) i))) (map fst xs) = filter (\<lambda>i. P (the (map_of xs i))) (map fst xs)"
    by (metis (mono_tags, lifting) filter_cong)
  with Cons show ?case by (cases x) auto
qed simp

lemma Get_compacted:
  assumes "distinct (map fst (ts_tasks s))"
  shows "task_Get (fst (CompactCompleted s)) i =
    (case task_Get s i of Some t \<Rightarrow> if ta_Status t \<noteq> ''completed'' then Some t else None | None \<Rightarrow> None)"
  using map_of_filter_value [OF assms, of "\<lambda>t. ta_Status t \<noteq> ''completed''"] by (simp add: task_Get_def CompactCompleted_def)

lemma blockers_compacted:
  assumes "distinct (map fst (ts_tasks s))"
  shows "blockersOf (fst (CompactCompleted s)) i = (case task_Get s i of Some t \<Rightarrow> if ta_Status t \<noteq> ''completed'' then blockersOf s i else {} | None \<Rightarrow> {})"
  by (simp add: blockersOf_def Get_compacted [OF assms] split: option.split)

lemma keys_compacted:
  assumes "distinct (map fst (ts_tasks s))"
  shows "map fst (ts_tasks (fst (CompactCompleted s))) = filter (\<lambda>i. ta_Status (the (task_Get s i)) \<noteq> ''completed'') (map fst (ts_tasks s))"
  using keys_filter_value [OF assms, of "\<lambda>t. ta_Status t \<noteq> ''completed''"] by (simp add: task_Get_def CompactCompleted_def)

lemma schedulable_Get:
  assumes "distinct (map fst (ts_tasks s))"
  shows "schedulable s \<longleftrightarrow> length (ts_tasks s) \<le> maxScheduleTasks
     \<and> (\<forall>i t. task_Get s i = Some t \<longrightarrow> TrimSpace i \<noteq> [] \<and> ta_ID t = i \<and> ta_Status t \<in> set taskStatuses
         \<and> (\<forall>b \<in> blockersOf s i. b \<noteq> [] \<and> b \<noteq> i \<and> task_Get s b \<noteq> None))
     \<and> (\<Sum>i \<leftarrow> map fst (ts_tasks s). card (blockersOf s i)) \<le> maxScheduleDependencies"
proof -
  have "(i, t) \<in> set (ts_tasks s) \<longleftrightarrow> task_Get s i = Some t" for i t
    using map_of_eq_Some_iff [OF assms] by (simp add: task_Get_def)
  then have "(\<forall>(i, t) \<in> set (ts_tasks s). Q i t) \<longleftrightarrow> (\<forall>i t. task_Get s i = Some t \<longrightarrow> Q i t)" for Q by fastforce
  then show ?thesis unfolding schedulable_def by simp
qed

lemma schedulable_compacted:
  assumes "distinct (map fst (ts_tasks s))" and "schedulable s"
  shows "schedulable (fst (CompactCompleted s)) \<longleftrightarrow> \<not> loses_blocker s"
proof -
  let ?s = "fst (CompactCompleted s)"
  have keys: "distinct (map fst (ts_tasks ?s))" using assms(1) by (simp add: keys_compacted)
  have "(\<Sum>i \<leftarrow> filter P xs. card (blockersOf ?s i)) \<le> (\<Sum>i \<leftarrow> xs. card (blockersOf s i))" for P xs
    by (induction xs) (auto simp: blockers_compacted [OF assms(1)] split: option.splits)
  then have "(\<Sum>i \<leftarrow> map fst (ts_tasks ?s). card (blockersOf ?s i)) \<le> maxScheduleDependencies"
    using assms unfolding keys_compacted [OF assms(1)] schedulable_def by (meson order_trans)
  moreover have "length (ts_tasks ?s) \<le> length (ts_tasks s)" by (simp add: CompactCompleted_def)
  then have "length (ts_tasks ?s) \<le> maxScheduleTasks" using assms(2) by (simp add: schedulable_def)
  ultimately have "schedulable ?s \<longleftrightarrow> (\<forall>i t. task_Get ?s i = Some t \<longrightarrow> TrimSpace i \<noteq> [] \<and> ta_ID t = i \<and> ta_Status t \<in> set taskStatuses
      \<and> (\<forall>b \<in> blockersOf ?s i. b \<noteq> [] \<and> b \<noteq> i \<and> task_Get ?s b \<noteq> None))"
    by (simp add: schedulable_Get [OF keys])
  also have "\<dots> \<longleftrightarrow> (\<forall>i t. task_Get ?s i = Some t \<longrightarrow> (\<forall>b \<in> blockersOf s i. task_Get ?s b \<noteq> None))"
    using assms(2) unfolding schedulable_Get [OF assms(1)]
    by (auto simp: Get_compacted [OF assms(1)] blockers_compacted [OF assms(1)] split: option.splits if_splits)
  also have "\<dots> \<longleftrightarrow> \<not> loses_blocker s"
    using assms(2) unfolding schedulable_Get [OF assms(1)] loses_blocker_def
    by (simp add: Get_compacted [OF assms(1)] split: option.splits) blast
  finally show ?thesis .
qed

lemma GetReadyWork_result:
  assumes "distinct (map fst (ts_tasks s))"
  shows "GetReadyWork s = Some (if schedulable s \<and> acyclic (blocking s)
    then map (\<lambda>i. the (task_Get s i)) (filter (\<lambda>i. ta_Status (the (task_Get s i)) = ''pending''
      \<and> (\<forall>b \<in> blockersOf s i. ta_Status (the (task_Get s b)) = ''completed'')) (sort (map fst (ts_tasks s)))) else [])"
  using GetSchedule_result [OF assms] by (auto simp: GetReadyWork_def readyTasks_def split: if_splits)



end
