(* ===== verification/Task_Runner.thy ===== *)
theory Task_Runner
  imports Task_Schedule
begin

text \<open>
  The executor of structured tasks (\<open>internal/tool/task_executor.go\<close>): a loop that polls the ready tasks and runs them in
  goroutines, with retries, replans and a cap on finished tasks. The goroutines, the loop, a cancellation of the run and
  other users of the store interleave; each step is what the code does under one lock or between two calls. What a task's
  execution returns, whether a replan is approved and when the clock is read are chosen by the step.
\<close>

section \<open>Options\<close>

datatype TaskRunnerEvent = EventStarted | EventCompleted | EventRetrying | EventReplanned | EventFailed | EventSkipped | EventCancelled

text \<open>\<open>ro_OnReplan\<close>: a hook is set. A timeout of an execution is one of its outcomes.\<close>

record TaskRunnerOptions =
  ro_MaxTotalTasks :: int
  ro_MaxReplans :: int
  ro_PollInterval :: int
  ro_Concurrency :: int
  ro_Backoff :: "(int \<Rightarrow> int) option"
  ro_OnReplan :: bool

record TaskRunner =
  tr_store :: TaskStore
  tr_replansByTask :: "string \<Rightarrow> int"
  tr_executed :: int
  tr_completed :: int
  tr_failed :: int
  tr_skipped :: int
  tr_cancelled :: int
  tr_replanned :: int

definition defaultBackoff :: "int \<Rightarrow> int" where
  "defaultBackoff attempt = (if attempt \<le> 0 then 0
     else let d = wrap64 (attempt * attempt * 500 * 1000000) in if 30 * 1000000000 < d then 30 * 1000000000 else d)"

definition NewTaskRunner :: "TaskRunnerOptions \<Rightarrow> TaskRunnerOptions" where
  "NewTaskRunner opts = opts\<lparr>ro_MaxTotalTasks := (if ro_MaxTotalTasks opts \<le> 0 then 50 else ro_MaxTotalTasks opts),
     ro_MaxReplans := (if ro_MaxReplans opts \<le> 0 then 2 else ro_MaxReplans opts),
     ro_PollInterval := (if ro_PollInterval opts \<le> 0 then 200 * 1000000 else ro_PollInterval opts),
     ro_Concurrency := (if ro_Concurrency opts \<le> 0 then 1 else ro_Concurrency opts),
     ro_Backoff := (case ro_Backoff opts of None \<Rightarrow> Some defaultBackoff | Some b \<Rightarrow> Some b)\<rparr>"

definition newRunner :: "TaskStore \<Rightarrow> TaskRunner" where
  "newRunner store = \<lparr>tr_store = store, tr_replansByTask = (\<lambda>_. 0), tr_executed = 0, tr_completed = 0, tr_failed = 0,
     tr_skipped = 0, tr_cancelled = 0, tr_replanned = 0\<rparr>"

section \<open>What the loop asks\<close>

definition metaInt :: "(string \<Rightarrow> json option) \<Rightarrow> string \<Rightarrow> int" where
  "metaInt m key = (case m key of Some (JNum n) \<Rightarrow> n | _ \<Rightarrow> 0)"

definition dueTasks :: "TaskRunnerOptions \<Rightarrow> Task list \<Rightarrow> gotime \<Rightarrow> Task list" where
  "dueTasks opts tasks now = filter (\<lambda>t. let tick = metaInt (ta_Metadata t) ''retryBackoffTick'' in
     tick \<le> 0 \<or> \<not> now < ta_UpdatedAt t + (case ro_Backoff opts of None \<Rightarrow> 0 | Some b \<Rightarrow> b tick)) tasks"

definition terminalCount :: "'a TaskRunner_scheme \<Rightarrow> int" where
  "terminalCount r = tr_completed r + tr_failed r + tr_skipped r + tr_cancelled r"

definition inFlight :: "string \<Rightarrow> bool" where
  "inFlight status \<longleftrightarrow> status = ''in_progress'' \<or> status = ''reviewing''"

definition quiescent :: "TaskStore \<Rightarrow> bool option" where
  "quiescent s = map_option (\<lambda>ready. if ready \<noteq> [] then False else \<forall>(_, t) \<in> set (ts_tasks s). \<not> inFlight (ta_Status t)) (GetReadyWork s)"

section \<open>Running one task\<close>

definition executeCheck :: "TaskRunnerOptions \<Rightarrow> string \<Rightarrow> 'a TaskRunner_scheme \<Rightarrow> bool" where
  "executeCheck opts i r \<longleftrightarrow> \<not> ro_MaxTotalTasks opts \<le> terminalCount r
     \<and> (case task_Get (tr_store r) i of None \<Rightarrow> False | Some cur \<Rightarrow> ta_Status cur = ''pending'')"

definition executeBegin :: "string \<Rightarrow> gotime \<Rightarrow> 'a TaskRunner_scheme \<Rightarrow> 'a TaskRunner_scheme" where
  "executeBegin i now r = r\<lparr>tr_store := fst (task_Update i (\<lambda>t. t\<lparr>ta_Status := ''in_progress'',
       ta_Owner := (if ta_Owner t = [] then ''task-runner'' else ta_Owner t),
       ta_Metadata := (ta_Metadata t)(''execStartedAt'' \<mapsto> JTime now)\<rparr>) now (tr_store r)),
     tr_executed := tr_executed r + 1\<rparr>"

definition tryReplan :: "TaskRunnerOptions \<Rightarrow> string \<Rightarrow> bool \<Rightarrow> gotime \<Rightarrow> 'a TaskRunner_scheme \<Rightarrow> 'a TaskRunner_scheme \<times> bool" where
  "tryReplan opts i approved now r = (if \<not> ro_OnReplan opts then (r, False)
     else if ro_MaxReplans opts \<le> tr_replansByTask r i then (r, False)
     else if \<not> approved then (r, False)
     else case Requeue i now (tr_store r) of Inl _ \<Rightarrow> (r, False)
     | Inr s \<Rightarrow> (r\<lparr>tr_store := s, tr_replansByTask := (tr_replansByTask r)(i := tr_replansByTask r i + 1), tr_replanned := tr_replanned r + 1\<rparr>, True))"

definition executeFinish :: "TaskRunnerOptions \<Rightarrow> bool \<Rightarrow> string \<Rightarrow> string + string \<Rightarrow> bool \<Rightarrow> gotime \<Rightarrow> 'a TaskRunner_scheme \<Rightarrow> 'a TaskRunner_scheme \<times> TaskRunnerEvent" where
  "executeFinish opts stopped i outcome approved now r = (case outcome of
     Inr out \<Rightarrow> (r\<lparr>tr_store := fst (task_Update i (\<lambda>t. t\<lparr>ta_Status := ''completed'',
         ta_Checkpoint := (ta_Checkpoint t)(''result'' \<mapsto> JStr out), ta_Metadata := (ta_Metadata t)(''execFinishedAt'' \<mapsto> JTime now)\<rparr>) now (tr_store r)),
       tr_completed := tr_completed r + 1\<rparr>, EventCompleted)
   | Inl errMsg \<Rightarrow> if stopped then
       ((case task_Cancel i ''run stopped'' now (tr_store r) of
           Inr (s, True) \<Rightarrow> r\<lparr>tr_store := s, tr_cancelled := tr_cancelled r + 1\<rparr>
         | _ \<Rightarrow> r), EventCancelled)
     else (case MarkFailed i errMsg now (tr_store r) of
         Inl _ \<Rightarrow> (r\<lparr>tr_failed := tr_failed r + 1\<rparr>, EventFailed)
       | Inr (s, True) \<Rightarrow> (r\<lparr>tr_store := s\<rparr>, EventRetrying)
       | Inr (s, False) \<Rightarrow> (case tryReplan opts i approved now (r\<lparr>tr_store := s\<rparr>) of
           (r', True) \<Rightarrow> (r', EventReplanned)
         | (r', False) \<Rightarrow> (r'\<lparr>tr_failed := tr_failed r' + 1\<rparr>, EventFailed))))"

text \<open>One round of \<open>cancelActive\<close>.\<close>

definition cancelOne :: "string \<Rightarrow> gotime \<Rightarrow> 'a TaskRunner_scheme \<Rightarrow> 'a TaskRunner_scheme" where
  "cancelOne i now r = (case task_Get (tr_store r) i of None \<Rightarrow> r
   | Some t \<Rightarrow> if \<not> inFlight (ta_Status t) then r
     else (case task_Cancel i ''cancelled'' now (tr_store r) of
         Inr (s, True) \<Rightarrow> r\<lparr>tr_store := s, tr_cancelled := tr_cancelled r + 1\<rparr>
       | _ \<Rightarrow> r))"

section \<open>The run\<close>

text \<open>
  A goroutine is waiting for its check, has passed it, or executes its task. \<open>rn_batch\<close> has the tasks of the batch that
  are not launched yet, \<open>rn_admitted\<close> that the cap was checked and the loop waits for a free slot, \<open>rn_abandoned\<close> that the batch was left without waiting for its goroutines, \<open>rn_cancelling\<close> the
  rest of the list \<open>cancelActive\<close> goes through.
\<close>

datatype phase = Queued | Checked | Executing

record run = TaskRunner +
  rn_batch :: "string list"
  rn_admitted :: bool
  rn_workers :: "string \<Rightarrow> phase option"
  rn_log :: "(string \<times> TaskRunnerEvent) list"
  rn_stopped :: bool
  rn_abandoned :: bool
  rn_cancelling :: "string list option"
  rn_returned :: bool

definition freshRun :: "TaskStore \<Rightarrow> run" where
  "freshRun store = TaskRunner.extend (newRunner store) \<lparr>rn_batch = [], rn_admitted = False, rn_workers = (\<lambda>_. None), rn_log = [], rn_stopped = False,
     rn_abandoned = False, rn_cancelling = None, rn_returned = False\<rparr>"

definition polling :: "run \<Rightarrow> bool" where
  "polling r \<longleftrightarrow> rn_batch r = [] \<and> rn_workers r = (\<lambda>_. None) \<and> \<not> rn_abandoned r \<and> rn_cancelling r = None \<and> \<not> rn_returned r"

inductive runner_step :: "TaskRunnerOptions \<Rightarrow> run \<Rightarrow> run \<Rightarrow> bool" for opts where
  poll_capped: "polling r \<Longrightarrow> ro_MaxTotalTasks opts \<le> terminalCount r \<Longrightarrow> runner_step opts r (r\<lparr>rn_returned := True\<rparr>)"
| poll_quiet: "polling r \<Longrightarrow> \<not> ro_MaxTotalTasks opts \<le> terminalCount r \<Longrightarrow> quiescent (tr_store r) = Some True
    \<Longrightarrow> runner_step opts r (r\<lparr>rn_returned := True\<rparr>)"
| poll_due: "polling r \<Longrightarrow> \<not> ro_MaxTotalTasks opts \<le> terminalCount r \<Longrightarrow> GetReadyWork (tr_store r) = Some ready \<Longrightarrow> dueTasks opts ready now = due
    \<Longrightarrow> due \<noteq> [] \<Longrightarrow> runner_step opts r (r\<lparr>rn_batch := map ta_ID due\<rparr>)"
| poll_stopped: "rn_batch r = [] \<Longrightarrow> rn_workers r = (\<lambda>_. None) \<or> rn_abandoned r \<Longrightarrow> rn_cancelling r = None \<Longrightarrow> \<not> rn_returned r \<Longrightarrow> rn_stopped r
    \<Longrightarrow> runner_step opts r (r\<lparr>rn_cancelling := Some (map fst (ts_tasks (tr_store r)))\<rparr>)"
| cancel_next: "rn_cancelling r = Some (i # is) \<Longrightarrow> runner_step opts r ((cancelOne i now r)\<lparr>rn_cancelling := Some is\<rparr>)"
| cancel_done: "rn_cancelling r = Some [] \<Longrightarrow> \<not> rn_returned r \<Longrightarrow> runner_step opts r (r\<lparr>rn_returned := True\<rparr>)"
| batch_capped: "rn_batch r \<noteq> [] \<Longrightarrow> \<not> rn_admitted r \<Longrightarrow> ro_MaxTotalTasks opts \<le> terminalCount r \<Longrightarrow> runner_step opts r (r\<lparr>rn_batch := []\<rparr>)"
| admits: "rn_batch r \<noteq> [] \<Longrightarrow> \<not> rn_admitted r \<Longrightarrow> \<not> ro_MaxTotalTasks opts \<le> terminalCount r \<Longrightarrow> runner_step opts r (r\<lparr>rn_admitted := True\<rparr>)"
| batch_left: "rn_batch r \<noteq> [] \<Longrightarrow> rn_admitted r \<Longrightarrow> rn_stopped r \<Longrightarrow> runner_step opts r (r\<lparr>rn_batch := [], rn_admitted := False, rn_abandoned := True\<rparr>)"
| launches: "rn_batch r = i # is \<Longrightarrow> rn_admitted r \<Longrightarrow> int (card (dom (rn_workers r))) < ro_Concurrency opts
    \<Longrightarrow> runner_step opts r (r\<lparr>rn_batch := is, rn_admitted := False, rn_workers := (rn_workers r)(i \<mapsto> Queued)\<rparr>)"
| check_skips: "rn_workers r i = Some Queued \<Longrightarrow> \<not> executeCheck opts i r \<Longrightarrow> runner_step opts r (r\<lparr>rn_workers := (rn_workers r)(i := None)\<rparr>)"
| check_passes: "rn_workers r i = Some Queued \<Longrightarrow> executeCheck opts i r \<Longrightarrow> runner_step opts r (r\<lparr>rn_workers := (rn_workers r)(i \<mapsto> Checked)\<rparr>)"
| begins: "rn_workers r i = Some Checked
    \<Longrightarrow> runner_step opts r ((executeBegin i now r)\<lparr>rn_workers := (rn_workers r)(i \<mapsto> Executing), rn_log := rn_log r @ [(i, EventStarted)]\<rparr>)"
| finishes: "rn_workers r i = Some Executing \<Longrightarrow> executeFinish opts (rn_stopped r) i outcome approved now r = (r', event)
    \<Longrightarrow> runner_step opts r (r'\<lparr>rn_workers := (rn_workers r)(i := None), rn_log := rn_log r @ [(i, event)]\<rparr>)"

text \<open>
  Other users of the store skip, cancel, fail, annotate and checkpoint tasks, and the run can be stopped. A task they may
  not put back to pending, complete, or give other dependencies or another budget.
\<close>

definition harmless :: "(Task \<Rightarrow> Task) \<Rightarrow> bool" where
  "harmless f \<longleftrightarrow> (\<forall>t. ta_ID (f t) = ta_ID t \<and> ta_Dependencies (f t) = ta_Dependencies t \<and> ta_Attempts (f t) = ta_Attempts t \<and> ta_MaxAttempts (f t) = ta_MaxAttempts t
     \<and> (ta_Status (f t) = ta_Status t \<or> ta_Status t \<noteq> ''completed'' \<and> ta_Status (f t) \<notin> {''pending'', ''completed''}))"

inductive env_step :: "run \<Rightarrow> run \<Rightarrow> bool" where
  touches: "harmless f \<Longrightarrow> env_step r (r\<lparr>tr_store := fst (task_Update i f now (tr_store r))\<rparr>)"
| stops: "env_step r (r\<lparr>rn_stopped := True\<rparr>)"

inductive run_reaches :: "TaskRunnerOptions \<Rightarrow> TaskStore \<Rightarrow> run \<Rightarrow> bool" for opts store where
  run_begin: "run_reaches opts store (freshRun store)"
| run_own: "run_reaches opts store r \<Longrightarrow> runner_step opts r r' \<Longrightarrow> run_reaches opts store r'"
| run_other: "run_reaches opts store r \<Longrightarrow> env_step r r' \<Longrightarrow> run_reaches opts store r'"

section \<open>Operations on the store\<close>

lemma blockersOf_touch:
  "\<forall>t. ta_Dependencies (g t) = ta_Dependencies t \<Longrightarrow> blockersOf (fst (task_Update i g now s)) = blockersOf s"
  by (rule ext) (simp add: blockersOf_def Get_touch split: option.split)

text \<open>The store after one task was changed: no dependency, budget or key is different.\<close>

definition changes :: "string \<Rightarrow> (Task \<Rightarrow> Task) \<Rightarrow> TaskStore \<Rightarrow> TaskStore \<Rightarrow> bool" where
  "changes i g s s' \<longleftrightarrow> (\<forall>j. task_Get s' j = (if j = i then map_option g (task_Get s i) else task_Get s j))
     \<and> (distinct (map fst (ts_tasks s)) \<longrightarrow> distinct (map fst (ts_tasks s')))
     \<and> (\<forall>t. ta_ID (g t) = ta_ID t \<and> ta_Dependencies (g t) = ta_Dependencies t \<and> ta_MaxAttempts (g t) = ta_MaxAttempts t)"

lemma changes_touch:
  assumes "\<forall>t. ta_ID (g t) = ta_ID t \<and> ta_Dependencies (g t) = ta_Dependencies t \<and> ta_MaxAttempts (g t) = ta_MaxAttempts t"
  shows "changes i (\<lambda>t. (g t)\<lparr>ta_UpdatedAt := now\<rparr>) s (fst (task_Update i g now s))"
  using assms by (simp add: changes_def Get_touch distinct_touch)

lemma changes_blockers: "changes i g s s' \<Longrightarrow> blockersOf s' = blockersOf s"
  by (rule ext) (simp add: changes_def blockersOf_def split: option.split)

lemma changes_MarkFailed:
  assumes "MarkFailed i e now s = Inr (s', requeued)"
  shows "changes i (\<lambda>t. (fst (afterFailure e t))\<lparr>ta_UpdatedAt := now\<rparr>) s s'"
    and "\<exists>t. task_Get s i = Some t \<and> snd (afterFailure e t) = requeued"
proof -
  have "ta_ID (fst (afterFailure e t)) = ta_ID t \<and> ta_Dependencies (fst (afterFailure e t)) = ta_Dependencies t
      \<and> ta_MaxAttempts (fst (afterFailure e t)) = ta_MaxAttempts t" for t by (simp add: afterFailure_def Let_def)
  then show "changes i (\<lambda>t. (fst (afterFailure e t))\<lparr>ta_UpdatedAt := now\<rparr>) s s'"
    using changes_touch [of "\<lambda>t. fst (afterFailure e t)" i now s] update_as_touch(2) [OF assms] by simp
  show "\<exists>t. task_Get s i = Some t \<and> snd (afterFailure e t) = requeued"
    using assms by (auto simp: MarkFailed_def split: option.splits prod.splits)
qed

lemma changes_Requeue:
  assumes "Requeue i now s = Inr s'"
  shows "changes i (\<lambda>t. t\<lparr>ta_Status := ''pending'', ta_Attempts := 0, ta_LastError := [], ta_UpdatedAt := now\<rparr>) s s'"
  using changes_touch [of "\<lambda>t. t\<lparr>ta_Status := ''pending'', ta_Attempts := 0, ta_LastError := []\<rparr>" i now s] update_as_touch(3) [OF assms] by simp

lemma changes_Cancel:
  assumes "task_Cancel i reason now s = Inr (s', True)"
  obtains g where "changes i g s s'" and "\<forall>t. ta_Status (g t) = ''cancelled'' \<and> ta_Attempts (g t) = ta_Attempts t"
    and "\<exists>t. task_Get s i = Some t \<and> ta_Status t \<noteq> ''completed''"
proof -
  let ?g = "\<lambda>t. t\<lparr>ta_Status := ''cancelled'', ta_Metadata := (if reason \<noteq> [] then (ta_Metadata t)(''cancelReason'' \<mapsto> JStr reason) else ta_Metadata t)\<rparr>"
  have "s' = fst (task_Update i ?g now s)" "\<exists>t. task_Get s i = Some t \<and> ta_Status t \<noteq> ''completed''"
    using assms by (auto simp: task_Cancel_def parkTask_def task_Update_def split: option.splits if_splits)
  moreover have "changes i (\<lambda>t. (?g t)\<lparr>ta_UpdatedAt := now\<rparr>) s (fst (task_Update i ?g now s))" by (rule changes_touch) simp
  ultimately show thesis using that by force
qed

definition startable :: "TaskStore \<Rightarrow> string \<Rightarrow> bool" where
  "startable s i \<longleftrightarrow> (\<exists>t. task_Get s i = Some t \<and> ta_Status t \<noteq> ''completed'')
     \<and> (\<forall>b \<in> blockersOf s i. \<exists>u. task_Get s b = Some u \<and> ta_Status u = ''completed'')"

lemma ready_startable:
  assumes "distinct (map fst (ts_tasks s))" and "GetReadyWork s = Some ready"
  shows "distinct (map ta_ID ready) \<and> (\<forall>t \<in> set ready. startable s (ta_ID t))"
proof (cases "schedulable s \<and> acyclic (blocking s)")
  case True
  let ?P = "\<lambda>i. ta_Status (the (task_Get s i)) = ''pending'' \<and> (\<forall>b \<in> blockersOf s i. ta_Status (the (task_Get s b)) = ''completed'')"
  let ?ids = "filter ?P (sort (map fst (ts_tasks s)))"
  have ready: "ready = map (\<lambda>i. the (task_Get s i)) ?ids" using GetReadyWork_result [OF assms(1)] assms(2) True by simp
  have key: "\<exists>t. task_Get s i = Some t \<and> ta_ID t = i \<and> (\<forall>b \<in> blockersOf s i. task_Get s b \<noteq> None)" if "i \<in> set (map fst (ts_tasks s))" for i
  proof -
    from that obtain t where "task_Get s i = Some t" by (force simp: task_Get_def dest: weak_map_of_SomeI)
    then show ?thesis using True unfolding schedulable_Get [OF assms(1)] by blast
  qed
  have "map ta_ID ready = ?ids" unfolding ready map_map by (rule map_idI) (use key in force)
  moreover have "startable s i" if "i \<in> set ?ids" for i using that key [of i] unfolding startable_def by force
  ultimately show ?thesis using assms(1) by (metis (no_types, lifting) distinct_filter distinct_sort image_eqI list.set_map)
qed (use GetReadyWork_result [OF assms(1)] assms(2) in auto)

lemma changes_none: "changes i (\<lambda>t. t) s s"
  by (simp add: changes_def map_option.id [unfolded id_def])

lemma changes_twice: "changes i g s s1 \<Longrightarrow> changes i h s1 s2 \<Longrightarrow> changes i (\<lambda>t. h (g t)) s s2"
  by (auto simp: changes_def option.map_comp comp_def)

lemma startable_change:
  assumes "changes i g s s'" and "\<And>t. task_Get s i = Some t \<Longrightarrow> ta_Status t = ''completed'' \<Longrightarrow> ta_Status (g t) = ''completed''"
    and "startable s j" and "\<And>t. j = i \<Longrightarrow> task_Get s i = Some t \<Longrightarrow> ta_Status t \<noteq> ''completed'' \<Longrightarrow> ta_Status (g t) \<noteq> ''completed''"
  shows "startable s' j"
  using assms unfolding startable_def changes_blockers [OF assms(1)] changes_def by fastforce

text \<open>What the end of an execution can do to its task and to the counters.\<close>

definition sameRun :: "run \<Rightarrow> run \<Rightarrow> bool" where
  "sameRun r r' \<longleftrightarrow> rn_batch r' = rn_batch r \<and> rn_admitted r' = rn_admitted r \<and> rn_workers r' = rn_workers r \<and> rn_log r' = rn_log r
     \<and> rn_stopped r' = rn_stopped r \<and> rn_abandoned r' = rn_abandoned r \<and> rn_cancelling r' = rn_cancelling r \<and> rn_returned r' = rn_returned r"

definition replanCap :: "TaskRunnerOptions \<Rightarrow> int" where
  "replanCap opts = (if ro_OnReplan opts then ro_MaxReplans opts else 0)"

definition spends :: "TaskRunnerOptions \<Rightarrow> string \<Rightarrow> (Task \<Rightarrow> Task) \<Rightarrow> run \<Rightarrow> run \<Rightarrow> bool" where
  "spends opts i g r r' \<longleftrightarrow> (\<forall>j. j \<noteq> i \<longrightarrow> tr_replansByTask r' j = tr_replansByTask r j) \<and> (\<forall>t. task_Get (tr_store r) i = Some t \<longrightarrow>
     tr_replansByTask r' = tr_replansByTask r \<and> ta_Attempts t \<le> ta_Attempts (g t)
       \<and> (ta_Status (g t) = ''pending'' \<longrightarrow> ta_Attempts (g t) = ta_Attempts t + 1 \<and> ta_Attempts (g t) < EffectiveMaxAttempts t)
     \<or> tr_replansByTask r' = (tr_replansByTask r)(i := tr_replansByTask r i + 1) \<and> tr_replansByTask r i < replanCap opts \<and> ta_Attempts (g t) = 0)"

lemma tryReplan_cases:
  assumes "tryReplan opts i approved now r = (r', ok)"
  obtains "r' = r" "\<not> ok"
  | s where "ok" "Requeue i now (tr_store r) = Inr s" "tr_replansByTask r i < replanCap opts"
      "r' = r\<lparr>tr_store := s, tr_replansByTask := (tr_replansByTask r)(i := tr_replansByTask r i + 1), tr_replanned := tr_replanned r + 1\<rparr>"
proof (cases "ro_OnReplan opts \<and> \<not> ro_MaxReplans opts \<le> tr_replansByTask r i \<and> approved \<and> (\<exists>s. Requeue i now (tr_store r) = Inr s)")
  case True
  then obtain s where "Requeue i now (tr_store r) = Inr s" by blast
  then show thesis using True assms that(2) [of s] by (simp add: tryReplan_def replanCap_def)
next
  case False
  then have "r' = r \<and> \<not> ok" using assms by (cases "Requeue i now (tr_store r)") (auto simp: tryReplan_def split: if_splits)
  then show thesis using that(1) by simp
qed

lemma afterFailure_status:
  "ta_Attempts (fst (afterFailure e t)) = ta_Attempts t + 1"
  "ta_Status (fst (afterFailure e t)) = ''pending'' \<Longrightarrow> snd (afterFailure e t) \<and> ta_Attempts t + 1 < EffectiveMaxAttempts t"
  by (auto simp: afterFailure_def Let_def EffectiveMaxAttempts_def split: if_splits)

lemma executeFinish_effect:
  assumes "executeFinish opts stopped i outcome approved now r = (r', event)"
  obtains g where "changes i g (tr_store r) (tr_store r')" and "spends opts i g r r'" and "sameRun r r'" and "event \<noteq> EventStarted"
    and "terminalCount r' \<le> terminalCount r + 1"
proof (cases outcome)
  case (Inr out)
  let ?g = "\<lambda>t. t\<lparr>ta_Status := ''completed'', ta_Checkpoint := (ta_Checkpoint t)(''result'' \<mapsto> JStr out), ta_Metadata := (ta_Metadata t)(''execFinishedAt'' \<mapsto> JTime now)\<rparr>"
  have "changes i (\<lambda>t. (?g t)\<lparr>ta_UpdatedAt := now\<rparr>) (tr_store r) (fst (task_Update i ?g now (tr_store r)))" by (rule changes_touch) simp
  with Inr assms that [of "\<lambda>t. (?g t)\<lparr>ta_UpdatedAt := now\<rparr>"] show thesis
    by (auto simp: executeFinish_def spends_def sameRun_def terminalCount_def)
next
  case (Inl errMsg)
  show thesis
  proof (cases stopped)
    case True
    show thesis
    proof (cases "task_Cancel i ''run stopped'' now (tr_store r)")
      case cancelled: (Inr p)
      obtain s ok where p: "p = (s, ok)" by fastforce
      show thesis
      proof (cases ok)
        case True
        then have "task_Cancel i ''run stopped'' now (tr_store r) = Inr (s, True)" using cancelled p by simp
        from changes_Cancel [OF this] obtain g where g: "changes i g (tr_store r) s" "\<forall>t. ta_Status (g t) = ''cancelled'' \<and> ta_Attempts (g t) = ta_Attempts t"
          by blast
        have r': "r' = r\<lparr>tr_store := s, tr_cancelled := tr_cancelled r + 1\<rparr>" "event = EventCancelled"
          using assms Inl \<open>stopped\<close> cancelled p True by (auto simp: executeFinish_def)
        show thesis by (rule that [of g]) (use g r' in \<open>auto simp: spends_def sameRun_def terminalCount_def\<close>)
      next
        case False
        then have r': "r' = r" "event = EventCancelled" using assms Inl \<open>stopped\<close> cancelled p by (auto simp: executeFinish_def)
        have "\<forall>t. task_Get (tr_store r) i = Some t \<longrightarrow> ta_Status t \<noteq> ''pending''"
          using cancelled p False by (auto simp: task_Cancel_def parkTask_def split: if_splits)
        then show thesis using r' by (intro that [of "\<lambda>t. t"]) (auto simp: changes_none spends_def sameRun_def)
      qed
    next
      case (Inl _)
      then have "r' = r" "event = EventCancelled" "task_Get (tr_store r) i = None"
        using assms \<open>outcome = Inl errMsg\<close> True by (auto simp: executeFinish_def task_Cancel_def parkTask_def split: option.splits if_splits)
      then show thesis by (intro that [of "\<lambda>t. t"]) (auto simp: changes_none spends_def sameRun_def)
    qed
  next
    case False
    show thesis
    proof (cases "MarkFailed i errMsg now (tr_store r)")
      case (Inl _)
      then have "r' = r\<lparr>tr_failed := tr_failed r + 1\<rparr>" "event = EventFailed" "task_Get (tr_store r) i = None"
        using assms \<open>outcome = Inl errMsg\<close> False by (auto simp: executeFinish_def MarkFailed_def split: option.splits prod.splits)
      then show thesis by (intro that [of "\<lambda>t. t"]) (auto simp: changes_none spends_def sameRun_def terminalCount_def)
    next
      case marked: (Inr p)
      obtain s requeued where p: "p = (s, requeued)" by fastforce
      let ?g = "\<lambda>t. (fst (afterFailure errMsg t))\<lparr>ta_UpdatedAt := now\<rparr>"
      note failed = changes_MarkFailed [OF marked [unfolded p]]
      show thesis
      proof (cases requeued)
        case True
        then have "r' = r\<lparr>tr_store := s\<rparr>" "event = EventRetrying" using assms Inl False marked p by (auto simp: executeFinish_def)
        then show thesis using failed(1) afterFailure_status [of errMsg]
          by (intro that [of ?g]) (auto simp: spends_def sameRun_def terminalCount_def)
      next
        case parked: False
        obtain r1 ok where replan: "tryReplan opts i approved now (r\<lparr>tr_store := s\<rparr>) = (r1, ok)" by fastforce
        have result: "r' = (if ok then r1 else r1\<lparr>tr_failed := tr_failed r1 + 1\<rparr>)" "event = (if ok then EventReplanned else EventFailed)"
          using assms Inl False marked p parked replan by (auto simp: executeFinish_def split: bool.splits)
        from replan show thesis
        proof (cases rule: tryReplan_cases)
          case 1
          have "ta_Status (?g t) \<noteq> ''pending''" if "task_Get (tr_store r) i = Some t" for t
            using failed(2) parked that afterFailure_status(2) [of errMsg t] by auto
          then show thesis using 1 result failed(1) afterFailure_status(1) [of errMsg]
            by (intro that [of ?g]) (auto simp: spends_def sameRun_def terminalCount_def)
        next
          case (2 s2)
          note twice = changes_twice [OF failed(1) changes_Requeue [of i now s s2]]
          show thesis using 2 result twice by (intro that) (auto simp: spends_def sameRun_def terminalCount_def)
        qed
      qed
    qed
  qed
qed

lemma cancelOne_effect:
  obtains g where "changes i g (tr_store r) (tr_store (cancelOne i now r))" and "sameRun r (cancelOne i now r)"
    and "\<forall>t. task_Get (tr_store r) i = Some t \<longrightarrow> ta_Attempts (g t) = ta_Attempts t \<and> (ta_Status (g t) = ta_Status t
        \<or> ta_Status t \<noteq> ''completed'' \<and> ta_Status (g t) = ''cancelled'')"
    and "tr_replansByTask (cancelOne i now r) = tr_replansByTask r"
proof (cases "\<exists>t s. task_Get (tr_store r) i = Some t \<and> inFlight (ta_Status t) \<and> task_Cancel i ''cancelled'' now (tr_store r) = Inr (s, True)")
  case True
  then obtain t s where cancel: "task_Get (tr_store r) i = Some t" "inFlight (ta_Status t)" "task_Cancel i ''cancelled'' now (tr_store r) = Inr (s, True)" by blast
  from changes_Cancel [OF cancel(3)] obtain g where "changes i g (tr_store r) s" "\<forall>t. ta_Status (g t) = ''cancelled'' \<and> ta_Attempts (g t) = ta_Attempts t" by blast
  then show thesis using cancel by (intro that [of g]) (auto simp: cancelOne_def sameRun_def inFlight_def)
next
  case False
  then have "cancelOne i now r = r" by (auto simp: cancelOne_def split: option.splits sum.splits bool.splits)
  then show thesis by (intro that [of "\<lambda>t. t"]) (auto simp: changes_none sameRun_def)
qed

section \<open>Dependencies\<close>

definition engaged :: "run \<Rightarrow> string set" where
  "engaged r = set (rn_batch r) \<union> dom (rn_workers r)"

text \<open>Whatever is queued, launched or executing may start: it is not completed and its blockers are.\<close>

definition sane :: "TaskRunnerOptions \<Rightarrow> TaskStore \<Rightarrow> run \<Rightarrow> bool" where
  "sane opts store r \<longleftrightarrow> distinct (map fst (ts_tasks (tr_store r)))
     \<and> (\<forall>i. map_option ta_MaxAttempts (task_Get (tr_store r) i) = map_option ta_MaxAttempts (task_Get store i))
     \<and> blockersOf (tr_store r) = blockersOf store
     \<and> distinct (rn_batch r) \<and> set (rn_batch r) \<inter> dom (rn_workers r) = {} \<and> finite (dom (rn_workers r))
     \<and> int (card (dom (rn_workers r))) \<le> ro_Concurrency opts
     \<and> (\<forall>i \<in> engaged r. startable (tr_store r) i)
     \<and> (rn_abandoned r \<or> rn_cancelling r \<noteq> None \<longrightarrow> rn_stopped r)"

lemma sane_fresh: "distinct (map fst (ts_tasks store)) \<Longrightarrow> 0 \<le> ro_Concurrency opts \<Longrightarrow> sane opts store (freshRun store)"
  by (simp add: sane_def freshRun_def newRunner_def TaskRunner.extend_def engaged_def)

text \<open>The part of \<open>sane\<close> about the store, when one task changes.\<close>

lemma sane_change:
  assumes "sane opts store r" and "changes i g (tr_store r) (tr_store r')"
    and "\<And>t. task_Get (tr_store r) i = Some t \<Longrightarrow> ta_Status t = ''completed'' \<Longrightarrow> ta_Status (g t) = ''completed''"
    and "engaged r' \<subseteq> engaged r"
    and "\<And>t. i \<in> engaged r' \<Longrightarrow> task_Get (tr_store r) i = Some t \<Longrightarrow> ta_Status t \<noteq> ''completed'' \<Longrightarrow> ta_Status (g t) \<noteq> ''completed''"
    and "distinct (rn_batch r')" "set (rn_batch r') \<inter> dom (rn_workers r') = {}" "finite (dom (rn_workers r'))"
    and "int (card (dom (rn_workers r'))) \<le> ro_Concurrency opts" "rn_abandoned r' \<or> rn_cancelling r' \<noteq> None \<longrightarrow> rn_stopped r'"
  shows "sane opts store r'"
proof -
  have "startable (tr_store r') j" if "j \<in> engaged r'" for j
    using startable_change [OF assms(2,3), of j] assms(1,4,5) that unfolding sane_def by blast
  moreover have "map_option ta_MaxAttempts (task_Get (tr_store r') j) = map_option ta_MaxAttempts (task_Get (tr_store r) j)" for j
    using assms(2) by (auto simp: changes_def option.map_comp comp_def)
  ultimately show ?thesis using assms changes_blockers [OF assms(2)] by (simp add: sane_def changes_def)
qed

lemma sane_finish_completed:
  assumes "sane opts store r" and "i \<in> engaged r" and "task_Get (tr_store r) i = Some t"
  shows "ta_Status t \<noteq> ''completed''"
  using assms by (auto simp: sane_def startable_def)

lemma engaged_unique: "sane opts store r \<Longrightarrow> rn_batch r = i # is \<Longrightarrow> rn_workers r i = None \<and> i \<notin> set is"
  by (auto simp: sane_def)

lemma card_dom_Suc: "finite (dom m) \<Longrightarrow> m i = None \<Longrightarrow> card (dom (m(i \<mapsto> x))) = Suc (card (dom m))"
  by (simp add: domIff)

lemma card_dom_remove: "finite (dom m) \<Longrightarrow> int (card (dom (m(i := None)))) \<le> int (card (dom m))"
  by (simp add: card_mono)

lemma sane_own:
  assumes "sane opts store r" and "runner_step opts r r'"
  shows "sane opts store r'"
  using assms(2)
proof cases
  case (poll_due ready now due)
  have keys: "distinct (map fst (ts_tasks (tr_store r)))" using assms(1) by (simp add: sane_def)
  note ready = ready_startable [OF keys poll_due(4)]
  have "distinct (map ta_ID due)" "\<forall>t \<in> set due. startable (tr_store r) (ta_ID t)"
    using ready poll_due(5) by (auto simp: dueTasks_def distinct_map_filter)
  then show ?thesis using assms(1) poll_due(1,2) by (auto simp: sane_def engaged_def polling_def)
next
  case (cancel_next i "is" now)
  obtain g where g: "changes i g (tr_store r) (tr_store (cancelOne i now r))" "sameRun r (cancelOne i now r)"
    "\<forall>t. task_Get (tr_store r) i = Some t \<longrightarrow> ta_Attempts (g t) = ta_Attempts t \<and> (ta_Status (g t) = ta_Status t \<or> ta_Status t \<noteq> ''completed'' \<and> ta_Status (g t) = ''cancelled'')"
    by (rule cancelOne_effect)
  show ?thesis
    by (rule sane_change [OF assms(1), of i g])
      (use g assms(1) cancel_next in \<open>auto simp: sane_def sameRun_def engaged_def\<close>)
next
  case (launches i "is")
  have "rn_workers r i = None" using engaged_unique [OF assms(1) launches(2)] by simp
  then have "int (card (dom ((rn_workers r)(i \<mapsto> Queued)))) \<le> ro_Concurrency opts"
    using launches(4) assms(1) card_dom_Suc [of "rn_workers r" i Queued] by (simp add: sane_def)
  then show ?thesis using assms(1) launches(1,2) by (auto simp: sane_def engaged_def)
next
  case (check_skips i)
  have "int (card (dom ((rn_workers r)(i := None)))) \<le> ro_Concurrency opts"
    using assms(1) card_dom_remove [of "rn_workers r" i] by (simp add: sane_def)
  then show ?thesis using assms(1) check_skips(1) by (auto simp: sane_def engaged_def)
next
  case (check_passes i)
  then have "dom ((rn_workers r)(i \<mapsto> Checked)) = dom (rn_workers r)" by auto
  then show ?thesis using assms(1) check_passes(1) by (simp add: sane_def engaged_def)
next
  case (begins i now)
  let ?g = "\<lambda>t. t\<lparr>ta_Status := ''in_progress'', ta_Owner := (if ta_Owner t = [] then ''task-runner'' else ta_Owner t), ta_Metadata := (ta_Metadata t)(''execStartedAt'' \<mapsto> JTime now)\<rparr>"
  have i: "i \<in> engaged r" using begins by (auto simp: engaged_def)
  have dom: "dom ((rn_workers r)(i \<mapsto> Executing)) = dom (rn_workers r)" using begins by auto
  have "changes i (\<lambda>t. (?g t)\<lparr>ta_UpdatedAt := now\<rparr>) (tr_store r) (tr_store r')"
    unfolding begins(1) using changes_touch [of ?g i now "tr_store r"] by (simp add: executeBegin_def)
  then show ?thesis
    by (rule sane_change [OF assms(1)])
      (use sane_finish_completed [OF assms(1) i] assms(1) begins(1) dom in \<open>auto simp: sane_def engaged_def executeBegin_def\<close>)
next
  case (finishes i outcome approved now r1 event)
  obtain g where g: "changes i g (tr_store r) (tr_store r1)" "sameRun r r1" by (rule executeFinish_effect [OF finishes(3)])
  have i: "i \<in> engaged r" using finishes by (auto simp: engaged_def)
  have free: "i \<notin> engaged r'" using assms(1) finishes g(2) by (auto simp: engaged_def sane_def sameRun_def)
  have "int (card (dom ((rn_workers r)(i := None)))) \<le> ro_Concurrency opts"
    using assms(1) card_dom_remove [of "rn_workers r" i] by (simp add: sane_def)
  then show ?thesis
    by (intro sane_change [OF assms(1), of i g])
      (use sane_finish_completed [OF assms(1) i] free assms(1) finishes g in \<open>auto simp: sane_def sameRun_def engaged_def\<close>)
qed (use assms(1) in \<open>auto simp: sane_def engaged_def\<close>)

lemma changes_harmless:
  assumes "harmless f"
  shows "changes i (\<lambda>t. (f t)\<lparr>ta_UpdatedAt := now\<rparr>) s (fst (task_Update i f now s))"
  using assms by (intro changes_touch) (auto simp: harmless_def)

lemma harmlessD:
  assumes "harmless f"
  shows "ta_Attempts (f t) = ta_Attempts t" "ta_MaxAttempts (f t) = ta_MaxAttempts t"
    and "ta_Status (f t) = ''completed'' \<longleftrightarrow> ta_Status t = ''completed''" and "ta_Status (f t) = ''pending'' \<Longrightarrow> ta_Status t = ''pending''"
  using assms unfolding harmless_def by (blast, blast, metis insertI1 insertI2, metis insertI1)

lemma sane_other:
  assumes "sane opts store r" and "env_step r r'"
  shows "sane opts store r'"
  using assms(2)
proof cases
  case (touches f i now)
  show ?thesis
    by (rule sane_change [OF assms(1), of i "\<lambda>t. (f t)\<lparr>ta_UpdatedAt := now\<rparr>"])
      (use assms(1) touches(1) changes_harmless [OF touches(2)] harmlessD(3) [OF touches(2)] in \<open>auto simp: sane_def engaged_def\<close>)
qed (use assms(1) in \<open>simp add: sane_def engaged_def\<close>)

lemma reaches_sane:
  assumes "run_reaches opts store r" and "distinct (map fst (ts_tasks store))" and "0 \<le> ro_Concurrency opts"
  shows "sane opts store r"
  using assms(1) by induction (auto intro: sane_fresh [OF assms(2,3)] sane_own sane_other)

lemma runner_log:
  assumes "runner_step opts r r'" and "rn_log r' = rn_log r @ [(i, EventStarted)]"
  shows "rn_workers r i = Some Checked"
  using assms
proof cases
  case (cancel_next j "is" now)
  have "rn_log (cancelOne j now r) = rn_log r" by (rule cancelOne_effect [of j r now]) (simp add: sameRun_def)
  then show ?thesis using assms(2) cancel_next by simp
next
  case (finishes j outcome approved now r1 event)
  then show ?thesis using assms(2) executeFinish_effect [OF finishes(3)] by auto
qed (use assms(2) in auto)


section \<open>The budget of a task\<close>

definition started :: "run \<Rightarrow> string \<Rightarrow> int" where
  "started r i = int (length (filter (\<lambda>e. e = (i, EventStarted)) (rn_log r)))"

text \<open>
  \<open>R\<close> replans of a task with budget \<open>M\<close>: before an execution there is room for it, given what the attempts since the last
  replan have used.
\<close>

definition room :: "int \<Rightarrow> int \<Rightarrow> int \<Rightarrow> int \<Rightarrow> bool" where
  "room S R M A \<longleftrightarrow> S \<le> R * M \<or> S \<le> R * M + A \<and> A < M"

definition budget :: "TaskRunnerOptions \<Rightarrow> run \<Rightarrow> bool" where
  "budget opts r \<longleftrightarrow> (\<forall>i t. task_Get (tr_store r) i = Some t \<longrightarrow>
     (let S = started r i; R = tr_replansByTask r i; M = EffectiveMaxAttempts t; A = ta_Attempts t in
       0 \<le> A \<and> R \<le> replanCap opts \<and> S \<le> (R + 1) * M
       \<and> (rn_workers r i = Some Checked \<or> ta_Status t = ''pending'' \<and> rn_workers r i \<noteq> Some Executing \<longrightarrow> room S R M A)
       \<and> (rn_workers r i = Some Executing \<longrightarrow> room (S - 1) R M A)))"

lemma Effective_positive: "0 < EffectiveMaxAttempts t"
  by (simp add: EffectiveMaxAttempts_def DefaultMaxAttempts_def)

lemma Effective_cong: "ta_MaxAttempts t = ta_MaxAttempts u \<Longrightarrow> EffectiveMaxAttempts t = EffectiveMaxAttempts u"
  by (simp add: EffectiveMaxAttempts_def)

lemma room_total:
  assumes "room S R M A" and "0 < M"
  shows "S + 1 \<le> (R + 1) * M"
  using assms by (auto simp: room_def distrib_right)

lemma room_total_weak: "room (S - 1) R M A \<Longrightarrow> 0 < M \<Longrightarrow> S \<le> (R + 1) * M"
  using room_total [of "S - 1" R M A] by simp

lemma room_mono: "room S R M A \<Longrightarrow> S' \<le> S \<Longrightarrow> room S' R M A"
  by (auto simp: room_def)

lemma room_failed: "room (S - 1) R M A \<Longrightarrow> 0 \<le> A \<Longrightarrow> A + 1 < M \<Longrightarrow> room S R M (A + 1)"
  by (auto simp: room_def)

lemma room_replanned: "S \<le> (R + 1) * M \<Longrightarrow> room S (R + 1) M 0"
  by (simp add: room_def)

lemma Get_changes: "changes i g s s' \<Longrightarrow> task_Get s' j = Some t' \<Longrightarrow> \<exists>t. task_Get s j = Some t \<and> t' = (if j = i then g t else t)"
  by (auto simp: changes_def split: if_splits)

lemma Effective_changes: "changes i g s s' \<Longrightarrow> EffectiveMaxAttempts (g t) = EffectiveMaxAttempts t"
  by (auto simp: changes_def intro: Effective_cong)

text \<open>A change of one task that spends nothing.\<close>

lemma budget_change:
  assumes "budget opts r" and change: "changes i g (tr_store r) (tr_store r')" and "tr_replansByTask r' = tr_replansByTask r"
    and "rn_log r' = rn_log r" and "rn_workers r' = rn_workers r"
    and same: "\<And>t. task_Get (tr_store r) i = Some t \<Longrightarrow> ta_Attempts (g t) = ta_Attempts t \<and> (ta_Status (g t) = ''pending'' \<longrightarrow> ta_Status t = ''pending'')"
  shows "budget opts r'"
  unfolding budget_def
proof (intro allI impI)
  fix j t'
  assume "task_Get (tr_store r') j = Some t'"
  then obtain t where t: "task_Get (tr_store r) j = Some t" and t': "t' = (if j = i then g t else t)" using Get_changes [OF change] by blast
  have "EffectiveMaxAttempts t' = EffectiveMaxAttempts t" "ta_Attempts t' = ta_Attempts t" "ta_Status t' = ''pending'' \<Longrightarrow> ta_Status t = ''pending''"
    using t t' same Effective_changes [OF change] by (auto split: if_splits)
  then show "let S = started r' j; R = tr_replansByTask r' j; M = EffectiveMaxAttempts t'; A = ta_Attempts t' in
      0 \<le> A \<and> R \<le> replanCap opts \<and> S \<le> (R + 1) * M
      \<and> (rn_workers r' j = Some Checked \<or> ta_Status t' = ''pending'' \<and> rn_workers r' j \<noteq> Some Executing \<longrightarrow> room S R M A)
      \<and> (rn_workers r' j = Some Executing \<longrightarrow> room (S - 1) R M A)"
    using assms(1) t unfolding budget_def started_def assms(3-5) Let_def by metis
qed

lemma budget_begins:
  assumes "budget opts r" and "rn_workers r i = Some Checked"
  shows "budget opts ((executeBegin i now r)\<lparr>rn_workers := (rn_workers r)(i \<mapsto> Executing), rn_log := rn_log r @ [(i, EventStarted)]\<rparr>)"
    (is "budget opts ?r'")
  unfolding budget_def
proof (intro allI impI)
  fix j t'
  assume "task_Get (tr_store ?r') j = Some t'"
  then obtain t where t: "task_Get (tr_store r) j = Some t" and t': "EffectiveMaxAttempts t' = EffectiveMaxAttempts t" "ta_Attempts t' = ta_Attempts t"
    "j \<noteq> i \<longrightarrow> ta_Status t' = ta_Status t"
    by (auto simp: executeBegin_def Get_touch EffectiveMaxAttempts_def split: if_splits)
  have S: "started ?r' j = started r j + (if j = i then 1 else 0)" for j by (simp add: started_def)
  have R: "tr_replansByTask ?r' = tr_replansByTask r" by (simp add: executeBegin_def)
  have old: "let S = started r j; R = tr_replansByTask r j; M = EffectiveMaxAttempts t; A = ta_Attempts t in
      0 \<le> A \<and> R \<le> replanCap opts \<and> S \<le> (R + 1) * M
      \<and> (rn_workers r j = Some Checked \<or> ta_Status t = ''pending'' \<and> rn_workers r j \<noteq> Some Executing \<longrightarrow> room S R M A)
      \<and> (rn_workers r j = Some Executing \<longrightarrow> room (S - 1) R M A)" using assms(1) t by (simp add: budget_def)
  show "let S = started ?r' j; R = tr_replansByTask ?r' j; M = EffectiveMaxAttempts t'; A = ta_Attempts t' in
      0 \<le> A \<and> R \<le> replanCap opts \<and> S \<le> (R + 1) * M
      \<and> (rn_workers ?r' j = Some Checked \<or> ta_Status t' = ''pending'' \<and> rn_workers ?r' j \<noteq> Some Executing \<longrightarrow> room S R M A)
      \<and> (rn_workers ?r' j = Some Executing \<longrightarrow> room (S - 1) R M A)"
  proof (cases "j = i")
    case True
    then have "room (started r i) (tr_replansByTask r i) (EffectiveMaxAttempts t) (ta_Attempts t)" using old assms(2) by (simp add: Let_def)
    then show ?thesis using old room_total [OF _ Effective_positive] True by (simp add: Let_def S R t')
  next
    case False
    then show ?thesis using old t' by (simp add: Let_def S R)
  qed
qed

lemma budget_finishes:
  assumes "budget opts r" and "rn_workers r i = Some Executing" and change: "changes i g (tr_store r) (tr_store r1)"
    and spends: "spends opts i g r r1" and "sameRun r r1" and "event \<noteq> EventStarted"
  shows "budget opts (r1\<lparr>rn_workers := (rn_workers r)(i := None), rn_log := rn_log r @ [(i, event)]\<rparr>)" (is "budget opts ?r'")
  unfolding budget_def
proof (intro allI impI)
  fix j t'
  assume "task_Get (tr_store ?r') j = Some t'"
  then have "task_Get (tr_store r1) j = Some t'" by simp
  then obtain t where t: "task_Get (tr_store r) j = Some t" and t': "t' = (if j = i then g t else t)" using Get_changes [OF change] by blast
  let ?S = "started r j" and ?R = "tr_replansByTask r j" and ?M = "EffectiveMaxAttempts t" and ?A = "ta_Attempts t"
  have S: "started ?r' j = started r j" for j using assms(6) by (simp add: started_def)
  have M: "EffectiveMaxAttempts (g t) = EffectiveMaxAttempts t" for t using Effective_changes [OF change] .
  have old: "0 \<le> ?A \<and> ?R \<le> replanCap opts \<and> ?S \<le> (?R + 1) * ?M
      \<and> (rn_workers r j = Some Checked \<or> ta_Status t = ''pending'' \<and> rn_workers r j \<noteq> Some Executing \<longrightarrow> room ?S ?R ?M ?A)
      \<and> (rn_workers r j = Some Executing \<longrightarrow> room (?S - 1) ?R ?M ?A)" using assms(1) t by (simp add: budget_def Let_def)
  show "let S = started ?r' j; R = tr_replansByTask ?r' j; M = EffectiveMaxAttempts t'; A = ta_Attempts t' in
      0 \<le> A \<and> R \<le> replanCap opts \<and> S \<le> (R + 1) * M
      \<and> (rn_workers ?r' j = Some Checked \<or> ta_Status t' = ''pending'' \<and> rn_workers ?r' j \<noteq> Some Executing \<longrightarrow> room S R M A)
      \<and> (rn_workers ?r' j = Some Executing \<longrightarrow> room (S - 1) R M A)"
  proof (cases "j = i")
    case True
    then have got: "task_Get (tr_store r) i = Some t" and room: "room (?S - 1) ?R ?M ?A" using t old assms(2) by simp_all
    from spends got have "tr_replansByTask r1 = tr_replansByTask r \<and> ?A \<le> ta_Attempts (g t)
         \<and> (ta_Status (g t) = ''pending'' \<longrightarrow> ta_Attempts (g t) = ?A + 1 \<and> ta_Attempts (g t) < ?M)
       \<or> tr_replansByTask r1 = (tr_replansByTask r)(i := ?R + 1) \<and> ?R < replanCap opts \<and> ta_Attempts (g t) = 0"
      using True by (simp add: spends_def)
    then show ?thesis
    proof
      assume kept: "tr_replansByTask r1 = tr_replansByTask r \<and> ?A \<le> ta_Attempts (g t)
         \<and> (ta_Status (g t) = ''pending'' \<longrightarrow> ta_Attempts (g t) = ?A + 1 \<and> ta_Attempts (g t) < ?M)"
      then have "room ?S ?R ?M (ta_Attempts (g t))" if "ta_Status (g t) = ''pending''" using that room_failed [OF room] old by simp
      then show ?thesis using kept old True by (auto simp: Let_def S M t')
    next
      assume "tr_replansByTask r1 = (tr_replansByTask r)(i := ?R + 1) \<and> ?R < replanCap opts \<and> ta_Attempts (g t) = 0"
      moreover have "room ?S (?R + 1) ?M 0" "?S \<le> (?R + 1 + 1) * ?M" using old room_replanned Effective_positive [of t] by (auto simp: distrib_right)
      ultimately show ?thesis using True by (auto simp: Let_def S M t')
    qed
  next
    case False
    have "tr_replansByTask r1 j = ?R" using spends False by (simp add: spends_def)
    then show ?thesis using old False t' by (simp add: Let_def S)
  qed
qed

lemma budget_own:
  assumes "budget opts r" and "sane opts store r" and "runner_step opts r r'"
  shows "budget opts r'"
  using assms(3)
proof cases
  case (cancel_next i "is" now)
  obtain g where g: "changes i g (tr_store r) (tr_store (cancelOne i now r))" "sameRun r (cancelOne i now r)"
    "\<forall>t. task_Get (tr_store r) i = Some t \<longrightarrow> ta_Attempts (g t) = ta_Attempts t \<and> (ta_Status (g t) = ta_Status t \<or> ta_Status t \<noteq> ''completed'' \<and> ta_Status (g t) = ''cancelled'')"
    "tr_replansByTask (cancelOne i now r) = tr_replansByTask r"
    by (rule cancelOne_effect)
  show ?thesis
    by (rule budget_change [OF assms(1), of i g]) (use g cancel_next in \<open>auto simp: sameRun_def\<close>)
next
  case (launches i "is")
  then have free: "rn_workers r i = None" using engaged_unique [OF assms(2) launches(2)] by simp
  show ?thesis unfolding budget_def
  proof (intro allI impI)
    fix j t assume "task_Get (tr_store r') j = Some t"
    then have "task_Get (tr_store r) j = Some t" using launches(1) by simp
    with assms(1) have old: "let S = started r j; R = tr_replansByTask r j; M = EffectiveMaxAttempts t; A = ta_Attempts t in
        0 \<le> A \<and> R \<le> replanCap opts \<and> S \<le> (R + 1) * M
        \<and> (rn_workers r j = Some Checked \<or> ta_Status t = ''pending'' \<and> rn_workers r j \<noteq> Some Executing \<longrightarrow> room S R M A)
        \<and> (rn_workers r j = Some Executing \<longrightarrow> room (S - 1) R M A)" by (simp add: budget_def)
    then show "let S = started r' j; R = tr_replansByTask r' j; M = EffectiveMaxAttempts t; A = ta_Attempts t in
        0 \<le> A \<and> R \<le> replanCap opts \<and> S \<le> (R + 1) * M
        \<and> (rn_workers r' j = Some Checked \<or> ta_Status t = ''pending'' \<and> rn_workers r' j \<noteq> Some Executing \<longrightarrow> room S R M A)
        \<and> (rn_workers r' j = Some Executing \<longrightarrow> room (S - 1) R M A)"
      using launches(1) free by (auto simp: Let_def started_def)
  qed
next
  case (check_skips i)
  then show ?thesis using assms(1) by (auto simp: budget_def Let_def started_def)
next
  case (check_passes i)
  then have "\<forall>t. task_Get (tr_store r) i = Some t \<longrightarrow> ta_Status t = ''pending''" by (auto simp: executeCheck_def)
  then show ?thesis using assms(1) check_passes by (auto simp: budget_def Let_def started_def)
next
  case (begins i now)
  then show ?thesis using budget_begins [OF assms(1)] by simp
next
  case (finishes i outcome approved now r1 event)
  show ?thesis
    by (rule executeFinish_effect [OF finishes(3)]) (use budget_finishes [OF assms(1) finishes(2)] finishes(1) in blast)
qed (use assms(1) in \<open>auto simp: budget_def started_def\<close>)

lemma budget_other:
  assumes "budget opts r" and "env_step r r'"
  shows "budget opts r'"
  using assms(2)
proof cases
  case (touches f i now)
  show ?thesis
    by (rule budget_change [OF assms(1), of i "\<lambda>t. (f t)\<lparr>ta_UpdatedAt := now\<rparr>"])
      (use touches(1) changes_harmless [OF touches(2)] harmlessD [OF touches(2)] in auto)
qed (use assms(1) in \<open>simp add: budget_def started_def\<close>)

definition fresh_tasks :: "TaskStore \<Rightarrow> bool" where
  "fresh_tasks store \<longleftrightarrow> distinct (map fst (ts_tasks store)) \<and> (\<forall>(_, t) \<in> set (ts_tasks store). 0 \<le> ta_Attempts t)"

lemma budget_fresh:
  assumes "fresh_tasks store" and "0 \<le> ro_MaxReplans opts"
  shows "budget opts (freshRun store)"
proof -
  have "0 \<le> ta_Attempts t" if "task_Get store i = Some t" for i t
    using that assms(1) by (auto simp: fresh_tasks_def task_Get_def dest: map_of_SomeD)
  then show ?thesis using assms(2) Effective_positive
    by (auto simp: budget_def freshRun_def newRunner_def TaskRunner.extend_def started_def room_def replanCap_def Let_def intro: less_imp_le)
qed

lemma reaches_budget:
  assumes "run_reaches opts store r" and "fresh_tasks store" and "0 \<le> ro_MaxReplans opts" and "0 \<le> ro_Concurrency opts"
  shows "budget opts r"
  using assms(1)
proof induction
  case (run_own r r')
  then show ?case using budget_own reaches_sane [OF run_own.hyps(1)] assms(2,4) by (auto simp: fresh_tasks_def)
qed (use budget_fresh [OF assms(2,3)] budget_other in blast)+


section \<open>The cap\<close>

definition active :: "run \<Rightarrow> string set" where
  "active r = {i. rn_workers r i = Some Checked \<or> rn_workers r i = Some Executing}"

definition capped :: "TaskRunnerOptions \<Rightarrow> run \<Rightarrow> bool" where
  "capped opts r \<longleftrightarrow> rn_stopped r \<or> terminalCount r + int (card (active r)) \<le> ro_MaxTotalTasks opts - 1 + ro_Concurrency opts"

lemma active_dom: "active r \<subseteq> dom (rn_workers r)"
  by (auto simp: active_def)

lemma capped_own:
  assumes "capped opts r" and "sane opts store r" and "runner_step opts r r'"
  shows "capped opts r'"
  using assms(3)
proof cases
  case (cancel_next i "is" now)
  then have "rn_stopped r" using assms(2) by (simp add: sane_def)
  moreover have "rn_stopped (cancelOne i now r) = rn_stopped r" by (rule cancelOne_effect [of i r now]) (simp add: sameRun_def)
  ultimately show ?thesis using cancel_next by (simp add: capped_def)
next
  case (launches i "is")
  then have "active r' = active r" using engaged_unique [OF assms(2) launches(2)] by (auto simp: active_def)
  then show ?thesis using assms(1) launches(1) by (simp add: capped_def terminalCount_def)
next
  case (check_skips i)
  then have "active r' = active r" by (auto simp: active_def)
  then show ?thesis using assms(1) check_skips(1) by (simp add: capped_def terminalCount_def)
next
  case (check_passes i)
  have "card (active r') \<le> card (dom (rn_workers r'))"
    by (rule card_mono [OF _ active_dom]) (use assms(2) check_passes(1) in \<open>simp add: sane_def\<close>)
  moreover have "dom (rn_workers r') = dom (rn_workers r)" using check_passes by auto
  ultimately have "int (card (active r')) \<le> ro_Concurrency opts" using assms(2) by (simp add: sane_def)
  then show ?thesis using check_passes(1,3) by (simp add: capped_def terminalCount_def executeCheck_def)
next
  case (begins i now)
  then have "active r' = active r" by (auto simp: active_def)
  then show ?thesis using assms(1) begins(1) by (simp add: capped_def terminalCount_def executeBegin_def)
next
  case (finishes i outcome approved now r1 event)
  obtain g where g: "sameRun r r1" "terminalCount r1 \<le> terminalCount r + 1" by (rule executeFinish_effect [OF finishes(3)])
  have "active r' = active r - {i}" "i \<in> active r" using finishes by (auto simp: active_def)
  moreover have "finite (active r)" using finite_subset [OF active_dom [of r]] assms(2) by (simp add: sane_def)
  ultimately have "card (active r) = Suc (card (active r'))" by (metis card.remove)
  moreover have "terminalCount r' = terminalCount r1" "rn_stopped r' = rn_stopped r" using finishes(1) g(1) by (simp_all add: terminalCount_def sameRun_def)
  ultimately show ?thesis using assms(1) g(2) unfolding capped_def by linarith
qed (use assms(1) in \<open>simp_all add: capped_def terminalCount_def active_def\<close>)

lemma capped_other: "capped opts r \<Longrightarrow> env_step r r' \<Longrightarrow> capped opts r'"
  by (erule env_step.cases) (simp_all add: capped_def terminalCount_def active_def)

text \<open>
  C40. \<^bold>\<open>The cap on finished tasks.\<close> Until it is stopped, a run counts at most the cap of completed, failed, skipped and cancelled
  tasks, plus one less than the goroutines that run at a time.
\<close>

theorem watchdog_bound:
  assumes "run_reaches opts store r" and "distinct (map fst (ts_tasks store))" and "1 \<le> ro_MaxTotalTasks opts" and "1 \<le> ro_Concurrency opts"
    and "\<not> rn_stopped r"
  shows "terminalCount r \<le> ro_MaxTotalTasks opts + ro_Concurrency opts - 1"
proof -
  have "capped opts r" using assms(1)
  proof induction
    case run_begin
    then show ?case using assms(3,4) by (simp add: capped_def freshRun_def newRunner_def TaskRunner.extend_def terminalCount_def active_def)
  next
    case (run_own r r')
    then show ?case using capped_own reaches_sane [OF run_own.hyps(1) assms(2)] assms(4) by auto
  qed (rule capped_other)
  then show ?thesis using assms(5) by (auto simp: capped_def)
qed

section \<open>Progress\<close>

lemma due_eventually:
  assumes "ready \<noteq> []"
  obtains now where "dueTasks opts ready now \<noteq> []"
proof -
  let ?t = "hd ready"
  let ?now = "ta_UpdatedAt ?t + (case ro_Backoff opts of None \<Rightarrow> 0 | Some b \<Rightarrow> b (metaInt (ta_Metadata ?t) ''retryBackoffTick''))"
  have "?t \<in> set (dueTasks opts ready ?now)" using assms by (simp add: dueTasks_def Let_def)
  then show thesis using that by force
qed

lemma worker_moves:
  assumes "rn_workers r i = Some p"
  shows "\<exists>r'. runner_step opts r r'"
proof (cases p)
  case Queued
  then show ?thesis using assms runner_step.check_skips [of r i opts] runner_step.check_passes [of r i opts] by blast
next
  case Checked
  then show ?thesis using assms runner_step.begins [of r i opts] by blast
next
  case Executing
  obtain r1 event where "executeFinish opts (rn_stopped r) i (Inr []) False 0 r = (r1, event)" by fastforce
  then show ?thesis using assms Executing runner_step.finishes [of r i opts "Inr []"] by blast
qed

text \<open>
  C25. \<^bold>\<open>When a run hangs.\<close> A run that has not returned can always go on, given time, unless no task is ready and a task that
  none of its goroutines executes is marked as in progress or under review; then it polls until it is stopped.
\<close>

theorem run_goes_on:
  assumes "run_reaches opts store r" and "distinct (map fst (ts_tasks store))" and "1 \<le> ro_Concurrency opts" and "\<not> rn_returned r"
  shows "(\<exists>r'. runner_step opts r r')
    \<or> \<not> rn_stopped r \<and> rn_workers r = (\<lambda>_. None) \<and> GetReadyWork (tr_store r) = Some [] \<and> (\<exists>(_, t) \<in> set (ts_tasks (tr_store r)). inFlight (ta_Status t))"
proof (cases "rn_cancelling r = None \<and> rn_workers r = (\<lambda>_. None) \<and> rn_batch r = []")
  case False
  then consider i "is" where "rn_cancelling r = Some (i # is)" | "rn_cancelling r = Some []" | i p where "rn_workers r i = Some p"
    | i "is" where "rn_workers r = (\<lambda>_. None)" "rn_batch r = i # is"
    by (metis not_None_eq neq_Nil_conv)
  then show ?thesis
  proof cases
    case 1
    then show ?thesis using runner_step.cancel_next by blast
  next
    case 2
    then show ?thesis using runner_step.cancel_done assms(4) by blast
  next
    case 3
    then show ?thesis using worker_moves by blast
  next
    case (4 i "is")
    then have "int (card (dom (rn_workers r))) < ro_Concurrency opts" using assms(3) by simp
    moreover have "rn_batch r \<noteq> []" using 4 by simp
    ultimately show ?thesis using 4(2) runner_step.launches [of r i "is" opts] runner_step.admits [of r opts] runner_step.batch_capped [of r opts] by blast
  qed
next
  case True
  have sane: "sane opts store r" using reaches_sane [OF assms(1,2)] assms(3) by simp
  show ?thesis
  proof (cases "rn_stopped r")
    case True
    have "runner_step opts r (r\<lparr>rn_cancelling := Some (map fst (ts_tasks (tr_store r)))\<rparr>)"
      by (rule runner_step.poll_stopped) (use True assms(4) \<open>rn_cancelling r = None \<and> _\<close> in simp_all)
    then show ?thesis by blast
  next
    case running: False
    then have polling: "polling r" using True sane assms(4) by (simp add: polling_def sane_def)
    obtain ready where ready: "GetReadyWork (tr_store r) = Some ready" using GetReadyWork_result sane by (simp add: sane_def)
    consider "ro_MaxTotalTasks opts \<le> terminalCount r" | "\<not> ro_MaxTotalTasks opts \<le> terminalCount r" "ready \<noteq> []"
      | "\<not> ro_MaxTotalTasks opts \<le> terminalCount r" "ready = []" by blast
    then show ?thesis
    proof cases
      case 1
      then show ?thesis using runner_step.poll_capped [OF polling] by blast
    next
      case 2
      then show ?thesis using due_eventually [OF 2(2)] runner_step.poll_due [OF polling 2(1) ready] by metis
    next
      case 3
      then have "quiescent (tr_store r) = Some (\<forall>(_, t) \<in> set (ts_tasks (tr_store r)). \<not> inFlight (ta_Status t))" using ready by (simp add: quiescent_def)
      then show ?thesis using runner_step.poll_quiet [OF polling 3(1)] running True ready 3(2) by fastforce
    qed
  qed
qed

section \<open>A sample run\<close>

definition sampleOptions :: TaskRunnerOptions where
  "sampleOptions = NewTaskRunner \<lparr>ro_MaxTotalTasks = 0, ro_MaxReplans = 0, ro_PollInterval = 0, ro_Concurrency = 0, ro_Backoff = None, ro_OnReplan = False\<rparr>"

lemma sample_options: "ro_MaxTotalTasks sampleOptions = 50" "ro_MaxReplans sampleOptions = 2" "ro_Concurrency sampleOptions = 1" "\<not> ro_OnReplan sampleOptions"
  by (simp_all add: sampleOptions_def NewTaskRunner_def)

lemma sample_ready: "map_option (map (\<lambda>t. (ta_ID t, metaInt (ta_Metadata t) ''retryBackoffTick''))) (GetReadyWork sampleStore) = Some [(''t2'', 0)]"
  by code_simp

lemma sample_fresh: "fresh_tasks sampleStore" "distinct (map fst (ts_tasks sampleStore))"
  by (simp_all add: fresh_tasks_def sampleStore_def sampleTask_def newTask_def)

lemma fresh_run [simp]:
  "tr_store (freshRun s) = s" "rn_batch (freshRun s) = []" "rn_workers (freshRun s) = (\<lambda>_. None)" "rn_log (freshRun s) = []" "\<not> rn_stopped (freshRun s)"
  "polling (freshRun s)" "terminalCount (freshRun s) = 0" "\<not> rn_admitted (freshRun s)" "rn_cancelling (freshRun s) = None" "\<not> rn_returned (freshRun s)"
  by (simp_all add: freshRun_def newRunner_def TaskRunner.extend_def polling_def terminalCount_def)

lemma terminalCount_run [simp]:
  "terminalCount (r\<lparr>rn_batch := b\<rparr>) = terminalCount r" "terminalCount (r\<lparr>rn_admitted := a\<rparr>) = terminalCount r"
  "terminalCount (r\<lparr>rn_workers := w\<rparr>) = terminalCount r" "terminalCount (r\<lparr>rn_log := l\<rparr>) = terminalCount r"
  "terminalCount (executeBegin i now r) = terminalCount r"
  by (simp_all add: terminalCount_def executeBegin_def)

lemma sample_checked:
  obtains r where "run_reaches sampleOptions sampleStore r" and "rn_workers r ''t2'' = Some Checked" and "rn_log r = []"
    and "\<not> rn_stopped r" and "terminalCount r = 0"
proof -
  obtain t where ready: "GetReadyWork sampleStore = Some [t]" and t: "ta_ID t = ''t2''" "metaInt (ta_Metadata t) ''retryBackoffTick'' = 0"
    using sample_ready by auto
  have due: "dueTasks sampleOptions [t] 0 = [t]" using t by (simp add: dueTasks_def)
  let ?r0 = "freshRun sampleStore"
  let ?r1 = "?r0\<lparr>rn_batch := [''t2'']\<rparr>"
  let ?r2 = "?r1\<lparr>rn_admitted := True\<rparr>"
  let ?r3 = "?r2\<lparr>rn_batch := [], rn_admitted := False, rn_workers := (rn_workers ?r2)(''t2'' \<mapsto> Queued)\<rparr>"
  let ?r4 = "?r3\<lparr>rn_workers := (rn_workers ?r3)(''t2'' \<mapsto> Checked)\<rparr>"
  have "runner_step sampleOptions ?r0 ?r1" using runner_step.poll_due [of ?r0 sampleOptions "[t]" 0 "[t]"] ready due t by (simp add: sample_options)
  moreover have "runner_step sampleOptions ?r1 ?r2" by (rule runner_step.admits) (simp_all add: sample_options)
  moreover have "runner_step sampleOptions ?r2 ?r3" by (rule runner_step.launches) (simp_all add: sample_options)
  moreover have "executeCheck sampleOptions ''t2'' ?r3"
    by (simp add: executeCheck_def sample_options sampleStore_def sampleTask_def task_Get_def)
  then have "runner_step sampleOptions ?r3 ?r4" by (intro runner_step.check_passes) simp_all
  ultimately have "run_reaches sampleOptions sampleStore ?r4" by (meson run_reaches.intros)
  then show thesis by (rule that) simp_all
qed

lemma sample_started:
  obtains r r' where "run_reaches sampleOptions sampleStore r" and "runner_step sampleOptions r r'" and "rn_log r' = rn_log r @ [(''t2'', EventStarted)]"
    and "run_reaches sampleOptions sampleStore r'" and "started r' ''t2'' = 1" and "\<not> rn_stopped r'"
proof -
  obtain r where r: "run_reaches sampleOptions sampleStore r" "rn_workers r ''t2'' = Some Checked" "rn_log r = []" "\<not> rn_stopped r" by (rule sample_checked)
  let ?r' = "(executeBegin ''t2'' 5 r)\<lparr>rn_workers := (rn_workers r)(''t2'' \<mapsto> Executing), rn_log := rn_log r @ [(''t2'', EventStarted)]\<rparr>"
  have step: "runner_step sampleOptions r ?r'" using r(2) by (rule runner_step.begins)
  then have "run_reaches sampleOptions sampleStore ?r'" using r(1) by (rule run_reaches.run_own [rotated])
  then show thesis using r step by (intro that [of r ?r']) (simp_all add: started_def executeBegin_def)
qed



theorem watchdog_bound_witness:
  "\<exists>r. run_reaches sampleOptions sampleStore r \<and> started r ''t2'' = 1 \<and> terminalCount r \<le> 50 + 1 - 1"
proof (rule sample_started)
  fix r r' assume r: "run_reaches sampleOptions sampleStore r'" "started r' ''t2'' = 1" "\<not> rn_stopped r'"
  show ?thesis using watchdog_bound [OF r(1) sample_fresh(2) _ _ r(3)] r by (auto simp: sample_options)
qed

definition orphanStore :: TaskStore where
  "orphanStore = \<lparr>ts_tasks = [sampleTask ''t1'' ''in_progress'' []], ts_next = 1\<rparr>"

lemma orphan_ready: "map_option (map ta_ID) (GetReadyWork orphanStore) = Some []"
  by code_simp

theorem run_goes_on_witness:
  "\<not> (\<exists>r'. runner_step sampleOptions (freshRun orphanStore) r') \<and> GetReadyWork orphanStore = Some []
   \<and> (\<exists>(_, t) \<in> set (ts_tasks orphanStore). inFlight (ta_Status t))"
proof -
  have none: "GetReadyWork orphanStore = Some []" using orphan_ready by simp
  moreover have "\<not> (\<forall>(_, t) \<in> set (ts_tasks orphanStore). \<not> inFlight (ta_Status t))" by (simp add: orphanStore_def sampleTask_def inFlight_def)
  ultimately have "quiescent orphanStore = Some False" by (simp add: quiescent_def)
  then have "\<not> runner_step sampleOptions (freshRun orphanStore) r'" for r'
    by (auto elim!: runner_step.cases simp: sample_options none dueTasks_def)
  moreover have "distinct (map fst (ts_tasks orphanStore))" by (simp add: orphanStore_def)
  ultimately show ?thesis using run_goes_on [of sampleOptions orphanStore "freshRun orphanStore"] by (simp add: sample_options run_begin)
qed

end
