(* ===== verification/Write_Behind.thy ===== *)
theory Write_Behind
  imports Event_Types
begin

text \<open>
  The write-behind controller of a session (\<open>internal/session/write_behind.go\<close>): events are queued and written in batches, in
  the background when a timer expires or by a flush that drains the queue. The producer, the callbacks of timers, the
  background writes and the flush interleave; a step is what the code does while it holds the lock. Timers that have fired
  may find the lock taken and run late, after they were stopped or replaced. Whether a write succeeds is chosen by the step.
\<close>

section \<open>State\<close>

text \<open>
  \<open>wb_timer\<close> is the timer the controller refers to, \<open>wb_running\<close> those that have not fired and \<open>wb_fired\<close> those whose callback
  waits for the lock. \<open>wb_batch\<close> is the batch of the active write, with its writer. \<open>wb_flush\<close> is where the flush that
  owns the barrier stands: it waits for the write it saw, drains, or has left the loop with a result. The last fields record
  the history: what was enqueued, what was written, the number of completed writes, and for the calls of \<open>Flush\<close> the
  result with the number of events enqueued before the call (\<open>wb_before\<close> of the owner, \<open>wb_joined\<close> of those who joined).
\<close>

datatype writer = Background | Drain

datatype flushPhase = Waiting nat | Draining | Drained bool

record 'e WriteBehind =
  wb_pending :: "'e list"
  wb_timer :: "nat option"
  wb_running :: "nat set"
  wb_fired :: "nat set"
  wb_made :: nat
  wb_batch :: "(writer \<times> 'e list) option"
  wb_flush :: "flushPhase option"
  wb_joined :: "nat list"
  wb_deadline :: bool
  wb_paused :: bool
  wb_queued :: "'e list"
  wb_written :: "'e list"
  wb_completed :: nat
  wb_before :: nat
  wb_returns :: "(bool \<times> nat) list"

definition NewWriteBehind :: "'e WriteBehind" where
  "NewWriteBehind = \<lparr>wb_pending = [], wb_timer = None, wb_running = {}, wb_fired = {}, wb_made = 0, wb_batch = None, wb_flush = None,
     wb_joined = [], wb_deadline = False, wb_paused = False, wb_queued = [], wb_written = [], wb_completed = 0, wb_before = 0, wb_returns = []\<rparr>"

definition wb_active :: "'e WriteBehind \<Rightarrow> bool" where
  "wb_active w \<longleftrightarrow> wb_batch w \<noteq> None"

definition HasWork :: "'e WriteBehind \<Rightarrow> bool" where
  "HasWork w \<longleftrightarrow> wb_pending w \<noteq> [] \<or> wb_active w"

definition PendingCount :: "'e WriteBehind \<Rightarrow> nat" where
  "PendingCount w = length (wb_pending w)"

section \<open>Operations under the lock\<close>

definition wb_armTimerLocked :: "'e WriteBehind \<Rightarrow> 'e WriteBehind" where
  "wb_armTimerLocked w = (if wb_timer w \<noteq> None then w
     else w\<lparr>wb_timer := Some (wb_made w), wb_running := insert (wb_made w) (wb_running w), wb_made := Suc (wb_made w)\<rparr>)"

definition cancelTimerLocked :: "'e WriteBehind \<Rightarrow> 'e WriteBehind" where
  "cancelTimerLocked w = (case wb_timer w of None \<Rightarrow> w | Some n \<Rightarrow> w\<lparr>wb_running := wb_running w - {n}, wb_timer := None\<rparr>)"

definition Enqueue :: "'e \<Rightarrow> 'e WriteBehind \<Rightarrow> 'e WriteBehind" where
  "Enqueue ev w0 = (let wasEmpty = (wb_pending w0 = []);
     w = w0\<lparr>wb_pending := wb_pending w0 @ [ev], wb_queued := wb_queued w0 @ [ev]\<rparr> in
     if wb_flush w \<noteq> None then w
     else if wb_paused w then wb_armTimerLocked (w\<lparr>wb_paused := False, wb_deadline := False\<rparr>)
     else if wasEmpty then wb_armTimerLocked w
     else w)"

definition takeBatch :: "writer \<Rightarrow> 'e WriteBehind \<Rightarrow> 'e WriteBehind" where
  "takeBatch who w = (cancelTimerLocked w)\<lparr>wb_batch := Some (who, wb_pending w), wb_pending := [], wb_deadline := False\<rparr>"

definition startBackgroundLocked :: "'e WriteBehind \<Rightarrow> 'e WriteBehind" where
  "startBackgroundLocked = takeBatch Background"

definition wb_timerCallback :: "nat \<Rightarrow> 'e WriteBehind \<Rightarrow> 'e WriteBehind" where
  "wb_timerCallback n w0 = (let w = w0\<lparr>wb_fired := wb_fired w0 - {n}, wb_timer := None\<rparr> in
     if wb_active w then w\<lparr>wb_deadline := True\<rparr>
     else if wb_pending w = [] then w
     else startBackgroundLocked w)"

definition requeue :: "'e list \<Rightarrow> 'e WriteBehind \<Rightarrow> 'e WriteBehind" where
  "requeue batch w = (cancelTimerLocked w)\<lparr>wb_pending := batch @ wb_pending w, wb_deadline := False, wb_paused := True\<rparr>"

text \<open>The end of a write, of either writer; \<open>ok\<close> tells whether the backend confirmed it.\<close>

definition endWrite :: "bool \<Rightarrow> 'e list \<Rightarrow> 'e WriteBehind \<Rightarrow> 'e WriteBehind" where
  "endWrite ok batch w = (let w1 = w\<lparr>wb_batch := None, wb_completed := Suc (wb_completed w)\<rparr> in
     if ok then w1\<lparr>wb_written := wb_written w @ batch\<rparr> else requeue batch w1)"

definition endBackground :: "bool \<Rightarrow> 'e list \<Rightarrow> 'e WriteBehind \<Rightarrow> 'e WriteBehind" where
  "endBackground ok batch w0 = (let w = endWrite ok batch w0 in
     if ok \<and> wb_deadline w \<and> wb_pending w \<noteq> [] \<and> wb_flush w = None then startBackgroundLocked (w\<lparr>wb_deadline := False\<rparr>) else w)"

definition endDrainWrite :: "bool \<Rightarrow> 'e list \<Rightarrow> 'e WriteBehind \<Rightarrow> 'e WriteBehind" where
  "endDrainWrite ok batch w = (endWrite ok batch w)\<lparr>wb_flush := Some (if ok then Draining else Drained False)\<rparr>"

text \<open>One pass of the loop of \<open>drain\<close>.\<close>

definition drainPass :: "'e WriteBehind \<Rightarrow> 'e WriteBehind" where
  "drainPass w = (if wb_active w then w\<lparr>wb_flush := Some (Waiting (Suc (wb_completed w)))\<rparr>
     else if wb_pending w = [] then w\<lparr>wb_flush := Some (Drained True)\<rparr>
     else takeBatch Drain w)"

definition Flush_begin :: "'e WriteBehind \<Rightarrow> 'e WriteBehind" where
  "Flush_begin w = (if wb_flush w \<noteq> None then w\<lparr>wb_joined := wb_joined w @ [length (wb_queued w)]\<rparr>
     else (cancelTimerLocked w)\<lparr>wb_deadline := False, wb_paused := False, wb_before := length (wb_queued w),
       wb_flush := Some (if wb_active w then Waiting (Suc (wb_completed w)) else Draining)\<rparr>)"

text \<open>The owner of the barrier returns its result, those who joined it return without error.\<close>

definition Flush_end :: "bool \<Rightarrow> 'e WriteBehind \<Rightarrow> 'e WriteBehind" where
  "Flush_end ok w = w\<lparr>wb_flush := None, wb_joined := [], wb_returns := wb_returns w @ (ok, wb_before w) # map (\<lambda>n. (True, n)) (wb_joined w)\<rparr>"

definition CancelAutomaticWait :: "'e WriteBehind \<Rightarrow> 'e WriteBehind" where
  "CancelAutomaticWait w = (cancelTimerLocked w)\<lparr>wb_deadline := False\<rparr>"

section \<open>Interleavings\<close>

datatype 'e wbStep = StEnqueue 'e | StFlush | StCancel | StFire nat | StCallback nat | StBackground bool | StResume | StDrain | StDrainWrite bool | StReturn

text \<open>What each step does, where it is possible.\<close>

fun wb_step :: "'e wbStep \<Rightarrow> 'e WriteBehind \<Rightarrow> 'e WriteBehind option" where
  "wb_step (StEnqueue ev) w = Some (Enqueue ev w)"
| "wb_step StFlush w = Some (Flush_begin w)"
| "wb_step StCancel w = Some (CancelAutomaticWait w)"
| "wb_step (StFire n) w = (if n \<in> wb_running w then Some (w\<lparr>wb_running := wb_running w - {n}, wb_fired := insert n (wb_fired w)\<rparr>) else None)"
| "wb_step (StCallback n) w = (if n \<in> wb_fired w then Some (wb_timerCallback n w) else None)"
| "wb_step (StBackground ok) w = (case wb_batch w of Some (Background, batch) \<Rightarrow> Some (endBackground ok batch w) | _ \<Rightarrow> None)"
| "wb_step StResume w = (case wb_flush w of Some (Waiting n) \<Rightarrow> if n \<le> wb_completed w then Some (w\<lparr>wb_flush := Some Draining\<rparr>) else None | _ \<Rightarrow> None)"
| "wb_step StDrain w = (if wb_flush w = Some Draining \<and> (\<forall>batch. wb_batch w \<noteq> Some (Drain, batch)) then Some (drainPass w) else None)"
| "wb_step (StDrainWrite ok) w = (case wb_batch w of Some (Drain, batch) \<Rightarrow> Some (endDrainWrite ok batch w) | _ \<Rightarrow> None)"
| "wb_step StReturn w = (case wb_flush w of Some (Drained ok) \<Rightarrow> Some (Flush_end ok w) | _ \<Rightarrow> None)"

fun wb_run :: "'e wbStep list \<Rightarrow> 'e WriteBehind \<Rightarrow> 'e WriteBehind option" where
  "wb_run [] w = Some w"
| "wb_run (st # sts) w = (case wb_step st w of None \<Rightarrow> None | Some w' \<Rightarrow> wb_run sts w')"

section \<open>Order\<close>

definition inflight :: "'e WriteBehind \<Rightarrow> 'e list" where
  "inflight w = (case wb_batch w of None \<Rightarrow> [] | Some (_, batch) \<Rightarrow> batch)"

definition ordered :: "'e WriteBehind \<Rightarrow> bool" where
  "ordered w \<longleftrightarrow> wb_written w @ inflight w @ wb_pending w = wb_queued w"

lemmas wb_ops = wb_armTimerLocked_def cancelTimerLocked_def Enqueue_def takeBatch_def startBackgroundLocked_def wb_timerCallback_def requeue_def
  endWrite_def endBackground_def endDrainWrite_def drainPass_def Flush_begin_def Flush_end_def CancelAutomaticWait_def wb_active_def Let_def

text \<open>The timers are not part of what is said about the queue.\<close>

lemma timers_only [simp]:
  "wb_pending (wb_armTimerLocked w) = wb_pending w" "wb_batch (wb_armTimerLocked w) = wb_batch w" "wb_written (wb_armTimerLocked w) = wb_written w"
  "wb_queued (wb_armTimerLocked w) = wb_queued w" "wb_flush (wb_armTimerLocked w) = wb_flush w" "wb_before (wb_armTimerLocked w) = wb_before w"
  "wb_paused (wb_armTimerLocked w) = wb_paused w" "wb_deadline (wb_armTimerLocked w) = wb_deadline w" "wb_completed (wb_armTimerLocked w) = wb_completed w"
  "wb_pending (cancelTimerLocked w) = wb_pending w" "wb_batch (cancelTimerLocked w) = wb_batch w" "wb_written (cancelTimerLocked w) = wb_written w"
  "wb_queued (cancelTimerLocked w) = wb_queued w" "wb_flush (cancelTimerLocked w) = wb_flush w" "wb_before (cancelTimerLocked w) = wb_before w"
  "wb_paused (cancelTimerLocked w) = wb_paused w" "wb_deadline (cancelTimerLocked w) = wb_deadline w" "wb_completed (cancelTimerLocked w) = wb_completed w"
  "wb_fired (cancelTimerLocked w) = wb_fired w"
  by (simp_all add: wb_armTimerLocked_def cancelTimerLocked_def split: option.splits)

lemma ordered_step: "ordered w \<Longrightarrow> wb_step st w = Some w' \<Longrightarrow> ordered w'"
  by (cases "(st, w)" rule: wb_step.cases)
    (auto simp: ordered_def inflight_def Enqueue_def takeBatch_def startBackgroundLocked_def wb_timerCallback_def requeue_def
      endWrite_def endBackground_def endDrainWrite_def drainPass_def Flush_begin_def Flush_end_def CancelAutomaticWait_def wb_active_def Let_def
      split: if_splits option.splits prod.splits writer.splits flushPhase.splits)

lemma wb_run_induct:
  assumes "wb_run sts w = Some w'" and "P w" and "\<And>st u u'. st \<in> set sts \<Longrightarrow> P u \<Longrightarrow> wb_step st u = Some u' \<Longrightarrow> P u'"
  shows "P w'"
  using assms
proof (induction sts arbitrary: w)
  case (Cons st sts)
  from Cons.prems(1) obtain u where u: "wb_step st w = Some u" "wb_run sts u = Some w'" by (auto split: option.splits)
  show ?case by (rule Cons.IH [OF u(2)]) (use Cons.prems u(1) in auto)
qed simp

lemma ordered_run: "wb_run sts NewWriteBehind = Some w \<Longrightarrow> ordered w"
  by (erule wb_run_induct [where P = ordered]) (simp add: ordered_def inflight_def NewWriteBehind_def, rule ordered_step)

text \<open>
  C13. \<^bold>\<open>No event is lost, doubled or reordered.\<close> However producers, timers, background writes and flushes interleave and whichever
  writes fail, the confirmed events, the batch being written and the queue are together the events enqueued, in order.
\<close>

theorem write_order_kept:
  assumes "wb_run sts NewWriteBehind = Some w"
  shows "wb_queued w = wb_written w @ (case wb_batch w of None \<Rightarrow> [] | Some (_, batch) \<Rightarrow> batch) @ wb_pending w"
  using ordered_run [OF assms] by (simp add: ordered_def inflight_def)

section \<open>Flushing\<close>

text \<open>What the owner of the barrier has reached: if its drain succeeded, the events before it are written.\<close>

definition drained :: "'e WriteBehind \<Rightarrow> bool" where
  "drained w \<longleftrightarrow> ordered w \<and> wb_before w \<le> length (wb_queued w) \<and> (wb_flush w = Some (Drained True) \<longrightarrow> wb_before w \<le> length (wb_written w))"

lemma drained_step:
  assumes "drained w" and "wb_step st w = Some w'"
  shows "drained w'"
proof -
  have ordered: "ordered w'" using assms ordered_step by (auto simp: drained_def)
  have full: "\<forall>a b. wb_batch w \<noteq> Some (a, b) \<Longrightarrow> wb_pending w = [] \<Longrightarrow> wb_written w = wb_queued w"
    using assms(1) by (cases "wb_batch w") (auto simp: drained_def ordered_def inflight_def)
  have "wb_before w' \<le> length (wb_queued w') \<and> (wb_flush w' = Some (Drained True) \<longrightarrow> wb_before w' \<le> length (wb_written w'))"
    using assms full
    by (cases "(st, w)" rule: wb_step.cases)
      (auto simp: drained_def Enqueue_def takeBatch_def startBackgroundLocked_def wb_timerCallback_def requeue_def
        endWrite_def endBackground_def endDrainWrite_def drainPass_def Flush_begin_def Flush_end_def CancelAutomaticWait_def wb_active_def Let_def
        split: if_splits option.splits prod.splits writer.splits flushPhase.splits)
  with ordered show ?thesis by (simp add: drained_def)
qed

lemma drained_run: "wb_run sts NewWriteBehind = Some w \<Longrightarrow> drained w"
  by (erule wb_run_induct [where P = drained]) (simp add: drained_def ordered_def inflight_def NewWriteBehind_def, rule drained_step)

text \<open>
  C31. \<^bold>\<open>A flush that succeeds has written.\<close> When the flush that owns the barrier returns without error, every event enqueued before
  it was called is among the confirmed ones. (A flush that joins the barrier of another returns without error in any case.)
\<close>

theorem flush_durable:
  assumes "wb_run sts NewWriteBehind = Some w" and "wb_flush w = Some (Drained True)"
  shows "wb_step StReturn w = Some (Flush_end True w) \<and> (True, wb_before w) \<in> set (wb_returns (Flush_end True w))
    \<and> (\<exists>later. wb_written w = take (wb_before w) (wb_queued w) @ later)"
proof -
  have "drained w" using drained_run [OF assms(1)] .
  then have "wb_before w \<le> length (wb_written w)" "wb_queued w = wb_written w @ inflight w @ wb_pending w"
    using assms(2) by (auto simp: drained_def ordered_def)
  then have "take (wb_before w) (wb_queued w) @ drop (wb_before w) (wb_written w) = wb_written w" by simp
  then show ?thesis using assms(2) by (auto simp: Flush_end_def intro: exI [of _ "drop (wb_before w) (wb_written w)"])
qed

lemma joined_flush_reports_success:
  "\<exists>w. wb_run [StEnqueue (1 :: nat), StFlush, StDrain, StFlush, StDrainWrite False, StReturn] NewWriteBehind = Some w
    \<and> wb_returns w = [(False, 1), (True, 1)] \<and> wb_written w = []"
  by (simp add: NewWriteBehind_def wb_ops)

section \<open>The automatic path\<close>

text \<open>Some timer is running or has fired.\<close>

definition timed :: "'e WriteBehind \<Rightarrow> bool" where
  "timed w \<longleftrightarrow> wb_running w \<noteq> {} \<or> wb_fired w \<noteq> {}"

definition timer_ok :: "'e WriteBehind \<Rightarrow> bool" where
  "timer_ok w \<longleftrightarrow> (case wb_timer w of None \<Rightarrow> True | Some n \<Rightarrow> n \<in> wb_running w \<union> wb_fired w)"

definition attended :: "'e WriteBehind \<Rightarrow> bool" where
  "attended w \<longleftrightarrow> timer_ok w
     \<and> (wb_flush w = Some (Drained True) \<longrightarrow> wb_pending w = [] \<and> wb_batch w = None)
     \<and> (wb_flush w = Some (Drained False) \<longrightarrow> wb_paused w)
     \<and> (wb_pending w \<noteq> [] \<longrightarrow> wb_flush w \<noteq> None \<or> wb_paused w \<or> timed w \<or> wb_active w \<and> wb_deadline w)"

text \<open>An event enqueued after the drain of a flush has seen the queue empty and before the flush returns, and a cancelled wait.\<close>

fun unattended :: "'e wbStep \<Rightarrow> 'e WriteBehind \<Rightarrow> bool" where
  "unattended (StEnqueue ev) w \<longleftrightarrow> wb_flush w = Some (Drained True)"
| "unattended StCancel w \<longleftrightarrow> True"
| "unattended _ w \<longleftrightarrow> False"

lemma arm_timed: "timer_ok w \<Longrightarrow> timed (wb_armTimerLocked w) \<and> timer_ok (wb_armTimerLocked w)"
  by (auto simp: wb_armTimerLocked_def timed_def timer_ok_def split: option.splits)

lemma no_timer_ok: "wb_timer w = None \<Longrightarrow> timer_ok w"
  by (simp add: timer_ok_def)

lemma cancel_timer [simp]: "wb_timer (cancelTimerLocked w) = None"
  by (simp add: cancelTimerLocked_def split: option.split)

lemma attended_enqueue:
  assumes "attended w" and "wb_flush w \<noteq> Some (Drained True)"
  shows "attended (Enqueue ev w)"
proof -
  let ?w = "w\<lparr>wb_pending := wb_pending w @ [ev], wb_queued := wb_queued w @ [ev]\<rparr>"
  have timer: "timer_ok v" if "v = ?w \<or> v = ?w\<lparr>wb_paused := False, wb_deadline := False\<rparr>" for v
    using assms(1) that by (auto simp: attended_def timer_ok_def split: option.splits)
  show ?thesis
  proof (cases "wb_flush w \<noteq> None \<or> \<not> wb_paused w \<and> wb_pending w \<noteq> []")
    case True
    then show ?thesis using assms timer [of ?w] by (auto simp: attended_def Enqueue_def timed_def wb_active_def Let_def)
  next
    case False
    then have "Enqueue ev w = wb_armTimerLocked (if wb_paused w then ?w\<lparr>wb_paused := False, wb_deadline := False\<rparr> else ?w)"
      by (auto simp: Enqueue_def Let_def)
    then show ?thesis using False arm_timed [OF timer] by (auto simp: attended_def)
  qed
qed

lemma attended_take: "wb_flush w \<noteq> Some (Drained True) \<Longrightarrow> (wb_flush w = Some (Drained False) \<longrightarrow> wb_paused w) \<Longrightarrow> attended (takeBatch who w)"
  by (auto simp: attended_def takeBatch_def no_timer_ok)

lemma attended_callback: "attended w \<Longrightarrow> attended (wb_timerCallback n w)"
  using attended_take [of "w\<lparr>wb_fired := wb_fired w - {n}, wb_timer := None\<rparr>" Background]
  by (auto simp: wb_timerCallback_def startBackgroundLocked_def attended_def no_timer_ok wb_active_def Let_def)

lemma attended_requeue: "wb_flush w \<noteq> Some (Drained True) \<Longrightarrow> attended (requeue batch w)"
  by (auto simp: attended_def requeue_def no_timer_ok)

lemma attended_background:
  assumes "attended w" and "wb_batch w = Some (Background, batch)"
  shows "attended (endBackground ok batch w)"
proof -
  have flush: "wb_flush w \<noteq> Some (Drained True)" using assms by (auto simp: attended_def)
  show ?thesis
  proof (cases ok)
    case True
    then show ?thesis
      using assms attended_take [of "(endWrite True batch w)\<lparr>wb_deadline := False\<rparr>" Background]
      by (auto simp: endBackground_def endWrite_def startBackgroundLocked_def attended_def timer_ok_def timed_def wb_active_def Let_def split: option.splits)
  next
    case False
    then show ?thesis using flush attended_requeue [of "w\<lparr>wb_batch := None, wb_completed := Suc (wb_completed w)\<rparr>" batch]
      by (simp add: endBackground_def endWrite_def Let_def)
  qed
qed

lemma attended_drain_write:
  assumes "attended w"
  shows "attended (endDrainWrite ok batch w)"
proof (cases ok)
  case True
  have "timer_ok (endDrainWrite True batch w) = timer_ok w" by (simp add: timer_ok_def endDrainWrite_def endWrite_def Let_def split: option.split)
  then show ?thesis using assms True by (simp add: attended_def) (simp add: endDrainWrite_def)
next
  case False
  have "timer_ok (endDrainWrite False batch w)" by (rule no_timer_ok) (simp add: endDrainWrite_def endWrite_def requeue_def Let_def)
  then show ?thesis using False by (simp add: attended_def) (simp add: endDrainWrite_def endWrite_def requeue_def Let_def)
qed

lemma no_pair [simp]: "(\<forall>a b. x \<noteq> Some (a, b)) \<longleftrightarrow> x = None"
  by (cases x) auto

lemma timer_ok_flush [simp]: "timer_ok (w\<lparr>wb_flush := f\<rparr>) = timer_ok w"
  by (simp add: timer_ok_def split: option.split)

lemma attended_pass:
  assumes "attended w" and "wb_flush w = Some Draining"
  shows "attended (drainPass w)"
proof -
  consider "wb_active w" | "\<not> wb_active w" "wb_pending w = []" | "\<not> wb_active w" "wb_pending w \<noteq> []" by blast
  then show ?thesis
  proof cases
    case 3
    then show ?thesis using attended_take [of w Drain] assms(2) by (simp add: drainPass_def)
  qed (use assms in \<open>simp_all add: drainPass_def attended_def wb_active_def\<close>)
qed

lemma attended_flush: "attended w \<Longrightarrow> attended (Flush_begin w)"
  by (auto simp: Flush_begin_def attended_def timer_ok_def timed_def wb_active_def split: option.splits)

lemma attended_return: "attended w \<Longrightarrow> wb_flush w = Some (Drained ok) \<Longrightarrow> attended (Flush_end ok w)"
  by (cases ok) (auto simp: Flush_end_def attended_def timer_ok_def split: option.splits)

lemma attended_fire: "attended w \<Longrightarrow> n \<in> wb_running w \<Longrightarrow> attended (w\<lparr>wb_running := wb_running w - {n}, wb_fired := insert n (wb_fired w)\<rparr>)"
  by (auto simp: attended_def timer_ok_def timed_def wb_active_def split: option.splits)

lemma attended_step:
  assumes "attended w" and "wb_step st w = Some w'" and "\<not> unattended st w"
  shows "attended w'"
proof (cases st)
  case StResume
  then show ?thesis using assms by (auto simp: attended_def timer_ok_def timed_def wb_active_def split: option.splits flushPhase.splits if_splits)
qed (use assms attended_enqueue attended_callback attended_background attended_drain_write attended_pass attended_flush attended_return attended_fire
    in \<open>auto split: option.splits prod.splits writer.splits flushPhase.splits if_splits\<close>)

text \<open>No step of the run leaves events unattended.\<close>

fun attentive :: "'e wbStep list \<Rightarrow> 'e WriteBehind \<Rightarrow> bool" where
  "attentive [] w \<longleftrightarrow> True"
| "attentive (st # sts) w \<longleftrightarrow> \<not> unattended st w \<and> (case wb_step st w of None \<Rightarrow> True | Some w' \<Rightarrow> attentive sts w')"

lemma attended_run: "wb_run sts w = Some w' \<Longrightarrow> attended w \<Longrightarrow> attentive sts w \<Longrightarrow> attended w'"
proof (induction sts arbitrary: w)
  case (Cons st sts)
  then show ?case using attended_step by (auto split: option.splits)
qed simp

text \<open>
  C20. \<^bold>\<open>Queued events get written.\<close> As long as no automatic wait is cancelled and no event arrives between the last look of a
  flush at the queue and its return, queued events always have a flush, a timer or an active write whose deadline has
  passed to take them, or the automatic path is paused after a failure and the next event resumes it.
\<close>

theorem queued_events_attended:
  assumes "wb_run sts NewWriteBehind = Some w" and "attentive sts NewWriteBehind" and "wb_pending w \<noteq> []" and "wb_flush w = None"
  shows "wb_paused w \<or> wb_running w \<noteq> {} \<or> wb_fired w \<noteq> {} \<or> wb_batch w \<noteq> None \<and> wb_deadline w"
proof -
  have "attended w" using attended_run [OF assms(1) _ assms(2)] by (simp add: attended_def timer_ok_def NewWriteBehind_def)
  then show ?thesis using assms(3,4) by (auto simp: attended_def timed_def wb_active_def)
qed

definition stranded :: "'e WriteBehind \<Rightarrow> bool" where
  "stranded w \<longleftrightarrow> wb_pending w \<noteq> [] \<and> wb_batch w = None \<and> wb_timer w = None \<and> wb_running w = {} \<and> wb_fired w = {}
     \<and> wb_flush w = None \<and> \<not> wb_paused w"

lemma stranded_step: "stranded w \<Longrightarrow> wb_step st w = Some w' \<Longrightarrow> st \<noteq> StFlush \<Longrightarrow> stranded w' \<and> wb_written w' = wb_written w"
  by (cases "(st, w)" rule: wb_step.cases) (auto simp: stranded_def Enqueue_def CancelAutomaticWait_def cancelTimerLocked_def Let_def)

lemma stranded_run: "wb_run sts w = Some w' \<Longrightarrow> stranded w \<Longrightarrow> StFlush \<notin> set sts \<Longrightarrow> stranded w' \<and> wb_written w' = wb_written w"
proof (induction sts arbitrary: w)
  case (Cons st sts)
  then show ?case using stranded_step by (auto split: option.splits)
qed simp



theorem write_order_kept_witness:
  "\<exists>w. wb_run [StEnqueue (1 :: nat), StFire 0, StCallback 0, StEnqueue 2, StBackground False] NewWriteBehind = Some w \<and> wb_pending w = [1, 2]
    \<and> wb_queued w = wb_written w @ (case wb_batch w of None \<Rightarrow> [] | Some (_, batch) \<Rightarrow> batch) @ wb_pending w"
proof -
  obtain w where "wb_run [StEnqueue (1 :: nat), StFire 0, StCallback 0, StEnqueue 2, StBackground False] NewWriteBehind = Some w" "wb_pending w = [1, 2]"
    by (simp add: NewWriteBehind_def wb_ops)
  with write_order_kept show ?thesis by blast
qed

theorem flush_durable_witness:
  "\<exists>w. wb_run [StEnqueue (1 :: nat), StFlush, StDrain, StDrainWrite True, StDrain] NewWriteBehind = Some w \<and> wb_before w = 1
    \<and> (\<exists>later. wb_written w = take (wb_before w) (wb_queued w) @ later)"
proof -
  obtain w where "wb_run [StEnqueue (1 :: nat), StFlush, StDrain, StDrainWrite True, StDrain] NewWriteBehind = Some w" "wb_flush w = Some (Drained True)" "wb_before w = 1"
    by (simp add: NewWriteBehind_def wb_ops)
  with flush_durable show ?thesis by blast
qed

theorem queued_events_attended_witness:
  "\<exists>w. wb_run [StEnqueue (1 :: nat), StFire 0, StCallback 0, StEnqueue 2, StBackground True] NewWriteBehind = Some w \<and> wb_pending w = [2]
    \<and> (wb_paused w \<or> wb_running w \<noteq> {} \<or> wb_fired w \<noteq> {} \<or> wb_batch w \<noteq> None \<and> wb_deadline w)"
proof -
  let ?sts = "[StEnqueue (1 :: nat), StFire 0, StCallback 0, StEnqueue 2, StBackground True]"
  have "attentive ?sts NewWriteBehind" by (simp add: NewWriteBehind_def wb_ops)
  moreover obtain w where "wb_run ?sts NewWriteBehind = Some w" "wb_pending w = [2]" "wb_flush w = None" by (simp add: NewWriteBehind_def wb_ops)
  ultimately show ?thesis using queued_events_attended by (metis list.distinct(1))
qed

end
