(* ===== verification/Spec2Isabelle.thy ===== *)
theory Spec2Isabelle
  imports Event_Surface Event_Pairing Event_Projection Event_Wire Event_Chunks Autonomy Grants
    Governance Spec_Workflow Permission_Audit Command_Class Command_Screen Tool_Output
    Auto_Mode Decision_Hooks Permission_Metrics Permission_Engine Stable_Rules Turn_Recovery Approval_Gate
    Permission_Service Execution_Graph Spec_Dag Schedule Compaction Transcript Circuit_Breaker Auto_Compact
    Task_Store Task_Schedule Task_Runner Write_Behind
begin

text \<open>
  hawk is a coding agent for the terminal, written in Go. A session alternates between a language model and tools:
  the model asks for tool calls, the permission layer decides whether each call may run, and everything that happens
  is appended to an event log from which transcripts, statistics and resumed sessions are computed. Before a turn the
  conversation is reduced to the window of the model, and work can be split into tasks and reminders. This development
  models the parts that decide what is recorded, what is allowed to run, what the model still sees and which work is
  done when. Sources are named relative to \<open>src/\<close>.

  \<^bold>\<open>The event log\<close> (\<open>internal/eventlog\<close>).
  \<^item> \<open>Event_Types\<close> has the vocabulary of event types and the payload structs (\<open>event.go\<close>, \<open>boundary.go\<close>,
    \<open>lifecycle.go\<close>), \<open>Event_Log\<close> the log with its append methods (\<open>log.go\<close> and the \<open>Append*\<close> helpers). The log keeps
    its index, its numbering and its listener in step with what is stored, and never panics in a helper.
  \<^item> \<open>Event_Surface\<close> has the fold that computes which events the model sees after compaction and the incremental
    \<open>SurfaceManager\<close> (\<open>surface.go\<close>): nodes and shadowed events partition the eligible events, and the manager refines
    the fold.
  \<^item> \<open>Event_Invariants\<close> has the two validators (\<open>invariants.go\<close>), with what acceptance means for the nesting of turns
    and the pairing of tool calls; \<open>Event_Pairing\<close> the safe compaction ranges (\<open>pairing.go\<close>); \<open>Event_Projection\<close> the
    messages, statistics and permission views (\<open>projection.go\<close>, \<open>acp_codec.go\<close>).
  \<^item> \<open>Event_Codec\<close>, \<open>Event_Wire\<close> and \<open>Event_Chunks\<close> have the JSON form of every payload, the wire encoding and the
    packed rows of a stored session (\<open>wire.go\<close>, \<open>chunk_rows.go\<close>), with their round trips. JSON is the datatype of
    \<open>Go_Json\<close>; the text of a JSON value is not modelled.
  \<^item> \<open>Write_Behind\<close> is the controller that writes the events of a session in batches (\<open>internal/session/write_behind.go\<close>),
    with producers, late timers, background writes and flushes interleaved: no event is lost, doubled or reordered, a
    successful flush has written what came before it, and queued events are attended to but for one race, which it states.

  \<^bold>\<open>The permission layer\<close> (\<open>internal/engine\<close>, \<open>internal/engine/safety\<close>, \<open>internal/permissions\<close>,
  \<open>internal/governance\<close>, \<open>internal/hooks\<close>, \<open>internal/tool\<close>).
  \<^item> \<open>Tool_Policy\<close> has the alias and capability tables and the summaries of calls, \<open>Autonomy\<close> the five tiers and
    their profiles, \<open>Permission_Memory\<close> the remembered rules, \<open>Grants\<close> the unified view over rule stores,
    \<open>Auto_Mode\<close> the learned answers and the bypass switch, \<open>Stable_Rules\<close> the exact rules with stable ids.
  \<^item> \<open>Command_Class\<close> and \<open>Command_Screen\<close> have the screens for shell commands and paths (\<open>advanced.go\<close>, \<open>bash.go\<close>,
    \<open>safety.go\<close>), on the matcher of \<open>Go_Regexp\<close> for the regular expressions the code compiles; \<open>Tool_Output\<close> has the
    truncation of output.
  \<^item> \<open>Governance\<close> has the administrator's ceiling, \<open>Decision_Hooks\<close> the hook registry, \<open>Spec_Workflow\<close> the workflow
    of a specification, \<open>Permission_Audit\<close> and \<open>Permission_Metrics\<close> the trail.
  \<^item> \<open>Permission_Engine\<close> composes them: \<open>evaluateToolDecision\<close> with every gate in the order of the code. No call is
    allowed without a ground, the ceilings hold at every tier and under the bypass, the preview agrees with the check,
    and the audit trail is complete.
  \<^item> \<open>Turn_Recovery\<close> and \<open>Approval_Gate\<close> have the human approval of high-risk actions, exact in what it lets through and
    in what it journals; \<open>Permission_Service\<close> has the session's service around the engine and the delegation of a
    policy to sub-agents.

  \<^bold>\<open>The conversation\<close> (\<open>internal/engine\<close>, \<open>internal/relevanceprune\<close>, \<open>internal/circuitbreaker\<close>).
  \<^item> \<open>Transcript\<close> has the session's messages and their journal (\<open>journal.go\<close>, \<open>persistence_service.go\<close>): what the model
    sees is what the journal projects to. It also has the repair of an interrupted turn and the collapsing of repeats
    (\<open>ctxmgr/context_collapse.go\<close>), with the exact condition under which collapsing loses an answer.
  \<^item> \<open>Compaction\<close> has the single reductions: truncation, session memory, the insertion of a summary, microcompaction and
    the clearing of tool output (\<open>engine.go\<close>, \<open>compact*.go\<close>, \<open>compact/\<close>). Each is related to \<open>paired\<close>, the condition
    providers put on tool calls and results.
  \<^item> \<open>Auto_Compact\<close> chooses among them before a turn (\<open>compact_auto.go\<close>, \<open>context_governor.go\<close>, the split of a turn, pruning
    by relevance, \<open>ctxmgr/context_budget.go\<close>), guarded by the breaker of \<open>Circuit_Breaker\<close>.

  \<^bold>\<open>Work\<close> (\<open>internal/tool\<close>, \<open>internal/spec\<close>, \<open>internal/schedule\<close>, \<open>internal/executiongraph\<close>).
  \<^item> \<open>Task_Store\<close> has the structured tasks (\<open>task_create.go\<close>, \<open>task_runner.go\<close>) and when their ids are fresh,
    \<open>Task_Schedule\<close> the waves and the ready tasks of the blocking dependencies (\<open>task_schedule.go\<close>), equal to the layers of
    the blocking order. \<open>Task_Runner\<close> is the executor (\<open>task_executor.go\<close>): loop, goroutines, a cancellation and other users
    are steps that interleave, and blockers come first, executions are bounded, and a run can go on, in every one of them.
  \<^item> \<open>Spec_Dag\<close> has the artifacts of a specification and their order (\<open>dag.go\<close>), \<open>Schedule\<close> the reminders, with timers
    whose callbacks come late (\<open>manager.go\<close>, \<open>fold.go\<close>), \<open>Execution_Graph\<close> the export of a session as a graph that keeps
    metadata only.

  \<^bold>\<open>Interfaces.\<close> Locales state what one part relies on in another: an append-only store with an index
  (\<open>Event_Log\<close>), the codec of a payload (\<open>Go_Json\<close>), a scan that stops at the first error (\<open>Go_Prelude\<close>), stores that publish
  their decisions as grants (\<open>Grants\<close>, interpreted by the rule memory and the learned answers), an exact map of answers
  (\<open>Stable_Rules\<close>) and the construction of a graph (\<open>Execution_Graph\<close>). Each is interpreted on the definitions of the model.

  \<^bold>\<open>Conventions.\<close> Go strings are byte strings (\<open>string\<close>); \<open>ToLower\<close> and \<open>TrimSpace\<close> act on ASCII, so letters and
  spaces outside ASCII are left alone. \<open>uint64\<close> is a 64-bit word and wraps; \<open>int\<close> is an integer with the wrap-around
  written where arithmetic may overflow. A map is an association list where its order can be observed and a function
  otherwise. Errors are values of datatypes, panics the left side of a sum. A method under a lock is one step; what runs
  concurrently is an \<open>inductive\<close> step relation. Values that come from outside are arguments: the time, the file system, the
  environment, hook and prompt functions, SHA-256, summaries and token counts, and the parser of argument text. Loops are
  structural recursion or \<open>function\<close> with a measure. Those the code does not bound (the orders of \<open>Spec_Dag\<close> and the waves
  of \<open>Task_Schedule\<close>) are \<open>partial_function (option)\<close> and proved to return where the code does; there is no fuel.

  \<^bold>\<open>Not modelled\<close>: the terminal interface (\<open>cmd\<close>), model providers and streaming (\<open>internal/provider\<close>,
  \<open>internal/engine/stream.go\<close>), the execution of tools, MCP, the daemon, export formats and file storage, which are
  dominated by input and output or by concurrency over channels; of \<open>internal/permissions\<close> the screens for egress, prompt
  injection and vulnerable packages, and the language-model guardian; of the conversation the graph of branches and the
  texts of summaries.
\<close>

end
